(* ===== verification/Prelude.thy ===== *)
theory Prelude
  imports Main "HOL-Library.Sublist" "HOL-Library.Word" "HOL-Library.Char_ord"
    "HOL-Library.List_Lexorder" "HOL-Library.Multiset"
begin

text \<open>
  What every component of the model shares: Go's basic data (byte strings, instants, durations,
  64-bit integers) and the part of the Go standard library the code under \<open>src/internal\<close> calls
  on them (\<open>strings\<close>, \<open>strconv\<close>, \<open>slices\<close>, \<open>time\<close>), with the lemmas the component proofs
  reuse.

  A Go string is its list of bytes, so it is HOL's \<open>string\<close> (a \<open>char\<close> is one byte) and
  \<open>length\<close> is Go's \<open>len\<close>. Case mapping and white space are those of ASCII: bytes from 128 on are
  left alone. Every string the proxy matches on (host names, methods, header names, content types,
  encodings, patterns) is ASCII in the protocols it speaks.
\<close>

section \<open>Lemma collections\<close>

named_theorems go_defs \<open>definitions of the small Go library functions\<close>
named_theorems inv_intros \<open>preservation lemmas of the component invariants\<close>

section \<open>Errors as values\<close>

text \<open>Go's \<open>if err != nil { return err }\<close>: a failed step ends the function with its error.\<close>

definition and_then :: "'e + 'a \<Rightarrow> ('a \<Rightarrow> 'e + 'b) \<Rightarrow> 'e + 'b" where
  "and_then x f = (case x of Inl e \<Rightarrow> Inl e | Inr v \<Rightarrow> f v)"

definition check_that :: "bool \<Rightarrow> 'e \<Rightarrow> 'e + unit" where
  "check_that b e = (if b then Inr () else Inl e)"

lemma and_then_simps [simp]:
  "and_then (Inl e) f = Inl e" "and_then (Inr v) f = f v"
  by (simp_all add: and_then_def)

lemma and_then_Inr: "and_then x f = Inr r \<longleftrightarrow> (\<exists>v. x = Inr v \<and> f v = Inr r)"
  by (cases x) simp_all

lemma check_that_Inr [simp]: "check_that b e = Inr u \<longleftrightarrow> b"
  by (simp add: check_that_def)

lemma check_that_True [simp]: "check_that True e = Inr ()"
  by (simp add: check_that_def)

section \<open>Case mapping\<close>

definition lower_char :: "char \<Rightarrow> char" where
  "lower_char c =
     (if 65 \<le> (of_char c :: nat) \<and> (of_char c :: nat) \<le> 90
      then char_of ((of_char c :: nat) + 32) else c)"

definition upper_char :: "char \<Rightarrow> char" where
  "upper_char c =
     (if 97 \<le> (of_char c :: nat) \<and> (of_char c :: nat) \<le> 122
      then char_of ((of_char c :: nat) - 32) else c)"

definition to_lower :: "string \<Rightarrow> string" where
  "to_lower s = List.map lower_char s"

definition to_upper :: "string \<Rightarrow> string" where
  "to_upper s = List.map upper_char s"

definition equal_fold :: "string \<Rightarrow> string \<Rightarrow> bool" where
  "equal_fold a b = (to_lower a = to_lower b)"

lemma of_char_less_256: "(of_char c :: nat) < 256"
  by (cases c) (simp add: of_char_def)

lemma of_char_lower:
  "(of_char (lower_char c) :: nat) =
     (if 65 \<le> (of_char c :: nat) \<and> (of_char c :: nat) \<le> 90 then of_char c + 32 else of_char c)"
  by (auto simp: lower_char_def)

lemma of_char_upper:
  "(of_char (upper_char c) :: nat) =
     (if 97 \<le> (of_char c :: nat) \<and> (of_char c :: nat) \<le> 122 then of_char c - 32 else of_char c)"
  by (auto simp: upper_char_def)

lemma lower_char_idem [simp]: "lower_char (lower_char c) = lower_char c"
  by (simp add: lower_char_def)

lemma upper_char_idem [simp]: "upper_char (upper_char c) = upper_char c"
  using of_char_upper [of c] by (auto simp: upper_char_def [of "upper_char c"])

lemma to_lower_idem [simp]: "to_lower (to_lower s) = to_lower s"
  by (simp add: to_lower_def)

lemma length_to_lower [simp]: "length (to_lower s) = length s"
  by (simp add: to_lower_def)

lemma to_lower_append [simp]: "to_lower (a @ b) = to_lower a @ to_lower b"
  by (simp add: to_lower_def)

lemma to_lower_Nil [simp]: "to_lower [] = []"
  by (simp add: to_lower_def)

lemma to_lower_Cons [simp]: "to_lower (c # s) = lower_char c # to_lower s"
  by (simp add: to_lower_def)

lemma to_lower_eq_Nil [simp]: "to_lower s = [] \<longleftrightarrow> s = []"
  by (simp add: to_lower_def)

lemma lower_char_eq_iff_not_letter:
  assumes "\<not> (97 \<le> (of_char d :: nat) \<and> (of_char d :: nat) \<le> 122)"
    and "\<not> (65 \<le> (of_char d :: nat) \<and> (of_char d :: nat) \<le> 90)"
  shows "lower_char c = d \<longleftrightarrow> c = d"
proof
  assume eq: "lower_char c = d"
  show "c = d"
  proof (cases "65 \<le> (of_char c :: nat) \<and> (of_char c :: nat) \<le> 90")
    case True
    then have "(of_char d :: nat) = of_char c + 32"
      using eq by (auto simp: lower_char_def)
    with True assms(1) show ?thesis by simp
  qed (use eq in \<open>auto simp: lower_char_def\<close>)
next
  assume "c = d"
  with assms(2) show "lower_char c = d" by (auto simp: lower_char_def)
qed

lemma equal_fold_refl [simp]: "equal_fold a a"
  by (simp add: equal_fold_def)

lemma equal_fold_sym: "equal_fold a b \<Longrightarrow> equal_fold b a"
  by (simp add: equal_fold_def)

section \<open>The strings package\<close>

abbreviation has_prefix :: "string \<Rightarrow> string \<Rightarrow> bool" where
  "has_prefix s p \<equiv> prefix p s"

abbreviation has_suffix :: "string \<Rightarrow> string \<Rightarrow> bool" where
  "has_suffix s p \<equiv> suffix p s"

fun str_index :: "string \<Rightarrow> string \<Rightarrow> nat option" where
  "str_index [] sub = (if sub = [] then Some 0 else None)"
| "str_index (c # s) sub =
     (if prefix sub (c # s) then Some 0 else map_option Suc (str_index s sub))"

definition str_contains :: "string \<Rightarrow> string \<Rightarrow> bool" where
  "str_contains s sub = (str_index s sub \<noteq> None)"

definition contains_any :: "string \<Rightarrow> string \<Rightarrow> bool" where
  "contains_any s chars = list_ex (\<lambda>c. c \<in> set chars) s"

definition trim_prefix :: "string \<Rightarrow> string \<Rightarrow> string" where
  "trim_prefix s p = (if prefix p s then drop (length p) s else s)"

definition trim_suffix :: "string \<Rightarrow> string \<Rightarrow> string" where
  "trim_suffix s p = (if suffix p s then take (length s - length p) s else s)"

definition str_compare :: "string \<Rightarrow> string \<Rightarrow> int" where
  "str_compare a b = (if a = b then 0 else if a < b then -1 else 1)"

definition is_space :: "char \<Rightarrow> bool" where
  "is_space c = (c = CHR '' '' \<or> (9 \<le> (of_char c :: nat) \<and> (of_char c :: nat) \<le> 13))"

definition trim_left :: "(char \<Rightarrow> bool) \<Rightarrow> string \<Rightarrow> string" where
  "trim_left P s = dropWhile P s"

definition trim_right :: "(char \<Rightarrow> bool) \<Rightarrow> string \<Rightarrow> string" where
  "trim_right P s = rev (dropWhile P (rev s))"

definition trim_space :: "string \<Rightarrow> string" where
  "trim_space s = trim_right is_space (trim_left is_space s)"

text \<open>\<open>strings.Split\<close> with a one-byte separator: always at least one piece.\<close>

fun str_split :: "char \<Rightarrow> string \<Rightarrow> string list" where
  "str_split d [] = [[]]"
| "str_split d (c # s) =
     (if c = d then [] # str_split d s
      else (case str_split d s of [] \<Rightarrow> [[c]] | w # ws \<Rightarrow> (c # w) # ws))"

fun str_join :: "string \<Rightarrow> string list \<Rightarrow> string" where
  "str_join sep [] = []"
| "str_join sep [w] = w"
| "str_join sep (w # v # ws) = w @ sep @ str_join sep (v # ws)"

text \<open>\<open>strings.Cut\<close> with a one-byte separator: before, after, found.\<close>

definition str_cut :: "char \<Rightarrow> string \<Rightarrow> string \<times> string \<times> bool" where
  "str_cut d s =
     (if d \<in> set s then (takeWhile (\<lambda>c. c \<noteq> d) s, tl (dropWhile (\<lambda>c. c \<noteq> d) s), True)
      else (s, [], False))"

lemma str_index_Some_iff:
  "str_index s sub = Some i \<Longrightarrow>
     \<exists>a b. s = a @ sub @ b \<and> length a = i"
proof (induction s arbitrary: i)
  case Nil
  then show ?case by (simp split: if_splits)
next
  case (Cons c s)
  show ?case
  proof (cases "prefix sub (c # s)")
    case True
    with Cons.prems show ?thesis by (auto simp: prefix_def)
  next
    case False
    with Cons.prems obtain j where "str_index s sub = Some j" and i: "i = Suc j" by auto
    from Cons.IH [OF this(1)] obtain a b where "s = a @ sub @ b" and "length a = j" by blast
    then have "c # s = (c # a) @ sub @ b" and "length (c # a) = i" using i by simp_all
    then show ?thesis by blast
  qed
qed

lemma str_index_least:
  "s = a @ sub @ b \<Longrightarrow> \<exists>i. str_index s sub = Some i \<and> i \<le> length a"
proof (induction s arbitrary: a)
  case Nil
  then show ?case by simp
next
  case (Cons c s)
  show ?case
  proof (cases "prefix sub (c # s)")
    case True
    then show ?thesis by simp
  next
    case False
    with Cons.prems have "a \<noteq> []" by (auto simp: prefix_def)
    then obtain a' where a: "a = c # a'" using Cons.prems by (cases a) auto
    with Cons.prems have "s = a' @ sub @ b" by simp
    from Cons.IH [OF this] obtain i where "str_index s sub = Some i" and "i \<le> length a'"
      by blast
    with False a show ?thesis by simp
  qed
qed

lemma str_index_None_iff: "str_index s sub = None \<longleftrightarrow> \<not> (\<exists>a b. s = a @ sub @ b)"
proof
  assume none: "str_index s sub = None"
  show "\<not> (\<exists>a b. s = a @ sub @ b)"
  proof
    assume "\<exists>a b. s = a @ sub @ b"
    then obtain a b where "s = a @ sub @ b" by blast
    from str_index_least [OF this] none show False by simp
  qed
next
  assume no: "\<not> (\<exists>a b. s = a @ sub @ b)"
  show "str_index s sub = None"
  proof (cases "str_index s sub")
    case (Some i)
    from str_index_Some_iff [OF this] no show ?thesis by blast
  qed
qed

lemma str_contains_iff: "str_contains s sub \<longleftrightarrow> (\<exists>a b. s = a @ sub @ b)"
  by (simp add: str_contains_def str_index_None_iff)

lemma str_split_nonempty [simp]: "str_split d s \<noteq> []"
  by (induction s) (auto split: list.splits)

lemma str_join_split [simp]: "str_join [d] (str_split d s) = s"
proof (induction s)
  case Nil
  then show ?case by simp
next
  case (Cons c s)
  obtain w ws where w: "str_split d s = w # ws" by (cases "str_split d s") auto
  show ?case
  proof (cases "c = d")
    case True
    with w Cons.IH show ?thesis by simp
  next
    case False
    from Cons.IH w have "str_join [d] (w # ws) = s" by simp
    then have "str_join [d] ((c # w) # ws) = c # s" by (cases ws) auto
    with False w show ?thesis by simp
  qed
qed

lemma str_split_no_sep: "w \<in> set (str_split d s) \<Longrightarrow> d \<notin> set w"
proof (induction s arbitrary: w)
  case Nil
  then show ?case by simp
next
  case (Cons c s)
  obtain v vs where v: "str_split d s = v # vs" by (cases "str_split d s") auto
  show ?case
  proof (cases "c = d")
    case True
    with Cons v show ?thesis by auto
  next
    case False
    with Cons.prems v have "w = c # v \<or> w \<in> set vs" by simp
    with Cons.IH [of v] Cons.IH [of w] v False show ?thesis by auto
  qed
qed

lemma str_split_subset: "w \<in> set (str_split d s) \<Longrightarrow> set w \<subseteq> set s"
proof (induction s arbitrary: w)
  case (Cons c s)
  then show ?case by (cases "str_split d s") (fastforce split: if_splits list.splits)+
qed simp

lemma str_split_append: "d \<notin> set a \<Longrightarrow> str_split d (a @ d # b) = a # str_split d b"
  by (induction a) auto

lemma str_split_join:
  "ws \<noteq> [] \<Longrightarrow> \<forall>w \<in> set ws. d \<notin> set w \<Longrightarrow> str_split d (str_join [d] ws) = ws"
proof (induction "[d]" ws rule: str_join.induct)
  case (2 w)
  then show ?case by (induction w) auto
qed (simp_all add: str_split_append)

lemma str_split_id: "d \<notin> set s \<Longrightarrow> str_split d s = [s]"
  by (induction s) auto

lemma str_cut_found: "str_cut d s = (a, b, True) \<Longrightarrow> s = a @ d # b \<and> d \<notin> set a"
proof -
  assume eq: "str_cut d s = (a, b, True)"
  then have d: "d \<in> set s" by (auto simp: str_cut_def split: if_splits)
  let ?P = "\<lambda>c. c \<noteq> d"
  have ne: "dropWhile ?P s \<noteq> []" using d by (simp add: dropWhile_eq_Nil_conv)
  then have "hd (dropWhile ?P s) = d" using hd_dropWhile [OF ne] by simp
  then have "dropWhile ?P s = d # tl (dropWhile ?P s)" using ne by (cases "dropWhile ?P s") auto
  then have "s = takeWhile ?P s @ d # tl (dropWhile ?P s)"
    using takeWhile_dropWhile_id [of ?P s] by metis
  with eq d show ?thesis by (auto simp: str_cut_def dest: set_takeWhileD)
qed

lemma str_cut_not_found: "str_cut d s = (a, b, False) \<Longrightarrow> d \<notin> set s \<and> a = s \<and> b = []"
  by (auto simp: str_cut_def split: if_splits)

section \<open>Case mapping and trimming\<close>

lemma lower_upper_char: "lower_char (upper_char c) = lower_char c"
  by (auto simp: lower_char_def upper_char_def)

lemma to_lower_upper [simp]: "to_lower (to_upper s) = to_lower s"
  by (simp add: to_lower_def to_upper_def lower_upper_char)

lemma is_space_upper [simp]: "is_space (upper_char c) = is_space c"
proof -
  have "upper_char c = CHR '' '' \<longleftrightarrow> c = CHR '' ''"
  proof
    assume u: "upper_char c = CHR '' ''"
    show "c = CHR '' ''"
    proof (cases "97 \<le> (of_char c :: nat) \<and> (of_char c :: nat) \<le> 122")
      case True
      then have "(of_char (upper_char c) :: nat) = of_char c - 32" by (simp add: of_char_upper)
      then have "(of_char c :: nat) - 32 = 32" using u by simp
      with True have False by linarith
      then show ?thesis ..
    next
      case False
      then have "upper_char c = c" by (simp only: upper_char_def if_not_P if_False)
      with u show ?thesis by simp
    qed
  qed (simp add: upper_char_def)
  then show ?thesis by (auto simp: is_space_def of_char_upper)
qed

lemma is_space_lower [simp]: "is_space (lower_char c) = is_space c"
  using lower_char_eq_iff_not_letter [of "CHR '' ''" c]
  by (auto simp: is_space_def of_char_lower)

lemma to_lower_rev: "to_lower (rev s) = rev (to_lower s)"
  by (simp add: to_lower_def rev_map)

lemma dropWhile_space_lower: "dropWhile is_space (to_lower s) = to_lower (dropWhile is_space s)"
  by (induction s) auto

lemma to_lower_trim_space: "to_lower (trim_space s) = trim_space (to_lower s)"
  by (simp add: trim_space_def trim_left_def trim_right_def to_lower_rev dropWhile_space_lower
      flip: to_lower_rev)

lemma trim_space_id: "list_all (\<lambda>c. \<not> is_space c) s \<Longrightarrow> trim_space s = s"
proof -
  assume a: "list_all (\<lambda>c. \<not> is_space c) s"
  then have "dropWhile is_space s = s" by (cases s) auto
  moreover have "dropWhile is_space (rev s) = rev s"
    using a by (cases "rev s") (auto simp: list_all_iff dest: arg_cong [of _ _ set])
  ultimately show ?thesis by (simp add: trim_space_def trim_left_def trim_right_def)
qed

lemma to_upper_rev: "to_upper (rev s) = rev (to_upper s)"
  by (simp add: to_upper_def rev_map)

lemma dropWhile_space_upper: "dropWhile is_space (to_upper s) = to_upper (dropWhile is_space s)"
  by (induction s) (auto simp: to_upper_def)

lemma to_upper_trim_space: "to_upper (trim_space s) = trim_space (to_upper s)"
  by (simp add: trim_space_def trim_left_def trim_right_def to_upper_rev dropWhile_space_upper
      flip: to_upper_rev)

lemma to_upper_idem [simp]: "to_upper (to_upper s) = to_upper s"
  by (simp add: to_upper_def)

lemma trim_left_idem: "dropWhile P (dropWhile P s) = dropWhile P s"
  by (induction s) auto

lemma dropWhile_rev_dropWhile:
  "dropWhile P (rev (dropWhile P (rev (dropWhile P s)))) = rev (dropWhile P (rev (dropWhile P s)))"
proof (cases "dropWhile P s")
  case (Cons c t)
  then have c: "\<not> P c" using hd_dropWhile [of P s] by (metis list.sel(1) list.distinct(1))
  have "dropWhile P (rev t @ [c]) = dropWhile P (rev t) @ [c] \<or> dropWhile P (rev t @ [c]) = [c]"
    using c by (induction "rev t" arbitrary: t) (auto simp: dropWhile_append)
  with c Cons show ?thesis by auto
next
  case Nil
  show ?thesis unfolding Nil by simp
qed

lemma trim_space_idem [simp]: "trim_space (trim_space s) = trim_space s"
  by (simp add: trim_space_def trim_left_def trim_right_def dropWhile_rev_dropWhile trim_left_idem)

lemma trim_space_lower_trim [simp]: "trim_space (to_lower (trim_space s)) = to_lower (trim_space s)"
  by (simp flip: to_lower_trim_space)

lemma trim_space_upper_trim [simp]: "trim_space (to_upper (trim_space s)) = to_upper (trim_space s)"
  by (simp flip: to_upper_trim_space)

section \<open>Decimal numbers: strconv\<close>

text \<open>Go's \<open>int\<close> is 64 bits wide; \<open>Atoi\<close> fails outside its range.\<close>

definition int_min :: int where "int_min = - (2 ^ 63)"

definition int_max :: int where "int_max = 2 ^ 63 - 1"

definition in_int :: "int \<Rightarrow> bool" where
  "in_int n = (int_min \<le> n \<and> n \<le> int_max)"

definition wrap_int :: "int \<Rightarrow> int" where
  "wrap_int n = (n + 2 ^ 63) mod 2 ^ 64 - 2 ^ 63"

text \<open>Go's \<open>/\<close> and \<open>%\<close> on signed integers truncate towards zero.\<close>

definition go_div :: "int \<Rightarrow> int \<Rightarrow> int" where
  "go_div a b = sgn a * sgn b * (\<bar>a\<bar> div \<bar>b\<bar>)"

definition go_rem :: "int \<Rightarrow> int \<Rightarrow> int" where
  "go_rem a b = sgn a * (\<bar>a\<bar> mod \<bar>b\<bar>)"

lemma go_rem_nonneg: "0 \<le> a \<Longrightarrow> 0 < b \<Longrightarrow> go_rem a b = a mod b"
  by (cases "a = 0") (auto simp: go_rem_def)

lemma go_rem_neg: "a < 0 \<Longrightarrow> 0 < b \<Longrightarrow> go_rem a b = - ((- a) mod b)"
  by (simp add: go_rem_def)

text \<open>The idiom \<open>((a % n) + n) % n\<close> is the mathematical remainder.\<close>

lemma go_rem_idiom: "0 < n \<Longrightarrow> go_rem (go_rem a n + n) n = a mod n"
proof (cases "0 \<le> a")
  case True
  assume "0 < n"
  with True show ?thesis by (simp add: go_rem_nonneg)
next
  case False
  assume n: "0 < n"
  have "go_rem a n + n = n - (- a) mod n" using False n by (simp add: go_rem_neg)
  moreover have "0 \<le> n - (- a) mod n" using n by (simp add: order_less_imp_le)
  ultimately have "go_rem (go_rem a n + n) n = (n - (- a) mod n) mod n"
    using n by (simp add: go_rem_nonneg)
  also have "\<dots> = a mod n" by (simp add: mod_diff_eq [symmetric] mod_minus_eq)
  finally show ?thesis .
qed

definition is_digit :: "char \<Rightarrow> bool" where
  "is_digit c = (48 \<le> (of_char c :: nat) \<and> (of_char c :: nat) \<le> 57)"

definition digit_val :: "char \<Rightarrow> nat" where
  "digit_val c = (of_char c :: nat) - 48"

definition digit_char :: "nat \<Rightarrow> char" where
  "digit_char d = char_of (48 + d)"

definition digits_val :: "string \<Rightarrow> nat" where
  "digits_val s = foldl (\<lambda>v c. 10 * v + digit_val c) 0 s"

definition parse_digits :: "string \<Rightarrow> nat option" where
  "parse_digits s = (if s \<noteq> [] \<and> list_all is_digit s then Some (digits_val s) else None)"

definition atoi :: "string \<Rightarrow> int option" where
  "atoi s =
     (let (neg, ds) = (case s of
          c # t \<Rightarrow> if c = CHR ''-'' then (True, t) else if c = CHR ''+'' then (False, t) else (False, s)
        | [] \<Rightarrow> (False, []))
      in case parse_digits ds of
           None \<Rightarrow> None
         | Some n \<Rightarrow> let v = (if neg then - int n else int n) in if in_int v then Some v else None)"

fun dec_digits :: "nat \<Rightarrow> string" where
  "dec_digits n = (if n < 10 then [digit_char n] else dec_digits (n div 10) @ [digit_char (n mod 10)])"

declare dec_digits.simps [simp del]

definition itoa :: "int \<Rightarrow> string" where
  "itoa i = (if i < 0 then CHR ''-'' # dec_digits (nat (- i)) else dec_digits (nat i))"

lemma of_char_digit_char [simp]: "d < 10 \<Longrightarrow> (of_char (digit_char d) :: nat) = 48 + d"
  by (simp add: digit_char_def)

lemma is_digit_digit_char [simp]: "d < 10 \<Longrightarrow> is_digit (digit_char d)"
  by (simp add: is_digit_def)

lemma digit_val_digit_char [simp]: "d < 10 \<Longrightarrow> digit_val (digit_char d) = d"
  by (simp add: digit_val_def)

lemma digits_val_snoc [simp]: "digits_val (s @ [c]) = 10 * digits_val s + digit_val c"
  by (simp add: digits_val_def)

lemma digits_val_Nil [simp]: "digits_val [] = 0"
  by (simp add: digits_val_def)

lemma dec_digits_nonempty [simp]: "dec_digits n \<noteq> []"
  by (subst dec_digits.simps) simp

lemma dec_digits_all: "list_all is_digit (dec_digits n)"
proof (induction n rule: dec_digits.induct)
  case (1 n)
  then show ?case by (subst dec_digits.simps) auto
qed

lemma digits_val_dec_digits [simp]: "digits_val (dec_digits n) = n"
proof (induction n rule: dec_digits.induct)
  case (1 n)
  show ?case
  proof (cases "n < 10")
    case True
    then show ?thesis using digits_val_snoc [of "[]"] by (subst dec_digits.simps) simp
  next
    case False
    with "1.IH" have "digits_val (dec_digits (n div 10)) = n div 10" by simp
    with False show ?thesis by (subst dec_digits.simps) simp
  qed
qed

lemma parse_digits_dec_digits [simp]: "parse_digits (dec_digits n) = Some n"
  by (simp add: parse_digits_def dec_digits_all)

lemma not_digit_sign [simp]: "\<not> is_digit (CHR ''-'')" "\<not> is_digit (CHR ''+'')"
  by (simp_all add: is_digit_def)

lemma dec_digits_hd:
  "\<exists>c t. dec_digits n = c # t \<and> is_digit c"
  using dec_digits_all [of n] by (cases "dec_digits n") auto

lemma atoi_itoa: "in_int n \<Longrightarrow> atoi (itoa n) = Some n"
proof (cases "n < 0")
  case True
  assume "in_int n"
  with True show ?thesis by (simp add: atoi_def itoa_def)
next
  case False
  assume n: "in_int n"
  obtain c t where ct: "dec_digits (nat n) = c # t" and c: "is_digit c"
    using dec_digits_hd by blast
  then have "c \<noteq> CHR ''-''" and "c \<noteq> CHR ''+''" by auto
  moreover have "parse_digits (c # t) = Some (nat n)" using ct by (metis parse_digits_dec_digits)
  ultimately show ?thesis using False n ct by (simp add: atoi_def itoa_def)
qed

section \<open>Instants and durations\<close>

text \<open>
  A \<open>time.Time\<close> is the number of nanoseconds since Go's zero time, so \<open>IsZero\<close> is equality with
  0; a \<open>time.Duration\<close> is a number of nanoseconds in 64 bits, and \<open>Time.Sub\<close> saturates there.
\<close>

type_synonym gotime = int
type_synonym duration = int

definition time_is_zero :: "gotime \<Rightarrow> bool" where
  "time_is_zero t = (t = 0)"

definition time_sub :: "gotime \<Rightarrow> gotime \<Rightarrow> duration" where
  "time_sub t u = max int_min (min int_max (t - u))"

definition millisecond :: duration where "millisecond = 1000000"

definition second :: duration where "second = 1000000000"

definition minute :: duration where "minute = 60 * second"

definition hour :: duration where "hour = 60 * minute"

lemma time_sub_self [simp]: "time_sub t t = 0"
  by (simp add: time_sub_def int_min_def int_max_def)

lemma time_sub_mono: "t \<le> t' \<Longrightarrow> time_sub t u \<le> time_sub t' u"
  by (simp add: time_sub_def)

section \<open>Association lists for Go maps\<close>

text \<open>
  A Go map that the code iterates over is an association list with distinct keys; the order of the
  list is the (unspecified) iteration order. \<open>map_put\<close> is \<open>m[k] = v\<close>, \<open>map_del\<close> is
  \<open>delete(m, k)\<close> and \<open>map_of\<close> is the lookup.
\<close>

fun map_put :: "'k \<Rightarrow> 'v \<Rightarrow> ('k \<times> 'v) list \<Rightarrow> ('k \<times> 'v) list" where
  "map_put k v [] = [(k, v)]"
| "map_put k v ((a, b) # m) = (if a = k then (k, v) # m else (a, b) # map_put k v m)"

definition map_del :: "'k \<Rightarrow> ('k \<times> 'v) list \<Rightarrow> ('k \<times> 'v) list" where
  "map_del k m = filter (\<lambda>p. fst p \<noteq> k) m"

abbreviation keys_distinct :: "('k \<times> 'v) list \<Rightarrow> bool" where
  "keys_distinct m \<equiv> distinct (List.map fst m)"

lemma map_of_put [simp]: "map_of (map_put k v m) = (map_of m)(k \<mapsto> v)"
  by (induction m) (auto simp: fun_eq_iff)

lemma map_of_del [simp]: "map_of (map_del k m) = (map_of m)(k := None)"
  by (induction m) (auto simp: map_del_def fun_eq_iff)

lemma set_fst_map_put [simp]: "fst ` set (map_put k v m) = insert k (fst ` set m)"
  by (induction k v m rule: map_put.induct) auto

lemma set_fst_map_del [simp]: "fst ` set (map_del k m) = fst ` set m - {k}"
  by (auto simp: map_del_def)

lemma keys_distinct_put [intro]: "keys_distinct m \<Longrightarrow> keys_distinct (map_put k v m)"
  by (induction k v m rule: map_put.induct) auto

lemma keys_distinct_del [intro]: "keys_distinct m \<Longrightarrow> keys_distinct (map_del k m)"
  by (simp add: map_del_def distinct_map_filter)

lemma keys_distinct_filter [intro]: "keys_distinct m \<Longrightarrow> keys_distinct (filter P m)"
  by (simp add: distinct_map_filter)

lemma length_map_put: "length (map_put k v m) = (if k \<in> fst ` set m then length m else Suc (length m))"
  by (induction k v m rule: map_put.induct) auto

lemma length_map_del:
  "keys_distinct m \<Longrightarrow> length (map_del k m) = (if k \<in> fst ` set m then length m - 1 else length m)"
proof (induction m)
  case (Cons p m)
  show ?case
  proof (cases "fst p = k")
    case True
    with Cons.prems have "k \<notin> fst ` set m" by auto
    with Cons True show ?thesis by (simp add: map_del_def)
  next
    case False
    with Cons show ?thesis
      by (cases m) (auto simp: map_del_def)
  qed
qed (simp add: map_del_def)

lemma map_put_in_set: "keys_distinct m \<Longrightarrow>
   set (map_put k v m) = insert (k, v) {p \<in> set m. fst p \<noteq> k}"
  by (induction k v m rule: map_put.induct) (auto simp: rev_image_eqI)

section \<open>Lists with a key\<close>

lemma find_by_key: "distinct (List.map k xs) \<Longrightarrow> x \<in> set xs \<Longrightarrow> find (\<lambda>y. k y = k x) xs = Some x"
  by (induction xs) (auto simp: rev_image_eqI)

lemma find_by_key_None: "d \<notin> k ` set xs \<Longrightarrow> find (\<lambda>y. k y = d) xs = None"
  by (auto simp: find_None_iff)

end
