(* ===== verification/Http.thy ===== *)
theory Http
  imports Prelude
begin

text \<open>
  The part of \<open>net/http\<close> the proxy's own code works with: header maps keyed by canonical names, and
  the request, response and URL values the handlers and rules read and write. An \<open>http.Header\<close> is
  an association list with distinct keys (its order is Go's unspecified map order); nothing here
  depends on the order except where a function says so.
\<close>

type_synonym header = "(string \<times> string list) list"

section \<open>Canonical header keys\<close>

definition is_token_byte :: "char \<Rightarrow> bool" where
  "is_token_byte c =
     (is_digit c
      \<or> (65 \<le> (of_char c :: nat) \<and> (of_char c :: nat) \<le> 90)
      \<or> (97 \<le> (of_char c :: nat) \<and> (of_char c :: nat) \<le> 122)
      \<or> c \<in> set ''!#$%&*+-.^_|~'' \<or> (of_char c :: nat) = 39 \<or> (of_char c :: nat) = 96)"

fun canon_bytes :: "bool \<Rightarrow> string \<Rightarrow> string" where
  "canon_bytes up [] = []"
| "canon_bytes up (c # s) =
     (let d = (if up then upper_char c else lower_char c) in d # canon_bytes (d = CHR ''-'') s)"

definition canonical_key :: "string \<Rightarrow> string" where
  "canonical_key s = (if list_all is_token_byte s then canon_bytes True s else s)"

section \<open>Header operations\<close>

definition header_values :: "header \<Rightarrow> string \<Rightarrow> string list" where
  "header_values h k = (case map_of h (canonical_key k) of None \<Rightarrow> [] | Some vs \<Rightarrow> vs)"

definition header_get :: "header \<Rightarrow> string \<Rightarrow> string" where
  "header_get h k = (case header_values h k of [] \<Rightarrow> [] | v # _ \<Rightarrow> v)"

definition header_set :: "string \<Rightarrow> string \<Rightarrow> header \<Rightarrow> header" where
  "header_set k v h = map_put (canonical_key k) [v] h"

definition header_del :: "string \<Rightarrow> header \<Rightarrow> header" where
  "header_del k h = map_del (canonical_key k) h"

lemma canon_bytes_idem [simp]: "canon_bytes up (canon_bytes up s) = canon_bytes up s"
  by (induction up s rule: canon_bytes.induct) (auto simp: Let_def)

lemma is_token_byte_upper [simp]: "is_token_byte c \<Longrightarrow> is_token_byte (upper_char c)"
  by (auto simp: upper_char_def is_token_byte_def)

lemma is_token_byte_lower [simp]: "is_token_byte c \<Longrightarrow> is_token_byte (lower_char c)"
  by (auto simp: lower_char_def is_token_byte_def)

lemma token_canon_bytes: "list_all is_token_byte s \<Longrightarrow> list_all is_token_byte (canon_bytes up s)"
  by (induction up s rule: canon_bytes.induct) (auto simp: Let_def)

lemma canonical_key_idem [simp]: "canonical_key (canonical_key s) = canonical_key s"
  by (simp add: canonical_key_def token_canon_bytes)

lemma header_get_set [simp]: "header_get (header_set k v h) k = v"
  by (simp add: header_get_def header_values_def header_set_def)

lemma header_values_set_other:
  "canonical_key j \<noteq> canonical_key k \<Longrightarrow> header_values (header_set k v h) j = header_values h j"
  by (simp add: header_values_def header_set_def)

lemma header_values_del [simp]: "header_values (header_del k h) k = []"
  by (simp add: header_values_def header_del_def)

lemma header_values_del_other:
  "canonical_key j \<noteq> canonical_key k \<Longrightarrow> header_values (header_del k h) j = header_values h j"
  by (simp add: header_values_def header_del_def)

lemma header_values_del_if:
  "header_values (header_del k h) j =
     (if canonical_key j = canonical_key k then [] else header_values h j)"
  by (simp add: header_values_def header_del_def)

lemma keys_distinct_header_set [intro]: "keys_distinct h \<Longrightarrow> keys_distinct (header_set k v h)"
  by (auto simp: header_set_def)

lemma keys_distinct_header_del [intro]: "keys_distinct h \<Longrightarrow> keys_distinct (header_del k h)"
  by (auto simp: header_del_def)

section \<open>Requests and responses\<close>

text \<open>A parsed URL; a relative one has an empty scheme. \<open>u_host\<close> may carry a port.\<close>

record url =
  u_scheme :: string
  u_host :: string
  u_path :: string
  u_raw_path :: string
  u_raw_query :: string

definition url_is_abs :: "url \<Rightarrow> bool" where
  "url_is_abs u = (u_scheme u \<noteq> [])"

text \<open>
  A body not read yet: the bytes the reader will yield and the error it then ends with, if any.
\<close>

datatype body = NoBody | Body string "string option"

fun body_data :: "body \<Rightarrow> string" where
  "body_data NoBody = []"
| "body_data (Body d e) = d"

record request =
  rq_method :: string
  rq_url :: url
  rq_host :: string
  rq_header :: header
  rq_body :: body
  rq_length :: int
  rq_te :: "string list"

record response =
  rp_status :: int
  rp_status_line :: string
  rp_header :: header
  rp_body :: body
  rp_length :: int
  rp_te :: "string list"

end
