(* ===== verification/Flow.thy ===== *)
theory Flow
  imports Http
begin

text \<open>
  \<open>internal/flow\<close>: the capture data model. Flow ids with their base-32 text form
  (\<open>short\<close>, \<open>parse_short\<close>), the \<open>Flow\<close> struct and the values it is made of, its URL, the id
  generator and the events published on the bus. A flow snapshot is a value here, so \<open>Clone\<close>
  (which only breaks Go aliasing) is the identity and is not modelled.
\<close>

section \<open>Flow ids\<close>

type_synonym flow_id = "64 word"

definition id_alphabet :: string where
  "id_alphabet = ''0123456789abcdefghjkmnpqrstvwxyz''"

function short_loop :: "flow_id \<Rightarrow> string \<Rightarrow> string" where
  "short_loop v acc =
     (if v = 0 then acc else short_loop (v div 32) (id_alphabet ! unat (v mod 32) # acc))"
  by pat_completeness auto
termination
proof (relation "measure (\<lambda>(v, acc). unat v)")
  fix v :: flow_id and acc :: string
  assume "v \<noteq> 0"
  then have "0 < unat v" by (simp add: unat_gt_0)
  then show "((v div 32, id_alphabet ! unat (v mod 32) # acc), v, acc) \<in> measure (\<lambda>(v, acc). unat v)"
    by (simp add: unat_div)
qed simp

declare short_loop.simps [simp del]

definition short :: "flow_id \<Rightarrow> string" where
  "short i = (if i = 0 then ''0'' else short_loop i [])"

text \<open>\<open>alpha_index\<close> is \<open>strings.IndexRune(idAlphabet, c)\<close>, \<open>None\<close> for -1.\<close>

fun find_index :: "char \<Rightarrow> string \<Rightarrow> nat option" where
  "find_index c [] = None"
| "find_index c (d # s) = (if c = d then Some 0 else map_option Suc (find_index c s))"

definition confusable :: "char \<Rightarrow> char" where
  "confusable c =
     (if c = CHR ''i'' \<or> c = CHR ''l'' then CHR ''1'' else if c = CHR ''o'' then CHR ''0'' else c)"

fun parse_short_loop :: "string \<Rightarrow> flow_id \<Rightarrow> flow_id option" where
  "parse_short_loop [] v = Some v"
| "parse_short_loop (c # s) v =
     (case find_index (confusable c) id_alphabet of
        None \<Rightarrow> None
      | Some d \<Rightarrow> parse_short_loop s (v * 32 + of_nat d))"

definition parse_short :: "string \<Rightarrow> flow_id option" where
  "parse_short s0 =
     (let s = to_lower (trim_space s0)
      in if s = [] \<or> 13 < length s then None else parse_short_loop s 0)"

section \<open>The Flow struct\<close>

datatype flow_kind = KindHTTP | KindWebSocket | KindTunnel

fun kind_str :: "flow_kind \<Rightarrow> string" where
  "kind_str KindHTTP = ''http''"
| "kind_str KindWebSocket = ''websocket''"
| "kind_str KindTunnel = ''tunnel''"

datatype flow_state = StateActive | StateHeld | StateDone | StateFailed

fun state_str :: "flow_state \<Rightarrow> string" where
  "state_str StateActive = ''active''"
| "state_str StateHeld = ''held''"
| "state_str StateDone = ''done''"
| "state_str StateFailed = ''failed''"

record body_ref =
  br_hash :: string
  br_size :: int
  br_captured :: int
  br_truncated :: bool
  br_encoding :: string
  br_mime :: string

record timing =
  t_start :: gotime
  t_dns_done :: gotime
  t_connected :: gotime
  t_tls_done :: gotime
  t_wrote_req :: gotime
  t_first_byte :: gotime
  t_headers_sent :: gotime
  t_end :: gotime
  t_reused :: bool

definition ttfb :: "timing \<Rightarrow> duration" where
  "ttfb t = (if time_is_zero (t_first_byte t) then 0 else time_sub (t_first_byte t) (t_start t))"

definition total :: "gotime \<Rightarrow> timing \<Rightarrow> duration" where
  "total now t = (if time_is_zero (t_end t) then time_sub now (t_start t) else time_sub (t_end t) (t_start t))"

record rule_hit =
  rh_rule_id :: string
  rh_name :: string
  rh_phase :: string
  rh_action :: string
  rh_note :: string

record flow =
  fl_id :: flow_id
  fl_session :: string
  fl_kind :: flow_kind
  fl_client :: string
  fl_proto :: string
  fl_up_proto :: string
  fl_scheme :: string
  fl_host :: string
  fl_port :: int
  fl_method :: string
  fl_path :: string
  fl_query :: string
  fl_req_headers :: header
  fl_req_body :: body_ref
  fl_status :: int
  fl_resp_headers :: header
  fl_resp_body :: body_ref
  fl_trailers :: header
  fl_t :: timing
  fl_error :: string
  fl_tags :: "string list"
  fl_rules :: "rule_hit list"
  fl_state :: flow_state
  fl_replay :: bool
  fl_replay_of :: flow_id

text \<open>The package's own \<open>itoa\<close>: the loop runs while \<open>i > 0\<close>, so a negative number prints as nothing.\<close>

function flow_itoa_loop :: "int \<Rightarrow> string \<Rightarrow> string" where
  "flow_itoa_loop i acc =
     (if 0 < i then flow_itoa_loop (i div 10) (digit_char (nat (i mod 10)) # acc) else acc)"
  by pat_completeness auto
termination
  by (relation "measure (\<lambda>(i, acc). nat i)") auto

declare flow_itoa_loop.simps [simp del]

definition flow_itoa :: "int \<Rightarrow> string" where
  "flow_itoa i = (if i = 0 then ''0'' else flow_itoa_loop i [])"

definition flow_url :: "flow \<Rightarrow> string" where
  "flow_url f =
     fl_scheme f @ ''://'' @ fl_host f
     @ (if ((fl_scheme f = ''https'' \<and> fl_port f \<noteq> 443) \<or> (fl_scheme f = ''http'' \<and> fl_port f \<noteq> 80))
           \<and> fl_port f \<noteq> 0
        then '':'' @ flow_itoa (fl_port f) else [])
     @ fl_path f
     @ (if fl_query f \<noteq> [] then ''?'' @ fl_query f else [])"

section \<open>The id generator\<close>

record idgen =
  g_last :: flow_id

definition new_idgen :: "flow_id \<Rightarrow> idgen" where
  "new_idgen l = \<lparr>g_last = l\<rparr>"

definition next_id :: "idgen \<Rightarrow> flow_id \<times> idgen" where
  "next_id g = (let n = g_last g + 1 in (n, g\<lparr>g_last := n\<rparr>))"

fun next_ids :: "nat \<Rightarrow> idgen \<Rightarrow> flow_id list \<times> idgen" where
  "next_ids 0 g = ([], g)"
| "next_ids (Suc n) g =
     (let (i, g1) = next_id g; (ids, g2) = next_ids n g1 in (i # ids, g2))"

section \<open>Events\<close>

datatype event_type = EvStarted | EvHeaders | EvDone | EvHeld | EvWS | EvDropped

record ws_message =
  ws_flow_id :: flow_id
  ws_seq :: int
  ws_ts :: gotime
  ws_dir :: string
  ws_opcode :: int
  ws_len :: int
  ws_payload :: string
  ws_masked :: bool

record event =
  ev_type :: event_type
  ev_seq :: "64 word"
  ev_ts :: gotime
  ev_flow :: "flow option"
  ev_phase :: string
  ev_ws :: "ws_message option"
  ev_dropped :: int

section \<open>Ids: the text form denotes the id\<close>

text \<open>The specification of the text form: base-32 digits of the number, most significant first.\<close>

fun base32 :: "nat \<Rightarrow> nat list" where
  "base32 n = (if n = 0 then [] else base32 (n div 32) @ [n mod 32])"

declare base32.simps [simp del]

abbreviation alpha :: "nat \<Rightarrow> char" where
  "alpha d \<equiv> id_alphabet ! d"

lemma base32_0 [simp]: "base32 0 = []"
  by (simp add: base32.simps)

lemma base32_digits: "d \<in> set (base32 n) \<Longrightarrow> d < 32"
proof (induction n rule: base32.induct)
  case (1 n)
  then show ?case by (cases "n = 0") (auto simp: base32.simps [of n])
qed

lemma base32_val: "foldl (\<lambda>v d. v * 32 + d) 0 (base32 n) = n"
proof (induction n rule: base32.induct)
  case (1 n)
  then show ?case by (cases "n = 0") (auto simp: base32.simps [of n])
qed

lemma length_base32: "n < 32 ^ k \<Longrightarrow> length (base32 n) \<le> k"
proof (induction k arbitrary: n)
  case 0
  then show ?case by (simp add: base32.simps)
next
  case (Suc k)
  then have "n div 32 < 32 ^ k" by (simp add: less_mult_imp_div_less mult.commute)
  with Suc.IH [of "n div 32"] show ?case by (subst base32.simps) simp
qed

lemma base32_Nil [simp]: "base32 n = [] \<longleftrightarrow> n = 0"
  by (subst base32.simps) simp

lemma short_loop_base32: "short_loop v acc = List.map alpha (base32 (unat v)) @ acc"
proof (induction v acc rule: short_loop.induct)
  case (1 v acc)
  show ?case
  proof (cases "v = 0")
    case True
    then show ?thesis by (simp add: short_loop.simps base32.simps)
  next
    case False
    then have "unat v \<noteq> 0" by (simp add: unat_eq_zero)
    then have "base32 (unat v) = base32 (unat (v div 32)) @ [unat (v mod 32)]"
      by (subst base32.simps) (simp add: unat_div unat_mod)
    with 1 False show ?thesis by (subst short_loop.simps) simp
  qed
qed

lemma length_alphabet: "length id_alphabet = 32"
  by (simp add: id_alphabet_def)

lemma alphabet_ok:
  "list_all (\<lambda>d. find_index (confusable (alpha d)) id_alphabet = Some d \<and> lower_char (alpha d) = alpha d
      \<and> \<not> is_space (alpha d)) [0..<32]"
  by code_simp

lemma alpha_facts:
  assumes "d < 32"
  shows "find_index (confusable (alpha d)) id_alphabet = Some d"
    and "lower_char (alpha d) = alpha d" and "\<not> is_space (alpha d)"
  using alphabet_ok assms by (simp_all add: list_all_iff)

lemma parse_short_loop_alpha:
  "\<forall>d \<in> set ds. d < 32 \<Longrightarrow>
     parse_short_loop (List.map alpha ds) (of_nat v) = Some (of_nat (foldl (\<lambda>v d. v * 32 + d) v ds))"
proof (induction ds arbitrary: v)
  case Nil
  then show ?case by simp
next
  case (Cons d ds)
  have "of_nat v * 32 + of_nat d = (of_nat (v * 32 + d) :: flow_id)" by simp
  with Cons show ?case by (simp add: alpha_facts(1) del: of_nat_add of_nat_mult)
qed

lemma to_lower_alpha: "\<forall>d \<in> set ds. d < 32 \<Longrightarrow> to_lower (List.map alpha ds) = List.map alpha ds"
  by (induction ds) (auto simp: alpha_facts(2))

lemma trim_space_alpha: "\<forall>d \<in> set ds. d < 32 \<Longrightarrow> trim_space (List.map alpha ds) = List.map alpha ds"
  by (rule trim_space_id) (auto simp: list_all_iff alpha_facts(3))

lemma short_eq: "short i = List.map alpha (if i = 0 then [0] else base32 (unat i))"
  by (simp add: short_def short_loop_base32 id_alphabet_def)

lemma length_base32_id: "length (base32 (unat (i :: flow_id))) \<le> 13"
proof (rule length_base32)
  have "unat i < 2 ^ 64" using unsigned_less [of i] by simp
  also have "\<dots> \<le> (32 :: nat) ^ 13" by simp
  finally show "unat i < 32 ^ 13" .
qed

lemma length_short: "length (short i) \<le> 13"
  using length_base32_id [of i] by (simp add: short_eq)

lemma short_nonempty: "short i \<noteq> []"
  by (simp add: short_eq unat_eq_zero)

text \<open>Parsing a string whose digits denote a number below \<open>2 ^ 64\<close> gives that number.\<close>

lemma parse_short_alpha:
  assumes "\<forall>d \<in> set ds. d < 32" and "ds \<noteq> []" and "length ds \<le> 13"
  shows "parse_short (List.map alpha ds) = Some (of_nat (foldl (\<lambda>v d. v * 32 + d) 0 ds))"
  using assms parse_short_loop_alpha [of ds 0]
  by (simp add: parse_short_def trim_space_alpha to_lower_alpha)

section \<open>The id generator counts up\<close>

lemma upt_Suc_map: "[0..<Suc n] = 0 # List.map Suc [0..<n]"
  by (simp add: map_Suc_upt upt_conv_Cons del: upt_Suc)

lemma next_ids_eq:
  "next_ids n g = (List.map (\<lambda>k. g_last g + of_nat (Suc k)) [0..<n], g\<lparr>g_last := g_last g + of_nat n\<rparr>)"
proof (induction n arbitrary: g)
  case 0
  then show ?case by simp
next
  case (Suc n)
  then show ?case
    by (simp add: next_id_def Let_def upt_Suc_map comp_def ac_simps del: upt_Suc)
qed

section \<open>Properties\<close>

lemma parse_short_upper:
  assumes "list_all (\<lambda>c. \<not> is_space c) s"
  shows "parse_short (to_upper s) = parse_short s"
proof -
  have "list_all (\<lambda>c. \<not> is_space c) (to_upper s)" using assms by (simp add: to_upper_def list_all_iff)
  with assms show ?thesis by (simp add: parse_short_def trim_space_id)
qed

lemma parse_short_short: "parse_short (short i) = Some i"
proof -
  have "\<forall>d \<in> set (if i = 0 then [0] else base32 (unat i)). d < 32" by (auto dest: base32_digits)
  moreover have "foldl (\<lambda>v d. v * 32 + d) 0 (if i = 0 then [0] else base32 (unat i)) = unat i"
    by (simp add: base32_val)
  ultimately show ?thesis
    using parse_short_alpha [of "if i = 0 then [0] else base32 (unat i)"] length_base32_id [of i]
    by (simp add: short_eq unat_eq_zero split: if_splits)
qed

lemma short_no_space: "list_all (\<lambda>c. \<not> is_space c) (short i)"
  by (auto simp: short_eq list_all_iff alpha_facts(3) dest!: base32_digits)

lemma short_inj: "short i = short j \<Longrightarrow> i = j"
  by (metis parse_short_short option.inject)

text \<open>The text form of a flow id is unambiguous and reversible: for every one of the 2^64 ids,
  \<open>ParseShort\<close> of \<open>Short\<close>, in lower or upper case, is that id, the text is 1 to 13 bytes long, and
  different ids have different texts.\<close>

theorem flow_id_roundtrip:
  "parse_short (short i) = Some i \<and> parse_short (to_upper (short i)) = Some i
   \<and> length (short i) \<in> {1..13} \<and> (short i = short j \<longleftrightarrow> i = j)"
  using parse_short_short [of i] parse_short_upper [OF short_no_space, of i] length_short [of i]
    short_nonempty [of i] short_inj [of i j] by (auto simp: Suc_le_eq)

text \<open>\<open>ParseShort\<close> is not the inverse of \<open>Short\<close>: it accepts 13-digit texts of numbers that do not
  fit in 64 bits, which no id has, and wraps them onto the ids of other flows.\<close>

theorem parse_short_wraps:
  "parse_short ''g000000000000'' = Some 0 \<and> parse_short ''g000000000001'' = Some 1
   \<and> short 1 = ''1''"
  by code_simp

text \<open>Ids handed out by one generator are consecutive from its start and so pairwise distinct, for
  fewer than 2^64 of them.\<close>

theorem next_ids_distinct:
  assumes "int n < 2 ^ 64"
  shows "fst (next_ids n g) = List.map (\<lambda>k. g_last g + of_nat (Suc k)) [0..<n]
    \<and> distinct (fst (next_ids n g)) \<and> g_last (snd (next_ids n g)) = g_last g + of_nat n"
proof -
  have "inj_on (\<lambda>k. g_last g + of_nat (Suc k) :: flow_id) (set [0..<n])"
  proof (rule inj_onI)
    fix a b :: nat
    assume ab: "a \<in> set [0..<n]" "b \<in> set [0..<n]"
      and eq: "g_last g + of_nat (Suc a) = g_last g + (of_nat (Suc b) :: flow_id)"
    then have "(of_nat a :: flow_id) = of_nat b" by simp
    moreover have "a < 2 ^ 64" "b < 2 ^ 64" using ab assms by auto
    ultimately show "a = b" by (simp add: of_nat_inverse word_of_nat_eq_iff take_bit_eq_mod)
  qed
  then show ?thesis by (simp add: next_ids_eq distinct_map del: upt_Suc)
qed

lemma next_ids_distinct_witness:
  "fst (next_ids 3 (new_idgen 41)) = [42, 43, 44] \<and> distinct (fst (next_ids 3 (new_idgen 41)))"
  using next_ids_distinct [of 3 "new_idgen 41"] by (simp add: new_idgen_def upt_rec)

end
