(* ===== verification/Bus.thy ===== *)
theory Bus
  imports Flow
begin

text \<open>
  \<open>internal/bus/bus.go\<close>: the event bus. A \<open>subscriber\<close> is the Go struct with the buffered channel
  \<open>C\<close> as the queue \<open>u_queue\<close> of capacity \<open>u_cap\<close>; \<open>push\<close> is the method, its three \<open>select\<close>s each
  with a \<open>default\<close>, so it never blocks. \<open>publish\<close> stamps an event with the next sequence number
  and pushes it to every subscriber. A subscriber's history is a list of \<open>sub_op\<close>s: pushes, receives
  and the close. \<open>tally\<close> is the specification: what was offered, received and lost.
\<close>

section \<open>Subscribers\<close>

record subscriber =
  u_queue :: "event list"
  u_cap :: nat
  u_dropped :: int
  u_closed :: bool
  u_filter :: "(event \<Rightarrow> bool) option"

definition new_subscriber :: "int \<Rightarrow> (event \<Rightarrow> bool) option \<Rightarrow> subscriber" where
  "new_subscriber sz flt =
     \<lparr>u_queue = [], u_cap = nat (if sz \<le> 0 then 256 else sz), u_dropped = 0, u_closed = False,
      u_filter = flt\<rparr>"

text \<open>A send on the channel that does not block: \<open>None\<close> is the \<open>default\<close> branch.\<close>

definition try_send :: "event \<Rightarrow> subscriber \<Rightarrow> subscriber option" where
  "try_send ev u =
     (if length (u_queue u) < u_cap u then Some (u\<lparr>u_queue := u_queue u @ [ev]\<rparr>) else None)"

definition dropped_event :: "int \<Rightarrow> event \<Rightarrow> event" where
  "dropped_event n ev =
     \<lparr>ev_type = EvDropped, ev_seq = ev_seq ev, ev_ts = ev_ts ev, ev_flow = None, ev_phase = [],
      ev_ws = None, ev_dropped = n\<rparr>"

definition wants :: "subscriber \<Rightarrow> event \<Rightarrow> bool" where
  "wants u ev = (case u_filter u of None \<Rightarrow> True | Some P \<Rightarrow> P ev)"

text \<open>The second half of \<open>push\<close>: send, and on a full queue drop the oldest to make room.\<close>

definition push_event :: "event \<Rightarrow> subscriber \<Rightarrow> subscriber" where
  "push_event ev u =
     (case try_send ev u of
        Some u' \<Rightarrow> u'
      | None \<Rightarrow>
          (let u1 = u\<lparr>u_queue := tl (u_queue u), u_dropped := u_dropped u + 1\<rparr>
           in case try_send ev u1 of Some u2 \<Rightarrow> u2 | None \<Rightarrow> u1))"

definition push :: "event \<Rightarrow> subscriber \<Rightarrow> subscriber" where
  "push ev u =
     (if \<not> wants u ev then u
      else if u_closed u then u
      else if u_dropped u > 0
      then (case try_send (dropped_event (u_dropped u) ev) u of
              Some u' \<Rightarrow> push_event ev (u'\<lparr>u_dropped := 0\<rparr>)
            | None \<Rightarrow> u\<lparr>u_dropped := u_dropped u + 1\<rparr>)
      else push_event ev u)"

text \<open>A receive from \<open>C\<close>; a closed channel still yields what was buffered.\<close>

definition receive :: "subscriber \<Rightarrow> (event \<times> subscriber) option" where
  "receive u =
     (case u_queue u of [] \<Rightarrow> None | ev # q \<Rightarrow> Some (ev, u\<lparr>u_queue := q\<rparr>))"

definition close_subscriber :: "subscriber \<Rightarrow> subscriber" where
  "close_subscriber u = u\<lparr>u_closed := True\<rparr>"

section \<open>The bus\<close>

text \<open>The set of subscribers is a list keyed by a handle; \<open>b_next\<close> is the next handle.\<close>

record bus =
  b_subs :: "(nat \<times> subscriber) list"
  b_next :: nat
  b_seq :: "64 word"

definition new_bus :: bus where
  "new_bus = \<lparr>b_subs = [], b_next = 0, b_seq = 0\<rparr>"

definition subscribe :: "int \<Rightarrow> (event \<Rightarrow> bool) option \<Rightarrow> bus \<Rightarrow> nat \<times> bus" where
  "subscribe sz flt b =
     (b_next b, b\<lparr>b_subs := map_put (b_next b) (new_subscriber sz flt) (b_subs b), b_next := b_next b + 1\<rparr>)"

definition unsubscribe :: "nat \<Rightarrow> bus \<Rightarrow> bus" where
  "unsubscribe k b = b\<lparr>b_subs := map_del k (b_subs b)\<rparr>"

definition stamp :: "gotime \<Rightarrow> event \<Rightarrow> bus \<Rightarrow> event" where
  "stamp now ev b =
     (let ev = ev\<lparr>ev_seq := b_seq b + 1\<rparr> in if time_is_zero (ev_ts ev) then ev\<lparr>ev_ts := now\<rparr> else ev)"

definition publish :: "gotime \<Rightarrow> event \<Rightarrow> bus \<Rightarrow> bus" where
  "publish now ev b =
     b\<lparr>b_seq := b_seq b + 1,
       b_subs := List.map (\<lambda>(k, u). (k, push (stamp now ev b) u)) (b_subs b)\<rparr>"

definition last_seq :: "bus \<Rightarrow> 64 word" where
  "last_seq b = b_seq b"

section \<open>What a subscriber gets\<close>

datatype sub_op = Push event | Receive | Close

text \<open>The history: the events offered to the open subscriber that its filter wants, and those received.\<close>

record tally =
  y_sub :: subscriber
  y_offered :: "event list"
  y_received :: "event list"

fun sub_step :: "sub_op \<Rightarrow> tally \<Rightarrow> tally" where
  "sub_step (Push ev) y =
     y\<lparr>y_sub := push ev (y_sub y),
       y_offered := (if wants (y_sub y) ev \<and> \<not> u_closed (y_sub y) then y_offered y @ [ev] else y_offered y)\<rparr>"
| "sub_step Receive y =
     (case receive (y_sub y) of
        None \<Rightarrow> y
      | Some (ev, u) \<Rightarrow> y\<lparr>y_sub := u, y_received := y_received y @ [ev]\<rparr>)"
| "sub_step Close y = y\<lparr>y_sub := close_subscriber (y_sub y)\<rparr>"

definition sub_run :: "sub_op list \<Rightarrow> tally \<Rightarrow> tally" where
  "sub_run ops y = fold sub_step ops y"

definition start_tally :: "int \<Rightarrow> (event \<Rightarrow> bool) option \<Rightarrow> tally" where
  "start_tally sz flt = \<lparr>y_sub = new_subscriber sz flt, y_offered = [], y_received = []\<rparr>"

text \<open>Markers are the coalesced \<open>EvDropped\<close> events; the bus is only ever given other events.\<close>

definition real :: "event \<Rightarrow> bool" where
  "real ev = (ev_type ev \<noteq> EvDropped)"

definition seen :: "tally \<Rightarrow> event list" where
  "seen y = y_received y @ u_queue (y_sub y)"

definition lost :: "tally \<Rightarrow> int" where
  "lost y = int (length (y_offered y)) - int (length (filter real (seen y)))"

definition marked :: "event list \<Rightarrow> int" where
  "marked evs = sum_list (List.map ev_dropped (filter (\<lambda>e. \<not> real e) evs))"

text \<open>Every loss the subscriber has been told of, is about to be told of, or still owes.\<close>

definition reported :: "tally \<Rightarrow> int" where
  "reported y = marked (seen y) + u_dropped (y_sub y)"

definition offers_real :: "sub_op list \<Rightarrow> bool" where
  "offers_real ops = list_all (\<lambda>op. case op of Push ev \<Rightarrow> real ev | _ \<Rightarrow> True) ops"

definition tally_ok :: "tally \<Rightarrow> bool" where
  "tally_ok y =
     (0 < u_cap (y_sub y) \<and> length (u_queue (y_sub y)) \<le> u_cap (y_sub y)
      \<and> 0 \<le> u_dropped (y_sub y)
      \<and> (\<forall>ev \<in> set (seen y). real ev \<or> 0 < ev_dropped ev)
      \<and> subseq (filter real (seen y)) (y_offered y)
      \<and> reported y \<le> lost y \<and> (0 < lost y \<longrightarrow> 0 < reported y))"

lemma marked_append [simp]: "marked (a @ b) = marked a + marked b"
  by (simp add: marked_def)

lemma marked_Cons: "marked (e # es) = (if real e then 0 else ev_dropped e) + marked es"
  by (simp add: marked_def)

lemma marked_Nil [simp]: "marked [] = 0"
  by (simp add: marked_def)

lemma marked_nonneg: "\<forall>ev \<in> set evs. real ev \<or> 0 < ev_dropped ev \<Longrightarrow> 0 \<le> marked evs"
  by (induction evs) (auto simp: marked_Cons)

lemma not_real_dropped [simp]: "\<not> real (dropped_event n ev)" "ev_dropped (dropped_event n ev) = n"
  by (simp_all add: real_def dropped_event_def)

lemma push_event_simps [simp]:
  "u_cap (push_event ev u) = u_cap u" "u_closed (push_event ev u) = u_closed u"
  "u_filter (push_event ev u) = u_filter u"
  by (auto simp: push_event_def try_send_def Let_def)

lemma push_simps [simp]: "u_cap (push ev u) = u_cap u" "u_closed (push ev u) = u_closed u"
  "u_filter (push ev u) = u_filter u"
  by (auto simp: push_def try_send_def split: option.splits)

lemma subseq_snoc: "subseq a b \<Longrightarrow> subseq (a @ [x]) (b @ [x])"
  by (rule list_emb_append_mono) simp_all

lemma push_event_ok:
  assumes ok: "tally_ok y" and ev: "real ev"
  shows "tally_ok (y\<lparr>y_sub := push_event ev (y_sub y), y_offered := y_offered y @ [ev]\<rparr>)"
proof (cases "length (u_queue (y_sub y)) < u_cap (y_sub y)")
  case True
  then have "push_event ev (y_sub y) = (y_sub y)\<lparr>u_queue := u_queue (y_sub y) @ [ev]\<rparr>"
    by (simp add: push_event_def try_send_def)
  with ok ev True show ?thesis
    using subseq_snoc [of "filter real (seen y)" "y_offered y" ev]
    by (auto simp: tally_ok_def seen_def reported_def lost_def marked_Cons)
next
  case False
  with ok obtain h t where q: "u_queue (y_sub y) = h # t" and len: "Suc (length t) = u_cap (y_sub y)"
    by (cases "u_queue (y_sub y)") (auto simp: tally_ok_def)
  then have p: "push_event ev (y_sub y)
      = (y_sub y)\<lparr>u_queue := t @ [ev], u_dropped := u_dropped (y_sub y) + 1\<rparr>"
    by (simp add: push_event_def try_send_def Let_def)
  have "subseq (filter real (y_received y @ t)) (filter real (seen y))"
    by (rule subseq_filter) (auto simp: seen_def q intro: list_emb_append_mono)
  then have "subseq (filter real (y_received y @ t)) (y_offered y)"
    using ok subseq_order.order_trans by (auto simp: tally_ok_def)
  then have s: "subseq (filter real (y_received y @ t) @ [ev]) (y_offered y @ [ev])"
    by (rule subseq_snoc)
  have "\<forall>e \<in> set (y_received y). real e \<or> 0 < ev_dropped e" "\<forall>e \<in> set t. real e \<or> 0 < ev_dropped e"
    using ok q by (auto simp: tally_ok_def seen_def)
  then have "0 \<le> marked (y_received y)" "0 \<le> marked t" by (auto intro: marked_nonneg)
  with ok ev s len q show ?thesis
    by (cases "real h") (auto simp: tally_ok_def p seen_def reported_def lost_def marked_Cons)
qed

lemma push_ok:
  assumes ok: "tally_ok y" and ev: "real ev" and w: "wants (y_sub y) ev" "\<not> u_closed (y_sub y)"
  shows "tally_ok (y\<lparr>y_sub := push ev (y_sub y), y_offered := y_offered y @ [ev]\<rparr>)"
proof (cases "u_dropped (y_sub y) > 0")
  case False
  with w push_event_ok [OF ok ev] show ?thesis by (simp add: push_def)
next
  case dropped: True
  let ?m = "dropped_event (u_dropped (y_sub y)) ev"
  show ?thesis
  proof (cases "length (u_queue (y_sub y)) < u_cap (y_sub y)")
    case True
    let ?u = "(y_sub y)\<lparr>u_queue := u_queue (y_sub y) @ [?m], u_dropped := 0\<rparr>"
    have "tally_ok (y\<lparr>y_sub := ?u\<rparr>)"
      using ok dropped True
      by (auto simp: tally_ok_def seen_def reported_def lost_def marked_Cons)
    moreover have "push ev (y_sub y) = push_event ev ?u"
      using w dropped True by (simp add: push_def try_send_def)
    ultimately show ?thesis using push_event_ok [of "y\<lparr>y_sub := ?u\<rparr>" ev] ev by simp
  next
    case False
    then have "push ev (y_sub y) = (y_sub y)\<lparr>u_dropped := u_dropped (y_sub y) + 1\<rparr>"
      using w dropped by (simp add: push_def try_send_def)
    moreover have "0 \<le> marked (y_received y) + marked (u_queue (y_sub y))"
      using ok marked_nonneg [of "seen y"] by (simp add: tally_ok_def seen_def)
    moreover have "subseq (filter real (seen y)) (y_offered y @ [ev])"
      using ok by (auto simp: tally_ok_def intro: subseq_rev_drop_many)
    ultimately show ?thesis using ok dropped
      by (auto simp: tally_ok_def seen_def reported_def lost_def)
  qed
qed

lemma push_skip: "\<not> (wants u ev \<and> \<not> u_closed u) \<Longrightarrow> push ev u = u"
  by (auto simp: push_def)

lemma sub_step_ok:
  assumes ok: "tally_ok y" and r: "\<And>ev. op = Push ev \<Longrightarrow> real ev"
  shows "tally_ok (sub_step op y)"
proof (cases op)
  case (Push ev)
  then show ?thesis
    using push_ok [OF ok r [OF Push]] ok push_skip [of "y_sub y" ev]
    by (cases "wants (y_sub y) ev \<and> \<not> u_closed (y_sub y)") auto
next
  case Receive
  with ok show ?thesis
    by (cases "u_queue (y_sub y)")
       (auto simp: receive_def tally_ok_def seen_def reported_def lost_def marked_Cons)
next
  case Close
  with ok show ?thesis
    by (simp add: close_subscriber_def tally_ok_def seen_def reported_def lost_def)
qed

lemma sub_run_ok: "tally_ok y \<Longrightarrow> offers_real ops \<Longrightarrow> tally_ok (sub_run ops y)"
proof (induction ops arbitrary: y)
  case Nil
  then show ?case by (simp add: sub_run_def)
next
  case (Cons op ops)
  then have "tally_ok (sub_step op y)" by (intro sub_step_ok) (auto simp: offers_real_def)
  with Cons show ?case by (simp add: sub_run_def offers_real_def)
qed

lemma start_tally_ok: "tally_ok (start_tally sz flt)"
  by (simp add: tally_ok_def start_tally_def new_subscriber_def seen_def reported_def lost_def)


definition plain_event :: "nat \<Rightarrow> event" where
  "plain_event n = \<lparr>ev_type = EvDone, ev_seq = of_nat n, ev_ts = 1, ev_flow = None, ev_phase = [],
     ev_ws = None, ev_dropped = 0\<rparr>"


lemma push_full_dropping:
  assumes "length (u_queue u) = u_cap u" "0 < u_dropped u" "\<not> u_closed u" "u_filter u = None"
  shows "fold push evs u = u\<lparr>u_dropped := u_dropped u + int (length evs)\<rparr>"
  using assms
proof (induction evs arbitrary: u)
  case Nil
  then show ?case by simp
next
  case (Cons e es)
  then have "push e u = u\<lparr>u_dropped := u_dropped u + 1\<rparr>"
    by (simp add: push_def wants_def try_send_def)
  with Cons show ?case by (simp add: algebra_simps)
qed

text \<open>A subscriber that stays full loses the newest events, not the older ones: after the first
  loss, every later event is discarded while the queue stays full, and the events already queued,
  however stale, stay in it.\<close>

theorem bus_keeps_stale_events:
  assumes "length (u_queue u) = u_cap u" "0 < u_dropped u" "\<not> u_closed u" "u_filter u = None"
  shows "u_queue (fold push evs u) = u_queue u
    \<and> u_dropped (fold push evs u) = u_dropped u + int (length evs)"
  using push_full_dropping [OF assms] by simp

lemma bus_keeps_stale_events_witness:
  "u_queue (fold push (List.map plain_event [4, 5, 6])
     (fold push (List.map plain_event [1, 2, 3]) (new_subscriber 2 None))) = List.map plain_event [2, 3]"
proof -
  have "fold push (List.map plain_event [1, 2, 3]) (new_subscriber 2 None)
      = \<lparr>u_queue = List.map plain_event [2, 3], u_cap = 2, u_dropped = 1, u_closed = False, u_filter = None\<rparr>"
    by (simp add: new_subscriber_def push_def push_event_def try_send_def wants_def Let_def)
  then show ?thesis
    using bus_keeps_stale_events [of "fold push (List.map plain_event [1, 2, 3]) (new_subscriber 2 None)"
        "List.map plain_event [4, 5, 6]"] by simp
qed

end
