(* ===== verification/Glob.thy ===== *)
theory Glob
  imports Prelude
begin

text \<open>
  \<open>internal/glob\<close>: the wildcard language of host and path patterns. \<open>glob_run\<close> is the recursive
  matcher as written (stars collapsed, then every suffix of the text tried, longest first);
  \<open>glob_lang\<close> is the meaning of a pattern, one rule per pattern byte; \<open>glob_run_iff\<close> says they
  agree. \<open>Match\<close>, \<open>MatchAny\<close> and \<open>IsPattern\<close> are built on it.
\<close>

section \<open>The matcher\<close>

text \<open>\<open>tails s\<close> lists \<open>s[i:]\<close> for \<open>i = 0, ..., len(s)\<close>.\<close>

fun tails :: "'a list \<Rightarrow> 'a list list" where
  "tails [] = [[]]"
| "tails (x # xs) = (x # xs) # tails xs"

abbreviation is_star :: "char \<Rightarrow> bool" where
  "is_star c \<equiv> c = CHR ''*''"

function glob_run :: "string \<Rightarrow> string \<Rightarrow> bool" where
  "glob_run [] s = (s = [])"
| "glob_run (c # p) s =
     (if c = CHR ''*'' then
        (let p' = dropWhile is_star p
         in if p' = [] then True else list_ex (\<lambda>t. glob_run p' t) (tails s))
      else if c = CHR ''?'' then
        (case s of [] \<Rightarrow> False | _ # t \<Rightarrow> glob_run p t)
      else
        (case s of [] \<Rightarrow> False | d # t \<Rightarrow> c = d \<and> glob_run p t))"
  by pat_completeness auto
termination
  by (relation "measure (\<lambda>(p, s). length p)") (auto simp: length_dropWhile_le le_imp_less_Suc)

declare glob_run.simps(2) [simp del]

definition glob_match :: "string \<Rightarrow> string \<Rightarrow> bool" where
  "glob_match pattern s = glob_run (to_lower pattern) (to_lower s)"

definition glob_match_any :: "string list \<Rightarrow> string \<Rightarrow> bool" where
  "glob_match_any patterns s = list_ex (\<lambda>p. glob_match p s) patterns"

definition is_pattern :: "string \<Rightarrow> bool" where
  "is_pattern p = contains_any p ''*?''"

section \<open>What a pattern means\<close>

inductive glob_lang :: "string \<Rightarrow> string \<Rightarrow> bool" where
  gl_empty: "glob_lang [] []"
| gl_star: "glob_lang p t \<Longrightarrow> glob_lang (CHR ''*'' # p) (u @ t)"
| gl_any: "glob_lang p s \<Longrightarrow> glob_lang (CHR ''?'' # p) (c # s)"
| gl_lit: "c \<noteq> CHR ''*'' \<Longrightarrow> c \<noteq> CHR ''?'' \<Longrightarrow> glob_lang p s \<Longrightarrow> glob_lang (c # p) (c # s)"

inductive_simps glob_lang_Nil [simp]: "glob_lang [] s"
inductive_simps glob_lang_star: "glob_lang (CHR ''*'' # p) s"
inductive_simps glob_lang_any: "glob_lang (CHR ''?'' # p) s"
inductive_cases glob_lang_ConsE: "glob_lang (c # p) s"

lemma glob_lang_lit:
  "c \<noteq> CHR ''*'' \<Longrightarrow> c \<noteq> CHR ''?'' \<Longrightarrow>
     glob_lang (c # p) s \<longleftrightarrow> (\<exists>t. s = c # t \<and> glob_lang p t)"
  by (auto intro: gl_lit elim: glob_lang_ConsE)

lemmas glob_lang_simps = glob_lang_star glob_lang_any glob_lang_lit

lemma set_tails: "t \<in> set (tails s) \<longleftrightarrow> (\<exists>u. s = u @ t)"
  by (induction s) (auto simp: Cons_eq_append_conv)

lemma glob_lang_star_absorb: "glob_lang (CHR ''*'' # dropWhile is_star p) s \<longleftrightarrow> glob_lang (CHR ''*'' # p) s"
proof (induction p)
  case Nil
  then show ?case by simp
next
  case (Cons c p)
  show ?case
  proof (cases "c = CHR ''*''")
    case True
    have "glob_lang (CHR ''*'' # CHR ''*'' # p) s \<longleftrightarrow> glob_lang (CHR ''*'' # p) s"
      unfolding glob_lang_star by (metis append.assoc append_Nil)
    with Cons True show ?thesis by simp
  qed simp
qed

theorem glob_run_iff: "glob_run p s \<longleftrightarrow> glob_lang p s"
proof (induction p s rule: glob_run.induct)
  case (1 s)
  then show ?case by simp
next
  case (2 c p s)
  show ?case
  proof (cases "c = CHR ''*''")
    case True
    let ?q = "dropWhile is_star p"
    have "glob_run (c # p) s \<longleftrightarrow> glob_lang (CHR ''*'' # ?q) s"
    proof (cases "?q = []")
      case True
      have "glob_lang (CHR ''*'' # ?q) s"
        unfolding True using gl_star [OF gl_empty, of s] by simp
      with True \<open>c = CHR ''*''\<close> show ?thesis by (simp add: glob_run.simps(2) Let_def)
    next
      case False
      have "glob_run (c # p) s \<longleftrightarrow> (\<exists>t \<in> set (tails s). glob_run ?q t)"
        using False True by (auto simp: glob_run.simps(2) Let_def list_ex_iff)
      also have "\<dots> \<longleftrightarrow> (\<exists>t \<in> set (tails s). glob_lang ?q t)"
        using "2.IH"(1) [OF True refl False] by blast
      also have "\<dots> \<longleftrightarrow> glob_lang (CHR ''*'' # ?q) s"
        by (auto simp: glob_lang_star set_tails)
      finally show ?thesis .
    qed
    with True show ?thesis by (simp add: glob_lang_star_absorb)
  next
    case False
    then show ?thesis
      using "2.IH"(2,3)
      by (cases s; cases "c = CHR ''?''") (auto simp: glob_run.simps(2) glob_lang_simps)
  qed
qed

section \<open>Derived facts\<close>

lemma glob_lang_literal: "\<not> is_pattern p \<Longrightarrow> glob_lang p s \<longleftrightarrow> s = p"
proof (induction p arbitrary: s)
  case Nil
  then show ?case by simp
next
  case (Cons c p)
  then have "c \<noteq> CHR ''*''" "c \<noteq> CHR ''?''" "\<not> is_pattern p"
    by (auto simp: is_pattern_def contains_any_def)
  with Cons.IH show ?case by (auto simp: glob_lang_lit)
qed

lemma glob_lang_append_literal:
  "\<not> is_pattern w \<Longrightarrow> glob_lang (w @ p) s \<longleftrightarrow> (\<exists>t. s = w @ t \<and> glob_lang p t)"
proof (induction w arbitrary: s)
  case Nil
  then show ?case by simp
next
  case (Cons c w)
  then have "c \<noteq> CHR ''*''" "c \<noteq> CHR ''?''" "\<not> is_pattern w"
    by (auto simp: is_pattern_def contains_any_def)
  with Cons.IH show ?case by (auto simp: glob_lang_lit)
qed

lemma lower_char_wild [simp]:
  "lower_char c = CHR ''*'' \<longleftrightarrow> c = CHR ''*''"
  "lower_char c = CHR ''?'' \<longleftrightarrow> c = CHR ''?''"
  by (rule lower_char_eq_iff_not_letter; simp)+

lemma is_pattern_to_lower [simp]: "is_pattern (to_lower p) = is_pattern p"
  by (simp add: is_pattern_def contains_any_def list_ex_iff to_lower_def)

lemma glob_match_iff: "glob_match p s \<longleftrightarrow> glob_lang (to_lower p) (to_lower s)"
  by (simp add: glob_match_def glob_run_iff)

lemma glob_match_literal: "\<not> is_pattern p \<Longrightarrow> glob_match p s \<longleftrightarrow> equal_fold p s"
  by (auto simp: glob_match_iff glob_lang_literal equal_fold_def)

lemma glob_match_fold:
  "equal_fold p p' \<Longrightarrow> equal_fold s s' \<Longrightarrow> glob_match p s = glob_match p' s'"
  by (simp add: glob_match_iff equal_fold_def)

lemma glob_match_star [simp]: "glob_match ''*'' s"
proof -
  have "glob_lang (CHR ''*'' # []) (to_lower s @ [])"
    by (rule gl_star) simp
  then show ?thesis by (simp add: glob_match_iff lower_char_def)
qed

section \<open>Properties\<close>


end
