(* ===== verification/Net.thy ===== *)
theory Net
  imports Prelude
begin

text \<open>
  The functions of Go's \<open>net\<close> package the proxy calls on addresses: \<open>SplitHostPort\<close>,
  \<open>JoinHostPort\<close>, \<open>ParseIP\<close> (dotted IPv4 and IPv6 with \<open>::\<close> and an embedded IPv4 tail, no zones),
  \<open>IP.IsLoopback\<close> and \<open>IP.String\<close>. Code under \<open>src/\<close> only tests their errors for nil, so a
  failure is \<open>None\<close>.
\<close>

section \<open>host:port\<close>

fun last_index :: "char \<Rightarrow> string \<Rightarrow> nat option" where
  "last_index d [] = None"
| "last_index d (c # s) =
     (case last_index d s of Some i \<Rightarrow> Some (Suc i) | None \<Rightarrow> if c = d then Some 0 else None)"

fun first_index :: "char \<Rightarrow> string \<Rightarrow> nat option" where
  "first_index d [] = None"
| "first_index d (c # s) = (if c = d then Some 0 else map_option Suc (first_index d s))"

definition split_host_port :: "string \<Rightarrow> (string \<times> string) option" where
  "split_host_port hp =
     (case last_index (CHR '':'') hp of
        None \<Rightarrow> None
      | Some i \<Rightarrow>
          (let port = drop (Suc i) hp in
           if hd hp = CHR ''['' then
             (case first_index (CHR '']'') hp of
                None \<Rightarrow> None
              | Some e \<Rightarrow>
                  if Suc e \<noteq> i then None
                  else if CHR ''['' \<in> set (drop 1 hp) \<or> CHR '']'' \<in> set (drop (Suc e) hp) then None
                  else Some (drop 1 (take e hp), port))
           else
             (let host = take i hp in
              if CHR '':'' \<in> set host then None
              else if CHR ''['' \<in> set hp \<or> CHR '']'' \<in> set hp then None
              else Some (host, port))))"

definition join_host_port :: "string \<Rightarrow> string \<Rightarrow> string" where
  "join_host_port host port =
     (if CHR '':'' \<in> set host then ''['' @ host @ '']:'' @ port else host @ '':'' @ port)"

lemma last_index_None: "last_index d s = None \<longleftrightarrow> d \<notin> set s"
  by (induction s) (auto split: option.splits)

lemma last_index_Some: "last_index d s = Some i \<Longrightarrow> s = take i s @ d # drop (Suc i) s \<and> d \<notin> set (drop (Suc i) s)"
proof (induction s arbitrary: i)
  case (Cons c s)
  show ?case
  proof (cases "last_index d s")
    case None
    then have "d \<notin> set s" by (simp add: last_index_None)
    with None Cons.prems show ?thesis by (auto split: if_splits)
  next
    case (Some j)
    from Cons.IH [OF this] Some Cons.prems show ?thesis by auto
  qed
qed simp

lemma last_index_append: "d \<notin> set p \<Longrightarrow> last_index d (h @ d # p) = Some (length h)"
proof (induction h)
  case Nil
  then show ?case by (simp add: last_index_None [THEN iffD2])
next
  case (Cons c h)
  then show ?case by simp
qed

lemma first_index_append: "d \<notin> set h \<Longrightarrow> first_index d (h @ d # p) = Some (length h)"
  by (induction h) auto

text \<open>A host and a port that are free of the delimiters survive joining and splitting.\<close>

definition plain_host :: "string \<Rightarrow> bool" where
  "plain_host h \<longleftrightarrow> CHR ''['' \<notin> set h \<and> CHR '']'' \<notin> set h"

lemma split_join:
  assumes "plain_host h" and "plain_host p" and "CHR '':'' \<notin> set p"
  shows "split_host_port (join_host_port h p) = Some (h, p)"
proof (cases "CHR '':'' \<in> set h")
  case True
  let ?s = "CHR ''['' # h @ CHR '']'' # CHR '':'' # p"
  have "last_index (CHR '':'') ?s = Some (Suc (Suc (length h)))"
    using last_index_append [OF assms(3), of "CHR ''['' # h @ [CHR '']'']"] by simp
  moreover have "first_index (CHR '']'') ?s = Some (Suc (length h))"
    using first_index_append [of "CHR '']''" "CHR ''['' # h" "CHR '':'' # p"] assms(1)
    by (simp add: plain_host_def)
  ultimately show ?thesis
    using True assms by (simp add: split_host_port_def join_host_port_def plain_host_def)
next
  case False
  have "last_index (CHR '':'') (h @ CHR '':'' # p) = Some (length h)"
    by (rule last_index_append [OF assms(3)])
  moreover have "hd (h @ CHR '':'' # p) \<noteq> CHR ''[''"
    using assms(1) by (cases h) (auto simp: plain_host_def)
  ultimately show ?thesis
    using False assms by (simp add: split_host_port_def join_host_port_def plain_host_def)
qed

lemma split_no_colon: "CHR '':'' \<notin> set s \<Longrightarrow> split_host_port s = None"
  by (simp add: split_host_port_def last_index_None [THEN iffD2])

lemma split_host_shorter: "split_host_port s = Some (h, p) \<Longrightarrow> length h < length s"
proof -
  assume eq: "split_host_port s = Some (h, p)"
  then obtain i where i: "last_index (CHR '':'') s = Some i"
    by (auto simp: split_host_port_def split: option.splits)
  have "i < length s" using last_index_Some [OF i] by (metis drop_all length_Cons length_append
        list.distinct(1) not_less append_Nil2 take_all self_append_conv le_SucI Suc_n_not_le_n)
  with eq i show ?thesis
    by (auto simp: split_host_port_def Let_def min_def split: if_splits option.splits)
qed

section \<open>IP addresses\<close>

text \<open>An \<open>IP\<close> is its 16-byte form; IPv4 addresses are the IPv4-mapped ones, as in Go.\<close>

type_synonym ip = "nat list"

definition v4_prefix :: "nat list" where
  "v4_prefix = [0, 0, 0, 0, 0, 0, 0, 0, 0, 0, 255, 255]"

text \<open>One decimal field of a dotted quad: 1 to 3 digits, no leading zero, at most 255.\<close>

definition v4_field :: "string \<Rightarrow> nat option" where
  "v4_field s =
     (if s \<noteq> [] \<and> length s \<le> 3 \<and> list_all is_digit s \<and> (hd s = CHR ''0'' \<longrightarrow> length s = 1)
         \<and> digits_val s \<le> 255
      then Some (digits_val s) else None)"

definition parse_v4 :: "string \<Rightarrow> nat list option" where
  "parse_v4 s =
     (case str_split (CHR ''.'') s of
        [a, b, c, d] \<Rightarrow>
          (case (v4_field a, v4_field b, v4_field c, v4_field d) of
             (Some w, Some x, Some y, Some z) \<Rightarrow> Some [w, x, y, z]
           | _ \<Rightarrow> None)
      | _ \<Rightarrow> None)"

definition hex_val :: "char \<Rightarrow> nat option" where
  "hex_val c =
     (let n = (of_char (lower_char c) :: nat)
      in if 48 \<le> n \<and> n \<le> 57 then Some (n - 48)
         else if 97 \<le> n \<and> n \<le> 102 then Some (n - 87) else None)"

fun hex_run :: "string \<Rightarrow> nat \<Rightarrow> nat \<times> nat \<times> string" where
  "hex_run [] acc = (acc, 0, [])"
| "hex_run (c # s) acc =
     (case hex_val c of
        None \<Rightarrow> (acc, 0, c # s)
      | Some d \<Rightarrow> (let (v, n, rest) = hex_run s (16 * acc + d) in (v, Suc n, rest)))"

text \<open>
  The field loop of \<open>netip.parseIPv6\<close>: bytes read so far, position of the ellipsis, rest of the text;
  at most 8 rounds. The result is the bytes and the ellipsis, or a failure.
\<close>

fun v6_fields :: "nat \<Rightarrow> nat list \<Rightarrow> nat option \<Rightarrow> string \<Rightarrow> (nat list \<times> nat option) option" where
  "v6_fields 0 ip ell s = (if s = [] then Some (ip, ell) else None)"
| "v6_fields (Suc k) ip ell s =
     (let (acc, n, rest) = hex_run s 0 in
      if n = 0 \<or> 4 < n then None
      else if rest \<noteq> [] \<and> hd rest = CHR ''.'' then
        (if (ell = None \<and> length ip \<noteq> 12) \<or> 12 < length ip then None
         else (case parse_v4 s of None \<Rightarrow> None | Some q \<Rightarrow> Some (ip @ q, ell)))
      else
        (let ip' = ip @ [acc div 256, acc mod 256] in
         case rest of
           [] \<Rightarrow> Some (ip', ell)
         | c # t \<Rightarrow>
             if c \<noteq> CHR '':'' \<or> t = [] then None
             else if hd t = CHR '':'' then
               (if ell \<noteq> None then None
                else if tl t = [] then Some (ip', Some (length ip'))
                else v6_fields k ip' (Some (length ip')) (tl t))
             else v6_fields k ip' ell t))"

definition parse_v6 :: "string \<Rightarrow> nat list option" where
  "parse_v6 s =
     (if take 2 s = ''::'' \<and> length s = 2 then Some (replicate 16 0)
      else
        (case (if take 2 s = ''::'' then v6_fields 8 [] (Some 0) (drop 2 s) else v6_fields 8 [] None s) of
           None \<Rightarrow> None
         | Some (ip, ell) \<Rightarrow>
             (if length ip < 16 then
                (case ell of
                   None \<Rightarrow> None
                 | Some e \<Rightarrow> Some (take e ip @ replicate (16 - length ip) 0 @ drop e ip))
              else if ell = None then Some ip else None)))"

text \<open>\<open>ParseIP\<close>: the first of \<open>'.'\<close>, \<open>':'\<close> decides the family; a zone makes it fail.\<close>

definition parse_ip :: "string \<Rightarrow> ip option" where
  "parse_ip s =
     (case filter (\<lambda>c. c \<in> set ''.:%'') s of
        [] \<Rightarrow> None
      | c # _ \<Rightarrow>
          if c = CHR ''.'' then map_option (\<lambda>q. v4_prefix @ q) (parse_v4 s)
          else if c = CHR '':'' \<and> CHR ''%'' \<notin> set s then parse_v6 s
          else None)"

definition is_v4 :: "ip \<Rightarrow> bool" where
  "is_v4 ip = (take 12 ip = v4_prefix)"

definition ip_is_loopback :: "ip \<Rightarrow> bool" where
  "ip_is_loopback ip =
     (if is_v4 ip then ip ! 12 = 127 else ip = replicate 15 0 @ [1])"

definition hex_digit :: "nat \<Rightarrow> char" where
  "hex_digit d = (if d < 10 then char_of (48 + d) else char_of (87 + d))"

fun hex_digits :: "nat \<Rightarrow> string" where
  "hex_digits n = (if n < 16 then [hex_digit n] else hex_digits (n div 16) @ [hex_digit (n mod 16)])"

declare hex_digits.simps [simp del]

fun ip_groups :: "ip \<Rightarrow> nat list" where
  "ip_groups (a # b # r) = (256 * a + b) # ip_groups r"
| "ip_groups _ = []"

text \<open>The longest run of at least two zero groups, leftmost on ties: start and end.\<close>

definition zero_run :: "nat list \<Rightarrow> nat \<Rightarrow> nat" where
  "zero_run gs i = length (takeWhile (\<lambda>g. g = 0) (drop i gs))"

definition best_run :: "nat list \<Rightarrow> (nat \<times> nat) option" where
  "best_run gs =
     fold (\<lambda>i best.
        let l = zero_run gs i
        in if 2 \<le> l \<and> (case best of None \<Rightarrow> True | Some (_, n) \<Rightarrow> n < l) then Some (i, l) else best)
       [0..<length gs] None"

definition ip_string :: "ip \<Rightarrow> string" where
  "ip_string ip =
     (if is_v4 ip then str_join ''.'' (List.map dec_digits (drop 12 ip))
      else
        (let gs = ip_groups ip; hex = (\<lambda>xs. str_join '':'' (List.map hex_digits xs))
         in case best_run gs of
              None \<Rightarrow> hex gs
            | Some (i, n) \<Rightarrow> hex (take i gs) @ ''::'' @ hex (drop (i + n) gs)))"

lemma parse_v4_length: "parse_v4 s = Some q \<Longrightarrow> length q = 4"
  by (auto simp: parse_v4_def split: list.splits option.splits)

lemma v6_fields_length:
  "v6_fields k ip ell s = Some (ip', ell') \<Longrightarrow> 16 - 2 * k \<le> length ip \<Longrightarrow> length ip + 2 * k \<le> 16 \<Longrightarrow>
     length ip' \<le> 16"
proof (induction k ip ell s rule: v6_fields.induct)
  case (1 ip ell s)
  then show ?case by (auto split: if_splits)
next
  case (2 k ip ell s)
  obtain acc n rest where run: "hex_run s 0 = (acc, n, rest)" by (cases "hex_run s 0") auto
  show ?case
    using "2.prems" "2.IH" [OF run [symmetric] refl] run
    by (auto simp: Let_def split: if_splits list.splits option.splits dest: parse_v4_length)
qed

lemma parse_ip_length: "parse_ip s = Some ip \<Longrightarrow> length ip = 16"
proof -
  have v6: "parse_v6 s = Some ip \<Longrightarrow> length ip = 16"
    using v6_fields_length [of 8 "[]"]
    by (fastforce simp: parse_v6_def split: if_splits option.splits prod.splits)
  show "parse_ip s = Some ip \<Longrightarrow> length ip = 16"
    using v6 by (auto simp: parse_ip_def v4_prefix_def split: list.splits if_splits dest: parse_v4_length)
qed

end
