(* ===== verification/Mimeclass.thy ===== *)
theory Mimeclass
  imports Prelude
begin

text \<open>
  \<open>internal/mimeclass/mimeclass.go\<close>. \<open>mime.ParseMediaType\<close> yields the part before the first
  semicolon, lower-cased and trimmed, when it accepts the value; when it does not, the code takes
  the same part itself, so the media type does not depend on whether the parameters parse.
\<close>

definition media_type :: "string \<Rightarrow> string" where
  "media_type ct = (if ct = [] then [] else to_lower (trim_space (hd (str_split (CHR '';'') ct))))"

datatype mime_class =
    MC_unknown | MC_json | MC_sse | MC_html | MC_js | MC_css | MC_img | MC_font | MC_form | MC_xml
  | MC_text | MC_media | MC_bin

fun class_str :: "mime_class \<Rightarrow> string" where
  "class_str MC_unknown = ''''"
| "class_str MC_json = ''json''"
| "class_str MC_sse = ''sse''"
| "class_str MC_html = ''html''"
| "class_str MC_js = ''js''"
| "class_str MC_css = ''css''"
| "class_str MC_img = ''img''"
| "class_str MC_font = ''font''"
| "class_str MC_form = ''form''"
| "class_str MC_xml = ''xml''"
| "class_str MC_text = ''text''"
| "class_str MC_media = ''media''"
| "class_str MC_bin = ''bin''"

definition mime_of :: "string \<Rightarrow> mime_class" where
  "mime_of ct =
     (if ct = [] then MC_unknown
      else let mt = media_type ct in
        if mt = ''application/json'' \<or> has_suffix mt ''+json'' \<or> mt = ''text/json'' then MC_json
        else if mt = ''text/event-stream'' then MC_sse
        else if mt = ''text/html'' \<or> mt = ''application/xhtml+xml'' then MC_html
        else if mt = ''application/javascript'' \<or> mt = ''text/javascript''
                \<or> mt = ''application/x-javascript'' then MC_js
        else if mt = ''text/css'' then MC_css
        else if has_prefix mt ''image/'' then MC_img
        else if has_prefix mt ''font/'' \<or> str_contains mt ''font'' then MC_font
        else if mt = ''application/x-www-form-urlencoded'' \<or> has_prefix mt ''multipart/'' then MC_form
        else if has_suffix mt ''xml'' then MC_xml
        else if has_prefix mt ''text/'' \<or> mt = ''application/x-ndjson'' \<or> mt = ''application/jsonl''
        then MC_text
        else if has_prefix mt ''video/'' \<or> has_prefix mt ''audio/'' then MC_media
        else MC_bin)"

definition is_textual :: "string \<Rightarrow> bool" where
  "is_textual cls =
     List.member [''json'', ''sse'', ''html'', ''js'', ''css'', ''form'', ''xml'', ''text'', ''''] cls"

lemma class_str_inj: "class_str a = class_str b \<Longrightarrow> a = b"
  by (cases a; cases b) simp_all

lemma hd_str_split: "hd (str_split d s) = takeWhile (\<lambda>c. c \<noteq> d) s"
proof (induction s)
  case (Cons c s)
  then show ?case by (cases "str_split d s") (auto split: list.splits)
qed simp

lemma to_lower_takeWhile:
  "to_lower (takeWhile (\<lambda>c. c \<noteq> CHR '';'') s) = takeWhile (\<lambda>c. c \<noteq> CHR '';'') (to_lower s)"
proof (induction s)
  case (Cons c s)
  have "lower_char c = CHR '';'' \<longleftrightarrow> c = CHR '';''"
    by (rule lower_char_eq_iff_not_letter) simp_all
  with Cons show ?case by simp
qed simp

lemma media_type_eq: "media_type ct = trim_space (takeWhile (\<lambda>c. c \<noteq> CHR '';'') (to_lower ct))"
proof (cases "ct = []")
  case True
  then show ?thesis by (simp add: media_type_def trim_space_def trim_left_def trim_right_def)
next
  case False
  then show ?thesis
    by (simp only: media_type_def hd_str_split to_lower_trim_space to_lower_takeWhile if_False)
qed

lemma media_type_cases:
  assumes "mt \<noteq> []" "CHR '';'' \<notin> set mt" "equal_fold mt mt'"
  shows "media_type (mt @ CHR '';'' # ps) = media_type mt'" and "media_type mt = media_type mt'"
    and "mt' \<noteq> []"
proof -
  have "takeWhile (\<lambda>c. c \<noteq> CHR '';'') (mt @ CHR '';'' # ps) = takeWhile (\<lambda>c. c \<noteq> CHR '';'') mt"
    using assms(2) by (induction mt) auto
  then show "media_type mt = media_type mt'" "media_type (mt @ CHR '';'' # ps) = media_type mt'"
    using assms(3) to_lower_takeWhile [of mt] to_lower_takeWhile [of "mt @ CHR '';'' # ps"]
    by (simp_all add: media_type_eq equal_fold_def flip: to_lower_takeWhile)
  show "mt' \<noteq> []" using assms(1,3) by (auto simp: equal_fold_def)
qed

text \<open>The class of a content type does not depend on its parameters or on letter case: whatever
  follows the first semicolon, well formed or not, and however the type is capitalised, \<open>Of\<close>
  and \<open>MediaType\<close> answer the same.\<close>

theorem mime_ignores_parameters:
  assumes "mt \<noteq> []" "CHR '';'' \<notin> set mt" "equal_fold mt mt'"
  shows "mime_of (mt @ CHR '';'' # ps) = mime_of mt' \<and> media_type (mt @ CHR '';'' # ps) = media_type mt'
    \<and> mime_of mt = mime_of mt'"
  using media_type_cases [OF assms] assms(1) by (simp add: mime_of_def)

lemma mime_ignores_parameters_witness:
  "mime_of ''Application/Problem+JSON; charset'' = MC_json"
proof -
  have "equal_fold ''Application/Problem+JSON'' ''application/problem+json''" by code_simp
  then have "mime_of (''Application/Problem+JSON'' @ CHR '';'' # '' charset'') = mime_of ''application/problem+json''"
    using mime_ignores_parameters [of "''Application/Problem+JSON''" "''application/problem+json''" "'' charset''"]
    by simp
  moreover have "mime_of ''application/problem+json'' = MC_json" by code_simp
  ultimately show ?thesis by simp
qed

end
