(* ===== verification/Store_Decode.thy ===== *)
theory Store_Decode
  imports Prelude
begin

text \<open>
  \<open>internal/store/decode.go\<close>: removing a \<open>Content-Encoding\<close>. The decompressors are third-party
  packages, so they are a parameter: a \<open>codec\<close> maps a decoder name and its input to \<open>None\<close> when
  \<open>NewReader\<close> fails, else to every byte the reader yields and whether it then ends with an error
  rather than \<open>io.EOF\<close>. Everything else, the token list, the reversed order and the limits, is
  the code's.
\<close>

section \<open>Decoding\<close>

type_synonym codec = "string \<Rightarrow> string \<Rightarrow> (string \<times> bool) option"

datatype decode_error = ErrDecodeLimit | ErrUnsupportedEncoding string | ErrDecode string

definition default_decode_limit :: int where
  "default_decode_limit = 8 * 2 ^ 20"

text \<open>\<open>io.Copy\<close> from \<open>io.LimitReader(r, limit+1)\<close>: it stops before the reader's error when the
  extra byte has been read.\<close>

definition read_bounded :: "string \<times> bool \<Rightarrow> int \<Rightarrow> string \<Rightarrow> string \<times> decode_error option" where
  "read_bounded r limit coding =
     (let (out, fails) = r;
          buf = take (nat (limit + 1)) out;
          n = int (length buf);
          err = (fails \<and> length out \<le> nat limit)
      in if err \<and> n < limit then (buf, Some (ErrDecode coding))
         else if n > limit then (take (nat limit) buf, Some ErrDecodeLimit)
         else (buf, None))"

definition decode_one :: "codec \<Rightarrow> string \<Rightarrow> string \<Rightarrow> int \<Rightarrow> string \<times> decode_error option" where
  "decode_one lib coding b limit =
     (let opened =
        (if coding = ''gzip'' \<or> coding = ''x-gzip'' then Some (lib ''gzip'' b)
         else if coding = ''deflate''
         then Some (case lib ''zlib'' b of Some r \<Rightarrow> Some r | None \<Rightarrow> lib ''flate'' b)
         else if coding = ''br'' then Some (lib ''br'' b)
         else if coding = ''zstd'' then Some (lib ''zstd'' b)
         else None)
      in case opened of
           None \<Rightarrow> ([], Some (ErrUnsupportedEncoding coding))
         | Some None \<Rightarrow> ([], Some (ErrDecode coding))
         | Some (Some r) \<Rightarrow> read_bounded r limit coding)"

definition codings :: "string \<Rightarrow> string list" where
  "codings enc =
     filter (\<lambda>tok. tok \<noteq> [] \<and> tok \<noteq> ''identity'')
       (List.map (\<lambda>tok. to_lower (trim_space tok)) (str_split (CHR '','') enc))"

fun decode_chain :: "codec \<Rightarrow> int \<Rightarrow> string list \<Rightarrow> string \<Rightarrow> string \<times> decode_error option" where
  "decode_chain lib limit [] b = (b, None)"
| "decode_chain lib limit (c # cs) b =
     (case decode_one lib c b limit of
        (out, Some e) \<Rightarrow> (out, Some e)
      | (out, None) \<Rightarrow> decode_chain lib limit cs out)"

definition decode_body :: "codec \<Rightarrow> string \<Rightarrow> string \<Rightarrow> int \<Rightarrow> string \<times> decode_error option" where
  "decode_body lib enc b limit =
     (let limit = (if limit \<le> 0 then default_decode_limit else limit)
      in if codings enc = [] then (b, None) else decode_chain lib limit (rev (codings enc)) b)"

section \<open>Bounds and the inverse of encoding\<close>

definition effective_limit :: "int \<Rightarrow> int" where
  "effective_limit limit = (if limit \<le> 0 then default_decode_limit else limit)"

lemma effective_limit_pos: "0 < effective_limit limit"
  by (simp add: effective_limit_def default_decode_limit_def)

lemma read_bounded_length: "0 < limit \<Longrightarrow> int (length (fst (read_bounded r limit c))) \<le> limit"
  by (auto simp: read_bounded_def Let_def split_beta)

lemma decode_one_length: "0 < limit \<Longrightarrow> int (length (fst (decode_one lib c b limit))) \<le> limit"
  by (auto simp: decode_one_def Let_def read_bounded_length split: option.splits)

lemma decode_chain_length:
  "0 < limit \<Longrightarrow> cs \<noteq> [] \<Longrightarrow> int (length (fst (decode_chain lib limit cs b))) \<le> limit"
proof (induction cs arbitrary: b)
  case (Cons c cs)
  show ?case
  proof (cases "decode_one lib c b limit")
    case (Pair out e)
    with Cons decode_one_length [of limit lib c b] show ?thesis
      by (cases e; cases "cs = []") auto
  qed
qed simp

text \<open>The specification of applying codings in order, given what each encoder does.\<close>

definition applied :: "(string \<Rightarrow> string \<Rightarrow> string) \<Rightarrow> string list \<Rightarrow> string \<Rightarrow> string" where
  "applied enc cs b = fold enc cs b"

text \<open>The documented contract of a compression package: its reader inverts its writer.\<close>

definition inverts :: "codec \<Rightarrow> (string \<Rightarrow> string \<Rightarrow> string) \<Rightarrow> bool" where
  "inverts lib enc =
     (\<forall>b. lib ''gzip'' (enc ''gzip'' b) = Some (b, False) \<and> lib ''gzip'' (enc ''x-gzip'' b) = Some (b, False)
        \<and> lib ''zlib'' (enc ''deflate'' b) = Some (b, False) \<and> lib ''br'' (enc ''br'' b) = Some (b, False)
        \<and> lib ''zstd'' (enc ''zstd'' b) = Some (b, False))"

definition known_codings :: "string list" where
  "known_codings = [''gzip'', ''x-gzip'', ''deflate'', ''br'', ''zstd'']"

lemma decode_one_inverts:
  assumes "inverts lib enc" "c \<in> set known_codings" "int (length b) \<le> limit"
  shows "decode_one lib c (enc c b) limit = (b, None)"
proof -
  have "read_bounded (b, False) limit c' = (b, None)" for c'
    using assms(3) by (simp add: read_bounded_def)
  with assms show ?thesis by (auto simp: known_codings_def inverts_def decode_one_def)
qed

lemma decode_chain_append:
  "decode_chain lib limit (cs @ ds) b =
     (case decode_chain lib limit cs b of (out, Some e) \<Rightarrow> (out, Some e)
      | (out, None) \<Rightarrow> decode_chain lib limit ds out)"
  by (induction cs arbitrary: b) (auto split: prod.splits option.splits)

lemma decode_chain_inverts:
  assumes "inverts lib enc" "set cs \<subseteq> set known_codings"
    and "\<forall>k < length cs. int (length (applied enc (take k cs) b)) \<le> limit"
  shows "decode_chain lib limit (rev cs) (applied enc cs b) = (b, None)"
  using assms(2,3)
proof (induction cs rule: rev_induct)
  case Nil
  then show ?case by (simp add: applied_def)
next
  case (snoc c cs)
  have "decode_one lib c (enc c (applied enc cs b)) limit = (applied enc cs b, None)"
    using snoc.prems by (intro decode_one_inverts assms(1)) (auto dest: spec [of _ "length cs"])
  moreover have "\<forall>k < length cs. int (length (applied enc (take k cs) b)) \<le> limit"
  proof (intro allI impI)
    fix k assume "k < length cs"
    with snoc.prems(2) [rule_format, of k] show "int (length (applied enc (take k cs) b)) \<le> limit"
      by simp
  qed
  ultimately show ?case using snoc by (simp add: applied_def)
qed

text \<open>Whatever the decompressors do, the decoded body never exceeds the limit (8 MiB when none is
  given) once any coding is removed, the identity coding returns the body itself, and a body that
  was encoded with any chain of the supported codings, listed in the header in the order they were
  applied, is decoded back exactly, provided each intermediate form fits in the limit.\<close>

theorem decode_body_inverts_chain:
  assumes lib: "inverts lib enc"
    and cs: "set (codings hdr) \<subseteq> set known_codings"
    and fits: "\<forall>k < length (codings hdr). int (length (applied enc (take k (codings hdr)) b)) \<le> effective_limit limit"
  shows "decode_body lib hdr (applied enc (codings hdr) b) limit = (b, None)
    \<and> (int (length (fst (decode_body lib' hdr' b' limit))) \<le> effective_limit limit
       \<or> (codings hdr' = [] \<and> decode_body lib' hdr' b' limit = (b', None)))"
proof -
  have "decode_body lib hdr (applied enc (codings hdr) b) limit = (b, None)"
    using decode_chain_inverts [OF lib cs fits]
    by (auto simp: decode_body_def applied_def effective_limit_def)
  moreover have "int (length (fst (decode_body lib' hdr' b' limit))) \<le> effective_limit limit"
    if "codings hdr' \<noteq> []"
    using decode_chain_length [OF effective_limit_pos, of "rev (codings hdr')"] that
    by (simp add: decode_body_def effective_limit_def)
  ultimately show ?thesis by (auto simp: decode_body_def)
qed

text \<open>A toy codec: each coding writes its first letter in front, and reading checks and drops it.\<close>

definition toy_enc :: "string \<Rightarrow> string \<Rightarrow> string" where
  "toy_enc c b = (if c = ''x-gzip'' then CHR ''g'' else if c = ''deflate'' then CHR ''z'' 
     else if c = ''br'' then CHR ''b'' else if c = ''zstd'' then CHR ''s'' else CHR ''g'') # b"

definition toy_codec :: codec where
  "toy_codec c b =
     (case b of [] \<Rightarrow> None
      | k # r \<Rightarrow> if k = (if c = ''zlib'' then CHR ''z'' else if c = ''br'' then CHR ''b''
                        else if c = ''zstd'' then CHR ''s'' else CHR ''g'')
                 then Some (r, False) else None)"

lemma decode_body_inverts_chain_witness:
  "decode_body toy_codec '' gzip, identity,BR'' ''bghello'' 6 = (''hello'', None)"
proof -
  have c: "codings '' gzip, identity,BR'' = [''gzip'', ''br'']" by code_simp
  have "decode_body toy_codec '' gzip, identity,BR''
      (applied toy_enc (codings '' gzip, identity,BR'') ''hello'') 6 = (''hello'', None)
    \<and> (int (length (fst (decode_body toy_codec [] [] 6))) \<le> effective_limit 6
       \<or> (codings [] = [] \<and> decode_body toy_codec [] [] 6 = ([], None)))"
  proof (rule decode_body_inverts_chain)
    show "inverts toy_codec toy_enc" by (simp add: inverts_def toy_codec_def toy_enc_def)
    show "set (codings '' gzip, identity,BR'') \<subseteq> set known_codings" by (simp add: c known_codings_def)
    show "\<forall>k < length (codings '' gzip, identity,BR'').
        int (length (applied toy_enc (take k (codings '' gzip, identity,BR'')) ''hello'')) \<le> effective_limit 6"
      by (simp add: c less_Suc_eq all_conj_distrib applied_def toy_enc_def effective_limit_def)
  qed
  then show ?thesis by (simp add: c applied_def toy_enc_def)
qed

end
