(* ===== verification/Store_Filter.thy ===== *)
theory Store_Filter
  imports Flow Glob Net Http Mimeclass Store_Decode
begin

text \<open>
  \<open>internal/store/filter.go\<close>: compiling an \<open>api.FlowFilter\<close> and matching flows against it. Two
  things the code calls are parameters: \<open>time_lib\<close> is the part of Go's \<open>time\<close> and \<open>strconv\<close> that
  reads instants and durations, and \<open>codec\<close> the decompressors of \<open>Store_Decode\<close>.
\<close>

section \<open>Filters\<close>

record flow_filter =
  ff_q :: string
  ff_host :: string
  ff_path :: string
  ff_method :: "string list"
  ff_status :: string
  ff_since :: string
  ff_until :: string
  ff_content_type :: string
  ff_min_bytes :: int
  ff_has_error :: bool
  ff_tag :: string
  ff_rule :: string
  ff_state :: string
  ff_kind :: string
  ff_session :: string
  ff_client :: string
  ff_limit :: int
  ff_cursor :: string
  ff_fields :: "string list"

definition empty_filter :: flow_filter where
  "empty_filter = \<lparr>ff_q = [], ff_host = [], ff_path = [], ff_method = [], ff_status = [], ff_since = [],
     ff_until = [], ff_content_type = [], ff_min_bytes = 0, ff_has_error = False, ff_tag = [],
     ff_rule = [], ff_state = [], ff_kind = [], ff_session = [], ff_client = [], ff_limit = 0,
     ff_cursor = [], ff_fields = []\<rparr>"

text \<open>\<open>time.Parse\<close> with the two RFC 3339 layouts, \<open>ParseFloat\<close> of a number of days as a duration, and
  \<open>time.ParseDuration\<close>.\<close>

record time_lib =
  tl_rfc3339_nano :: "string \<Rightarrow> gotime option"
  tl_rfc3339 :: "string \<Rightarrow> gotime option"
  tl_float_days :: "string \<Rightarrow> duration option"
  tl_duration :: "string \<Rightarrow> duration option"

definition parse_relative :: "time_lib \<Rightarrow> string \<Rightarrow> duration option" where
  "parse_relative tlb s0 =
     (let s = trim_prefix s0 ''-'';
          days = (if 1 < length s \<and> last s = CHR ''d'' then tl_float_days tlb (butlast s) else None)
      in case days of Some d \<Rightarrow> Some d | None \<Rightarrow> tl_duration tlb s)"

definition parse_time :: "time_lib \<Rightarrow> string \<Rightarrow> gotime \<Rightarrow> gotime option" where
  "parse_time tlb s0 now =
     (let s = trim_space s0 in
      if s = [] then None
      else if s = ''now'' then Some now
      else case tl_rfc3339_nano tlb s of
             Some t \<Rightarrow> Some t
           | None \<Rightarrow> (case tl_rfc3339 tlb s of
                        Some t \<Rightarrow> Some t
                      | None \<Rightarrow> map_option (\<lambda>d. now - d) (parse_relative tlb s)))"

section \<open>Status expressions\<close>

datatype status_test = StatusClass int | StatusRange int int | StatusIs int

fun status_hit :: "status_test \<Rightarrow> int \<Rightarrow> bool" where
  "status_hit (StatusClass d) s = (go_div s 100 = d)"
| "status_hit (StatusRange l h) s = (l \<le> s \<and> s \<le> h)"
| "status_hit (StatusIs n) s = (s = n)"

text \<open>One alternative; \<open>part[0] - '0'\<close> is byte arithmetic, so it wraps below zero.\<close>

definition status_part :: "string \<Rightarrow> status_test option" where
  "status_part part0 =
     (let part = trim_space part0 in
      if has_suffix part ''xx'' \<and> length part = 3
      then Some (StatusClass (((of_char (hd part) :: int) - 48) mod 256))
      else if str_contains part ''-''
      then (let (lo, hi, ok) = str_cut (CHR ''-'') part
            in case (atoi lo, atoi hi) of
                 (Some l, Some h) \<Rightarrow> if ok then Some (StatusRange l h) else None
               | _ \<Rightarrow> None)
      else map_option StatusIs (atoi part))"

definition status_matcher :: "string \<Rightarrow> (int \<Rightarrow> bool) option" where
  "status_matcher spec0 =
     (let spec = trim_space (to_lower spec0) in
      if spec = [] then None
      else let neg = has_prefix spec ''!'';
               spec = trim_prefix spec ''!'';
               fns = List.map_filter status_part (str_split (CHR ''|'') spec)
           in if fns = [] then None
              else Some (\<lambda>s. list_ex (\<lambda>fn. status_hit fn s) fns \<noteq> neg))"

section \<open>The matcher\<close>

type_synonym body_func = "body_ref \<Rightarrow> string option"

record matcher =
  mt_f :: flow_filter
  mt_q :: string
  mt_since :: gotime
  mt_since_id :: flow_id
  mt_until :: gotime
  mt_status :: "(int \<Rightarrow> bool) option"
  mt_methods :: "string list option"
  mt_ct_class :: string
  mt_bodies :: "body_func option"

definition compile_filter :: "time_lib \<Rightarrow> flow_filter \<Rightarrow> gotime \<Rightarrow> matcher" where
  "compile_filter tlb f now =
     (let since = (if ff_since f \<noteq> [] then parse_time tlb (ff_since f) now else None)
      in \<lparr>mt_f = f,
          mt_q = to_lower (ff_q f),
          mt_since = (case since of Some t \<Rightarrow> t | None \<Rightarrow> 0),
          mt_since_id =
            (if ff_since f \<noteq> [] \<and> since = None
             then (case parse_short (ff_since f) of Some i \<Rightarrow> i | None \<Rightarrow> 0) else 0),
          mt_until =
            (if ff_until f \<noteq> [] then (case parse_time tlb (ff_until f) now of Some t \<Rightarrow> t | None \<Rightarrow> 0) else 0),
          mt_status = status_matcher (ff_status f),
          mt_methods =
            (if ff_method f \<noteq> []
             then Some (List.map (\<lambda>p. to_upper (trim_space p))
                          (concat (List.map (str_split (CHR ''|'')) (ff_method f))))
             else None),
          mt_ct_class = to_lower (ff_content_type f),
          mt_bodies = None\<rparr>)"

definition with_bodies :: "body_func option \<Rightarrow> matcher \<Rightarrow> matcher" where
  "with_bodies fn m = m\<lparr>mt_bodies := fn\<rparr>"

text \<open>\<open>"remote"\<close> is every client that is not the machine itself.\<close>

definition match_client :: "string \<Rightarrow> string \<Rightarrow> bool" where
  "match_client want addr =
     (let host = (case split_host_port addr of Some (h, _) \<Rightarrow> h | None \<Rightarrow> addr)
      in if want = ''remote''
         then (case parse_ip host of None \<Rightarrow> False | Some ip \<Rightarrow> \<not> ip_is_loopback ip)
         else host = want)"

definition trim_set :: "string \<Rightarrow> string \<Rightarrow> string" where
  "trim_set cs s = trim_right (\<lambda>c. c \<in> set cs) (trim_left (\<lambda>c. c \<in> set cs) s)"

definition match_path :: "string \<Rightarrow> string \<Rightarrow> bool" where
  "match_path pattern path =
     (if has_prefix pattern ''/'' \<and> has_suffix pattern ''/'' \<and> 2 < length pattern
         \<and> contains_any pattern (''^$[](){}|+'' @ [CHR 0x5C])
      then str_contains path (trim_set ''^$'' (take (length pattern - 2) (drop 1 pattern)))
      else if \<not> is_pattern pattern then has_prefix path pattern
      else glob_match pattern path)"

definition match_state :: "flow \<Rightarrow> string \<Rightarrow> bool" where
  "match_state fl s =
     (if s = ''held'' then fl_state fl = StateHeld
      else if s = ''active'' then fl_state fl = StateActive
      else if s = ''done'' then fl_state fl = StateDone
      else if s = ''failed'' then fl_state fl = StateFailed
      else if s = ''replayed'' then fl_replay fl
      else if s = ''mocked'' \<or> s = ''blocked''
      then list_ex (\<lambda>h. (s = ''mocked'' \<and> rh_action h = ''mock'')
                      \<or> (s = ''blocked'' \<and> rh_action h = ''block'')) (fl_rules fl)
      else True)"

definition flow_ct :: "flow \<Rightarrow> string" where
  "flow_ct fl =
     (if br_mime (fl_resp_body fl) = [] then header_get (fl_resp_headers fl) ''Content-Type''
      else br_mime (fl_resp_body fl))"

definition match_ct :: "string \<Rightarrow> flow \<Rightarrow> bool" where
  "match_ct cls fl =
     (class_str (mime_of (flow_ct fl)) = cls \<or> has_prefix (to_lower (flow_ct fl)) cls)"

definition header_mentions :: "string \<Rightarrow> header \<Rightarrow> bool" where
  "header_mentions q h =
     list_ex (\<lambda>(k, vs). str_contains (to_lower k) q \<or> list_ex (\<lambda>v. str_contains (to_lower v) q) vs) h"

definition match_q :: "string \<Rightarrow> flow \<Rightarrow> bool" where
  "match_q q fl =
     (str_contains (to_lower (flow_url fl)) q
      \<or> header_mentions q (fl_req_headers fl) \<or> header_mentions q (fl_resp_headers fl)
      \<or> str_contains (to_lower (fl_error fl)) q)"

definition has_rule :: "flow \<Rightarrow> string \<Rightarrow> bool" where
  "has_rule fl i = list_ex (\<lambda>h. rh_rule_id h = i \<or> rh_name h = i) (fl_rules fl)"

text \<open>\<open>utf8.Valid\<close>: shortest encodings only, no surrogates, nothing above U+10FFFF.\<close>

definition cont_byte :: "nat \<Rightarrow> bool" where
  "cont_byte b = (128 \<le> b \<and> b \<le> 191)"

fun utf8_valid_bytes :: "nat list \<Rightarrow> bool" where
  "utf8_valid_bytes [] = True"
| "utf8_valid_bytes (a # s) =
     (if a < 128 then utf8_valid_bytes s
      else if 194 \<le> a \<and> a \<le> 223
      then (case s of b # s' \<Rightarrow> cont_byte b \<and> utf8_valid_bytes s' | _ \<Rightarrow> False)
      else if 224 \<le> a \<and> a \<le> 239
      then (case s of
              b # c # s' \<Rightarrow>
                cont_byte b \<and> (a = 224 \<longrightarrow> 160 \<le> b) \<and> (a = 237 \<longrightarrow> b \<le> 159) \<and> cont_byte c
                \<and> utf8_valid_bytes s'
            | _ \<Rightarrow> False)
      else if 240 \<le> a \<and> a \<le> 244
      then (case s of
              b # c # d # s' \<Rightarrow>
                cont_byte b \<and> (a = 240 \<longrightarrow> 144 \<le> b) \<and> (a = 244 \<longrightarrow> b \<le> 143) \<and> cont_byte c
                \<and> cont_byte d \<and> utf8_valid_bytes s'
            | _ \<Rightarrow> False)
      else False)"

definition utf8_valid :: "string \<Rightarrow> bool" where
  "utf8_valid s = utf8_valid_bytes (List.map of_char s)"

definition search_text_cap :: int where
  "search_text_cap = 256 * 2 ^ 10"

text \<open>The loop of \<open>BodyText\<close>: drop a rune cut in half by the cap, give up on anything else.\<close>

function trim_rune :: "int \<Rightarrow> string \<Rightarrow> string option" where
  "trim_rune cap dec =
     (if dec \<noteq> [] \<and> \<not> utf8_valid dec
      then (if int (length dec) < cap then None else trim_rune cap (butlast dec))
      else Some dec)"
  by pat_completeness auto
termination
  by (relation "measure (\<lambda>(cap, dec). length dec)") auto

declare trim_rune.simps [simp del]

definition body_text :: "codec \<Rightarrow> body_ref \<Rightarrow> body_func option \<Rightarrow> string option" where
  "body_text lib ref bodies =
     (case bodies of
        None \<Rightarrow> None
      | Some fn \<Rightarrow>
          (if br_hash ref = [] \<or> \<not> is_textual (class_str (mime_of (br_mime ref))) then None
           else case fn ref of
                  None \<Rightarrow> None
                | Some raw \<Rightarrow>
                    (let (dec, err) = decode_body lib (br_encoding ref) raw search_text_cap in
                     if err \<noteq> None \<and> err \<noteq> Some ErrDecodeLimit then None
                     else trim_rune search_text_cap (take (nat search_text_cap) dec))))"

definition match_body :: "codec \<Rightarrow> matcher \<Rightarrow> flow \<Rightarrow> bool" where
  "match_body lib m fl =
     (mt_bodies m \<noteq> None
      \<and> list_ex (\<lambda>ref. case body_text lib ref (mt_bodies m) of
                        Some txt \<Rightarrow> str_contains (to_lower txt) (mt_q m) | None \<Rightarrow> False)
          [fl_req_body fl, fl_resp_body fl])"

definition match_filter :: "codec \<Rightarrow> matcher \<Rightarrow> flow \<Rightarrow> bool" where
  "match_filter lib m fl =
     (let f = mt_f m in
      if mt_since_id m \<noteq> 0 \<and> fl_id fl \<le> mt_since_id m then False
      else if \<not> time_is_zero (mt_since m) \<and> t_start (fl_t fl) < mt_since m then False
      else if \<not> time_is_zero (mt_until m) \<and> mt_until m < t_start (fl_t fl) then False
      else if ff_host f \<noteq> [] \<and> \<not> glob_match (ff_host f) (fl_host fl) then False
      else if ff_path f \<noteq> [] \<and> \<not> match_path (ff_path f) (fl_path fl) then False
      else if (case mt_methods m of None \<Rightarrow> False | Some ms \<Rightarrow> fl_method fl \<notin> set ms) then False
      else if (case mt_status m of None \<Rightarrow> False
               | Some P \<Rightarrow> fl_status fl = 0 \<or> \<not> P (fl_status fl)) then False
      else if 0 < ff_min_bytes f
              \<and> br_size (fl_req_body fl) + br_size (fl_resp_body fl) < ff_min_bytes f then False
      else if ff_has_error f \<and> fl_error fl = [] \<and> fl_status fl < 400 then False
      else if ff_tag f \<noteq> [] \<and> \<not> List.member (fl_tags fl) (ff_tag f) then False
      else if ff_rule f \<noteq> [] \<and> \<not> has_rule fl (ff_rule f) then False
      else if ff_kind f \<noteq> [] \<and> kind_str (fl_kind fl) \<noteq> ff_kind f then False
      else if ff_session f \<noteq> [] \<and> fl_session fl \<noteq> ff_session f then False
      else if ff_client f \<noteq> [] \<and> \<not> match_client (ff_client f) (fl_client fl) then False
      else if ff_state f \<noteq> [] \<and> ff_state f \<noteq> ''all'' \<and> \<not> match_state fl (ff_state f) then False
      else if mt_ct_class m \<noteq> [] \<and> \<not> match_ct (mt_ct_class m) fl then False
      else if mt_q m \<noteq> [] \<and> \<not> match_q (mt_q m) fl \<and> \<not> match_body lib m fl then False
      else True)"

section \<open>Status expressions say what they print\<close>

fun status_print :: "status_test \<Rightarrow> string" where
  "status_print (StatusClass d) = digit_char (nat d) # ''xx''"
| "status_print (StatusRange l h) = itoa l @ ''-'' @ itoa h"
| "status_print (StatusIs n) = itoa n"

fun status_ok :: "status_test \<Rightarrow> bool" where
  "status_ok (StatusClass d) = (0 \<le> d \<and> d \<le> 9)"
| "status_ok (StatusRange l h) = (0 \<le> l \<and> l \<le> int_max \<and> 0 \<le> h \<and> h \<le> int_max)"
| "status_ok (StatusIs n) = (0 \<le> n \<and> n \<le> int_max)"

definition status_byte :: "char \<Rightarrow> bool" where
  "status_byte c = (is_digit c \<or> c = CHR ''x'' \<or> c = CHR ''-'')"

lemma itoa_nonneg: "0 \<le> n \<Longrightarrow> itoa n = dec_digits (nat n)"
  by (simp add: itoa_def)

lemma digit_facts:
  assumes "is_digit c"
  shows "status_byte c" "c \<noteq> CHR ''-''" "c \<noteq> CHR ''x''" "c \<noteq> CHR ''|''" "c \<noteq> CHR ''!''"
  using assms by (auto simp: status_byte_def is_digit_def)

lemma status_byte_facts:
  assumes "status_byte c"
  shows "\<not> is_space c" "lower_char c = c" "c \<noteq> CHR ''|''" "c \<noteq> CHR ''!''"
  using assms by (auto simp: status_byte_def is_digit_def is_space_def lower_char_def)

lemma digits_all: "c \<in> set (dec_digits n) \<Longrightarrow> is_digit c"
  using dec_digits_all [of n] by (auto simp: list_all_iff)

lemma status_print_bytes: "status_ok t \<Longrightarrow> c \<in> set (status_print t) \<Longrightarrow> status_byte c"
  by (cases t) (auto simp: itoa_nonneg digit_facts(1) status_byte_def dest: digits_all)

lemma trim_space_status:
  assumes "\<forall>c \<in> set s. status_byte c" shows "trim_space s = s"
  using assms by (intro trim_space_id) (auto simp: list_all_iff status_byte_facts(1))

lemma str_cut_at: "d \<notin> set a \<Longrightarrow> str_cut d (a @ d # b) = (a, b, True)"
  by (auto simp: str_cut_def takeWhile_tail takeWhile_append takeWhile_eq_all_conv dropWhile_append)

lemma not_xx_digits: "d \<in> set s \<Longrightarrow> last s \<noteq> CHR ''x'' \<Longrightarrow> \<not> has_suffix s ''xx''"
  by (auto simp: suffix_def)

lemma last_itoa: "0 \<le> n \<Longrightarrow> last (itoa n) \<noteq> CHR ''x''"
  using digits_all [of "last (dec_digits (nat n))" "nat n"] digit_facts(3) by (auto simp: itoa_nonneg)

lemma itoa_nonempty: "0 \<le> n \<Longrightarrow> itoa n \<noteq> []"
  by (simp add: itoa_nonneg)

lemma in_int_nonneg: "0 \<le> n \<Longrightarrow> n \<le> int_max \<Longrightarrow> atoi (itoa n) = Some n"
  by (rule atoi_itoa) (simp add: in_int_def int_min_def)

text \<open>The branch each printed form takes: a class ends in \<open>xx\<close>, a range has a dash, a code neither.\<close>

lemma print_class:
  assumes "0 \<le> d" "d \<le> 9"
  shows "((of_char (digit_char (nat d)) :: int) - 48) mod 256 = d"
proof -
  have "nat d < 10" using assms by auto
  then have "(of_char (digit_char (nat d)) :: int) = 48 + d"
    using of_char_digit_char [of "nat d"] assms by (metis of_nat_add of_nat_numeral int_nat_eq of_nat_of_char)
  with assms show ?thesis by simp
qed

lemma print_range:
  assumes "0 \<le> l" "0 \<le> h"
  shows "\<not> has_suffix (itoa l @ CHR ''-'' # itoa h) ''xx''" "str_contains (itoa l @ CHR ''-'' # itoa h) ''-''"
    and "str_cut (CHR ''-'') (itoa l @ CHR ''-'' # itoa h) = (itoa l, itoa h, True)"
proof -
  show "\<not> has_suffix (itoa l @ CHR ''-'' # itoa h) ''xx''"
    by (rule not_xx_digits [of "CHR ''-''"]) (simp_all add: last_itoa itoa_nonempty assms)
  have "itoa l @ CHR ''-'' # itoa h = itoa l @ ''-'' @ itoa h" by simp
  then show "str_contains (itoa l @ CHR ''-'' # itoa h) ''-''" unfolding str_contains_iff by blast
  show "str_cut (CHR ''-'') (itoa l @ CHR ''-'' # itoa h) = (itoa l, itoa h, True)"
    using digits_all digit_facts(2) by (intro str_cut_at) (auto simp: itoa_nonneg assms)
qed

lemma print_is:
  assumes "0 \<le> n"
  shows "\<not> has_suffix (itoa n) ''xx''" "\<not> str_contains (itoa n) ''-''"
proof -
  show "\<not> has_suffix (itoa n) ''xx''"
    by (rule not_xx_digits [of "hd (itoa n)"]) (simp_all add: last_itoa itoa_nonempty assms)
  have "CHR ''-'' \<notin> set (itoa n)"
    using digits_all digit_facts(2) by (auto simp: itoa_nonneg assms)
  then show "\<not> str_contains (itoa n) ''-''" by (auto simp: str_contains_iff)
qed

lemma suffix_xx: "suffix ''xx'' (c # ''xx'')"
  by (simp add: suffix_def)

lemma trim_space_itoa [simp]: "0 \<le> n \<Longrightarrow> trim_space (itoa n) = itoa n"
  using digits_all digit_facts(1) by (intro trim_space_status) (auto simp: itoa_nonneg)

lemma trim_space_print:
  assumes "status_ok t"
  shows "trim_space (status_print t) = status_print t"
  using status_print_bytes [OF assms] by (intro trim_space_status) blast

lemma status_part_print:
  assumes "status_ok t"
  shows "status_part (status_print t) = Some t"
  using assms trim_space_print [OF assms]
  by (cases t) (simp_all add: status_part_def print_class print_range print_is in_int_nonneg suffix_xx Let_def)

lemma status_part_prints:
  "\<forall>t \<in> set ts. status_ok t \<Longrightarrow> List.map_filter status_part (List.map status_print ts) = ts"
  by (induction ts) (simp_all add: map_filter_simps status_part_print)

lemma status_spec_bytes:
  assumes "\<forall>t \<in> set ts. status_ok t" "c \<in> set (str_join ''|'' (List.map status_print ts))"
  shows "status_byte c \<or> c = CHR ''|''"
  using assms
proof (induction "''|''" "List.map status_print ts" arbitrary: ts rule: str_join.induct)
  case (2 w)
  then show ?case by (cases ts) (auto dest: status_print_bytes)
next
  case (3 w v ws)
  then obtain t ts' where ts: "ts = t # ts'" "w = status_print t" "v # ws = List.map status_print ts'"
    by (cases ts) auto
  from 3 ts have "c \<in> set w \<or> c = CHR ''|'' \<or> c \<in> set (str_join ''|'' (List.map status_print ts'))"
    by auto
  with 3 ts show ?case by (auto dest: status_print_bytes)
qed simp

lemma to_lower_id: "\<forall>c \<in> set s. lower_char c = c \<Longrightarrow> to_lower s = s"
  by (induction s) auto

lemma status_spec_norm:
  fixes neg :: bool
  assumes "ts \<noteq> []" "\<forall>t \<in> set ts. status_ok t"
  defines "b \<equiv> str_join ''|'' (List.map status_print ts)"
  defines "spec \<equiv> (if neg then ''!'' else []) @ b"
  shows "trim_space spec = spec" "to_lower spec = spec" "spec \<noteq> []" "has_prefix spec ''!'' = neg"
    and "trim_prefix spec ''!'' = b" "str_split (CHR ''|'') b = List.map status_print ts"
proof -
  have bytes: "status_byte c \<or> c = CHR ''|'' \<or> c = CHR ''!''" if "c \<in> set spec" for c
    using that status_spec_bytes [OF assms(2), of c] by (auto simp: spec_def b_def split: if_splits)
  have fine: "\<not> is_space c" "lower_char c = c" if "c \<in> set spec" for c
    using bytes [OF that] status_byte_facts [of c] by (auto simp: is_space_def lower_char_def)
  show "trim_space spec = spec" "to_lower spec = spec"
    using fine by (simp_all add: to_lower_id trim_space_id list_all_iff)
  have ne: "b \<noteq> []"
  proof -
    obtain t us where ts: "ts = t # us" using assms(1) by (cases ts) auto
    with assms(2) have "status_print t \<noteq> []" by (cases t) (auto simp: itoa_nonempty)
    with ts show ?thesis by (cases us) (auto simp: b_def)
  qed
  have no_bang: "\<not> has_prefix b ''!''"
    using status_spec_bytes [OF assms(2)] status_byte_facts(4) by (cases b) (auto simp: prefix_def b_def)
  show "str_split (CHR ''|'') b = List.map status_print ts"
    using assms status_print_bytes status_byte_facts(3) unfolding b_def by (intro str_split_join) auto
  show "spec \<noteq> []" "has_prefix spec ''!'' = neg" "trim_prefix spec ''!'' = b"
    using ne no_bang by (auto simp: spec_def trim_prefix_def)
qed

text \<open>Every status expression of the documented forms means what it says: an optional \<open>!\<close> and one or
  more alternatives \<open>5xx\<close>, \<open>400-499\<close> or \<open>204\<close> joined by \<open>|\<close> compile to the test that some alternative
  holds, negated by the \<open>!\<close>, for any numbers up to the largest Go \<open>int\<close>.\<close>

theorem status_matcher_correct:
  assumes "ts \<noteq> []" "\<forall>t \<in> set ts. status_ok t"
  shows "status_matcher ((if neg then ''!'' else []) @ str_join ''|'' (List.map status_print ts))
    = Some (\<lambda>s. (\<exists>t \<in> set ts. status_hit t s) \<noteq> neg)"
  using assms status_part_prints [OF assms(2)]
  by (simp only: status_matcher_def status_spec_norm [OF assms] Let_def if_False) (simp add: list_ex_iff)

lemma status_matcher_correct_witness:
  "the (status_matcher ''!2xx|304|500-599'') 404 \<and> \<not> the (status_matcher ''!2xx|304|500-599'') 204"
proof -
  have "str_join ''|'' (List.map status_print [StatusClass 2, StatusIs 304, StatusRange 500 599])
      = ''2xx|304|500-599''" by code_simp
  then have "status_matcher ''!2xx|304|500-599''
      = Some (\<lambda>s. (\<exists>t \<in> set [StatusClass 2, StatusIs 304, StatusRange 500 599]. status_hit t s) \<noteq> True)"
    using status_matcher_correct [of "[StatusClass 2, StatusIs 304, StatusRange 500 599]" True]
    by (simp add: int_max_def)
  then show ?thesis by (simp add: go_div_def)
qed

section \<open>The fields of a filter are independent\<close>

text \<open>The filters that keep one field (or the fields that act together) of a filter.\<close>

definition parts :: "flow_filter \<Rightarrow> flow_filter list" where
  "parts f =
     [empty_filter\<lparr>ff_q := ff_q f\<rparr>, empty_filter\<lparr>ff_host := ff_host f\<rparr>,
      empty_filter\<lparr>ff_path := ff_path f\<rparr>, empty_filter\<lparr>ff_method := ff_method f\<rparr>,
      empty_filter\<lparr>ff_status := ff_status f\<rparr>, empty_filter\<lparr>ff_since := ff_since f\<rparr>,
      empty_filter\<lparr>ff_until := ff_until f\<rparr>, empty_filter\<lparr>ff_content_type := ff_content_type f\<rparr>,
      empty_filter\<lparr>ff_min_bytes := ff_min_bytes f\<rparr>, empty_filter\<lparr>ff_has_error := ff_has_error f\<rparr>,
      empty_filter\<lparr>ff_tag := ff_tag f\<rparr>, empty_filter\<lparr>ff_rule := ff_rule f\<rparr>,
      empty_filter\<lparr>ff_state := ff_state f\<rparr>, empty_filter\<lparr>ff_kind := ff_kind f\<rparr>,
      empty_filter\<lparr>ff_session := ff_session f\<rparr>, empty_filter\<lparr>ff_client := ff_client f\<rparr>]"

definition filter_flow :: "codec \<Rightarrow> time_lib \<Rightarrow> gotime \<Rightarrow> body_func option \<Rightarrow> flow_filter \<Rightarrow> flow \<Rightarrow> bool" where
  "filter_flow lib tlb now bodies f fl = match_filter lib (with_bodies bodies (compile_filter tlb f now)) fl"

lemma status_matcher_Nil [simp]: "status_matcher [] = None"
  by (simp add: status_matcher_def trim_space_def trim_left_def trim_right_def)

lemma match_body_cong:
  "mt_bodies m = mt_bodies m' \<Longrightarrow> mt_q m = mt_q m' \<Longrightarrow> match_body lib m fl = match_body lib m' fl"
  by (simp add: match_body_def split: option.split)

text \<open>The conditions of \<open>Match\<close>, one per early return, in order.\<close>

definition conditions :: "codec \<Rightarrow> matcher \<Rightarrow> flow \<Rightarrow> bool list" where
  "conditions lib m fl =
     (let f = mt_f m in
      [mt_since_id m = 0 \<or> mt_since_id m < fl_id fl,
       time_is_zero (mt_since m) \<or> mt_since m \<le> t_start (fl_t fl),
       time_is_zero (mt_until m) \<or> t_start (fl_t fl) \<le> mt_until m,
       ff_host f = [] \<or> glob_match (ff_host f) (fl_host fl),
       ff_path f = [] \<or> match_path (ff_path f) (fl_path fl),
       case mt_methods m of None \<Rightarrow> True | Some ms \<Rightarrow> fl_method fl \<in> set ms,
       case mt_status m of None \<Rightarrow> True | Some P \<Rightarrow> fl_status fl \<noteq> 0 \<and> P (fl_status fl),
       ff_min_bytes f \<le> 0 \<or> ff_min_bytes f \<le> br_size (fl_req_body fl) + br_size (fl_resp_body fl),
       ff_has_error f \<longrightarrow> fl_error fl \<noteq> [] \<or> 400 \<le> fl_status fl,
       ff_tag f = [] \<or> ff_tag f \<in> set (fl_tags fl),
       ff_rule f = [] \<or> has_rule fl (ff_rule f),
       ff_kind f = [] \<or> kind_str (fl_kind fl) = ff_kind f,
       ff_session f = [] \<or> fl_session fl = ff_session f,
       ff_client f = [] \<or> match_client (ff_client f) (fl_client fl),
       ff_state f = [] \<or> ff_state f = ''all'' \<or> match_state fl (ff_state f),
       mt_ct_class m = [] \<or> match_ct (mt_ct_class m) fl,
       mt_q m = [] \<or> match_q (mt_q m) fl \<or> match_body lib m fl])"

lemma early_return: "(if c then False else b) \<longleftrightarrow> \<not> c \<and> b"
  by simp

lemma not_case_option:
  "\<not> (case x of None \<Rightarrow> False | Some v \<Rightarrow> P v) \<longleftrightarrow> (case x of None \<Rightarrow> True | Some v \<Rightarrow> \<not> P v)"
  by (simp split: option.split)

lemma match_filter_iff: "match_filter lib m fl = list_all (\<lambda>b. b) (conditions lib m fl)"
  unfolding match_filter_def conditions_def Let_def early_return not_case_option list.pred_inject
    de_Morgan_conj de_Morgan_disj not_not not_less not_le
  by (simp only: imp_conv_disj de_Morgan_conj not_not not_less not_le List.member_iff list.pred_inject simp_thms disj_assoc)

lemma filter_flow_iff:
  "filter_flow lib tlb now bodies f fl =
     list_all (\<lambda>b. b) (conditions lib (with_bodies bodies (compile_filter tlb f now)) fl)"
  by (simp add: filter_flow_def match_filter_iff)

lemma compile_fields [simp]:
  "mt_f (with_bodies b (compile_filter tlb f now)) = f"
  "mt_q (with_bodies b (compile_filter tlb f now)) = to_lower (ff_q f)"
  "mt_since (with_bodies b (compile_filter tlb f now)) =
     (if ff_since f = [] then 0
      else case parse_time tlb (ff_since f) now of Some t \<Rightarrow> t | None \<Rightarrow> 0)"
  "mt_since_id (with_bodies b (compile_filter tlb f now)) =
     (if ff_since f = [] \<or> parse_time tlb (ff_since f) now \<noteq> None then 0
      else case parse_short (ff_since f) of Some i \<Rightarrow> i | None \<Rightarrow> 0)"
  "mt_until (with_bodies b (compile_filter tlb f now)) =
     (if ff_until f = [] then 0 else case parse_time tlb (ff_until f) now of Some t \<Rightarrow> t | None \<Rightarrow> 0)"
  "mt_status (with_bodies b (compile_filter tlb f now)) = status_matcher (ff_status f)"
  "mt_methods (with_bodies b (compile_filter tlb f now)) =
     (if ff_method f = [] then None
      else Some (List.map (\<lambda>p. to_upper (trim_space p))
                  (concat (List.map (str_split (CHR ''|'')) (ff_method f)))))"
  "mt_ct_class (with_bodies b (compile_filter tlb f now)) = to_lower (ff_content_type f)"
  "mt_bodies (with_bodies b (compile_filter tlb f now)) = b"
  by (simp_all add: with_bodies_def compile_filter_def Let_def)

lemmas part_defs = conditions_def Let_def empty_filter_def

lemma filter_part_simps:
  "filter_flow lib tlb now bodies empty_filter fl"
  "filter_flow lib tlb now bodies (empty_filter\<lparr>ff_host := h\<rparr>) fl \<longleftrightarrow> h = [] \<or> glob_match h (fl_host fl)"
  "filter_flow lib tlb now bodies (empty_filter\<lparr>ff_path := h\<rparr>) fl \<longleftrightarrow> h = [] \<or> match_path h (fl_path fl)"
  "filter_flow lib tlb now bodies (empty_filter\<lparr>ff_tag := h\<rparr>) fl \<longleftrightarrow> h = [] \<or> h \<in> set (fl_tags fl)"
  "filter_flow lib tlb now bodies (empty_filter\<lparr>ff_rule := h\<rparr>) fl \<longleftrightarrow> h = [] \<or> has_rule fl h"
  "filter_flow lib tlb now bodies (empty_filter\<lparr>ff_kind := h\<rparr>) fl \<longleftrightarrow> h = [] \<or> kind_str (fl_kind fl) = h"
  "filter_flow lib tlb now bodies (empty_filter\<lparr>ff_session := h\<rparr>) fl \<longleftrightarrow> h = [] \<or> fl_session fl = h"
  "filter_flow lib tlb now bodies (empty_filter\<lparr>ff_client := h\<rparr>) fl \<longleftrightarrow> h = [] \<or> match_client h (fl_client fl)"
  "filter_flow lib tlb now bodies (empty_filter\<lparr>ff_state := h\<rparr>) fl \<longleftrightarrow> h = [] \<or> h = ''all'' \<or> match_state fl h"
  "filter_flow lib tlb now bodies (empty_filter\<lparr>ff_min_bytes := n\<rparr>) fl \<longleftrightarrow>
     n \<le> 0 \<or> n \<le> br_size (fl_req_body fl) + br_size (fl_resp_body fl)"
  "filter_flow lib tlb now bodies (empty_filter\<lparr>ff_has_error := b\<rparr>) fl \<longleftrightarrow>
     (b \<longrightarrow> fl_error fl \<noteq> [] \<or> 400 \<le> fl_status fl)"
  "filter_flow lib tlb now bodies (empty_filter\<lparr>ff_content_type := h\<rparr>) fl \<longleftrightarrow>
     h = [] \<or> match_ct (to_lower h) fl"
  by (simp_all add: filter_flow_iff part_defs time_is_zero_def)


text \<open>The client selector \<open>remote\<close> is decided by the address alone: it selects a client exactly when
  its host parses as an IP address that is not a loopback one, whatever the port; any other
  selector is compared with the host without its port.\<close>

theorem match_client_address:
  assumes "plain_host h" "plain_host p" "CHR '':'' \<notin> set p"
  shows "match_client want (join_host_port h p) =
    (if want = ''remote'' then (case parse_ip h of None \<Rightarrow> False | Some ip \<Rightarrow> \<not> ip_is_loopback ip)
     else h = want)"
  using split_join [OF assms] by (simp add: match_client_def)

lemma match_client_address_witness:
  "match_client ''remote'' ''192.168.1.7:5000'' \<and> \<not> match_client ''remote'' ''[::1]:5000''"
proof -
  have j: "join_host_port ''192.168.1.7'' ''5000'' = ''192.168.1.7:5000''"
    "join_host_port ''::1'' ''5000'' = ''[::1]:5000''"
    by (simp_all add: join_host_port_def)
  have "\<not> ip_is_loopback (the (parse_ip ''192.168.1.7''))" "parse_ip ''192.168.1.7'' \<noteq> None"
    "ip_is_loopback (the (parse_ip ''::1''))" "parse_ip ''::1'' \<noteq> None"
    by code_simp+
  then show ?thesis
    using match_client_address [of "''192.168.1.7''" "''5000''" "''remote''"]
      match_client_address [of "''::1''" "''5000''" "''remote''"]
    by (auto simp: j plain_host_def)
qed

text \<open>\<open>remote\<close> misses clients the doc comment promises: a link-local IPv6 client arrives with a zone in
  its address, which \<open>net.ParseIP\<close> refuses, so it counts as neither local nor remote.\<close>

theorem match_client_zone:
  "match_client ''remote'' ''[fe80::1%en0]:5000'' = False
   \<and> match_client ''fe80::1%en0'' ''[fe80::1%en0]:5000''"
  by code_simp

end
