(* ===== verification/Store_Mem.thy ===== *)
theory Store_Mem
  imports Flow
begin

text \<open>
  \<open>internal/store/mem.go\<close>: the fixed-size ring of flow snapshots. \<open>mem\<close> is the struct (ring slots,
  index of the next write, count, id index, number ever inserted); \<open>upsert\<close>, \<open>get\<close>, \<open>delete\<close>,
  \<open>each\<close>, \<open>count_if\<close>, \<open>newest\<close> are its methods. The \<open>OnEvict\<close> callback is called after the lock
  is released, so an operation returns the flows it is called with, in order. \<open>mem_list\<close> is the
  abstract content, oldest first, and the lemmas say each method is the obvious list operation.
\<close>

section \<open>The struct and its methods\<close>

record mem =
  m_ring :: "flow option list"
  m_head :: nat
  m_count :: nat
  m_by_id :: "flow_id \<rightharpoonup> nat"
  m_total :: int

definition new_mem :: "int \<Rightarrow> mem" where
  "new_mem sz =
     (let n = (if sz \<le> 0 then 10000 else sz)
      in \<lparr>m_ring = replicate (nat n) None, m_head = 0, m_count = 0, m_by_id = Map.empty, m_total = 0\<rparr>)"

definition upsert :: "flow \<Rightarrow> mem \<Rightarrow> mem \<times> flow list" where
  "upsert f m =
     (case m_by_id m (fl_id f) of
        Some idx \<Rightarrow> (m\<lparr>m_ring := (m_ring m)[idx := Some f]\<rparr>, [])
      | None \<Rightarrow>
          (let full = (m_count m = length (m_ring m));
               evicted = (if full then m_ring m ! m_head m else None);
               ids = (case evicted of None \<Rightarrow> m_by_id m | Some g \<Rightarrow> (m_by_id m)(fl_id g := None));
               cnt = (if full then m_count m else m_count m + 1)
           in (m\<lparr>m_ring := (m_ring m)[m_head m := Some f],
                 m_by_id := ids(fl_id f \<mapsto> m_head m),
                 m_head := (m_head m + 1) mod length (m_ring m),
                 m_count := cnt,
                 m_total := m_total m + 1\<rparr>,
               (case evicted of None \<Rightarrow> [] | Some g \<Rightarrow> [g]))))"

definition get_flow :: "flow_id \<Rightarrow> mem \<Rightarrow> flow option" where
  "get_flow i m = (case m_by_id m i of None \<Rightarrow> None | Some idx \<Rightarrow> m_ring m ! idx)"

definition mem_len :: "mem \<Rightarrow> nat" where
  "mem_len m = m_count m"

definition mem_cap :: "mem \<Rightarrow> nat" where
  "mem_cap m = length (m_ring m)"

text \<open>\<open>((m.head-i)%n + n) % n\<close>\<close>

definition slot_index :: "mem \<Rightarrow> nat \<Rightarrow> nat" where
  "slot_index m i =
     (let n = int (length (m_ring m)) in nat (go_rem (go_rem (int (m_head m) - int i) n + n) n))"

fun place_all :: "flow list \<Rightarrow> mem \<Rightarrow> mem" where
  "place_all [] m = m"
| "place_all (f # fs) m =
     place_all fs (m\<lparr>m_ring := (m_ring m)[m_head m := Some f],
                     m_by_id := (m_by_id m)(fl_id f \<mapsto> m_head m),
                     m_head := (m_head m + 1) mod length (m_ring m),
                     m_count := m_count m + 1\<rparr>)"

definition delete_flows :: "(flow \<Rightarrow> bool) \<Rightarrow> mem \<Rightarrow> mem \<times> flow list" where
  "delete_flows P m =
     (let fs = List.map_filter (\<lambda>i. m_ring m ! slot_index m i) (rev [1..<Suc (m_count m)]);
          gone = filter P fs;
          keep = filter (\<lambda>f. \<not> P f) fs
      in (if gone = [] then m
          else place_all keep
                 (m\<lparr>m_ring := replicate (length (m_ring m)) None, m_by_id := Map.empty,
                    m_head := 0, m_count := 0\<rparr>),
          gone))"

definition clear_mem :: "mem \<Rightarrow> mem \<times> flow list" where
  "clear_mem = delete_flows (\<lambda>_. True)"

text \<open>A visitor takes the flow and its own state and says whether to go on.\<close>

fun each_from :: "(flow \<Rightarrow> 's \<Rightarrow> 's \<times> bool) \<Rightarrow> mem \<Rightarrow> nat list \<Rightarrow> 's \<Rightarrow> 's" where
  "each_from fn m [] s = s"
| "each_from fn m (i # is) s =
     (case m_ring m ! slot_index m i of
        None \<Rightarrow> each_from fn m is s
      | Some f \<Rightarrow> (let (s', go) = fn f s in if go then each_from fn m is s' else s'))"

definition each :: "(flow \<Rightarrow> 's \<Rightarrow> 's \<times> bool) \<Rightarrow> mem \<Rightarrow> 's \<Rightarrow> 's" where
  "each fn m s = each_from fn m [1..<Suc (m_count m)] s"

definition count_if :: "(flow \<Rightarrow> bool) \<Rightarrow> mem \<Rightarrow> nat" where
  "count_if P m = each (\<lambda>f n. (if P f then n + 1 else n, True)) m 0"

definition newest :: "mem \<Rightarrow> flow_id" where
  "newest m = each (\<lambda>f _. (fl_id f, False)) m 0"

section \<open>The content of the ring as a list\<close>

definition pos :: "nat \<Rightarrow> nat \<Rightarrow> nat \<Rightarrow> nat" where
  "pos n h i = (h + n - i) mod n"

definition newest_first :: "mem \<Rightarrow> flow list" where
  "newest_first m =
     List.map (\<lambda>i. the (m_ring m ! pos (length (m_ring m)) (m_head m) i)) [1..<Suc (m_count m)]"

definition mem_list :: "mem \<Rightarrow> flow list" where
  "mem_list m = rev (newest_first m)"

definition mem_wf :: "mem \<Rightarrow> bool" where
  "mem_wf m =
     (let n = length (m_ring m); p = pos n (m_head m) in
      m_head m < n \<and> m_count m \<le> n
      \<and> (\<forall>i \<in> {1..m_count m}. m_ring m ! p i \<noteq> None)
      \<and> (\<forall>d idx. m_by_id m d = Some idx \<longleftrightarrow>
            (\<exists>i \<in> {1..m_count m}. idx = p i \<and> (\<exists>f. m_ring m ! idx = Some f \<and> fl_id f = d)))
      \<and> int (m_count m) \<le> m_total m)"

lemma pos_less: "0 < n \<Longrightarrow> pos n h i < n"
  by (simp add: pos_def)

lemma pos_full [simp]: "h < n \<Longrightarrow> pos n h n = h"
  by (simp add: pos_def)

lemma pos_one: "h < n \<Longrightarrow> pos n (Suc h mod n) (Suc 0) = h"
  by (cases "Suc h = n") (auto simp: pos_def)

lemma pos_Suc: "h < n \<Longrightarrow> i < n \<Longrightarrow> pos n (Suc h mod n) (Suc i) = pos n h i"
proof (cases "Suc h = n")
  case True
  assume h: "h < n" and i: "i < n"
  have "h + n - i = n + (h - i)" using i True by simp
  then have "pos n h i = (n + (h - i)) mod n" by (simp only: pos_def)
  also have "\<dots> = h - i" using h by (simp only: mod_add_self1) simp
  finally show ?thesis using h True by (simp add: pos_def)
qed (auto simp: pos_def)

lemma pos_inj:
  assumes "h < n" "i \<in> {1..n}" "j \<in> {1..n}" "pos n h i = pos n h j"
  shows "i = j"
proof -
  have pos_cases: "pos n h k = (if k \<le> h then h - k else h + n - k)" if "k \<in> {1..n}" for k
  proof (cases "k \<le> h")
    case True
    then have "h + n - k = (h - k) + n" by simp
    then have "pos n h k = (h - k) mod n" by (simp only: pos_def mod_add_self2)
    with True assms(1) show ?thesis by simp
  next
    case False
    with assms(1) that show ?thesis by (auto simp: pos_def)
  qed
  show ?thesis using assms pos_cases [of i] pos_cases [of j] by (auto split: if_splits)
qed

lemma slot_index_pos: "m_head m < length (m_ring m) \<Longrightarrow> i \<le> length (m_ring m) \<Longrightarrow>
   slot_index m i = pos (length (m_ring m)) (m_head m) i"
proof -
  assume h: "m_head m < length (m_ring m)" and i: "i \<le> length (m_ring m)"
  let ?n = "length (m_ring m)"
  have "int (m_head m) - int i + int ?n = int (m_head m + ?n - i)" using i by linarith
  moreover have "(int (m_head m) - int i) mod int ?n = (int (m_head m) - int i + int ?n) mod int ?n"
    by simp
  ultimately have "(int (m_head m) - int i) mod int ?n = int (pos ?n (m_head m) i)"
    by (simp add: pos_def zmod_int)
  moreover have "0 < int ?n" using h by linarith
  ultimately show ?thesis by (simp add: slot_index_def Let_def go_rem_idiom)
qed

text \<open>Reading the invariant.\<close>

lemma mem_wfD:
  assumes "mem_wf m"
  shows "m_head m < length (m_ring m)" and "m_count m \<le> length (m_ring m)"
    and "i \<in> {1..m_count m} \<Longrightarrow> \<exists>f. m_ring m ! pos (length (m_ring m)) (m_head m) i = Some f"
    and "m_by_id m d = Some idx \<longleftrightarrow>
           (\<exists>i \<in> {1..m_count m}. idx = pos (length (m_ring m)) (m_head m) i
              \<and> (\<exists>f. m_ring m ! idx = Some f \<and> fl_id f = d))"
    and "int (m_count m) \<le> m_total m"
  using assms unfolding mem_wf_def Let_def by auto

lemma by_idI:
  assumes "mem_wf m" and "i \<in> {1..m_count m}"
    and "m_ring m ! pos (length (m_ring m)) (m_head m) i = Some f"
  shows "m_by_id m (fl_id f) = Some (pos (length (m_ring m)) (m_head m) i)"
  unfolding mem_wfD(4) [OF assms(1)] by (intro bexI [of _ i] conjI exI [of _ f] refl assms)

lemma by_idE:
  assumes "mem_wf m" and "m_by_id m d = Some idx"
  obtains i f where "i \<in> {1..m_count m}" and "idx = pos (length (m_ring m)) (m_head m) i"
    and "m_ring m ! pos (length (m_ring m)) (m_head m) i = Some f" and "fl_id f = d"
proof -
  from assms(2) obtain i where i: "i \<in> {1..m_count m}" "idx = pos (length (m_ring m)) (m_head m) i"
    and f: "\<exists>f. m_ring m ! idx = Some f \<and> fl_id f = d"
    unfolding mem_wfD(4) [OF assms(1)] by blast
  from f obtain f where "m_ring m ! idx = Some f" "fl_id f = d" by blast
  with i that show thesis by simp
qed

lemma length_newest_first [simp]: "length (newest_first m) = m_count m"
  by (simp add: newest_first_def)

lemma nth_newest_first:
  "i < m_count m \<Longrightarrow>
     newest_first m ! i = the (m_ring m ! pos (length (m_ring m)) (m_head m) (Suc i))"
  by (simp add: newest_first_def del: upt_Suc)

lemma set_newest_first:
  "mem_wf m \<Longrightarrow> f \<in> set (newest_first m) \<longleftrightarrow>
     (\<exists>i \<in> {1..m_count m}. m_ring m ! pos (length (m_ring m)) (m_head m) i = Some f)"
  using mem_wfD(3) [of m] by (force simp: newest_first_def image_iff)

lemma by_id_Some_iff:
  "mem_wf m \<Longrightarrow> m_by_id m d \<noteq> None \<longleftrightarrow> d \<in> fl_id ` set (newest_first m)"
proof -
  assume wf: "mem_wf m"
  have "m_by_id m d \<noteq> None \<longleftrightarrow> (\<exists>idx. m_by_id m d = Some idx)" by auto
  also have "\<dots> \<longleftrightarrow> (\<exists>f \<in> set (newest_first m). fl_id f = d)"
    unfolding mem_wfD(4) [OF wf] Bex_def set_newest_first [OF wf] by blast
  finally show ?thesis by auto
qed

lemma newest_first_distinct: "mem_wf m \<Longrightarrow> distinct (List.map fl_id (newest_first m))"
proof -
  assume wf: "mem_wf m"
  let ?p = "pos (length (m_ring m)) (m_head m)"
  have "i = j" if i: "i < m_count m" and j: "j < m_count m"
    and eq: "fl_id (newest_first m ! i) = fl_id (newest_first m ! j)" for i j
  proof -
    have in_i: "Suc i \<in> {1..m_count m}" and in_j: "Suc j \<in> {1..m_count m}" using i j by auto
    obtain f where f: "m_ring m ! ?p (Suc i) = Some f" using mem_wfD(3) [OF wf in_i] by blast
    obtain g where g: "m_ring m ! ?p (Suc j) = Some g" using mem_wfD(3) [OF wf in_j] by blast
    have "fl_id f = fl_id g" using eq f g i j by (simp add: nth_newest_first)
    with by_idI [OF wf in_i f] by_idI [OF wf in_j g] have "?p (Suc i) = ?p (Suc j)" by simp
    then show "i = j"
      using pos_inj [OF mem_wfD(1) [OF wf], of "Suc i" "Suc j"] in_i in_j mem_wfD(2) [OF wf] by auto
  qed
  then show ?thesis by (auto simp: distinct_conv_nth)
qed

text \<open>
  The invariant says no more than: positions hold flows, and the index is the inverse of the ring
  on the occupied positions. \<open>mem_wfI\<close> rebuilds it from the list of occupied positions.
\<close>

lemma get_flow_eq: "mem_wf m \<Longrightarrow> get_flow d m = find (\<lambda>f. fl_id f = d) (newest_first m)"
proof -
  assume wf: "mem_wf m"
  show ?thesis
  proof (cases "m_by_id m d")
    case None
    then have "d \<notin> fl_id ` set (newest_first m)" using by_id_Some_iff [OF wf] by blast
    then have "find (\<lambda>f. fl_id f = d) (newest_first m) = None" by (rule find_by_key_None)
    with None show ?thesis by (simp add: get_flow_def)
  next
    case (Some idx)
    from by_idE [OF wf Some] obtain i f where i: "i \<in> {1..m_count m}"
      and idx: "idx = pos (length (m_ring m)) (m_head m) i"
      and f: "m_ring m ! pos (length (m_ring m)) (m_head m) i = Some f" "fl_id f = d"
      by metis
    then have "f \<in> set (newest_first m)" using set_newest_first [OF wf] by blast
    then have "find (\<lambda>f. fl_id f = d) (newest_first m) = Some f"
      using find_by_key [OF newest_first_distinct [OF wf], of f] f(2) by simp
    with Some f idx show ?thesis by (simp add: get_flow_def)
  qed
qed

section \<open>The methods on the list\<close>

lemma mem_wf_new: "mem_wf (new_mem sz)"
  by (auto simp: mem_wf_def new_mem_def Let_def)

lemma newest_first_new [simp]: "newest_first (new_mem sz) = []"
  by (simp add: newest_first_def new_mem_def Let_def)

text \<open>Replacing a snapshot: only the slot of its id changes.\<close>

lemma upsert_old:
  assumes wf: "mem_wf m" and idx: "m_by_id m (fl_id f) = Some idx"
  shows "newest_first (fst (upsert f m)) =
           List.map (\<lambda>g. if fl_id g = fl_id f then f else g) (newest_first m)"
    and "mem_wf (fst (upsert f m))"
proof -
  let ?n = "length (m_ring m)"
  let ?p = "pos ?n (m_head m)"
  let ?m = "fst (upsert f m)"
  have m: "?m = m\<lparr>m_ring := (m_ring m)[idx := Some f]\<rparr>" using idx by (simp add: upsert_def)
  obtain i0 f0 where i0: "i0 \<in> {1..m_count m}" "idx = ?p i0"
    and f0: "m_ring m ! ?p i0 = Some f0" "fl_id f0 = fl_id f"
    using by_idE [OF wf idx] by metis
  have n: "0 < ?n" using mem_wfD(1) [OF wf] by linarith
  have at: "m_ring ?m ! ?p i = (if i = i0 then Some f else m_ring m ! ?p i)" if "i \<in> {1..m_count m}" for i
    using pos_inj [OF mem_wfD(1) [OF wf], of i i0] i0 that mem_wfD(2) [OF wf] pos_less [OF n]
    by (auto simp: m nth_list_update)
  have ids: "(\<exists>g. m_ring ?m ! ?p i = Some g \<and> fl_id g = d) \<longleftrightarrow> (\<exists>g. m_ring m ! ?p i = Some g \<and> fl_id g = d)"
    if "i \<in> {1..m_count m}" for i d
    using at [OF that] f0 by auto
  show "newest_first ?m = List.map (\<lambda>g. if fl_id g = fl_id f then f else g) (newest_first m)"
  proof (rule nth_equalityI)
    show "length (newest_first ?m) = length (List.map (\<lambda>g. if fl_id g = fl_id f then f else g) (newest_first m))"
      by (simp add: m)
    fix j assume "j < length (newest_first ?m)"
    then have j: "j < m_count m" by (simp add: m)
    then have in_j: "Suc j \<in> {1..m_count m}" by simp
    obtain g where g: "m_ring m ! ?p (Suc j) = Some g" using mem_wfD(3) [OF wf in_j] by blast
    have "fl_id g = fl_id f \<longleftrightarrow> Suc j = i0"
    proof
      assume "fl_id g = fl_id f"
      with by_idI [OF wf in_j g] idx i0(2) have "?p (Suc j) = ?p i0" by simp
      then show "Suc j = i0"
        using pos_inj [OF mem_wfD(1) [OF wf], of "Suc j" i0] in_j i0 mem_wfD(2) [OF wf] by auto
    qed (use f0 g in auto)
    then show "newest_first ?m ! j = List.map (\<lambda>g. if fl_id g = fl_id f then f else g) (newest_first m) ! j"
      using at [OF in_j] g j by (simp add: nth_newest_first m)
  qed
  have "m_by_id m d = Some k \<longleftrightarrow> (\<exists>i \<in> {1..m_count m}. k = ?p i \<and> (\<exists>g. m_ring ?m ! k = Some g \<and> fl_id g = d))"
    for d k
    unfolding mem_wfD(4) [OF wf] using ids by (intro bex_cong refl conj_cong) simp_all
  then show "mem_wf ?m"
    using mem_wfD [OF wf] at unfolding mem_wf_def Let_def by (auto simp: m)
qed

text \<open>
  A new snapshot goes in front; when the ring is full the oldest one makes room. \<open>grown m\<close> is the
  count afterwards.
\<close>

abbreviation ring_full :: "mem \<Rightarrow> bool" where
  "ring_full m \<equiv> m_count m = length (m_ring m)"

abbreviation grown :: "mem \<Rightarrow> nat" where
  "grown m \<equiv> if ring_full m then m_count m else Suc (m_count m)"

lemma upsert_new_fields:
  assumes "m_by_id m (fl_id f) = None"
  shows "m_ring (fst (upsert f m)) = (m_ring m)[m_head m := Some f]"
    and "m_head (fst (upsert f m)) = Suc (m_head m) mod length (m_ring m)"
    and "m_count (fst (upsert f m)) = grown m"
    and "m_total (fst (upsert f m)) = m_total m + 1"
  using assms by (simp_all add: upsert_def Let_def)

lemma full_slot:
  assumes wf: "mem_wf m" and full: "ring_full m"
  shows "\<exists>g. m_ring m ! m_head m = Some g" and "length (m_ring m) \<in> {1..m_count m}"
proof -
  show n: "length (m_ring m) \<in> {1..m_count m}" using mem_wfD(1) [OF wf] full by auto
  show "\<exists>g. m_ring m ! m_head m = Some g"
    using mem_wfD(3) [OF wf n] mem_wfD(1) [OF wf] by simp
qed

lemma upsert_new_by_id:
  assumes wf: "mem_wf m" and none: "m_by_id m (fl_id f) = None"
  shows "m_by_id (fst (upsert f m)) =
    (if ring_full m then (m_by_id m)(fl_id (the (m_ring m ! m_head m)) := None) else m_by_id m)
      (fl_id f \<mapsto> m_head m)"
  using none full_slot(1) [OF wf] by (auto simp: upsert_def Let_def)

lemma upsert_new_slots:
  assumes wf: "mem_wf m" and none: "m_by_id m (fl_id f) = None"
  defines "p' \<equiv> pos (length (m_ring m)) (m_head (fst (upsert f m)))"
  shows "p' (Suc 0) = m_head m" and "m_ring (fst (upsert f m)) ! p' (Suc 0) = Some f"
    and "i \<in> {1..<grown m} \<Longrightarrow> p' (Suc i) = pos (length (m_ring m)) (m_head m) i"
    and "i \<in> {1..<grown m} \<Longrightarrow>
      m_ring (fst (upsert f m)) ! p' (Suc i) = m_ring m ! pos (length (m_ring m)) (m_head m) i"
proof -
  let ?n = "length (m_ring m)" and ?h = "m_head m"
  have h: "?h < ?n" and c: "m_count m \<le> ?n" using mem_wfD(1,2) [OF wf] by auto
  note fs = upsert_new_fields [OF none]
  show p1: "p' (Suc 0) = ?h" using pos_one [OF h] by (simp add: p'_def fs)
  show "m_ring (fst (upsert f m)) ! p' (Suc 0) = Some f" using h by (simp only: p1 fs) simp
  assume "i \<in> {1..<grown m}"
  then have i: "i \<in> {1..<?n}" using c by (auto split: if_splits)
  show pS: "p' (Suc i) = pos ?n ?h i" using pos_Suc [OF h, of i] i by (simp add: p'_def fs)
  have "pos ?n ?h i \<noteq> pos ?n ?h ?n" using pos_inj [OF h, of i ?n] i by auto
  then show "m_ring (fst (upsert f m)) ! p' (Suc i) = m_ring m ! pos ?n ?h i"
    using h unfolding pS fs(1) by simp
qed

lemma grown_old: "mem_wf m \<Longrightarrow> i \<in> {1..<grown m} \<Longrightarrow> i \<in> {1..m_count m}"
  by (auto split: if_splits)

lemma upsert_new_list:
  assumes wf: "mem_wf m" and none: "m_by_id m (fl_id f) = None"
  shows "newest_first (fst (upsert f m)) =
           f # (if ring_full m then butlast (newest_first m) else newest_first m)" (is "_ = f # ?old")
proof (rule nth_equalityI)
  note fs = upsert_new_fields [OF none] and slots = upsert_new_slots [OF wf none]
  have pos: "0 < grown m" using mem_wfD(1,2) [OF wf] by auto
  then show "length (newest_first (fst (upsert f m))) = length (f # ?old)" by (auto simp: fs)
  fix j assume "j < length (newest_first (fst (upsert f m)))"
  then have j: "j < grown m" by (simp add: fs)
  show "newest_first (fst (upsert f m)) ! j = (f # ?old) ! j"
  proof (cases j)
    case 0
    then show ?thesis using slots(1,2) pos by (simp add: nth_newest_first fs)
  next
    case (Suc i)
    with j have i: "Suc i \<in> {1..<grown m}" by auto
    have "?old ! i = newest_first m ! i"
      using j Suc by (auto simp: nth_butlast split: if_splits)
    moreover have "i < m_count m" using grown_old [OF wf i] by simp
    ultimately show ?thesis
      using slots(4) [OF i] Suc j by (simp add: nth_newest_first fs)
  qed
qed

lemma upsert_new_evicted:
  assumes wf: "mem_wf m" and none: "m_by_id m (fl_id f) = None"
  shows "snd (upsert f m) = (if ring_full m then [last (newest_first m)] else [])"
proof (cases "ring_full m")
  case True
  obtain g where g: "m_ring m ! m_head m = Some g" using full_slot(1) [OF wf True] by blast
  have "0 < m_count m" using mem_wfD(1) [OF wf] True by linarith
  then obtain k where k: "m_count m = Suc k" by (auto simp: gr0_conv_Suc)
  then have "newest_first m \<noteq> []" by (metis length_newest_first list.size(3) nat.distinct(1))
  then have "last (newest_first m) = newest_first m ! k" by (simp add: last_conv_nth k)
  also have "\<dots> = the (m_ring m ! pos (length (m_ring m)) (m_head m) (length (m_ring m)))"
    using k nth_newest_first [of k m] by (simp flip: True)
  also have "\<dots> = g" using g mem_wfD(1) [OF wf] by simp
  finally have "last (newest_first m) = g" .
  with g True none show ?thesis by (simp add: upsert_def Let_def)
qed (use none in \<open>simp add: upsert_def Let_def\<close>)

lemma upsert_new_index:
  assumes wf: "mem_wf m" and none: "m_by_id m (fl_id f) = None"
  shows "m_by_id (fst (upsert f m)) d = Some k \<longleftrightarrow>
      (\<exists>i \<in> {1..grown m}. k = pos (length (m_ring m)) (m_head (fst (upsert f m))) i
          \<and> (\<exists>g. m_ring (fst (upsert f m)) ! k = Some g \<and> fl_id g = d))"
    (is "m_by_id ?m' d = _ \<longleftrightarrow> (\<exists>i \<in> _. k = ?p' i \<and> _)")
proof
  let ?n = "length (m_ring m)"
  let ?p = "pos ?n (m_head m)"
  note slots = upsert_new_slots [OF wf none]
    and ids = upsert_new_by_id [OF wf none]
  have h: "m_head m < ?n" by (rule mem_wfD(1) [OF wf])
  have pos: "0 < grown m" using mem_wfD(1,2) [OF wf] by auto
  {
    assume dk: "m_by_id ?m' d = Some k"
    show "\<exists>i \<in> {1..grown m}. k = ?p' i \<and> (\<exists>g. m_ring ?m' ! k = Some g \<and> fl_id g = d)"
    proof (cases "d = fl_id f")
      case True
      with dk ids have "k = m_head m" by simp
      with slots(1,2) True pos show ?thesis by (intro bexI [of _ "Suc 0"]) auto
    next
      case False
      with dk ids have b: "m_by_id m d = Some k" by (auto split: if_splits)
      from by_idE [OF wf b] obtain i g where i: "i \<in> {1..m_count m}" "k = ?p i"
        and g: "m_ring m ! ?p i = Some g" "fl_id g = d" by metis
      have "i \<noteq> ?n" if "ring_full m"
        using that dk ids False g i(2) h by (auto split: if_splits)
      then have "i \<in> {1..<grown m}" using i(1) by auto
      from slots(3,4) [OF this] i(2) g this show ?thesis by (intro bexI [of _ "Suc i"]) auto
    qed
  next
    assume "\<exists>i \<in> {1..grown m}. k = ?p' i \<and> (\<exists>g. m_ring ?m' ! k = Some g \<and> fl_id g = d)"
    then obtain i g where i: "i \<in> {1..grown m}" "k = ?p' i" and g: "m_ring ?m' ! k = Some g" "fl_id g = d"
      by blast
    show "m_by_id ?m' d = Some k"
    proof (cases "i = Suc 0")
      case True
      with i g slots(1,2) ids show ?thesis by auto
    next
      case False
      with i obtain j where j: "i = Suc j" "j \<in> {1..<grown m}" by (cases i) auto
      note j' = grown_old [OF wf j(2)]
      have k: "k = ?p j" and gj: "m_ring m ! ?p j = Some g"
        using i j g slots(3,4) [OF j(2)] by auto
      from by_idI [OF wf j' gj] k g have b: "m_by_id m d = Some k" by simp
      have "d \<noteq> fl_id (the (m_ring m ! m_head m))" if full: "ring_full m"
      proof
        assume eq: "d = fl_id (the (m_ring m ! m_head m))"
        obtain g' where g': "m_ring m ! ?p ?n = Some g'" using full_slot(1) [OF wf full] h by auto
        from by_idI [OF wf full_slot(2) [OF wf full] g'] g' eq b k h have "?p ?n = ?p j" by simp
        with pos_inj [OF h, of ?n j] j(2) full show False by auto
      qed
      with ids b none show ?thesis by auto
    qed
  }
qed

lemma upsert_new_wf:
  assumes wf: "mem_wf m" and none: "m_by_id m (fl_id f) = None"
  shows "mem_wf (fst (upsert f m))"
proof -
  note fs = upsert_new_fields [OF none] and slots = upsert_new_slots [OF wf none]
  have "m_ring (fst (upsert f m)) ! pos (length (m_ring m)) (m_head (fst (upsert f m))) i \<noteq> None"
    if i: "i \<in> {1..grown m}" for i
  proof (cases "i = Suc 0")
    case False
    with i obtain j where j: "i = Suc j" "j \<in> {1..<grown m}" by (cases i) auto
    from mem_wfD(3) [OF wf grown_old [OF wf j(2)]] slots(4) [OF j(2)] j(1) show ?thesis by auto
  qed (use slots(2) in auto)
  moreover have "grown m \<le> length (m_ring m)" using mem_wfD(2) [OF wf] by auto
  moreover have "int (grown m) \<le> m_total m + 1" using mem_wfD(5) [OF wf] by auto
  moreover have "m_head (fst (upsert f m)) < length (m_ring m)" using mem_wfD(1) [OF wf] unfolding fs by (intro mod_less_divisor) linarith
  moreover have "length (m_ring (fst (upsert f m))) = length (m_ring m)" by (simp add: fs)
  ultimately show ?thesis
    unfolding mem_wf_def Let_def using upsert_new_index [OF wf none] fs(3,4) by simp
qed

text \<open>\<open>Upsert\<close> as a whole, on the content of the ring.\<close>

definition spec_upsert :: "nat \<Rightarrow> flow \<Rightarrow> flow list \<Rightarrow> flow list" where
  "spec_upsert cap f xs =
     (if fl_id f \<in> fl_id ` set xs then List.map (\<lambda>g. if fl_id g = fl_id f then f else g) xs
      else (if length xs = cap then tl xs else xs) @ [f])"

lemma upsert_wf [inv_intros]: "mem_wf m \<Longrightarrow> mem_wf (fst (upsert f m))"
  by (cases "m_by_id m (fl_id f)") (auto intro: upsert_new_wf upsert_old)

lemma mem_cap_upsert [simp]: "mem_cap (fst (upsert f m)) = mem_cap m"
  by (auto simp: mem_cap_def upsert_def Let_def split: option.splits)

lemma length_mem_list [simp]: "length (mem_list m) = m_count m"
  by (simp add: mem_list_def)

lemma set_mem_list [simp]: "set (mem_list m) = set (newest_first m)"
  by (simp add: mem_list_def)

lemma mem_list_upsert:
  assumes wf: "mem_wf m"
  shows "mem_list (fst (upsert f m)) = spec_upsert (mem_cap m) f (mem_list m)"
proof (cases "m_by_id m (fl_id f)")
  case None
  then have "fl_id f \<notin> fl_id ` set (mem_list m)" using by_id_Some_iff [OF wf, of "fl_id f"] by simp
  moreover have "rev (butlast xs) = tl (rev xs)" for xs :: "flow list"
    by (metis butlast_rev rev_rev_ident)
  ultimately show ?thesis
    by (simp add: spec_upsert_def mem_list_def upsert_new_list [OF wf None] mem_cap_def)
next
  case (Some idx)
  then have "fl_id f \<in> fl_id ` set (mem_list m)" using by_id_Some_iff [OF wf, of "fl_id f"] by simp
  then show ?thesis
    by (simp add: spec_upsert_def mem_list_def upsert_old(1) [OF wf Some] rev_map)
qed

text \<open>\<open>OnEvict\<close> is called with exactly the flow that is no longer held.\<close>

lemma upsert_evicts:
  assumes wf: "mem_wf m"
  shows "snd (upsert f m) =
     (if fl_id f \<notin> fl_id ` set (mem_list m) \<and> length (mem_list m) = mem_cap m then [hd (mem_list m)] else [])"
proof (cases "m_by_id m (fl_id f)")
  case None
  have "hd (mem_list m) = last (newest_first m)" by (simp add: mem_list_def hd_rev)
  then show ?thesis
    using upsert_new_evicted [OF wf None] by_id_Some_iff [OF wf, of "fl_id f"] None
    by (simp add: mem_cap_def)
next
  case (Some idx)
  then show ?thesis using by_id_Some_iff [OF wf, of "fl_id f"] by (simp add: upsert_def)
qed

section \<open>Visiting, counting, deleting\<close>

text \<open>What a visitor does to a list of flows.\<close>

fun visit :: "(flow \<Rightarrow> 's \<Rightarrow> 's \<times> bool) \<Rightarrow> flow list \<Rightarrow> 's \<Rightarrow> 's" where
  "visit fn [] s = s"
| "visit fn (f # fs) s = (let (s', go) = fn f s in if go then visit fn fs s' else s')"

lemma visit_all: "(\<And>f s. snd (fn f s)) \<Longrightarrow> visit fn fs s = fold (\<lambda>f s. fst (fn f s)) fs s"
  by (induction fs arbitrary: s) (auto simp: split_beta Let_def)

lemma each_from_visit:
  assumes wf: "mem_wf m" and "set is \<subseteq> {1..m_count m}"
  shows "each_from fn m is s =
    visit fn (List.map (\<lambda>i. the (m_ring m ! pos (length (m_ring m)) (m_head m) i)) is) s"
  using assms(2)
proof (induction "is" arbitrary: s)
  case Nil
  then show ?case by simp
next
  case (Cons i "is")
  then have i: "i \<in> {1..m_count m}" by simp
  then have "slot_index m i = pos (length (m_ring m)) (m_head m) i"
    using slot_index_pos [OF mem_wfD(1) [OF wf]] mem_wfD(2) [OF wf] by simp
  with mem_wfD(3) [OF wf i] Cons show ?case by (auto simp: Let_def split: prod.splits)
qed

lemma positions_subset: "set [1..<Suc n] \<subseteq> {1..n}"
  by auto

lemma each_visit: "mem_wf m \<Longrightarrow> each fn m s = visit fn (newest_first m) s"
  unfolding each_def newest_first_def by (rule each_from_visit [OF _ positions_subset])

lemma count_if_eq: "mem_wf m \<Longrightarrow> count_if P m = length (filter P (mem_list m))"
proof -
  assume wf: "mem_wf m"
  have "fold (\<lambda>f n. if P f then n + 1 else n) xs n = n + length (filter P xs)" for xs and n :: nat
    by (induction xs arbitrary: n) auto
  then show ?thesis
    by (simp add: count_if_def each_visit [OF wf] visit_all mem_list_def rev_filter [symmetric])
qed

lemma newest_eq: "mem_wf m \<Longrightarrow> newest m = (if mem_list m = [] then 0 else fl_id (last (mem_list m)))"
  by (cases "newest_first m") (simp_all add: newest_def each_visit mem_list_def)

lemma map_filter_slots:
  assumes wf: "mem_wf m"
  shows "List.map_filter (\<lambda>i. m_ring m ! slot_index m i) (rev [1..<Suc (m_count m)]) = mem_list m"
proof -
  have "List.map_filter (\<lambda>i. m_ring m ! slot_index m i) is =
        List.map (\<lambda>i. the (m_ring m ! pos (length (m_ring m)) (m_head m) i)) is"
    if "set is \<subseteq> {1..m_count m}" for "is"
    using that
  proof (induction "is")
    case Nil
    then show ?case by (simp add: map_filter_simps)
  next
    case (Cons i "is")
    then have i: "i \<in> {1..m_count m}" by simp
    then have "slot_index m i = pos (length (m_ring m)) (m_head m) i"
      using slot_index_pos [OF mem_wfD(1) [OF wf]] mem_wfD(2) [OF wf] by simp
    with mem_wfD(3) [OF wf i] Cons show ?case by (auto simp: map_filter_simps)
  qed
  from this [of "rev [1..<Suc (m_count m)]"] positions_subset show ?thesis
    unfolding mem_list_def newest_first_def rev_map set_rev by blast
qed

lemma mem_wf_total: "mem_wf m \<Longrightarrow> int (m_count m) \<le> t \<Longrightarrow> mem_wf (m\<lparr>m_total := t\<rparr>)"
  by (simp add: mem_wf_def Let_def)

lemma mem_list_total [simp]: "mem_list (m\<lparr>m_total := t\<rparr>) = mem_list m"
  by (simp add: mem_list_def newest_first_def)

lemma place_all_upsert:
  assumes "m_by_id m (fl_id f) = None" and "m_count m < length (m_ring m)"
  shows "place_all (f # fs) m = place_all fs ((fst (upsert f m))\<lparr>m_total := m_total m\<rparr>)"
proof -
  have "m\<lparr>m_ring := (m_ring m)[m_head m := Some f], m_by_id := (m_by_id m)(fl_id f \<mapsto> m_head m),
          m_head := (m_head m + 1) mod length (m_ring m), m_count := m_count m + 1\<rparr>
        = (fst (upsert f m))\<lparr>m_total := m_total m\<rparr>"
    using assms by (simp add: upsert_def Let_def)
  then show ?thesis by (simp only: place_all.simps)
qed

lemma place_all_list:
  assumes "mem_wf m" and "distinct (List.map fl_id (mem_list m @ fs))"
    and "m_count m + length fs \<le> mem_cap m" and "int (m_count m + length fs) \<le> m_total m"
  shows "mem_list (place_all fs m) = mem_list m @ fs \<and> mem_wf (place_all fs m)
           \<and> mem_cap (place_all fs m) = mem_cap m \<and> m_total (place_all fs m) = m_total m"
  using assms
proof (induction fs arbitrary: m)
  case Nil
  then show ?case by simp
next
  case (Cons f fs)
  let ?m = "(fst (upsert f m))\<lparr>m_total := m_total m\<rparr>"
  have none: "m_by_id m (fl_id f) = None"
    using by_id_Some_iff [OF Cons.prems(1), of "fl_id f"] Cons.prems(2) by auto
  have room: "m_count m < length (m_ring m)" using Cons.prems(3) by (simp add: mem_cap_def)
  have cnt: "m_count ?m = Suc (m_count m)" using upsert_new_fields [OF none] room by simp
  have "mem_list ?m = mem_list m @ [f]"
    using mem_list_upsert [OF Cons.prems(1), of f] none room
      by_id_Some_iff [OF Cons.prems(1), of "fl_id f"]
    by (simp add: spec_upsert_def mem_cap_def)
  moreover have "mem_wf ?m"
    using upsert_new_wf [OF Cons.prems(1) none] Cons.prems(4) cnt by (intro mem_wf_total) simp_all
  moreover have "mem_cap ?m = mem_cap m"
    using mem_cap_upsert [of f m] by (simp add: mem_cap_def)
  ultimately show ?case
    using Cons.IH [of ?m] Cons.prems(2-4) cnt place_all_upsert [OF none room] by simp
qed

text \<open>\<open>Delete\<close> keeps the order and identity of what stays and reports what went.\<close>

definition emptied :: "mem \<Rightarrow> mem" where
  "emptied m = m\<lparr>m_ring := replicate (length (m_ring m)) None, m_by_id := Map.empty,
                 m_head := 0, m_count := 0\<rparr>"

lemma emptied_facts:
  assumes "mem_wf m"
  shows "mem_wf (emptied m)" and "mem_list (emptied m) = []" and "mem_cap (emptied m) = mem_cap m"
    and "m_total (emptied m) = m_total m" and "m_count (emptied m) = 0"
  using mem_wfD(1,5) [OF assms]
  by (auto simp: mem_wf_def emptied_def Let_def mem_list_def newest_first_def mem_cap_def)

lemma mem_list_distinct: "mem_wf m \<Longrightarrow> distinct (List.map fl_id (mem_list m))"
  using newest_first_distinct [of m] by (simp add: mem_list_def flip: rev_map)

lemma delete_flows_eq:
  assumes wf: "mem_wf m"
  shows "mem_list (fst (delete_flows P m)) = filter (\<lambda>f. \<not> P f) (mem_list m)"
    and "snd (delete_flows P m) = filter P (mem_list m)"
    and "mem_wf (fst (delete_flows P m))"
    and "mem_cap (fst (delete_flows P m)) = mem_cap m"
    and "m_total (fst (delete_flows P m)) = m_total m"
proof -
  let ?keep = "filter (\<lambda>f. \<not> P f) (mem_list m)" and ?gone = "filter P (mem_list m)"
  have eq: "delete_flows P m = (if ?gone = [] then m else place_all ?keep (emptied m), ?gone)"
    unfolding delete_flows_def Let_def map_filter_slots [OF wf] emptied_def ..
  have len: "length ?keep \<le> m_count m" using length_filter_le [of _ "mem_list m"] by simp
  note e = emptied_facts [OF wf]
  have "mem_list (place_all ?keep (emptied m)) = ?keep \<and> mem_wf (place_all ?keep (emptied m))
      \<and> mem_cap (place_all ?keep (emptied m)) = mem_cap m
      \<and> m_total (place_all ?keep (emptied m)) = m_total m"
    using place_all_list [OF e(1), of ?keep] len mem_wfD(2,5) [OF wf] mem_list_distinct [OF wf]
      mem_cap_def [of m]
    by (simp add: e distinct_map_filter)
  moreover have "?gone = [] \<Longrightarrow> ?keep = mem_list m" by (simp add: filter_empty_conv)
  ultimately show "mem_list (fst (delete_flows P m)) = ?keep"
    and "mem_wf (fst (delete_flows P m))" and "mem_cap (fst (delete_flows P m)) = mem_cap m"
    and "m_total (fst (delete_flows P m)) = m_total m"
    using wf by (simp_all add: eq)
  show "snd (delete_flows P m) = ?gone" by (simp add: eq)
qed

lemmas delete_flows_wf [inv_intros] = delete_flows_eq(3)

section \<open>The interface the rest of the daemon uses\<close>

text \<open>
  What clients rely on: \<open>entries\<close> is the content, newest first; visiting the store visits it in that
  order; ids are unique. A \<open>flow_store\<close> can also be written to: its operations are the list
  operations of the specification and report what they evict.
\<close>

locale flow_source =
  fixes inv :: "'s \<Rightarrow> bool"
    and entries :: "'s \<Rightarrow> flow list"
    and each_in :: "(flow \<Rightarrow> 'a \<Rightarrow> 'a \<times> bool) \<Rightarrow> 's \<Rightarrow> 'a \<Rightarrow> 'a"
  assumes each_entries: "inv s \<Longrightarrow> each_in fn s a = visit fn (entries s) a"
    and entries_distinct: "inv s \<Longrightarrow> distinct (List.map fl_id (entries s))"

locale flow_store = flow_source inv entries each_in
  for inv :: "'s \<Rightarrow> bool" and entries :: "'s \<Rightarrow> flow list"
    and each_in :: "(flow \<Rightarrow> 'a \<Rightarrow> 'a \<times> bool) \<Rightarrow> 's \<Rightarrow> 'a \<Rightarrow> 'a" +
  fixes capacity :: "'s \<Rightarrow> nat"
    and put :: "flow \<Rightarrow> 's \<Rightarrow> 's \<times> flow list"
    and remove_if :: "(flow \<Rightarrow> bool) \<Rightarrow> 's \<Rightarrow> 's \<times> flow list"
  assumes put_inv: "inv s \<Longrightarrow> inv (fst (put f s))"
    and put_entries: "inv s \<Longrightarrow> rev (entries (fst (put f s))) = spec_upsert (capacity s) f (rev (entries s))"
    and put_evicted: "inv s \<Longrightarrow> snd (put f s) =
          (if fl_id f \<notin> fl_id ` set (entries s) \<and> length (entries s) = capacity s
           then [last (entries s)] else [])"
    and put_capacity: "inv s \<Longrightarrow> capacity (fst (put f s)) = capacity s"
    and remove_inv: "inv s \<Longrightarrow> inv (fst (remove_if P s))"
    and remove_entries: "inv s \<Longrightarrow> entries (fst (remove_if P s)) = filter (\<lambda>f. \<not> P f) (entries s)"
    and remove_evicted: "inv s \<Longrightarrow> snd (remove_if P s) = rev (filter P (entries s))"
    and remove_capacity: "inv s \<Longrightarrow> capacity (fst (remove_if P s)) = capacity s"
    and within_capacity: "inv s \<Longrightarrow> length (entries s) \<le> capacity s"

interpretation ring: flow_store mem_wf newest_first each mem_cap upsert delete_flows
proof
  fix m :: mem and f :: flow and P :: "flow \<Rightarrow> bool"
  assume wf: "mem_wf m"
  show "each fn m a = visit fn (newest_first m) a" for fn and a :: 'a by (rule each_visit [OF wf])
  show "distinct (List.map fl_id (newest_first m))" by (rule newest_first_distinct [OF wf])
  show "mem_wf (fst (upsert f m))" by (rule upsert_wf [OF wf])
  show "rev (newest_first (fst (upsert f m))) = spec_upsert (mem_cap m) f (rev (newest_first m))"
    using mem_list_upsert [OF wf] by (simp add: mem_list_def)
  show "snd (upsert f m) =
      (if fl_id f \<notin> fl_id ` set (newest_first m) \<and> length (newest_first m) = mem_cap m
       then [last (newest_first m)] else [])"
    using upsert_evicts [OF wf] by (simp add: mem_list_def hd_rev)
  show "mem_cap (fst (upsert f m)) = mem_cap m" by simp
  show "mem_wf (fst (delete_flows P m))" by (rule delete_flows_wf [OF wf])
  show "newest_first (fst (delete_flows P m)) = filter (\<lambda>f. \<not> P f) (newest_first m)"
    using delete_flows_eq(1) [OF wf, of P] by (simp add: mem_list_def flip: rev_filter)
  show "snd (delete_flows P m) = rev (filter P (newest_first m))"
    using delete_flows_eq(2) [OF wf, of P] by (simp add: mem_list_def rev_filter)
  show "mem_cap (fst (delete_flows P m)) = mem_cap m" by (rule delete_flows_eq(4) [OF wf])
  show "length (newest_first m) \<le> mem_cap m" using mem_wfD(2) [OF wf] by (simp add: mem_cap_def)
qed

text \<open>Runs of operations, on any store and on the list specification.\<close>

datatype store_op = OpUpsert flow | OpDelete "flow \<Rightarrow> bool"

fun run_ops :: "(flow \<Rightarrow> 's \<Rightarrow> 's \<times> flow list) \<Rightarrow> ((flow \<Rightarrow> bool) \<Rightarrow> 's \<Rightarrow> 's \<times> flow list) \<Rightarrow>
    store_op list \<Rightarrow> 's \<Rightarrow> 's \<times> flow list" where
  "run_ops up del [] s = (s, [])"
| "run_ops up del (c # cs) s =
     (let (s1, ev1) = (case c of OpUpsert f \<Rightarrow> up f s | OpDelete P \<Rightarrow> del P s);
          (s2, ev2) = run_ops up del cs s1
      in (s2, ev1 @ ev2))"

definition run_mem :: "store_op list \<Rightarrow> mem \<Rightarrow> mem \<times> flow list" where
  "run_mem = run_ops upsert delete_flows"

definition spec_put :: "nat \<Rightarrow> flow \<Rightarrow> flow list \<Rightarrow> flow list \<times> flow list" where
  "spec_put cap f xs =
     (spec_upsert cap f xs,
      if fl_id f \<notin> fl_id ` set xs \<and> length xs = cap then [hd xs] else [])"

definition spec_remove :: "(flow \<Rightarrow> bool) \<Rightarrow> flow list \<Rightarrow> flow list \<times> flow list" where
  "spec_remove P xs = (filter (\<lambda>f. \<not> P f) xs, filter P xs)"

definition spec_run :: "nat \<Rightarrow> store_op list \<Rightarrow> flow list \<Rightarrow> flow list \<times> flow list" where
  "spec_run cap = run_ops (spec_put cap) spec_remove"

context flow_store
begin

lemma run_refines:
  assumes "inv s"
  shows "inv (fst (run_ops put remove_if cs s))
    \<and> rev (entries (fst (run_ops put remove_if cs s))) = fst (spec_run (capacity s) cs (rev (entries s)))
    \<and> snd (run_ops put remove_if cs s) = snd (spec_run (capacity s) cs (rev (entries s)))
    \<and> capacity (fst (run_ops put remove_if cs s)) = capacity s"
  using assms
proof (induction cs arbitrary: s)
  case Nil
  then show ?case by (simp add: spec_run_def)
next
  case (Cons c cs)
  define s1 where "s1 = fst (case c of OpUpsert f \<Rightarrow> put f s | OpDelete P \<Rightarrow> remove_if P s)"
  have s1: "inv s1" "capacity s1 = capacity s"
    using Cons.prems
    by (auto simp: s1_def put_inv remove_inv put_capacity remove_capacity split: store_op.splits)
  have "(rev (entries s1), snd (case c of OpUpsert f \<Rightarrow> put f s | OpDelete P \<Rightarrow> remove_if P s))
      = (case c of OpUpsert f \<Rightarrow> spec_put (capacity s) f (rev (entries s))
         | OpDelete P \<Rightarrow> spec_remove P (rev (entries s)))"
    using Cons.prems
    by (auto simp: s1_def put_entries put_evicted remove_entries remove_evicted spec_put_def
        spec_remove_def rev_filter hd_rev split: store_op.splits)
  then show ?case
    using Cons.IH [OF s1(1)] s1(2)
    by (auto simp: spec_run_def split_beta Let_def s1_def prod_eq_iff)
qed

end

section \<open>Properties\<close>

text \<open>C7: After any sequence of upserts and deletes on a new ring, the ring holds exactly the flows the
  bounded-list specification holds, in the same order, and \<open>OnEvict\<close> has been called with exactly the
  flows the specification dropped, in the same order: replacing a snapshot keeps its place, a new
  one evicts the oldest exactly when the ring is full, deleting keeps the order of the rest.\<close>

theorem ring_refines_bounded_list:
  "(mem_list (fst (run_mem cs (new_mem sz))), snd (run_mem cs (new_mem sz)))
     = spec_run (mem_cap (new_mem sz)) cs []"
  using ring.run_refines [OF mem_wf_new, of cs sz]
  by (simp add: run_mem_def mem_list_def prod_eq_iff)

text \<open>In every state the ring can reach, it holds at most its capacity, at least one flow fits,
  ids are unique, \<open>Get\<close> finds a flow by id exactly when a flow with that id is held and returns that
  flow, \<open>Len\<close> is the number of flows \<open>Each\<close> visits, and \<open>Newest\<close> is the id of the most recent insertion.\<close>

theorem ring_lookup_correct:
  fixes cs :: "store_op list" and sz :: int
  defines "m \<equiv> fst (run_mem cs (new_mem sz))"
  shows "length (mem_list m) \<le> mem_cap m \<and> 0 < mem_cap m \<and> distinct (List.map fl_id (mem_list m))
    \<and> get_flow d m = find (\<lambda>f. fl_id f = d) (mem_list m)
    \<and> mem_len m = length (mem_list m)
    \<and> count_if P m = length (filter P (mem_list m))
    \<and> newest m = (if mem_list m = [] then 0 else fl_id (last (mem_list m)))"
proof -
  have wf: "mem_wf m" using ring.run_refines [OF mem_wf_new, of cs sz] by (simp add: m_def run_mem_def)
  note dist = mem_list_distinct [OF wf]
  have "find (\<lambda>f. fl_id f = d) (newest_first m) = find (\<lambda>f. fl_id f = d) (mem_list m)"
  proof (cases "d \<in> fl_id ` set (mem_list m)")
    case True
    then obtain f where "f \<in> set (mem_list m)" "fl_id f = d" by auto
    with find_by_key [OF dist, of f] find_by_key [OF newest_first_distinct [OF wf], of f]
    show ?thesis by simp
  next
    case False
    then have "d \<notin> fl_id ` set (newest_first m)" by simp
    with False show ?thesis by (metis find_by_key_None)
  qed
  moreover have "0 < length (m_ring m)" using mem_wfD(1) [OF wf] by linarith
  ultimately show ?thesis
    using dist ring.within_capacity [OF wf] get_flow_eq [OF wf] count_if_eq [OF wf] newest_eq [OF wf]
    by (simp add: mem_len_def mem_cap_def)
qed

end
