(* ===== verification/Store_Row.thy ===== *)
theory Store_Row
  imports Store_Filter Store_Mem
begin

text \<open>
  \<open>internal/store/row.go\<close>: one-line rows, their flags and number formats, the recognised LLM hosts,
  and the paginated listing. Go's \<open>float64\<close> arithmetic in the formats is the exact rounding of IEEE
  754: \<open>fl_quot n d\<close> is the double nearest to a quotient (ties to even), a mantissa and a binary
  scale, and \<open>fixed k\<close> is the \<open>%.kf\<close> verb, which rounds that double's exact value.
\<close>

section \<open>Doubles\<close>

fun bits :: "nat \<Rightarrow> nat" where
  "bits n = (if n = 0 then 0 else Suc (bits (n div 2)))"

declare bits.simps [simp del]

definition round_half_even :: "nat \<Rightarrow> nat \<Rightarrow> nat" where
  "round_half_even n d =
     (let q = n div d; r = n mod d
      in if 2 * r < d then q else if d < 2 * r then q + 1 else if even q then q else q + 1)"

text \<open>A double: mantissa \<open>m\<close> and scale \<open>s\<close>, of value \<open>m / 2^s\<close>; \<open>ratio\<close> gives the value as a quotient.\<close>

type_synonym double = "nat \<times> int"

definition scaled :: "nat \<Rightarrow> nat \<Rightarrow> int \<Rightarrow> nat \<times> nat" where
  "scaled n d s = (if 0 \<le> s then (n * 2 ^ nat s, d) else (n, d * 2 ^ nat (- s)))"

definition fl_quot :: "nat \<Rightarrow> nat \<Rightarrow> double" where
  "fl_quot n d =
     (if n = 0 then (0, 0)
      else let s0 = 53 + int (bits d) - int (bits n);
               (a0, b0) = scaled n d s0;
               s = (if 2 ^ 53 * b0 \<le> a0 then s0 - 1 else s0);
               (a, b) = scaled n d s
           in (round_half_even a b, s))"

definition ratio :: "double \<Rightarrow> nat \<times> nat" where
  "ratio x = (let (m, s) = x in if 0 \<le> s then (m, 2 ^ nat s) else (m * 2 ^ nat (- s), 1))"

definition fl_add_nat :: "nat \<Rightarrow> double \<Rightarrow> double" where
  "fl_add_nat k x = (let (n, d) = ratio x in fl_quot (k * d + n) d)"

definition fl_div_nat :: "double \<Rightarrow> nat \<Rightarrow> double" where
  "fl_div_nat x k = (let (n, d) = ratio x in fl_quot n (d * k))"

definition fl_trunc :: "double \<Rightarrow> nat" where
  "fl_trunc x = (let (n, d) = ratio x in n div d)"

fun pad_left :: "nat \<Rightarrow> string \<Rightarrow> string" where
  "pad_left w s = replicate (w - length s) (CHR ''0'') @ s"

definition fixed :: "nat \<Rightarrow> double \<Rightarrow> string" where
  "fixed k x =
     (let (n, d) = ratio x; r = round_half_even (n * 10 ^ k) d
      in dec_digits (r div 10 ^ k) @ ''.'' @ pad_left k (dec_digits (r mod 10 ^ k)))"

text \<open>\<open>Duration.Seconds\<close> and \<open>Duration.Minutes\<close> of a duration that is not negative.\<close>

definition seconds :: "duration \<Rightarrow> double" where
  "seconds d = fl_add_nat (nat (d div second)) (fl_quot (nat (d mod second)) (nat second))"

definition minutes :: "duration \<Rightarrow> double" where
  "minutes d = fl_add_nat (nat (d div minute)) (fl_quot (nat (d mod minute)) (nat minute))"

definition micro_sign :: string where
  "micro_sign = [char_of (194 :: nat), char_of (181 :: nat)]"

definition format_duration :: "duration \<Rightarrow> string" where
  "format_duration d =
     (if d < millisecond then itoa (go_div d 1000) @ micro_sign @ ''s''
      else if d < second then itoa (go_div d 1000000) @ ''ms''
      else if d < minute then fixed 2 (seconds d) @ ''s''
      else dec_digits (fl_trunc (minutes d)) @ ''m''
           @ pad_left 2 (dec_digits (fl_trunc (seconds d) mod 60)) @ ''s'')"

definition format_bytes :: "int \<Rightarrow> string" where
  "format_bytes n =
     (if n < 1000 then itoa n
      else if n < 1000000 then fixed 1 (fl_div_nat (fl_quot (nat n) 1) 1000) @ ''k''
      else if n < 1000000000 then fixed 1 (fl_div_nat (fl_quot (nat n) 1) 1000000) @ ''M''
      else fixed 1 (fl_div_nat (fl_quot (nat n) 1) 1000000000) @ ''G'')"

section \<open>LLM hosts\<close>

definition llm_hosts :: "string list" where
  "llm_hosts =
     [''api.anthropic.com'', ''api.openai.com'', ''*.openai.azure.com'',
      ''generativelanguage.googleapis.com'', ''openrouter.ai'', ''api.groq.com'',
      ''api.mistral.ai'', ''api.together.xyz'', ''api.x.ai'', ''api.deepseek.com'',
      ''bedrock-runtime.*.amazonaws.com'']"

fun match_pieces :: "string list \<Rightarrow> string \<Rightarrow> bool" where
  "match_pieces [] s = True"
| "match_pieces (w # ws) s =
     (case str_index s w of
        None \<Rightarrow> False
      | Some idx \<Rightarrow>
          if ws = [] \<and> w \<noteq> [] \<and> \<not> has_suffix s w then False
          else match_pieces ws (drop (idx + length w) s))"

definition match_host_glob :: "string \<Rightarrow> string \<Rightarrow> bool" where
  "match_host_glob p h =
     (if \<not> contains_any p ''*?'' then equal_fold p h
      else let pp = str_split (CHR ''*'') (to_lower p); s = to_lower h
           in if \<not> has_prefix s (hd pp) then False
              else match_pieces (tl pp) (drop (length (hd pp)) s))"

definition is_llm_host :: "string \<Rightarrow> bool" where
  "is_llm_host host = list_ex (\<lambda>p. match_host_glob p host) llm_hosts"

section \<open>Rows\<close>

record flow_row =
  r_id :: flow_id
  r_short :: string
  r_time :: gotime
  r_kind :: flow_kind
  r_method :: string
  r_host :: string
  r_path :: string
  r_status :: int
  r_duration :: string
  r_dur_ms :: "bool \<times> double"
  r_up :: int
  r_down :: int
  r_type :: string
  r_flags :: "string list"
  r_error :: string
  r_proto :: string
  r_client :: string
  r_state :: flow_state

text \<open>The loop over the rules that fired: each action once, in order of first appearance.\<close>

fun action_flags :: "string list \<Rightarrow> rule_hit list \<Rightarrow> string list" where
  "action_flags seen [] = []"
| "action_flags seen (h # hs) =
     (if List.member seen (rh_action h) then action_flags seen hs
      else rh_action h # action_flags (rh_action h # seen) hs)"

definition flags :: "flow \<Rightarrow> string list" where
  "flags f =
     (let r = br_mime (fl_resp_body f) in
      (if is_llm_host (fl_host f) then [''llm''] else [])
      @ (if r = ''text/event-stream''
            \<or> (r = [] \<and> header_get (fl_resp_headers f) ''Content-Type'' = ''text/event-stream'')
         then [''stream''] else [])
      @ (if fl_error f \<noteq> [] \<or> 400 \<le> fl_status f then [''err''] else [])
      @ (if fl_state f = StateHeld then [''held''] else [])
      @ (if fl_state f = StateActive then [''active''] else [])
      @ (if fl_replay f then [''replay''] else [])
      @ action_flags [] (fl_rules f)
      @ (if br_truncated (fl_req_body f) \<or> br_truncated (fl_resp_body f) then [''trunc''] else [])
      @ fl_tags f)"

text \<open>The sign and magnitude of \<open>float64(d) / float64(time.Millisecond)\<close>.\<close>

definition dur_ms :: "duration \<Rightarrow> bool \<times> double" where
  "dur_ms d = (d < 0, fl_div_nat (fl_quot (nat \<bar>d\<bar>) 1) 1000000)"

definition row :: "gotime \<Rightarrow> flow \<Rightarrow> flow_row" where
  "row now f =
     (let d = total now (fl_t f) in
      \<lparr>r_id = fl_id f, r_short = short (fl_id f), r_time = t_start (fl_t f), r_kind = fl_kind f,
       r_method = fl_method f,
       r_host =
         (if fl_port f \<noteq> 0 \<and> (fl_scheme f \<noteq> ''https'' \<or> fl_port f \<noteq> 443)
             \<and> (fl_scheme f \<noteq> ''http'' \<or> fl_port f \<noteq> 80)
          then fl_host f @ '':'' @ itoa (fl_port f) else fl_host f),
       r_path = (if fl_query f \<noteq> [] then fl_path f @ ''?'' @ fl_query f else fl_path f),
       r_status = fl_status f,
       r_duration = format_duration d,
       r_dur_ms = dur_ms d,
       r_up = br_size (fl_req_body f), r_down = br_size (fl_resp_body f),
       r_type =
         (if fl_kind f = KindWebSocket then ''ws'' else if fl_kind f = KindTunnel then ''tunnel''
          else class_str (mime_of (flow_ct f))),
       r_flags = flags f, r_error = fl_error f, r_proto = fl_proto f, r_client = fl_client f,
       r_state = fl_state f\<rparr>)"

section \<open>The listing\<close>

record flow_list =
  l_flows :: "flow_row list"
  l_cursor :: string
  l_total :: int
  l_last_id :: flow_id

record qacc =
  q_out :: flow_list
  q_last :: flow_id

definition clamp_limit :: "int \<Rightarrow> int" where
  "clamp_limit limit = (let l = (if limit \<le> 0 then 50 else limit) in if 200 < l then 200 else l)"

definition cursor_id :: "string \<Rightarrow> flow_id" where
  "cursor_id cur =
     (if has_prefix cur ''before:''
      then (case parse_short (trim_prefix cur ''before:'') of Some i \<Rightarrow> i | None \<Rightarrow> 0) else 0)"

definition query_visit ::
  "(flow \<Rightarrow> bool) \<Rightarrow> gotime \<Rightarrow> int \<Rightarrow> flow_id \<Rightarrow> flow \<Rightarrow> qacc \<Rightarrow> qacc \<times> bool" where
  "query_visit matches now limit before f q =
     (let out = q_out q;
          out = (if l_last_id out = 0 then out\<lparr>l_last_id := fl_id f\<rparr> else out);
          q = q\<lparr>q_out := out\<rparr>
      in if before \<noteq> 0 \<and> before \<le> fl_id f then (q, True)
         else if \<not> matches f then (q, True)
         else let out = out\<lparr>l_total := l_total out + 1\<rparr>
              in if int (length (l_flows out)) < limit
                 then (q\<lparr>q_out := out\<lparr>l_flows := l_flows out @ [row now f]\<rparr>, q_last := fl_id f\<rparr>, True)
                 else (q\<lparr>q_out := out\<rparr>, True))"

text \<open>\<open>Query\<close>, over the store's \<open>Each\<close>.\<close>

definition query ::
  "((flow \<Rightarrow> qacc \<Rightarrow> qacc \<times> bool) \<Rightarrow> 's \<Rightarrow> qacc \<Rightarrow> qacc) \<Rightarrow> 's \<Rightarrow>
   codec \<Rightarrow> time_lib \<Rightarrow> flow_filter \<Rightarrow> int \<Rightarrow> gotime \<Rightarrow> body_func option \<Rightarrow> flow_list" where
  "query each_in m lib tlb f limit now bodies =
     (let mt = with_bodies bodies (compile_filter tlb f now);
          q = each_in (query_visit (match_filter lib mt) now (clamp_limit limit) (cursor_id (ff_cursor f)))
                m \<lparr>q_out = \<lparr>l_flows = [], l_cursor = [], l_total = 0, l_last_id = 0\<rparr>, q_last = 0\<rparr>;
          out = q_out q
      in if int (length (l_flows out)) < l_total out \<and> q_last q \<noteq> 0
         then out\<lparr>l_cursor := ''before:'' @ short (q_last q)\<rparr> else out)"

definition query_mem where
  "query_mem m = query each (m :: mem)"

section \<open>The inlined host matcher is the glob matcher\<close>

lemma glob_lang_star_prepend: "glob_lang (CHR ''*'' # p) s \<Longrightarrow> glob_lang (CHR ''*'' # p) (x @ s)"
  unfolding glob_lang_star by (metis append.assoc)

lemma glob_lang_star_literal:
  assumes "\<not> is_pattern w"
  shows "glob_lang (CHR ''*'' # w @ p) s \<longleftrightarrow> (\<exists>a b. s = a @ w @ b \<and> glob_lang p b)"
  unfolding glob_lang_star glob_lang_append_literal [OF assms] by auto

text \<open>Leftmost is enough: what follows the star can absorb the difference.\<close>

lemma glob_lang_star_leftmost:
  assumes w: "\<not> is_pattern w" and i: "str_index s w = Some i"
  shows "glob_lang (CHR ''*'' # w @ CHR ''*'' # p) s \<longleftrightarrow> glob_lang (CHR ''*'' # p) (drop (i + length w) s)"
proof
  assume "glob_lang (CHR ''*'' # w @ CHR ''*'' # p) s"
  then obtain a b where s: "s = a @ w @ b" and b: "glob_lang (CHR ''*'' # p) b"
    unfolding glob_lang_star_literal [OF w] by blast
  have "i \<le> length a" using str_index_least [OF s] i by auto
  then have "drop (i + length w) s = drop (i + length w) (a @ w) @ b"
    unfolding s by simp
  with b show "glob_lang (CHR ''*'' # p) (drop (i + length w) s)"
    by (simp only: glob_lang_star_prepend)
next
  assume d: "glob_lang (CHR ''*'' # p) (drop (i + length w) s)"
  have "s = take i s @ w @ drop (i + length w) s"
    using str_index_Some_iff [OF i] by auto
  with d show "glob_lang (CHR ''*'' # w @ CHR ''*'' # p) s"
    unfolding glob_lang_star_literal [OF w] by blast
qed

lemma match_pieces_glob:
  "ws \<noteq> [] \<Longrightarrow> \<forall>w \<in> set ws. \<not> is_pattern w \<Longrightarrow>
     match_pieces ws s \<longleftrightarrow> glob_lang (CHR ''*'' # str_join ''*'' ws) s"
proof (induction ws arbitrary: s)
  case (Cons w ws)
  then have w: "\<not> is_pattern w" by simp
  have none: "\<not> glob_lang (CHR ''*'' # w @ p) s" if "str_index s w = None" for p
    using that unfolding glob_lang_star_literal [OF w] str_index_None_iff by blast
  show ?case
  proof (cases ws)
    case Nil
    have suf: "(\<exists>a b. s = a @ w @ b \<and> b = []) \<longleftrightarrow> has_suffix s w"
      by (auto simp: suffix_def)
    have g: "glob_lang (CHR ''*'' # w) s \<longleftrightarrow> has_suffix s w"
      using glob_lang_star_literal [OF w, of "[]" s] suf by simp
    show ?thesis
    proof (cases "str_index s w")
      case None
      with none [of "[]"] show ?thesis by (simp add: Nil)
    next
      case (Some i)
      then show ?thesis using g by (cases "w = []") (simp_all add: Nil)
    qed
  next
    case (Cons v vs)
    then have j: "str_join ''*'' (w # ws) = w @ CHR ''*'' # str_join ''*'' ws" by simp
    show ?thesis
    proof (cases "str_index s w")
      case None
      with none show ?thesis by (simp add: j)
    next
      case (Some i)
      have "match_pieces (w # ws) s = match_pieces ws (drop (i + length w) s)"
        using Some Cons by simp
      also have "\<dots> = glob_lang (CHR ''*'' # str_join ''*'' ws) (drop (i + length w) s)"
        using Cons.IH Cons.prems Cons by simp
      finally show ?thesis unfolding j glob_lang_star_leftmost [OF w Some] .
    qed
  qed
qed simp

lemma match_host_glob_eq:
  assumes "CHR ''?'' \<notin> set p"
  shows "match_host_glob p h = glob_match p h"
proof (cases "is_pattern p")
  case False
  then show ?thesis
    by (simp add: match_host_glob_def glob_match_literal flip: is_pattern_def)
next
  case True
  let ?ws = "str_split (CHR ''*'') (to_lower p)"
  have star: "CHR ''*'' \<in> set (to_lower p)" and nq: "CHR ''?'' \<notin> set (to_lower p)"
  proof -
    have *: "d \<in> set (to_lower p) \<longleftrightarrow> d \<in> set p" if "d = CHR ''*'' \<or> d = CHR ''?''" for d
      using that by (auto simp: to_lower_def) (metis lower_char_wild imageI)+
    show "CHR ''*'' \<in> set (to_lower p)" "CHR ''?'' \<notin> set (to_lower p)"
      using True assms * by (auto simp: is_pattern_def contains_any_def list_ex_iff)
  qed
  obtain w ws where split: "?ws = w # ws" by (cases ?ws) auto
  have "ws \<noteq> []"
  proof
    assume "ws = []"
    then have "to_lower p = w" using split str_join_split [of "CHR ''*''" "to_lower p"] by simp
    with star str_split_no_sep [of w "CHR ''*''" "to_lower p"] split show False by simp
  qed
  have plain: "\<not> is_pattern v" if "v \<in> set (w # ws)" for v
  proof -
    have "CHR ''*'' \<notin> set v" using that split str_split_no_sep by metis
    moreover have "set v \<subseteq> set (to_lower p)"
      using that split str_split_subset [of v "CHR ''*''" "to_lower p"] by simp
    ultimately show ?thesis using nq by (auto simp: is_pattern_def contains_any_def list_ex_iff)
  qed
  have "to_lower p = str_join ''*'' (w # ws)" using split str_join_split by metis
  also have "\<dots> = w @ CHR ''*'' # str_join ''*'' ws" using \<open>ws \<noteq> []\<close> by (cases ws) auto
  finally have p: "to_lower p = w @ CHR ''*'' # str_join ''*'' ws" .
  have "glob_match p h \<longleftrightarrow> (\<exists>t. to_lower h = w @ t \<and> match_pieces ws t)"
    using plain match_pieces_glob [OF \<open>ws \<noteq> []\<close>]
    by (simp add: glob_match_iff p glob_lang_append_literal)
  also have "\<dots> \<longleftrightarrow> match_host_glob p h"
    using True split
    by (auto simp: match_host_glob_def prefix_def Let_def simp flip: is_pattern_def)
  finally show ?thesis by simp
qed

text \<open>The host matcher inlined in \<open>row.go\<close> has the semantics of the \<open>glob\<close> package on every
  pattern without a question mark, on every host, so the \<open>llm\<close> flag is set exactly for the hosts
  that \<open>glob.MatchAny\<close> accepts for the list of known LLM hosts.\<close>

theorem llm_hosts_glob:
  "is_llm_host host = glob_match_any llm_hosts host
   \<and> (if CHR ''?'' \<in> set p then True else match_host_glob p host = glob_match p host)"
proof -
  have "list_all (\<lambda>p. CHR ''?'' \<notin> set p) llm_hosts" by code_simp
  then have "list_ex (\<lambda>p. match_host_glob p host) llm_hosts = list_ex (\<lambda>p. glob_match p host) llm_hosts"
    by (simp add: list_ex_iff list_all_iff match_host_glob_eq cong: bex_cong)
  with match_host_glob_eq [of p host] show ?thesis
    by (simp add: is_llm_host_def glob_match_any_def)
qed

text \<open>The comment's claim to reuse glob semantics fails for question marks: a pattern with \<open>?\<close> and no
  star is compared as a literal prefix.\<close>

theorem host_glob_question_mark:
  "\<not> match_host_glob ''a?c'' ''abc'' \<and> glob_match ''a?c'' ''abc''
   \<and> match_host_glob ''a?c'' ''a?cd'' \<and> \<not> glob_match ''a?c'' ''a?cd''"
  by code_simp

section \<open>Pages of the listing\<close>

definition in_page :: "flow_id \<Rightarrow> (flow \<Rightarrow> bool) \<Rightarrow> flow \<Rightarrow> bool" where
  "in_page before P f = ((before = 0 \<or> fl_id f < before) \<and> P f)"

lemma clamp_limit_bounds: "1 \<le> clamp_limit l \<and> clamp_limit l \<le> 200"
  by (simp add: clamp_limit_def)

lemma query_visit_snd [simp]: "snd (query_visit P now limit before f q)"
  by (simp add: query_visit_def Let_def)

lemma query_visit_in:
  assumes "in_page before P f"
  shows "l_total (q_out (fst (query_visit P now limit before f q))) = l_total (q_out q) + 1"
    and "l_flows (q_out (fst (query_visit P now limit before f q))) =
      (if int (length (l_flows (q_out q))) < limit then l_flows (q_out q) @ [row now f] else l_flows (q_out q))"
    and "q_last (fst (query_visit P now limit before f q)) =
      (if int (length (l_flows (q_out q))) < limit then fl_id f else q_last q)"
    and "l_cursor (q_out (fst (query_visit P now limit before f q))) = l_cursor (q_out q)"
  using assms by (auto simp: query_visit_def in_page_def Let_def)

lemma query_visit_out:
  assumes "\<not> in_page before P f"
  shows "l_total (q_out (fst (query_visit P now limit before f q))) = l_total (q_out q)"
    and "l_flows (q_out (fst (query_visit P now limit before f q))) = l_flows (q_out q)"
    and "q_last (fst (query_visit P now limit before f q)) = q_last q"
    and "l_cursor (q_out (fst (query_visit P now limit before f q))) = l_cursor (q_out q)"
  using assms by (auto simp: query_visit_def in_page_def Let_def)

lemma query_fold_total:
  "l_total (q_out (fold (\<lambda>f q. fst (query_visit P now limit before f q)) fs q))
    = l_total (q_out q) + int (length (filter (in_page before P) fs))"
proof (induction fs arbitrary: q)
  case (Cons f fs)
  then show ?case by (cases "in_page before P f") (simp_all add: query_visit_in query_visit_out)
qed simp

lemma query_fold_cursor:
  "l_cursor (q_out (fold (\<lambda>f q. fst (query_visit P now limit before f q)) fs q)) = l_cursor (q_out q)"
proof (induction fs arbitrary: q)
  case (Cons f fs)
  then show ?case by (cases "in_page before P f") (simp_all add: query_visit_in query_visit_out)
qed simp

lemma query_fold_flows:
  "l_flows (q_out (fold (\<lambda>f q. fst (query_visit P now (int lim) before f q)) fs q))
    = l_flows (q_out q) @ List.map (row now) (take (lim - length (l_flows (q_out q))) (filter (in_page before P) fs))"
proof (induction fs arbitrary: q)
  case (Cons f fs)
  show ?case
  proof (cases "in_page before P f \<and> length (l_flows (q_out q)) < lim")
    case True
    then obtain k where k: "lim - length (l_flows (q_out q)) = Suc k" by (metis Suc_diff_Suc)
    then have "lim - Suc (length (l_flows (q_out q))) = k" by simp
    with True k Cons show ?thesis by (simp add: query_visit_in)
  next
    case False
    with Cons show ?thesis
      by (cases "in_page before P f") (simp_all add: query_visit_in query_visit_out)
  qed
qed simp

lemma query_fold_last:
  "q_last (fold (\<lambda>f q. fst (query_visit P now (int lim) before f q)) fs q)
    = (let shown = take (lim - length (l_flows (q_out q))) (filter (in_page before P) fs)
       in if shown = [] then q_last q else fl_id (last shown))"
proof (induction fs arbitrary: q)
  case (Cons f fs)
  show ?case
  proof (cases "in_page before P f \<and> length (l_flows (q_out q)) < lim")
    case True
    then obtain k where k: "lim - length (l_flows (q_out q)) = Suc k" by (metis Suc_diff_Suc)
    then have "lim - Suc (length (l_flows (q_out q))) = k" by simp
    with True k Cons show ?thesis by (cases k) (auto simp: query_visit_in Let_def)
  next
    case False
    with Cons show ?thesis
      by (cases "in_page before P f") (simp_all add: query_visit_in query_visit_out Let_def)
  qed
qed simp

lemma match_ignores_cursor:
  "match_filter lib (with_bodies b (compile_filter tlb (f\<lparr>ff_cursor := c\<rparr>) now)) fl = filter_flow lib tlb now b f fl"
proof -
  have "match_body lib (with_bodies b (compile_filter tlb (f\<lparr>ff_cursor := c\<rparr>) now)) fl
      = match_body lib (with_bodies b (compile_filter tlb f now)) fl"
    by (rule match_body_cong) simp_all
  then show ?thesis by (simp add: filter_flow_iff match_filter_iff conditions_def)
qed

lemma cursor_id_simps [simp]: "cursor_id [] = 0" "cursor_id (''before:'' @ short i) = i"
  using parse_short_short [of i] by (simp_all add: cursor_id_def trim_prefix_def)

text \<open>The pages a client reads by following cursors, with a bound on how many it asks for.\<close>

fun list_pages ::
  "((flow \<Rightarrow> qacc \<Rightarrow> qacc \<times> bool) \<Rightarrow> 's \<Rightarrow> qacc \<Rightarrow> qacc) \<Rightarrow> 's \<Rightarrow>
   codec \<Rightarrow> time_lib \<Rightarrow> nat \<Rightarrow> flow_filter \<Rightarrow> int \<Rightarrow> gotime \<Rightarrow> body_func option \<Rightarrow> flow_list list" where
  "list_pages each_in m lib tlb 0 f limit now bodies = []"
| "list_pages each_in m lib tlb (Suc n) f limit now bodies =
     (let r = query each_in m lib tlb f limit now bodies
      in r # (if l_cursor r = [] then []
              else list_pages each_in m lib tlb n (f\<lparr>ff_cursor := l_cursor r\<rparr>) limit now bodies))"

lemma newer_split:
  assumes "sorted_wrt (\<lambda>a b. fl_id b < fl_id a) L" "filter (in_page before P) L = xs @ x # ys"
    and "fl_id x \<noteq> 0"
  shows "filter (in_page (fl_id x) P) L = ys"
proof -
  let ?ms = "filter (in_page before P) L"
  have x: "x \<in> set ?ms" using assms(2) by simp
  have "in_page (fl_id x) P f \<longleftrightarrow> in_page before P f \<and> fl_id f < fl_id x" for f
    using x assms(3) by (auto simp: in_page_def)
  then have "filter (in_page (fl_id x) P) L = filter (\<lambda>f. fl_id f < fl_id x) ?ms"
    unfolding filter_filter by (auto intro: filter_cong)
  also have "\<dots> = ys"
  proof -
    have "sorted_wrt (\<lambda>a b. fl_id b < fl_id a) ?ms" using assms(1) by (rule sorted_wrt_filter)
    then have "\<forall>f \<in> set xs. fl_id x < fl_id f" "\<forall>f \<in> set ys. fl_id f < fl_id x"
      unfolding assms(2) by (auto simp: sorted_wrt_append)
    then show ?thesis unfolding assms(2) by (auto simp: filter_empty_conv dest: less_asym)
  qed
  finally show ?thesis .
qed

locale flow_query = flow_source inv entries each_in
  for inv :: "'s \<Rightarrow> bool" and entries :: "'s \<Rightarrow> flow list"
    and each_in :: "(flow \<Rightarrow> qacc \<Rightarrow> qacc \<times> bool) \<Rightarrow> 's \<Rightarrow> qacc \<Rightarrow> qacc"
begin

lemma query_eq:
  fixes lib :: codec and tlb :: time_lib and f :: flow_filter and limit :: int and now :: gotime
    and bodies :: "body_func option"
  assumes "inv s"
  defines "ms \<equiv> filter (in_page (cursor_id (ff_cursor f)) (filter_flow lib tlb now bodies f)) (entries s)"
    and "lim \<equiv> nat (clamp_limit limit)"
  shows "l_flows (query each_in s lib tlb f limit now bodies) = List.map (row now) (take lim ms)"
    and "l_total (query each_in s lib tlb f limit now bodies) = int (length ms)"
    and "\<forall>f \<in> set (entries s). fl_id f \<noteq> 0 \<Longrightarrow>
      l_cursor (query each_in s lib tlb f limit now bodies)
        = (if lim < length ms then ''before:'' @ short (fl_id (last (take lim ms))) else [])"
proof -
  have lim: "clamp_limit limit = int lim" "0 < lim"
    using clamp_limit_bounds [of limit] by (auto simp: lim_def)
  let ?q0 = "\<lparr>q_out = \<lparr>l_flows = [], l_cursor = [], l_total = 0, l_last_id = 0\<rparr>, q_last = 0\<rparr>"
  let ?P = "filter_flow lib tlb now bodies f"
  have P: "match_filter lib (with_bodies bodies (compile_filter tlb f now)) = ?P"
    by (simp add: filter_flow_def fun_eq_iff)
  define q where "q = each_in (query_visit ?P now (int lim) (cursor_id (ff_cursor f))) s ?q0"
  have q: "q = fold (\<lambda>g q. fst (query_visit ?P now (int lim) (cursor_id (ff_cursor f)) g q)) (entries s) ?q0"
    by (simp add: q_def each_entries [OF assms(1)] visit_all)
  have qs: "l_flows (q_out q) = List.map (row now) (take lim ms)" "l_total (q_out q) = int (length ms)"
    "l_cursor (q_out q) = []" "q_last q = (if take lim ms = [] then 0 else fl_id (last (take lim ms)))"
    by (simp_all add: q query_fold_flows query_fold_total query_fold_cursor query_fold_last ms_def Let_def)
  have query: "query each_in s lib tlb f limit now bodies =
      (if int (length (l_flows (q_out q))) < l_total (q_out q) \<and> q_last q \<noteq> 0
       then (q_out q)\<lparr>l_cursor := ''before:'' @ short (q_last q)\<rparr> else q_out q)"
    by (simp add: query_def P lim(1) Let_def flip: q_def)
  show "l_flows (query each_in s lib tlb f limit now bodies) = List.map (row now) (take lim ms)"
    and "l_total (query each_in s lib tlb f limit now bodies) = int (length ms)"
    by (simp_all add: query qs)
  show "l_cursor (query each_in s lib tlb f limit now bodies)
        = (if lim < length ms then ''before:'' @ short (fl_id (last (take lim ms))) else [])"
    if ids: "\<forall>f \<in> set (entries s). fl_id f \<noteq> 0"
  proof (cases "lim < length ms")
    case True
    then have "take lim ms \<noteq> []" using lim(2) by auto
    then have "last (take lim ms) \<in> set ms" using in_set_takeD last_in_set by metis
    then have "fl_id (last (take lim ms)) \<noteq> 0" using ids by (auto simp: ms_def)
    with True \<open>take lim ms \<noteq> []\<close> show ?thesis by (simp add: query qs)
  next
    case False
    then show ?thesis by (simp add: query qs)
  qed
qed

lemma pages_from:
  assumes "inv s" and sorted: "sorted_wrt (\<lambda>a b. fl_id b < fl_id a) (entries s)"
    and ids: "\<forall>f \<in> set (entries s). fl_id f \<noteq> 0"
    and "length (filter (in_page (cursor_id (ff_cursor f)) (filter_flow lib tlb now bodies f)) (entries s)) < n"
  shows "concat (List.map l_flows (list_pages each_in s lib tlb n f limit now bodies))
    = List.map (row now)
        (filter (in_page (cursor_id (ff_cursor f)) (filter_flow lib tlb now bodies f)) (entries s))"
  using assms(4)
proof (induction n arbitrary: f)
  case 0
  then show ?case by simp
next
  case (Suc n)
  let ?P = "filter_flow lib tlb now bodies f"
  let ?r = "query each_in s lib tlb f limit now bodies"
  define ms where "ms = filter (in_page (cursor_id (ff_cursor f)) ?P) (entries s)"
  define lim where "lim = nat (clamp_limit limit)"
  have lim: "0 < lim" using clamp_limit_bounds [of limit] by (auto simp: lim_def)
  note q = query_eq [OF assms(1), where f = f and lib = lib and tlb = tlb and now = now and bodies = bodies
      and limit = limit, folded ms_def lim_def]
  show ?case
  proof (cases "lim < length ms")
    case False
    with q ids show ?thesis by (simp add: ms_def Let_def)
  next
    case True
    define x where "x = last (take lim ms)"
    have ne: "take lim ms \<noteq> []" using True lim by auto
    have split: "ms = butlast (take lim ms) @ x # drop lim ms"
      using append_butlast_last_id [OF ne] append_take_drop_id [of lim ms] unfolding x_def
      by (metis append.assoc append_Cons append_Nil)
    have "x \<in> set ms" using split by (metis in_set_conv_decomp)
    then have x0: "fl_id x \<noteq> 0" using ids by (auto simp: ms_def)
    have cur: "l_cursor ?r = ''before:'' @ short (fl_id x)"
      using q(3) ids True by (simp add: x_def)
    let ?f = "f\<lparr>ff_cursor := l_cursor ?r\<rparr>"
    have P': "filter_flow lib tlb now bodies ?f = ?P"
      using match_ignores_cursor [where f = f and c = "l_cursor ?r"]
      by (simp add: filter_flow_def fun_eq_iff)
    have "ff_cursor ?f = l_cursor ?r" by simp
    then have "cursor_id (ff_cursor ?f) = fl_id x" by (simp only: cur cursor_id_simps)
    then have rest: "filter (in_page (cursor_id (ff_cursor ?f)) (filter_flow lib tlb now bodies ?f)) (entries s)
        = drop lim ms"
      unfolding P' using newer_split [OF sorted, of "cursor_id (ff_cursor f)" ?P, folded ms_def, OF split x0]
      by simp
    have "length (drop lim ms) < n" using Suc.prems lim True by (simp add: ms_def)
    then have "concat (List.map l_flows (list_pages each_in s lib tlb n ?f limit now bodies))
        = List.map (row now) (drop lim ms)"
      using Suc.IH [of ?f] unfolding rest by simp
    moreover have "l_cursor ?r \<noteq> []" using cur by simp
    ultimately show ?thesis
      using q(1) by (simp add: Let_def ms_def [symmetric] flip: map_append)
  qed
qed

end

interpretation listing: flow_query mem_wf newest_first each
  unfolding flow_query_def by (rule ring.flow_source_axioms)

text \<open>C8: Following the cursors lists every match exactly once: for any ring the store can reach whose
  flows were inserted in the order of their ids, and any filter with an empty cursor, the pages
  together are the rows of all matching flows, newest first, none missing and none twice, whatever
  the page size; each page has at most 200 rows, and the first page's total counts all matches.\<close>

theorem pages_partition_matches:
  fixes cs :: "store_op list" and sz :: int
  defines "m \<equiv> fst (run_mem cs (new_mem sz))"
  assumes order: "sorted_wrt (\<lambda>a b. fl_id a < fl_id b) (mem_list m)"
    and ids: "0 \<notin> fl_id ` set (mem_list m)" and "ff_cursor f = []" "mem_len m < n"
  shows "concat (List.map l_flows (list_pages each m lib tlb n f limit now bodies))
      = List.map (row now) (filter (filter_flow lib tlb now bodies f) (newest_first m))
    \<and> l_total (query each m lib tlb f limit now bodies) = int (count_if (filter_flow lib tlb now bodies f) m)
    \<and> length (l_flows (query each m lib tlb f' limit now bodies)) \<le> 200"
proof -
  have wf: "mem_wf m" using ring.run_refines [OF mem_wf_new, of cs sz] by (simp add: m_def run_mem_def)
  have sorted: "sorted_wrt (\<lambda>a b. fl_id b < fl_id a) (newest_first m)"
    using order by (simp add: mem_list_def sorted_wrt_rev)
  have ids': "\<forall>f \<in> set (newest_first m). fl_id f \<noteq> 0" using ids by (auto simp: mem_list_def)
  have P: "in_page 0 Q = Q" for Q :: "flow \<Rightarrow> bool" by (simp add: in_page_def fun_eq_iff)
  have len: "length (newest_first m) < n" using assms(5) by (simp add: newest_first_def mem_len_def)
  have "nat (clamp_limit limit) \<le> 200" using clamp_limit_bounds [of limit] by linarith
  moreover have "concat (List.map l_flows (list_pages each m lib tlb n f limit now bodies))
      = List.map (row now) (filter (filter_flow lib tlb now bodies f) (newest_first m))"
    using listing.pages_from [OF wf sorted ids', where f = f and lib = lib and tlb = tlb and limit = limit
        and now = now and bodies = bodies and n = n] assms(4) len
      length_filter_le [of "filter_flow lib tlb now bodies f" "newest_first m"]
    by (simp add: P)
  moreover have "l_total (query each m lib tlb f limit now bodies) = int (count_if (filter_flow lib tlb now bodies f) m)"
    using listing.query_eq(2) [OF wf, where f = f and lib = lib and tlb = tlb and limit = limit and now = now
        and bodies = bodies] assms(4)
    by (simp add: P count_if_eq [OF wf] mem_list_def flip: rev_filter)
  ultimately show ?thesis
    using listing.query_eq(1) [OF wf, where f = f' and lib = lib and tlb = tlb and limit = limit and now = now
        and bodies = bodies] by simp
qed

text \<open>The formats are off at the top of a unit: 999 999 bytes print as \<open>1000.0k\<close>, not \<open>1.0M\<close>.\<close>

lemma format_bytes_overflows_unit: "format_bytes 999999 = ''1000.0k''"
proof -
  have "digit_char 0 = CHR ''0''" "digit_char (Suc 0) = CHR ''1''" by code_simp+
  then show ?thesis
    by (simp add: format_bytes_def fixed_def fl_div_nat_def fl_quot_def ratio_def scaled_def
        round_half_even_def bits.simps dec_digits.simps)
qed

definition sample_flow :: "flow_id \<Rightarrow> flow" where
  "sample_flow i = \<lparr>fl_id = i, fl_session = [], fl_kind = KindHTTP, fl_client = [], fl_proto = [],
     fl_up_proto = [], fl_scheme = ''https'', fl_host = ''example.com'', fl_port = 443,
     fl_method = ''GET'', fl_path = ''/'', fl_query = [], fl_req_headers = [],
     fl_req_body = \<lparr>br_hash = [], br_size = 0, br_captured = 0, br_truncated = False, br_encoding = [], br_mime = []\<rparr>,
     fl_status = 200, fl_resp_headers = [],
     fl_resp_body = \<lparr>br_hash = [], br_size = 0, br_captured = 0, br_truncated = False, br_encoding = [], br_mime = []\<rparr>,
     fl_trailers = [],
     fl_t = \<lparr>t_start = 1, t_dns_done = 0, t_connected = 0, t_tls_done = 0, t_wrote_req = 0, t_first_byte = 0,
             t_headers_sent = 0, t_end = 0, t_reused = False\<rparr>,
     fl_error = [], fl_tags = [], fl_rules = [], fl_state = StateDone, fl_replay = False, fl_replay_of = 0\<rparr>"

lemma pages_partition_matches_witness:
  "\<forall>(lib :: codec) (tlb :: time_lib). List.map r_id (concat (List.map l_flows
    (list_pages each (fst (run_mem (List.map (\<lambda>i. OpUpsert (sample_flow i)) [1, 2, 3]) (new_mem 2)))
       lib tlb 3 empty_filter 1 5 None))) = [3, 2]"
  (is "\<forall>lib tlb. ?W lib tlb")
proof (intro allI)
  fix lib :: codec and tlb :: time_lib
  let ?cs = "List.map (\<lambda>i. OpUpsert (sample_flow i)) [1, 2, 3]"
  let ?m = "fst (run_mem ?cs (new_mem 2))"
  have i: "fl_id (sample_flow i) = i" for i by (simp add: sample_flow_def)
  have "fst (spec_run 2 ?cs []) = List.map sample_flow [2, 3]"
    by (simp add: spec_run_def spec_put_def spec_upsert_def i)
  moreover have "mem_cap (new_mem 2) = 2" "newest_first (new_mem 2) = []"
    by (simp_all add: new_mem_def mem_cap_def newest_first_def)
  ultimately have l: "mem_list ?m = List.map sample_flow [2, 3]"
    using ring.run_refines [OF mem_wf_new, of ?cs 2] by (simp add: run_mem_def mem_list_def)
  then have n: "newest_first ?m = List.map sample_flow [3, 2]" by (simp add: mem_list_def rev_swap)
  have len: "mem_len ?m = 2" using arg_cong [OF n, of length]
    by (simp add: newest_first_def mem_len_def del: upt_Suc)
  have "sorted_wrt (\<lambda>a b. fl_id a < fl_id b) (mem_list ?m)" "0 \<notin> fl_id ` set (mem_list ?m)"
    unfolding l by (simp_all add: i)
  moreover have "ff_cursor empty_filter = []" by (simp add: empty_filter_def)
  ultimately have "concat (List.map l_flows (list_pages each ?m lib tlb 3 empty_filter 1 5 None))
      = List.map (row 5) (filter (filter_flow lib tlb 5 None empty_filter) (newest_first ?m))"
    using len by (intro pages_partition_matches [THEN conjunct1]) simp_all
  then show "?W lib tlb" unfolding n by (simp only: list.map) (simp add: row_def i Let_def filter_part_simps(1))
qed

end
