(* ===== verification/Store_Sessions.thy ===== *)
theory Store_Sessions
  imports Prelude
begin

text \<open>
  \<open>internal/store/sessions.go\<close>: the session registry. \<open>sessions\<close> is the struct, oldest session
  first; \<open>start_session\<close>, \<open>delete_session\<close> and \<open>list_sessions\<close> are its methods. The random source
  of \<open>newSessionID\<close> is the list of 32-bit numbers it yields: \<open>Start\<close> draws until it has an id that
  is not taken, so it is \<open>None\<close> while the numbers drawn so far are all taken.
\<close>

section \<open>The registry\<close>

record session =
  ss_id :: string
  ss_name :: string
  ss_started_at :: gotime
  ss_ended_at :: gotime
  ss_flows :: int
  ss_current :: bool

record sessions =
  s_list :: "session list"
  s_cur :: string

datatype session_error = ErrNotFound | ErrCurrent

definition default_session_name :: string where
  "default_session_name = ''default''"

definition hex_nibble :: "nat \<Rightarrow> char" where
  "hex_nibble d = ''0123456789abcdef'' ! d"

definition new_session_id :: "32 word \<Rightarrow> string" where
  "new_session_id w = List.map (\<lambda>k. hex_nibble (unat w div 16 ^ k mod 16)) (rev [0..<8])"

definition has_session :: "string \<Rightarrow> session list \<Rightarrow> bool" where
  "has_session i l = list_ex (\<lambda>x. ss_id x = i) l"

fun fresh_session_id :: "session list \<Rightarrow> 32 word list \<Rightarrow> string option" where
  "fresh_session_id l [] = None"
| "fresh_session_id l (w # ws) =
     (if has_session (new_session_id w) l then fresh_session_id l ws else Some (new_session_id w))"

definition end_current :: "gotime \<Rightarrow> session \<Rightarrow> session" where
  "end_current now x = (if ss_current x then x\<lparr>ss_current := False, ss_ended_at := now\<rparr> else x)"

definition start_session ::
  "string \<Rightarrow> gotime \<Rightarrow> 32 word list \<Rightarrow> sessions \<Rightarrow> (session \<times> sessions) option" where
  "start_session name now draws s =
     (let nm = trim_space name;
          nm = (if nm = [] then default_session_name else nm);
          l = List.map (end_current now) (s_list s)
      in case fresh_session_id l draws of
           None \<Rightarrow> None
         | Some i \<Rightarrow>
             (let x = \<lparr>ss_id = i, ss_name = nm, ss_started_at = now, ss_ended_at = 0,
                       ss_flows = 0, ss_current = True\<rparr>
              in Some (x, s\<lparr>s_list := l @ [x], s_cur := i\<rparr>)))"

definition new_sessions :: "gotime \<Rightarrow> 32 word list \<Rightarrow> sessions option" where
  "new_sessions now draws =
     map_option snd (start_session default_session_name now draws \<lparr>s_list = [], s_cur = []\<rparr>)"

fun remove_session :: "string \<Rightarrow> session list \<Rightarrow> session list option" where
  "remove_session i [] = None"
| "remove_session i (x # xs) =
     (if ss_id x = i then Some xs else map_option ((#) x) (remove_session i xs))"

definition delete_session :: "string \<Rightarrow> sessions \<Rightarrow> session_error + sessions" where
  "delete_session i s =
     (if i = s_cur s then Inl ErrCurrent
      else case remove_session i (s_list s) of
             None \<Rightarrow> Inl ErrNotFound
           | Some l \<Rightarrow> Inr (s\<lparr>s_list := l\<rparr>))"

definition current_id :: "sessions \<Rightarrow> string" where
  "current_id s = s_cur s"

definition list_sessions :: "(string \<Rightarrow> int) option \<Rightarrow> sessions \<Rightarrow> session list" where
  "list_sessions flows s =
     List.map (\<lambda>x. case flows of None \<Rightarrow> x | Some g \<Rightarrow> x\<lparr>ss_flows := g (ss_id x)\<rparr>) (rev (s_list s))"

section \<open>Exactly one session is current\<close>

definition sessions_ok :: "sessions \<Rightarrow> bool" where
  "sessions_ok s =
     (distinct (List.map ss_id (s_list s))
      \<and> List.map ss_id (filter ss_current (s_list s)) = [s_cur s])"

lemma fresh_session_id_not_taken: "fresh_session_id l ws = Some i \<Longrightarrow> i \<notin> ss_id ` set l"
  by (induction ws) (auto simp: has_session_def list_ex_iff split: if_splits)

lemma end_current_simps [simp]:
  "ss_id (end_current now x) = ss_id x" "\<not> ss_current (end_current now x)"
  by (auto simp: end_current_def)

lemma map_end_current [simp]:
  "List.map ss_id (List.map (end_current now) l) = List.map ss_id l"
  "filter ss_current (List.map (end_current now) l) = []"
  by (simp_all add: comp_def filter_empty_conv)

lemma start_session_ok:
  assumes "distinct (List.map ss_id (s_list s))" "start_session name now ws s = Some (x, s')"
  shows "sessions_ok s' \<and> ss_current x \<and> ss_id x = s_cur s' \<and> ss_id x \<notin> ss_id ` set (s_list s)"
  using assms fresh_session_id_not_taken [of "List.map (end_current now) (s_list s)" ws]
  by (fastforce simp: start_session_def sessions_ok_def Let_def comp_def image_image
      filter_empty_conv split: option.splits)

lemma remove_session_filter:
  "distinct (List.map ss_id l) \<Longrightarrow>
     remove_session i l = (if i \<in> ss_id ` set l then Some (filter (\<lambda>x. ss_id x \<noteq> i) l) else None)"
proof (induction l)
  case (Cons x xs)
  have "filter (\<lambda>y. ss_id y \<noteq> i) xs = xs" if "i \<notin> ss_id ` set xs"
    using that by (intro filter_True) auto
  with Cons show ?case by auto
qed simp

lemma distinct_map_filter_id: "distinct (List.map k l) \<Longrightarrow> distinct (List.map k (filter P l))"
  by (simp add: distinct_map inj_on_def)

lemma delete_session_eq:
  assumes "sessions_ok s"
  shows "delete_session i s =
     (if i = s_cur s then Inl ErrCurrent
      else if i \<in> ss_id ` set (s_list s) then Inr (s\<lparr>s_list := filter (\<lambda>x. ss_id x \<noteq> i) (s_list s)\<rparr>)
      else Inl ErrNotFound)"
  using assms by (simp add: delete_session_def sessions_ok_def remove_session_filter)

lemma filter_current_delete:
  "i \<noteq> c \<Longrightarrow> List.map ss_id (filter ss_current l) = [c] \<Longrightarrow>
     filter ss_current (filter (\<lambda>x. ss_id x \<noteq> i) l) = filter ss_current l"
proof -
  assume ne: "i \<noteq> c" and cur: "List.map ss_id (filter ss_current l) = [c]"
  have "ss_id x \<noteq> i" if "x \<in> set l" "ss_current x" for x
  proof -
    have "ss_id x \<in> set (List.map ss_id (filter ss_current l))" using that by simp
    with cur ne show ?thesis by simp
  qed
  then show ?thesis by (auto simp: conj_commute intro!: filter_cong)
qed

lemma delete_session_ok:
  assumes "sessions_ok s" "delete_session i s = Inr s'"
  shows "sessions_ok s'"
  using assms filter_current_delete [of i "s_cur s" "s_list s"]
  by (auto simp: delete_session_eq [OF assms(1)] sessions_ok_def distinct_map_filter_id split: if_splits)

section \<open>Runs of the registry\<close>

datatype session_op = StartSession string gotime "32 word list" | DeleteSession string

text \<open>A refused delete leaves the registry as it was; a start that is still drawing has no result.\<close>

fun sessions_step :: "session_op \<Rightarrow> sessions \<Rightarrow> sessions option" where
  "sessions_step (StartSession nm now ws) s = map_option snd (start_session nm now ws s)"
| "sessions_step (DeleteSession i) s =
     Some (case delete_session i s of Inl _ \<Rightarrow> s | Inr s' \<Rightarrow> s')"

fun sessions_run :: "session_op list \<Rightarrow> sessions \<Rightarrow> sessions option" where
  "sessions_run [] s = Some s"
| "sessions_run (op # ops) s = Option.bind (sessions_step op s) (sessions_run ops)"

lemma sessions_step_ok:
  assumes "sessions_ok s" "sessions_step op s = Some s'"
  shows "sessions_ok s'"
proof (cases op)
  case (StartSession nm now ws)
  with assms show ?thesis
    using start_session_ok [of s nm now ws] by (auto simp: sessions_ok_def)
next
  case (DeleteSession i)
  with assms show ?thesis by (auto split: sum.splits dest: delete_session_ok)
qed

lemma sessions_run_ok: "sessions_ok s \<Longrightarrow> sessions_run ops s = Some s' \<Longrightarrow> sessions_ok s'"
  by (induction ops arbitrary: s) (auto split: bind_splits dest: sessions_step_ok)

lemma new_sessions_ok: "new_sessions now ws = Some s \<Longrightarrow> sessions_ok s"
  using start_session_ok [of "\<lparr>s_list = [], s_cur = []\<rparr>"] by (fastforce simp: new_sessions_def)

text \<open>Whatever sessions are started and deleted after the daemon starts, ids are unique, exactly
  one listed session is current, its id is \<open>CurrentID\<close>, and it cannot be deleted: \<open>Delete\<close> of the
  current id is refused with \<open>ErrCurrent\<close>, of an unknown id with \<open>ErrNotFound\<close>, and of any other
  removes that session and no other.\<close>

theorem one_current_session:
  assumes "new_sessions t0 ws = Some s0" and "sessions_run ops s0 = Some s"
  shows "distinct (List.map ss_id (list_sessions None s))
    \<and> List.map ss_id (filter ss_current (list_sessions None s)) = [current_id s]
    \<and> (\<forall>i. delete_session i s =
         (if i = current_id s then Inl ErrCurrent
          else if i \<notin> ss_id ` set (list_sessions None s) then Inl ErrNotFound
          else Inr (s\<lparr>s_list := filter (\<lambda>x. ss_id x \<noteq> i) (s_list s)\<rparr>)))"
proof -
  have ok: "sessions_ok s" using assms by (blast intro: new_sessions_ok sessions_run_ok)
  then have "List.map ss_id (filter ss_current (s_list s)) = [s_cur s]"
    by (simp add: sessions_ok_def)
  then have "List.map ss_id (rev (filter ss_current (s_list s))) = [s_cur s]"
    by (simp flip: rev_map)
  then have "List.map ss_id (filter ss_current (list_sessions None s)) = [current_id s]"
    by (simp add: list_sessions_def current_id_def rev_filter)
  moreover have "distinct (List.map ss_id (list_sessions None s))"
    using ok by (simp add: list_sessions_def sessions_ok_def rev_map [symmetric])
  ultimately show ?thesis
    using delete_session_eq [OF ok] by (simp add: list_sessions_def current_id_def)
qed

lemma one_current_session_witness:
  "\<exists>s. sessions_run [StartSession '' work '' 5 [7, 7, 9], DeleteSession ''00000007'']
        \<lparr>s_list = [\<lparr>ss_id = ''00000007'', ss_name = ''default'', ss_started_at = 1, ss_ended_at = 0,
           ss_flows = 0, ss_current = True\<rparr>], s_cur = ''00000007''\<rparr> = Some s
     \<and> List.map ss_name (list_sessions None s) = [''work'']
     \<and> delete_session ''00000009'' s = Inl ErrCurrent"
  (is "\<exists>s. sessions_run ?ops ?s0 = Some s \<and> _ s")
proof -
  define s where "s = \<lparr>s_list = [\<lparr>ss_id = ''00000009'', ss_name = ''work'',
           ss_started_at = 5, ss_ended_at = 0, ss_flows = 0, ss_current = True\<rparr>], s_cur = ''00000009''\<rparr>"
  have i: "new_session_id 7 = ''00000007''" "new_session_id 9 = ''00000009''"
    by (simp_all add: new_session_id_def hex_nibble_def upt_rec)
  have n: "new_sessions 1 [7] = Some ?s0"
    by (simp add: new_sessions_def start_session_def i default_session_name_def has_session_def Let_def
        trim_space_def trim_left_def trim_right_def is_space_def)
  have r: "sessions_run ?ops ?s0 = Some s"
    by (simp add: s_def start_session_def i default_session_name_def has_session_def Let_def end_current_def
        trim_space_def trim_left_def trim_right_def is_space_def delete_session_def)
  show ?thesis
    using one_current_session [OF n r] r by (simp add: s_def list_sessions_def current_id_def)
qed

end
