(* ===== verification/Store_Blobs.thy ===== *)
theory Store_Blobs
  imports Prelude
begin

text \<open>
  \<open>internal/store/blob.go\<close>: the content-addressed, byte-budgeted LRU store of captured bodies.
  \<open>b_lru\<close> is the \<open>container/list\<close> from front (most recent) to back and \<open>b_index\<close> the map from hash
  to list element; a list element is the entry it holds (hashes are unique in the list). The hash
  function (SHA-256 in hex) is a parameter; nothing is assumed of it.
\<close>

section \<open>The struct and its methods\<close>

record blob_entry =
  be_hash :: string
  be_bytes :: string

record mem_blobs =
  b_budget :: int
  b_used :: int
  b_lru :: "blob_entry list"
  b_index :: "string \<rightharpoonup> blob_entry"

definition new_mem_blobs :: "int \<Rightarrow> mem_blobs" where
  "new_mem_blobs budget =
     \<lparr>b_budget = (if budget \<le> 0 then 256 * 2 ^ 20 else budget), b_used = 0, b_lru = [],
      b_index = Map.empty\<rparr>"

definition move_to_front :: "blob_entry \<Rightarrow> blob_entry list \<Rightarrow> blob_entry list" where
  "move_to_front e xs = e # remove1 e xs"

function evict_loop :: "mem_blobs \<Rightarrow> mem_blobs" where
  "evict_loop m =
     (if b_budget m < b_used m \<and> 1 < length (b_lru m) then
        let e = last (b_lru m) in
        evict_loop (m\<lparr>b_used := b_used m - int (length (be_bytes e)),
                      b_index := (b_index m)(be_hash e := None),
                      b_lru := butlast (b_lru m)\<rparr>)
      else m)"
  by pat_completeness auto
termination
  by (relation "measure (\<lambda>m. length (b_lru m))") auto

declare evict_loop.simps [simp del]

definition put_blob :: "(string \<Rightarrow> string) \<Rightarrow> string \<Rightarrow> mem_blobs \<Rightarrow> string \<times> mem_blobs" where
  "put_blob hash b m =
     (let h = hash b in
      case b_index m h of
        Some el \<Rightarrow> (h, m\<lparr>b_lru := move_to_front el (b_lru m)\<rparr>)
      | None \<Rightarrow>
          (let el = \<lparr>be_hash = h, be_bytes = b\<rparr>
           in (h, evict_loop (m\<lparr>b_index := (b_index m)(h \<mapsto> el), b_lru := el # b_lru m,
                                b_used := b_used m + int (length b)\<rparr>))))"

definition get_blob :: "string \<Rightarrow> mem_blobs \<Rightarrow> string option \<times> mem_blobs" where
  "get_blob h m =
     (case b_index m h of
        None \<Rightarrow> (None, m)
      | Some el \<Rightarrow> (Some (be_bytes el), m\<lparr>b_lru := move_to_front el (b_lru m)\<rparr>))"

definition clear_blobs :: "mem_blobs \<Rightarrow> mem_blobs" where
  "clear_blobs m = m\<lparr>b_lru := [], b_index := Map.empty, b_used := 0\<rparr>"

definition blobs_len :: "mem_blobs \<Rightarrow> nat" where
  "blobs_len m = length (b_lru m)"

definition blobs_bytes :: "mem_blobs \<Rightarrow> int" where
  "blobs_bytes m = b_used m"

section \<open>The invariant\<close>

definition total_bytes :: "blob_entry list \<Rightarrow> int" where
  "total_bytes xs = (\<Sum>e\<leftarrow>xs. int (length (be_bytes e)))"

definition blobs_ok :: "(string \<Rightarrow> string) \<Rightarrow> mem_blobs \<Rightarrow> bool" where
  "blobs_ok hash m \<longleftrightarrow>
     distinct (List.map be_hash (b_lru m))
     \<and> (\<forall>h e. b_index m h = Some e \<longleftrightarrow> e \<in> set (b_lru m) \<and> be_hash e = h)
     \<and> (\<forall>e \<in> set (b_lru m). hash (be_bytes e) = be_hash e)
     \<and> b_used m = total_bytes (b_lru m)"

definition within_budget :: "mem_blobs \<Rightarrow> bool" where
  "within_budget m \<longleftrightarrow> b_used m \<le> b_budget m \<or> length (b_lru m) \<le> 1"

lemma total_bytes_Nil [simp]: "total_bytes [] = 0"
  by (simp add: total_bytes_def)

lemma total_bytes_Cons [simp]: "total_bytes (e # xs) = int (length (be_bytes e)) + total_bytes xs"
  by (simp add: total_bytes_def)

lemma total_bytes_append [simp]: "total_bytes (xs @ ys) = total_bytes xs + total_bytes ys"
  by (induction xs) auto

lemma total_bytes_nonneg [simp]: "0 \<le> total_bytes xs"
  by (induction xs) auto

lemma total_bytes_remove1: "e \<in> set xs \<Longrightarrow> total_bytes (remove1 e xs) = total_bytes xs - int (length (be_bytes e))"
  by (induction xs) auto

lemma blobs_ok_new: "blobs_ok hash (new_mem_blobs budget)"
  by (auto simp: blobs_ok_def new_mem_blobs_def)

lemma distinct_remove1_key: "distinct (List.map k xs) \<Longrightarrow> distinct (List.map k (remove1 x xs))"
  by (induction xs) (auto dest: in_set_remove1 [THEN iffD1, rotated] notin_set_remove1 set_mp [OF set_remove1_subset])

lemma map_remove1_key_notin:
  "distinct (List.map k xs) \<Longrightarrow> x \<in> set xs \<Longrightarrow> k x \<notin> k ` set (remove1 x xs)"
proof (induction xs)
  case (Cons a xs)
  then have "k a \<noteq> k x" if "x \<noteq> a" using that Cons.prems by (auto simp: image_iff)
  with Cons show ?case by (cases "x = a") auto
qed simp

lemma set_move_to_front [simp]: "e \<in> set xs \<Longrightarrow> set (move_to_front e xs) = set xs"
  by (induction xs) (auto simp: move_to_front_def dest: set_mp [OF set_remove1_subset])

lemma blobs_ok_front:
  assumes "blobs_ok hash m" and "e \<in> set (b_lru m)"
  shows "blobs_ok hash (m\<lparr>b_lru := move_to_front e (b_lru m)\<rparr>)"
  using assms set_move_to_front [OF assms(2)]
  by (auto simp: blobs_ok_def move_to_front_def total_bytes_remove1 distinct_remove1_key
      map_remove1_key_notin)

lemma index_None: "blobs_ok hash m \<Longrightarrow> b_index m h = None \<Longrightarrow> \<forall>e \<in> set (b_lru m). be_hash e \<noteq> h"
  by (metis blobs_ok_def option.distinct(1))

text \<open>What the eviction loop leaves: the longest non-empty prefix of the recency list that fits.\<close>

fun keep_recent :: "int \<Rightarrow> blob_entry list \<Rightarrow> blob_entry list" where
  "keep_recent budget xs =
     (if budget < total_bytes xs \<and> 1 < length xs then keep_recent budget (butlast xs) else xs)"

declare keep_recent.simps [simp del]

lemma keep_recent_pop:
  "budget < total_bytes xs \<and> 1 < length xs \<Longrightarrow> keep_recent budget xs = keep_recent budget (butlast xs)"
  by (subst keep_recent.simps) simp

lemma keep_recent_stop:
  "\<not> (budget < total_bytes xs \<and> 1 < length xs) \<Longrightarrow> keep_recent budget xs = xs"
  by (subst keep_recent.simps) auto

lemma keep_recent_prefix: "prefix (keep_recent budget xs) xs"
proof (induction budget xs rule: keep_recent.induct)
  case (1 budget xs)
  show ?case
  proof (cases "budget < total_bytes xs \<and> 1 < length xs")
    case True
    with "1.IH" keep_recent_pop [OF True] show ?thesis
      by (metis prefixeq_butlast prefix_order.trans)
  qed (simp add: keep_recent_stop)
qed

lemma keep_recent_nonempty: "xs \<noteq> [] \<Longrightarrow> keep_recent budget xs \<noteq> []"
proof (induction budget xs rule: keep_recent.induct)
  case (1 budget xs)
  show ?case
  proof (cases "budget < total_bytes xs \<and> 1 < length xs")
    case True
    then have "butlast xs \<noteq> []" by (cases xs) auto
    with "1.IH" [OF True] keep_recent_pop [OF True] show ?thesis by simp
  qed (use "1.prems" in \<open>simp add: keep_recent_stop\<close>)
qed

lemma keep_recent_Cons: "\<exists>rest. keep_recent budget (x # xs) = x # rest"
  using keep_recent_nonempty [of "x # xs" budget] keep_recent_prefix [of budget "x # xs"]
  by (cases "keep_recent budget (x # xs)") auto

lemma keep_recent_fits: "total_bytes (keep_recent budget xs) \<le> budget \<or> length (keep_recent budget xs) \<le> 1"
proof (induction budget xs rule: keep_recent.induct)
  case (1 budget xs)
  show ?case
  proof (cases "budget < total_bytes xs \<and> 1 < length xs")
    case True
    with "1.IH" [OF True] keep_recent_pop [OF True] show ?thesis by simp
  next
    case False
    with keep_recent_stop [OF False] show ?thesis by auto
  qed
qed

lemma prefix_butlast: "prefix ys xs \<Longrightarrow> ys \<noteq> xs \<Longrightarrow> prefix ys (butlast xs)"
  by (metis append_butlast_last_id butlast.simps(1) prefix_snoc)

lemma keep_recent_longest:
  "prefix ys xs \<Longrightarrow> length (keep_recent budget xs) < length ys \<Longrightarrow> budget < total_bytes ys"
proof (induction budget xs rule: keep_recent.induct)
  case (1 budget xs)
  show ?case
  proof (cases "budget < total_bytes xs \<and> 1 < length xs")
    case True
    show ?thesis
    proof (cases "ys = xs")
      case False
      from "1.IH" [OF True prefix_butlast [OF "1.prems"(1) False]] "1.prems"(2) keep_recent_pop [OF True]
      show ?thesis by simp
    qed (use True in simp)
  next
    case False
    with "1.prems" keep_recent_stop [OF False] show ?thesis by (auto dest: prefix_length_le)
  qed
qed

lemma blobs_ok_pop:
  assumes ok: "blobs_ok hash m" and ne: "b_lru m \<noteq> []"
  defines "e \<equiv> last (b_lru m)"
  shows "blobs_ok hash (m\<lparr>b_used := b_used m - int (length (be_bytes e)),
            b_index := (b_index m)(be_hash e := None), b_lru := butlast (b_lru m)\<rparr>)"
proof -
  have split: "b_lru m = butlast (b_lru m) @ [e]" using ne by (simp add: e_def)
  then have dist: "distinct (List.map be_hash (butlast (b_lru m) @ [e]))"
    using ok by (simp add: blobs_ok_def)
  have mem: "x \<in> set (b_lru m) \<longleftrightarrow> x \<in> set (butlast (b_lru m)) \<or> x = e" for x
    by (subst split) auto
  have "total_bytes (b_lru m) = total_bytes (butlast (b_lru m)) + int (length (be_bytes e))"
    by (subst split) simp
  moreover have "be_hash x \<noteq> be_hash e" if "x \<in> set (butlast (b_lru m))" for x
    using dist that by (auto intro: rev_image_eqI)
  ultimately show ?thesis using ok dist mem by (auto simp: blobs_ok_def)
qed

lemma evict_loop_eq:
  assumes "blobs_ok hash m"
  shows "b_lru (evict_loop m) = keep_recent (b_budget m) (b_lru m)
    \<and> blobs_ok hash (evict_loop m) \<and> b_budget (evict_loop m) = b_budget m"
  using assms
proof (induction m rule: evict_loop.induct)
  case (1 m)
  have used: "b_used m = total_bytes (b_lru m)" using "1.prems" by (simp add: blobs_ok_def)
  show ?case
  proof (cases "b_budget m < b_used m \<and> 1 < length (b_lru m)")
    case True
    then have ne: "b_lru m \<noteq> []" by auto
    have step: "keep_recent (b_budget m) (b_lru m) = keep_recent (b_budget m) (butlast (b_lru m))"
      using True used by (intro keep_recent_pop) simp
    have "evict_loop m = evict_loop (m\<lparr>b_used := b_used m - int (length (be_bytes (last (b_lru m)))),
            b_index := (b_index m)(be_hash (last (b_lru m)) := None), b_lru := butlast (b_lru m)\<rparr>)"
      using True by (subst evict_loop.simps) (simp add: Let_def)
    with "1.IH" [OF True refl blobs_ok_pop [OF "1.prems" ne]] step show ?thesis by simp
  next
    case False
    then have "keep_recent (b_budget m) (b_lru m) = b_lru m"
      using used by (intro keep_recent_stop) simp
    moreover have "evict_loop m = m" using False by (subst evict_loop.simps) auto
    ultimately show ?thesis using "1.prems" by simp
  qed
qed

lemma put_blob_lru:
  assumes ok: "blobs_ok hash m"
  shows "b_lru (snd (put_blob hash b m)) =
      (case b_index m (hash b) of
         Some e \<Rightarrow> move_to_front e (b_lru m)
       | None \<Rightarrow> keep_recent (b_budget m) (\<lparr>be_hash = hash b, be_bytes = b\<rparr> # b_lru m))"
    and "blobs_ok hash (snd (put_blob hash b m))"
    and "b_budget (snd (put_blob hash b m)) = b_budget m"
proof -
  let ?el = "\<lparr>be_hash = hash b, be_bytes = b\<rparr>"
  let ?m = "m\<lparr>b_index := (b_index m)(hash b \<mapsto> ?el), b_lru := ?el # b_lru m,
               b_used := b_used m + int (length b)\<rparr>"
  have fresh: "b_index m (hash b) = None \<Longrightarrow> \<forall>e \<in> set (b_lru m). hash b \<noteq> be_hash e"
    using index_None [OF ok] by metis
  have "b_index m (hash b) = None \<Longrightarrow> blobs_ok hash ?m"
    using ok fresh unfolding blobs_ok_def by (auto dest: bspec)
  then have new: "b_index m (hash b) = None \<Longrightarrow>
      b_lru (evict_loop ?m) = keep_recent (b_budget m) (?el # b_lru m) \<and> blobs_ok hash (evict_loop ?m)
      \<and> b_budget (evict_loop ?m) = b_budget m"
    using evict_loop_eq [of hash ?m] by simp
  have old: "b_index m (hash b) = Some e \<Longrightarrow> e \<in> set (b_lru m)" for e
    using ok by (simp add: blobs_ok_def)
  show "b_lru (snd (put_blob hash b m)) =
      (case b_index m (hash b) of
         Some e \<Rightarrow> move_to_front e (b_lru m)
       | None \<Rightarrow> keep_recent (b_budget m) (?el # b_lru m))"
    and "blobs_ok hash (snd (put_blob hash b m))"
    and "b_budget (snd (put_blob hash b m)) = b_budget m"
    using new old blobs_ok_front [OF ok]
    by (auto simp: put_blob_def Let_def split: option.splits)
qed

lemmas put_blob_ok [inv_intros] = put_blob_lru(2)

lemma get_blob_ok [inv_intros]: "blobs_ok hash m \<Longrightarrow> blobs_ok hash (snd (get_blob h m))"
  using blobs_ok_front [of hash m] unfolding get_blob_def
  by (auto split: option.splits) (simp add: blobs_ok_def)

lemma clear_blobs_ok [inv_intros]: "blobs_ok hash (clear_blobs m)"
  by (simp add: blobs_ok_def clear_blobs_def)

section \<open>The Blobs interface\<close>

text \<open>
  The Go interface \<open>Blobs\<close>: \<open>Put\<close> returns the content hash, \<open>Get\<close> returns bytes with the hash asked
  for, and what was just put can be fetched.
\<close>

locale blob_store =
  fixes inv :: "'s \<Rightarrow> bool"
    and put :: "string \<Rightarrow> 's \<Rightarrow> string \<times> 's"
    and fetch :: "string \<Rightarrow> 's \<Rightarrow> string option \<times> 's"
    and hash_of :: "string \<Rightarrow> string"
  assumes put_inv: "inv s \<Longrightarrow> inv (snd (put b s))"
    and fetch_inv: "inv s \<Longrightarrow> inv (snd (fetch h s))"
    and put_hash: "fst (put b s) = hash_of b"
    and fetch_sound: "inv s \<Longrightarrow> fst (fetch h s) = Some b \<Longrightarrow> hash_of b = h"
    and fetch_put: "inv s \<Longrightarrow> fst (fetch (hash_of b) (snd (put b s))) \<noteq> None"
begin

lemma fetch_after_put:
  assumes "inv s"
  shows "\<exists>b'. fst (fetch (fst (put b s)) (snd (put b s))) = Some b' \<and> hash_of b' = hash_of b"
proof -
  obtain b' where "fst (fetch (hash_of b) (snd (put b s))) = Some b'"
    using fetch_put [OF assms] by blast
  with fetch_sound [OF put_inv [OF assms] this] show ?thesis by (auto simp: put_hash)
qed

lemma fetch_after_put_exact:
  assumes "inv s" and "\<And>b'. hash_of b' = hash_of b \<Longrightarrow> b' = b"
  shows "fst (fetch (fst (put b s)) (snd (put b s))) = Some b"
  using fetch_after_put [OF assms(1), of b] assms(2) by blast

end

lemma put_head:
  assumes "blobs_ok hash m"
  shows "\<exists>e rest. b_lru (snd (put_blob hash b m)) = e # rest \<and> be_hash e = hash b"
proof (cases "b_index m (hash b)")
  case None
  with keep_recent_Cons show ?thesis by (fastforce simp: put_blob_lru(1) [OF assms])
next
  case (Some e)
  then have "be_hash e = hash b" using assms by (simp add: blobs_ok_def)
  with Some show ?thesis by (simp add: put_blob_lru(1) [OF assms] move_to_front_def)
qed

lemma fetch_put_blob: "blobs_ok hash m \<Longrightarrow> fst (get_blob (hash b) (snd (put_blob hash b m))) \<noteq> None"
proof -
  assume ok: "blobs_ok hash m"
  obtain e rest where "b_lru (snd (put_blob hash b m)) = e # rest" "be_hash e = hash b"
    using put_head [OF ok] by blast
  then have "b_index (snd (put_blob hash b m)) (hash b) = Some e"
    using put_blob_ok [OF ok, of b] by (simp add: blobs_ok_def)
  then show ?thesis by (simp add: get_blob_def)
qed

lemma get_blob_sound: "blobs_ok hash m \<Longrightarrow> fst (get_blob h m) = Some b \<Longrightarrow> hash b = h"
  unfolding blobs_ok_def get_blob_def by (auto split: option.splits)

interpretation blobs: blob_store "blobs_ok hash" "put_blob hash" get_blob hash for hash
proof
  fix m :: mem_blobs and b h :: string
  show "fst (put_blob hash b m) = hash b"
    by (simp add: put_blob_def Let_def split: option.splits)
  assume ok: "blobs_ok hash m"
  show "blobs_ok hash (snd (put_blob hash b m))" by (rule put_blob_ok [OF ok])
  show "blobs_ok hash (snd (get_blob h m))" by (rule get_blob_ok [OF ok])
  show "fst (get_blob (hash b) (snd (put_blob hash b m))) \<noteq> None" by (rule fetch_put_blob [OF ok])
  show "fst (get_blob h m) = Some b \<Longrightarrow> hash b = h" by (rule get_blob_sound [OF ok])
qed

section \<open>Runs of the store\<close>

datatype blob_op = BPut string | BGet string | BClear

fun blob_step :: "(string \<Rightarrow> string) \<Rightarrow> blob_op \<Rightarrow> mem_blobs \<Rightarrow> mem_blobs" where
  "blob_step hash (BPut b) m = snd (put_blob hash b m)"
| "blob_step hash (BGet h) m = snd (get_blob h m)"
| "blob_step hash BClear m = clear_blobs m"

definition blob_run :: "(string \<Rightarrow> string) \<Rightarrow> blob_op list \<Rightarrow> mem_blobs \<Rightarrow> mem_blobs" where
  "blob_run hash cs m = fold (blob_step hash) cs m"

lemma length_move_to_front [simp]: "e \<in> set xs \<Longrightarrow> length (move_to_front e xs) = length xs"
  by (simp add: move_to_front_def length_remove1) (metis Suc_pred length_pos_if_in_set)

lemma within_budget_step:
  assumes "blobs_ok hash m" and "within_budget m"
  shows "within_budget (blob_step hash c m)"
proof (cases c)
  case (BPut b)
  have ok: "blobs_ok hash (snd (put_blob hash b m))" by (rule put_blob_ok [OF assms(1)])
  show ?thesis
  proof (cases "b_index m (hash b)")
    case None
    let ?xs = "\<lparr>be_hash = hash b, be_bytes = b\<rparr> # b_lru m"
    have "b_lru (snd (put_blob hash b m)) = keep_recent (b_budget m) ?xs"
      and "b_budget (snd (put_blob hash b m)) = b_budget m"
      using put_blob_lru [OF assms(1), of b] None by simp_all
    moreover have "b_used (snd (put_blob hash b m)) = total_bytes (b_lru (snd (put_blob hash b m)))"
      using ok by (simp add: blobs_ok_def)
    ultimately show ?thesis
      using keep_recent_fits [of "b_budget m" ?xs] BPut by (simp add: within_budget_def)
  next
    case (Some e)
    then have "e \<in> set (b_lru m)" using assms(1) by (simp add: blobs_ok_def)
    with Some BPut assms(2) show ?thesis by (simp add: put_blob_def Let_def within_budget_def)
  qed
next
  case (BGet h)
  have "b_index m h = Some e \<Longrightarrow> e \<in> set (b_lru m)" for e using assms(1) by (simp add: blobs_ok_def)
  with BGet assms(2) show ?thesis by (auto simp: get_blob_def within_budget_def split: option.splits)
next
  case BClear
  then show ?thesis by (simp add: within_budget_def clear_blobs_def)
qed

lemma blob_step_ok [inv_intros]: "blobs_ok hash m \<Longrightarrow> blobs_ok hash (blob_step hash c m)"
  by (cases c) (auto intro: inv_intros)

lemma within_budget_new: "within_budget (new_mem_blobs budget)"
  by (simp add: within_budget_def new_mem_blobs_def)

lemma blob_run_inv:
  "blobs_ok hash m \<Longrightarrow> within_budget m \<Longrightarrow>
     blobs_ok hash (blob_run hash cs m) \<and> within_budget (blob_run hash cs m)"
  unfolding blob_run_def
  by (induction cs arbitrary: m) (auto intro: blob_step_ok within_budget_step)

section \<open>Properties\<close>

text \<open>C11: Whatever is put, fetched and cleared, for any hash function: the byte counter is the total size of
  the blobs held, it is within the budget unless a single blob is held, no hash is held twice, and
  \<open>Get\<close> never returns bytes whose hash is not the one asked for.\<close>

theorem blob_store_invariant:
  fixes hash :: "string \<Rightarrow> string" and cs :: "blob_op list" and budget :: int
  defines "m \<equiv> blob_run hash cs (new_mem_blobs budget)"
  shows "blobs_bytes m = total_bytes (b_lru m)
    \<and> (blobs_bytes m \<le> b_budget m \<or> blobs_len m \<le> 1)
    \<and> distinct (List.map be_hash (b_lru m))
    \<and> (case fst (get_blob h m) of None \<Rightarrow> h \<notin> be_hash ` set (b_lru m) | Some b \<Rightarrow> hash b = h)"
proof -
  have ok: "blobs_ok hash m" and wb: "within_budget m"
    using blob_run_inv [OF blobs_ok_new within_budget_new] by (simp_all add: m_def)
  have "fst (get_blob h m) = None \<Longrightarrow> h \<notin> be_hash ` set (b_lru m)"
    using index_None [OF ok, of h] by (auto simp: get_blob_def split: option.splits)
  then show ?thesis
    using ok wb blobs.fetch_sound [OF ok, of h]
    by (auto simp: blobs_ok_def within_budget_def blobs_bytes_def blobs_len_def split: option.splits)
qed

text \<open>Storing a body that is not held makes it the most recent blob and evicts exactly from the least
  recently used end: what stays is a prefix of the recency list, it can be fetched at once, and any
  longer prefix would have exceeded the budget.\<close>

theorem blob_put_evicts_lru:
  assumes "blobs_ok hash m" and "hash b \<notin> be_hash ` set (b_lru m)"
  defines "m' \<equiv> snd (put_blob hash b m)"
    and "recency \<equiv> \<lparr>be_hash = hash b, be_bytes = b\<rparr> # b_lru m"
  shows "prefix (b_lru m') recency \<and> b_lru m' \<noteq> []
    \<and> fst (get_blob (hash b) m') = Some b
    \<and> (\<forall>ys. prefix ys recency \<and> length (b_lru m') < length ys \<longrightarrow> b_budget m < total_bytes ys)"
proof -
  have none: "b_index m (hash b) = None"
    using assms(1,2) by (cases "b_index m (hash b)") (auto simp: blobs_ok_def intro: rev_image_eqI)
  then have lru: "b_lru m' = keep_recent (b_budget m) recency"
    using put_blob_lru(1) [OF assms(1), of b] by (simp add: m'_def recency_def)
  obtain rest where rest: "b_lru m' = \<lparr>be_hash = hash b, be_bytes = b\<rparr> # rest"
    using keep_recent_Cons lru unfolding recency_def by metis
  then have "b_index m' (hash b) = Some \<lparr>be_hash = hash b, be_bytes = b\<rparr>"
    using put_blob_ok [OF assms(1), of b] by (simp add: blobs_ok_def m'_def)
  then show ?thesis
    using keep_recent_prefix [of "b_budget m" recency] keep_recent_longest [of _ recency "b_budget m"] rest
    by (auto simp: get_blob_def simp flip: lru)
qed

theorem blob_put_evicts_lru_witness:
  "fst (get_blob ''x'' (snd (put_blob (take 1) ''xyz'' (blob_run (take 1) [BPut ''abc''] (new_mem_blobs 5)))))
     = Some ''xyz''"
proof -
  have ok: "blobs_ok (take 1) (blob_run (take 1) [BPut ''abc''] (new_mem_blobs 5))"
    using blob_run_inv [OF blobs_ok_new within_budget_new] by blast
  have "take 1 ''xyz'' \<notin> be_hash ` set (b_lru (blob_run (take 1) [BPut ''abc''] (new_mem_blobs 5)))"
    by (simp add: blob_run_def put_blob_def new_mem_blobs_def evict_loop.simps Let_def)
  from blob_put_evicts_lru [OF ok this] show ?thesis by simp
qed

end
