(* ===== verification/Store_WS.thy ===== *)
theory Store_WS
  imports Flow
begin

text \<open>
  \<open>internal/store/ws.go\<close>: the log of captured WebSocket messages. \<open>w_logs\<close> is the map from flow id to
  its entry and \<open>w_order\<close> the \<open>container/list\<close> of entries, oldest first, each named by its flow id
  (entries and ids correspond one to one). Each flow keeps its newest \<open>w_per_flow\<close> messages.
\<close>

section \<open>The struct and its methods\<close>

record ws_entry =
  we_msgs :: "ws_message list"
  we_bytes :: int
  we_dropped :: int

record ws_log =
  w_per_flow :: int
  w_budget :: int
  w_used :: int
  w_logs :: "(flow_id \<times> ws_entry) list"
  w_order :: "flow_id list"

definition new_ws_log :: "int \<Rightarrow> int \<Rightarrow> ws_log" where
  "new_ws_log per_flow budget =
     \<lparr>w_per_flow = (if per_flow \<le> 0 then 1000 else per_flow),
      w_budget = (if budget \<le> 0 then 64 * 2 ^ 20 else budget),
      w_used = 0, w_logs = [], w_order = []\<rparr>"

definition ws_size :: "ws_message \<Rightarrow> int" where
  "ws_size m = int (length (ws_payload m)) + 64"

definition entry_of :: "flow_id \<Rightarrow> ws_log \<Rightarrow> ws_entry" where
  "entry_of i w =
     (case map_of (w_logs w) i of None \<Rightarrow> \<lparr>we_msgs = [], we_bytes = 0, we_dropped = 0\<rparr> | Some e \<Rightarrow> e)"

definition ws_remove :: "flow_id \<Rightarrow> ws_log \<Rightarrow> ws_log" where
  "ws_remove i w =
     w\<lparr>w_order := remove1 i (w_order w),
       w_logs := map_del i (w_logs w),
       w_used := w_used w - we_bytes (entry_of i w)\<rparr>"

text \<open>The eviction loop of \<open>Add\<close>; \<open>cur\<close> is the flow the message was added to.\<close>

function ws_evict :: "flow_id \<Rightarrow> ws_log \<Rightarrow> ws_log" where
  "ws_evict cur w =
     (if w_budget w < w_used w \<and> 1 < length (w_order w) then
        (let oldest = hd (w_order w)
         in if oldest = cur then w else ws_evict cur (ws_remove oldest w))
      else w)"
  by pat_completeness auto
termination
proof (relation "measure (\<lambda>(cur, w). length (w_order w))", goal_cases)
  case (2 cur w oldest)
  then have "w_order w \<noteq> []" by auto
  with 2 show ?case by (cases "w_order w") (auto simp: ws_remove_def)
qed simp

declare ws_evict.simps [simp del]

definition push_msg :: "int \<Rightarrow> ws_message \<Rightarrow> ws_entry \<Rightarrow> ws_entry" where
  "push_msg per_flow m e =
     (let msgs = we_msgs e @ [m]; bytes = we_bytes e + ws_size m
      in if per_flow < int (length msgs)
         then \<lparr>we_msgs = tl msgs, we_bytes = bytes - ws_size (hd msgs), we_dropped = we_dropped e + 1\<rparr>
         else \<lparr>we_msgs = msgs, we_bytes = bytes, we_dropped = we_dropped e\<rparr>)"

text \<open>The first half of \<open>Add\<close>: the message is appended to its flow's entry, a new entry goes to the back.\<close>

definition ws_push :: "ws_message \<Rightarrow> ws_log \<Rightarrow> ws_log" where
  "ws_push m w =
     (let i = ws_flow_id m;
          known = (map_of (w_logs w) i \<noteq> None);
          e = entry_of i w;
          e' = push_msg (w_per_flow w) m e
      in w\<lparr>w_order := (if known then w_order w else w_order w @ [i]),
           w_logs := map_put i e' (w_logs w),
           w_used := w_used w + we_bytes e' - we_bytes e\<rparr>)"

definition ws_add :: "ws_message option \<Rightarrow> ws_log \<Rightarrow> ws_log" where
  "ws_add mo w =
     (case mo of None \<Rightarrow> w | Some m \<Rightarrow> ws_evict (ws_flow_id m) (ws_push m w))"

definition ws_messages :: "flow_id \<Rightarrow> int \<Rightarrow> ws_log \<Rightarrow> ws_message list" where
  "ws_messages i limit w =
     (case map_of (w_logs w) i of
        None \<Rightarrow> []
      | Some e \<Rightarrow>
          (let n = int (length (we_msgs e))
           in take (nat (if 0 < limit \<and> limit < n then limit else n)) (we_msgs e)))"

definition ws_dropped :: "flow_id \<Rightarrow> ws_log \<Rightarrow> int" where
  "ws_dropped i w = (case map_of (w_logs w) i of None \<Rightarrow> 0 | Some e \<Rightarrow> we_dropped e)"

definition ws_drop :: "flow_id \<Rightarrow> ws_log \<Rightarrow> ws_log" where
  "ws_drop i w = (if map_of (w_logs w) i = None then w else ws_remove i w)"

definition ws_clear :: "ws_log \<Rightarrow> ws_log" where
  "ws_clear w = w\<lparr>w_logs := [], w_order := [], w_used := 0\<rparr>"

definition ws_stats :: "ws_log \<Rightarrow> nat \<times> nat \<times> int" where
  "ws_stats w = (length (w_logs w), (\<Sum>p\<leftarrow>w_logs w. length (we_msgs (snd p))), w_used w)"

section \<open>The invariant\<close>

definition msgs_bytes :: "ws_message list \<Rightarrow> int" where
  "msgs_bytes ms = (\<Sum>m\<leftarrow>ms. ws_size m)"

definition entry_ok :: "int \<Rightarrow> flow_id \<Rightarrow> ws_entry \<Rightarrow> bool" where
  "entry_ok per_flow i e \<longleftrightarrow>
     we_bytes e = msgs_bytes (we_msgs e) \<and> int (length (we_msgs e)) \<le> per_flow \<and> 0 \<le> we_dropped e
     \<and> (\<forall>m \<in> set (we_msgs e). ws_flow_id m = i)"

definition logs_bytes :: "(flow_id \<times> ws_entry) list \<Rightarrow> int" where
  "logs_bytes ls = (\<Sum>p\<leftarrow>ls. we_bytes (snd p))"

definition ws_ok :: "ws_log \<Rightarrow> bool" where
  "ws_ok w \<longleftrightarrow>
     1 \<le> w_per_flow w \<and> keys_distinct (w_logs w) \<and> distinct (w_order w)
     \<and> set (w_order w) = fst ` set (w_logs w)
     \<and> (\<forall>p \<in> set (w_logs w). entry_ok (w_per_flow w) (fst p) (snd p))
     \<and> w_used w = logs_bytes (w_logs w)"

lemma msgs_bytes_simps [simp]:
  "msgs_bytes [] = 0" "msgs_bytes (m # ms) = ws_size m + msgs_bytes ms"
  "msgs_bytes (ms @ ns) = msgs_bytes ms + msgs_bytes ns"
  by (simp_all add: msgs_bytes_def)

lemma logs_bytes_simps [simp]:
  "logs_bytes [] = 0" "logs_bytes (p # ls) = we_bytes (snd p) + logs_bytes ls"
  by (simp_all add: logs_bytes_def)

lemma ws_ok_new: "ws_ok (new_ws_log per_flow budget)"
  by (auto simp: ws_ok_def new_ws_log_def)

lemma ws_ok_clear [inv_intros]: "ws_ok w \<Longrightarrow> ws_ok (ws_clear w)"
  by (simp add: ws_ok_def ws_clear_def)

lemma logs_bytes_put:
  "keys_distinct ls \<Longrightarrow>
     logs_bytes (map_put i e ls) = logs_bytes ls + we_bytes e
       - (case map_of ls i of None \<Rightarrow> 0 | Some e0 \<Rightarrow> we_bytes e0)"
proof (induction i e ls rule: map_put.induct)
  case (2 k v a b m)
  then show ?case
    by (auto split: option.splits)
qed simp

lemma logs_bytes_del:
  "keys_distinct ls \<Longrightarrow>
     logs_bytes (map_del i ls) = logs_bytes ls - (case map_of ls i of None \<Rightarrow> 0 | Some e0 \<Rightarrow> we_bytes e0)"
proof (induction ls)
  case Nil
  then show ?case by (simp add: map_del_def)
next
  case (Cons p ls)
  show ?case
  proof (cases "fst p = i")
    case True
    with Cons.prems have "map_of ls i = None" by (auto simp: map_of_eq_None_iff)
    with Cons True show ?thesis by (cases p) (simp add: map_del_def)
  next
    case False
    with Cons show ?thesis by (cases p) (simp add: map_del_def)
  qed
qed

lemma bytes_entry_of:
  "(case map_of (w_logs w) i of None \<Rightarrow> 0 | Some e0 \<Rightarrow> we_bytes e0) = we_bytes (entry_of i w)"
  by (simp add: entry_of_def split: option.splits)

lemma ws_ok_remove [inv_intros]: "ws_ok w \<Longrightarrow> ws_ok (ws_remove i w)"
  using logs_bytes_del [of "w_logs w" i] bytes_entry_of [of w i]
  by (auto simp: ws_ok_def ws_remove_def map_del_def)

lemma ws_ok_evict [inv_intros]: "ws_ok w \<Longrightarrow> ws_ok (ws_evict cur w)"
proof (induction cur w rule: ws_evict.induct)
  case (1 cur w)
  then show ?case
    by (subst ws_evict.simps) (auto simp: Let_def intro: ws_ok_remove)
qed

lemma entry_ok_entry_of: "ws_ok w \<Longrightarrow> entry_ok (w_per_flow w) i (entry_of i w)"
  by (auto simp: ws_ok_def entry_of_def entry_ok_def split: option.splits dest!: map_of_SomeD)

lemma entry_ok_push:
  assumes "1 \<le> per_flow" and "entry_ok per_flow (ws_flow_id m) e"
  shows "entry_ok per_flow (ws_flow_id m) (push_msg per_flow m e)"
  using assms
  by (cases "we_msgs e") (auto simp: entry_ok_def push_msg_def Let_def)

lemma ws_ok_push [inv_intros]:
  assumes ok: "ws_ok w"
  shows "ws_ok (ws_push m w)"
proof -
  let ?i = "ws_flow_id m"
  let ?e = "push_msg (w_per_flow w) m (entry_of ?i w)"
  have known: "map_of (w_logs w) ?i \<noteq> None \<longleftrightarrow> ?i \<in> set (w_order w)"
    using ok by (simp add: ws_ok_def map_of_eq_None_iff)
  have "entry_ok (w_per_flow w) ?i ?e"
    by (rule entry_ok_push) (use ok entry_ok_entry_of [OF ok] in \<open>simp_all add: ws_ok_def\<close>)
  moreover have "logs_bytes (map_put ?i ?e (w_logs w)) = w_used w + we_bytes ?e - we_bytes (entry_of ?i w)"
    using ok logs_bytes_put [of "w_logs w" ?i ?e] bytes_entry_of [of w ?i] by (simp add: ws_ok_def)
  ultimately show ?thesis
    using ok known unfolding ws_ok_def ws_push_def Let_def by (auto simp: map_put_in_set)
qed

lemma ws_ok_add [inv_intros]: "ws_ok w \<Longrightarrow> ws_ok (ws_add mo w)"
  by (auto simp: ws_add_def split: option.splits intro: ws_ok_evict ws_ok_push)

lemma ws_ok_drop [inv_intros]: "ws_ok w \<Longrightarrow> ws_ok (ws_drop i w)"
  by (simp add: ws_drop_def ws_ok_remove)

section \<open>What the eviction loop does\<close>

lemma map_of_remove: "map_of (w_logs (ws_remove i w)) = (map_of (w_logs w))(i := None)"
  by (simp add: ws_remove_def)

lemma ws_evict_frame:
  "w_budget (ws_evict cur w) = w_budget w \<and> w_per_flow (ws_evict cur w) = w_per_flow w
   \<and> map_of (w_logs (ws_evict cur w)) cur = map_of (w_logs w) cur
   \<and> (\<forall>j. map_of (w_logs (ws_evict cur w)) j \<in> {None, map_of (w_logs w) j})
   \<and> suffix (w_order (ws_evict cur w)) (w_order w)"
proof (induction cur w rule: ws_evict.induct)
  case (1 cur w)
  show ?case
  proof (cases "w_budget w < w_used w \<and> 1 < length (w_order w) \<and> hd (w_order w) \<noteq> cur")
    case True
    then have eq: "ws_evict cur w = ws_evict cur (ws_remove (hd (w_order w)) w)"
      by (subst ws_evict.simps) (simp add: Let_def)
    obtain x xs where order: "w_order w = x # xs" using True by (cases "w_order w") auto
    have "w_order (ws_remove (hd (w_order w)) w) = xs" by (simp add: ws_remove_def order)
    moreover have "w_budget (ws_remove (hd (w_order w)) w) = w_budget w"
      and "w_per_flow (ws_remove (hd (w_order w)) w) = w_per_flow w"
      by (simp_all add: ws_remove_def)
    ultimately show ?thesis
      using "1.IH" [OF _ refl] True order unfolding eq
      by (auto simp: map_of_remove suffix_Cons split: if_splits)
  next
    case False
    then have "ws_evict cur w = w" by (subst ws_evict.simps) (auto simp: Let_def)
    then show ?thesis by simp
  qed
qed

lemma ws_evict_budget:
  "w_used (ws_evict cur w) \<le> w_budget w \<or> length (w_order (ws_evict cur w)) \<le> 1
     \<or> hd (w_order (ws_evict cur w)) = cur"
proof (induction cur w rule: ws_evict.induct)
  case (1 cur w)
  show ?case
  proof (cases "w_budget w < w_used w \<and> 1 < length (w_order w) \<and> hd (w_order w) \<noteq> cur")
    case True
    then have "ws_evict cur w = ws_evict cur (ws_remove (hd (w_order w)) w)"
      by (subst ws_evict.simps) (simp add: Let_def)
    with "1.IH" [OF _ refl] True show ?thesis by (simp add: ws_remove_def)
  next
    case False
    then have "ws_evict cur w = w" by (subst ws_evict.simps) (auto simp: Let_def)
    with False show ?thesis by auto
  qed
qed

text \<open>The last \<open>k\<close> elements of a list.\<close>

definition last_n :: "nat \<Rightarrow> 'a list \<Rightarrow> 'a list" where
  "last_n k xs = drop (length xs - k) xs"

lemma push_msg_msgs:
  assumes "1 \<le> per_flow" and "int (length (we_msgs e)) \<le> per_flow"
  shows "we_msgs (push_msg per_flow m e) = last_n (nat per_flow) (we_msgs e @ [m])"
    and "we_dropped (push_msg per_flow m e) + int (length (we_msgs (push_msg per_flow m e)))
           = we_dropped e + int (length (we_msgs e)) + 1"
proof -
  have "Suc (length (we_msgs e)) - nat per_flow = (if per_flow < int (length (we_msgs e)) + 1 then 1 else 0)"
    using assms by auto
  then show "we_msgs (push_msg per_flow m e) = last_n (nat per_flow) (we_msgs e @ [m])"
    using assms by (auto simp: push_msg_def last_n_def Let_def drop_Suc tl_append split: list.splits)
  show "we_dropped (push_msg per_flow m e) + int (length (we_msgs (push_msg per_flow m e)))
           = we_dropped e + int (length (we_msgs e)) + 1"
    by (auto simp: push_msg_def Let_def)
qed

abbreviation flow_msgs :: "flow_id \<Rightarrow> ws_log \<Rightarrow> ws_message list" where
  "flow_msgs i w \<equiv> ws_messages i 0 w"

lemma flow_msgs_entry: "flow_msgs i w = we_msgs (entry_of i w)"
  by (simp add: ws_messages_def entry_of_def Let_def split: option.splits)

lemma ws_dropped_entry: "ws_dropped i w = we_dropped (entry_of i w)"
  by (simp add: ws_dropped_def entry_of_def split: option.splits)

lemma map_of_push:
  "map_of (w_logs (ws_push m w)) =
     (map_of (w_logs w))(ws_flow_id m \<mapsto> push_msg (w_per_flow w) m (entry_of (ws_flow_id m) w))"
  by (simp add: ws_push_def Let_def)

lemma w_budget_push [simp]: "w_budget (ws_push m w) = w_budget w"
  by (simp add: ws_push_def Let_def)

lemma map_of_add_same:
  "map_of (w_logs (ws_add (Some m) w)) (ws_flow_id m)
     = Some (push_msg (w_per_flow w) m (entry_of (ws_flow_id m) w))"
  using ws_evict_frame by (simp add: ws_add_def map_of_push)

lemma map_of_add_other:
  "j \<noteq> ws_flow_id m \<Longrightarrow>
     map_of (w_logs (ws_add (Some m) w)) j \<in> {None, map_of (w_logs w) j}"
  using ws_evict_frame [of "ws_flow_id m" "ws_push m w"]
  by (auto simp: ws_add_def map_of_push)

section \<open>Runs\<close>

datatype ws_op = WAdd "ws_message option" | WDrop flow_id | WClear

fun ws_step :: "ws_op \<Rightarrow> ws_log \<Rightarrow> ws_log" where
  "ws_step (WAdd m) w = ws_add m w"
| "ws_step (WDrop i) w = ws_drop i w"
| "ws_step WClear w = ws_clear w"

definition ws_run :: "ws_op list \<Rightarrow> ws_log \<Rightarrow> ws_log" where
  "ws_run cs w = fold ws_step cs w"

lemma ws_run_ok: "ws_ok w \<Longrightarrow> ws_ok (ws_run cs w)"
proof -
  have step: "ws_ok w \<Longrightarrow> ws_ok (ws_step c w)" for c w by (cases c) (auto intro: inv_intros)
  show "ws_ok w \<Longrightarrow> ws_ok (ws_run cs w)"
    unfolding ws_run_def by (induction cs arbitrary: w) (auto intro: step)
qed

section \<open>Properties\<close>

text \<open>In every state the log can reach, \<open>Stats\<close> is truthful (one map entry per flow in the eviction
  list, the byte counter is the sum over all messages held), no flow holds more than the per-flow
  cap, and every message is filed under its own flow.\<close>

theorem ws_log_invariant:
  fixes cs :: "ws_op list" and per_flow budget :: int
  defines "w \<equiv> ws_run cs (new_ws_log per_flow budget)"
  shows "snd (snd (ws_stats w)) = (\<Sum>p\<leftarrow>w_logs w. msgs_bytes (we_msgs (snd p)))
    \<and> fst (ws_stats w) = length (w_order w) \<and> distinct (w_order w)
    \<and> int (length (flow_msgs i w)) \<le> w_per_flow w \<and> 0 \<le> ws_dropped i w
    \<and> list_all (\<lambda>m. ws_flow_id m = i) (flow_msgs i w)"
proof -
  have ok: "ws_ok w" unfolding w_def by (rule ws_run_ok [OF ws_ok_new])
  have "logs_bytes (w_logs w) = (\<Sum>p\<leftarrow>w_logs w. msgs_bytes (we_msgs (snd p)))"
    using ok unfolding logs_bytes_def
    by (intro arg_cong [of _ _ sum_list] map_cong) (auto simp: ws_ok_def entry_ok_def)
  moreover have "length (w_logs w) = length (w_order w)"
    using ok distinct_card [of "w_order w"] distinct_card [of "List.map fst (w_logs w)"]
    by (simp add: ws_ok_def)
  ultimately show ?thesis
    using ok entry_ok_entry_of [OF ok, of i]
    by (auto simp: ws_ok_def entry_ok_def flow_msgs_entry ws_dropped_entry ws_stats_def list_all_iff)
qed

text \<open>\<open>Add\<close> keeps the newest messages of the flow it adds to (never that flow's own, whatever the
  budget), counts exactly the ones it drops to the cap, and treats every other flow as a whole: its
  messages are either untouched or all forgotten. Afterwards the log is within its budget, unless
  only one flow is left or the flow that was added to is the one that started logging earliest.\<close>

theorem ws_add_effect:
  fixes m :: ws_message
  assumes "ws_ok w"
  defines "w' \<equiv> ws_add (Some m) w" and "i \<equiv> ws_flow_id m"
  shows "flow_msgs i w' = last_n (nat (w_per_flow w)) (flow_msgs i w @ [m])
    \<and> ws_dropped i w' + int (length (flow_msgs i w')) = ws_dropped i w + int (length (flow_msgs i w)) + 1
    \<and> (j \<noteq> i \<longrightarrow> (flow_msgs j w' = flow_msgs j w \<and> ws_dropped j w' = ws_dropped j w)
                \<or> (flow_msgs j w' = [] \<and> ws_dropped j w' = 0))
    \<and> (w_used w' \<le> w_budget w \<or> length (w_order w') \<le> 1 \<or> hd (w_order w') = i)"
proof -
  have e: "entry_of i w' = push_msg (w_per_flow w) m (entry_of i w)"
    using map_of_add_same [of m w] unfolding w'_def i_def entry_of_def [of _ "ws_add (Some m) w"]
    by simp
  have "1 \<le> w_per_flow w" and "int (length (we_msgs (entry_of i w))) \<le> w_per_flow w"
    using assms(1) entry_ok_entry_of [OF assms(1), of i] by (simp_all add: ws_ok_def entry_ok_def)
  note push = push_msg_msgs [OF this, of m]
  have "w_used w' \<le> w_budget w \<or> length (w_order w') \<le> 1 \<or> hd (w_order w') = i"
    using ws_evict_budget [of i "ws_push m w"] by (simp add: w'_def i_def ws_add_def)
  moreover have "j \<noteq> i \<Longrightarrow> entry_of j w' = entry_of j w
      \<or> entry_of j w' = \<lparr>we_msgs = [], we_bytes = 0, we_dropped = 0\<rparr>"
    using map_of_add_other [of j m w] by (auto simp: entry_of_def w'_def i_def)
  ultimately show ?thesis
    using push by (auto simp: flow_msgs_entry ws_dropped_entry e)
qed

abbreviation demo_msg :: "flow_id \<Rightarrow> string \<Rightarrow> ws_message" where
  "demo_msg i p \<equiv> \<lparr>ws_flow_id = i, ws_seq = 0, ws_ts = 0, ws_dir = ''c2s'', ws_opcode = 1,
     ws_len = int (length p), ws_payload = p, ws_masked = False\<rparr>"

theorem ws_add_effect_witness:
  "flow_msgs 1 (ws_add (Some (demo_msg 1 ''a'')) (new_ws_log 2 100)) = [demo_msg 1 ''a'']"
  using ws_add_effect [OF ws_ok_new, of "demo_msg 1 ''a''" 2 100 1]
  by (simp add: new_ws_log_def ws_messages_def last_n_def)

text \<open>The byte budget is not a bound on the log as a whole: messages added to the flow that started
  logging first never evict the others, so two flows can hold more than the budget between them.\<close>

theorem ws_budget_not_enforced:
  "w_used (ws_run [WAdd (Some (demo_msg 1 [])), WAdd (Some (demo_msg 2 [])), WAdd (Some (demo_msg 1 []))]
             (new_ws_log 1000 130)) = 192
   \<and> length (w_order (ws_run [WAdd (Some (demo_msg 1 [])), WAdd (Some (demo_msg 2 [])),
             WAdd (Some (demo_msg 1 []))] (new_ws_log 1000 130))) = 2"
  by (simp add: ws_run_def new_ws_log_def ws_add_def ws_push_def entry_of_def push_msg_def ws_size_def Let_def
      ws_evict.simps)

end
