(* ===== verification/Rules_Match.thy ===== *)
theory Rules_Match
  imports Complex_Main Store_Filter Http
begin

text \<open>
  \<open>internal/rules/match.go\<close> and the rule types of \<open>internal/api/types.go\<close>: which exchanges a
  compiled rule selects. Go's \<open>regexp\<close>, \<open>text/template\<close>, \<open>net/url\<close> and \<open>encoding/json\<close> are reached
  through a record of functions, \<open>rule_lib\<close>; a compiled regexp or template is known by its source.
\<close>

section \<open>Types\<close>

text \<open>A Go \<open>float64\<close>: the exact value of a finite one, or one of the others. Comparisons with NaN are
  false.\<close>

datatype float64 = Fin rat | PosInf | NegInf | NaN

fun fl_less :: "float64 \<Rightarrow> rat \<Rightarrow> bool" where
  "fl_less (Fin q) r = (q < r)"
| "fl_less x r = (x = NegInf)"

fun fl_greater :: "float64 \<Rightarrow> rat \<Rightarrow> bool" where
  "fl_greater (Fin q) r = (r < q)"
| "fl_greater x r = (x = PosInf)"

text \<open>JSON values, numbers by their literal.\<close>

datatype json =
    JNull | JBool bool | JNum string | JStr string | JArr "json list" | JObj "(string \<times> json) list"

record template_data =
  td_host :: string
  td_path :: string
  td_method :: string
  td_status :: int
  td_body :: string
  td_header :: header

record rule_lib =
  rl_re_ok :: "string \<Rightarrow> bool"
  rl_re_match :: "string \<Rightarrow> string \<Rightarrow> bool"
  rl_re_replace :: "string \<Rightarrow> string \<Rightarrow> string \<Rightarrow> string"
  rl_tmpl_ok :: "string \<Rightarrow> bool"
  rl_tmpl_exec :: "string \<Rightarrow> template_data \<Rightarrow> string option"
  rl_url_parse :: "string \<Rightarrow> url option"
  rl_json_decode :: "string \<Rightarrow> json option"
  rl_json_encode :: "json \<Rightarrow> string"
  rl_gunzip :: "string \<Rightarrow> (string \<times> bool) option"
  rl_query_parse :: "string \<Rightarrow> (string \<times> string list) list"
  rl_query_encode :: "(string \<times> string list) list \<Rightarrow> string"

record match_spec =
  ms_host :: string
  ms_path :: string
  ms_method :: "string list"
  ms_scheme :: string
  ms_header :: "(string \<times> string) list"
  ms_status :: string
  ms_phase :: string

record action_spec =
  as_type :: string
  as_on :: string
  as_ms :: int
  as_jitter_ms :: int
  as_name :: string
  as_value :: string
  as_json_patch :: "(string \<times> json) list"
  as_regex :: string
  as_replace :: string
  as_template :: string
  as_status :: int
  as_headers :: "(string \<times> string) list"
  as_body :: string
  as_mode :: string
  as_upstream :: string
  as_preserve_host :: bool
  as_kbps :: int
  as_tags :: "string list"

text \<open>\<open>api.Rule\<close>; the probability is the exact value of the \<open>float64\<close>.\<close>

record rule_spec =
  rs_id :: string
  rs_name :: string
  rs_enabled :: "bool option"
  rs_priority :: int
  rs_match :: match_spec
  rs_actions :: "action_spec list"
  rs_prob :: float64
  rs_max_hits :: int
  rs_ttl :: int
  rs_expires :: gotime
  rs_hits :: int
  rs_created :: gotime

section \<open>Phases\<close>

text \<open>\<open>phaseMask\<close>, its request bit and its response bit.\<close>

type_synonym phase_mask = "bool \<times> bool"

definition ph_none :: phase_mask where "ph_none = (False, False)"
definition ph_request :: phase_mask where "ph_request = (True, False)"
definition ph_response :: phase_mask where "ph_response = (False, True)"
definition ph_both :: phase_mask where "ph_both = (True, True)"

definition ph_or :: "phase_mask \<Rightarrow> phase_mask \<Rightarrow> phase_mask" where
  "ph_or p q = (fst p \<or> fst q, snd p \<or> snd q)"

definition ph_and :: "phase_mask \<Rightarrow> phase_mask \<Rightarrow> phase_mask" where
  "ph_and p q = (fst p \<and> fst q, snd p \<and> snd q)"

definition ph_str :: "phase_mask \<Rightarrow> string" where
  "ph_str p =
     (if p = ph_request then ''request'' else if p = ph_response then ''response''
      else if p = ph_both then ''both'' else [])"

lemmas ph_defs = ph_none_def ph_request_def ph_response_def ph_both_def ph_or_def ph_and_def

section \<open>Matchers\<close>

datatype rule_invalid =
    Inv_source | Inv_preset string | Inv_param_unknown string string | Inv_param_required string string
  | Inv_param_type string string string | Inv_preset_on string
  | Inv_id_required | Inv_bad_id string | Inv_probability float64 | Inv_max_hits | Inv_ttl | Inv_expires_past
  | Inv_no_action | Inv_path_regexp string | Inv_scheme string | Inv_header_name | Inv_status string
  | Inv_phase string | Inv_status_phase string
  | Inv_action_phase nat string phase_mask phase_mask | Inv_action_type nat string | Inv_action_on nat string
  | Inv_action_side nat string string | Inv_delay_negative nat | Inv_delay_missing nat
  | Inv_name_missing nat string | Inv_rewrite_kind nat | Inv_rewrite_regex nat | Inv_rewrite_template nat
  | Inv_status_range nat string int | Inv_every_n nat | Inv_block_mode nat string | Inv_block_ms nat
  | Inv_redirect nat string | Inv_throttle nat | Inv_tags nat
  | Inv_resume_action string | Inv_resume_url string | Inv_resume_status int

datatype path_matcher = PathAny | PathPrefix string | PathGlob string | PathRegex string

definition regex_meta :: string where
  "regex_meta = ''^$.|?*+()[]{}'' @ [CHR 0x5C]"

definition inner :: "string \<Rightarrow> string" where
  "inner p = butlast (tl p)"

definition compile_path :: "rule_lib \<Rightarrow> string \<Rightarrow> rule_invalid + path_matcher" where
  "compile_path lib p =
     (if p = [] \<or> p = ''*'' then Inr PathAny
      else if 2 < length p \<and> hd p = CHR ''/'' \<and> last p = CHR ''/'' \<and> contains_any (inner p) regex_meta
      then (if rl_re_ok lib (inner p) then Inr (PathRegex (inner p)) else Inl (Inv_path_regexp p))
      else if is_pattern p then Inr (PathGlob p)
      else Inr (PathPrefix p))"

fun path_match :: "rule_lib \<Rightarrow> path_matcher \<Rightarrow> string \<Rightarrow> bool" where
  "path_match lib PathAny path = True"
| "path_match lib (PathPrefix p) path = has_prefix path p"
| "path_match lib (PathGlob p) path = glob_match p path"
| "path_match lib (PathRegex re) path = rl_re_match lib re path"

text \<open>A header matcher: canonical name and glob. \<open>hdr[h.name]\<close> looks the name up as it is.\<close>

definition header_match :: "string \<times> string \<Rightarrow> header \<Rightarrow> bool" where
  "header_match h hdr =
     (let (name, pattern) = h;
          vs = (case map_of hdr name of None \<Rightarrow> [] | Some vs \<Rightarrow> vs)
      in if vs = [] then False
         else if pattern = [] then True
         else glob_match pattern (if 1 < length vs then str_join '', '' vs else hd vs))"

text \<open>A compiled status expression: negated or not, and the ranges.\<close>

type_synonym status_fn = "bool \<times> (int \<times> int) list"

definition run_status :: "status_fn \<Rightarrow> int \<Rightarrow> bool" where
  "run_status fn code =
     (let (neg, spans) = fn
      in if list_ex (\<lambda>(lo, hi). lo \<le> code \<and> code \<le> hi) spans then \<not> neg else neg)"

definition status_span :: "string \<Rightarrow> (int \<times> int) option" where
  "status_span part0 =
     (let part = trim_space part0 in
      if length part = 3 \<and> has_suffix part ''xx''
      then (let d = ((of_char (hd part) :: int) - 48) mod 256
            in if d < 1 \<or> 5 < d then None else Some (d * 100, d * 100 + 99))
      else if str_contains part ''-''
      then (let (lo, hi, _) = str_cut (CHR ''-'') part
            in case (atoi (trim_space lo), atoi (trim_space hi)) of
                 (Some l, Some h) \<Rightarrow> if h < l \<or> l < 0 then None else Some (l, h)
               | _ \<Rightarrow> None)
      else (case atoi part of None \<Rightarrow> None | Some n \<Rightarrow> if n < 0 then None else Some (n, n)))"

fun status_spans :: "string list \<Rightarrow> (int \<times> int) list option" where
  "status_spans [] = Some []"
| "status_spans (p # ps) =
     (case status_span p of None \<Rightarrow> None | Some sp \<Rightarrow> map_option ((#) sp) (status_spans ps))"

definition rule_status :: "string \<Rightarrow> rule_invalid + status_fn option" where
  "rule_status spec =
     (let s = to_lower (trim_space spec) in
      if s = [] then Inr None
      else (case status_spans (str_split (CHR ''|'') (trim_prefix s ''!'')) of
              None \<Rightarrow> Inl (Inv_status spec)
            | Some spans \<Rightarrow> Inr (Some (has_prefix s ''!'', spans))))"

section \<open>Compiled rules\<close>

datatype action_type =
    ADelay | ASetHeader | ARemoveHeader | ASetQuery | ARewriteBody | AMock | AMockEveryN | ABlock
  | ARedirect | AThrottle | ABreakpoint | ATag

text \<open>The token bucket of a throttle; its \<open>float64\<close>s are exact numbers here.\<close>

record bucket =
  k_rate :: rat
  k_burst :: rat
  k_tokens :: rat
  k_last :: gotime

record action =
  a_spec :: action_spec
  a_typ :: action_type
  a_side :: phase_mask
  a_on :: phase_mask
  a_header_name :: string
  a_re :: "string option"
  a_tmpl :: "string option"
  a_upstream :: "url option"
  a_every :: int
  a_counter :: int
  a_bucket :: "bucket option"

text \<open>
  \<open>compiledRule\<close>. The two per-phase action lists of the code hold pointers into \<open>actions\<close>, so here
  they are positions: a counter or bucket shared by both phases is one.
\<close>

record compiled_rule =
  c_id :: string
  c_name :: string
  c_priority :: int
  c_created :: gotime
  c_expires :: gotime
  c_ttl :: int
  c_max_hits :: int
  c_prob :: float64
  c_phase :: phase_mask
  c_match :: match_spec
  c_host :: string
  c_host_has_port :: bool
  c_path :: path_matcher
  c_methods :: "string list"
  c_scheme :: string
  c_headers :: "(string \<times> string) list"
  c_status :: "status_fn option"
  c_actions :: "action list"
  c_req_actions :: "nat list"
  c_resp_actions :: "nat list"
  c_enabled :: bool
  c_hits :: int
  c_reaped :: bool

definition request_path :: "flow \<Rightarrow> request option \<Rightarrow> string" where
  "request_path f r = (case r of Some r \<Rightarrow> u_path (rq_url r) | None \<Rightarrow> fl_path f)"

definition rule_matches ::
  "rule_lib \<Rightarrow> compiled_rule \<Rightarrow> phase_mask \<Rightarrow> flow \<Rightarrow> request option \<Rightarrow> int \<Rightarrow> bool" where
  "rule_matches lib cr ph f r status =
     (let host = (if c_host_has_port cr then fl_host f @ '':'' @ itoa (fl_port f) else fl_host f);
          method = (case r of Some r \<Rightarrow> rq_method r | None \<Rightarrow> fl_method f);
          scheme = (case r of Some r \<Rightarrow> if u_scheme (rq_url r) \<noteq> [] then u_scheme (rq_url r) else fl_scheme f
                    | None \<Rightarrow> fl_scheme f);
          hdr = (case r of Some r \<Rightarrow> rq_header r | None \<Rightarrow> fl_req_headers f)
      in if c_host cr \<noteq> [] \<and> \<not> glob_match (c_host cr) host then False
         else if c_path cr \<noteq> PathAny \<and> \<not> path_match lib (c_path cr) (request_path f r) then False
         else if c_methods cr \<noteq> [] \<and> \<not> list_ex (\<lambda>m. equal_fold m method) (c_methods cr) then False
         else if c_scheme cr \<noteq> [] \<and> \<not> equal_fold (c_scheme cr) scheme then False
         else if \<not> list_all (\<lambda>h. header_match h hdr) (c_headers cr) then False
         else (case c_status cr of
                 None \<Rightarrow> True
               | Some fn \<Rightarrow> \<not> (ph \<noteq> ph_response \<or> \<not> run_status fn status)))"

section \<open>The two status languages agree\<close>

text \<open>Expressions the rule engine accepts, on top of what a filter accepts.\<close>

fun rule_status_ok :: "status_test \<Rightarrow> bool" where
  "rule_status_ok (StatusClass d) = (1 \<le> d \<and> d \<le> 5)"
| "rule_status_ok (StatusRange l h) = (0 \<le> l \<and> l \<le> h \<and> h \<le> int_max)"
| "rule_status_ok (StatusIs n) = (0 \<le> n \<and> n \<le> int_max)"

fun span_of :: "status_test \<Rightarrow> int \<times> int" where
  "span_of (StatusClass d) = (d * 100, d * 100 + 99)"
| "span_of (StatusRange l h) = (l, h)"
| "span_of (StatusIs n) = (n, n)"

lemma rule_status_ok_imp: "rule_status_ok t \<Longrightarrow> status_ok t"
  by (cases t) auto

lemma status_span_print:
  assumes "rule_status_ok t"
  shows "status_span (status_print t) = Some (span_of t)"
  using assms trim_space_print [OF rule_status_ok_imp [OF assms]]
  by (cases t) (simp_all add: status_span_def Let_def print_class print_range print_is in_int_nonneg suffix_xx)

lemma status_spans_print:
  "\<forall>t \<in> set ts. rule_status_ok t \<Longrightarrow> status_spans (List.map status_print ts) = Some (List.map span_of ts)"
  by (induction ts) (simp_all add: status_span_print)

lemma span_hit:
  assumes "rule_status_ok t"
  shows "(fst (span_of t) \<le> s \<and> s \<le> snd (span_of t)) \<longleftrightarrow> status_hit t s"
proof (cases t)
  case (StatusClass d)
  with assms have d: "1 \<le> d" by simp
  have "d * 100 \<le> s \<and> s \<le> d * 100 + 99 \<longleftrightarrow> go_div s 100 = d"
  proof (cases "0 < s")
    case True
    then have "go_div s 100 = s div 100" by (simp add: go_div_def)
    then show ?thesis by auto
  next
    case False
    then have "go_div s 100 \<le> 0" by (auto simp: go_div_def sgn_if)
    with False d show ?thesis by auto
  qed
  with StatusClass show ?thesis by simp
qed auto

text \<open>The rule engine and the flow filter read status expressions alike: every expression of the
  documented forms (classes 1xx to 5xx, ranges in order) is accepted by both and selects exactly the
  same statuses.\<close>

theorem status_languages_agree:
  fixes neg :: bool
  assumes "ts \<noteq> []" "\<forall>t \<in> set ts. rule_status_ok t"
  defines "spec \<equiv> (if neg then ''!'' else []) @ str_join ''|'' (List.map status_print ts)"
  shows "\<exists>fn g. rule_status spec = Inr (Some fn) \<and> status_matcher spec = Some g \<and> run_status fn = g
    \<and> (\<forall>s. g s = ((\<exists>t \<in> set ts. status_hit t s) \<noteq> neg))"
proof -
  have ok: "\<forall>t \<in> set ts. status_ok t" using assms(2) rule_status_ok_imp by blast
  let ?g = "\<lambda>s. (\<exists>t \<in> set ts. status_hit t s) \<noteq> neg"
  have g: "status_matcher spec = Some ?g"
    unfolding spec_def using status_part_prints [OF ok] assms(1)
    by (simp only: status_matcher_def status_spec_norm [OF assms(1) ok] Let_def if_False) (simp add: list_ex_iff)
  have r: "rule_status spec = Inr (Some (neg, List.map span_of ts))"
    unfolding spec_def
    by (simp only: rule_status_def status_spec_norm [OF assms(1) ok] Let_def if_False
        status_spans_print [OF assms(2)] option.case)
  have hit: "list_ex (\<lambda>(lo, hi). lo \<le> s \<and> s \<le> hi) (List.map span_of ts) \<longleftrightarrow> (\<exists>t \<in> set ts. status_hit t s)"
    for s
    using assms(2)
  proof (induction ts)
    case (Cons t ts)
    then show ?case using span_hit [of t s] by (simp add: split_beta)
  qed simp
  have "run_status (neg, List.map span_of ts) = ?g"
  proof
    show "run_status (neg, List.map span_of ts) s = ?g s" for s
      unfolding run_status_def Let_def prod.case hit by (cases neg) auto
  qed
  with g r show ?thesis by blast
qed

lemma status_languages_agree_witness:
  "rule_status ''!2xx|304'' \<noteq> Inr None \<and> the (status_matcher ''!2xx|304'') 500"
proof -
  have "str_join ''|'' (List.map status_print [StatusClass 2, StatusIs 304]) = ''2xx|304''" by code_simp
  then have "\<exists>fn g. rule_status ''!2xx|304'' = Inr (Some fn) \<and> status_matcher ''!2xx|304'' = Some g
      \<and> run_status fn = g \<and> (\<forall>s. g s = ((\<exists>t \<in> set [StatusClass 2, StatusIs 304]. status_hit t s) \<noteq> True))"
    using status_languages_agree [of "[StatusClass 2, StatusIs 304]" True] by (simp add: int_max_def)
  then obtain fn g where *: "rule_status ''!2xx|304'' = Inr (Some fn)" "status_matcher ''!2xx|304'' = Some g"
    and "g 500 = ((\<exists>t \<in> set [StatusClass 2, StatusIs 304]. status_hit t 500) \<noteq> True)" by blast
  then have "g 500" by (simp add: go_div_def)
  with * show ?thesis by simp
qed

end
