(* ===== verification/Rules_Compile.thy ===== *)
theory Rules_Compile
  imports Rules_Match
begin

text \<open>
  \<open>internal/rules/compile.go\<close>: validating a rule and compiling it. Each \<open>return nil, err\<close> is an
  \<open>Inl\<close>, in the order of the source; the map of header matchers is visited in list order. The
  lemmas say what every rule that compiles satisfies, and that compiling what \<open>view\<close> shows of a
  compiled rule gives that rule again, which \<open>Update\<close> and loading the persisted rules rest on.
\<close>

section \<open>Phases and action kinds\<close>

definition parse_phase :: "string \<Rightarrow> rule_invalid + phase_mask" where
  "parse_phase s =
     (let t = to_lower (trim_space s) in
      if t = [] then Inr ph_none
      else if t = ''request'' \<or> t = ''req'' then Inr ph_request
      else if t = ''response'' \<or> t = ''resp'' then Inr ph_response
      else if t = ''both'' then Inr ph_both
      else Inl (Inv_phase s))"

fun type_str :: "action_type \<Rightarrow> string" where
  "type_str ADelay = ''delay''"
| "type_str ASetHeader = ''set_header''"
| "type_str ARemoveHeader = ''remove_header''"
| "type_str ASetQuery = ''set_query''"
| "type_str ARewriteBody = ''rewrite_body''"
| "type_str AMock = ''mock''"
| "type_str AMockEveryN = ''mock_every_n''"
| "type_str ABlock = ''block''"
| "type_str ARedirect = ''redirect''"
| "type_str AThrottle = ''throttle''"
| "type_str ABreakpoint = ''breakpoint''"
| "type_str ATag = ''tag''"

definition action_types :: "action_type list" where
  "action_types =
     [ADelay, ASetHeader, ARemoveHeader, ASetQuery, ARewriteBody, AMock, AMockEveryN, ABlock,
      ARedirect, AThrottle, ABreakpoint, ATag]"

definition type_of_str :: "string \<Rightarrow> action_type option" where
  "type_of_str s = find (\<lambda>t. type_str t = s) action_types"

text \<open>\<open>actionKinds\<close>: the default side (none: wherever the rule is evaluated) and the allowed sides.\<close>

fun kind_def :: "action_type \<Rightarrow> phase_mask" where
  "kind_def ASetQuery = ph_request"
| "kind_def AMock = ph_request"
| "kind_def AMockEveryN = ph_request"
| "kind_def ABlock = ph_request"
| "kind_def ARedirect = ph_request"
| "kind_def AThrottle = ph_response"
| "kind_def _ = ph_none"

fun kind_allowed :: "action_type \<Rightarrow> phase_mask" where
  "kind_allowed ASetQuery = ph_request"
| "kind_allowed ARedirect = ph_request"
| "kind_allowed AThrottle = ph_response"
| "kind_allowed _ = ph_both"

section \<open>Actions\<close>

definition throttle_chunk :: nat where
  "throttle_chunk = 32 * 2 ^ 10"

definition new_bucket :: "rat \<Rightarrow> rat \<Rightarrow> gotime \<Rightarrow> bucket" where
  "new_bucket rate burst now = \<lparr>k_rate = rate, k_burst = burst, k_tokens = burst, k_last = now\<rparr>"

definition check_status :: "nat \<Rightarrow> string \<Rightarrow> int \<Rightarrow> rule_invalid + unit" where
  "check_status i typ s = check_that (s = 0 \<or> (100 \<le> s \<and> s \<le> 599)) (Inv_status_range i typ s)"

text \<open>The per-type part of \<open>compileAction\<close>: \<open>act\<close> carries the normalised specification in \<open>a_spec\<close>.\<close>

definition compile_typed :: "rule_lib \<Rightarrow> gotime \<Rightarrow> nat \<Rightarrow> action \<Rightarrow> rule_invalid + action" where
  "compile_typed lib now i act =
     (let a = a_spec act; typ = a_typ act in
      case typ of
        ADelay \<Rightarrow>
          and_then (check_that (0 \<le> as_ms a \<and> 0 \<le> as_jitter_ms a) (Inv_delay_negative i)) (\<lambda>_.
          and_then (check_that (as_ms a \<noteq> 0 \<or> as_jitter_ms a \<noteq> 0) (Inv_delay_missing i)) (\<lambda>_. Inr act))
      | ASetHeader \<Rightarrow>
          (let nm = trim_space (as_name a) in
           and_then (check_that (nm \<noteq> []) (Inv_name_missing i (type_str typ))) (\<lambda>_.
             Inr (act\<lparr>a_spec := a\<lparr>as_name := nm\<rparr>, a_header_name := canonical_key nm\<rparr>)))
      | ARemoveHeader \<Rightarrow>
          (let nm = trim_space (as_name a) in
           and_then (check_that (nm \<noteq> []) (Inv_name_missing i (type_str typ))) (\<lambda>_.
             Inr (act\<lparr>a_spec := a\<lparr>as_name := nm\<rparr>, a_header_name := canonical_key nm\<rparr>)))
      | ASetQuery \<Rightarrow>
          and_then (check_that (as_name a \<noteq> []) (Inv_name_missing i (type_str typ))) (\<lambda>_. Inr act)
      | ARewriteBody \<Rightarrow>
          (let n = (if as_json_patch a \<noteq> [] then 1 else 0) + (if as_regex a \<noteq> [] then 1 else 0)
                   + (if as_template a \<noteq> [] then 1 else (0 :: nat)) in
           and_then (check_that (n = 1) (Inv_rewrite_kind i)) (\<lambda>_.
           and_then (check_that (as_regex a = [] \<or> rl_re_ok lib (as_regex a)) (Inv_rewrite_regex i)) (\<lambda>_.
           and_then (check_that (as_template a = [] \<or> rl_tmpl_ok lib (as_template a)) (Inv_rewrite_template i)) (\<lambda>_.
             Inr (act\<lparr>a_re := (if as_regex a \<noteq> [] then Some (as_regex a) else None),
                      a_tmpl := (if as_template a \<noteq> [] then Some (as_template a) else None)\<rparr>)))))
      | AMock \<Rightarrow> and_then (check_status i (type_str typ) (as_status a)) (\<lambda>_. Inr act)
      | AMockEveryN \<Rightarrow>
          and_then (check_status i (type_str typ) (as_status a)) (\<lambda>_.
            (case atoi (trim_space (as_value a)) of
               Some n \<Rightarrow> if n < 1 then Inl (Inv_every_n i)
                         else Inr (act\<lparr>a_spec := a\<lparr>as_value := itoa n\<rparr>, a_every := n\<rparr>)
             | None \<Rightarrow> Inl (Inv_every_n i)))
      | ABlock \<Rightarrow>
          (let mode = to_lower (trim_space (as_mode a)); mode = (if mode = [] then ''status'' else mode) in
           and_then (check_that (mode = ''status'' \<or> mode = ''reset'' \<or> mode = ''timeout'') (Inv_block_mode i mode)) (\<lambda>_.
           and_then (check_that (0 \<le> as_ms a) (Inv_block_ms i)) (\<lambda>_.
           and_then (check_status i (type_str typ) (as_status a)) (\<lambda>_.
             Inr (act\<lparr>a_spec := a\<lparr>as_mode := mode\<rparr>\<rparr>)))))
      | ARedirect \<Rightarrow>
          (case rl_url_parse lib (trim_space (as_upstream a)) of
             Some u \<Rightarrow>
               if (u_scheme u = ''http'' \<or> u_scheme u = ''https'') \<and> u_host u \<noteq> []
               then Inr (act\<lparr>a_upstream := Some u\<rparr>) else Inl (Inv_redirect i (as_upstream a))
           | None \<Rightarrow> Inl (Inv_redirect i (as_upstream a)))
      | AThrottle \<Rightarrow>
          and_then (check_that (1 \<le> as_kbps a) (Inv_throttle i)) (\<lambda>_.
            Inr (act\<lparr>a_bucket := Some (new_bucket (of_int (as_kbps a) * 1024) (of_nat throttle_chunk) now)\<rparr>))
      | ABreakpoint \<Rightarrow> Inr act
      | ATag \<Rightarrow>
          (let tags = filter (\<lambda>t. t \<noteq> []) (List.map trim_space (as_tags a)) in
           and_then (check_that (tags \<noteq> []) (Inv_tags i)) (\<lambda>_. Inr (act\<lparr>a_spec := a\<lparr>as_tags := tags\<rparr>\<rparr>))))"

definition compile_action :: "rule_lib \<Rightarrow> gotime \<Rightarrow> nat \<Rightarrow> action_spec \<Rightarrow> rule_invalid + action" where
  "compile_action lib now i a0 =
     (let ty = to_lower (trim_space (as_type a0));
          ty = (if ty = ''hold'' then ''breakpoint'' else ty)
      in case type_of_str ty of
           None \<Rightarrow> Inl (Inv_action_type i (as_type a0))
         | Some typ \<Rightarrow>
             (let on = to_lower (trim_space (as_on a0));
                  a = a0\<lparr>as_type := ty, as_on := on\<rparr>
              in and_then (check_that (on = [] \<or> on = ''request'' \<or> on = ''response'') (Inv_action_on i on)) (\<lambda>_.
                 (let side = (if on = ''request'' then ph_request else if on = ''response'' then ph_response
                              else kind_def typ) in
                  and_then (check_that (on = [] \<or> ph_and side (kind_allowed typ) \<noteq> ph_none)
                              (Inv_action_side i ty on)) (\<lambda>_.
                    compile_typed lib now i
                      \<lparr>a_spec = a, a_typ = typ, a_side = side, a_on = ph_none, a_header_name = [], a_re = None,
                       a_tmpl = None, a_upstream = None, a_every = 0, a_counter = 0, a_bucket = None\<rparr>)))))"

fun compile_actions :: "rule_lib \<Rightarrow> gotime \<Rightarrow> nat \<Rightarrow> action_spec list \<Rightarrow> rule_invalid + action list" where
  "compile_actions lib now i [] = Inr []"
| "compile_actions lib now i (a # as) =
     and_then (compile_action lib now i a) (\<lambda>act.
     and_then (compile_actions lib now (Suc i) as) (\<lambda>acts. Inr (act # acts)))"

section \<open>Rules\<close>

fun compile_headers :: "(string \<times> string) list \<Rightarrow> rule_invalid + (string \<times> string) list" where
  "compile_headers [] = Inr []"
| "compile_headers ((name, pat) # hs) =
     (if trim_space name = [] then Inl Inv_header_name
      else and_then (compile_headers hs) (\<lambda>ms. Inr ((canonical_key (trim_space name), pat) # ms)))"

text \<open>The map \<open>m.Header\<close> keeps the pattern written last for a canonical name.\<close>

definition normal_headers :: "(string \<times> string) list \<Rightarrow> (string \<times> string) list" where
  "normal_headers ms = foldl (\<lambda>m (k, v). map_put k v m) [] ms"

definition derive_phase :: "phase_mask \<Rightarrow> action list \<Rightarrow> bool \<Rightarrow> phase_mask" where
  "derive_phase phase acts has_status =
     (let derived = foldl (\<lambda>p a. ph_or p (a_side a)) ph_none acts in
      if phase \<noteq> ph_none then phase
      else if derived \<noteq> ph_none then derived
      else if has_status then ph_response else ph_request)"

fun place_actions :: "phase_mask \<Rightarrow> nat \<Rightarrow> action list \<Rightarrow> rule_invalid + action list" where
  "place_actions phase i [] = Inr []"
| "place_actions phase i (act # acts) =
     (let on = (if a_side act = ph_none then phase else a_side act) in
      and_then (check_that (ph_and on phase \<noteq> ph_none) (Inv_action_phase i (type_str (a_typ act)) on phase)) (\<lambda>_.
      and_then (place_actions phase (Suc i) acts) (\<lambda>rest. Inr (act\<lparr>a_on := ph_and on phase\<rparr> # rest))))"

definition positions :: "(action \<Rightarrow> bool) \<Rightarrow> action list \<Rightarrow> nat list" where
  "positions P acts = filter (\<lambda>i. P (acts ! i)) [0..<length acts]"

text \<open>The compiled form, once everything is checked: normalised match, matchers, placed actions.\<close>

definition norm_host :: "match_spec \<Rightarrow> string" where
  "norm_host m = to_lower (trim_space (ms_host m))"

definition norm_methods :: "match_spec \<Rightarrow> string list" where
  "norm_methods m = filter (\<lambda>t. t \<noteq> []) (List.map (\<lambda>t. to_upper (trim_space t)) (ms_method m))"

definition norm_scheme :: "match_spec \<Rightarrow> string" where
  "norm_scheme m = to_lower (trim_space (ms_scheme m))"

definition build_rule ::
  "rule_spec \<Rightarrow> path_matcher \<Rightarrow> (string \<times> string) list \<Rightarrow> status_fn option \<Rightarrow> phase_mask \<Rightarrow> action list
    \<Rightarrow> compiled_rule" where
  "build_rule spec pm hs st phase acts =
     (let m = rs_match spec; host = norm_host m in
      \<lparr>c_id = rs_id spec, c_name = rs_name spec, c_priority = rs_priority spec,
       c_created = rs_created spec, c_expires = rs_expires spec, c_ttl = rs_ttl spec,
       c_max_hits = rs_max_hits spec, c_prob = rs_prob spec, c_phase = phase,
       c_match = \<lparr>ms_host = host, ms_path = trim_space (ms_path m), ms_method = norm_methods m,
                  ms_scheme = norm_scheme m, ms_header = normal_headers hs,
                  ms_status = trim_space (ms_status m), ms_phase = ph_str phase\<rparr>,
       c_host = (if host \<noteq> ''*'' then host else []),
       c_host_has_port = (host \<noteq> ''*'' \<and> CHR '':'' \<in> set host),
       c_path = pm, c_methods = norm_methods m, c_scheme = norm_scheme m, c_headers = sort_key fst hs,
       c_status = st, c_actions = acts,
       c_req_actions = positions (\<lambda>a. ph_and (a_on a) ph_request \<noteq> ph_none) acts,
       c_resp_actions = positions (\<lambda>a. ph_and (a_on a) ph_response \<noteq> ph_none) acts,
       c_enabled = (rs_enabled spec = None \<or> rs_enabled spec = Some True),
       c_hits = 0, c_reaped = False\<rparr>)"

text \<open>The code refuses a probability below 0 or above 1; neither holds of NaN.\<close>

definition prob_ok :: "float64 \<Rightarrow> bool" where
  "prob_ok p = (\<not> (fl_less p 0 \<or> fl_greater p 1))"

lemma prob_ok_Fin [simp]: "prob_ok (Fin q) \<longleftrightarrow> 0 \<le> q \<and> q \<le> 1" "prob_ok NaN"
  by (auto simp: prob_ok_def)

definition compile_rule :: "rule_lib \<Rightarrow> gotime \<Rightarrow> rule_spec \<Rightarrow> rule_invalid + compiled_rule" where
  "compile_rule lib now spec =
     and_then (check_that (rs_id spec \<noteq> []) Inv_id_required) (\<lambda>_.
     and_then (check_that (prob_ok (rs_prob spec)) (Inv_probability (rs_prob spec))) (\<lambda>_.
     and_then (check_that (0 \<le> rs_max_hits spec) Inv_max_hits) (\<lambda>_.
     and_then (check_that (0 \<le> rs_ttl spec) Inv_ttl) (\<lambda>_.
     and_then (check_that (rs_actions spec \<noteq> []) Inv_no_action) (\<lambda>_.
     (let m = rs_match spec; status = trim_space (ms_status m); scheme = norm_scheme m in
      and_then (compile_path lib (trim_space (ms_path m))) (\<lambda>pm.
      and_then (check_that (scheme = [] \<or> scheme = ''http'' \<or> scheme = ''https'') (Inv_scheme (ms_scheme m))) (\<lambda>_.
      and_then (compile_headers (ms_header m)) (\<lambda>hs.
      and_then (rule_status status) (\<lambda>st.
      and_then (parse_phase (ms_phase m)) (\<lambda>ph0.
      and_then (compile_actions lib now 0 (rs_actions spec)) (\<lambda>acts0.
      (let phase = derive_phase ph0 acts0 (status \<noteq> []) in
       and_then (check_that (st = None \<or> ph_and phase ph_response \<noteq> ph_none) (Inv_status_phase status)) (\<lambda>_.
       and_then (place_actions phase 0 acts0) (\<lambda>acts.
         Inr (build_rule spec pm hs st phase acts))))))))))))))))"

definition rule_view :: "compiled_rule \<Rightarrow> rule_spec" where
  "rule_view cr =
     \<lparr>rs_id = c_id cr, rs_name = c_name cr, rs_enabled = Some (c_enabled cr), rs_priority = c_priority cr,
      rs_match = c_match cr, rs_actions = List.map a_spec (c_actions cr), rs_prob = c_prob cr,
      rs_max_hits = c_max_hits cr, rs_ttl = c_ttl cr, rs_expires = c_expires cr, rs_hits = c_hits cr,
      rs_created = c_created cr\<rparr>"

section \<open>What a compiled rule satisfies\<close>

definition in_mask :: "phase_mask \<Rightarrow> phase_mask \<Rightarrow> bool" where
  "in_mask p q = (ph_and p q = p)"

definition is_web_url :: "url \<Rightarrow> bool" where
  "is_web_url u = ((u_scheme u = ''http'' \<or> u_scheme u = ''https'') \<and> u_host u \<noteq> [])"

text \<open>What the code that runs an action assumes of it.\<close>

definition action_ready :: "action \<Rightarrow> bool" where
  "action_ready act =
     (let a = a_spec act in
      case a_typ act of
        ADelay \<Rightarrow> 0 \<le> as_ms a \<and> 0 \<le> as_jitter_ms a \<and> 0 < as_ms a + as_jitter_ms a
      | ASetHeader \<Rightarrow> as_name a \<noteq> [] \<and> a_header_name act = canonical_key (as_name a)
      | ARemoveHeader \<Rightarrow> as_name a \<noteq> [] \<and> a_header_name act = canonical_key (as_name a)
      | ASetQuery \<Rightarrow> as_name a \<noteq> []
      | ARewriteBody \<Rightarrow>
          (as_json_patch a \<noteq> [] \<and> a_re act = None \<and> a_tmpl act = None)
          \<or> (as_json_patch a = [] \<and> a_re act \<noteq> None \<and> a_tmpl act = None)
          \<or> (as_json_patch a = [] \<and> a_re act = None \<and> a_tmpl act \<noteq> None)
      | AMock \<Rightarrow> as_status a = 0 \<or> (100 \<le> as_status a \<and> as_status a \<le> 599)
      | AMockEveryN \<Rightarrow> 1 \<le> a_every act \<and> (as_status a = 0 \<or> (100 \<le> as_status a \<and> as_status a \<le> 599))
      | ABlock \<Rightarrow> as_mode a \<in> set [''status'', ''reset'', ''timeout''] \<and> 0 \<le> as_ms a
          \<and> (as_status a = 0 \<or> (100 \<le> as_status a \<and> as_status a \<le> 599))
      | ARedirect \<Rightarrow> (case a_upstream act of None \<Rightarrow> False | Some u \<Rightarrow> is_web_url u)
      | AThrottle \<Rightarrow> (case a_bucket act of None \<Rightarrow> False | Some k \<Rightarrow> 1024 \<le> k_rate k)
      | ABreakpoint \<Rightarrow> True
      | ATag \<Rightarrow> as_tags a \<noteq> [] \<and> [] \<notin> set (as_tags a))"

definition rule_wf :: "compiled_rule \<Rightarrow> bool" where
  "rule_wf cr =
     (c_actions cr \<noteq> [] \<and> c_phase cr \<noteq> ph_none \<and> c_id cr \<noteq> []
      \<and> prob_ok (c_prob cr) \<and> 0 \<le> c_max_hits cr
      \<and> (c_status cr \<noteq> None \<longrightarrow> snd (c_phase cr))
      \<and> [] \<notin> set (c_methods cr)
      \<and> list_all (\<lambda>act. action_ready act \<and> a_on act \<noteq> ph_none \<and> in_mask (a_on act) (c_phase cr)
                        \<and> in_mask (a_on act) (kind_allowed (a_typ act))) (c_actions cr)
      \<and> (\<forall>i < length (c_actions cr).
            (i \<in> set (c_req_actions cr) \<longleftrightarrow> fst (a_on (c_actions cr ! i)))
            \<and> (i \<in> set (c_resp_actions cr) \<longleftrightarrow> snd (a_on (c_actions cr ! i))))
      \<and> set (c_req_actions cr) \<union> set (c_resp_actions cr) = {..<length (c_actions cr)}
      \<and> sorted (c_req_actions cr) \<and> distinct (c_req_actions cr)
      \<and> sorted (c_resp_actions cr) \<and> distinct (c_resp_actions cr))"

lemma compile_typed_ready:
  assumes "compile_typed lib now i act = Inr act'"
  shows "action_ready act'" "a_typ act' = a_typ act" "a_side act' = a_side act"
  using assms
  by (cases "a_typ act";
      fastforce simp: compile_typed_def action_ready_def and_then_Inr Let_def check_status_def is_web_url_def
        new_bucket_def split: option.splits if_splits)+

lemma side_allowed:
  assumes "compile_action lib now i a = Inr act"
  shows "action_ready act" "in_mask (a_side act) (kind_allowed (a_typ act))"
    and "a_side act = ph_none \<Longrightarrow> kind_allowed (a_typ act) = ph_both"
proof -
  let ?on = "to_lower (trim_space (as_on a))"
  obtain ty act0 where
    c: "compile_typed lib now i act0 = Inr act" "a_typ act0 = ty"
      "a_side act0 = (if ?on = ''request'' then ph_request else if ?on = ''response'' then ph_response
        else kind_def ty)"
    and side: "?on = [] \<or> ph_and (a_side act0) (kind_allowed ty) \<noteq> ph_none"
      "?on = [] \<or> ?on = ''request'' \<or> ?on = ''response''"
    using assms by (auto simp: compile_action_def and_then_Inr Let_def split: option.splits)
  note t = compile_typed_ready [OF c(1)]
  show "action_ready act" by (rule t)
  show "in_mask (a_side act) (kind_allowed (a_typ act))"
    using side c(2,3) t by (cases ty) (auto simp: in_mask_def ph_defs split: if_splits)
  show "kind_allowed (a_typ act) = ph_both" if "a_side act = ph_none"
    using that side c(2,3) t by (cases ty) (auto simp: ph_defs split: if_splits)
qed

lemma compile_actions_ok:
  "compile_actions lib now i as = Inr acts \<Longrightarrow>
     length acts = length as
     \<and> list_all (\<lambda>act. action_ready act \<and> in_mask (a_side act) (kind_allowed (a_typ act))
           \<and> (a_side act = ph_none \<longrightarrow> kind_allowed (a_typ act) = ph_both)) acts"
  by (induction as arbitrary: i acts) (auto simp: and_then_Inr dest: side_allowed)

lemma action_ready_on [simp]: "action_ready (act\<lparr>a_on := p\<rparr>) = action_ready act"
  by (simp add: action_ready_def split: action_type.split)

lemma place_actions_ok:
  "place_actions phase i acts = Inr acts' \<Longrightarrow>
     acts' = List.map (\<lambda>act. act\<lparr>a_on := ph_and (if a_side act = ph_none then phase else a_side act) phase\<rparr>) acts
     \<and> list_all (\<lambda>act. a_on act \<noteq> ph_none) acts'"
  by (induction acts arbitrary: i acts') (auto simp: and_then_Inr Let_def)

lemma compile_rule_ok:
  assumes "compile_rule lib now spec = Inr cr"
  shows "rule_wf cr"
proof -
  obtain pm hs st ph0 acts0 acts phase where
    a0: "compile_actions lib now 0 (rs_actions spec) = Inr acts0"
    and pl: "place_actions phase 0 acts0 = Inr acts"
    and basic: "rs_actions spec \<noteq> []" "prob_ok (rs_prob spec)" "0 \<le> rs_max_hits spec"
      "rs_id spec \<noteq> []" "st = None \<or> ph_and phase ph_response \<noteq> ph_none"
    and built: "cr = build_rule spec pm hs st phase acts"
    using assms unfolding compile_rule_def Let_def and_then_Inr check_that_Inr by blast
  have cr: "c_actions cr = acts" "c_phase cr = phase" "c_status cr = st" "c_prob cr = rs_prob spec"
    "c_max_hits cr = rs_max_hits spec" "c_id cr = rs_id spec" "[] \<notin> set (c_methods cr)"
      "c_req_actions cr = positions (\<lambda>a. ph_and (a_on a) ph_request \<noteq> ph_none) acts"
      "c_resp_actions cr = positions (\<lambda>a. ph_and (a_on a) ph_response \<noteq> ph_none) acts"
    by (simp_all add: built build_rule_def Let_def norm_methods_def)
  note oks = compile_actions_ok [OF a0] and pls = place_actions_ok [OF pl]
  have ne: "acts \<noteq> []" using oks pls basic(1) by auto
  have bits: "p \<noteq> ph_none \<longleftrightarrow> fst p \<or> snd p" "ph_and p ph_request \<noteq> ph_none \<longleftrightarrow> fst p"
    "ph_and p ph_response \<noteq> ph_none \<longleftrightarrow> snd p" for p :: phase_mask
    by (cases p; simp add: ph_defs)+
  have each: "action_ready act \<and> a_on act \<noteq> ph_none \<and> in_mask (a_on act) phase
      \<and> in_mask (a_on act) (kind_allowed (a_typ act))" if act: "act \<in> set acts" for act
  proof -
    obtain a where a: "a \<in> set acts0"
      "act = a\<lparr>a_on := ph_and (if a_side a = ph_none then phase else a_side a) phase\<rparr>"
      using act pls by auto
    then have *: "action_ready a" "in_mask (a_side a) (kind_allowed (a_typ a))"
      "a_side a = ph_none \<Longrightarrow> kind_allowed (a_typ a) = ph_both"
      using oks by (auto simp: list_all_iff)
    have on: "a_on act \<noteq> ph_none" using act pls by (auto simp: list_all_iff)
    have "in_mask (a_on act) phase" by (auto simp: a(2) in_mask_def ph_and_def)
    moreover have "in_mask (a_on act) (kind_allowed (a_typ act))"
      using *(2,3) by (cases "a_side a = ph_none") (auto simp: a(2) in_mask_def ph_defs prod_eq_iff)
    ultimately show ?thesis using * on a(2) by simp
  qed
  have "phase \<noteq> ph_none"
    using each [of "hd acts"] ne by (auto simp: in_mask_def ph_defs prod_eq_iff)
  have pos: "set (positions P acts) = {i. i < length acts \<and> P (acts ! i)}" "sorted (positions P acts)"
    "distinct (positions P acts)" for P
    by (auto simp: positions_def sorted_filter [where f = "\<lambda>x. x", simplified])
  have "fst (a_on (acts ! i)) \<or> snd (a_on (acts ! i))" if "i < length acts" for i
    using each [of "acts ! i"] that by (simp add: bits)
  then have "set (c_req_actions cr) \<union> set (c_resp_actions cr) = {..<length acts}"
    by (auto simp: cr pos bits(2,3))
  with ne \<open>phase \<noteq> ph_none\<close> basic each show ?thesis
    by (auto simp: rule_wf_def cr pos bits(2,3) list_all_iff)
qed

section \<open>Compiling the view of a rule gives the rule again\<close>

lemma type_str_all:
  "list_all (\<lambda>t. to_lower (trim_space (type_str t)) = type_str t \<and> type_str t \<noteq> ''hold''
      \<and> type_of_str (type_str t) = Some t) action_types"
  by code_simp

lemma in_action_types: "t \<in> set action_types"
  by (cases t) (simp_all add: action_types_def)

lemma type_str_facts:
  "to_lower (trim_space (type_str t)) = type_str t" "type_str t \<noteq> ''hold''" "type_of_str (type_str t) = Some t"
  using type_str_all in_action_types [of t] by (auto simp: list_all_iff)

lemma type_of_str_Some: "type_of_str s = Some t \<Longrightarrow> s = type_str t"
  by (auto simp: type_of_str_def find_Some_iff)

definition rebucket :: "gotime \<Rightarrow> action \<Rightarrow> action" where
  "rebucket now act = act\<lparr>a_bucket := map_option (\<lambda>k. k\<lparr>k_last := now\<rparr>) (a_bucket act)\<rparr>"

definition fresh_action :: "action_spec \<Rightarrow> action_type \<Rightarrow> phase_mask \<Rightarrow> action" where
  "fresh_action a ty sd =
     \<lparr>a_spec = a, a_typ = ty, a_side = sd, a_on = ph_none, a_header_name = [], a_re = None,
      a_tmpl = None, a_upstream = None, a_every = 0, a_counter = 0, a_bucket = None\<rparr>"

lemma fresh_action_simps [simp]:
  "a_spec (fresh_action a ty sd) = a" "a_typ (fresh_action a ty sd) = ty"
  "a_bucket (fresh_action a ty sd) = None"
  "(fresh_action a ty sd)\<lparr>a_spec := a'\<rparr> = fresh_action a' ty sd"
  by (simp_all add: fresh_action_def)

lemma rebucket_None [simp]: "a_bucket act = None \<Longrightarrow> rebucket now act = act"
  by (simp add: rebucket_def)

lemma parse_atoi_in_int: "atoi s = Some n \<Longrightarrow> in_int n"
  unfolding atoi_def Let_def by (auto split: option.splits if_splits prod.splits)

lemma filter_trim_idem:
  "filter (\<lambda>t. t \<noteq> []) (List.map trim_space (filter (\<lambda>t. t \<noteq> []) (List.map trim_space ts)))
    = filter (\<lambda>t. t \<noteq> []) (List.map trim_space ts)"
  by (induction ts) auto

text \<open>What each type's branch turns a fresh action into.\<close>

lemma compile_typed_result:
  assumes "compile_typed lib now i (fresh_action a ty sd) = Inr act"
  shows "(ty \<in> {ADelay, ASetQuery, AMock, ABreakpoint} \<and> act = fresh_action a ty sd)
    \<or> (ty \<in> {ASetHeader, ARemoveHeader} \<and> trim_space (as_name a) \<noteq> [] \<and>
       act = (fresh_action (a\<lparr>as_name := trim_space (as_name a)\<rparr>) ty sd)
               \<lparr>a_header_name := canonical_key (trim_space (as_name a))\<rparr>)
    \<or> (ty = ARewriteBody \<and>
       act = (fresh_action a ty sd)\<lparr>a_re := (if as_regex a \<noteq> [] then Some (as_regex a) else None),
               a_tmpl := (if as_template a \<noteq> [] then Some (as_template a) else None)\<rparr>)
    \<or> (ty = AMockEveryN \<and> (\<exists>n. atoi (trim_space (as_value a)) = Some n \<and> 1 \<le> n \<and>
       act = (fresh_action (a\<lparr>as_value := itoa n\<rparr>) ty sd)\<lparr>a_every := n\<rparr>))
    \<or> (ty = ABlock \<and> (\<exists>m \<in> {''status'', ''reset'', ''timeout''}. act = fresh_action (a\<lparr>as_mode := m\<rparr>) ty sd))
    \<or> (ty = ARedirect \<and> (\<exists>u. act = (fresh_action a ty sd)\<lparr>a_upstream := Some u\<rparr>))
    \<or> (ty = AThrottle \<and> act = (fresh_action a ty sd)
         \<lparr>a_bucket := Some (new_bucket (of_int (as_kbps a) * 1024) (of_nat throttle_chunk) now)\<rparr>)
    \<or> (ty = ATag \<and> filter (\<lambda>t. t \<noteq> []) (List.map trim_space (as_tags a)) \<noteq> [] \<and>
       act = fresh_action (a\<lparr>as_tags := filter (\<lambda>t. t \<noteq> []) (List.map trim_space (as_tags a))\<rparr>) ty sd)"
  using assms
  by (cases ty) (auto simp: compile_typed_def and_then_Inr Let_def simp del: filter_map
      split: option.splits if_splits)

lemma compile_typed_spec:
  assumes "compile_typed lib now i (fresh_action a ty sd) = Inr act"
  shows "as_type (a_spec act) = as_type a" "as_on (a_spec act) = as_on a"
  using compile_typed_result [OF assms] by auto

lemma mode_facts:
  "m \<in> {''status'', ''reset'', ''timeout''} \<Longrightarrow> to_lower (trim_space m) = m \<and> m \<noteq> []"
proof -
  have "list_all (\<lambda>m. to_lower (trim_space m) = m \<and> m \<noteq> []) [''status'', ''reset'', ''timeout'']" by code_simp
  then show "m \<in> {''status'', ''reset'', ''timeout''} \<Longrightarrow> to_lower (trim_space m) = m \<and> m \<noteq> []"
    by auto
qed

lemma compile_typed_again:
  assumes c: "compile_typed lib now i (fresh_action a ty sd) = Inr act"
  shows "compile_typed lib now' j (fresh_action (a_spec act) ty sd) = Inr (rebucket now' act)"
proof (cases ty)
  case AMockEveryN
  then obtain n where n: "atoi (trim_space (as_value a)) = Some n" "1 \<le> n"
    and act: "act = (fresh_action (a\<lparr>as_value := itoa n\<rparr>) ty sd)\<lparr>a_every := n\<rparr>"
    using compile_typed_result [OF c] by auto
  have "atoi (itoa n) = Some n" by (rule atoi_itoa [OF parse_atoi_in_int [OF n(1)]])
  moreover have "as_status a = 0 \<or> (100 \<le> as_status a \<and> as_status a \<le> 599)"
    using c AMockEveryN by (simp add: compile_typed_def and_then_Inr Let_def check_status_def)
  ultimately show ?thesis
    using n(2) by (simp add: act AMockEveryN compile_typed_def check_status_def check_that_def Let_def)
next
  case ABlock
  then obtain m where m: "m \<in> {''status'', ''reset'', ''timeout''}"
    and act: "act = fresh_action (a\<lparr>as_mode := m\<rparr>) ty sd"
    using compile_typed_result [OF c] by auto
  have "0 \<le> as_ms a" "as_status a = 0 \<or> (100 \<le> as_status a \<and> as_status a \<le> 599)"
    using c ABlock by (auto simp add: compile_typed_def and_then_Inr Let_def check_status_def)
  with m mode_facts [OF m] show ?thesis
    by (simp only: act ABlock compile_typed_def check_status_def check_that_def Let_def fresh_action_simps
        action_type.case action_spec.simps) (auto simp: ABlock)
next
  case ATag
  with c show ?thesis
    by (auto simp: compile_typed_def and_then_Inr Let_def filter_trim_idem simp del: filter_map)
next
  case AThrottle
  with c show ?thesis
    by (auto simp: compile_typed_def and_then_Inr Let_def rebucket_def new_bucket_def)
qed (use c in \<open>auto simp: compile_typed_def and_then_Inr Let_def check_status_def fresh_action_def
      split: option.splits if_splits\<close>)

lemma compile_action_again:
  assumes "compile_action lib now i a = Inr act"
  shows "compile_action lib now' j (a_spec act) = Inr (rebucket now' act)"
proof -
  let ?on = "to_lower (trim_space (as_on a))"
  obtain ty where
    c: "compile_typed lib now i (fresh_action (a\<lparr>as_type := type_str ty, as_on := ?on\<rparr>) ty
          (if ?on = ''request'' then ph_request else if ?on = ''response'' then ph_response else kind_def ty))
        = Inr act"
    and side: "?on = [] \<or> ph_and (if ?on = ''request'' then ph_request else if ?on = ''response'' then ph_response
        else kind_def ty) (kind_allowed ty) \<noteq> ph_none"
      "?on = [] \<or> ?on = ''request'' \<or> ?on = ''response''"
    using assms
    by (auto simp: compile_action_def and_then_Inr Let_def fresh_action_def dest!: type_of_str_Some
        split: option.splits)
  have spec: "as_type (a_spec act) = type_str ty" "as_on (a_spec act) = ?on"
    using compile_typed_spec [OF c] by simp_all
  have same: "(a_spec act)\<lparr>as_type := type_str ty, as_on := ?on\<rparr> = a_spec act"
    by (simp flip: spec)
  have on: "to_lower (trim_space ?on) = ?on" by simp
  show ?thesis
    using side compile_typed_again [OF c, of now' j]
    by (simp add: compile_action_def spec type_str_facts on same Let_def flip: fresh_action_def)
qed

lemma compile_actions_again:
  "compile_actions lib now i as = Inr acts \<Longrightarrow>
     compile_actions lib now' j (List.map a_spec acts) = Inr (List.map (rebucket now') acts)"
  by (induction as arbitrary: i j acts) (auto simp: and_then_Inr compile_action_again)

lemma parse_phase_str: "phase \<noteq> ph_none \<Longrightarrow> parse_phase (ph_str phase) = Inr phase"
proof -
  have "parse_phase ''request'' = Inr ph_request" "parse_phase ''response'' = Inr ph_response"
    "parse_phase ''both'' = Inr ph_both"
    by code_simp+
  then show "phase \<noteq> ph_none \<Longrightarrow> parse_phase (ph_str phase) = Inr phase"
    by (cases phase) (auto simp: ph_str_def ph_defs)
qed

lemma canon_bytes_no_space: "list_all is_token_byte s \<Longrightarrow> list_all (\<lambda>c. \<not> is_space c) s"
  by (auto simp: list_all_iff is_token_byte_def is_space_def is_digit_def)

lemma canonical_key_trimmed: "trim_space (canonical_key (trim_space s)) = canonical_key (trim_space s)"
  by (simp add: canonical_key_def trim_space_id canon_bytes_no_space token_canon_bytes)

lemma canonical_key_Nil [simp]: "canonical_key s = [] \<longleftrightarrow> s = []"
proof -
  have "canon_bytes up t = [] \<longleftrightarrow> t = []" for up t by (cases t) (simp_all add: Let_def)
  then show ?thesis by (simp add: canonical_key_def)
qed

text \<open>Header names as \<open>compileRule\<close> leaves them.\<close>

definition canon_name :: "string \<Rightarrow> bool" where
  "canon_name n = (n \<noteq> [] \<and> trim_space n = n \<and> canonical_key n = n)"

lemma canon_name_key: "trim_space n \<noteq> [] \<Longrightarrow> canon_name (canonical_key (trim_space n))"
  by (simp add: canon_name_def canonical_key_trimmed)

lemma compile_headers_canon: "compile_headers hs = Inr ms \<Longrightarrow> \<forall>k \<in> fst ` set ms. canon_name k"
proof (induction hs arbitrary: ms)
  case (Cons h hs)
  obtain n p where "h = (n, p)" by (cases h)
  with Cons.prems obtain ms' where "trim_space n \<noteq> []" "compile_headers hs = Inr ms'"
    "ms = (canonical_key (trim_space n), p) # ms'"
    by (auto simp: and_then_Inr split: if_splits)
  with Cons.IH canon_name_key show ?case by simp
qed simp

lemma compile_headers_again: "\<forall>k \<in> fst ` set ms. canon_name k \<Longrightarrow> compile_headers ms = Inr ms"
  by (induction ms) (auto simp: canon_name_def)

lemma foldl_put_keys:
  "fst ` set (foldl (\<lambda>m (k, v). map_put k v m) m ms) = fst ` set m \<union> fst ` set ms"
proof (induction ms arbitrary: m)
  case (Cons kv ms)
  obtain k v where kv: "kv = (k, v)" by (cases kv)
  have "fst ` set (foldl (\<lambda>m (k, v). map_put k v m) m (kv # ms)) = fst ` set (map_put k v m) \<union> fst ` set ms"
    using Cons.IH [of "map_put k v m"] by (simp add: kv)
  then show ?case by (simp add: kv)
qed simp

lemma foldl_put_distinct: "keys_distinct m \<Longrightarrow> keys_distinct (foldl (\<lambda>m (k, v). map_put k v m) m ms)"
  by (induction ms arbitrary: m) auto

lemma map_put_fresh: "k \<notin> fst ` set m \<Longrightarrow> map_put k v m = m @ [(k, v)]"
  by (induction k v m rule: map_put.induct) auto

lemma foldl_put_append:
  "keys_distinct (m @ ms) \<Longrightarrow> foldl (\<lambda>m (k, v). map_put k v m) m ms = m @ ms"
proof (induction ms arbitrary: m)
  case (Cons kv ms)
  obtain k v where kv: "kv = (k, v)" by (cases kv)
  with Cons.prems have "map_put k v m = m @ [(k, v)]" by (intro map_put_fresh) auto
  with Cons kv show ?case by simp
qed simp

lemma normal_headers_facts:
  "fst ` set (normal_headers ms) = fst ` set ms" "keys_distinct (normal_headers ms)"
  "keys_distinct ms \<Longrightarrow> normal_headers ms = ms"
  by (auto simp: normal_headers_def foldl_put_keys intro: foldl_put_distinct foldl_put_append [of "[]", simplified])

lemma place_actions_again:
  "place_actions phase i acts = Inr acts' \<Longrightarrow>
     place_actions phase j (List.map (rebucket now) acts) = Inr (List.map (rebucket now) acts')"
proof (induction acts arbitrary: i j acts')
  case (Cons act acts)
  have "(rebucket now act)\<lparr>a_on := p\<rparr> = rebucket now (act\<lparr>a_on := p\<rparr>)" for p
    by (simp add: rebucket_def)
  with Cons show ?case by (auto simp: and_then_Inr Let_def) (auto simp: rebucket_def)
qed simp

lemma place_actions_spec: "place_actions phase i acts = Inr acts' \<Longrightarrow> List.map a_spec acts' = List.map a_spec acts"
  by (induction acts arbitrary: i acts') (auto simp: and_then_Inr Let_def)

lemma norm_again:
  "ms_host m' = norm_host m \<Longrightarrow> norm_host m' = norm_host m"
  "ms_scheme m' = norm_scheme m \<Longrightarrow> norm_scheme m' = norm_scheme m"
  by (simp_all add: norm_host_def norm_scheme_def)

lemma norm_methods_again: "ms_method m' = norm_methods m \<Longrightarrow> norm_methods m' = norm_methods m"
proof -
  have "filter (\<lambda>t. t \<noteq> []) (List.map (\<lambda>t. to_upper (trim_space t))
      (filter (\<lambda>t. t \<noteq> []) (List.map (\<lambda>t. to_upper (trim_space t)) ts)))
    = filter (\<lambda>t. t \<noteq> []) (List.map (\<lambda>t. to_upper (trim_space t)) ts)" for ts
    by (induction ts) auto
  then show "ms_method m' = norm_methods m \<Longrightarrow> norm_methods m' = norm_methods m"
    unfolding norm_methods_def by simp
qed

lemma compile_view_again:
  assumes "compile_rule lib now spec = Inr cr"
  obtains hs where
    "compile_rule lib now' (rule_view (cr\<lparr>c_enabled := en, c_hits := n\<rparr>)) =
       Inr (cr\<lparr>c_enabled := en, c_headers := sort_key fst (normal_headers hs),
             c_actions := List.map (rebucket now') (c_actions cr)\<rparr>)"
    "c_headers cr = sort_key fst hs" "ms_header (c_match cr) = normal_headers hs"
proof -
  let ?m = "rs_match spec"
  obtain pm hs st ph0 acts0 acts where
    basic: "rs_id spec \<noteq> []" "prob_ok (rs_prob spec)" "0 \<le> rs_max_hits spec"
      "0 \<le> rs_ttl spec" "rs_actions spec \<noteq> []"
    and path: "compile_path lib (trim_space (ms_path ?m)) = Inr pm"
    and scheme: "norm_scheme ?m = [] \<or> norm_scheme ?m = ''http'' \<or> norm_scheme ?m = ''https''"
    and hs: "compile_headers (ms_header ?m) = Inr hs"
    and st: "rule_status (trim_space (ms_status ?m)) = Inr st"
    and a0: "compile_actions lib now 0 (rs_actions spec) = Inr acts0"
    and chk: "st = None \<or> ph_and (derive_phase ph0 acts0 (trim_space (ms_status ?m) \<noteq> [])) ph_response \<noteq> ph_none"
    and pl: "place_actions (derive_phase ph0 acts0 (trim_space (ms_status ?m) \<noteq> [])) 0 acts0 = Inr acts"
    and built: "cr = build_rule spec pm hs st (derive_phase ph0 acts0 (trim_space (ms_status ?m) \<noteq> [])) acts"
    using assms unfolding compile_rule_def Let_def and_then_Inr check_that_Inr by blast
  define phase where "phase = derive_phase ph0 acts0 (trim_space (ms_status ?m) \<noteq> [])"
  note defs = chk pl built
  note defs = defs [folded phase_def]
  have "rule_wf cr" by (rule compile_rule_ok [OF assms])
  then have ph: "phase \<noteq> ph_none" by (simp add: rule_wf_def defs(3) build_rule_def Let_def)
  let ?v = "rule_view (cr\<lparr>c_enabled := en, c_hits := n\<rparr>)"
  have v: "rs_id ?v = rs_id spec" "rs_name ?v = rs_name spec" "rs_prob ?v = rs_prob spec"
    "rs_max_hits ?v = rs_max_hits spec" "rs_ttl ?v = rs_ttl spec" "rs_priority ?v = rs_priority spec"
    "rs_expires ?v = rs_expires spec" "rs_created ?v = rs_created spec"
    "rs_actions ?v = List.map a_spec acts0" "rs_enabled ?v = Some en"
    "ms_path (rs_match ?v) = trim_space (ms_path ?m)" "ms_host (rs_match ?v) = norm_host ?m"
    "ms_method (rs_match ?v) = norm_methods ?m" "ms_scheme (rs_match ?v) = norm_scheme ?m"
    "ms_header (rs_match ?v) = normal_headers hs" "ms_status (rs_match ?v) = trim_space (ms_status ?m)"
    "ms_phase (rs_match ?v) = ph_str phase"
    using place_actions_spec [OF defs(2)]
    by (simp_all add: rule_view_def defs(3) build_rule_def Let_def)
  have norm: "norm_host (rs_match ?v) = norm_host ?m" "norm_scheme (rs_match ?v) = norm_scheme ?m"
    "norm_methods (rs_match ?v) = norm_methods ?m"
    by (rule norm_again norm_methods_again; simp add: v)+
  have h: "compile_headers (normal_headers hs) = Inr (normal_headers hs)"
    using compile_headers_canon [OF hs] by (intro compile_headers_again) (simp add: normal_headers_facts)
  have a: "compile_actions lib now' 0 (List.map a_spec acts0) = Inr (List.map (rebucket now') acts0)"
    by (rule compile_actions_again [OF a0])
  have p: "place_actions phase 0 (List.map (rebucket now') acts0) = Inr (List.map (rebucket now') acts)"
    by (rule place_actions_again [OF defs(2)])
  have ne: "acts0 \<noteq> []" using basic(5) compile_actions_ok [OF a0] by auto
  have again: "compile_rule lib now' ?v = Inr (build_rule ?v pm (normal_headers hs) st phase (List.map (rebucket now') acts))"
    using basic path scheme st defs(1) ne
    by (simp add: compile_rule_def v norm h a p parse_phase_str [OF ph] derive_phase_def ph Let_def)
  have on: "a_on (rebucket now' x) = a_on x" for x by (simp add: rebucket_def)
  have pos: "positions (\<lambda>a. P (a_on a)) (List.map (rebucket now') acts) = positions (\<lambda>a. P (a_on a)) acts" for P
    by (auto simp: positions_def on intro!: filter_cong)
  have eq: "build_rule ?v pm (normal_headers hs) st phase (List.map (rebucket now') acts)
      = cr\<lparr>c_enabled := en, c_headers := sort_key fst (normal_headers hs),
            c_actions := List.map (rebucket now') (c_actions cr)\<rparr>"
    using pos [of "\<lambda>p. ph_and p ph_request \<noteq> ph_none"] pos [of "\<lambda>p. ph_and p ph_response \<noteq> ph_none"]
    by (simp add: build_rule_def [of ?v] v norm normal_headers_facts Let_def)
       (simp add: defs(3) build_rule_def Let_def)
  have "c_headers cr = sort_key fst hs" "ms_header (c_match cr) = normal_headers hs"
    by (simp_all add: defs(3) build_rule_def Let_def)
  then show ?thesis by (rule that [OF again [unfolded eq]])
qed

section \<open>Properties\<close>

text \<open>Whatever a user submits, a rule that compiles is safe to run: it has an action, a phase and a
  probability neither below 0 nor above 1 (NaN is neither); every action runs in at least one phase, only in phases of the rule and on
  sides its type allows, and is listed for exactly those phases, in order; and each action carries what
  running it needs (a positive period for \<open>mock_every_n\<close>, an http(s) upstream for \<open>redirect\<close>, a bucket
  of positive rate for \<open>throttle\<close>, exactly one kind of body rewrite, statuses in range).\<close>

theorem compiled_rule_is_safe:
  assumes "compile_rule lib now spec = Inr cr"
  shows "rule_wf cr"
  by (rule compile_rule_ok [OF assms])

definition sample_lib :: rule_lib where
  "sample_lib = \<lparr>rl_re_ok = (\<lambda>_. True), rl_re_match = (\<lambda>re s. str_contains s re), rl_re_replace = (\<lambda>_ _ s. s),
     rl_tmpl_ok = (\<lambda>_. True), rl_tmpl_exec = (\<lambda>_ d. Some (td_body d)), rl_url_parse = (\<lambda>_. None),
     rl_json_decode = (\<lambda>_. None), rl_json_encode = (\<lambda>_. []), rl_gunzip = (\<lambda>_. None),
     rl_query_parse = (\<lambda>_. []), rl_query_encode = (\<lambda>_. [])\<rparr>"

definition sample_action :: "string \<Rightarrow> string \<Rightarrow> action_spec" where
  "sample_action ty val = \<lparr>as_type = ty, as_on = [], as_ms = 0, as_jitter_ms = 0, as_name = [], as_value = val,
     as_json_patch = [], as_regex = [], as_replace = [], as_template = [], as_status = 503, as_headers = [],
     as_body = [], as_mode = [], as_upstream = [], as_preserve_host = False, as_kbps = 64, as_tags = []\<rparr>"

definition sample_rule :: "string \<Rightarrow> int \<Rightarrow> action_spec list \<Rightarrow> rule_spec" where
  "sample_rule i n acts = \<lparr>rs_id = i, rs_name = [], rs_enabled = None, rs_priority = 0,
     rs_match = \<lparr>ms_host = '' API.example.com '', ms_path = ''/v1/'', ms_method = ['' post ''], ms_scheme = [],
                 ms_header = [], ms_status = [], ms_phase = []\<rparr>,
     rs_actions = acts, rs_prob = Fin 0, rs_max_hits = n, rs_ttl = 0, rs_expires = 0, rs_hits = 0, rs_created = 7\<rparr>"

definition sample_acts :: "action list" where
  "sample_acts =
     [(fresh_action ((sample_action ''mock_every_n'' ''3'')) AMockEveryN ph_request)\<lparr>a_every := 3, a_on := ph_request\<rparr>,
      (fresh_action (sample_action ''breakpoint'' []) ABreakpoint ph_none)\<lparr>a_on := ph_request\<rparr>]"

lemma sample_compiles:
  "compile_rule sample_lib 9 (sample_rule ''r1'' 2 [sample_action ''mock_every_n'' '' 3 '', sample_action ''hold'' []])
    = Inr (build_rule (sample_rule ''r1'' 2 [sample_action ''mock_every_n'' '' 3 '', sample_action ''hold'' []])
             (PathPrefix ''/v1/'') [] None ph_request sample_acts)"
proof -
  let ?as = "[sample_action ''mock_every_n'' '' 3 '', sample_action ''hold'' []]"
  have t: "to_lower (trim_space ''mock_every_n'') = ''mock_every_n''" "to_lower (trim_space ''hold'') = ''hold''"
    "atoi (trim_space '' 3 '') = Some 3" "trim_space [] = []" "trim_space ''/v1/'' = ''/v1/''"
    "contains_any ''v1'' regex_meta = False" "is_pattern ''/v1/'' = False"
    by code_simp+
  have d3: "digit_char 3 = CHR ''3''" by code_simp
  have ty: "type_of_str ''mock_every_n'' = Some AMockEveryN" "type_of_str ''breakpoint'' = Some ABreakpoint"
    using type_str_facts(3) [of AMockEveryN] type_str_facts(3) [of ABreakpoint] by simp_all
  have a: "compile_actions sample_lib 9 0 ?as = Inr
      [(fresh_action ((sample_action ''mock_every_n'' ''3'')) AMockEveryN ph_request)\<lparr>a_every := 3\<rparr>,
       fresh_action (sample_action ''breakpoint'' []) ABreakpoint ph_none]"
    by (simp add: compile_action_def sample_action_def t ty compile_typed_def check_status_def fresh_action_def
        itoa_def dec_digits.simps d3 Let_def)
  have p: "compile_path sample_lib ''/v1/'' = Inr (PathPrefix ''/v1/'')"
    by (simp add: compile_path_def inner_def t)
  have "derive_phase ph_none [(fresh_action ((sample_action ''mock_every_n'' ''3'')) AMockEveryN ph_request)\<lparr>a_every := 3\<rparr>,
       fresh_action (sample_action ''breakpoint'' []) ABreakpoint ph_none] False = ph_request"
    by (simp add: derive_phase_def fresh_action_def ph_defs)
  moreover have "place_actions ph_request 0
      [(fresh_action ((sample_action ''mock_every_n'' ''3'')) AMockEveryN ph_request)\<lparr>a_every := 3\<rparr>,
       fresh_action (sample_action ''breakpoint'' []) ABreakpoint ph_none] = Inr sample_acts"
    by (simp add: fresh_action_def ph_defs sample_acts_def Let_def)
  moreover have "rs_actions (sample_rule i n ?as) = ?as" "rs_id (sample_rule i n ?as) = i" "rs_prob (sample_rule i n ?as) = Fin 0"
    "rs_max_hits (sample_rule i n ?as) = n" "rs_ttl (sample_rule i n ?as) = 0"
    "ms_path (rs_match (sample_rule i n ?as)) = ''/v1/''" "ms_scheme (rs_match (sample_rule i n ?as)) = []"
    "ms_header (rs_match (sample_rule i n ?as)) = []" "ms_status (rs_match (sample_rule i n ?as)) = []"
    "ms_phase (rs_match (sample_rule i n ?as)) = []" for i n
    by (simp_all add: sample_rule_def)
  moreover have "rule_status [] = Inr None" "parse_phase [] = Inr ph_none"
    by (simp_all add: rule_status_def parse_phase_def t)
  ultimately show ?thesis
    by (simp add: compile_rule_def Let_def t p a norm_scheme_def del: place_actions.simps compile_actions.simps)
qed

lemma compiled_rule_is_safe_witness:
  "\<exists>cr. compile_rule sample_lib 9 (sample_rule ''r1'' 2 [sample_action ''mock_every_n'' '' 3 '', sample_action ''hold'' []])
      = Inr cr \<and> rule_wf cr"
  using compiled_rule_is_safe [OF sample_compiles] sample_compiles by blast

text \<open>A compiled rule survives being shown and compiled again, which is what \<open>Update\<close> and a restart do:
  whatever its enabled flag and hit count have become, compiling its \<open>view\<close> succeeds at any later
  time and yields a rule with the same view (its hits start at 0 until they are restored), the same
  actions on the same sides and phases, and the same matcher when its header names are distinct.\<close>

theorem rule_view_roundtrip:
  assumes "compile_rule lib now spec = Inr cr"
  shows "\<exists>cr'. compile_rule lib now' (rule_view (cr\<lparr>c_enabled := en, c_hits := n\<rparr>)) = Inr cr'
    \<and> rule_view cr' = (rule_view (cr\<lparr>c_enabled := en\<rparr>))\<lparr>rs_hits := c_hits cr'\<rparr> \<and> c_phase cr' = c_phase cr
    \<and> List.map (\<lambda>a. (a_typ a, a_on a, a_spec a)) (c_actions cr') = List.map (\<lambda>a. (a_typ a, a_on a, a_spec a)) (c_actions cr)
    \<and> (if distinct (List.map fst (c_headers cr)) then rule_matches lib cr' = rule_matches lib cr else True)"
proof -
  obtain hs where
    c: "compile_rule lib now' (rule_view (cr\<lparr>c_enabled := en, c_hits := n\<rparr>)) =
       Inr (cr\<lparr>c_enabled := en, c_headers := sort_key fst (normal_headers hs),
             c_actions := List.map (rebucket now') (c_actions cr)\<rparr>)"
    and hs: "c_headers cr = sort_key fst hs"
    using compile_view_again [OF assms] by blast
  have same: "rule_matches lib (cr\<lparr>c_enabled := en, c_headers := sort_key fst (normal_headers hs),
      c_actions := List.map (rebucket now') (c_actions cr)\<rparr>) = rule_matches lib cr"
    if "distinct (List.map fst (c_headers cr))"
  proof -
    have "mset (List.map fst (sort_key fst hs)) = mset (List.map fst hs)" by simp
    then have "keys_distinct hs" using that hs by (metis mset_eq_imp_distinct_iff)
    then have "sort_key fst (normal_headers hs) = c_headers cr" by (simp add: normal_headers_facts(3) hs)
    then show ?thesis by (simp add: rule_matches_def fun_eq_iff)
  qed
  let ?cr' = "cr\<lparr>c_enabled := en, c_headers := sort_key fst (normal_headers hs),
      c_actions := List.map (rebucket now') (c_actions cr)\<rparr>"
  have view: "rule_view ?cr' = (rule_view (cr\<lparr>c_enabled := en\<rparr>))\<lparr>rs_hits := c_hits ?cr'\<rparr>"
    "c_phase ?cr' = c_phase cr"
    "List.map (\<lambda>a. (a_typ a, a_on a, a_spec a)) (c_actions ?cr') = List.map (\<lambda>a. (a_typ a, a_on a, a_spec a)) (c_actions cr)"
    by (simp_all add: rule_view_def rebucket_def comp_def)
  show ?thesis
    by (rule exI [of _ ?cr'], intro conjI, rule c, rule view, rule view, rule view)
       (use same in \<open>simp only: simp_thms split: if_split, blast\<close>)
qed

lemma rule_view_roundtrip_witness:
  "\<exists>cr cr'. compile_rule sample_lib 9 (sample_rule ''r1'' 2 [sample_action ''mock_every_n'' '' 3 '', sample_action ''hold'' []])
      = Inr cr \<and> compile_rule sample_lib 20 (rule_view (cr\<lparr>c_enabled := False, c_hits := 2\<rparr>)) = Inr cr'"
  using sample_compiles rule_view_roundtrip [OF sample_compiles, where now' = 20 and en = False and n = 2] by blast

end
