(* ===== verification/Rules_Engine.thy ===== *)
theory Rules_Engine
  imports Rules_Compile
begin

text \<open>
  \<open>internal/rules/engine.go\<close> and the gates of \<open>apply.go\<close>. Compiled rules are mutable and shared: the
  map, the published snapshot and requests in flight hold pointers to them. So \<open>e_store\<close> is the list
  of all compiled rules ever made, a pointer is a position in it, and an update makes a new one and
  leaves the old in place. Goroutines started by the hot path are the list \<open>e_tasks\<close>, run by
  \<open>run_task\<close> whenever the schedule says. The rules file is \<open>e_file\<close>, the list of rules last written.
\<close>

unbundle bit_operations_syntax

section \<open>State\<close>

datatype rule_error = Invalid rule_invalid | NotFound string | Conflict string

text \<open>A goroutine to run: reap the rule at a position, or save.\<close>

datatype task = Reap nat | Save

record engine =
  e_persist :: bool
  e_hold_timeout :: duration
  e_store :: "compiled_rule list"
  e_rules :: "(string \<times> nat) list"
  e_all :: "nat list"
  e_req :: "nat list"
  e_resp :: "nat list"
  e_version :: "64 word"
  e_file :: "rule_spec list"
  e_tasks :: "task list"

definition default_hold_timeout :: duration where
  "default_hold_timeout = 120 * second"

section \<open>Evaluation order\<close>

definition time_compare :: "gotime \<Rightarrow> gotime \<Rightarrow> int" where
  "time_compare a b = (if a < b then -1 else if b < a then 1 else 0)"

definition rule_compare :: "compiled_rule \<Rightarrow> compiled_rule \<Rightarrow> int" where
  "rule_compare a b =
     (if c_priority a \<noteq> c_priority b then wrap_int (c_priority b - c_priority a)
      else let c = time_compare (c_created a) (c_created b)
           in if c \<noteq> 0 then c else str_compare (c_id a) (c_id b))"

text \<open>\<open>slices.SortFunc\<close>: for a strict order every correct sort gives this list.\<close>

fun insert_by :: "('a \<Rightarrow> 'a \<Rightarrow> int) \<Rightarrow> 'a \<Rightarrow> 'a list \<Rightarrow> 'a list" where
  "insert_by cmp x [] = [x]"
| "insert_by cmp x (y # ys) = (if cmp x y \<le> 0 then x # y # ys else y # insert_by cmp x ys)"

definition sort_func :: "('a \<Rightarrow> 'a \<Rightarrow> int) \<Rightarrow> 'a list \<Rightarrow> 'a list" where
  "sort_func cmp xs = foldr (insert_by cmp) xs []"

definition rebuild :: "engine \<Rightarrow> engine" where
  "rebuild e =
     (let all = sort_func (\<lambda>a b. rule_compare (e_store e ! a) (e_store e ! b)) (List.map snd (e_rules e))
      in e\<lparr>e_all := all,
           e_req := filter (\<lambda>a. c_req_actions (e_store e ! a) \<noteq> []) all,
           e_resp := filter (\<lambda>a. c_resp_actions (e_store e ! a) \<noteq> []) all,
           e_version := e_version e + 1\<rparr>)"

section \<open>Persistence\<close>

definition save :: "engine \<Rightarrow> engine" where
  "save e = (if e_persist e then e\<lparr>e_file := List.map (\<lambda>a. rule_view (e_store e ! a)) (e_all e)\<rparr> else e)"

text \<open>A new compiled rule under its id.\<close>

definition install :: "compiled_rule \<Rightarrow> engine \<Rightarrow> engine" where
  "install cr e =
     e\<lparr>e_store := e_store e @ [cr], e_rules := map_put (c_id cr) (length (e_store e)) (e_rules e)\<rparr>"

fun load :: "rule_lib \<Rightarrow> gotime \<Rightarrow> rule_spec list \<Rightarrow> engine \<Rightarrow> engine" where
  "load lib now [] e = e"
| "load lib now (spec # specs) e =
     load lib now specs
       (if rs_id spec = [] then e
        else if rs_expires spec \<noteq> 0 \<and> rs_expires spec \<le> now then e
        else case compile_rule lib now spec of
               Inl _ \<Rightarrow> e
             | Inr cr \<Rightarrow> install (cr\<lparr>c_hits := rs_hits spec\<rparr>) e)"

definition new_engine :: "rule_lib \<Rightarrow> gotime \<Rightarrow> bool \<Rightarrow> duration \<Rightarrow> rule_spec list \<Rightarrow> engine" where
  "new_engine lib now persist hold specs =
     (let e = \<lparr>e_persist = persist, e_hold_timeout = (if hold \<le> 0 then default_hold_timeout else hold),
               e_store = [], e_rules = [], e_all = [], e_req = [], e_resp = [], e_version = 0,
               e_file = specs, e_tasks = []\<rparr>
      in rebuild (if persist then load lib now specs e else e))"

section \<open>Reading\<close>

definition list_rules :: "engine \<Rightarrow> rule_spec list" where
  "list_rules e = List.map (\<lambda>a. rule_view (e_store e ! a)) (e_all e)"

definition get_rule :: "string \<Rightarrow> engine \<Rightarrow> rule_spec option" where
  "get_rule i e = map_option (\<lambda>a. rule_view (e_store e ! a)) (map_of (e_rules e) i)"

section \<open>Adding\<close>

definition valid_id :: "string \<Rightarrow> bool" where
  "valid_id i =
     (i \<noteq> [] \<and> length i \<le> 64
      \<and> list_all (\<lambda>c. is_digit c \<or> (97 \<le> (of_char c :: nat) \<and> (of_char c :: nat) \<le> 122)
                     \<or> (65 \<le> (of_char c :: nat) \<and> (of_char c :: nat) \<le> 90)
                     \<or> c = CHR ''_'' \<or> c = CHR ''-'' \<or> c = CHR ''.'') i)"

text \<open>\<open>randomID\<close> of five random bytes; the ids drawn until one is free.\<close>

definition random_id :: "8 word list \<Rightarrow> string" where
  "random_id bytes = ''r_'' @ List.map (\<lambda>b. id_alphabet ! unat (b AND 31)) bytes"

fun new_rule_id :: "(string \<times> nat) list \<Rightarrow> 8 word list list \<Rightarrow> string option" where
  "new_rule_id rules [] = None"
| "new_rule_id rules (bs # draws) =
     (if map_of rules (random_id bs) \<noteq> None then new_rule_id rules draws else Some (random_id bs))"

definition resolve_expiry :: "gotime \<Rightarrow> rule_spec \<Rightarrow> rule_invalid + rule_spec" where
  "resolve_expiry now spec =
     (if rs_ttl spec < 0 then Inl Inv_ttl
      else if 0 < rs_ttl spec then Inr (spec\<lparr>rs_expires := now + wrap_int (rs_ttl spec * second)\<rparr>)
      else if rs_expires spec \<noteq> 0 \<and> rs_expires spec \<le> now then Inl Inv_expires_past
      else Inr spec)"

record add_request =
  ar_rule :: "rule_spec option"
  ar_preset :: string
  ar_name :: string
  ar_ttl :: int

text \<open>The specification an add request asks for; \<open>expand\<close> expands the named preset with its parameters.\<close>

definition requested_rule :: "(string \<Rightarrow> rule_invalid + rule_spec) \<Rightarrow> add_request \<Rightarrow> rule_invalid + rule_spec" where
  "requested_rule expand req =
     (case ar_rule req of
        Some r \<Rightarrow> if ar_preset req \<noteq> [] then Inl Inv_source else Inr r
      | None \<Rightarrow> if ar_preset req \<noteq> [] then expand (ar_preset req) else Inl Inv_source)"

definition lift_invalid :: "rule_invalid + 'a \<Rightarrow> rule_error + 'a" where
  "lift_invalid x = (case x of Inl v \<Rightarrow> Inl (Invalid v) | Inr a \<Rightarrow> Inr a)"

text \<open>\<open>None\<close> while every random id drawn is taken.\<close>

definition add_rule ::
  "rule_lib \<Rightarrow> gotime \<Rightarrow> 8 word list list \<Rightarrow> (string \<Rightarrow> rule_invalid + rule_spec) \<Rightarrow> add_request \<Rightarrow> engine
    \<Rightarrow> ((rule_error + rule_spec) \<times> engine) option" where
  "add_rule lib now draws expand req e =
     (case requested_rule expand req of
        Inl v \<Rightarrow> Some (Inl (Invalid v), e)
      | Inr spec0 \<Rightarrow>
          (let spec1 = (if ar_name req \<noteq> [] then spec0\<lparr>rs_name := ar_name req\<rparr> else spec0);
               spec2 = (if 0 < ar_ttl req then spec1\<lparr>rs_ttl := ar_ttl req, rs_expires := 0\<rparr> else spec1);
               spec3 = spec2\<lparr>rs_created := now, rs_hits := 0\<rparr>
           in case resolve_expiry now spec3 of
                Inl v \<Rightarrow> Some (Inl (Invalid v), e)
              | Inr spec \<Rightarrow>
                  (case (if rs_id spec = [] then new_rule_id (e_rules e) draws else Some (rs_id spec)) of
                     None \<Rightarrow> None
                   | Some i \<Rightarrow>
                       Some (if rs_id spec \<noteq> [] \<and> \<not> valid_id i then (Inl (Invalid (Inv_bad_id i)), e)
                             else if rs_id spec \<noteq> [] \<and> map_of (e_rules e) i \<noteq> None then (Inl (Conflict i), e)
                             else case compile_rule lib now (spec\<lparr>rs_id := i\<rparr>) of
                                    Inl v \<Rightarrow> (Inl (Invalid v), e)
                                  | Inr cr \<Rightarrow> (Inr (rule_view cr), save (rebuild (install cr e)))))))"

section \<open>Changing and removing\<close>

record rule_patch =
  pt_enabled :: "bool option"
  pt_name :: string
  pt_rule :: "rule_spec option"

text \<open>The specification \<open>Update\<close> compiles.\<close>

definition patched_rule :: "gotime \<Rightarrow> compiled_rule \<Rightarrow> rule_patch \<Rightarrow> rule_invalid + rule_spec" where
  "patched_rule now old p =
     and_then
       (case pt_rule p of
          None \<Rightarrow> Inr (rule_view old)
        | Some r \<Rightarrow>
            (let next = r\<lparr>rs_id := c_id old, rs_created := c_created old, rs_hits := c_hits old,
                          rs_name := (if rs_name r = [] then c_name old else rs_name r),
                          rs_enabled := (if rs_enabled r = None then Some (c_enabled old) else rs_enabled r)\<rparr>
             in if rs_ttl next = 0 \<and> rs_expires next = 0
                then Inr (next\<lparr>rs_ttl := c_ttl old, rs_expires := c_expires old\<rparr>)
                else resolve_expiry now next))
       (\<lambda>spec.
          (let spec = (if pt_name p \<noteq> [] then spec\<lparr>rs_name := pt_name p\<rparr> else spec)
           in Inr (if pt_enabled p \<noteq> None then spec\<lparr>rs_enabled := pt_enabled p\<rparr> else spec)))"

definition update_rule ::
  "rule_lib \<Rightarrow> gotime \<Rightarrow> string \<Rightarrow> rule_patch \<Rightarrow> engine \<Rightarrow> (rule_error + rule_spec) \<times> engine" where
  "update_rule lib now i p e =
     (case map_of (e_rules e) i of
        None \<Rightarrow> (Inl (NotFound i), e)
      | Some a \<Rightarrow>
          (let old = e_store e ! a in
           case and_then (patched_rule now old p) (compile_rule lib now) of
             Inl v \<Rightarrow> (Inl (Invalid v), e)
           | Inr cr \<Rightarrow>
               (let hits = (if c_enabled cr \<and> \<not> c_enabled old \<and> 0 < c_max_hits cr \<and> c_max_hits cr \<le> c_hits old
                            then 0 else c_hits old);
                    cr = cr\<lparr>c_hits := hits\<rparr>
                in (Inr (rule_view cr),
                    save (rebuild (e\<lparr>e_store := e_store e @ [cr],
                                     e_rules := map_put i (length (e_store e)) (e_rules e)\<rparr>))))))"

definition remove_rule :: "string \<Rightarrow> engine \<Rightarrow> (rule_error + unit) \<times> engine" where
  "remove_rule i e =
     (if map_of (e_rules e) i = None then (Inl (NotFound i), e)
      else (Inr (), save (rebuild (e\<lparr>e_rules := map_del i (e_rules e)\<rparr>))))"

definition remove_all :: "engine \<Rightarrow> nat \<times> engine" where
  "remove_all e = (length (e_rules e), save (rebuild (e\<lparr>e_rules := []\<rparr>)))"

section \<open>The hot path's gates\<close>

definition set_rule :: "nat \<Rightarrow> (compiled_rule \<Rightarrow> compiled_rule) \<Rightarrow> engine \<Rightarrow> engine" where
  "set_rule a g e = e\<lparr>e_store := (e_store e)[a := g (e_store e ! a)]\<rparr>"

definition disable :: "nat \<Rightarrow> engine \<Rightarrow> engine" where
  "disable a e =
     (if \<not> c_enabled (e_store e ! a) then e
      else let e1 = set_rule a (\<lambda>cr. cr\<lparr>c_enabled := False\<rparr>) e
           in e1\<lparr>e_version := e_version e1 + 1,
                 e_tasks := (if e_persist e1 then e_tasks e1 @ [Save] else e_tasks e1)\<rparr>)"

definition reap :: "nat \<Rightarrow> engine \<Rightarrow> engine" where
  "reap a e =
     (if c_reaped (e_store e ! a) then e
      else let e1 = set_rule a (\<lambda>cr. cr\<lparr>c_reaped := True\<rparr>) e in e1\<lparr>e_tasks := e_tasks e1 @ [Reap a]\<rparr>)"

fun run_task :: "task \<Rightarrow> engine \<Rightarrow> engine" where
  "run_task (Reap a) e =
     (let i = c_id (e_store e ! a)
      in save (if map_of (e_rules e) i = Some a then rebuild (e\<lparr>e_rules := map_del i (e_rules e)\<rparr>) else e))"
| "run_task Save e = save e"

definition eligible :: "gotime \<Rightarrow> nat \<Rightarrow> engine \<Rightarrow> bool \<times> engine" where
  "eligible now a e =
     (let cr = e_store e ! a in
      if \<not> c_enabled cr then (False, e)
      else if c_expires cr \<noteq> 0 \<and> c_expires cr \<le> now then (False, reap a e)
      else (True, e))"

text \<open>\<open>draw\<close> is the random number in [0,1).\<close>

definition fire :: "rat \<Rightarrow> nat \<Rightarrow> engine \<Rightarrow> bool \<times> engine" where
  "fire draw a e =
     (let cr = e_store e ! a; p = c_prob cr in
      if fl_greater p 0 \<and> fl_less p 1 \<and> \<not> fl_greater p draw then (False, e)
      else let n = c_hits cr + 1;
               e1 = set_rule a (\<lambda>cr. cr\<lparr>c_hits := n\<rparr>) e
           in if 0 < c_max_hits cr
              then if c_max_hits cr < n then (False, set_rule a (\<lambda>cr. cr\<lparr>c_hits := n - 1\<rparr>) e1)
                   else if n = c_max_hits cr then (True, disable a e1)
                   else (True, e1)
              else (True, e1))"

section \<open>The order is a linear order on keys\<close>

datatype rule_key = RuleKey (key_priority: int) (key_created: int) (key_id: string)

instantiation rule_key :: linorder
begin

definition less_eq_rule_key :: "rule_key \<Rightarrow> rule_key \<Rightarrow> bool" where
  "less_eq_rule_key a b =
     (key_priority b < key_priority a
      \<or> (key_priority a = key_priority b
          \<and> (key_created a < key_created b
              \<or> (key_created a = key_created b \<and> key_id a \<le> key_id b))))"

definition less_rule_key :: "rule_key \<Rightarrow> rule_key \<Rightarrow> bool" where
  "less_rule_key a b = (a \<le> b \<and> \<not> b \<le> a)"

instance
proof
  fix x y z :: rule_key
  show "x < y \<longleftrightarrow> x \<le> y \<and> \<not> y \<le> x" by (rule less_rule_key_def)
  show "x \<le> x" by (simp add: less_eq_rule_key_def)
  show "x \<le> y \<Longrightarrow> y \<le> z \<Longrightarrow> x \<le> z" by (auto simp: less_eq_rule_key_def)
  show "x \<le> y \<Longrightarrow> y \<le> x \<Longrightarrow> x = y" by (cases x; cases y) (auto simp: less_eq_rule_key_def)
  show "x \<le> y \<or> y \<le> x" by (auto simp: less_eq_rule_key_def)
qed

end

definition key_of :: "compiled_rule \<Rightarrow> rule_key" where
  "key_of cr = RuleKey (c_priority cr) (c_created cr) (c_id cr)"

text \<open>Priorities whose differences fit in an \<open>int\<close>.\<close>

definition modest :: "int \<Rightarrow> bool" where
  "modest p = (- (2 ^ 62) \<le> p \<and> p < 2 ^ 62)"

lemma wrap_int_id: "in_int n \<Longrightarrow> wrap_int n = n"
  by (auto simp: wrap_int_def in_int_def int_min_def int_max_def)

lemma rule_compare_key:
  assumes "modest (c_priority a)" "modest (c_priority b)"
  shows "rule_compare a b \<le> 0 \<longleftrightarrow> key_of a \<le> key_of b"
proof -
  have "in_int (c_priority b - c_priority a)"
    using assms by (simp add: modest_def in_int_def int_min_def int_max_def)
  then show ?thesis
    by (auto simp: rule_compare_def wrap_int_id key_of_def less_eq_rule_key_def time_compare_def
        str_compare_def Let_def)
qed

lemma sort_func_key:
  assumes "\<forall>x \<in> set xs. \<forall>y \<in> set xs. cmp x y \<le> 0 \<longleftrightarrow> (k x :: 'b :: linorder) \<le> k y"
  shows "sort_func cmp xs = sort_key k xs"
proof -
  have ins: "\<forall>y \<in> set ys. cmp x y \<le> 0 \<longleftrightarrow> k x \<le> k y \<Longrightarrow> insert_by cmp x ys = insort_key k x ys" for x ys
    by (induction ys) auto
  show ?thesis
    using assms
  proof (induction xs)
    case Nil
    then show ?case by (simp add: sort_func_def)
  next
    case (Cons x xs)
    then have "sort_func cmp (x # xs) = insert_by cmp x (sort_key k xs)"
      by (simp add: sort_func_def)
    also have "\<dots> = insort_key k x (sort_key k xs)" using Cons.prems by (intro ins) simp
    finally show ?case by simp
  qed
qed

lemma set_insert_by [simp]: "set (insert_by cmp x ys) = insert x (set ys)"
  by (induction ys) auto

lemma mset_insert_by [simp]: "mset (insert_by cmp x ys) = add_mset x (mset ys)"
  by (induction ys) auto

lemma mset_sort_func [simp]: "mset (sort_func cmp xs) = mset xs"
  by (induction xs) (simp_all add: sort_func_def)

lemma set_sort_func [simp]: "set (sort_func cmp xs) = set xs"
  by (metis mset_sort_func set_mset_mset)

lemma distinct_sort_func [simp]: "distinct (sort_func cmp xs) = distinct xs"
  by (metis mset_sort_func mset_eq_imp_distinct_iff)

section \<open>The invariant\<close>

text \<open>A compiled rule as it evolves: only its enabled flag, counters and buckets change.\<close>

definition from_spec :: "rule_lib \<Rightarrow> compiled_rule \<Rightarrow> bool" where
  "from_spec lib cr =
     (\<exists>now spec base. compile_rule lib now spec = Inr base
        \<and> rule_view cr = rule_view (base\<lparr>c_enabled := c_enabled cr, c_hits := c_hits cr\<rparr>)
        \<and> (c_req_actions cr = []) = (c_req_actions base = []) \<and> (c_resp_actions cr = []) = (c_resp_actions base = []))"

definition snapshot_ok :: "engine \<Rightarrow> bool" where
  "snapshot_ok e =
     (e_all e = sort_func (\<lambda>a b. rule_compare (e_store e ! a) (e_store e ! b)) (List.map snd (e_rules e))
      \<and> e_req e = filter (\<lambda>a. c_req_actions (e_store e ! a) \<noteq> []) (e_all e)
      \<and> e_resp e = filter (\<lambda>a. c_resp_actions (e_store e ! a) \<noteq> []) (e_all e))"

fun task_ok :: "nat \<Rightarrow> task \<Rightarrow> bool" where
  "task_ok n (Reap a) = (a < n)"
| "task_ok n Save = True"

lemma task_ok_mono: "task_ok n t \<Longrightarrow> n \<le> n' \<Longrightarrow> task_ok n' t"
  by (cases t) auto

definition rules_ok :: "rule_lib \<Rightarrow> engine \<Rightarrow> bool" where
  "rules_ok lib e =
     (keys_distinct (e_rules e)
      \<and> (\<forall>(i, a) \<in> set (e_rules e). a < length (e_store e) \<and> c_id (e_store e ! a) = i)
      \<and> (\<forall>cr \<in> set (e_store e). from_spec lib cr)
      \<and> list_all (task_ok (length (e_store e))) (e_tasks e))"

definition engine_ok :: "rule_lib \<Rightarrow> engine \<Rightarrow> bool" where
  "engine_ok lib e = (rules_ok lib e \<and> snapshot_ok e)"

lemma rules_okD:
  assumes "rules_ok lib e"
  shows "keys_distinct (e_rules e)"
    and "map_of (e_rules e) i = Some a \<Longrightarrow> a < length (e_store e) \<and> c_id (e_store e ! a) = i"
    and "a < length (e_store e) \<Longrightarrow> from_spec lib (e_store e ! a)"
  using assms by (auto simp: rules_ok_def dest: map_of_SomeD)

lemma rebuild_fields [simp]:
  "e_store (rebuild e) = e_store e" "e_rules (rebuild e) = e_rules e" "e_tasks (rebuild e) = e_tasks e"
  "e_persist (rebuild e) = e_persist e" "e_file (rebuild e) = e_file e"
  by (simp_all add: rebuild_def Let_def)

lemma save_fields [simp]:
  "e_store (save e) = e_store e" "e_rules (save e) = e_rules e" "e_tasks (save e) = e_tasks e"
  "e_persist (save e) = e_persist e" "e_all (save e) = e_all e" "e_req (save e) = e_req e" "e_resp (save e) = e_resp e"
  by (simp_all add: save_def)

lemma rebuild_ok: "rules_ok lib e \<Longrightarrow> engine_ok lib (rebuild e)"
  by (simp add: engine_ok_def rules_ok_def snapshot_ok_def rebuild_def Let_def)

lemma save_ok [simp]: "engine_ok lib (save e) = engine_ok lib e"
  by (simp add: engine_ok_def rules_ok_def snapshot_ok_def)

lemma rules_ok_grow:
  assumes "rules_ok lib e" "from_spec lib cr"
  shows "rules_ok lib (e\<lparr>e_store := e_store e @ [cr]\<rparr>)"
  using assms by (fastforce simp: rules_ok_def nth_append list_all_iff intro: task_ok_mono)

lemma set_map_put_cases: "x \<in> set (map_put k v m) \<Longrightarrow> x = (k, v) \<or> x \<in> set m"
  by (induction k v m rule: map_put.induct) (auto split: if_splits)

lemma install_rules_ok:
  assumes "rules_ok lib e" "from_spec lib cr" "c_id cr = i"
  shows "rules_ok lib (e\<lparr>e_store := e_store e @ [cr], e_rules := map_put i (length (e_store e)) (e_rules e)\<rparr>)"
proof -
  let ?e = "e\<lparr>e_store := e_store e @ [cr]\<rparr>"
  have g: "rules_ok lib ?e" by (rule rules_ok_grow [OF assms(1,2)])
  then show ?thesis
    using assms(3) keys_distinct_put [of "e_rules e" i "length (e_store e)"]
    by (auto simp: rules_ok_def dest!: set_map_put_cases)
qed

lemma from_spec_compiled: "compile_rule lib now spec = Inr cr \<Longrightarrow> from_spec lib (cr\<lparr>c_hits := n\<rparr>)"
  unfolding from_spec_def by (rule exI [of _ now], rule exI [of _ spec], rule exI [of _ cr]) (simp add: rule_view_def)

lemma compiled_id: "compile_rule lib now spec = Inr cr \<Longrightarrow> c_id cr = rs_id spec"
  unfolding compile_rule_def Let_def and_then_Inr check_that_Inr
  by (elim exE conjE) (auto simp: build_rule_def Let_def)

lemma from_spec_again:
  assumes "from_spec lib cr"
  obtains cr' where "compile_rule lib now (rule_view cr) = Inr cr'" "c_hits cr' = 0 \<or> True"
    "rule_view (cr'\<lparr>c_hits := c_hits cr\<rparr>) = rule_view cr"
proof -
  obtain now0 spec base where base: "compile_rule lib now0 spec = Inr base"
    and v: "rule_view cr = rule_view (base\<lparr>c_enabled := c_enabled cr, c_hits := c_hits cr\<rparr>)"
    using assms by (auto simp: from_spec_def)
  obtain hs where c: "compile_rule lib now (rule_view (base\<lparr>c_enabled := c_enabled cr, c_hits := c_hits cr\<rparr>)) =
       Inr (base\<lparr>c_enabled := c_enabled cr, c_headers := sort_key fst (normal_headers hs),
             c_actions := List.map (rebucket now) (c_actions base)\<rparr>)"
    using compile_view_again [OF base] by blast
  show ?thesis
    using c v by (intro that [of "base\<lparr>c_enabled := c_enabled cr, c_headers := sort_key fst (normal_headers hs),
             c_actions := List.map (rebucket now) (c_actions base)\<rparr>"])
      (simp_all add: rule_view_def rebucket_def comp_def)
qed

section \<open>Every operation keeps the invariant\<close>

text \<open>Changing a rule in place touches neither its identity nor which phases it acts in.\<close>

lemma set_rule_simps [simp]:
  "e_rules (set_rule a g e) = e_rules e" "e_tasks (set_rule a g e) = e_tasks e"
  "length (e_store (set_rule a g e)) = length (e_store e)" "e_persist (set_rule a g e) = e_persist e"
  "e_all (set_rule a g e) = e_all e" "e_file (set_rule a g e) = e_file e"
  by (simp_all add: set_rule_def)

lemma set_rule_ok:
  assumes ok: "engine_ok lib e"
    and g: "\<And>cr. from_spec lib cr \<Longrightarrow> from_spec lib (g cr)"
    and same: "\<And>cr. c_id (g cr) = c_id cr \<and> c_priority (g cr) = c_priority cr \<and> c_created (g cr) = c_created cr
      \<and> c_req_actions (g cr) = c_req_actions cr \<and> c_resp_actions (g cr) = c_resp_actions cr"
  shows "engine_ok lib (set_rule a g e)"
proof -
  let ?s = "(e_store e)[a := g (e_store e ! a)]"
  have nth: "P (?s ! b) = P (e_store e ! b)" if "\<And>cr. P (g cr) = P cr" for P :: "compiled_rule \<Rightarrow> 'x" and b
    using that by (cases "a < length (e_store e)") (auto simp: nth_list_update list_update_beyond)
  have fields: "c_id (?s ! b) = c_id (e_store e ! b)" "c_priority (?s ! b) = c_priority (e_store e ! b)"
    "c_created (?s ! b) = c_created (e_store e ! b)" "c_req_actions (?s ! b) = c_req_actions (e_store e ! b)"
    "c_resp_actions (?s ! b) = c_resp_actions (e_store e ! b)" for b
    by (rule nth; simp add: same)+
  have cmp: "rule_compare (?s ! x) (?s ! y) = rule_compare (e_store e ! x) (e_store e ! y)" for x y
    by (simp add: rule_compare_def Let_def fields)
  have mem: "from_spec lib cr" if "cr \<in> set ?s" for cr
  proof -
    have all: "\<forall>cr \<in> set (e_store e). from_spec lib cr" using ok by (simp add: engine_ok_def rules_ok_def)
    show ?thesis
    proof (cases "a < length (e_store e)")
      case True
      then have "from_spec lib (g (e_store e ! a))" using all by (intro g) simp
      moreover have "cr = g (e_store e ! a) \<or> cr \<in> set (e_store e)"
        using that set_update_subset_insert [of "e_store e" a "g (e_store e ! a)"] by blast
      ultimately show ?thesis using all by blast
    next
      case False
      with that all show ?thesis by (simp add: list_update_beyond)
    qed
  qed
  have sets: "e_store (set_rule a g e) = ?s" "e_req (set_rule a g e) = e_req e" "e_resp (set_rule a g e) = e_resp e"
    by (simp_all add: set_rule_def)
  note okD = ok [unfolded engine_ok_def rules_ok_def snapshot_ok_def]
  have "\<forall>cr \<in> set ?s. from_spec lib cr" using mem by blast
  with okD have "rules_ok lib (set_rule a g e)"
    by (simp only: rules_ok_def sets set_rule_simps fields length_list_update) simp
  moreover have "snapshot_ok (set_rule a g e)"
    using okD by (simp only: snapshot_ok_def sets set_rule_simps fields cmp)
  ultimately show ?thesis by (simp only: engine_ok_def)
qed

lemma from_spec_flags [intro]:
  "from_spec lib cr \<Longrightarrow> from_spec lib (cr\<lparr>c_hits := n\<rparr>)"
  "from_spec lib cr \<Longrightarrow> from_spec lib (cr\<lparr>c_enabled := b\<rparr>)"
  "from_spec lib cr \<Longrightarrow> from_spec lib (cr\<lparr>c_reaped := b\<rparr>)"
  by (auto simp: from_spec_def rule_view_def)

lemma set_hits_ok: "engine_ok lib e \<Longrightarrow> engine_ok lib (set_rule a (\<lambda>cr. cr\<lparr>c_hits := n\<rparr>) e)"
  by (rule set_rule_ok) auto

lemma engine_ok_tasks:
  "engine_ok lib e \<Longrightarrow> task_ok (length (e_store e)) t \<Longrightarrow> engine_ok lib (e\<lparr>e_tasks := e_tasks e @ [t]\<rparr>)"
  "engine_ok lib e \<Longrightarrow> list_all (task_ok (length (e_store e))) ts \<Longrightarrow>
     engine_ok lib (e\<lparr>e_version := v, e_tasks := e_tasks e @ ts\<rparr>)"
  by (auto simp: engine_ok_def rules_ok_def snapshot_ok_def)

lemma disable_ok [inv_intros]: "engine_ok lib e \<Longrightarrow> engine_ok lib (disable a e)"
proof -
  assume ok: "engine_ok lib e"
  let ?e1 = "set_rule a (\<lambda>cr. cr\<lparr>c_enabled := False\<rparr>) e"
  have e1: "engine_ok lib ?e1" by (rule set_rule_ok [OF ok]) auto
  show ?thesis
    using ok engine_ok_tasks(2) [OF e1, of "if e_persist e then [Save] else []" "e_version ?e1 + 1"]
    by (cases "e_persist e") (simp_all add: disable_def Let_def)
qed

lemma reap_ok [inv_intros]: "engine_ok lib e \<Longrightarrow> a < length (e_store e) \<Longrightarrow> engine_ok lib (reap a e)"
proof -
  assume ok: "engine_ok lib e" and a: "a < length (e_store e)"
  have "engine_ok lib (set_rule a (\<lambda>cr. cr\<lparr>c_reaped := True\<rparr>) e)" by (rule set_rule_ok [OF ok]) auto
  then show ?thesis
    using ok a engine_ok_tasks(1) [of lib "set_rule a (\<lambda>cr. cr\<lparr>c_reaped := True\<rparr>) e" "Reap a"]
    by (simp add: reap_def Let_def)
qed

lemma eligible_ok [inv_intros]:
  "engine_ok lib e \<Longrightarrow> a < length (e_store e) \<Longrightarrow> engine_ok lib (snd (eligible now a e))"
  by (simp add: eligible_def Let_def reap_ok)

lemma fire_ok [inv_intros]: "engine_ok lib e \<Longrightarrow> engine_ok lib (snd (fire draw a e))"
  by (simp add: fire_def Let_def set_hits_ok disable_ok)

lemma rules_ok_del: "rules_ok lib e \<Longrightarrow> rules_ok lib (e\<lparr>e_rules := map_del i (e_rules e)\<rparr>)"
  by (auto simp: rules_ok_def map_del_def intro: keys_distinct_filter)

lemma run_task_ok [inv_intros]: "engine_ok lib e \<Longrightarrow> engine_ok lib (run_task t e)"
  by (cases t) (auto simp: Let_def engine_ok_def [of _ e] intro!: rebuild_ok rules_ok_del)

lemma compiled_from_spec: "compile_rule lib now spec = Inr cr \<Longrightarrow> from_spec lib cr"
  using from_spec_compiled [of lib now spec cr "c_hits cr"] by simp

lemma new_rule_id_fresh: "new_rule_id rules draws = Some i \<Longrightarrow> map_of rules i = None"
  by (induction draws) (auto split: if_splits)

text \<open>An add either fails and changes nothing, or installs one compiled rule under an id not in use.\<close>

lemma add_rule_cases:
  assumes "add_rule lib now draws expand req e = Some (r, e')"
  obtains err where "r = Inl err" "e' = e"
  | spec cr where "compile_rule lib now spec = Inr cr" "r = Inr (rule_view cr)" "rs_created spec = now"
      "map_of (e_rules e) (c_id cr) = None" "e' = save (rebuild (install cr e))"
proof (cases "requested_rule expand req")
  case (Inl v)
  with assms show ?thesis by (intro that(1)) (auto simp: add_rule_def)
next
  case (Inr spec0)
  define spec1 where "spec1 = (if ar_name req \<noteq> [] then spec0\<lparr>rs_name := ar_name req\<rparr> else spec0)"
  define spec3 where "spec3 = (if 0 < ar_ttl req then spec1\<lparr>rs_ttl := ar_ttl req, rs_expires := 0\<rparr> else spec1)
      \<lparr>rs_created := now, rs_hits := 0\<rparr>"
  note a = assms [unfolded add_rule_def Inr sum.case Let_def, folded spec1_def, folded spec3_def]
  show ?thesis
  proof (cases "resolve_expiry now spec3")
    case (Inl v)
    with a show ?thesis by (intro that(1)) auto
  next
    case (Inr spec)
    have created: "rs_created spec = now"
      using Inr by (auto simp: resolve_expiry_def spec3_def split: if_splits)
    obtain i where i: "(if rs_id spec = [] then new_rule_id (e_rules e) draws else Some (rs_id spec)) = Some i"
      using a Inr by (cases "if rs_id spec = [] then new_rule_id (e_rules e) draws else Some (rs_id spec)") auto
    show ?thesis
    proof (cases "(rs_id spec \<noteq> [] \<and> \<not> valid_id i) \<or> (rs_id spec \<noteq> [] \<and> map_of (e_rules e) i \<noteq> None)
        \<or> (\<exists>v. compile_rule lib now (spec\<lparr>rs_id := i\<rparr>) = Inl v)")
      case True
      with a Inr i show ?thesis by (auto split: if_splits intro: that(1))
    next
      case False
      then obtain cr where cr: "compile_rule lib now (spec\<lparr>rs_id := i\<rparr>) = Inr cr"
        by (cases "compile_rule lib now (spec\<lparr>rs_id := i\<rparr>)") auto
      have "c_id cr = i" using compiled_id [OF cr] by simp
      moreover have "map_of (e_rules e) i = None"
        using i False new_rule_id_fresh by (auto split: if_splits)
      moreover have "r = Inr (rule_view cr)" "e' = save (rebuild (install cr e))"
        using a Inr i False cr by (auto split: if_splits)
      ultimately show ?thesis using that(2) [OF cr] created by simp
    qed
  qed
qed

lemma add_rule_ok [inv_intros]:
  assumes ok: "engine_ok lib e" and add: "add_rule lib now draws expand req e = Some (r, e')"
  shows "engine_ok lib e'"
  using add
proof (cases rule: add_rule_cases)
  case (1 err)
  with ok show ?thesis by simp
next
  case (2 spec cr)
  have "rules_ok lib (install cr e)"
    unfolding install_def using ok 2(1) by (intro install_rules_ok) (auto simp: engine_ok_def compiled_from_spec)
  with 2 show ?thesis by (simp add: rebuild_ok)
qed

lemma patched_id: "patched_rule now old p = Inr spec \<Longrightarrow> rs_id spec = c_id old"
  by (auto simp: patched_rule_def and_then_Inr Let_def resolve_expiry_def rule_view_def
      split: option.splits if_splits)

lemma update_rule_ok [inv_intros]:
  assumes ok: "engine_ok lib e"
  shows "engine_ok lib (snd (update_rule lib now i p e))"
proof (cases "map_of (e_rules e) i")
  case None
  with ok show ?thesis by (simp add: update_rule_def)
next
  case (Some a)
  have r: "rules_ok lib e" using ok by (simp add: engine_ok_def)
  have i: "c_id (e_store e ! a) = i" using rules_okD(2) [OF r Some] by simp
  show ?thesis
  proof (cases "and_then (patched_rule now (e_store e ! a) p) (compile_rule lib now)")
    case (Inl v)
    with Some ok show ?thesis by (simp add: update_rule_def)
  next
    case (Inr cr)
    then obtain spec where "patched_rule now (e_store e ! a) p = Inr spec" "compile_rule lib now spec = Inr cr"
      by (auto simp: and_then_Inr)
    then have "c_id cr = i" "from_spec lib (cr\<lparr>c_hits := n\<rparr>)" for n
      using i patched_id compiled_id from_spec_compiled by metis+
    with Some Inr r show ?thesis
      by (auto simp: update_rule_def Let_def intro!: rebuild_ok install_rules_ok)
  qed
qed

lemma remove_rule_ok [inv_intros]: "engine_ok lib e \<Longrightarrow> engine_ok lib (snd (remove_rule i e))"
  by (auto simp: remove_rule_def engine_ok_def [of _ e] intro!: rebuild_ok rules_ok_del)

lemma remove_all_ok [inv_intros]: "engine_ok lib e \<Longrightarrow> engine_ok lib (snd (remove_all e))"
  by (auto simp: remove_all_def engine_ok_def [of _ e] rules_ok_def intro!: rebuild_ok)

lemma load_rules_ok: "rules_ok lib e \<Longrightarrow> rules_ok lib (load lib now specs e)"
proof (induction specs arbitrary: e)
  case (Cons spec specs)
  show ?case
    using Cons.prems
    by (auto simp: install_def from_spec_compiled intro!: Cons.IH install_rules_ok split: sum.split)
qed simp

lemma new_engine_ok: "engine_ok lib (new_engine lib now persist hold specs)"
  by (auto simp: new_engine_def Let_def rules_ok_def intro!: rebuild_ok load_rules_ok)

section \<open>Runs of the engine\<close>

datatype engine_op =
    OpAdd gotime "8 word list list" "string \<Rightarrow> rule_invalid + rule_spec" add_request
  | OpUpdate gotime string rule_patch
  | OpRemove string
  | OpRemoveAll
  | OpEligible gotime nat
  | OpFire rat nat
  | OpTask nat

text \<open>A request in flight may hold any rule ever made; a goroutine may run whenever it exists.\<close>

fun engine_step :: "rule_lib \<Rightarrow> engine_op \<Rightarrow> engine \<Rightarrow> engine" where
  "engine_step lib (OpAdd now draws expand req) e =
     (case add_rule lib now draws expand req e of None \<Rightarrow> e | Some (_, e') \<Rightarrow> e')"
| "engine_step lib (OpUpdate now i p) e = snd (update_rule lib now i p e)"
| "engine_step lib (OpRemove i) e = snd (remove_rule i e)"
| "engine_step lib OpRemoveAll e = snd (remove_all e)"
| "engine_step lib (OpEligible now a) e = (if a < length (e_store e) then snd (eligible now a e) else e)"
| "engine_step lib (OpFire draw a) e = (if a < length (e_store e) then snd (fire draw a e) else e)"
| "engine_step lib (OpTask k) e =
     (if k < length (e_tasks e)
      then run_task (e_tasks e ! k) (e\<lparr>e_tasks := take k (e_tasks e) @ drop (Suc k) (e_tasks e)\<rparr>) else e)"

definition engine_run :: "rule_lib \<Rightarrow> engine_op list \<Rightarrow> engine \<Rightarrow> engine" where
  "engine_run lib ops e = fold (engine_step lib) ops e"

lemma engine_step_ok: "engine_ok lib e \<Longrightarrow> engine_ok lib (engine_step lib op e)"
proof (cases op)
  case (OpTask k)
  assume ok: "engine_ok lib e"
  have "list_all P (take k xs @ drop (Suc k) xs)" if "list_all P xs" for P :: "task \<Rightarrow> bool" and xs
    using that by (auto simp: list_all_iff dest: in_set_takeD in_set_dropD)
  then have "engine_ok lib (e\<lparr>e_tasks := take k (e_tasks e) @ drop (Suc k) (e_tasks e)\<rparr>)"
    using ok by (auto simp: engine_ok_def rules_ok_def snapshot_ok_def)
  with ok OpTask show ?thesis by (simp add: run_task_ok)
qed (auto intro: inv_intros split: option.split)

lemma engine_run_ok: "engine_ok lib e \<Longrightarrow> engine_ok lib (engine_run lib ops e)"
  by (induction ops arbitrary: e) (simp_all add: engine_run_def engine_step_ok)

section \<open>What a client sees of the rule set\<close>

lemma list_rules_ids:
  assumes "engine_ok lib e"
  shows "mset (List.map rs_id (list_rules e)) = mset (List.map fst (e_rules e))"
    and "distinct (List.map rs_id (list_rules e))"
proof -
  have ok: "\<forall>(i, a) \<in> set (e_rules e). c_id (e_store e ! a) = i" "keys_distinct (e_rules e)"
    "mset (e_all e) = mset (List.map snd (e_rules e))"
    using assms by (auto simp: engine_ok_def rules_ok_def snapshot_ok_def)
  have "mset (List.map rs_id (list_rules e)) = image_mset (\<lambda>a. c_id (e_store e ! a)) (mset (e_all e))"
    by (simp add: list_rules_def rule_view_def comp_def multiset.map_comp)
  also have "\<dots> = mset (List.map (\<lambda>x. c_id (e_store e ! snd x)) (e_rules e))"
    unfolding ok(3) by (simp add: multiset.map_comp comp_def)
  also have "List.map (\<lambda>x. c_id (e_store e ! snd x)) (e_rules e) = List.map fst (e_rules e)"
    using ok(1) by (auto intro!: map_cong)
  finally show ids: "mset (List.map rs_id (list_rules e)) = mset (List.map fst (e_rules e))" .
  with ok(2) show "distinct (List.map rs_id (list_rules e))" by (metis mset_eq_imp_distinct_iff)
qed

lemma get_rule_find:
  assumes ok: "engine_ok lib e"
  shows "get_rule i e = find (\<lambda>r. rs_id r = i) (list_rules e)"
proof (cases "map_of (e_rules e) i")
  case None
  then have "i \<notin> set (List.map fst (e_rules e))" by (simp add: map_of_eq_None_iff)
  then have "i \<notin> rs_id ` set (list_rules e)"
    using list_rules_ids(1) [OF ok] by (metis mset_eq_setD set_map)
  with None show ?thesis by (simp add: get_rule_def find_by_key_None)
next
  case (Some a)
  have r: "rules_ok lib e" using ok by (simp add: engine_ok_def)
  have "a \<in> set (e_all e)"
    using ok map_of_SomeD [OF Some] by (force simp: engine_ok_def snapshot_ok_def)
  then have "rule_view (e_store e ! a) \<in> set (list_rules e)" by (simp add: list_rules_def)
  moreover have "rs_id (rule_view (e_store e ! a)) = i"
    using rules_okD(2) [OF r Some] by (simp add: rule_view_def)
  ultimately show ?thesis
    using find_by_key [OF list_rules_ids(2) [OF ok]] Some by (auto simp: get_rule_def)
qed

definition spec_key :: "rule_spec \<Rightarrow> rule_key" where
  "spec_key r = RuleKey (rs_priority r) (rs_created r) (rs_id r)"

definition modest_rules :: "engine \<Rightarrow> bool" where
  "modest_rules e = (\<forall>r \<in> set (list_rules e). modest (rs_priority r))"

lemma spec_key_view: "spec_key (rule_view cr) = key_of cr"
  by (simp add: spec_key_def key_of_def rule_view_def)

lemma list_rules_sorted:
  assumes ok: "engine_ok lib e" and modest: "modest_rules e"
  shows "sorted (List.map spec_key (list_rules e))"
proof -
  let ?k = "\<lambda>a. key_of (e_store e ! a)"
  have all: "e_all e = sort_func (\<lambda>a b. rule_compare (e_store e ! a) (e_store e ! b)) (List.map snd (e_rules e))"
    using ok by (simp add: engine_ok_def snapshot_ok_def)
  then have "set (e_all e) = set (List.map snd (e_rules e))" by simp
  then have "modest (c_priority (e_store e ! a))" if "a \<in> set (List.map snd (e_rules e))" for a
    using modest that by (force simp: modest_rules_def list_rules_def rule_view_def)
  then have "e_all e = sort_key ?k (List.map snd (e_rules e))"
    unfolding all by (intro sort_func_key) (simp add: rule_compare_key)
  then have "sorted (List.map ?k (e_all e))" by (simp del: map_map)
  then show ?thesis by (simp add: list_rules_def spec_key_view comp_def)
qed

section \<open>Restarting from the rules file\<close>

definition unexpired :: "gotime \<Rightarrow> rule_spec \<Rightarrow> bool" where
  "unexpired now r = (rs_expires r = 0 \<or> now < rs_expires r)"

definition numbered :: "engine \<Rightarrow> bool" where
  "numbered e = (e_rules e = zip (List.map c_id (e_store e)) [0..<length (e_store e)])"

lemma load_views:
  assumes "numbered e" "\<forall>r \<in> set rs. unexpired now r \<and> (\<exists>cr. from_spec lib cr \<and> rule_view cr = r)"
    and "distinct (List.map c_id (e_store e) @ List.map rs_id rs)"
  shows "numbered (load lib now rs e)
    \<and> List.map rule_view (e_store (load lib now rs e)) = List.map rule_view (e_store e) @ rs"
  using assms
proof (induction rs arbitrary: e)
  case (Cons r rs)
  obtain cr where cr: "from_spec lib cr" "rule_view cr = r" using Cons.prems(2) by auto
  obtain cr' where cr': "compile_rule lib now (rule_view cr) = Inr cr'"
    "rule_view (cr'\<lparr>c_hits := c_hits cr\<rparr>) = rule_view cr"
    by (rule from_spec_again [OF cr(1)])
  let ?cr = "cr'\<lparr>c_hits := rs_hits r\<rparr>"
  have v: "rule_view ?cr = r" using cr cr'(2) by (auto simp: rule_view_def)
  from arg_cong [OF v, of rs_id] have id: "c_id ?cr = rs_id r" by (simp add: rule_view_def)
  have "rs_id r \<noteq> []"
    using cr'(1) cr(2) by (auto simp: compile_rule_def and_then_Inr)
  moreover have "\<not> (rs_expires r \<noteq> 0 \<and> rs_expires r \<le> now)"
    using Cons.prems(2) by (auto simp: unexpired_def)
  ultimately have step: "load lib now (r # rs) e = load lib now rs (install ?cr e)"
    using cr'(1) cr(2) by (simp only: load.simps if_False sum.case)
  have "c_id ?cr \<notin> fst ` set (e_rules e)"
    using Cons.prems(1,3) id by (auto simp: numbered_def dest!: set_zip_leftD)
  then have "numbered (install ?cr e)"
    using Cons.prems(1) by (simp add: numbered_def install_def map_put_fresh)
  moreover have "distinct (List.map c_id (e_store (install ?cr e)) @ List.map rs_id rs)"
    using Cons.prems(3) id by (auto simp: install_def)
  ultimately have "numbered (load lib now rs (install ?cr e))
    \<and> List.map rule_view (e_store (load lib now rs (install ?cr e)))
      = List.map rule_view (e_store (install ?cr e)) @ rs"
    using Cons.prems(2) by (intro Cons.IH) auto
  then show ?case unfolding step by (simp add: install_def v)
qed simp

lemma restart_list:
  assumes ok: "engine_ok lib e" and modest: "modest_rules e"
    and un: "\<forall>r \<in> set (list_rules e). unexpired now r"
  shows "list_rules (new_engine lib now True hold (list_rules e)) = list_rules e"
proof -
  let ?init = "\<lparr>e_persist = True, e_hold_timeout = (if hold \<le> 0 then default_hold_timeout else hold),
               e_store = [], e_rules = [], e_all = [], e_req = [], e_resp = [], e_version = 0,
               e_file = list_rules e, e_tasks = []\<rparr>"
  let ?e = "load lib now (list_rules e) ?init"
  have src: "\<exists>cr. from_spec lib cr \<and> rule_view cr = r" if "r \<in> set (list_rules e)" for r
  proof -
    from that obtain a where a: "a \<in> set (e_all e)" "r = rule_view (e_store e ! a)"
      by (auto simp: list_rules_def)
    then have "a < length (e_store e)" using ok by (force simp: engine_ok_def rules_ok_def snapshot_ok_def)
    then show ?thesis using a ok rules_okD(3) by (auto simp: engine_ok_def)
  qed
  have l: "numbered ?e" "List.map rule_view (e_store ?e) = list_rules e"
    using load_views [of ?init "list_rules e" now lib] src un list_rules_ids(2) [OF ok]
    by (auto simp: numbered_def)
  let ?n = "length (e_store ?e)"
  have inds: "List.map snd (e_rules ?e) = [0..<?n]" using l(1) by (simp add: numbered_def)
  have view: "rule_view (e_store ?e ! a) = list_rules e ! a" if "a < ?n" for a
    using that l(2) by (metis nth_map)
  have key: "key_of (e_store ?e ! a) = spec_key (list_rules e ! a)" if "a < ?n" for a
    using view [OF that] by (metis spec_key_view)
  have n: "?n = length (list_rules e)" using l(2) by (metis length_map)
  have "modest (c_priority (e_store ?e ! a))" if "a < ?n" for a
  proof -
    have "c_priority (e_store ?e ! a) = rs_priority (list_rules e ! a)"
      using arg_cong [OF view [OF that], of rs_priority] by (simp add: rule_view_def)
    moreover have "list_rules e ! a \<in> set (list_rules e)" using that n by (metis nth_mem)
    ultimately show ?thesis using modest by (simp add: modest_rules_def)
  qed
  then have "sort_func (\<lambda>a b. rule_compare (e_store ?e ! a) (e_store ?e ! b)) [0..<?n]
      = sort_key (\<lambda>a. key_of (e_store ?e ! a)) [0..<?n]"
    by (intro sort_func_key) (simp add: rule_compare_key)
  also have "\<dots> = [0..<?n]"
  proof -
    have "List.map (\<lambda>a. key_of (e_store ?e ! a)) [0..<?n] = List.map spec_key (list_rules e)"
      using key n by (auto intro!: nth_equalityI)
    then show ?thesis using list_rules_sorted [OF ok modest] by (intro sort_key_id_if_sorted) simp
  qed
  finally have "e_all (rebuild ?e) = [0..<?n]" by (simp add: rebuild_def inds Let_def)
  then have "list_rules (rebuild ?e) = List.map (\<lambda>a. rule_view (e_store ?e ! a)) [0..<?n]"
    by (simp add: list_rules_def)
  also have "\<dots> = list_rules e" using view n by (auto intro!: nth_equalityI)
  finally show ?thesis by (simp add: new_engine_def Let_def)
qed


section \<open>Properties of the rule set\<close>

lemma engine_step_persist: "e_persist (engine_step lib op e) = e_persist e"
proof (cases op)
  case (OpAdd now draws expand req)
  then show ?thesis
    by (auto simp: install_def split: option.split elim!: add_rule_cases)
next
  case (OpTask k)
  then show ?thesis by (cases "e_tasks e ! k") (auto simp: Let_def)
qed (auto simp: update_rule_def remove_rule_def remove_all_def eligible_def fire_def reap_def disable_def Let_def
    split: option.split sum.split)

lemma engine_run_persist: "e_persist (engine_run lib ops e) = e_persist e"
  by (induction ops arbitrary: e) (simp_all add: engine_run_def engine_step_persist)

lemma load_persist: "e_persist (load lib now specs e) = e_persist e"
  by (induction lib now specs e rule: load.induct) (auto simp: install_def split: sum.split)

text \<open>C1: whatever is added, changed, removed, fired, expired or reaped, in any order and with the
  background goroutines run at any moment, the ids listed are distinct, looking a rule up by id
  gives the rule listed under it, the listing is in evaluation order (higher priority first, then
  older, then smaller id) as long as priorities stay within 62 bits, and the request and response
  rules the hot path walks are the listed rules with actions in that phase.\<close>

theorem rule_set_consistent:
  assumes "e = engine_run lib ops (new_engine lib now persist hold specs)"
  shows "distinct (List.map rs_id (list_rules e))
    \<and> (\<forall>i. get_rule i e = find (\<lambda>r. rs_id r = i) (list_rules e))
    \<and> (modest_rules e \<longrightarrow> sorted (List.map spec_key (list_rules e)))
    \<and> e_req e = filter (\<lambda>a. c_req_actions (e_store e ! a) \<noteq> []) (e_all e)
    \<and> e_resp e = filter (\<lambda>a. c_resp_actions (e_store e ! a) \<noteq> []) (e_all e)"
proof -
  have ok: "engine_ok lib e" unfolding assms by (intro engine_run_ok new_engine_ok)
  then show ?thesis
    using list_rules_ids(2) get_rule_find list_rules_sorted by (auto simp: engine_ok_def snapshot_ok_def)
qed

definition sample_spec :: rule_spec where
  "sample_spec = sample_rule ''r1'' 2 [sample_action ''mock_every_n'' '' 3 '', sample_action ''hold'' []]"

definition sample_compiled :: compiled_rule where
  "sample_compiled = build_rule sample_spec (PathPrefix ''/v1/'') [] None ph_request sample_acts"

lemma sample_spec_compiles: "compile_rule sample_lib 9 sample_spec = Inr sample_compiled"
  using sample_compiles by (simp add: sample_spec_def sample_compiled_def)

lemma sample_facts:
  "rs_id sample_spec = ''r1''" "rs_expires sample_spec = 0" "rs_hits sample_spec = 0" "rs_ttl sample_spec = 0"
  "rs_name sample_spec = []" "rs_created sample_spec = 7" "c_id sample_compiled = ''r1''"
  "c_priority sample_compiled = 0" "c_max_hits sample_compiled = 2" "c_prob sample_compiled = Fin 0" "c_expires sample_compiled = 0"
  "sample_compiled\<lparr>c_hits := 0\<rparr> = sample_compiled" "c_enabled sample_compiled" "c_hits sample_compiled = 0"
  by (simp_all add: sample_spec_def sample_compiled_def sample_rule_def build_rule_def Let_def)

definition sample_engine :: engine where
  "sample_engine = new_engine sample_lib 9 True 0 [sample_spec]"

lemma sample_engine_list:
  "e_store sample_engine = [sample_compiled]" "e_all sample_engine = [0]" "e_rules sample_engine = [(''r1'', 0)]"
  "list_rules sample_engine = [rule_view sample_compiled]"
  by (simp_all add: sample_engine_def new_engine_def Let_def sample_facts sample_spec_compiles install_def
      rebuild_def sort_func_def list_rules_def)

lemma rule_set_consistent_witness:
  "modest_rules sample_engine \<and> length (list_rules sample_engine) = 1
    \<and> sorted (List.map spec_key (list_rules sample_engine))
    \<and> get_rule ''r1'' sample_engine = find (\<lambda>r. rs_id r = ''r1'') (list_rules sample_engine)"
proof -
  have m: "modest_rules sample_engine"
    by (simp add: modest_rules_def sample_engine_list rule_view_def sample_facts modest_def)
  have e: "sample_engine = engine_run sample_lib [] (new_engine sample_lib 9 True 0 [sample_spec])"
    by (simp add: sample_engine_def engine_run_def)
  show ?thesis
    using m rule_set_consistent [OF e]
    by (simp add: sample_engine_list)
qed



text \<open>The difference of two extreme priorities wraps, so a rule of the highest priority can be
  evaluated after one of priority minus two.\<close>

theorem priority_order_wraps:
  "sort_func rule_compare [a\<lparr>c_priority := 2 ^ 63 - 1\<rparr>, b\<lparr>c_priority := - 2\<rparr>]
    = [b\<lparr>c_priority := - 2\<rparr>, a\<lparr>c_priority := 2 ^ 63 - 1\<rparr>]"
  by (simp add: sort_func_def rule_compare_def wrap_int_def)

end
