(* ===== verification/Rules_Gate.thy ===== *)
theory Rules_Gate
  imports Rules_Engine
begin

text \<open>
  The hit counter of a rule under concurrent requests (\<open>fire\<close> in \<open>internal/rules/apply.go\<close>). The
  counter and the enabled flag are atomics shared by all requests, so a call of \<open>fire\<close> is not one
  step: \<open>fire_atom\<close> is one atomic operation of a call and the schedule interleaves calls freely.
\<close>

section \<open>Atomic steps of a call\<close>

text \<open>Where a call stands: before the increment, about to give its increment back, about to disable
  the rule, returned.\<close>

datatype fire_pc = FStart | FUndo | FDisable | FDone bool

fun fire_atom :: "int \<Rightarrow> fire_pc \<Rightarrow> int \<times> bool \<Rightarrow> fire_pc \<times> int \<times> bool" where
  "fire_atom mx FStart (hits, en) =
     (let n = hits + 1
      in (if 0 < mx then if mx < n then FUndo else if n = mx then FDisable else FDone True else FDone True, n, en))"
| "fire_atom mx FUndo (hits, en) = (FDone False, hits - 1, en)"
| "fire_atom mx FDisable (hits, en) = (FDone True, hits, False)"
| "fire_atom mx (FDone b) (hits, en) = (FDone b, hits, en)"

type_synonym race = "fire_pc list \<times> int \<times> bool"

fun race_step :: "int \<Rightarrow> nat \<Rightarrow> race \<Rightarrow> race" where
  "race_step mx i (pcs, hits, en) =
     (if i < length pcs
      then (let (pc, hits', en') = fire_atom mx (pcs ! i) (hits, en) in (pcs[i := pc], hits', en'))
      else (pcs, hits, en))"

definition race_run :: "int \<Rightarrow> nat list \<Rightarrow> race \<Rightarrow> race" where
  "race_run mx sched s = fold (race_step mx) sched s"

text \<open>One call alone is the sequential \<open>fire\<close> once the probability gate has let it through.\<close>

lemma fire_is_race:
  assumes "a < length (e_store e)" "\<not> (fl_greater (c_prob (e_store e ! a)) 0 \<and> fl_less (c_prob (e_store e ! a)) 1 \<and> \<not> fl_greater (c_prob (e_store e ! a)) draw)"
    and "fire draw a e = (b, e')"
  shows "race_run (c_max_hits (e_store e ! a)) [0, 0] ([FStart], c_hits (e_store e ! a), c_enabled (e_store e ! a))
    = ([FDone b], c_hits (e_store e' ! a), c_enabled (e_store e' ! a))"
  using assms by (auto simp: fire_def race_run_def Let_def set_rule_def disable_def split: if_splits)

section \<open>The counter never lets more than the maximum through\<close>

definition passed :: "fire_pc list \<Rightarrow> nat" where
  "passed pcs = count_list pcs (FDone True)"

definition cnt :: "fire_pc list \<Rightarrow> fire_pc \<Rightarrow> int" where
  "cnt pcs z = int (count_list pcs z)"

lemma cnt_nonneg: "0 \<le> cnt pcs z"
  by (simp add: cnt_def)

lemma cnt_update:
  "i < length xs \<Longrightarrow> cnt (xs[i := y]) z = cnt xs z + (if y = z then 1 else 0) - (if xs ! i = z then 1 else 0)"
proof (induction xs arbitrary: i)
  case (Cons x xs)
  have c: "cnt (a # as) z = (if a = z then 1 else 0) + cnt as z" for a as by (simp add: cnt_def)
  show ?case using Cons.IH [of "i - 1"] Cons.prems by (cases i) (simp_all add: c)
qed simp

text \<open>With \<open>t\<close> calls let through (\<open>d\<close> of them about to disable), \<open>u\<close> increments still to be given back
  and \<open>f\<close> calls refused: the counter is exact, a refusal means the maximum is reached, and only the
  call that reaches it disables the rule.\<close>

definition race_counts :: "int \<Rightarrow> int \<Rightarrow> int \<Rightarrow> bool \<Rightarrow> int \<Rightarrow> int \<Rightarrow> int \<Rightarrow> int \<Rightarrow> bool" where
  "race_counts mx h0 hits en d t0 u f =
     (0 \<le> d \<and> 0 \<le> t0 \<and> 0 \<le> u \<and> 0 \<le> f \<and> hits = h0 + t0 + d + u \<and> (h0 < mx \<longrightarrow> h0 + t0 + d \<le> mx)
      \<and> (mx \<le> h0 \<longrightarrow> t0 + d = 0) \<and> (0 < u + f \<longrightarrow> mx \<le> h0 + t0 + d)
      \<and> d \<le> 1 \<and> (0 < d \<longrightarrow> mx = h0 + t0 + d) \<and> en = (\<not> (h0 < mx \<and> h0 + t0 + d = mx \<and> d = 0)))"

fun race_ok :: "int \<Rightarrow> int \<Rightarrow> race \<Rightarrow> bool" where
  "race_ok mx h0 (pcs, hits, en) =
     race_counts mx h0 hits en (cnt pcs FDisable) (cnt pcs (FDone True)) (cnt pcs FUndo) (cnt pcs (FDone False))"

lemma race_counts_steps:
  assumes "race_counts mx h0 hits en d t u f"
  shows "mx < hits + 1 \<Longrightarrow> race_counts mx h0 (hits + 1) en d t (u + 1) f"
    and "hits + 1 = mx \<Longrightarrow> race_counts mx h0 (hits + 1) en (d + 1) t u f"
    and "hits + 1 < mx \<Longrightarrow> race_counts mx h0 (hits + 1) en d (t + 1) u f"
    and "0 < u \<Longrightarrow> race_counts mx h0 (hits - 1) en d t (u - 1) (f + 1)"
    and "0 < d \<Longrightarrow> race_counts mx h0 hits False (d - 1) (t + 1) u f"
  using assms unfolding race_counts_def by auto

lemma race_step_ok:
  assumes "0 < mx" "race_ok mx h0 (pcs, hits, en)"
  shows "race_ok mx h0 (race_step mx i (pcs, hits, en))"
proof (cases "i < length pcs")
  case True
  note upd = cnt_update [OF True]
  have "count_list pcs (pcs ! i) \<noteq> 0" using True by (metis count_list_0_iff nth_mem)
  then have mem: "0 < cnt pcs (pcs ! i)" by (simp add: cnt_def)
  note steps = race_counts_steps [OF assms(2) [simplified]]
  show ?thesis
  proof (cases "pcs ! i")
    case FStart
    consider "mx < hits + 1" | "hits + 1 = mx" | "hits + 1 < mx" by linarith
    then show ?thesis using FStart True assms(1) upd steps(1-3) by cases (simp_all add: Let_def)
  next
    case FUndo
    with True upd mem steps(4) show ?thesis by simp
  next
    case FDisable
    with True upd mem steps(5) show ?thesis by simp
  next
    case (FDone b)
    then have "pcs[i := FDone b] = pcs" using True by (metis list_update_id)
    with FDone True assms show ?thesis by simp
  qed
qed (use assms in simp)

lemma race_run_ok:
  assumes "0 < mx"
  shows "race_ok mx h0 s \<Longrightarrow> race_ok mx h0 (race_run mx sched s)"
proof (induction sched arbitrary: s)
  case (Cons i sched)
  obtain pcs hits en where s: "s = (pcs, hits, en)" by (cases s) auto
  have "race_ok mx h0 (race_step mx i s)" using race_step_ok [OF assms, of h0 pcs hits en i] Cons.prems s by simp
  from Cons.IH [OF this] show ?case by (simp add: race_run_def)
qed (simp add: race_run_def)

section \<open>Every call returns\<close>

fun pc_left :: "fire_pc \<Rightarrow> nat" where
  "pc_left FStart = 2"
| "pc_left (FDone _) = 0"
| "pc_left _ = 1"

lemma pc_left_atom: "fire_atom mx pc (hits, en) = (pc', hits', en') \<Longrightarrow> pc_left pc' \<le> pc_left pc - 1"
  by (cases pc) (auto simp: Let_def split: if_splits)

lemma race_step_pcs:
  "length (fst (race_step mx j s)) = length (fst s)
    \<and> (i < length (fst s) \<longrightarrow> pc_left (fst (race_step mx j s) ! i) \<le> pc_left (fst s ! i) - (if i = j then 1 else 0))"
proof -
  obtain pcs hits en where s: "s = (pcs, hits, en)" by (cases s) auto
  obtain pc hits' en' where "fire_atom mx (pcs ! j) (hits, en) = (pc, hits', en')"
    by (cases "fire_atom mx (pcs ! j) (hits, en)") auto
  with pc_left_atom [OF this] s show ?thesis by (auto simp: nth_list_update)
qed

lemma race_run_left:
  "length (fst (race_run mx sched s)) = length (fst s)
    \<and> (i < length (fst s) \<longrightarrow> pc_left (fst (race_run mx sched s) ! i) \<le> pc_left (fst s ! i) - count_list sched i)"
proof (induction sched arbitrary: s)
  case (Cons j sched)
  show ?case
    using Cons.IH [of "race_step mx j s"] race_step_pcs [of mx j s i]
    by (auto simp: race_run_def)
qed (simp add: race_run_def)

definition pc_done :: "fire_pc \<Rightarrow> bool" where
  "pc_done pc = (pc_left pc = 0)"

lemma race_run_done:
  assumes "\<forall>i < k. 2 \<le> count_list sched i"
  shows "list_all pc_done (fst (race_run mx sched (replicate k FStart, h0, en)))"
proof -
  let ?s = "race_run mx sched (replicate k FStart, h0, en)"
  have len: "length (fst ?s) = k" using race_run_left [of mx sched "(replicate k FStart, h0, en)"] by simp
  have "pc_done (fst ?s ! i)" if "i < k" for i
    using race_run_left [of mx sched "(replicate k FStart, h0, en)" i] that assms by (auto simp: pc_done_def)
  then show ?thesis by (simp add: list_all_length len)
qed

lemma done_count:
  "list_all pc_done pcs \<Longrightarrow> count_list pcs FDisable = 0 \<and> count_list pcs FUndo = 0
     \<and> count_list pcs (FDone True) + count_list pcs (FDone False) = length pcs"
proof (induction pcs)
  case (Cons pc pcs)
  then show ?case by (cases pc) (auto simp: pc_done_def)
qed simp

text \<open>C3: \<open>k\<close> requests race for a rule with a maximum number of hits and \<open>h0\<close> hits so far, their atomic
  steps interleaved in any way that lets each finish. Exactly the smaller of \<open>k\<close> and the hits left
  are let through, the counter ends exact, and the rule is disabled just when the maximum was
  reached by one of them.\<close>

theorem fire_exact_under_races:
  assumes "0 < mx" and "\<forall>i < k. 2 \<le> count_list sched i"
    and "race_run mx sched (replicate k FStart, h0, True) = (pcs, hits, en)"
  shows "int (passed pcs) = min (int k) (max 0 (mx - h0)) \<and> hits = h0 + int (passed pcs)
    \<and> en = (mx \<le> h0 \<or> h0 + int (passed pcs) < mx)"
proof -
  have "race_ok mx h0 (replicate k FStart, h0, True)"
    by (auto simp: race_counts_def cnt_def)
  from race_run_ok [OF assms(1) this, of sched] have ok: "race_ok mx h0 (pcs, hits, en)" by (simp add: assms(3))
  have "list_all pc_done pcs" using race_run_done [OF assms(2), of mx h0 True] assms(3) by simp
  note fin = done_count [OF this]
  have "length pcs = k" using race_run_left [of mx sched "(replicate k FStart, h0, True)"] assms(3) by simp
  with fin have k: "cnt pcs (FDone True) + cnt pcs (FDone False) = int k" and z: "cnt pcs FDisable = 0" "cnt pcs FUndo = 0"
    by (simp_all add: cnt_def)
  have p: "int (passed pcs) = cnt pcs (FDone True)" by (simp add: passed_def cnt_def)
  show ?thesis using ok k unfolding p race_ok.simps race_counts_def z by (auto simp: min_def max_def)
qed

lemma fire_exact_under_races_witness:
  "case race_run 2 [0, 1, 2, 2, 0, 1] (replicate 3 FStart, 0, True) of (pcs, hits, en) \<Rightarrow>
     passed pcs = 2 \<and> hits = 2 \<and> \<not> en"
proof -
  have n: "\<forall>i < (3::nat). 2 \<le> count_list [0, 1, 2, 2, 0, 1] i" by (auto simp: less_Suc_eq numeral_3_eq_3)
  obtain pcs hits en where r: "race_run 2 [0, 1, 2, 2, 0, 1] (replicate 3 FStart, 0, True) = (pcs, hits, en)"
    by (cases "race_run 2 [0, 1, 2, 2, 0, 1] (replicate 3 FStart, 0, True)") auto
  from fire_exact_under_races [OF _ n r] show ?thesis by (simp add: r del: One_nat_def)
qed

section \<open>Lowering the maximum\<close>

text \<open>A rule at or past its maximum is refused and left as it is.\<close>

lemma fire_refused:
  assumes "a < length (e_store e)" "0 < c_max_hits (e_store e ! a)" "c_max_hits (e_store e ! a) \<le> c_hits (e_store e ! a)"
  shows "fire draw a e = (False, e)"
  using assms by (auto simp: fire_def Let_def set_rule_def)

definition lowered_rule :: rule_spec where
  "lowered_rule = sample_spec\<lparr>rs_max_hits := 1\<rparr>"

lemma compile_rule_same:
  assumes "compile_rule lib now spec = Inr cr" "rs_match spec' = rs_match spec" "rs_actions spec' = rs_actions spec"
    "rs_id spec' \<noteq> []" "prob_ok (rs_prob spec')" "0 \<le> rs_max_hits spec'" "0 \<le> rs_ttl spec'"
  shows "\<exists>pm hs st ph acts. cr = build_rule spec pm hs st ph acts
    \<and> compile_rule lib now spec' = Inr (build_rule spec' pm hs st ph acts)"
proof -
  obtain pm hs st ph0 acts0 acts where
    "rs_id spec \<noteq> []" "rs_actions spec \<noteq> []" "compile_path lib (trim_space (ms_path (rs_match spec))) = Inr pm"
    "norm_scheme (rs_match spec) = [] \<or> norm_scheme (rs_match spec) = ''http'' \<or> norm_scheme (rs_match spec) = ''https''"
    "compile_headers (ms_header (rs_match spec)) = Inr hs" "rule_status (trim_space (ms_status (rs_match spec))) = Inr st"
    "parse_phase (ms_phase (rs_match spec)) = Inr ph0" "compile_actions lib now 0 (rs_actions spec) = Inr acts0"
    "st = None \<or> ph_and (derive_phase ph0 acts0 (trim_space (ms_status (rs_match spec)) \<noteq> [])) ph_response \<noteq> ph_none"
    "place_actions (derive_phase ph0 acts0 (trim_space (ms_status (rs_match spec)) \<noteq> [])) 0 acts0 = Inr acts"
    "cr = build_rule spec pm hs st (derive_phase ph0 acts0 (trim_space (ms_status (rs_match spec)) \<noteq> [])) acts"
    using assms(1) unfolding compile_rule_def Let_def and_then_Inr check_that_Inr by blast
  then show ?thesis
    unfolding compile_rule_def Let_def using assms(2-)
    by (intro exI [of _ pm] exI [of _ hs] exI [of _ st] exI [of _ "derive_phase ph0 acts0 (trim_space (ms_status (rs_match spec)) \<noteq> [])"]
        exI [of _ acts]) (simp add: check_that_def)
qed

lemma sample_rule_compiles:
  assumes "rs_match r = rs_match sample_spec" "rs_actions r = rs_actions sample_spec" "rs_id r \<noteq> []" "rs_prob r = Fin 0"
    "0 \<le> rs_max_hits r" "rs_ttl r = 0"
  obtains cr where "compile_rule sample_lib 9 r = Inr cr" "c_id cr = rs_id r" "c_max_hits cr = rs_max_hits r"
    "c_enabled cr = (rs_enabled r = None \<or> rs_enabled r = Some True)" "c_prob cr = Fin 0"
proof -
  obtain pm hs st ph acts where "compile_rule sample_lib 9 r = Inr (build_rule r pm hs st ph acts)"
    using compile_rule_same [OF sample_spec_compiles, of r] assms by auto
  then show ?thesis using that assms by (auto simp: build_rule_def Let_def)
qed

text \<open>The sample rule with maximum two has fired once; an update lowers the maximum to one. The
  rule stays listed and enabled, never fires again and is never disabled, although the maximum is
  documented to disable a rule.\<close>

theorem lowered_maximum_sticks:
  "let e1 = snd (fire 0 0 sample_engine);
       (res, e2) = update_rule sample_lib 9 ''r1'' \<lparr>pt_enabled = None, pt_name = [], pt_rule = Some lowered_rule\<rparr> e1
   in (\<exists>r. res = Inr r \<and> rs_enabled r = Some True \<and> rs_max_hits r = 1 \<and> rs_hits r = 1 \<and> list_rules e2 = [r])
      \<and> (\<forall>draw. fire draw 1 e2 = (False, e2))"
proof -
  let ?old = "sample_compiled\<lparr>c_hits := 1\<rparr>"
  let ?spec = "lowered_rule\<lparr>rs_created := c_created ?old, rs_hits := 1, rs_name := c_name ?old, rs_enabled := Some True,
      rs_ttl := c_ttl ?old, rs_expires := 0\<rparr>"
  have ttl: "c_ttl sample_compiled = 0" by (simp add: sample_compiled_def build_rule_def Let_def sample_facts)
  obtain cr where cr: "compile_rule sample_lib 9 ?spec = Inr cr" "c_id cr = ''r1''" "c_max_hits cr = 1" "c_enabled cr"
      "c_prob cr = Fin 0"
    by (rule sample_rule_compiles [of ?spec])
      (simp_all add: lowered_rule_def sample_facts ttl, simp_all add: sample_spec_def sample_rule_def)
  define e1 where "e1 = snd (fire 0 0 sample_engine)"
  have e1: "e_store e1 = [?old]" "e_rules e1 = [(''r1'', 0)]" "e_all e1 = [0]"
    by (simp_all add: e1_def fire_def Let_def sample_engine_list sample_facts set_rule_def)
  have "patched_rule 9 ?old \<lparr>pt_enabled = None, pt_name = [], pt_rule = Some lowered_rule\<rparr> = Inr ?spec"
    by (simp add: patched_rule_def lowered_rule_def Let_def sample_facts ttl sample_spec_def sample_rule_def)
  then have u: "update_rule sample_lib 9 ''r1'' \<lparr>pt_enabled = None, pt_name = [], pt_rule = Some lowered_rule\<rparr> e1 =
      (Inr (rule_view (cr\<lparr>c_hits := 1\<rparr>)),
       save (rebuild (e1\<lparr>e_store := [?old, cr\<lparr>c_hits := 1\<rparr>], e_rules := [(''r1'', Suc 0)]\<rparr>)))"
    using cr by (simp add: update_rule_def e1 sample_facts Let_def)
  let ?e2 = "save (rebuild (e1\<lparr>e_store := [?old, cr\<lparr>c_hits := 1\<rparr>], e_rules := [(''r1'', Suc 0)]\<rparr>))"
  have "list_rules ?e2 = [rule_view (cr\<lparr>c_hits := 1\<rparr>)]"
    by (simp add: list_rules_def rebuild_def Let_def sort_func_def)
  moreover have "fire draw 1 ?e2 = (False, ?e2)" for draw by (rule fire_refused) (simp_all add: cr)
  ultimately show ?thesis by (simp add: e1_def [symmetric] u rule_view_def cr)
qed

end
