(* ===== verification/Rules_Presets.thy ===== *)
theory Rules_Presets
  imports Rules_Gate Store_Row "HOL-Library.State_Monad"
begin

text \<open>
  \<open>internal/rules/presets.go\<close>: named rules with parameters. Parameter values are what the JSON and the
  command line hand over (\<open>any\<close>), read with coercion; the reader collects the first error, which is
  the state of a state monad. Formatting and parsing of floats are the parameters of \<open>preset_lib\<close>.
\<close>

section \<open>Parameter values\<close>

datatype param_val =
    PvNil | PvStr string | PvBool bool | PvFloat float64 | PvFloat32 float64 | PvInt int | PvNumber string | PvOther

type_synonym raw_params = "(string \<times> param_val) list"

record preset_lib =
  pl_sprint :: "float64 \<Rightarrow> string"
  pl_parse :: "string \<Rightarrow> float64 option"

record params =
  ps_preset :: string
  ps_m :: raw_params
  ps_err :: "rule_invalid option"

text \<open>\<open>float64(n)\<close> of a signed integer, rounded to the nearest double.\<close>

definition fl_of_int :: "int \<Rightarrow> float64" where
  "fl_of_int n = (let (m, d) = ratio (fl_quot (nat \<bar>n\<bar>) 1); q = of_nat m / of_nat d in Fin (if n < 0 then - q else q))"

definition fl_max_int32 :: rat where "fl_max_int32 = 2147483647"
definition fl_min_int32 :: rat where "fl_min_int32 = - 2147483648"

section \<open>Reading with coercion\<close>

definition p_fail :: "string \<Rightarrow> string \<Rightarrow> (params, unit) state" where
  "p_fail key want =
     State (\<lambda>p. ((), if ps_err p = None then p\<lparr>ps_err := Some (Inv_param_type (ps_preset p) key want)\<rparr> else p))"

definition p_lookup :: "string \<Rightarrow> (params, param_val option) state" where
  "p_lookup key = State (\<lambda>p. (map_of (ps_m p) key, p))"

definition p_default :: "string \<Rightarrow> string \<Rightarrow> 'a \<Rightarrow> (params, 'a) state" where
  "p_default key want def = do { p_fail key want; State_Monad.return def }"

definition p_str :: "preset_lib \<Rightarrow> string \<Rightarrow> string \<Rightarrow> (params, string) state" where
  "p_str lib key def = do {
     v \<leftarrow> p_lookup key;
     (case v of
        None \<Rightarrow> State_Monad.return def
      | Some PvNil \<Rightarrow> State_Monad.return def
      | Some (PvStr t) \<Rightarrow> State_Monad.return (if t = [] then def else t)
      | Some (PvFloat x) \<Rightarrow> State_Monad.return (pl_sprint lib x)
      | Some (PvInt n) \<Rightarrow> State_Monad.return (itoa n)
      | Some (PvBool b) \<Rightarrow> State_Monad.return (if b then ''true'' else ''false'')
      | Some (PvNumber t) \<Rightarrow> State_Monad.return t
      | Some _ \<Rightarrow> p_default key ''string'' def)
   }"

definition p_float :: "preset_lib \<Rightarrow> string \<Rightarrow> float64 \<Rightarrow> (params, float64) state" where
  "p_float lib key def = do {
     v \<leftarrow> p_lookup key;
     (case v of
        None \<Rightarrow> State_Monad.return def
      | Some PvNil \<Rightarrow> State_Monad.return def
      | Some (PvFloat x) \<Rightarrow> State_Monad.return x
      | Some (PvFloat32 x) \<Rightarrow> State_Monad.return x
      | Some (PvInt n) \<Rightarrow> State_Monad.return (fl_of_int n)
      | Some (PvNumber t) \<Rightarrow>
          (case pl_parse lib t of Some x \<Rightarrow> State_Monad.return x | None \<Rightarrow> p_default key ''number'' def)
      | Some (PvStr t) \<Rightarrow>
          (case pl_parse lib (trim_space t) of
             Some x \<Rightarrow> State_Monad.return x
           | None \<Rightarrow> p_default key ''number'' def)
      | Some _ \<Rightarrow> p_default key ''number'' def)
   }"

text \<open>\<open>f != math.Trunc(f) || f > math.MaxInt32 || f < math.MinInt32\<close>: NaN differs from itself.\<close>

fun int_of_float :: "float64 \<Rightarrow> int option" where
  "int_of_float (Fin q) =
     (if of_int \<lfloor>q\<rfloor> \<noteq> q \<or> fl_max_int32 < q \<or> q < fl_min_int32 then None else Some \<lfloor>q\<rfloor>)"
| "int_of_float _ = None"

definition p_int :: "preset_lib \<Rightarrow> string \<Rightarrow> int \<Rightarrow> (params, int) state" where
  "p_int lib key def = do {
     f \<leftarrow> p_float lib key (fl_of_int def);
     (case int_of_float f of Some n \<Rightarrow> State_Monad.return n | None \<Rightarrow> p_default key ''integer'' def)
   }"

section \<open>The presets\<close>

record preset_param =
  pp_name :: string
  pp_number :: bool
  pp_default :: param_val
  pp_required :: bool

definition host_param :: preset_param where
  "host_param = \<lparr>pp_name = ''host'', pp_number = False, pp_default = PvNil, pp_required = True\<rparr>"

definition path_param :: preset_param where
  "path_param = \<lparr>pp_name = ''path'', pp_number = False, pp_default = PvNil, pp_required = False\<rparr>"

definition num_param :: "string \<Rightarrow> param_val \<Rightarrow> preset_param" where
  "num_param n d = \<lparr>pp_name = n, pp_number = True, pp_default = d, pp_required = False\<rparr>"

definition str_param :: "string \<Rightarrow> string \<Rightarrow> preset_param" where
  "str_param n d = \<lparr>pp_name = n, pp_number = False, pp_default = PvStr d, pp_required = False\<rparr>"

text \<open>The double nearest to 0.3.\<close>

definition fl_three_tenths :: float64 where
  "fl_three_tenths = Fin (5404319552844595 / 18014398509481984)"

definition fail_body :: string where
  "fail_body = ''{\"error\":\"injected failure\"}''"

definition presets :: "(string \<times> preset_param list) list" where
  "presets =
     [(''slow_network'', [str_param ''host'' ''*'', path_param, num_param ''ms'' (PvInt 2000), num_param ''jitter_ms'' (PvInt 500)]),
      (''fail_rate'', [host_param, path_param, num_param ''rate'' (PvFloat fl_three_tenths), num_param ''status'' (PvInt 503),
                       str_param ''body'' fail_body]),
      (''offline_host'', [host_param, path_param]),
      (''timeout'', [host_param, path_param, num_param ''after_ms'' (PvInt 30000)]),
      (''rate_limit'', [host_param, path_param, num_param ''every_n'' (PvInt 5), num_param ''status'' (PvInt 429),
                        num_param ''retry_after'' (PvInt 2)]),
      (''hold'', [host_param, str_param ''path'' ''*'', str_param ''on'' ''request''])]"

text \<open>The zero values of \<open>api.Action\<close>, \<open>api.Match\<close> and \<open>api.Rule\<close>.\<close>

definition zero_action :: action_spec where
  "zero_action = \<lparr>as_type = [], as_on = [], as_ms = 0, as_jitter_ms = 0, as_name = [], as_value = [],
     as_json_patch = [], as_regex = [], as_replace = [], as_template = [], as_status = 0, as_headers = [],
     as_body = [], as_mode = [], as_upstream = [], as_preserve_host = False, as_kbps = 0, as_tags = []\<rparr>"

definition zero_match :: match_spec where
  "zero_match = \<lparr>ms_host = [], ms_path = [], ms_method = [], ms_scheme = [], ms_header = [], ms_status = [], ms_phase = []\<rparr>"

definition zero_rule :: rule_spec where
  "zero_rule = \<lparr>rs_id = [], rs_name = [], rs_enabled = None, rs_priority = 0, rs_match = zero_match, rs_actions = [],
     rs_prob = Fin 0, rs_max_hits = 0, rs_ttl = 0, rs_expires = 0, rs_hits = 0, rs_created = 0\<rparr>"

text \<open>A rule of one action named after its host.\<close>

definition preset_rule :: "string \<Rightarrow> string \<Rightarrow> string \<Rightarrow> action_spec \<Rightarrow> rule_spec" where
  "preset_rule nm host path a =
     zero_rule\<lparr>rs_name := nm @ '' '' @ host, rs_match := zero_match\<lparr>ms_host := host, ms_path := path\<rparr>, rs_actions := [a]\<rparr>"

section \<open>Expansion\<close>

definition slow_network :: "preset_lib \<Rightarrow> (params, rule_invalid + rule_spec) state" where
  "slow_network lib = do {
     host \<leftarrow> p_str lib ''host'' ''*'';
     path \<leftarrow> p_str lib ''path'' [];
     ms \<leftarrow> p_int lib ''ms'' 2000;
     jitter \<leftarrow> p_int lib ''jitter_ms'' 500;
     State_Monad.return (Inr (preset_rule ''slow network'' host path
       (zero_action\<lparr>as_type := type_str ADelay, as_ms := ms, as_jitter_ms := jitter\<rparr>)))
   }"

definition fail_rate :: "preset_lib \<Rightarrow> (params, rule_invalid + rule_spec) state" where
  "fail_rate lib = do {
     host \<leftarrow> p_str lib ''host'' [];
     path \<leftarrow> p_str lib ''path'' [];
     rate \<leftarrow> p_float lib ''rate'' fl_three_tenths;
     status \<leftarrow> p_int lib ''status'' 503;
     body \<leftarrow> p_str lib ''body'' fail_body;
     State_Monad.return (Inr ((preset_rule ''fail rate'' host path
       (zero_action\<lparr>as_type := type_str AMock, as_status := status, as_body := body\<rparr>))\<lparr>rs_prob := rate\<rparr>))
   }"

definition offline_host :: "preset_lib \<Rightarrow> (params, rule_invalid + rule_spec) state" where
  "offline_host lib = do {
     host \<leftarrow> p_str lib ''host'' [];
     path \<leftarrow> p_str lib ''path'' [];
     State_Monad.return (Inr (preset_rule ''offline'' host path
       (zero_action\<lparr>as_type := type_str ABlock, as_mode := ''reset''\<rparr>)))
   }"

definition timeout_preset :: "preset_lib \<Rightarrow> (params, rule_invalid + rule_spec) state" where
  "timeout_preset lib = do {
     host \<leftarrow> p_str lib ''host'' [];
     path \<leftarrow> p_str lib ''path'' [];
     ms \<leftarrow> p_int lib ''after_ms'' 30000;
     State_Monad.return (Inr (preset_rule ''timeout'' host path
       (zero_action\<lparr>as_type := type_str ABlock, as_mode := ''timeout'', as_ms := ms\<rparr>)))
   }"

definition rate_limit :: "preset_lib \<Rightarrow> (params, rule_invalid + rule_spec) state" where
  "rate_limit lib = do {
     host \<leftarrow> p_str lib ''host'' [];
     path \<leftarrow> p_str lib ''path'' [];
     every \<leftarrow> p_int lib ''every_n'' 5;
     status \<leftarrow> p_int lib ''status'' 429;
     retry \<leftarrow> p_int lib ''retry_after'' 2;
     State_Monad.return (Inr (preset_rule ''rate limit'' host path
       (zero_action\<lparr>as_type := type_str AMockEveryN, as_value := itoa every, as_status := status,
                    as_headers := [(''Retry-After'', itoa retry)], as_body := ''{\"error\":\"rate limited\"}''\<rparr>)))
   }"

definition hold_preset :: "preset_lib \<Rightarrow> (params, rule_invalid + rule_spec) state" where
  "hold_preset lib = do {
     host \<leftarrow> p_str lib ''host'' [];
     on0 \<leftarrow> p_str lib ''on'' ''request'';
     (let on = to_lower on0 in
      if on \<noteq> ''request'' \<and> on \<noteq> ''response'' \<and> on \<noteq> ''both'' then State_Monad.return (Inl (Inv_preset_on on))
      else do {
        path \<leftarrow> p_str lib ''path'' ''*'';
        State_Monad.return (Inr (let r = preset_rule ''hold'' host path (zero_action\<lparr>as_type := type_str ABreakpoint\<rparr>)
                     in r\<lparr>rs_match := (rs_match r)\<lparr>ms_phase := on\<rparr>\<rparr>))
      })
   }"

definition expander :: "preset_lib \<Rightarrow> string \<Rightarrow> (params, rule_invalid + rule_spec) state" where
  "expander lib name =
     (if name = ''slow_network'' then slow_network lib
      else if name = ''fail_rate'' then fail_rate lib
      else if name = ''offline_host'' then offline_host lib
      else if name = ''timeout'' then timeout_preset lib
      else if name = ''rate_limit'' then rate_limit lib
      else hold_preset lib)"

text \<open>\<open>(!ok || v == "" || v == nil)\<close>\<close>

definition missing :: "raw_params \<Rightarrow> string \<Rightarrow> bool" where
  "missing raw key = (map_of raw key \<in> {None, Some (PvStr []), Some PvNil})"

text \<open>Of several unknown parameters the code names the one its map iteration meets first.\<close>

definition expand_preset :: "preset_lib \<Rightarrow> string \<Rightarrow> raw_params \<Rightarrow> rule_invalid + rule_spec" where
  "expand_preset lib name0 raw =
     (let name = to_lower (trim_space name0) in
      case map_of presets name of
        None \<Rightarrow> Inl (Inv_preset name)
      | Some info \<Rightarrow>
          (case find (\<lambda>(k, _). k \<notin> set (List.map pp_name info)) raw of
             Some (k, _) \<Rightarrow> Inl (Inv_param_unknown name k)
           | None \<Rightarrow>
               (case find (\<lambda>pp. pp_required pp \<and> missing raw (pp_name pp)) info of
                  Some pp \<Rightarrow> Inl (Inv_param_required name (pp_name pp))
                | None \<Rightarrow>
                    (let (res, p) = run_state (expander lib name) \<lparr>ps_preset = name, ps_m = raw, ps_err = None\<rparr>
                     in case res of
                          Inl err \<Rightarrow> Inl err
                        | Inr r \<Rightarrow> (case ps_err p of None \<Rightarrow> Inr r | Some err \<Rightarrow> Inl err)))))"

section \<open>Reading parameters that are absent\<close>

definition reads :: "raw_params \<Rightarrow> (params, 'a) state \<Rightarrow> 'a \<Rightarrow> bool" where
  "reads raw m x = (\<forall>p. ps_m p = raw \<longrightarrow> run_state m p = (x, p))"

lemma reads_return: "reads raw (State_Monad.return x) x"
  by (simp add: reads_def State_Monad.return_def)

lemma reads_return_eq: "y = x \<Longrightarrow> reads raw (State_Monad.return x) y"
  by (simp add: reads_return)

lemma reads_bind:
  "reads raw m x \<Longrightarrow> reads raw (f x) y \<Longrightarrow> reads raw (State_Monad.bind m f) y"
  by (simp add: reads_def State_Monad.bind_def)

lemma reads_lookup: "reads raw (p_lookup key) (map_of raw key)"
  by (simp add: reads_def p_lookup_def)

lemma reads_str_absent: "map_of raw key = None \<Longrightarrow> reads raw (p_str lib key def) def"
  unfolding p_str_def by (rule reads_bind [OF reads_lookup]) (simp add: reads_return)

lemma reads_str: "map_of raw key = Some (PvStr t) \<Longrightarrow> t \<noteq> [] \<Longrightarrow> reads raw (p_str lib key def) t"
  unfolding p_str_def by (rule reads_bind [OF reads_lookup]) (simp add: reads_return)

lemma reads_float_absent: "map_of raw key = None \<Longrightarrow> reads raw (p_float lib key def) def"
  unfolding p_float_def by (rule reads_bind [OF reads_lookup]) (simp add: reads_return)

lemma reads_float: "map_of raw key = Some (PvFloat x) \<Longrightarrow> reads raw (p_float lib key def) x"
  unfolding p_float_def by (rule reads_bind [OF reads_lookup]) (simp add: reads_return)

lemma reads_int:
  "reads raw (p_float lib key (fl_of_int def)) x \<Longrightarrow> int_of_float x = Some n \<Longrightarrow> reads raw (p_int lib key def) n"
  unfolding p_int_def by (erule reads_bind) (simp add: reads_return)

lemma bits_bound: "n < 2 ^ k \<Longrightarrow> bits n \<le> k"
proof (induction k arbitrary: n)
  case (Suc k)
  show ?case
  proof (cases "n = 0")
    case False
    have "n div 2 < 2 ^ k" using Suc.prems by (simp add: less_mult_imp_div_less)
    from Suc.IH [OF this] False show ?thesis by (subst bits.simps) simp
  qed (simp add: bits.simps)
qed (simp add: bits.simps)

lemma fl_quot_exact:
  assumes "0 < n" "n < 2 ^ 53"
  shows "\<exists>s. ratio (fl_quot n 1) = (n * 2 ^ s, 2 ^ s)"
proof -
  have b: "bits n \<le> 53" using bits_bound assms(2) by blast
  have one: "bits 1 = 1" by (simp add: bits.simps [of 1] bits.simps [of 0] del: One_nat_def)
  have r: "round_half_even a (Suc 0) = a" for a by (simp add: round_half_even_def)
  have "\<exists>s \<ge> 0. fl_quot n 1 = (n * 2 ^ nat s, s)"
    using assms(1) b unfolding fl_quot_def one Let_def by (auto simp: scaled_def r)
  then show ?thesis by (auto simp: ratio_def)
qed

text \<open>Integers below two to the 53 are doubles.\<close>

lemma fl_of_int_small:
  assumes "\<bar>n\<bar> < 2 ^ 53"
  shows "fl_of_int n = Fin (of_int n)"
proof (cases "n = 0")
  case True
  then show ?thesis by (simp add: fl_of_int_def fl_quot_def ratio_def)
next
  case False
  have "nat \<bar>n\<bar> < 2 ^ 53" using assms by (simp add: nat_less_iff)
  with False obtain s where "ratio (fl_quot (nat \<bar>n\<bar>) 1) = (nat \<bar>n\<bar> * 2 ^ s, 2 ^ s)"
    using fl_quot_exact [of "nat \<bar>n\<bar>"] by (metis zero_less_abs_iff zero_less_nat_eq)
  then show ?thesis by (auto simp: fl_of_int_def Let_def)
qed

lemma reads_int_absent:
  assumes "map_of raw key = None" "\<bar>def\<bar> < 2 ^ 31"
  shows "reads raw (p_int lib key def) def"
proof -
  have "fl_of_int def = Fin (of_int def)" using assms(2) by (intro fl_of_int_small) simp
  moreover have "of_int def \<le> (2147483647 :: rat)" "- 2147483648 \<le> (of_int def :: rat)"
    using assms(2) of_int_le_iff [of "def" "2147483647", where 'a = rat] of_int_le_iff [of "- 2147483648" "def", where 'a = rat]
    by auto
  ultimately show ?thesis
    by (intro reads_int [OF reads_float_absent [OF assms(1)]]) (auto simp: fl_max_int32_def fl_min_int32_def)
qed

section \<open>Presets with their required parameters only\<close>

lemma expand_reads:
  assumes "to_lower (trim_space name0) = name" "map_of presets name = Some info"
    and "find (\<lambda>(k, _). k \<notin> set (List.map pp_name info)) raw = None"
    and "find (\<lambda>pp. pp_required pp \<and> missing raw (pp_name pp)) info = None"
    and "reads raw (expander lib name) res"
  shows "expand_preset lib name0 raw = res"
proof -
  let ?p = "\<lparr>ps_preset = name, ps_m = raw, ps_err = None\<rparr>"
  have "run_state (expander lib name) ?p = (res, ?p)" using assms(5) by (simp add: reads_def)
  then show ?thesis
    unfolding expand_preset_def Let_def assms(1-4) option.case by (simp split: sum.split)
qed

lemmas preset_defs = presets_def host_param_def path_param_def num_param_def str_param_def

lemma compile_one_action:
  assumes "compile_action lib now 0 a = Inr act" "compile_path lib (trim_space path) = Inr pm"
    and "a_side act = ph_none \<or> a_side act = ph_request" "prob_ok q" "i \<noteq> []"
    and "ph = [] \<or> ph = ''request''"
  shows "\<exists>cr. compile_rule lib now ((preset_rule nm host path a)
     \<lparr>rs_match := zero_match\<lparr>ms_host := host, ms_path := path, ms_phase := ph\<rparr>, rs_prob := q, rs_id := i\<rparr>) = Inr cr
     \<and> c_phase cr = ph_request \<and> c_prob cr = q \<and> c_max_hits cr = 0"
proof -
  have t: "trim_space [] = []" "to_lower (trim_space ''request'') = ''request''" by code_simp+
  have st: "rule_status [] = Inr None" by (simp add: rule_status_def t)
  have p: "parse_phase ph = Inr ph_none \<or> parse_phase ph = Inr ph_request"
    using assms(6) by (auto simp: parse_phase_def t Let_def)
  have d: "derive_phase ph_none [act] False = ph_request" "derive_phase ph_request [act] False = ph_request"
    using assms(3) by (auto simp: derive_phase_def ph_defs)
  have "norm_scheme (zero_match\<lparr>ms_host := host, ms_path := path, ms_phase := ph\<rparr>) = []"
    by (simp add: norm_scheme_def zero_match_def t)
  moreover have "\<exists>act'. place_actions ph_request 0 [act] = Inr [act']"
    using assms(3) by (auto simp: ph_defs Let_def)
  ultimately show ?thesis
    using assms(1,2,4,5) p d
    by (auto simp: compile_rule_def Let_def preset_rule_def zero_rule_def zero_match_def t st build_rule_def
        check_that_def)
qed

lemma action_compiles:
  assumes "as_on a = []" "as_type a = type_str ty"
    and "compile_typed lib now 0 (fresh_action a ty (kind_def ty)) = Inr act"
  shows "compile_action lib now 0 a = Inr act"
proof -
  have a: "a\<lparr>as_type := type_str ty, as_on := []\<rparr> = a" using assms(1,2) by (cases a) simp
  have t: "to_lower (trim_space []) = []" by code_simp
  show ?thesis
    using assms unfolding compile_action_def Let_def assms(1,2) type_str_facts t
    by (simp only: type_str_facts if_False if_True option.case a fresh_action_def) simp
qed

lemma preset_paths: "compile_path lib (trim_space []) = Inr PathAny" "compile_path lib (trim_space ''*'') = Inr PathAny"
  by (simp_all add: compile_path_def trim_space_def trim_left_def trim_right_def is_space_def)

text \<open>What each preset expands to with a host and, for the failure rate, a rate.\<close>

definition preset_action :: "string \<Rightarrow> action_spec" where
  "preset_action name =
     (if name = ''slow_network'' then zero_action\<lparr>as_type := type_str ADelay, as_ms := 2000, as_jitter_ms := 500\<rparr>
      else if name = ''fail_rate'' then zero_action\<lparr>as_type := type_str AMock, as_status := 503, as_body := fail_body\<rparr>
      else if name = ''offline_host'' then zero_action\<lparr>as_type := type_str ABlock, as_mode := ''reset''\<rparr>
      else if name = ''timeout'' then zero_action\<lparr>as_type := type_str ABlock, as_mode := ''timeout'', as_ms := 30000\<rparr>
      else if name = ''rate_limit'' then
        zero_action\<lparr>as_type := type_str AMockEveryN, as_value := itoa 5, as_status := 429,
                    as_headers := [(''Retry-After'', itoa 2)], as_body := ''{\"error\":\"rate limited\"}''\<rparr>
      else zero_action\<lparr>as_type := type_str ABreakpoint\<rparr>)"

definition preset_title :: "string \<Rightarrow> string" where
  "preset_title name =
     (if name = ''slow_network'' then ''slow network'' else if name = ''fail_rate'' then ''fail rate''
      else if name = ''offline_host'' then ''offline'' else if name = ''timeout'' then ''timeout''
      else if name = ''rate_limit'' then ''rate limit'' else ''hold'')"

definition expanded :: "string \<Rightarrow> string \<Rightarrow> float64 \<Rightarrow> rule_spec" where
  "expanded name h x =
     (let path = (if name = ''hold'' then ''*'' else []); ph = (if name = ''hold'' then ''request'' else []) in
      (preset_rule (preset_title name) h path (preset_action name))
        \<lparr>rs_match := zero_match\<lparr>ms_host := h, ms_path := path, ms_phase := ph\<rparr>,
         rs_prob := (if name = ''fail_rate'' then x else Fin 0)\<rparr>)"

lemma expander_reads:
  assumes "map_of raw ''host'' = Some (PvStr h)" "h \<noteq> []" "\<forall>k. k \<noteq> ''host'' \<longrightarrow> k \<noteq> ''rate'' \<longrightarrow> map_of raw k = None"
    and "reads raw (p_float lib ''rate'' fl_three_tenths) x" "name \<in> set (List.map fst presets)"
  shows "reads raw (expander lib name) (Inr (expanded name h x))"
proof -
  note host = reads_str [OF assms(1,2)]
  have absent: "map_of raw k = None" if "k \<noteq> ''host''" "k \<noteq> ''rate''" for k using that assms(3) by simp
  note rd = reads_bind [OF host] reads_bind [OF reads_str_absent] reads_bind [OF reads_int_absent] reads_bind [OF assms(4)]
    reads_return_eq absent
  have on: "to_lower ''request'' = ''request''" by code_simp
  note d = expanded_def preset_rule_def preset_title_def preset_action_def zero_match_def zero_rule_def
  have "reads raw (slow_network lib) (Inr (expanded ''slow_network'' h x))"
    unfolding slow_network_def by (intro rd) (simp_all add: d)
  moreover have "reads raw (fail_rate lib) (Inr (expanded ''fail_rate'' h x))"
    unfolding fail_rate_def by (intro rd) (simp_all add: d)
  moreover have "reads raw (offline_host lib) (Inr (expanded ''offline_host'' h x))"
    unfolding offline_host_def by (intro rd) (simp_all add: d)
  moreover have "reads raw (timeout_preset lib) (Inr (expanded ''timeout'' h x))"
    unfolding timeout_preset_def by (intro rd) (simp_all add: d)
  moreover have "reads raw (rate_limit lib) (Inr (expanded ''rate_limit'' h x))"
    unfolding rate_limit_def by (intro rd) (simp_all add: d)
  moreover have "reads raw (hold_preset lib) (Inr (expanded ''hold'' h x))"
  proof -
    have "reads raw (do { path \<leftarrow> p_str lib ''path'' ''*'';
        State_Monad.return (Inr (let r = preset_rule ''hold'' h path (zero_action\<lparr>as_type := type_str ABreakpoint\<rparr>)
                     in r\<lparr>rs_match := (rs_match r)\<lparr>ms_phase := ''request''\<rparr>\<rparr>)) }) (Inr (expanded ''hold'' h x))"
      by (intro rd) (simp_all add: d)
    then show ?thesis
      unfolding hold_preset_def
      by (intro reads_bind [OF host] reads_bind [OF reads_str_absent] absent) (simp_all add: on Let_def del: to_lower_Cons)
  qed
  ultimately show ?thesis using assms(5) by (auto simp: presets_def expander_def)
qed

lemma preset_names:
  "List.map fst presets = [''slow_network'', ''fail_rate'', ''offline_host'', ''timeout'', ''rate_limit'', ''hold'']"
  by (simp add: presets_def)

lemma preset_action_compiles:
  assumes "name \<in> set (List.map fst presets)"
  shows "\<exists>act. compile_action lib now 0 (preset_action name) = Inr act \<and> (a_side act = ph_none \<or> a_side act = ph_request)"
proof -
  have t: "to_lower (trim_space ''reset'') = ''reset''" "to_lower (trim_space ''timeout'') = ''timeout''" by code_simp+
  have five: "trim_space (itoa 5) = itoa 5" "atoi (itoa 5) = Some 5" by code_simp+
  have ex: "\<exists>act. compile_action lib now 0 b = Inr act \<and> (a_side act = ph_none \<or> a_side act = ph_request)"
    if "\<exists>act. as_on b = [] \<and> as_type b = type_str ty \<and> compile_typed lib now 0 (fresh_action b ty (kind_def ty)) = Inr act
      \<and> a_side act = kind_def ty" "kind_def ty \<noteq> ph_response" for b ty
    using that action_compiles [of b ty] by (cases ty) auto
  note d = zero_action_def compile_typed_def check_status_def check_that_def t five fresh_action_def ph_defs Let_def
    preset_action_def
  from assms show ?thesis
    unfolding preset_names list.set
  proof (elim insertE emptyE)
    assume "name = ''slow_network''"
    then show ?thesis by (intro ex [where ty = ADelay]) (simp_all add: d)
  next
    assume "name = ''fail_rate''"
    then show ?thesis by (intro ex [where ty = AMock]) (simp_all add: d)
  next
    assume "name = ''offline_host''"
    then show ?thesis by (intro ex [where ty = ABlock]) (simp_all add: d)
  next
    assume "name = ''timeout''"
    then show ?thesis by (intro ex [where ty = ABlock]) (simp_all add: d)
  next
    assume "name = ''rate_limit''"
    then show ?thesis by (intro ex [where ty = AMockEveryN]) (simp_all add: d)
  next
    assume "name = ''hold''"
    then show ?thesis by (intro ex [where ty = ABreakpoint]) (simp_all add: d)
  qed
qed

lemma expanded_compiles:
  assumes "prob_ok x" "i \<noteq> []" "name \<in> set (List.map fst presets)"
  shows "\<exists>cr. compile_rule lib now ((expanded name h x)\<lparr>rs_id := i\<rparr>) = Inr cr \<and> c_phase cr = ph_request
    \<and> c_prob cr = (if name = ''fail_rate'' then x else Fin 0) \<and> c_max_hits cr = 0"
proof -
  obtain act where act: "compile_action lib now 0 (preset_action name) = Inr act" "a_side act = ph_none \<or> a_side act = ph_request"
    using preset_action_compiles [OF assms(3)] by blast
  show ?thesis
    unfolding expanded_def Let_def using assms(1,2) preset_paths [of lib]
    by (intro compile_one_action [OF act(1) _ act(2), where pm = PathAny]) auto
qed

section \<open>Properties\<close>

lemma preset_names_fixed:
  assumes "name \<in> set (List.map fst presets)"
  shows "to_lower (trim_space name) = name"
    and "\<exists>info. map_of presets name = Some info \<and> ''host'' \<in> set (List.map pp_name info)
      \<and> (\<forall>pp \<in> set info. pp_required pp \<longrightarrow> pp_name pp = ''host'')"
proof -
  have "list_all (\<lambda>n. to_lower (trim_space n) = n) (List.map fst presets)" by code_simp
  with assms show "to_lower (trim_space name) = name" by (auto simp: list_all_iff)
  show "\<exists>info. map_of presets name = Some info \<and> ''host'' \<in> set (List.map pp_name info)
      \<and> (\<forall>pp \<in> set info. pp_required pp \<longrightarrow> pp_name pp = ''host'')"
    using assms by (auto simp: preset_defs)
qed

text \<open>Every preset is usable with its required parameter alone: for any non-empty host it expands to
  a rule that compiles under any id, acts on requests only and, but for the failure rate, fires
  unconditionally.\<close>

theorem presets_compile:
  assumes "name \<in> set (List.map fst presets)" "h \<noteq> []" "i \<noteq> []"
  shows "\<exists>r cr. expand_preset pl name [(''host'', PvStr h)] = Inr r
    \<and> compile_rule lib now (r\<lparr>rs_id := i\<rparr>) = Inr cr \<and> c_phase cr = ph_request
    \<and> c_prob cr = (if name = ''fail_rate'' then fl_three_tenths else Fin 0)"
proof -
  let ?raw = "[(''host'', PvStr h)]"
  obtain info where info: "map_of presets name = Some info" "''host'' \<in> set (List.map pp_name info)"
    "\<forall>pp \<in> set info. pp_required pp \<longrightarrow> pp_name pp = ''host''"
    using preset_names_fixed(2) [OF assms(1)] by blast
  have "reads ?raw (expander pl name) (Inr (expanded name h fl_three_tenths))"
    using assms by (intro expander_reads reads_float_absent) auto
  then have "expand_preset pl name ?raw = Inr (expanded name h fl_three_tenths)"
    using preset_names_fixed(1) [OF assms(1)] info assms(2)
    by (intro expand_reads) (auto simp: find_None_iff missing_def)
  moreover have "prob_ok fl_three_tenths" by (simp add: fl_three_tenths_def)
  ultimately show ?thesis using expanded_compiles [of fl_three_tenths i name lib now h] assms by auto
qed

lemma presets_compile_witness:
  "\<forall>pl. \<exists>r cr. expand_preset pl ''rate_limit'' [(''host'', PvStr ''api.x.com'')] = Inr r
    \<and> compile_rule sample_lib 9 (r\<lparr>rs_id := ''r1''\<rparr>) = Inr cr \<and> c_phase cr = ph_request \<and> c_prob cr = Fin 0"
  using presets_compile [of "''rate_limit''" "''api.x.com''" "''r1''"] by (auto simp: presets_def)

text \<open>The failure rate 0 does not mean "never fail", nor is a rate that is not a number refused (the
  text "nan", which \<open>strconv.ParseFloat\<close> reads as NaN): in both cases the rule compiles and, however
  the random draw falls, every matching request is answered with the failure.\<close>

theorem fail_rate_zero_always_fails:
  assumes "h \<noteq> []" "i \<noteq> []" "pl_parse pl ''nan'' = Some NaN" "(v, x) \<in> {(PvFloat (Fin 0), Fin 0), (PvStr ''nan'', NaN)}"
  shows "\<exists>r cr. expand_preset pl ''fail_rate'' [(''host'', PvStr h), (''rate'', v)] = Inr r
    \<and> compile_rule lib now (r\<lparr>rs_id := i\<rparr>) = Inr cr \<and> c_prob cr = x
    \<and> (\<forall>e a draw. a < length (e_store e) \<longrightarrow> e_store e ! a = cr \<longrightarrow> fst (fire draw a e))"
proof -
  let ?raw = "[(''host'', PvStr h), (''rate'', v)]"
  have mem: "''fail_rate'' \<in> set (List.map fst presets)" by (simp add: presets_def)
  have nan: "trim_space ''nan'' = ''nan''" by code_simp
  have "reads ?raw (p_float pl ''rate'' fl_three_tenths) x"
    using assms(3,4) unfolding p_float_def
    by (intro reads_bind [OF reads_lookup]) (auto simp: reads_return nan)
  then have "reads ?raw (expander pl ''fail_rate'') (Inr (expanded ''fail_rate'' h x))"
    using assms(1) mem by (intro expander_reads) auto
  then have "expand_preset pl ''fail_rate'' ?raw = Inr (expanded ''fail_rate'' h x)"
    using assms(1) preset_names_fixed(1) [OF mem]
    by (intro expand_reads [where info = "[host_param, path_param, num_param ''rate'' (PvFloat fl_three_tenths),
          num_param ''status'' (PvInt 503), str_param ''body'' fail_body]"])
      (auto simp: preset_defs missing_def)
  moreover have x: "prob_ok x" "\<not> (fl_greater x 0 \<and> fl_less x 1)" using assms(4) by auto
  moreover obtain cr where cr: "compile_rule lib now ((expanded ''fail_rate'' h x)\<lparr>rs_id := i\<rparr>) = Inr cr"
      "c_prob cr = x" "c_max_hits cr = 0"
    using expanded_compiles [OF x(1) assms(2) mem, of lib now h] by auto
  moreover have "fst (fire draw a e)" if "e_store e ! a = cr" for e a draw
    using that x(2) cr by (auto simp: fire_def Let_def)
  ultimately show ?thesis by blast
qed

lemma fail_rate_zero_always_fails_witness:
  "\<exists>r cr. expand_preset \<lparr>pl_sprint = (\<lambda>_. []), pl_parse = (\<lambda>s. if s = ''nan'' then Some NaN else None)\<rparr> ''fail_rate''
       [(''host'', PvStr ''a.com''), (''rate'', PvStr ''nan'')] = Inr r
     \<and> compile_rule sample_lib 9 (r\<lparr>rs_id := ''r1''\<rparr>) = Inr cr \<and> c_prob cr = NaN"
  using fail_rate_zero_always_fails [of "''a.com''" "''r1''"
      "\<lparr>pl_sprint = (\<lambda>_. []), pl_parse = (\<lambda>s. if s = ''nan'' then Some NaN else None)\<rparr>" "PvStr ''nan''" NaN sample_lib 9]
  by auto

end
