(* ===== verification/Rules_Body.thy ===== *)
theory Rules_Body
  imports Rules_Gate
begin

text \<open>
  \<open>internal/rules/body.go\<close>: reading and replacing bodies, the JSON patch, mock responses. Decompression,
  regular expressions, templates and the JSON codec are functions of \<open>rule_lib\<close>. An exchange is the
  flow with its captured headers (the mirror), the request and, in the response phase, the response.
\<close>

section \<open>Errors\<close>

datatype body_error =
    BodyTooLarge | ReadError string | GunzipError | UnsupportedEncoding string | NotJson | EmptyPath
  | BadIndex string string nat | CannotDescend string json string | TemplateError

definition max_body_bytes :: nat where
  "max_body_bytes = 8 * 2 ^ 20"

section \<open>Reading a body\<close>

text \<open>The bytes read and the error; with an error the caller gets a reader over the whole body again.\<close>

fun slurp :: "body \<Rightarrow> string \<times> body_error option" where
  "slurp NoBody = ([], None)"
| "slurp (Body d err) =
     (let data = take (Suc max_body_bytes) d in
      if max_body_bytes < length d then (data, Some BodyTooLarge)
      else (data, map_option ReadError err))"

definition decode_content :: "rule_lib \<Rightarrow> string \<Rightarrow> string \<Rightarrow> body_error + string \<times> bool" where
  "decode_content lib data encoding =
     (let en = to_lower (trim_space encoding) in
      if en = [] \<or> en = ''identity'' then Inr (data, False)
      else if en = ''gzip'' \<or> en = ''x-gzip'' then
        (if data = [] then Inr (data, True)
         else case rl_gunzip lib data of
                None \<Rightarrow> Inl GunzipError
              | Some (out, ok) \<Rightarrow>
                  if max_body_bytes < length out then Inl BodyTooLarge
                  else if \<not> ok then Inl GunzipError else Inr (out, True))
      else Inl (UnsupportedEncoding encoding))"

section \<open>The exchange and its two sides\<close>

text \<open>\<open>x_mirrored\<close>: which of the flow's two header copies exist (a nil map is left alone).\<close>

record exchange =
  x_flow :: flow
  x_req :: request
  x_resp :: "response option"
  x_mirrored :: phase_mask

datatype side = ReqSide | RespSide

definition on_req :: "(request \<Rightarrow> request) \<Rightarrow> exchange \<Rightarrow> exchange" where
  "on_req g x = x\<lparr>x_req := g (x_req x)\<rparr>"

definition on_resp :: "(response \<Rightarrow> response) \<Rightarrow> exchange \<Rightarrow> exchange" where
  "on_resp g x = x\<lparr>x_resp := map_option g (x_resp x)\<rparr>"

definition on_flow :: "(flow \<Rightarrow> flow) \<Rightarrow> exchange \<Rightarrow> exchange" where
  "on_flow g x = x\<lparr>x_flow := g (x_flow x)\<rparr>"

fun side_header :: "side \<Rightarrow> exchange \<Rightarrow> header" where
  "side_header ReqSide x = rq_header (x_req x)"
| "side_header RespSide x = (case x_resp x of Some r \<Rightarrow> rp_header r | None \<Rightarrow> [])"

fun side_mirror :: "side \<Rightarrow> exchange \<Rightarrow> header" where
  "side_mirror ReqSide x = fl_req_headers (x_flow x)"
| "side_mirror RespSide x = fl_resp_headers (x_flow x)"

fun side_body :: "side \<Rightarrow> exchange \<Rightarrow> body" where
  "side_body ReqSide x = rq_body (x_req x)"
| "side_body RespSide x = (case x_resp x of Some r \<Rightarrow> rp_body r | None \<Rightarrow> NoBody)"

fun mirrored :: "side \<Rightarrow> exchange \<Rightarrow> bool" where
  "mirrored ReqSide x = fst (x_mirrored x)"
| "mirrored RespSide x = snd (x_mirrored x)"

fun edit_headers :: "(header \<Rightarrow> header) \<Rightarrow> side \<Rightarrow> exchange \<Rightarrow> exchange" where
  "edit_headers g ReqSide x =
     (let x1 = on_req (\<lambda>r. r\<lparr>rq_header := g (rq_header r)\<rparr>) x
      in if mirrored ReqSide x then on_flow (\<lambda>f. f\<lparr>fl_req_headers := g (fl_req_headers f)\<rparr>) x1 else x1)"
| "edit_headers g RespSide x =
     (let x1 = on_resp (\<lambda>r. r\<lparr>rp_header := g (rp_header r)\<rparr>) x
      in if mirrored RespSide x then on_flow (\<lambda>f. f\<lparr>fl_resp_headers := g (fl_resp_headers f)\<rparr>) x1 else x1)"

definition set_header :: "string \<Rightarrow> string \<Rightarrow> side \<Rightarrow> exchange \<Rightarrow> exchange" where
  "set_header name v = edit_headers (header_set name v)"

definition del_header :: "string \<Rightarrow> side \<Rightarrow> exchange \<Rightarrow> exchange" where
  "del_header name = edit_headers (header_del name)"

fun put_body :: "body \<Rightarrow> side \<Rightarrow> exchange \<Rightarrow> exchange" where
  "put_body b ReqSide x = on_req (\<lambda>r. r\<lparr>rq_body := b\<rparr>) x"
| "put_body b RespSide x = on_resp (\<lambda>r. r\<lparr>rp_body := b\<rparr>) x"

definition restore :: "string \<Rightarrow> side \<Rightarrow> exchange \<Rightarrow> exchange" where
  "restore data s x = put_body (if data = [] then NoBody else Body data None) s x"

fun put_framing :: "int \<Rightarrow> side \<Rightarrow> exchange \<Rightarrow> exchange" where
  "put_framing n ReqSide x = on_req (\<lambda>r. r\<lparr>rq_length := n, rq_te := []\<rparr>) x"
| "put_framing n RespSide x = on_resp (\<lambda>r. r\<lparr>rp_length := n, rp_te := []\<rparr>) x"

fun clear_encoding :: "side \<Rightarrow> exchange \<Rightarrow> exchange" where
  "clear_encoding ReqSide x = on_flow (\<lambda>f. f\<lparr>fl_req_body := (fl_req_body f)\<lparr>br_encoding := []\<rparr>\<rparr>) x"
| "clear_encoding RespSide x = on_flow (\<lambda>f. f\<lparr>fl_resp_body := (fl_resp_body f)\<lparr>br_encoding := []\<rparr>\<rparr>) x"

definition set_body :: "string \<Rightarrow> bool \<Rightarrow> side \<Rightarrow> exchange \<Rightarrow> exchange" where
  "set_body data decoded s x =
     (let x1 = put_framing (int (length data)) s (restore data s x);
          x2 = set_header ''Content-Length'' (itoa (int (length data))) s x1
      in if decoded then clear_encoding s (del_header ''Content-Encoding'' s x2) else x2)"

definition skipped :: "(body_error \<Rightarrow> string) \<Rightarrow> body_error \<Rightarrow> string" where
  "skipped txt err = ''skipped: '' @ txt err"

definition rewrite_note :: "nat \<Rightarrow> nat \<Rightarrow> string" where
  "rewrite_note a b = itoa (int a) @ '' -> '' @ itoa (int b) @ '' bytes''"

text \<open>\<open>txt\<close> gives the error texts, on which nothing depends.\<close>

definition rewrite ::
  "rule_lib \<Rightarrow> (body_error \<Rightarrow> string) \<Rightarrow> (string \<Rightarrow> body_error + string) \<Rightarrow> side \<Rightarrow> exchange \<Rightarrow> string \<times> exchange" where
  "rewrite lib txt fn s x =
     (let (data, err) = slurp (side_body s x) in
      case err of
        Some er \<Rightarrow> (skipped txt er, x)
      | None \<Rightarrow>
          (case decode_content lib data (header_get (side_header s x) ''Content-Encoding'') of
             Inl er \<Rightarrow> (skipped txt er, restore data s x)
           | Inr (plain, decoded) \<Rightarrow>
               (case fn plain of
                  Inl er \<Rightarrow> (skipped txt er, restore data s x)
                | Inr out \<Rightarrow> (rewrite_note (length plain) (length out), set_body out decoded s x))))"

section \<open>The JSON patch\<close>

text \<open>A missing member of an object reads as nil, like a JSON null.\<close>

definition member :: "(string \<times> json) list \<Rightarrow> string \<Rightarrow> json" where
  "member fs k = (case map_of fs k of None \<Rightarrow> JNull | Some v \<Rightarrow> v)"

fun set_path :: "json \<Rightarrow> string list \<Rightarrow> json \<Rightarrow> string \<Rightarrow> body_error + json" where
  "set_path node [] v full = Inr v"
| "set_path node (seg # rest) v full =
     (case node of
        JNull \<Rightarrow>
          and_then (set_path JNull rest v full) (\<lambda>child.
            Inr (if atoi seg = Some 0 then JArr [child] else JObj [(seg, child)]))
      | JObj fs \<Rightarrow>
          and_then (set_path (member fs seg) rest v full) (\<lambda>child. Inr (JObj (map_put seg child fs)))
      | JArr xs \<Rightarrow>
          (case atoi seg of
             None \<Rightarrow> Inl (BadIndex full seg (length xs))
           | Some idx \<Rightarrow>
               if idx < 0 \<or> int (length xs) < idx then Inl (BadIndex full seg (length xs))
               else if idx = int (length xs)
                    then and_then (set_path JNull rest v full) (\<lambda>child. Inr (JArr (xs @ [child])))
                    else and_then (set_path (xs ! nat idx) rest v full) (\<lambda>child. Inr (JArr (xs[nat idx := child]))))
      | _ \<Rightarrow> Inl (CannotDescend full node seg))"

fun patch_all :: "(string \<times> json) list \<Rightarrow> json \<Rightarrow> body_error + json" where
  "patch_all [] doc = Inr doc"
| "patch_all ((p, v) # ps) doc =
     (if trim_space p = [] then Inl EmptyPath
      else and_then (set_path doc (str_split (CHR ''.'') p) v p) (patch_all ps))"

definition json_patch :: "rule_lib \<Rightarrow> string \<Rightarrow> (string \<times> json) list \<Rightarrow> body_error + string" where
  "json_patch lib data patch =
     and_then (if trim_space data = [] then Inr (JObj [])
               else case rl_json_decode lib data of None \<Rightarrow> Inl NotJson | Some d \<Rightarrow> Inr d) (\<lambda>doc0.
     and_then (patch_all (sort_key fst patch) doc0) (\<lambda>doc.
       Inr (trim_right (\<lambda>c. c = CHR 0x0A) (rl_json_encode lib doc))))"

definition transform :: "rule_lib \<Rightarrow> action \<Rightarrow> template_data \<Rightarrow> string \<Rightarrow> body_error + string" where
  "transform lib a td b =
     (case a_re a of
        Some re \<Rightarrow> Inr (rl_re_replace lib re (as_replace (a_spec a)) b)
      | None \<Rightarrow>
          (case a_tmpl a of
             Some t \<Rightarrow> (case rl_tmpl_exec lib t (td\<lparr>td_body := b\<rparr>) of Some out \<Rightarrow> Inr out | None \<Rightarrow> Inl TemplateError)
           | None \<Rightarrow> json_patch lib b (as_json_patch (a_spec a))))"

section \<open>Mock responses\<close>

text \<open>\<open>http.StatusText\<close>.\<close>

definition status_texts :: "(int \<times> string) list" where
  "status_texts =
     [(100, ''Continue''), (101, ''Switching Protocols''), (102, ''Processing''), (103, ''Early Hints''),
      (200, ''OK''), (201, ''Created''), (202, ''Accepted''), (203, ''Non-Authoritative Information''),
      (204, ''No Content''), (205, ''Reset Content''), (206, ''Partial Content''), (207, ''Multi-Status''),
      (208, ''Already Reported''), (226, ''IM Used''), (300, ''Multiple Choices''), (301, ''Moved Permanently''),
      (302, ''Found''), (303, ''See Other''), (304, ''Not Modified''), (305, ''Use Proxy''),
      (307, ''Temporary Redirect''), (308, ''Permanent Redirect''), (400, ''Bad Request''), (401, ''Unauthorized''),
      (402, ''Payment Required''), (403, ''Forbidden''), (404, ''Not Found''), (405, ''Method Not Allowed''),
      (406, ''Not Acceptable''), (407, ''Proxy Authentication Required''), (408, ''Request Timeout''),
      (409, ''Conflict''), (410, ''Gone''), (411, ''Length Required''), (412, ''Precondition Failed''),
      (413, ''Request Entity Too Large''), (414, ''Request URI Too Long''), (415, ''Unsupported Media Type''),
      (416, ''Requested Range Not Satisfiable''), (417, ''Expectation Failed''),
      (418, ''I'' @ [CHR 0x27] @ ''m a teapot''), (421, ''Misdirected Request''), (422, ''Unprocessable Entity''),
      (423, ''Locked''), (424, ''Failed Dependency''), (425, ''Too Early''), (426, ''Upgrade Required''),
      (428, ''Precondition Required''), (429, ''Too Many Requests''), (431, ''Request Header Fields Too Large''),
      (451, ''Unavailable For Legal Reasons''), (500, ''Internal Server Error''), (501, ''Not Implemented''),
      (502, ''Bad Gateway''), (503, ''Service Unavailable''), (504, ''Gateway Timeout''),
      (505, ''HTTP Version Not Supported''), (506, ''Variant Also Negotiates''), (507, ''Insufficient Storage''),
      (508, ''Loop Detected''), (510, ''Not Extended''), (511, ''Network Authentication Required'')]"

definition status_text :: "int \<Rightarrow> string" where
  "status_text code = (case map_of status_texts code of Some t \<Rightarrow> t | None \<Rightarrow> [])"

definition status_line :: "int \<Rightarrow> string" where
  "status_line code = itoa code @ '' '' @ status_text code"

definition looks_json :: "rule_lib \<Rightarrow> string \<Rightarrow> bool" where
  "looks_json lib s =
     (let t = trim_space s in
      if t = [] \<or> (hd t \<noteq> CHR ''{'' \<and> hd t \<noteq> CHR ''['') then False else rl_json_decode lib t \<noteq> None)"

text \<open>Of two configured names with one canonical form, the map order decides; here the later one.\<close>

definition mock_headers :: "rule_lib \<Rightarrow> (string \<times> string) list \<Rightarrow> string \<Rightarrow> header" where
  "mock_headers lib headers body =
     (let h = foldl (\<lambda>h (k, v). header_set k v h) [] headers;
          h = (if header_get h ''Content-Type'' = []
               then header_set ''Content-Type''
                      (if looks_json lib body then ''application/json'' else ''text/plain; charset=utf-8'') h
               else h)
      in header_set ''Content-Length'' (itoa (int (length body))) h)"

definition build_mock :: "rule_lib \<Rightarrow> int \<Rightarrow> (string \<times> string) list \<Rightarrow> string \<Rightarrow> response" where
  "build_mock lib status0 headers body =
     (let status = (if status0 = 0 then 200 else status0) in
      \<lparr>rp_status = status, rp_status_line = status_line status, rp_header = mock_headers lib headers body,
       rp_body = Body body None, rp_length = int (length body), rp_te = []\<rparr>)"

section \<open>Reading back what a patch wrote\<close>

fun json_step :: "json \<Rightarrow> string \<Rightarrow> json option" where
  "json_step (JObj fs) seg = map_of fs seg"
| "json_step (JArr xs) seg =
     (case atoi seg of None \<Rightarrow> None | Some i \<Rightarrow> if 0 \<le> i \<and> i < int (length xs) then Some (xs ! nat i) else None)"
| "json_step _ seg = None"

fun json_at :: "json \<Rightarrow> string list \<Rightarrow> json option" where
  "json_at d [] = Some d"
| "json_at d (seg # rest) = (case json_step d seg of None \<Rightarrow> None | Some c \<Rightarrow> json_at c rest)"

text \<open>Two segments select the same child: by key in an object, by number in an array.\<close>

fun same_step :: "json \<Rightarrow> string \<Rightarrow> string \<Rightarrow> bool" where
  "same_step (JArr xs) s t = (atoi s = atoi t)"
| "same_step _ s t = (s = t)"

text \<open>The second path leaves the first one before either ends.\<close>

fun apart :: "json \<Rightarrow> string list \<Rightarrow> string list \<Rightarrow> bool" where
  "apart d (s # p) (t # q) =
     (if same_step d s t then (case json_step d s of Some c \<Rightarrow> apart c p q | None \<Rightarrow> False) else True)"
| "apart d _ _ = False"

lemma set_path_reads_back: "set_path d p v full = Inr d' \<Longrightarrow> json_at d' p = Some v"
proof (induction d p v full arbitrary: d' rule: set_path.induct)
  case (2 node seg rest v full)
  show ?case
  proof (cases node)
    case JNull
    with 2 show ?thesis by (auto simp: and_then_Inr)
  next
    case (JObj fs)
    with 2 show ?thesis by (auto simp: and_then_Inr)
  next
    case (JArr xs)
    with 2 show ?thesis by (auto simp: and_then_Inr nth_append split: option.splits if_splits)
  qed (use 2 in auto)
qed simp

lemma set_path_frame:
  "set_path d p v full = Inr d' \<Longrightarrow> apart d p q \<Longrightarrow> json_at d q = Some w \<Longrightarrow> json_at d' q = Some w"
proof (induction d p v full arbitrary: d' q rule: set_path.induct)
  case (2 node seg rest v full)
  obtain t q' where q: "q = t # q'" using 2(6) by (cases q) auto
  show ?case
  proof (cases node)
    case (JObj fs)
    then obtain child where c: "set_path (member fs seg) rest v full = Inr child" "d' = JObj (map_put seg child fs)"
      using 2(5) by (auto simp: and_then_Inr)
    show ?thesis
    proof (cases "seg = t")
      case True
      then obtain b where b: "map_of fs seg = Some b" "apart b rest q'" "json_at b q' = Some w"
        using 2(6,7) JObj q by (auto split: option.splits)
      then have "json_at child q' = Some w" using 2(4) [OF JObj] c(1) by (simp add: member_def)
      with True q c(2) show ?thesis by simp
    next
      case False
      with 2(7) q c(2) JObj show ?thesis by simp
    qed
  next
    case (JArr xs)
    then obtain i where i: "atoi seg = Some i" "0 \<le> i" "i \<le> int (length xs)"
      using 2(5) by (auto split: option.splits if_splits)
    obtain j where j: "atoi t = Some j" "0 \<le> j" "j < int (length xs)" "json_at (xs ! nat j) q' = Some w"
      using 2(7) JArr q by (auto split: option.splits if_splits)
    show ?thesis
    proof (cases "i = int (length xs)")
      case True
      with 2(5) JArr i j q show ?thesis by (auto simp: and_then_Inr nth_append)
    next
      case False
      then obtain child where c: "set_path (xs ! nat i) rest v full = Inr child" "d' = JArr (xs[nat i := child])"
        using 2(5) i JArr by (auto simp: and_then_Inr)
      show ?thesis
      proof (cases "i = j")
        case True
        then have "apart (xs ! nat i) rest q'" using 2(6) JArr q i j by (auto split: if_splits)
        then have "json_at child q' = Some w" using 2(3) [OF JArr i(1)] False i c(1) True j(4) by auto
        with True q c(2) j show ?thesis by simp
      next
        case ne: False
        with q c(2) j i show ?thesis by (simp add: nth_list_update nat_eq_iff)
      qed
    qed
  qed (use 2(7) q in auto)
qed simp

section \<open>What the side operations touch\<close>

named_theorems side_simps

definition side_ok :: "side \<Rightarrow> exchange \<Rightarrow> bool" where
  "side_ok s x = (s = RespSide \<longrightarrow> x_resp x \<noteq> None)"

fun side_length :: "side \<Rightarrow> exchange \<Rightarrow> int" where
  "side_length ReqSide x = rq_length (x_req x)"
| "side_length RespSide x = (case x_resp x of Some r \<Rightarrow> rp_length r | None \<Rightarrow> 0)"

fun side_te :: "side \<Rightarrow> exchange \<Rightarrow> string list" where
  "side_te ReqSide x = rq_te (x_req x)"
| "side_te RespSide x = (case x_resp x of Some r \<Rightarrow> rp_te r | None \<Rightarrow> [])"

lemmas on_defs = on_req_def on_resp_def on_flow_def

lemma side_header_edit [side_simps]: "side_ok s x \<Longrightarrow> side_header s (edit_headers g s x) = g (side_header s x)"
  by (cases s) (auto simp: side_ok_def on_defs Let_def)

lemma side_mirror_edit [side_simps]:
  "side_mirror s (edit_headers g s x) = (if mirrored s x then g (side_mirror s x) else side_mirror s x)"
  by (cases s) (auto simp: on_defs Let_def)

lemma side_edit_rest [side_simps]:
  "side_body s (edit_headers g s' x) = side_body s x" "side_length s (edit_headers g s' x) = side_length s x"
  "side_te s (edit_headers g s' x) = side_te s x" "mirrored s (edit_headers g s' x) = mirrored s x"
  "side_ok s (edit_headers g s' x) = side_ok s x"
  by (cases s; cases s'; auto simp: on_defs Let_def side_ok_def split: option.split)+

lemma side_edit_other [side_simps]:
  "s \<noteq> s' \<Longrightarrow> side_header s (edit_headers g s' x) = side_header s x"
  "s \<noteq> s' \<Longrightarrow> side_mirror s (edit_headers g s' x) = side_mirror s x"
  by (cases s; cases s'; auto simp: on_defs Let_def split: option.split)+

lemma side_put_body [side_simps]:
  "side_header s (put_body b s' x) = side_header s x" "side_mirror s (put_body b s' x) = side_mirror s x"
  "side_length s (put_body b s' x) = side_length s x" "side_te s (put_body b s' x) = side_te s x"
  "mirrored s (put_body b s' x) = mirrored s x" "side_ok s (put_body b s' x) = side_ok s x"
  by (cases s; cases s'; auto simp: on_defs side_ok_def split: option.split)+

lemma side_body_put [side_simps]: "side_ok s x \<Longrightarrow> side_body s (put_body b s x) = b"
  by (cases s) (auto simp: on_defs side_ok_def)

lemma side_framing [side_simps]:
  "side_header s (put_framing n s' x) = side_header s x" "side_mirror s (put_framing n s' x) = side_mirror s x"
  "side_body s (put_framing n s' x) = side_body s x" "mirrored s (put_framing n s' x) = mirrored s x"
  "side_ok s (put_framing n s' x) = side_ok s x"
  by (cases s; cases s'; auto simp: on_defs side_ok_def split: option.split)+

lemma side_length_framing [side_simps]:
  "side_ok s x \<Longrightarrow> side_length s (put_framing n s x) = n" "side_ok s x \<Longrightarrow> side_te s (put_framing n s x) = []"
  by (cases s; auto simp: on_defs side_ok_def)+

lemma side_clear_encoding [side_simps]:
  "side_header s (clear_encoding s' x) = side_header s x" "side_mirror s (clear_encoding s' x) = side_mirror s x"
  "side_body s (clear_encoding s' x) = side_body s x" "mirrored s (clear_encoding s' x) = mirrored s x"
  "side_length s (clear_encoding s' x) = side_length s x" "side_te s (clear_encoding s' x) = side_te s x"
  "side_ok s (clear_encoding s' x) = side_ok s x"
  by (cases s; cases s'; auto simp: on_defs side_ok_def split: option.split)+

section \<open>The flow's header copies stay in sync\<close>

definition in_sync :: "side \<Rightarrow> exchange \<Rightarrow> bool" where
  "in_sync s x = (mirrored s x \<longrightarrow> (\<forall>k. header_values (side_mirror s x) k = header_values (side_header s x) k))"

lemma header_values_set: "header_values (header_set n v h) k = (if canonical_key k = canonical_key n then [v] else header_values h k)"
  by (auto simp: header_values_def header_set_def)

lemma in_sync_edit:
  assumes "\<And>h h'. (\<forall>k. header_values h k = header_values h' k) \<Longrightarrow> \<forall>k. header_values (g h) k = header_values (g h') k"
    and "in_sync s x" "side_ok s' x"
  shows "in_sync s (edit_headers g s' x)"
proof (cases "s = s'")
  case True
  with assms show ?thesis by (auto simp: in_sync_def side_simps)
next
  case False
  with assms(2) show ?thesis by (auto simp: in_sync_def side_simps)
qed

lemma in_sync_set_header [intro]: "in_sync s x \<Longrightarrow> side_ok s' x \<Longrightarrow> in_sync s (set_header n v s' x)"
  unfolding set_header_def by (rule in_sync_edit) (auto simp: header_values_set)

lemma in_sync_del_header [intro]: "in_sync s x \<Longrightarrow> side_ok s' x \<Longrightarrow> in_sync s (del_header n s' x)"
  unfolding del_header_def by (rule in_sync_edit) (auto simp: header_values_del_if)

lemma in_sync_restore [intro]: "in_sync s x \<Longrightarrow> in_sync s (restore data s' x)"
  by (auto simp: in_sync_def restore_def side_simps)

lemma side_ok_ops [simp]:
  "side_ok s (set_header n v s' x) = side_ok s x" "side_ok s (del_header n s' x) = side_ok s x"
  "side_ok s (restore data s' x) = side_ok s x" "side_ok s (set_body data dec s' x) = side_ok s x"
  by (simp_all add: set_header_def del_header_def restore_def set_body_def Let_def side_simps)

lemma in_sync_set_body [intro]:
  assumes "in_sync s x" "side_ok s' x"
  shows "in_sync s (set_body data dec s' x)"
proof -
  have c: "in_sync s (clear_encoding s' y) = in_sync s y" "in_sync s (put_framing n s' y) = in_sync s y" for y n
    by (simp_all add: in_sync_def side_simps)
  show ?thesis
    using assms by (auto simp: set_body_def Let_def c side_simps intro!: in_sync_set_header in_sync_del_header in_sync_restore)
qed

lemma in_sync_rewrite [intro]:
  "in_sync s x \<Longrightarrow> side_ok s' x \<Longrightarrow> rewrite lib txt fn s' x = (note, x') \<Longrightarrow> in_sync s x'"
  by (auto simp: rewrite_def Let_def split: prod.splits option.splits sum.splits)

section \<open>Rewriting a body\<close>

fun body_err :: "body \<Rightarrow> string option" where
  "body_err NoBody = None"
| "body_err (Body d e) = e"

definition same_bytes :: "body \<Rightarrow> body \<Rightarrow> bool" where
  "same_bytes b c = (body_data b = body_data c \<and> body_err b = body_err c)"

lemma slurp_whole: "slurp b = (data, None) \<Longrightarrow> data = body_data b \<and> body_err b = None"
  by (cases b) (auto simp: Let_def split: if_splits)

lemma same_bytes_restore: "slurp b = (data, None) \<Longrightarrow> same_bytes (if data = [] then NoBody else Body data None) b"
  using slurp_whole [of b data] by (auto simp: same_bytes_def)

definition rewritten :: "string \<Rightarrow> bool \<Rightarrow> side \<Rightarrow> exchange \<Rightarrow> exchange \<Rightarrow> bool" where
  "rewritten out decoded s x x' =
     (body_data (side_body s x') = out \<and> body_err (side_body s x') = None
      \<and> side_length s x' = int (length out) \<and> side_te s x' = []
      \<and> header_values (side_header s x') ''Content-Length'' = [itoa (int (length out))]
      \<and> (decoded \<longrightarrow> header_values (side_header s x') ''Content-Encoding'' = [])
      \<and> (\<forall>k. canonical_key k \<noteq> ''Content-Length'' \<longrightarrow> canonical_key k \<noteq> ''Content-Encoding'' \<or> \<not> decoded \<longrightarrow>
           header_values (side_header s x') k = header_values (side_header s x) k))"

lemma canonical_names:
  "canonical_key ''Content-Length'' = ''Content-Length''" "canonical_key ''Content-Encoding'' = ''Content-Encoding''"
  by code_simp+

lemma set_body_rewritten:
  assumes "side_ok s x"
  shows "rewritten data dec s x (set_body data dec s x)"
  using assms
  by (auto simp: rewritten_def set_body_def Let_def side_simps set_header_def del_header_def restore_def
      header_values_set header_values_del_if canonical_names split: if_splits)

end
