(* ===== verification/Rules_Apply.thy ===== *)
theory Rules_Apply
  imports Rules_Body
begin

text \<open>
  The rest of \<open>internal/rules/apply.go\<close> and the edits of \<open>hold.go\<close>: what every action does to an
  exchange, and the loops over actions and rules. What happens during an action that waits (the
  jitter drawn, a cancelled delay, how a breakpoint was left) is its \<open>action_input\<close>.
\<close>

section \<open>Decisions and inputs\<close>

datatype decision = MockWith response | BlockReset | BlockTimeout duration

record resume_request =
  rr_action :: string
  rr_url :: string
  rr_method :: string
  rr_status :: int
  rr_set_headers :: "(string \<times> string) list"
  rr_remove_headers :: "string list"
  rr_body :: "string option"
  rr_body_patch :: "(string \<times> json) list"

datatype hold_outcome = Resumed resume_request | ClientGone | HoldTimeout

record action_input =
  ai_jitter :: int
  ai_cancelled :: "duration option"
  ai_hold :: hold_outcome

definition record_hit :: "compiled_rule \<Rightarrow> side \<Rightarrow> string \<Rightarrow> string \<Rightarrow> exchange \<Rightarrow> exchange" where
  "record_hit cr s typ note =
     on_flow (\<lambda>f. f\<lparr>fl_rules := fl_rules f @
       [\<lparr>rh_rule_id = c_id cr, rh_name = c_name cr,
         rh_phase = ph_str (if s = ReqSide then ph_request else ph_response), rh_action = typ, rh_note = note\<rparr>]\<rparr>)"

section \<open>Single actions\<close>

text \<open>\<open>ai_cancelled\<close>: how long the delay had lasted when its context ended first.\<close>

definition delay_for :: "action_input \<Rightarrow> action \<Rightarrow> duration" where
  "delay_for inp a =
     wrap_int (as_ms (a_spec a) * millisecond
       + (if 0 < as_jitter_ms (a_spec a) then (ai_jitter inp mod (as_jitter_ms (a_spec a) + 1)) * millisecond else 0))"

definition delay_note :: "action_input \<Rightarrow> action \<Rightarrow> string" where
  "delay_note inp a =
     (let d = delay_for inp a in
      if d \<le> 0 then ''0ms''
      else case ai_cancelled inp of
             None \<Rightarrow> itoa (go_div d millisecond) @ ''ms''
           | Some el \<Rightarrow> ''cancelled after '' @ itoa (go_div el millisecond) @ ''ms'')"

text \<open>The mock answer of an action; the counter of \<open>mock_every_n\<close>.\<close>

definition mock_of :: "rule_lib \<Rightarrow> action \<Rightarrow> response" where
  "mock_of lib a = build_mock lib (as_status (a_spec a)) (as_headers (a_spec a)) (as_body (a_spec a))"

definition tick :: "action \<Rightarrow> bool \<times> action" where
  "tick a = (let n = wrap_int (a_counter a + 1) in (go_rem n (a_every a) = 0, a\<lparr>a_counter := n\<rparr>))"

definition block :: "rule_lib \<Rightarrow> string \<Rightarrow> action \<Rightarrow> decision \<times> string" where
  "block lib rule_id a =
     (let sp = a_spec a in
      if as_mode sp = ''reset'' then (BlockReset, ''reset'')
      else if as_mode sp = ''timeout'' then
        (let ms = (if as_ms sp = 0 then 30000 else as_ms sp)
         in (BlockTimeout (wrap_int (ms * millisecond)), ''timeout '' @ itoa ms @ ''ms''))
      else
        (let status = (if as_status sp = 0 then 502 else as_status sp);
             body = (if as_body sp = [] then ''{\"error\":\"blocked by pano rule '' @ rule_id @ ''\"}'' else as_body sp)
         in (MockWith (build_mock lib status (as_headers sp) body), ''status '' @ itoa status)))"

definition redirect :: "url \<Rightarrow> action \<Rightarrow> exchange \<Rightarrow> string \<times> exchange" where
  "redirect u a x =
     (let r = x_req x; origin = u_host (rq_url r);
          url1 = (rq_url r)\<lparr>u_scheme := u_scheme u, u_host := u_host u\<rparr>;
          p = trim_suffix (u_path u) ''/'';
          url2 = (if p \<noteq> [] then url1\<lparr>u_path := p @ u_path url1, u_raw_path := []\<rparr> else url1);
          f1 = (if p \<noteq> [] then (x_flow x)\<lparr>fl_path := u_path url2\<rparr> else x_flow x);
          r1 = r\<lparr>rq_url := url2\<rparr>;
          r2 = (if as_preserve_host (a_spec a) then r1 else r1\<lparr>rq_host := u_host u\<rparr>)
      in (origin @ '' -> '' @ u_scheme u @ ''://'' @ u_host u,
          x\<lparr>x_req := r2, x_flow := f1\<lparr>fl_scheme := u_scheme u\<rparr>\<rparr>))"

fun add_tags_list :: "string list \<Rightarrow> string list \<Rightarrow> string list" where
  "add_tags_list ts [] = ts"
| "add_tags_list ts (t # rest) = add_tags_list (if t \<in> set ts then ts else ts @ [t]) rest"

definition add_tags :: "string list \<Rightarrow> exchange \<Rightarrow> string \<times> exchange" where
  "add_tags tags x = (str_join '','' tags, on_flow (\<lambda>f. f\<lparr>fl_tags := add_tags_list (fl_tags f) tags\<rparr>) x)"

definition set_query :: "rule_lib \<Rightarrow> action \<Rightarrow> exchange \<Rightarrow> exchange" where
  "set_query lib a x =
     (let r = x_req x; q = map_put (as_name (a_spec a)) [as_value (a_spec a)] (rl_query_parse lib (u_raw_query (rq_url r)));
          raw = rl_query_encode lib q
      in x\<lparr>x_req := r\<lparr>rq_url := (rq_url r)\<lparr>u_raw_query := raw\<rparr>\<rparr>, x_flow := (x_flow x)\<lparr>fl_query := raw\<rparr>\<rparr>)"

fun answer_status :: "side \<Rightarrow> exchange \<Rightarrow> int" where
  "answer_status ReqSide x = 0"
| "answer_status RespSide x = (case x_resp x of Some r \<Rightarrow> rp_status r | None \<Rightarrow> 0)"

definition template_for :: "side \<Rightarrow> exchange \<Rightarrow> template_data" where
  "template_for s x =
     \<lparr>td_host = fl_host (x_flow x), td_path = u_path (rq_url (x_req x)), td_method = rq_method (x_req x),
      td_status = answer_status s x, td_body = [],
      td_header = side_header s x\<rparr>"

section \<open>Breakpoints\<close>

text \<open>The body is read before waiting: \<open>raw\<close> and \<open>readErr\<close>.\<close>

definition edit_body ::
  "rule_lib \<Rightarrow> (body_error \<Rightarrow> string) \<Rightarrow> side \<Rightarrow> string \<Rightarrow> body_error option \<Rightarrow> resume_request \<Rightarrow> exchange
     \<Rightarrow> string \<times> exchange" where
  "edit_body lib txt s raw read_err req x =
     (let failed = (\<lambda>er. ''body not edited ('' @ txt er @ '')'') in
      case read_err of
        Some er \<Rightarrow> (failed er, x)
      | None \<Rightarrow>
          (let en = header_get (side_header s x) ''Content-Encoding'';
               dec = decode_content lib raw en
           in case (dec, rr_body req) of
                (Inl er, None) \<Rightarrow> (failed er, x)
              | _ \<Rightarrow>
                  (let (plain, decoded) = (case rr_body req of
                         Some b \<Rightarrow> (b, en \<noteq> [])
                       | None \<Rightarrow> (case dec of Inr pd \<Rightarrow> pd | Inl _ \<Rightarrow> ([], False)))
                   in case (if rr_body_patch req \<noteq> [] then json_patch lib plain (rr_body_patch req) else Inr plain) of
                        Inl er \<Rightarrow> (failed er, restore raw s x)
                      | Inr out \<Rightarrow> (''body'', set_body out decoded s x))))"

definition edit_url :: "rule_lib \<Rightarrow> string \<Rightarrow> exchange \<Rightarrow> string list \<times> exchange" where
  "edit_url lib s x =
     (if s = [] then ([], x)
      else case rl_url_parse lib s of
        None \<Rightarrow> ([], x)
      | Some u \<Rightarrow>
          (let r = x_req x;
               r1 = (if url_is_abs u then r\<lparr>rq_url := u, rq_host := u_host u\<rparr>
                     else r\<lparr>rq_url := (rq_url r)\<lparr>u_path := u_path u, u_raw_path := u_raw_path u,
                                                u_raw_query := u_raw_query u\<rparr>\<rparr>);
               f1 = (if url_is_abs u then (x_flow x)\<lparr>fl_scheme := u_scheme u\<rparr> else x_flow x)
           in ([''url''], x\<lparr>x_req := r1,
                            x_flow := f1\<lparr>fl_path := u_path (rq_url r1), fl_query := u_raw_query (rq_url r1)\<rparr>\<rparr>)))"

definition edit_method :: "string \<Rightarrow> exchange \<Rightarrow> string list \<times> exchange" where
  "edit_method m x =
     (if m = [] then ([], x)
      else ([''method''], x\<lparr>x_req := (x_req x)\<lparr>rq_method := to_upper m\<rparr>,
                            x_flow := (x_flow x)\<lparr>fl_method := to_upper m\<rparr>\<rparr>))"

definition edit_status :: "int \<Rightarrow> exchange \<Rightarrow> string list \<times> exchange" where
  "edit_status st x =
     (if st = 0 then ([], x)
      else ([''status''], on_flow (\<lambda>f. f\<lparr>fl_status := st\<rparr>)
             (on_resp (\<lambda>r. r\<lparr>rp_status := st, rp_status_line := status_line st\<rparr>) x)))"

definition edit_head :: "rule_lib \<Rightarrow> side \<Rightarrow> resume_request \<Rightarrow> exchange \<Rightarrow> string list \<times> exchange" where
  "edit_head lib s req x =
     (if s = ReqSide
      then (let u = edit_url lib (rr_url req) x; m = edit_method (rr_method req) (snd u) in (fst u @ fst m, snd m))
      else edit_status (rr_status req) x)"

definition edit_fields :: "side \<Rightarrow> resume_request \<Rightarrow> exchange \<Rightarrow> string list \<times> exchange" where
  "edit_fields s req x =
     (let x2 = foldl (\<lambda>x n. del_header n s x) x (rr_remove_headers req);
          c2 = (if rr_remove_headers req \<noteq> [] then [''-'' @ itoa (int (length (rr_remove_headers req))) @ '' headers''] else []);
          x3 = foldl (\<lambda>x nv. set_header (fst nv) (snd nv) s x) x2 (rr_set_headers req);
          c3 = (if rr_set_headers req \<noteq> [] then [''+'' @ itoa (int (length (rr_set_headers req))) @ '' headers''] else [])
      in (c2 @ c3, x3))"

definition apply_edits ::
  "rule_lib \<Rightarrow> (body_error \<Rightarrow> string) \<Rightarrow> side \<Rightarrow> string \<Rightarrow> body_error option \<Rightarrow> resume_request \<Rightarrow> exchange
     \<Rightarrow> string \<times> exchange" where
  "apply_edits lib txt s raw read_err req x =
     (let h = edit_head lib s req x; k = edit_fields s req (snd h);
          b = (if rr_body req \<noteq> None \<or> rr_body_patch req \<noteq> []
               then (let nb = edit_body lib txt s raw read_err req (snd k) in ([fst nb], snd nb)) else ([], snd k));
          changes = fst h @ fst k @ fst b
      in (if changes = [] then ''resumed'' else ''resumed with edits: '' @ str_join '', '' changes, snd b))"

text \<open>A breakpoint as the exchange sees it; the registry it waits in is the theory \<open>Rules_Hold\<close>.\<close>

definition hold_exchange ::
  "rule_lib \<Rightarrow> (body_error \<Rightarrow> string) \<Rightarrow> hold_outcome \<Rightarrow> compiled_rule \<Rightarrow> side \<Rightarrow> exchange \<Rightarrow> decision option \<times> exchange" where
  "hold_exchange lib txt outcome cr s x =
     (let (raw, read_err) = slurp (side_body s x);
          x1 = (if read_err = None then restore raw s x else x);
          x2 = on_flow (\<lambda>f. f\<lparr>fl_state := StateActive\<rparr>) x1
      in case outcome of
           ClientGone \<Rightarrow> (Some BlockReset, record_hit cr s ''breakpoint'' ''dropped: client disconnected while held'' x2)
         | HoldTimeout \<Rightarrow> (None, record_hit cr s ''breakpoint'' ''hold timeout'' x2)
         | Resumed req \<Rightarrow>
             if equal_fold (rr_action req) ''drop''
             then (Some BlockReset, record_hit cr s ''breakpoint'' ''dropped'' x2)
             else (let nx = apply_edits lib txt s raw read_err req x2
                   in (None, record_hit cr s ''breakpoint'' (fst nx) (snd nx))))"

section \<open>The actions of one rule\<close>

type_synonym action_result = "decision option \<times> action \<times> exchange"

definition noted :: "compiled_rule \<Rightarrow> side \<Rightarrow> action \<Rightarrow> string \<times> exchange \<Rightarrow> action_result" where
  "noted cr s a nx = (None, a, record_hit cr s (type_str (a_typ a)) (fst nx) (snd nx))"

definition decided :: "compiled_rule \<Rightarrow> side \<Rightarrow> action \<Rightarrow> decision \<times> string \<Rightarrow> exchange \<Rightarrow> action_result" where
  "decided cr s a dn x = (Some (fst dn), a, record_hit cr s (type_str (a_typ a)) (snd dn) x)"

definition mocked :: "rule_lib \<Rightarrow> action \<Rightarrow> decision \<times> string" where
  "mocked lib a = (let m = mock_of lib a in (MockWith m, itoa (rp_status m)))"

text \<open>The cases of the two switches; a type a phase has no case for does nothing.\<close>

definition request_action ::
  "rule_lib \<Rightarrow> (body_error \<Rightarrow> string) \<Rightarrow> action_input \<Rightarrow> compiled_rule \<Rightarrow> action \<Rightarrow> exchange \<Rightarrow> action_result" where
  "request_action lib txt inp cr a x =
     (case a_typ a of
        ADelay \<Rightarrow> noted cr ReqSide a (delay_note inp a, x)
      | ASetHeader \<Rightarrow> noted cr ReqSide a (a_header_name a, set_header (a_header_name a) (as_value (a_spec a)) ReqSide x)
      | ARemoveHeader \<Rightarrow> noted cr ReqSide a (a_header_name a, del_header (a_header_name a) ReqSide x)
      | ASetQuery \<Rightarrow> noted cr ReqSide a (as_name (a_spec a), set_query lib a x)
      | ARewriteBody \<Rightarrow> noted cr ReqSide a (rewrite lib txt (transform lib a (template_for ReqSide x)) ReqSide x)
      | AMock \<Rightarrow> decided cr ReqSide a (mocked lib a) x
      | AMockEveryN \<Rightarrow> (let (hit, a') = tick a in if hit then decided cr ReqSide a' (mocked lib a) x else (None, a', x))
      | ABlock \<Rightarrow> decided cr ReqSide a (block lib (c_id cr) a) x
      | ARedirect \<Rightarrow> (case a_upstream a of Some u \<Rightarrow> noted cr ReqSide a (redirect u a x) | None \<Rightarrow> (None, a, x))
      | AThrottle \<Rightarrow> (None, a, x)
      | ABreakpoint \<Rightarrow> (let (d, x') = hold_exchange lib txt (ai_hold inp) cr ReqSide x in (d, a, x'))
      | ATag \<Rightarrow> noted cr ReqSide a (add_tags (as_tags (a_spec a)) x))"

text \<open>A throttle only paces the body (\<open>Rules_Throttle\<close>).\<close>

definition response_action ::
  "rule_lib \<Rightarrow> (body_error \<Rightarrow> string) \<Rightarrow> action_input \<Rightarrow> compiled_rule \<Rightarrow> action \<Rightarrow> exchange \<Rightarrow> action_result" where
  "response_action lib txt inp cr a x =
     (case a_typ a of
        ADelay \<Rightarrow> noted cr RespSide a (delay_note inp a, x)
      | ASetHeader \<Rightarrow> noted cr RespSide a (a_header_name a, set_header (a_header_name a) (as_value (a_spec a)) RespSide x)
      | ARemoveHeader \<Rightarrow> noted cr RespSide a (a_header_name a, del_header (a_header_name a) RespSide x)
      | ARewriteBody \<Rightarrow> noted cr RespSide a (rewrite lib txt (transform lib a (template_for RespSide x)) RespSide x)
      | AMock \<Rightarrow> decided cr RespSide a (mocked lib a) x
      | AMockEveryN \<Rightarrow> (let (hit, a') = tick a in if hit then decided cr RespSide a' (mocked lib a) x else (None, a', x))
      | ABlock \<Rightarrow> decided cr RespSide a (block lib (c_id cr) a) x
      | AThrottle \<Rightarrow> noted cr RespSide a (itoa (as_kbps (a_spec a)) @ '' KB/s'', x)
      | ABreakpoint \<Rightarrow> (let (d, x') = hold_exchange lib txt (ai_hold inp) cr RespSide x in (d, a, x'))
      | ATag \<Rightarrow> noted cr RespSide a (add_tags (as_tags (a_spec a)) x)
      | ASetQuery \<Rightarrow> (None, a, x)
      | ARedirect \<Rightarrow> (None, a, x))"

definition phase_action :: "side \<Rightarrow> rule_lib \<Rightarrow> (body_error \<Rightarrow> string) \<Rightarrow> action_input \<Rightarrow> compiled_rule \<Rightarrow> action \<Rightarrow> exchange
    \<Rightarrow> action_result" where
  "phase_action s = (if s = ReqSide then request_action else response_action)"

text \<open>\<open>applyRequest\<close> and \<open>applyResponse\<close>: the positions of the phase's actions, until one decides.\<close>

fun apply_phase ::
  "side \<Rightarrow> rule_lib \<Rightarrow> (body_error \<Rightarrow> string) \<Rightarrow> (nat \<Rightarrow> action_input) \<Rightarrow> compiled_rule \<Rightarrow> nat list \<Rightarrow> action list \<Rightarrow> exchange
    \<Rightarrow> decision option \<times> action list \<times> exchange" where
  "apply_phase s lib txt inp cr [] acts x = (None, acts, x)"
| "apply_phase s lib txt inp cr (i # rest) acts x =
     (let (d, a, x') = phase_action s lib txt (inp i) cr (acts ! i) x; acts' = acts[i := a]
      in case d of Some d \<Rightarrow> (Some d, acts', x') | None \<Rightarrow> apply_phase s lib txt inp cr rest acts' x')"

section \<open>The hooks\<close>

fun run_rules ::
  "side \<Rightarrow> rule_lib \<Rightarrow> (body_error \<Rightarrow> string) \<Rightarrow> gotime \<Rightarrow> (nat \<Rightarrow> rat) \<Rightarrow> (nat \<Rightarrow> nat \<Rightarrow> action_input) \<Rightarrow> nat list \<Rightarrow> engine
    \<Rightarrow> exchange \<Rightarrow> decision option \<times> engine \<times> exchange" where
  "run_rules s lib txt now draw inp [] e x = (None, e, x)"
| "run_rules s lib txt now draw inp (a # rest) e x =
     (let ph = (if s = ReqSide then ph_request else ph_response);
          (ok, e1) = eligible now a e
      in if \<not> ok \<or> \<not> rule_matches lib (e_store e ! a) ph (x_flow x) (Some (x_req x)) (answer_status s x)
         then run_rules s lib txt now draw inp rest e1 x
         else (let (fires, e2) = fire (draw a) a e1 in
               if \<not> fires then run_rules s lib txt now draw inp rest e2 x
               else (let cr = e_store e2 ! a;
                         ps = (if s = ReqSide then c_req_actions cr else c_resp_actions cr);
                         (d, acts, x') = apply_phase s lib txt (inp a) cr ps (c_actions cr) x;
                         e3 = set_rule a (\<lambda>cr. cr\<lparr>c_actions := acts\<rparr>) e2
                     in case d of
                          Some d \<Rightarrow> (Some d, e3, x')
                        | None \<Rightarrow> run_rules s lib txt now draw inp rest e3 x')))"

text \<open>\<open>Request\<close> and \<open>Response\<close> over the snapshot; no decision is the zero \<open>Decision\<close>.\<close>

definition request_hook ::
  "rule_lib \<Rightarrow> (body_error \<Rightarrow> string) \<Rightarrow> gotime \<Rightarrow> (nat \<Rightarrow> rat) \<Rightarrow> (nat \<Rightarrow> nat \<Rightarrow> action_input) \<Rightarrow> engine \<Rightarrow> exchange
    \<Rightarrow> decision option \<times> engine \<times> exchange" where
  "request_hook lib txt now draw inp e x = run_rules ReqSide lib txt now draw inp (e_req e) e x"

definition response_hook ::
  "rule_lib \<Rightarrow> (body_error \<Rightarrow> string) \<Rightarrow> gotime \<Rightarrow> (nat \<Rightarrow> rat) \<Rightarrow> (nat \<Rightarrow> nat \<Rightarrow> action_input) \<Rightarrow> engine \<Rightarrow> exchange
    \<Rightarrow> decision option \<times> engine \<times> exchange" where
  "response_hook lib txt now draw inp e x = run_rules RespSide lib txt now draw inp (e_resp e) e x"

section \<open>Every action keeps the header copies in sync\<close>

lemma in_sync_flow [simp]:
  "in_sync s (record_hit cr s' typ note x) = in_sync s x" "side_ok s (record_hit cr s' typ note x) = side_ok s x"
  by (cases s; simp add: in_sync_def record_hit_def side_ok_def on_defs)+

lemma in_sync_request_edits [simp]:
  "in_sync s (x\<lparr>x_req := (x_req x)\<lparr>rq_url := u\<rparr>, x_flow := (x_flow x)\<lparr>fl_query := q\<rparr>\<rparr>) = in_sync s x"
  by (cases s) (simp_all add: in_sync_def)

lemma in_sync_redirect: "in_sync s (snd (redirect u a x)) = in_sync s x" "side_ok s (snd (redirect u a x)) = side_ok s x"
  by (cases s; simp add: redirect_def Let_def in_sync_def side_ok_def)+

lemma in_sync_tags: "in_sync s (snd (add_tags ts x)) = in_sync s x" "side_ok s (snd (add_tags ts x)) = side_ok s x"
  by (cases s; simp add: add_tags_def in_sync_def side_ok_def on_defs)+

lemma in_sync_query: "in_sync s (set_query lib a x) = in_sync s x" "side_ok s (set_query lib a x) = side_ok s x"
  by (simp_all add: set_query_def Let_def side_ok_def)

lemma side_ok_rewrite: "rewrite lib txt fn s' x = (n, x') \<Longrightarrow> side_ok s x' = side_ok s x"
  by (auto simp: rewrite_def Let_def split: prod.splits option.splits sum.splits)

lemma foldl_sync:
  assumes "\<And>y z. in_sync s y \<Longrightarrow> side_ok s' y \<Longrightarrow> in_sync s (g y z) \<and> side_ok s' (g y z)"
  shows "in_sync s x \<Longrightarrow> side_ok s' x \<Longrightarrow> in_sync s (foldl g x zs) \<and> side_ok s' (foldl g x zs)"
  by (induction zs arbitrary: x) (simp_all add: assms)

lemma edit_body_sync:
  "in_sync s x \<Longrightarrow> side_ok s' x \<Longrightarrow> in_sync s (snd (edit_body lib txt s' raw er req x))"
  "side_ok s (snd (edit_body lib txt s' raw er req x)) = side_ok s x"
  by (auto simp: edit_body_def Let_def split: option.splits sum.splits prod.splits)

lemma edit_url_sync:
  "in_sync s (snd (edit_url lib u x)) = in_sync s x" "side_ok s (snd (edit_url lib u x)) = side_ok s x"
  "in_sync s (snd (edit_method m x)) = in_sync s x" "side_ok s (snd (edit_method m x)) = side_ok s x"
  "in_sync s (snd (edit_status st x)) = in_sync s x" "side_ok s (snd (edit_status st x)) = side_ok s x"
  by (cases s; auto simp: edit_url_def edit_method_def edit_status_def Let_def in_sync_def side_ok_def on_defs split: option.splits)+

lemma edit_fields_sync:
  assumes "in_sync s x" "side_ok s' x"
  shows "in_sync s (snd (edit_fields s' req x))" "side_ok s' (snd (edit_fields s' req x))"
proof -
  let ?x2 = "foldl (\<lambda>x n. del_header n s' x) x (rr_remove_headers req)"
  have "in_sync s ?x2 \<and> side_ok s' ?x2" using assms by (intro foldl_sync) auto
  then have "in_sync s (foldl (\<lambda>x nv. set_header (fst nv) (snd nv) s' x) ?x2 (rr_set_headers req))
    \<and> side_ok s' (foldl (\<lambda>x nv. set_header (fst nv) (snd nv) s' x) ?x2 (rr_set_headers req))"
    by (intro foldl_sync) auto
  then show "in_sync s (snd (edit_fields s' req x))" "side_ok s' (snd (edit_fields s' req x))"
    by (simp_all add: edit_fields_def Let_def)
qed

lemma edit_head_sync:
  "in_sync s (snd (edit_head lib s' req x)) = in_sync s x" "side_ok s (snd (edit_head lib s' req x)) = side_ok s x"
  by (simp_all add: edit_head_def Let_def edit_url_sync)

lemma apply_edits_sync:
  assumes "in_sync s x" "side_ok s' x"
  shows "in_sync s (snd (apply_edits lib txt s' raw er req x))" "side_ok s' (snd (apply_edits lib txt s' raw er req x))"
proof -
  let ?y = "snd (edit_fields s' req (snd (edit_head lib s' req x)))"
  have y: "in_sync s ?y" "side_ok s' ?y" using assms by (simp_all add: edit_fields_sync edit_head_sync)
  then show "in_sync s (snd (apply_edits lib txt s' raw er req x))" "side_ok s' (snd (apply_edits lib txt s' raw er req x))"
    by (simp_all add: apply_edits_def Let_def edit_body_sync)
qed

lemma hold_sync:
  assumes "in_sync s x" "side_ok s' x"
  shows "in_sync s (snd (hold_exchange lib txt outcome cr s' x)) \<and> side_ok s' (snd (hold_exchange lib txt outcome cr s' x))"
proof -
  obtain raw er where r: "slurp (side_body s' x) = (raw, er)" by (cases "slurp (side_body s' x)") auto
  let ?y = "on_flow (\<lambda>f. f\<lparr>fl_state := StateActive\<rparr>) (if er = None then restore raw s' x else x)"
  have f: "in_sync s (on_flow (\<lambda>f. f\<lparr>fl_state := StateActive\<rparr>) y) = in_sync s y"
    "side_ok s' (on_flow (\<lambda>f. f\<lparr>fl_state := StateActive\<rparr>) y) = side_ok s' y" for y
    by (cases s; cases s'; simp add: in_sync_def side_ok_def on_defs)+
  have y: "in_sync s ?y" "side_ok s' ?y" using assms by (auto simp: f)
  then show ?thesis
    using apply_edits_sync [OF y] by (auto simp: hold_exchange_def r Let_def split: hold_outcome.split)
qed

lemma request_action_sync:
  assumes "in_sync s x"
  shows "in_sync s (snd (snd (request_action lib txt inp cr a x)))"
proof -
  have ok: "side_ok ReqSide y" for y by (simp add: side_ok_def)
  have rw: "in_sync s (snd (rewrite lib txt fn ReqSide x))" for fn
    using in_sync_rewrite [OF assms ok] by (metis surjective_pairing)
  have hd: "in_sync s (snd (hold_exchange lib txt out cr ReqSide x))" for out using hold_sync [OF assms ok] by blast
  show ?thesis
    using assms rw hd [of "ai_hold inp"]
    by (cases "a_typ a") (auto simp: request_action_def noted_def decided_def Let_def ok in_sync_redirect in_sync_tags
        in_sync_query split: prod.split option.split)
qed

lemma response_action_sync:
  assumes "in_sync s x" "side_ok RespSide x"
  shows "in_sync s (snd (snd (response_action lib txt inp cr a x)))
    \<and> side_ok RespSide (snd (snd (response_action lib txt inp cr a x)))"
proof -
  have rw: "in_sync s (snd (rewrite lib txt fn RespSide x)) \<and> side_ok RespSide (snd (rewrite lib txt fn RespSide x))" for fn
    using in_sync_rewrite [OF assms(1,2)] side_ok_rewrite assms(2) by (metis surjective_pairing)
  have hd: "in_sync s (snd (hold_exchange lib txt out cr RespSide x)) \<and> side_ok RespSide (snd (hold_exchange lib txt out cr RespSide x))"
    for out using hold_sync [OF assms] by blast
  show ?thesis
    using assms rw hd [of "ai_hold inp"]
    by (cases "a_typ a") (auto simp: response_action_def noted_def decided_def Let_def in_sync_tags split: prod.split)
qed

lemma apply_phase_sync:
  "in_sync s x \<Longrightarrow> side_ok s' x \<Longrightarrow> apply_phase s' lib txt inp cr ps acts x = (d, acts', x')
     \<Longrightarrow> in_sync s x' \<and> side_ok s' x'"
proof (induction s' lib "txt" inp cr ps acts x rule: apply_phase.induct)
  case (2 s' lib et inp cr i rest acts x)
  obtain d1 a x1 where a: "phase_action s' lib et (inp i) cr (acts ! i) x = (d1, a, x1)"
    by (cases "phase_action s' lib et (inp i) cr (acts ! i) x") auto
  have "in_sync s x1 \<and> side_ok s' x1"
    using request_action_sync [OF 2(2)] response_action_sync [OF 2(2)] 2(3) a
    by (cases s') (auto simp: phase_action_def side_ok_def, (metis snd_conv)+)
  with 2 a show ?case by (auto simp: Let_def split: option.splits)
qed simp

lemma run_rules_Cons:
  assumes "run_rules s lib txt now draw inp (a # rest) e x = (d, e', x')"
  obtains e1 where "run_rules s lib txt now draw inp rest e1 x = (d, e', x')"
  | cr ps acts d1 x1 e1 where "apply_phase s lib txt (inp a) cr ps (c_actions cr) x = (d1, acts, x1)"
      "(d1 \<noteq> None \<and> d = d1 \<and> x' = x1 \<and> e' = e1) \<or> (d1 = None \<and> run_rules s lib txt now draw inp rest e1 x1 = (d, e', x'))"
proof -
  obtain ok e1 where el: "eligible now a e = (ok, e1)" by (cases "eligible now a e") auto
  obtain fires e2 where fr: "fire (draw a) a e1 = (fires, e2)" by (cases "fire (draw a) a e1") auto
  let ?cr = "e_store e2 ! a"
  let ?ps = "if s = ReqSide then c_req_actions ?cr else c_resp_actions ?cr"
  obtain d1 acts x1 where ap: "apply_phase s lib txt (inp a) ?cr ?ps (c_actions ?cr) x = (d1, acts, x1)"
    by (cases "apply_phase s lib txt (inp a) ?cr ?ps (c_actions ?cr) x") auto
  note u = assms [unfolded run_rules.simps Let_def el fr prod.case]
  show ?thesis
  proof (cases "\<not> ok \<or> \<not> rule_matches lib (e_store e ! a) (if s = ReqSide then ph_request else ph_response) (x_flow x) (Some (x_req x)) (answer_status s x)")
    case True
    with u show ?thesis by (intro that(1)) (simp only: if_True)
  next
    case False
    then have u: "(if \<not> fires then run_rules s lib txt now draw inp rest e2 x
        else case apply_phase s lib txt (inp a) ?cr ?ps (c_actions ?cr) x of (d, acts, x') \<Rightarrow>
          (case d of None \<Rightarrow> run_rules s lib txt now draw inp rest (set_rule a (\<lambda>cr. cr\<lparr>c_actions := acts\<rparr>) e2) x'
           | Some d \<Rightarrow> (Some d, set_rule a (\<lambda>cr. cr\<lparr>c_actions := acts\<rparr>) e2, x'))) = (d, e', x')"
      using u by (simp only: if_False)
    show ?thesis
    proof (cases fires)
      case False
      with u show ?thesis by (intro that(1)) simp
    next
      case True
      with u ap show ?thesis
        by (intro that(2) [OF ap, of "set_rule a (\<lambda>cr. cr\<lparr>c_actions := acts\<rparr>) e2"]) (auto split: option.splits)
    qed
  qed
qed

lemma run_rules_sync:
  "in_sync s x \<Longrightarrow> side_ok s' x \<Longrightarrow> run_rules s' lib txt now draw inp rs e x = (d, e', x') \<Longrightarrow> in_sync s x' \<and> side_ok s' x'"
proof (induction rs arbitrary: e x)
  case (Cons a rest)
  from Cons.prems(3) show ?case
  proof (cases rule: run_rules_Cons)
    case (1 e1)
    from Cons.IH [OF Cons.prems(1,2) 1] show ?thesis .
  next
    case (2 cr ps acts d1 x1 e1)
    have "in_sync s x1 \<and> side_ok s' x1" by (rule apply_phase_sync [OF Cons.prems(1,2) 2(1)])
    with 2(2) Cons.IH show ?thesis by blast
  qed
qed simp

section \<open>The rule that decides is the last to run\<close>

lemma apply_phase_append:
  "apply_phase s lib txt inp cr (ps @ qs) acts x =
     (case apply_phase s lib txt inp cr ps acts x of
        (Some d, acts', x') \<Rightarrow> (Some d, acts', x')
      | (None, acts', x') \<Rightarrow> apply_phase s lib txt inp cr qs acts' x')"
  by (induction s lib "txt" inp cr ps acts x rule: apply_phase.induct) (auto simp: Let_def split: prod.splits option.splits)

lemma div_succ:
  fixes m c :: int
  assumes "0 < m"
  shows "(c + 1) div m - c div m = (if (c + 1) mod m = 0 then 1 else 0)"
proof -
  define q r where "q = c div m" and "r = c mod m"
  have r: "0 \<le> r" "r < m" using assms by (simp_all add: r_def)
  have c: "c + 1 = (r + 1) + q * m" by (simp add: q_def r_def)
  have d: "(c + 1) div m = q + (r + 1) div m" unfolding c using assms by simp
  have e: "(c + 1) mod m = (r + 1) mod m" unfolding c by simp
  show ?thesis
    using r d e by (cases "r + 1 = m") (simp_all add: q_def)
qed

section \<open>Properties\<close>


text \<open>After a JSON patch path is set, reading the path gives the value, and reading any path that
  leaves it before either ends gives what it gave before.\<close>

theorem set_path_exact:
  assumes "set_path d p v full = Inr d'"
  shows "json_at d' p = Some v \<and> (\<forall>q w. apart d p q \<longrightarrow> json_at d q = Some w \<longrightarrow> json_at d' q = Some w)"
  using set_path_reads_back [OF assms] set_path_frame [OF assms] by blast

lemma set_path_exact_witness:
  "json_at (JObj [(''a'', JArr [JNum ''1'', JNum ''7'']), (''b'', JNull)]) [''a'', ''1''] = Some (JNum ''7'')
   \<and> json_at (JObj [(''a'', JArr [JNum ''1'', JNum ''7'']), (''b'', JNull)]) [''a'', ''0''] = Some (JNum ''1'')"
proof -
  have "set_path (JObj [(''a'', JArr [JNum ''1'']), (''b'', JNull)]) [''a'', ''1''] (JNum ''7'') ''a.1''
    = Inr (JObj [(''a'', JArr [JNum ''1'', JNum ''7'']), (''b'', JNull)])"
    "apart (JObj [(''a'', JArr [JNum ''1'']), (''b'', JNull)]) [''a'', ''1''] [''a'', ''0'']"
    "json_at (JObj [(''a'', JArr [JNum ''1'']), (''b'', JNull)]) [''a'', ''0''] = Some (JNum ''1'')"
    by code_simp+
  then show ?thesis using set_path_exact [of "JObj [(''a'', JArr [JNum ''1'']), (''b'', JNull)]" "[''a'', ''1'']"] by blast
qed

text \<open>C4: whatever rules act on an exchange, in either phase and with breakpoints edited in any way, the
  headers recorded in the flow stay those of the message that goes out.\<close>

theorem recorded_headers_match_sent:
  assumes "in_sync s x" "request_hook lib txt now draw inp e x = (d, e', x')"
  shows "in_sync s x' \<and> (x_resp x' \<noteq> None \<longrightarrow> response_hook lib txt' now' draw' inp' e2 x' = (d', e3, x'') \<longrightarrow> in_sync s x'')"
  using run_rules_sync [OF assms(1) _ assms(2) [unfolded request_hook_def]]
    run_rules_sync [of s x' RespSide lib txt' now' draw' inp' "e_resp e2" e2 d' e3 x'']
  by (auto simp: side_ok_def response_hook_def)

fun ticks :: "nat \<Rightarrow> action \<Rightarrow> nat \<times> action" where
  "ticks 0 a = (0, a)"
| "ticks (Suc k) a = (let (hit, a1) = tick a; (n, a2) = ticks k a1 in ((if hit then 1 else 0) + n, a2))"

text \<open>From any counter not about to overflow, \<open>k\<close> consecutive hits of \<open>mock_every_n\<close> are answered by
  the mock exactly once per period: the hits whose running number is a multiple of the period.\<close>

theorem mock_every_n_period:
  assumes "0 < a_every a" "0 \<le> a_counter a" "a_counter a + int k < 2 ^ 63"
  shows "int (fst (ticks k a)) = (a_counter a + int k) div a_every a - a_counter a div a_every a
    \<and> a_counter (snd (ticks k a)) = a_counter a + int k"
  using assms
proof (induction k arbitrary: a)
  case (Suc k)
  let ?n = "a_counter a + 1" and ?m = "a_every a"
  have w: "wrap_int ?n = ?n" using Suc.prems by (intro wrap_int_id) (simp add: in_int_def int_min_def int_max_def)
  have r: "go_rem ?n ?m = ?n mod ?m" using Suc.prems by (intro go_rem_nonneg) auto
  let ?a = "a\<lparr>a_counter := ?n\<rparr>"
  have ih: "int (fst (ticks k ?a)) = (?n + int k) div ?m - ?n div ?m \<and> a_counter (snd (ticks k ?a)) = ?n + int k"
    using Suc.IH [of ?a] Suc.prems by simp
  note step = div_succ [OF Suc.prems(1), of "a_counter a"]
  have c: "a_counter a + int (Suc k) = ?n + int k" by simp
  show ?case
    unfolding c using ih step by (auto simp: tick_def Let_def w r split: prod.splits)
qed simp

lemma mock_every_n_period_witness:
  "\<forall>a. int (fst (ticks 7 (a\<lparr>a_every := 3, a_counter := 0\<rparr>))) = 2"
proof
  fix a :: action
  show "int (fst (ticks 7 (a\<lparr>a_every := 3, a_counter := 0\<rparr>))) = 2"
    using mock_every_n_period [of "a\<lparr>a_every := 3, a_counter := 0\<rparr>" 7] by simp
qed

definition sample_exchange :: "flow \<Rightarrow> exchange" where
  "sample_exchange f =
     \<lparr>x_flow = f\<lparr>fl_req_headers := [(''Host'', [''a.com''])]\<rparr>,
      x_req = \<lparr>rq_method = ''POST'', rq_url = \<lparr>u_scheme = ''http'', u_host = ''a.com'', u_path = ''/'', u_raw_path = [], u_raw_query = []\<rparr>,
               rq_host = ''a.com'', rq_header = [(''Host'', [''a.com''])], rq_body = Body ''hello'' None, rq_length = 5, rq_te = []\<rparr>,
      x_resp = None, x_mirrored = ph_both\<rparr>"


lemma recorded_headers_match_sent_witness:
  "\<forall>f txt draw inp. in_sync ReqSide (snd (snd (request_hook sample_lib txt 9 draw inp sample_engine (sample_exchange f))))"
proof (intro allI)
  fix f :: flow and etxt :: "body_error \<Rightarrow> string" and draw inp
  have "in_sync ReqSide (sample_exchange f)" by (simp add: in_sync_def sample_exchange_def)
  moreover obtain d e' x' where h: "request_hook sample_lib etxt 9 draw inp sample_engine (sample_exchange f) = (d, e', x')"
    by (cases "request_hook sample_lib etxt 9 draw inp sample_engine (sample_exchange f)") auto
  ultimately show "in_sync ReqSide (snd (snd (request_hook sample_lib etxt 9 draw inp sample_engine (sample_exchange f))))"
    using recorded_headers_match_sent by (metis snd_conv)
qed

end
