(* ===== verification/Rules_Hold.thy ===== *)
theory Rules_Hold
  imports Rules_Apply
begin

text \<open>
  The breakpoint registry of \<open>internal/rules/hold.go\<close> under concurrency: goroutines parked in \<open>hold\<close>,
  callers of \<open>Resume\<close>, \<open>releaseAll\<close>, timers and departing clients. A step is what happens under
  \<open>heldMu\<close> in one go, or one channel operation; any interleaving of enabled steps is a run. What the
  resumed exchange then does is \<open>hold_exchange\<close> in \<open>Rules_Apply\<close>.
\<close>

section \<open>State\<close>

record held_entry =
  he_id :: flow_id
  he_phase :: side
  he_rule :: string
  he_since :: gotime
  he_method :: string
  he_url :: string
  he_status :: int

text \<open>Where a parked goroutine stands: in its \<open>select\<close>, receiving a request that won the race, or out.\<close>

datatype hold_pc = Waiting | Receiving hold_outcome | Left hold_outcome

text \<open>Entries are known by their position. \<open>hs_held\<close> maps a flow to its entry, \<open>hs_chan\<close> is the
  one-slot channel of each entry, \<open>hs_sends\<close> are the sends of callers past the mutex; \<open>hs_claims\<close>
  records which requests were accepted for which entry.\<close>

record hold_state =
  hs_entries :: "held_entry list"
  hs_pc :: "hold_pc list"
  hs_held :: "(flow_id \<times> nat) list"
  hs_chan :: "resume_request option list"
  hs_sends :: "(nat \<times> resume_request) list"
  hs_claims :: "(nat \<times> resume_request) list"

definition no_holds :: hold_state where
  "no_holds = \<lparr>hs_entries = [], hs_pc = [], hs_held = [], hs_chan = [], hs_sends = [], hs_claims = []\<rparr>"

section \<open>Operations\<close>

definition park :: "held_entry \<Rightarrow> hold_state \<Rightarrow> hold_state" where
  "park en s =
     s\<lparr>hs_entries := hs_entries s @ [en], hs_pc := hs_pc s @ [Waiting],
       hs_held := map_put (he_id en) (length (hs_entries s)) (hs_held s), hs_chan := hs_chan s @ [None]\<rparr>"

text \<open>\<open>unregister\<close>: whether the entry was still registered.\<close>

definition unregister :: "nat \<Rightarrow> hold_state \<Rightarrow> bool \<times> hold_state" where
  "unregister n s =
     (let i = he_id (hs_entries s ! n) in
      if map_of (hs_held s) i \<noteq> Some n then (False, s) else (True, s\<lparr>hs_held := map_del i (hs_held s)\<rparr>))"

text \<open>The timer fires or the client leaves: \<open>out\<close> is \<open>HoldTimeout\<close> or \<open>ClientGone\<close>.\<close>

definition give_up :: "nat \<Rightarrow> hold_outcome \<Rightarrow> hold_state \<Rightarrow> hold_state" where
  "give_up n out s =
     (let (registered, s1) = unregister n s
      in s1\<lparr>hs_pc := (hs_pc s1)[n := if registered then Left out else Receiving out]\<rparr>)"

definition take_request :: "nat \<Rightarrow> resume_request \<Rightarrow> hold_state \<Rightarrow> hold_state" where
  "take_request n req s = s\<lparr>hs_pc := (hs_pc s)[n := Left (Resumed req)], hs_chan := (hs_chan s)[n := None]\<rparr>"

definition check_resume :: "rule_lib \<Rightarrow> resume_request \<Rightarrow> rule_invalid + resume_request" where
  "check_resume lib req =
     (let act = to_lower (trim_space (rr_action req)) in
      and_then (check_that (act = [] \<or> act = ''resume'' \<or> act = ''drop'') (Inv_resume_action act)) (\<lambda>_.
      and_then (check_that (rr_url req = []
                  \<or> (case rl_url_parse lib (rr_url req) of None \<Rightarrow> False | Some u \<Rightarrow> \<not> (url_is_abs u \<and> u_host u = [])))
                  (Inv_resume_url (rr_url req))) (\<lambda>_.
      and_then (check_that (rr_status req = 0 \<or> (100 \<le> rr_status req \<and> rr_status req \<le> 599))
                  (Inv_resume_status (rr_status req))) (\<lambda>_.
        Inr (req\<lparr>rr_action := (if act = [] then ''resume'' else act)\<rparr>)))))"

text \<open>\<open>Resume\<close> up to the send; then the send itself.\<close>

definition resume :: "rule_lib \<Rightarrow> flow_id \<Rightarrow> resume_request \<Rightarrow> hold_state \<Rightarrow> (rule_error + unit) \<times> hold_state" where
  "resume lib i req0 s =
     (case check_resume lib req0 of
        Inl v \<Rightarrow> (Inl (Invalid v), s)
      | Inr req \<Rightarrow>
          (case map_of (hs_held s) i of
             None \<Rightarrow> (Inl (NotFound (short i)), s)
           | Some n \<Rightarrow> (Inr (), s\<lparr>hs_held := map_del i (hs_held s), hs_sends := hs_sends s @ [(n, req)],
                                   hs_claims := hs_claims s @ [(n, req)]\<rparr>)))"

definition send :: "nat \<Rightarrow> hold_state \<Rightarrow> hold_state" where
  "send k s =
     (let (n, req) = hs_sends s ! k
      in s\<lparr>hs_chan := (hs_chan s)[n := Some req], hs_sends := take k (hs_sends s) @ drop (Suc k) (hs_sends s)\<rparr>)"

definition plain_resume :: resume_request where
  "plain_resume = \<lparr>rr_action = ''resume'', rr_url = [], rr_method = [], rr_status = 0, rr_set_headers = [],
     rr_remove_headers = [], rr_body = None, rr_body_patch = []\<rparr>"

definition release_all :: "hold_state \<Rightarrow> hold_state" where
  "release_all s =
     (let sends = List.map (\<lambda>(i, n). (n, plain_resume)) (hs_held s)
      in s\<lparr>hs_held := [], hs_sends := hs_sends s @ sends, hs_claims := hs_claims s @ sends\<rparr>)"

section \<open>Listing\<close>

record held_row =
  hr_id :: flow_id
  hr_short :: string
  hr_phase :: string
  hr_method :: string
  hr_url :: string
  hr_status :: int
  hr_since :: gotime
  hr_age :: duration
  hr_rule :: string

definition signed_id :: "flow_id \<Rightarrow> int" where
  "signed_id i = sint i"

text \<open>The age, truncated to milliseconds, is printed by the library.\<close>

definition held_row_of :: "gotime \<Rightarrow> held_entry \<Rightarrow> held_row" where
  "held_row_of now en =
     (let d = time_sub now (he_since en) in
      \<lparr>hr_id = he_id en, hr_short = short (he_id en), hr_phase = ph_str (if he_phase en = ReqSide then ph_request else ph_response),
       hr_method = he_method en, hr_url = he_url en, hr_status = he_status en, hr_since = he_since en,
       hr_age = d - go_rem d millisecond, hr_rule = he_rule en\<rparr>)"

definition held_compare :: "held_row \<Rightarrow> held_row \<Rightarrow> int" where
  "held_compare a b =
     (let c = time_compare (hr_since a) (hr_since b)
      in if c \<noteq> 0 then c else wrap_int (signed_id (hr_id a) - signed_id (hr_id b)))"

definition list_held :: "gotime \<Rightarrow> hold_state \<Rightarrow> held_row list" where
  "list_held now s = sort_func held_compare (List.map (\<lambda>(i, n). held_row_of now (hs_entries s ! n)) (hs_held s))"

section \<open>Runs\<close>

inductive hold_step :: "rule_lib \<Rightarrow> hold_state \<Rightarrow> hold_state \<Rightarrow> bool" for lib where
  Park: "\<forall>n < length (hs_entries s). he_id (hs_entries s ! n) = he_id en \<longrightarrow> (\<exists>out. hs_pc s ! n = Left out)
    \<Longrightarrow> hold_step lib s (park en s)"
| GiveUp: "n < length (hs_entries s) \<Longrightarrow> hs_pc s ! n = Waiting \<Longrightarrow> out = HoldTimeout \<or> out = ClientGone
    \<Longrightarrow> hold_step lib s (give_up n out s)"
| Resume: "hold_step lib s (snd (resume lib i req s))"
| ReleaseAll: "hold_step lib s (release_all s)"
| Send: "k < length (hs_sends s) \<Longrightarrow> hs_chan s ! fst (hs_sends s ! k) = None \<Longrightarrow> hold_step lib s (send k s)"
| Receive: "n < length (hs_entries s) \<Longrightarrow> \<not> (\<exists>out. hs_pc s ! n = Left out) \<Longrightarrow> hs_chan s ! n = Some req
    \<Longrightarrow> hold_step lib s (take_request n req s)"

inductive hold_reachable :: "rule_lib \<Rightarrow> hold_state \<Rightarrow> bool" for lib where
  Start: "hold_reachable lib no_holds"
| Step: "hold_reachable lib s \<Longrightarrow> hold_step lib s s' \<Longrightarrow> hold_reachable lib s'"

section \<open>Every entry is in exactly one place\<close>

text \<open>All a step can change of entry \<open>n\<close>: registered, sends under way, channel, accepted requests, position.\<close>

type_synonym entry_view = "bool \<times> resume_request list \<times> resume_request option \<times> resume_request list \<times> hold_pc"

definition for_entry :: "nat \<Rightarrow> (nat \<times> resume_request) list \<Rightarrow> resume_request list" where
  "for_entry n xs = List.map snd (filter (\<lambda>x. fst x = n) xs)"

definition entry_view :: "hold_state \<Rightarrow> nat \<Rightarrow> entry_view" where
  "entry_view s n =
     (map_of (hs_held s) (he_id (hs_entries s ! n)) = Some n, for_entry n (hs_sends s), hs_chan s ! n,
      for_entry n (hs_claims s), hs_pc s ! n)"

fun is_out :: "hold_pc \<Rightarrow> bool" where
  "is_out (Left out) = True"
| "is_out _ = False"

lemma is_out_iff: "is_out pc \<longleftrightarrow> (\<exists>out. pc = Left out)"
  by (cases pc) auto

text \<open>Registered, its accepted request on the way, the request in the channel, or left: with the one
  request accepted for it, or without any.\<close>

inductive entry_ok :: "entry_view \<Rightarrow> bool" where
  Registered: "entry_ok (True, [], None, [], Waiting)"
| Underway: "\<not> is_out pc \<Longrightarrow> entry_ok (False, [r], None, [r], pc)"
| Buffered: "\<not> is_out pc \<Longrightarrow> entry_ok (False, [], Some r, [r], pc)"
| LeftResumed: "entry_ok (False, [], None, [r], Left (Resumed r))"
| LeftAlone: "out = HoldTimeout \<or> out = ClientGone \<Longrightarrow> entry_ok (False, [], None, [], Left out)"

inductive_cases entry_ok_held: "entry_ok (True, sd, ch, cl, pc)"
inductive_cases entry_ok_chan: "entry_ok (h, sd, Some r, cl, pc)"
inductive_cases entry_ok_waiting: "entry_ok (h, sd, ch, cl, Waiting)"
inductive_cases entry_ok_left: "entry_ok (h, sd, ch, cl, Left out)"
inductive_cases entry_ok_send: "entry_ok (h, x # xs, ch, cl, pc)"

definition hold_ok :: "hold_state \<Rightarrow> bool" where
  "hold_ok s =
     (let k = length (hs_entries s) in
      length (hs_pc s) = k \<and> length (hs_chan s) = k \<and> keys_distinct (hs_held s)
      \<and> (\<forall>(i, n) \<in> set (hs_held s). n < k \<and> he_id (hs_entries s ! n) = i)
      \<and> (\<forall>(n, r) \<in> set (hs_sends s) \<union> set (hs_claims s). n < k)
      \<and> (\<forall>n < k. entry_ok (entry_view s n)))"

lemma for_entry_append [simp]: "for_entry n (xs @ ys) = for_entry n xs @ for_entry n ys"
  by (simp add: for_entry_def)

lemma for_entry_one [simp]: "for_entry n [(m, r)] = (if m = n then [r] else [])"
  by (simp add: for_entry_def)

lemma for_entry_remove:
  assumes "k < length xs" "xs ! k = (m, r)"
  shows "n \<noteq> m \<Longrightarrow> for_entry n (take k xs @ drop (Suc k) xs) = for_entry n xs"
    and "for_entry m xs = [r'] \<Longrightarrow> r' = r \<and> for_entry m (take k xs @ drop (Suc k) xs) = []"
proof -
  have "xs = take k xs @ (m, r) # drop (Suc k) xs" using assms by (metis id_take_nth_drop)
  then have f: "for_entry j xs = for_entry j (take k xs) @ (if m = j then [r] else []) @ for_entry j (drop (Suc k) xs)" for j
  proof -
    have "for_entry j xs = for_entry j (take k xs @ [(m, r)] @ drop (Suc k) xs)"
      using \<open>xs = _\<close> by simp
    then show ?thesis by (simp only: for_entry_append for_entry_one)
  qed
  show "n \<noteq> m \<Longrightarrow> for_entry n (take k xs @ drop (Suc k) xs) = for_entry n xs" using f [of n] by simp
  show "for_entry m xs = [r'] \<Longrightarrow> r' = r \<and> for_entry m (take k xs @ drop (Suc k) xs) = []"
  proof -
    assume "for_entry m xs = [r']"
    then have "for_entry m (take k xs) @ r # for_entry m (drop (Suc k) xs) = [r']" using f [of m] by simp
    then show "r' = r \<and> for_entry m (take k xs @ drop (Suc k) xs) = []" by (simp add: append_eq_Cons_conv)
  qed
qed

lemma for_entry_none: "\<forall>(m, r) \<in> set xs. m < k \<Longrightarrow> for_entry k xs = []"
  by (auto simp: for_entry_def filter_empty_conv)

lemma hold_okD:
  assumes "hold_ok s"
  shows "length (hs_pc s) = length (hs_entries s)" "length (hs_chan s) = length (hs_entries s)"
    "map_of (hs_held s) i = Some n \<Longrightarrow> n < length (hs_entries s) \<and> he_id (hs_entries s ! n) = i"
    "n < length (hs_entries s) \<Longrightarrow> entry_ok (entry_view s n)"
    "(n, r) \<in> set (hs_sends s) \<Longrightarrow> n < length (hs_entries s)"
  using assms by (auto simp: hold_ok_def Let_def dest!: map_of_SomeD)

lemma no_holds_ok: "hold_ok no_holds"
  by (simp add: hold_ok_def no_holds_def)

text \<open>A step that changes one entry needs a look at that entry only.\<close>

lemma hold_ok_update:
  assumes ok: "hold_ok s" and n: "n < length (hs_entries s)"
    and s': "hs_entries s' = hs_entries s" "length (hs_pc s') = length (hs_pc s)" "length (hs_chan s') = length (hs_chan s)"
      "keys_distinct (hs_held s')" "set (hs_held s') \<subseteq> set (hs_held s)"
      "set (hs_sends s') \<union> set (hs_claims s') \<subseteq> insert (n, r) (set (hs_sends s) \<union> set (hs_claims s))"
    and others: "\<And>m. m \<noteq> n \<Longrightarrow> m < length (hs_entries s) \<Longrightarrow> entry_view s' m = entry_view s m"
    and self: "entry_ok (entry_view s' n)"
  shows "hold_ok s'"
proof -
  have "entry_ok (entry_view s' m)" if "m < length (hs_entries s)" for m
    using others [of m] self hold_okD(4) [OF ok that] that by (cases "m = n") auto
  moreover have "\<forall>(m, r') \<in> set (hs_sends s') \<union> set (hs_claims s'). m < length (hs_entries s)"
    using ok s'(6) n unfolding hold_ok_def Let_def by fastforce
  moreover have "\<forall>(i, m) \<in> set (hs_held s'). m < length (hs_entries s) \<and> he_id (hs_entries s ! m) = i"
    using ok s'(5) unfolding hold_ok_def Let_def by fastforce
  ultimately show ?thesis using ok s' unfolding hold_ok_def Let_def by simp
qed

lemma give_up_ok:
  assumes ok: "hold_ok s" and n: "n < length (hs_entries s)" "hs_pc s ! n = Waiting" and out: "out = HoldTimeout \<or> out = ClientGone"
  shows "hold_ok (give_up n out s)"
proof (rule hold_ok_update [OF ok n(1)])
  let ?i = "he_id (hs_entries s ! n)"
  note u = give_up_def unregister_def Let_def
  have len: "n < length (hs_pc s)" using hold_okD(1) [OF ok] n by simp
  show "entry_ok (entry_view (give_up n out s) n)"
    using hold_okD(4) [OF ok n(1)] n(2) len out
    by (auto simp: entry_view_def u elim!: entry_ok_waiting intro!: entry_ok.intros)
  show "entry_view (give_up n out s) m = entry_view s m" if "m \<noteq> n" "m < length (hs_entries s)" for m
    using that by (auto simp: entry_view_def u)
  show "keys_distinct (hs_held (give_up n out s))" using ok by (auto simp: u hold_ok_def Let_def)
qed (auto simp: give_up_def unregister_def Let_def map_del_def)

lemma take_request_ok:
  assumes ok: "hold_ok s" and n: "n < length (hs_entries s)" "\<not> is_out (hs_pc s ! n)" "hs_chan s ! n = Some req"
  shows "hold_ok (take_request n req s)"
proof (rule hold_ok_update [OF ok n(1)])
  have len: "n < length (hs_pc s)" "n < length (hs_chan s)" using hold_okD(1,2) [OF ok] n by simp_all
  show "entry_ok (entry_view (take_request n req s) n)"
    using hold_okD(4) [OF ok n(1)] n(2,3) len
    by (auto simp: entry_view_def take_request_def elim!: entry_ok_chan intro!: entry_ok.intros)
qed (use ok in \<open>auto simp: entry_view_def take_request_def hold_ok_def Let_def\<close>)

lemma resume_ok:
  assumes ok: "hold_ok s"
  shows "hold_ok (snd (resume lib i req s))"
proof (cases "check_resume lib req")
  case (Inl v)
  with ok show ?thesis by (simp add: resume_def)
next
  case (Inr req')
  show ?thesis
  proof (cases "map_of (hs_held s) i")
    case None
    with ok Inr show ?thesis by (simp add: resume_def)
  next
    case (Some n)
    note n = hold_okD(3) [OF ok Some]
    let ?s = "s\<lparr>hs_held := map_del i (hs_held s), hs_sends := hs_sends s @ [(n, req')], hs_claims := hs_claims s @ [(n, req')]\<rparr>"
    have "hold_ok ?s"
    proof (rule hold_ok_update [OF ok n [THEN conjunct1], where r = req'])
      show "entry_ok (entry_view ?s n)"
        using hold_okD(4) [OF ok n [THEN conjunct1]] Some n
        by (auto simp: entry_view_def elim!: entry_ok_held intro!: entry_ok.intros)
      show "entry_view ?s m = entry_view s m" if "m \<noteq> n" "m < length (hs_entries s)" for m
        using that Some n by (auto simp: entry_view_def)
      show "keys_distinct (hs_held ?s)" using ok by (auto simp: hold_ok_def Let_def)
    qed (auto simp: map_del_def)
    with Inr Some show ?thesis by (simp add: resume_def)
  qed
qed

lemma send_ok:
  assumes ok: "hold_ok s" and k: "k < length (hs_sends s)" "hs_chan s ! fst (hs_sends s ! k) = None"
  shows "hold_ok (send k s)"
proof -
  obtain n r where nr: "hs_sends s ! k = (n, r)" by (cases "hs_sends s ! k") auto
  then have mem: "(n, r) \<in> set (hs_sends s)" using k(1) by (metis nth_mem)
  have n: "n < length (hs_entries s)" by (rule hold_okD(5) [OF ok mem])
  have "for_entry n (hs_sends s) \<noteq> []" using mem by (force simp: for_entry_def filter_empty_conv)
  then obtain r' rs where f: "for_entry n (hs_sends s) = r' # rs" by (cases "for_entry n (hs_sends s)") auto
  note view = hold_okD(4) [OF ok n, unfolded entry_view_def f]
  from view have rs: "rs = []" by (auto elim!: entry_ok_send)
  note rem = for_entry_remove [OF k(1) nr]
  have len: "n < length (hs_chan s)" using hold_okD(2) [OF ok] n by simp
  show ?thesis
  proof (rule hold_ok_update [OF ok n])
    show "entry_ok (entry_view (send k s) n)"
      using view rem(2) [of r'] f rs len
      by (auto simp: entry_view_def send_def nr elim!: entry_ok_send intro!: entry_ok.intros)
    show "entry_view (send k s) m = entry_view s m" if "m \<noteq> n" "m < length (hs_entries s)" for m
      using that rem(1) [of m] by (auto simp: entry_view_def send_def nr)
    show "set (hs_sends (send k s)) \<union> set (hs_claims (send k s)) \<subseteq> insert (n, r) (set (hs_sends s) \<union> set (hs_claims s))"
      by (auto simp: send_def nr dest: in_set_takeD in_set_dropD)
  qed (use ok in \<open>auto simp: send_def nr hold_ok_def Let_def\<close>)
qed

lemma park_ok:
  assumes ok: "hold_ok s"
    and gone: "\<forall>n < length (hs_entries s). he_id (hs_entries s ! n) = he_id en \<longrightarrow> (\<exists>out. hs_pc s ! n = Left out)"
  shows "hold_ok (park en s)"
proof -
  let ?k = "length (hs_entries s)"
  have len: "length (hs_pc s) = ?k" "length (hs_chan s) = ?k" using hold_okD(1,2) [OF ok] by simp_all
  have lt: "\<forall>(n, r) \<in> set (hs_sends s) \<union> set (hs_claims s). n < ?k" using ok by (simp add: hold_ok_def Let_def)
  have lt_Suc: "\<forall>(n, r) \<in> set (hs_sends s) \<union> set (hs_claims s). n < Suc ?k"
    by (rule ballI, drule lt [THEN bspec]) (simp add: split_beta)
  have none: "for_entry ?k (hs_sends s) = []" "for_entry ?k (hs_claims s) = []"
    using lt by (intro for_entry_none; auto)+
  have old: "entry_view (park en s) n = entry_view s n" if n: "n < ?k" for n
  proof (cases "he_id (hs_entries s ! n) = he_id en")
    case True
    then obtain out where "hs_pc s ! n = Left out" using gone n by blast
    with hold_okD(4) [OF ok n] have "map_of (hs_held s) (he_id (hs_entries s ! n)) \<noteq> Some n"
      by (auto simp: entry_view_def elim!: entry_ok_left)
    with n True len show ?thesis by (simp add: entry_view_def park_def nth_append)
  next
    case False
    with n len show ?thesis by (simp add: entry_view_def park_def nth_append)
  qed
  have new: "entry_view (park en s) ?k = (True, [], None, [], Waiting)"
    using len none by (simp add: entry_view_def park_def nth_append)
  have "entry_ok (entry_view (park en s) n)" if "n < Suc ?k" for n
    using that old [of n] new hold_okD(4) [OF ok, of n] by (cases "n = ?k") (auto intro: entry_ok.intros)
  moreover have "\<forall>(i, n) \<in> set (hs_held (park en s)). n < Suc ?k \<and> he_id (hs_entries (park en s) ! n) = i"
    using ok by (fastforce simp: park_def hold_ok_def Let_def nth_append dest!: set_map_put_cases)
  moreover have "keys_distinct (hs_held (park en s))" using ok by (auto simp: park_def hold_ok_def Let_def)
  moreover have "\<forall>(n, r) \<in> set (hs_sends (park en s)) \<union> set (hs_claims (park en s)). n < Suc ?k"
    using lt_Suc by (simp add: park_def)
  ultimately show ?thesis using len by (simp add: hold_ok_def Let_def park_def)
qed

lemma for_entry_held:
  assumes "keys_distinct held" "\<forall>(i, n) \<in> set held. key n = i"
  shows "for_entry n (List.map (\<lambda>(i, n). (n, r)) held) = (if map_of held (key n) = Some n then [r] else [])"
  using assms
proof (induction held)
  case (Cons x held)
  obtain i m where x: "x = (i, m)" by (cases x) auto
  have none: "key n = i \<Longrightarrow> map_of held (key n) = None" using Cons.prems x by (auto simp: map_of_eq_None_iff)
  have ih: "for_entry n (List.map (\<lambda>(i, n). (n, r)) held) = (if map_of held (key n) = Some n then [r] else [])"
    using Cons by simp
  have "key m = i" using Cons.prems x by simp
  with ih none x show ?case
    using for_entry_append [of n "[(m, r)]" "List.map (\<lambda>(i, n). (n, r)) held"] by (auto simp del: for_entry_append)
qed (simp add: for_entry_def)

lemma release_all_ok:
  assumes ok: "hold_ok s"
  shows "hold_ok (release_all s)"
proof -
  let ?held = "List.map (\<lambda>(i, n). (n, plain_resume)) (hs_held s)"
  have wf: "keys_distinct (hs_held s)" "\<forall>(i, n) \<in> set (hs_held s). he_id (hs_entries s ! n) = i"
    using ok by (auto simp: hold_ok_def Let_def)
  note f = for_entry_held [OF wf]
  have "entry_ok (entry_view (release_all s) n)" if "n < length (hs_entries s)" for n
  proof (cases "map_of (hs_held s) (he_id (hs_entries s ! n)) = Some n")
    case True
    with hold_okD(4) [OF ok that] f [of n plain_resume] show ?thesis
      by (auto simp: entry_view_def release_all_def Let_def elim!: entry_ok_held intro!: entry_ok.intros)
  next
    case False
    then have "entry_view (release_all s) n = entry_view s n"
      using f [of n plain_resume] by (simp add: entry_view_def release_all_def Let_def)
    with hold_okD(4) [OF ok that] show ?thesis by simp
  qed
  moreover have "\<forall>(n, r) \<in> set ?held. n < length (hs_entries s)"
    using ok by (auto simp: hold_ok_def Let_def)
  ultimately have "\<forall>n < length (hs_entries s). entry_ok (entry_view (release_all s) n)"
    "\<forall>(n, r) \<in> set (hs_sends (release_all s)) \<union> set (hs_claims (release_all s)). n < length (hs_entries s)"
    using ok by (fastforce simp: hold_ok_def Let_def release_all_def)+
  moreover have "hs_entries (release_all s) = hs_entries s" "hs_pc (release_all s) = hs_pc s" "hs_chan (release_all s) = hs_chan s"
    "hs_held (release_all s) = []"
    by (simp_all add: release_all_def Let_def)
  ultimately show ?thesis using hold_okD(1,2) [OF ok] by (simp add: hold_ok_def Let_def)
qed

lemma hold_step_ok: "hold_step lib s s' \<Longrightarrow> hold_ok s \<Longrightarrow> hold_ok s'"
  by (induction rule: hold_step.induct)
    (auto simp: is_out_iff intro: park_ok give_up_ok resume_ok release_all_ok send_ok take_request_ok)

lemma hold_reachable_ok: "hold_reachable lib s \<Longrightarrow> hold_ok s"
  by (induction rule: hold_reachable.induct) (auto intro: no_holds_ok hold_step_ok)

section \<open>Properties\<close>

text \<open>C2: in every interleaving of parking, resuming, dropping, timing out and shutting down, a breakpoint
  is left exactly once and an accepted \<open>Resume\<close> is never lost: at most one request is accepted per
  exchange; an exchange left alone (timeout, client gone) accepted none; one that was resumed got the
  accepted request; one whose timer fired too late still has the accepted request on its way; and
  the sender never finds the channel full, so \<open>Resume\<close> never blocks.\<close>

theorem breakpoints_resolve_once:
  assumes "hold_reachable lib s" and "n < length (hs_entries s)"
  shows "length (for_entry n (hs_claims s)) \<le> 1
    \<and> (\<forall>r. hs_pc s ! n = Left (Resumed r) \<longrightarrow> for_entry n (hs_claims s) = [r])
    \<and> (hs_pc s ! n = Left HoldTimeout \<or> hs_pc s ! n = Left ClientGone \<longrightarrow> for_entry n (hs_claims s) = [])
    \<and> (\<forall>out. hs_pc s ! n = Receiving out \<longrightarrow>
         (\<exists>r. for_entry n (hs_claims s) = [r] \<and> (for_entry n (hs_sends s) = [r] \<or> hs_chan s ! n = Some r)))
    \<and> (for_entry n (hs_sends s) \<noteq> [] \<longrightarrow> hs_chan s ! n = None \<and> \<not> is_out (hs_pc s ! n))"
  using hold_okD(4) [OF hold_reachable_ok [OF assms(1)] assms(2)] unfolding entry_view_def
  by (cases rule: entry_ok.cases) auto

definition sample_entry :: held_entry where
  "sample_entry = \<lparr>he_id = 7, he_phase = ReqSide, he_rule = ''r1'', he_since = 5, he_method = ''GET'', he_url = ''http://a/'', he_status = 0\<rparr>"

text \<open>A resume accepted just before the timer fires.\<close>

definition sample_hold :: hold_state where
  "sample_hold = give_up 0 HoldTimeout (snd (resume sample_lib 7 plain_resume (park sample_entry no_holds)))"

lemma sample_hold_eq:
  "hold_reachable sample_lib sample_hold" "length (hs_entries sample_hold) = 1" "hs_pc sample_hold = [Receiving HoldTimeout]"
proof -
  let ?s1 = "park sample_entry no_holds"
  let ?s2 = "snd (resume sample_lib 7 plain_resume ?s1)"
  have act: "to_lower (trim_space ''resume'') = ''resume''" by code_simp
  have s2: "hs_entries ?s2 = [sample_entry]" "hs_pc ?s2 = [Waiting]" "hs_held ?s2 = []"
    by (simp_all add: resume_def check_resume_def act plain_resume_def park_def no_holds_def sample_entry_def Let_def check_that_def map_del_def)
  have "hold_reachable sample_lib ?s1"
    by (rule Step [OF Start], rule Park) (simp add: no_holds_def)
  then have "hold_reachable sample_lib ?s2" by (rule Step) (rule Resume)
  then show "hold_reachable sample_lib sample_hold"
    unfolding sample_hold_def by (rule Step) (rule GiveUp, simp_all add: s2)
  show "length (hs_entries sample_hold) = 1" "hs_pc sample_hold = [Receiving HoldTimeout]"
    by (simp_all add: sample_hold_def give_up_def unregister_def Let_def s2)
qed

lemma breakpoints_resolve_once_witness:
  "\<exists>r. for_entry 0 (hs_claims sample_hold) = [r] \<and> (for_entry 0 (hs_sends sample_hold) = [r] \<or> hs_chan sample_hold ! 0 = Some r)"
  using breakpoints_resolve_once [OF sample_hold_eq(1), of 0] sample_hold_eq(2,3) by simp

text \<open>C13: no exchange is stuck: from every reachable state a parked exchange can leave within two more
  steps, and if a request was accepted for it, with that request.\<close>

theorem breakpoints_never_stuck:
  assumes "hold_reachable lib s" and "n < length (hs_entries s)" and "\<not> is_out (hs_pc s ! n)"
  shows "\<exists>s1 s2 out. (s1 = s \<or> hold_step lib s s1) \<and> hold_step lib s1 s2 \<and> hs_pc s2 ! n = Left out
    \<and> (\<forall>r. for_entry n (hs_claims s) = [r] \<longrightarrow> out = Resumed r)"
proof -
  note ok = hold_reachable_ok [OF assms(1)]
  have len: "n < length (hs_pc s)" "n < length (hs_chan s)" using hold_okD(1,2) [OF ok] assms(2) by simp_all
  note notleft = assms(3) [unfolded is_out_iff]
  from hold_okD(4) [OF ok assms(2), unfolded entry_view_def] show ?thesis
  proof (cases rule: entry_ok.cases)
    case Registered
    then have "hold_step lib s (give_up n HoldTimeout s)" using assms(2) by (intro GiveUp) auto
    moreover have "hs_pc (give_up n HoldTimeout s) ! n = Left HoldTimeout"
      using Registered len by (simp add: give_up_def unregister_def Let_def)
    ultimately show ?thesis using Registered by (intro exI [of _ s] exI [of _ "give_up n HoldTimeout s"] exI [of _ HoldTimeout]) auto
  next
    case (Buffered r)
    then have "hold_step lib s (take_request n r s)" using assms(2) notleft by (intro Receive) auto
    moreover have "hs_pc (take_request n r s) ! n = Left (Resumed r)" using len by (simp add: take_request_def)
    ultimately show ?thesis using Buffered by (intro exI [of _ s] exI [of _ "take_request n r s"] exI [of _ "Resumed r"]) auto
  next
    case (Underway r)
    then have "(n, r) \<in> set (hs_sends s)"
      by (auto simp: for_entry_def filter_eq_Cons_iff map_eq_Cons_conv)
    then obtain k where k: "k < length (hs_sends s)" "hs_sends s ! k = (n, r)" by (metis in_set_conv_nth)
    have "hold_step lib s (send k s)" using k Underway by (intro Send) auto
    moreover have "hold_step lib (send k s) (take_request n r (send k s))"
      using k len assms(2) notleft by (intro Receive) (auto simp: send_def)
    moreover have "hs_pc (take_request n r (send k s)) ! n = Left (Resumed r)" using k len by (simp add: take_request_def send_def)
    ultimately show ?thesis using Underway
      by (intro exI [of _ "send k s"] exI [of _ "take_request n r (send k s)"] exI [of _ "Resumed r"]) auto
  qed (use assms(3) in auto)
qed

lemma breakpoints_never_stuck_witness:
  "\<exists>s1 s2 out. (s1 = sample_hold \<or> hold_step sample_lib sample_hold s1) \<and> hold_step sample_lib s1 s2 \<and> hs_pc s2 ! 0 = Left out"
  using breakpoints_never_stuck [OF sample_hold_eq(1), of 0] sample_hold_eq(2,3) by auto

end
