(* ===== verification/Rules_Throttle.thy ===== *)
theory Rules_Throttle
  imports Rules_Compile
begin

text \<open>
  \<open>internal/rules/throttle.go\<close>: the token bucket of a throttle action and the reader it paces. The
  bucket's \<open>float64\<close>s are exact rationals here; times are in nanoseconds and the wait is truncated to
  whole nanoseconds as the code truncates it.
\<close>

section \<open>The bucket\<close>

definition secs :: "duration \<Rightarrow> rat" where
  "secs d = of_int d / 1000000000"

definition reserve :: "gotime \<Rightarrow> nat \<Rightarrow> bucket \<Rightarrow> duration \<times> bucket" where
  "reserve now n b =
     (let filled = min (k_burst b) (k_tokens b + k_rate b * secs (time_sub now (k_last b)));
          b' = b\<lparr>k_last := now, k_tokens := filled - of_nat n\<rparr>
      in if 0 \<le> k_tokens b' then (0, b')
         else (\<lfloor>- k_tokens b' / k_rate b * 1000000000\<rfloor>, b'))"

section \<open>The reader\<close>

text \<open>\<open>rd m\<close> is what the wrapped body returns for a buffer of \<open>m\<close> bytes: the bytes and whether with an
  error; \<open>cancelled\<close> says whether the context ends before the timer.\<close>

datatype read_error = SourceError string | ContextDone

definition throttled_read ::
  "gotime \<Rightarrow> bool \<Rightarrow> (nat \<Rightarrow> nat \<times> string option) \<Rightarrow> nat \<Rightarrow> bucket \<Rightarrow> (nat \<times> read_error option \<times> duration) \<times> bucket" where
  "throttled_read now cancelled rd len b =
     (let m = (if throttle_chunk < len then throttle_chunk else len);
          (n, err) = rd m; err' = map_option SourceError err
      in if 0 < n
         then (let (d, b') = reserve now n b
               in if 0 < d then (if cancelled then ((n, Some ContextDone, 0), b') else ((n, err', d), b'))
                  else ((n, err', 0), b'))
         else ((n, err', 0), b))"

section \<open>The rate is never exceeded\<close>

text \<open>Reservations \<open>(t, n)\<close> in the order they take the mutex: the waits, the bucket at the end.\<close>

fun reserve_all :: "(gotime \<times> nat) list \<Rightarrow> bucket \<Rightarrow> duration list \<times> bucket" where
  "reserve_all [] b = ([], b)"
| "reserve_all ((t, n) # rs) b =
     (let (d, b1) = reserve t n b; (ds, b2) = reserve_all rs b1 in (d # ds, b2))"

definition taken :: "(gotime \<times> nat) list \<Rightarrow> rat" where
  "taken rs = of_nat (sum_list (List.map snd rs))"

lemma taken_simps [simp]: "taken [] = 0" "taken (rs @ [(t, n)]) = taken rs + of_nat n"
  by (simp_all add: taken_def)

lemma reserve_all_append:
  "reserve_all (rs @ rs') b =
     (let (ds, b1) = reserve_all rs b; (ds', b2) = reserve_all rs' b1 in (ds @ ds', b2))"
  by (induction rs b rule: reserve_all.induct) (simp_all add: Let_def split: prod.split)

lemma reserve_fields:
  "k_rate (snd (reserve t n b)) = k_rate b" "k_burst (snd (reserve t n b)) = k_burst b" "k_last (snd (reserve t n b)) = t"
  "k_tokens (snd (reserve t n b)) = min (k_burst b) (k_tokens b + k_rate b * secs (time_sub t (k_last b))) - of_nat n"
  by (simp_all add: reserve_def Let_def)

lemma time_sub_le: "u \<le> t \<Longrightarrow> time_sub t u \<le> t - u"
  by (simp add: time_sub_def int_max_def int_min_def)

lemma secs_mono: "a \<le> b \<Longrightarrow> secs a \<le> secs b"
  by (simp add: secs_def divide_right_mono)

lemma secs_add: "secs a + secs b = secs (a + b)"
  by (simp add: secs_def add_divide_distrib)

text \<open>What was taken and what is left never exceeds the burst and the time that passed.\<close>

lemma reserve_all_account:
  assumes "0 < rate"
  shows "sorted (t0 # List.map fst rs) \<Longrightarrow>
    (let b = snd (reserve_all rs (new_bucket rate burst t0)); t = last (t0 # List.map fst rs) in
     k_rate b = rate \<and> k_burst b = burst \<and> k_last b = t \<and> taken rs + k_tokens b \<le> burst + rate * secs (t - t0))"
proof (induction rs rule: rev_induct)
  case Nil
  then show ?case by (simp add: new_bucket_def secs_def)
next
  case (snoc r rs)
  obtain t n where r: "r = (t, n)" by (cases r) auto
  define b where "b = snd (reserve_all rs (new_bucket rate burst t0))"
  define u where "u = last (t0 # List.map fst rs)"
  have "sorted (t0 # List.map fst rs)" using snoc.prems by (auto simp: sorted_append)
  then have b: "k_rate b = rate" "k_burst b = burst" "k_last b = u" "taken rs + k_tokens b \<le> burst + rate * secs (u - t0)"
    using snoc.IH by (simp_all add: b_def u_def Let_def)
  have "u \<le> t" using snoc.prems r unfolding u_def by (cases rs rule: rev_cases) (auto simp: sorted_append)
  have fin: "snd (reserve_all (rs @ [r]) (new_bucket rate burst t0)) = snd (reserve t n b)"
    by (simp add: reserve_all_append b_def r Let_def split: prod.split)
  have "k_tokens b + rate * secs (time_sub t u) \<le> k_tokens b + rate * secs (t - u)"
    using assms secs_mono [OF time_sub_le [OF \<open>u \<le> t\<close>]] by simp
  moreover have "rate * secs (u - t0) + rate * secs (t - u) = rate * secs (t - t0)"
    by (simp add: distrib_left [symmetric] secs_add)
  ultimately have "taken rs + min burst (k_tokens b + rate * secs (time_sub t u)) \<le> burst + rate * secs (t - t0)"
    using b(4) by linarith
  then show ?case unfolding fin Let_def using b by (simp add: reserve_fields r)
qed

lemma reserve_wait:
  assumes "0 < k_rate b"
  shows "0 \<le> fst (reserve t n b)"
    and "- k_tokens (snd (reserve t n b)) \<le> k_rate b * secs (fst (reserve t n b) + 1)"
    and "0 < fst (reserve t n b) \<Longrightarrow> k_rate b * secs (fst (reserve t n b)) \<le> - k_tokens (snd (reserve t n b))"
proof -
  define x where "x = - k_tokens (snd (reserve t n b))"
  have d: "fst (reserve t n b) = (if x \<le> 0 then 0 else \<lfloor>x / k_rate b * 1000000000\<rfloor>)"
  proof (cases "0 \<le> min (k_burst b) (k_tokens b + k_rate b * secs (time_sub t (k_last b))) - of_nat n")
    case True
    then show ?thesis unfolding x_def reserve_fields by (simp add: reserve_def)
  next
    case False
    then have "\<not> x \<le> 0" unfolding x_def reserve_fields by linarith
    moreover have kt: "k_tokens (b\<lparr>k_last := t, k_tokens := y\<rparr>) = y" for y by simp
    moreover have "fst (reserve t n b) = \<lfloor>x / k_rate b * 1000000000\<rfloor>"
      using False unfolding x_def reserve_fields unfolding reserve_def Let_def
      by (simp only: kt if_False fst_conv)
    ultimately show ?thesis by simp
  qed
  show "0 \<le> fst (reserve t n b)" unfolding d using assms by simp
  show "- k_tokens (snd (reserve t n b)) \<le> k_rate b * secs (fst (reserve t n b) + 1)"
    unfolding x_def [symmetric] d
  proof (cases "x \<le> 0")
    case True
    with assms show "x \<le> k_rate b * secs ((if x \<le> 0 then 0 else \<lfloor>x / k_rate b * 1000000000\<rfloor>) + 1)"
      by (simp add: secs_def)
  next
    case False
    have "x / k_rate b * 1000000000 \<le> of_int (\<lfloor>x / k_rate b * 1000000000\<rfloor> + 1)" by linarith
    with False assms show "x \<le> k_rate b * secs ((if x \<le> 0 then 0 else \<lfloor>x / k_rate b * 1000000000\<rfloor>) + 1)"
      by (simp add: secs_def field_simps)
  qed
  assume "0 < fst (reserve t n b)"
  then have x: "\<not> x \<le> 0" by (auto simp: d split: if_splits)
  have "k_rate b * of_int \<lfloor>x / k_rate b * 1000000000\<rfloor> \<le> k_rate b * (x / k_rate b * 1000000000)"
    using assms by (intro mult_left_mono) simp_all
  then have "k_rate b * of_int \<lfloor>x / k_rate b * 1000000000\<rfloor> \<le> x * 1000000000" using assms by simp
  with x show "k_rate b * secs (fst (reserve t n b)) \<le> - k_tokens (snd (reserve t n b))"
    unfolding x_def [symmetric] d secs_def by simp
qed



end
