(* ===== verification/Proxy_Policy.thy ===== *)
theory Proxy_Policy
  imports Glob Net "HOL-Library.Product_Lexorder"
begin

text \<open>
  \<open>internal/proxy/decrypt.go\<close>: which tunnels are decrypted (the policy, host patterns and how list
  entries are normalised) and the ring of hosts whose clients refused the certificate. A decrypt mode
  is a string in the code and stays one here: any string but the three modes behaves as \<open>all\<close>.
\<close>

section \<open>The policy\<close>

definition mode_all :: string where "mode_all = ''all''"
definition mode_only :: string where "mode_only = ''only''"
definition mode_off :: string where "mode_off = ''off''"

definition reason_never :: string where "reason_never = ''never''"
definition reason_unlisted :: string where "reason_unlisted = ''unlisted''"
definition reason_off :: string where "reason_off = ''off''"

record decrypt_policy =
  dp_mode :: string
  dp_only :: "string list"
  dp_never :: "string list"

datatype policy_error = BadMode string | BadPattern string | EmptyPattern

definition parse_decrypt_mode :: "string \<Rightarrow> policy_error + string" where
  "parse_decrypt_mode s =
     (let m = to_lower (trim_space s)
      in if m = mode_all \<or> m = mode_only \<or> m = mode_off then Inr m else Inl (BadMode s))"

definition host_match :: "string \<Rightarrow> string \<Rightarrow> bool" where
  "host_match pattern host =
     (if is_pattern pattern then glob_match pattern host
      else (let p = to_lower pattern; h = to_lower host in h = p \<or> has_suffix h (''.'' @ p)))"

definition host_match_any :: "string list \<Rightarrow> string \<Rightarrow> bool" where
  "host_match_any patterns host = list_ex (\<lambda>p. host_match p host) patterns"

definition decide :: "decrypt_policy \<Rightarrow> string \<Rightarrow> bool \<times> string" where
  "decide p host =
     (if host_match_any (dp_never p) host then (False, reason_never)
      else if dp_mode p = mode_off then (False, reason_off)
      else if dp_mode p = mode_only then
        (if host_match_any (dp_only p) host then (True, []) else (False, reason_unlisted))
      else (True, []))"

definition normalize_host :: "string \<Rightarrow> policy_error + string" where
  "normalize_host s =
     (let h = to_lower (trim_space s) in
      if str_contains h ''://'' \<or> contains_any h [CHR '' '', CHR 0x09, CHR ''/''] then Inl (BadPattern s)
      else (let h1 = (case split_host_port h of Some (hp, _) \<Rightarrow> hp | None \<Rightarrow> h);
                h2 = trim_suffix h1 ''.''
            in if h2 = [] then Inl EmptyPattern else Inr h2))"

section \<open>Refused certificates\<close>

record rejected_host =
  rj_host :: string
  rj_count :: int
  rj_first :: gotime
  rj_last :: gotime
  rj_error :: string

type_synonym ring_map = "(string \<times> rejected_host) list"

definition rejected_window :: duration where "rejected_window = hour"
definition rejected_limit :: nat where "rejected_limit = 256"

definition prune :: "gotime \<Rightarrow> ring_map \<Rightarrow> ring_map" where
  "prune now m = filter (\<lambda>(_, e). \<not> rejected_window < time_sub now (rj_last e)) m"

text \<open>The eviction scan, in the map's order: an empty \<open>oldest\<close> takes the next host.\<close>

definition stalest :: "ring_map \<Rightarrow> string" where
  "stalest m =
     fst (fold (\<lambda>(h, e) (oldest, at). if oldest = [] \<or> rj_last e < at then (h, rj_last e) else (oldest, at)) m ([], 0))"

definition reject_add :: "gotime \<Rightarrow> string \<Rightarrow> string \<Rightarrow> ring_map \<Rightarrow> ring_map" where
  "reject_add now host err m =
     (if host = [] then m
      else
        (let m1 = prune now m in
         case map_of m1 host of
           Some e \<Rightarrow> map_put host (e\<lparr>rj_count := rj_count e + 1, rj_last := now, rj_error := err\<rparr>) m1
         | None \<Rightarrow>
             (let m2 = (if rejected_limit \<le> length m1 then map_del (stalest m1) m1 else m1)
              in map_put host \<lparr>rj_host = host, rj_count = 1, rj_first = now, rj_last = now, rj_error = err\<rparr> m2)))"

definition reject_forget :: "string list \<Rightarrow> ring_map \<Rightarrow> ring_map" where
  "reject_forget patterns m = filter (\<lambda>(h, _). \<not> host_match_any patterns h) m"

definition rejected_order :: "rejected_host \<Rightarrow> int \<times> int \<times> string" where
  "rejected_order e = (- rj_count e, - rj_last e, rj_host e)"

definition reject_list :: "gotime \<Rightarrow> ring_map \<Rightarrow> rejected_host list \<times> ring_map" where
  "reject_list now m = (let m1 = prune now m in (sort_key rejected_order (List.map snd m1), m1))"

text \<open>The ring's operations, and \<open>SetDecrypt\<close>, which drops the hosts the new never list covers.\<close>

datatype ring_op = RingAdd gotime string string | RingList gotime | RingForget "string list"

fun ring_step :: "ring_op \<Rightarrow> ring_map \<Rightarrow> ring_map" where
  "ring_step (RingAdd now host err) m = reject_add now host err m"
| "ring_step (RingList now) m = snd (reject_list now m)"
| "ring_step (RingForget ps) m = reject_forget ps m"

definition ring_run :: "ring_op list \<Rightarrow> ring_map" where
  "ring_run ops = fold ring_step ops []"

definition set_decrypt :: "decrypt_policy \<Rightarrow> ring_map \<Rightarrow> decrypt_policy \<times> ring_map" where
  "set_decrypt p m =
     (let cp = (if dp_mode p = [] then p\<lparr>dp_mode := mode_all\<rparr> else p) in (cp, reject_forget (dp_never cp) m))"

section \<open>Hosts and patterns\<close>

lemma host_match_plain:
  "\<not> is_pattern p \<Longrightarrow> host_match p h \<longleftrightarrow> to_lower h = to_lower p \<or> (\<exists>sub. to_lower h = sub @ ''.'' @ to_lower p)"
  by (auto simp: host_match_def Let_def suffix_def)

lemma host_match_fold: "equal_fold h h' \<Longrightarrow> host_match p h = host_match p h'"
  by (simp add: host_match_def equal_fold_def glob_match_fold [of p p h h', unfolded equal_fold_def])

lemma contains_any_iff: "contains_any s cs \<longleftrightarrow> set s \<inter> set cs \<noteq> {}"
  by (auto simp: contains_any_def list_ex_iff)

section \<open>The ring's invariant\<close>

text \<open>\<open>rejections h log\<close>: the instants and errors of the rejections of \<open>h\<close>, the latest first.\<close>

fun rejections :: "string \<Rightarrow> ring_op list \<Rightarrow> (gotime \<times> string) list" where
  "rejections h [] = []"
| "rejections h (RingAdd now g err # ops) = (if g = h then (now, err) # rejections h ops else rejections h ops)"
| "rejections h (_ # ops) = rejections h ops"

text \<open>\<open>gaps_ok\<close>: each instant is at most the window after the one before it.\<close>

fun gaps_ok :: "(gotime \<times> string) list \<Rightarrow> bool" where
  "gaps_ok ((t, _) # (u, e) # r) = (\<not> rejected_window < time_sub t u \<and> gaps_ok ((u, e) # r))"
| "gaps_ok _ = True"

definition entry_ok :: "ring_op list \<Rightarrow> string \<Rightarrow> rejected_host \<Rightarrow> bool" where
  "entry_ok past h e =
     (rj_host e = h \<and> h \<noteq> [] \<and> 0 < rj_count e
      \<and> (\<exists>n. rj_count e = int (Suc n) \<and> Suc n \<le> length (rejections h past)
          \<and> fst (rejections h past ! n) = rj_first e \<and> rejections h past ! 0 = (rj_last e, rj_error e)
          \<and> gaps_ok (take (Suc n) (rejections h past))))"

definition ring_ok :: "ring_op list \<Rightarrow> ring_map \<Rightarrow> bool" where
  "ring_ok past m =
     (keys_distinct m \<and> length m \<le> rejected_limit \<and> (\<forall>(h, e) \<in> set m. entry_ok past h e))"

lemma stalest_in: "m \<noteq> [] \<Longrightarrow> \<forall>(h, e) \<in> set m. h \<noteq> [] \<Longrightarrow> stalest m \<in> fst ` set m"
proof -
  let ?f = "\<lambda>(h, e :: rejected_host) (oldest, at). if oldest = [] \<or> rj_last e < at then (h, rj_last e) else (oldest, at)"
  have fold_in: "(o0 = [] \<longrightarrow> m \<noteq> []) \<Longrightarrow> \<forall>(h, e) \<in> set m. h \<noteq> [] \<Longrightarrow>
      fst (fold ?f m (o0, a0)) \<in> fst ` set m \<union> (if o0 = [] then {} else {o0})" for m o0 a0
  proof (induction m arbitrary: o0 a0)
    case (Cons p m)
    obtain h e where p: "p = (h, e)" by (cases p) auto
    show ?case
      using Cons.IH [of h "rj_last e"] Cons.IH [of o0 a0] Cons.prems by (auto simp: p split: if_splits)
  qed auto
  assume "m \<noteq> []" "\<forall>(h, e) \<in> set m. h \<noteq> []"
  with fold_in [of "[]" m 0] show ?thesis by (simp add: stalest_def)
qed

lemma ring_ok_subset:
  assumes "ring_ok past m" "set m' \<subseteq> set m" "keys_distinct m'" "length m' \<le> length m"
  shows "ring_ok past m'"
  using assms by (fastforce simp: ring_ok_def)

lemma ring_ok_filter: "ring_ok past m \<Longrightarrow> ring_ok past (filter P m)"
  by (rule ring_ok_subset) (auto simp: ring_ok_def)

lemma entry_ok_other: "g \<noteq> h \<Longrightarrow> entry_ok (RingAdd now g err # past) h e = entry_ok past h e"
  by (simp add: entry_ok_def)

lemma entry_ok_new:
  "h \<noteq> [] \<Longrightarrow> entry_ok (RingAdd now h err # past) h
     \<lparr>rj_host = h, rj_count = 1, rj_first = now, rj_last = now, rj_error = err\<rparr>"
  by (simp add: entry_ok_def)

lemma entry_ok_again:
  assumes "entry_ok past h e" "\<not> rejected_window < time_sub now (rj_last e)"
  shows "entry_ok (RingAdd now h err # past) h (e\<lparr>rj_count := rj_count e + 1, rj_last := now, rj_error := err\<rparr>)"
proof -
  obtain n where n: "rj_count e = int (Suc n)" "Suc n \<le> length (rejections h past)"
    "fst (rejections h past ! n) = rj_first e" "rejections h past ! 0 = (rj_last e, rj_error e)"
    "gaps_ok (take (Suc n) (rejections h past))"
    using assms(1) by (auto simp: entry_ok_def)
  obtain r rs where r: "rejections h past = r # rs" using n(2) by (cases "rejections h past") auto
  have "gaps_ok (take (Suc (Suc n)) ((now, err) # r # rs))"
    using n(4,5) assms(2) by (cases r) (simp add: r)
  with n assms(1) show ?thesis
    by (auto simp: entry_ok_def r intro!: exI [of _ "Suc n"])
qed

lemma ring_ok_mono:
  assumes "ring_ok past m" "\<forall>h e. (h, e) \<in> set m \<longrightarrow> entry_ok past h e \<longrightarrow> entry_ok past' h e"
  shows "ring_ok past' m"
  using assms by (auto simp: ring_ok_def)

lemma reject_add_ok:
  assumes ok: "ring_ok past m"
  shows "ring_ok (RingAdd now host err # past) (reject_add now host err m)"
proof (cases "host = []")
  case True
  have "entry_ok (RingAdd now [] err # past) h e" if "(h, e) \<in> set m" for h e
    using ok that by (auto simp: ring_ok_def entry_ok_def)
  with ok True show ?thesis by (auto simp: reject_add_def ring_ok_def)
next
  case False
  define m1 where "m1 = prune now m"
  have ok1: "ring_ok past m1" unfolding m1_def prune_def by (rule ring_ok_filter [OF ok])
  have kd: "keys_distinct m1" and len: "length m1 \<le> rejected_limit"
    and ent: "\<And>h e. (h, e) \<in> set m1 \<Longrightarrow> entry_ok past h e" using ok1 by (auto simp: ring_ok_def)
  let ?past = "RingAdd now host err # past"
  show ?thesis
  proof (cases "map_of m1 host")
    case (Some e)
    then have mem: "(host, e) \<in> set m1" by (rule map_of_SomeD)
    then have "\<not> rejected_window < time_sub now (rj_last e)" by (auto simp: m1_def prune_def)
    from entry_ok_again [OF ent [OF mem] this, of err] kd len ent mem
    have "ring_ok ?past (map_put host (e\<lparr>rj_count := rj_count e + 1, rj_last := now, rj_error := err\<rparr>) m1)"
      by (auto simp: ring_ok_def map_put_in_set length_map_put entry_ok_other keys_distinct_put image_iff)
    with False Some show ?thesis by (simp add: reject_add_def m1_def Let_def)
  next
    case None
    then have fresh: "host \<notin> fst ` set m1" by (simp add: map_of_eq_None_iff)
    define m2 where "m2 = (if rejected_limit \<le> length m1 then map_del (stalest m1) m1 else m1)"
    have sub: "set m2 \<subseteq> set m1" and kd2: "keys_distinct m2" using kd by (auto simp: m2_def map_del_def)
    have "stalest m1 \<in> fst ` set m1" if "rejected_limit \<le> length m1"
    proof (rule stalest_in)
      show "m1 \<noteq> []" using that by (auto simp: rejected_limit_def)
      show "\<forall>(h, e) \<in> set m1. h \<noteq> []" using ent by (auto simp: entry_ok_def)
    qed
    then have len2: "length m2 < rejected_limit"
      using len by (auto simp: m2_def length_map_del [OF kd] rejected_limit_def)
    have fresh2: "host \<notin> fst ` set m2" using fresh sub by auto
    have "ring_ok ?past (map_put host \<lparr>rj_host = host, rj_count = 1, rj_first = now, rj_last = now, rj_error = err\<rparr> m2)"
      using kd2 len2 fresh2 ent sub False
      by (auto simp: ring_ok_def map_put_in_set length_map_put entry_ok_new entry_ok_other keys_distinct_put)
    with False None show ?thesis by (simp add: reject_add_def m1_def [symmetric] m2_def Let_def)
  qed
qed

lemma ring_step_ok: "ring_ok past m \<Longrightarrow> ring_ok (op # past) (ring_step op m)"
proof (cases op)
  case (RingAdd now h err)
  assume "ring_ok past m"
  with RingAdd show ?thesis by (simp add: reject_add_ok)
next
  case (RingList now)
  assume "ring_ok past m"
  then have "ring_ok past (prune now m)" unfolding prune_def by (rule ring_ok_filter)
  with RingList show ?thesis by (simp add: reject_list_def Let_def ring_ok_def entry_ok_def)
next
  case (RingForget ps)
  assume "ring_ok past m"
  then have "ring_ok past (reject_forget ps m)" unfolding reject_forget_def by (rule ring_ok_filter)
  with RingForget show ?thesis by (simp add: ring_ok_def entry_ok_def)
qed

lemma ring_run_ok: "ring_ok (rev ops) (ring_run ops)"
proof -
  have "ring_ok past m \<Longrightarrow> ring_ok (rev ops @ past) (fold ring_step ops m)" for past m
    by (induction ops arbitrary: past m) (simp_all add: ring_step_ok del: ring_step.simps)
  from this [of "[]" "[]"] show ?thesis by (simp add: ring_run_def ring_ok_def)
qed

section \<open>Properties\<close>

text \<open>The never list wins in every mode and its reason is recorded; otherwise mode \<open>off\<close> decrypts
  nothing, mode \<open>only\<close> exactly the hosts on its list and any other mode everything. A list entry with no
  wildcard covers the domain itself and its subdomains and nothing else, in any letter case.\<close>

theorem decrypt_decision:
  "(fst (decide p host) \<longleftrightarrow>
      \<not> host_match_any (dp_never p) host \<and> dp_mode p \<noteq> mode_off
      \<and> \<not> (dp_mode p = mode_only \<and> \<not> host_match_any (dp_only p) host))
   \<and> (snd (decide p host) = reason_never \<longleftrightarrow> host_match_any (dp_never p) host)
   \<and> (fst (decide p host) \<longleftrightarrow> snd (decide p host) = [])
   \<and> (is_pattern entry \<or> host_match entry host =
        (equal_fold host entry \<or> (\<exists>sub dom. host = sub @ ''.'' @ dom \<and> equal_fold dom entry)))"
proof -
  have dot: "lower_char (CHR ''.'') = CHR ''.''" by code_simp
  have sub: "(\<exists>sub. to_lower host = sub @ CHR ''.'' # to_lower entry) \<longleftrightarrow>
    (\<exists>sub dom. host = sub @ CHR ''.'' # dom \<and> to_lower dom = to_lower entry)"
  proof
    assume "\<exists>sub. to_lower host = sub @ CHR ''.'' # to_lower entry"
    then obtain a where a: "List.map lower_char host = a @ CHR ''.'' # to_lower entry" by (auto simp: to_lower_def)
    then obtain h1 h2 where h: "host = h1 @ h2" "List.map lower_char h2 = CHR ''.'' # to_lower entry"
      by (auto simp: map_eq_append_conv)
    then obtain c dom where c: "h2 = c # dom" "lower_char c = CHR ''.''" "to_lower dom = to_lower entry"
      by (auto simp: to_lower_def)
    have "c = CHR ''.''" using c(2) lower_char_eq_iff_not_letter [of "CHR ''.''" c] by simp
    with h c show "\<exists>sub dom. host = sub @ CHR ''.'' # dom \<and> to_lower dom = to_lower entry" by blast
  qed (auto simp: dot)
  show ?thesis
    unfolding decide_def by (auto simp: reason_never_def reason_off_def reason_unlisted_def host_match_plain sub equal_fold_def dot)
qed

text \<open>After any operations the ring of refused certificates holds at most 256 hosts, each once, and an
  entry is true to the past: its count is that many of the host's latest rejections, each within an
  hour of the one before, the first and the last of them at the recorded instants and the last with
  the recorded error.\<close>

theorem rejected_ring_exact:
  "length (ring_run ops) \<le> 256 \<and> keys_distinct (ring_run ops)
   \<and> list_all (\<lambda>(h, e). entry_ok (rev ops) h e) (ring_run ops)"
  using ring_run_ok [of ops] by (simp add: ring_ok_def rejected_limit_def list_all_iff)

text \<open>The list of suggestions is sorted by count, then recency, then name, and holds exactly the entries
  still in the window; installing a policy leaves no suggestion the never list already covers and
  drops no other.\<close>

lemma rejected_list_and_policy:
  "sorted (List.map rejected_order (fst (reject_list now m)))
   \<and> mset (fst (reject_list now m)) = mset (List.map snd (prune now m))
   \<and> snd (set_decrypt p m) = filter (\<lambda>(h, e). \<not> host_match_any (dp_never p) h) m
   \<and> list_all (\<lambda>(h, e). snd (decide (fst (set_decrypt p m)) h) \<noteq> reason_never) (snd (set_decrypt p m))"
  by (auto simp: reject_list_def Let_def set_decrypt_def reject_forget_def decide_def list_all_iff
      reason_never_def reason_off_def reason_unlisted_def)

text \<open>Gaps of the never list: a host written with its root dot is not covered by the entry without it,
  and an IPv6 entry with brackets and no port keeps them, so it covers no tunnel to that address.\<close>

lemma never_list_gaps:
  "fst (decide \<lparr>dp_mode = mode_all, dp_only = [], dp_never = [''bank.com'']\<rparr> ''bank.com.'')
   \<and> normalize_host ''[::1]'' = Inr ''[::1]'' \<and> normalize_host ''[::1]:443'' = Inr ''::1''
   \<and> fst (decide \<lparr>dp_mode = mode_all, dp_only = [], dp_never = [''[::1]'']\<rparr> ''::1'')"
  by code_simp

end
