(* ===== verification/Proxy_Devices.thy ===== *)
theory Proxy_Devices
  imports Net
begin

text \<open>
  \<open>internal/proxy/devices.go\<close>: the table of remote clients, at most 64, keyed by address, and the
  naming of a device from its User-Agent. Instants are arguments of the operations.
\<close>

section \<open>Names\<close>

text \<open>The middle dot of the display names is the two bytes of its UTF-8 encoding.\<close>

definition mid_dot :: string where
  "mid_dot = [CHR '' '', CHR 0xC2, CHR 0xB7, CHR '' '']"

definition with_version :: "string \<Rightarrow> string \<Rightarrow> string" where
  "with_version name v = (if v = [] then name else name @ mid_dot @ ''iOS '' @ v)"

definition ios_version :: "string \<Rightarrow> string" where
  "ios_version ua =
     (case str_index ua '' OS '' of
        None \<Rightarrow> []
      | Some i \<Rightarrow>
          (let rest = drop (i + 4) ua;
               v = List.map (\<lambda>c. if c = CHR ''_'' then CHR ''.'' else c) (takeWhile (\<lambda>c. c \<notin> set '' ;)'') rest)
           in if v = [] \<or> \<not> is_digit (hd v) then [] else v))"

definition android_model :: "string \<Rightarrow> string" where
  "android_model after =
     (let m0 = (if list_ex (\<lambda>c. c \<in> set '';)'') after then trim_space (takeWhile (\<lambda>c. c \<notin> set '';)'') after) else []);
          m1 = trim_space (trim_suffix m0 ''Build'');
          m2 = (case str_index m1 '' Build/'' of Some k \<Rightarrow> take k m1 | None \<Rightarrow> m1)
      in if m2 = ''K'' \<or> equal_fold m2 ''wv'' \<or> str_contains m2 ''/'' then [] else m2)"

definition android_name :: "string \<Rightarrow> string" where
  "android_name ua =
     (case str_index ua ''Android '' of
        None \<Rightarrow> ''Android''
      | Some i \<Rightarrow>
          (let rest = drop (i + 8) ua; upto = takeWhile (\<lambda>c. c \<notin> set '';)'') rest; after = drop (length upto) rest
           in case after of
                [] \<Rightarrow> ''Android''
              | c # more \<Rightarrow>
                  (let ver = trim_space upto;
                       model = (if c = CHR '';'' then android_model more else []);
                       out = (if ver \<noteq> [] then ''Android '' @ ver else ''Android'')
                   in if model \<noteq> [] then model @ mid_dot @ out else out)))"

definition device_name :: "string \<Rightarrow> string" where
  "device_name ua =
     (if ua = [] then []
      else if str_contains ua ''iPhone'' then with_version ''iPhone'' (ios_version ua)
      else if str_contains ua ''iPad'' then with_version ''iPad'' (ios_version ua)
      else if str_contains ua ''Android'' then android_name ua
      else if str_contains ua ''Macintosh'' then ''Mac''
      else if str_contains ua ''Windows'' then ''Windows PC''
      else if str_contains ua ''CFNetwork'' \<and> str_contains ua ''Darwin'' then ''iOS device''
      else if str_contains ua ''okhttp'' \<or> str_contains ua ''Dalvik'' then ''Android''
      else if str_contains ua ''Linux'' then ''Linux''
      else [])"

definition generic_name :: "string \<Rightarrow> bool" where
  "generic_name n = (has_prefix n ''iOS'' \<or> n = ''Android'' \<or> n = ''device'')"

definition better_name :: "string \<Rightarrow> string \<Rightarrow> bool" where
  "better_name candidate current = (current = [] \<or> generic_name current \<and> \<not> generic_name candidate)"

section \<open>The table\<close>

record device =
  dv_ip :: string
  dv_name :: string
  dv_user_agent :: string
  dv_first_seen :: gotime
  dv_last_seen :: gotime
  dv_requests :: int
  dv_decrypted :: int
  dv_rejected :: int

type_synonym device_table = "(string \<times> device) list"

definition proxy_ok :: "device \<Rightarrow> bool" where "proxy_ok d = (0 < dv_requests d)"
definition tls_ok :: "device \<Rightarrow> bool" where "tls_ok d = (0 < dv_decrypted d)"

definition max_devices :: nat where "max_devices = 64"

definition client_ip :: "string \<Rightarrow> string option" where
  "client_ip addr =
     (let h = (case split_host_port addr of Some (h, _) \<Rightarrow> h | None \<Rightarrow> addr)
      in case parse_ip h of
           None \<Rightarrow> None
         | Some ip \<Rightarrow> if ip_is_loopback ip then None else Some (ip_string ip))"

definition older :: "string \<times> device \<Rightarrow> device option \<Rightarrow> device option" where
  "older p best =
     (case best of None \<Rightarrow> Some (snd p) | Some b \<Rightarrow> if dv_last_seen (snd p) < dv_last_seen b then Some (snd p) else Some b)"

definition oldest :: "device_table \<Rightarrow> device option" where
  "oldest m = fold older m None"

definition evict_device :: "device_table \<Rightarrow> device_table" where
  "evict_device m = (case oldest m of None \<Rightarrow> m | Some d \<Rightarrow> map_del (dv_ip d) m)"

definition new_device :: "gotime \<Rightarrow> string \<Rightarrow> device" where
  "new_device now ip = \<lparr>dv_ip = ip, dv_name = [], dv_user_agent = [], dv_first_seen = now, dv_last_seen = 0,
     dv_requests = 0, dv_decrypted = 0, dv_rejected = 0\<rparr>"

definition touch :: "gotime \<Rightarrow> string \<Rightarrow> (device \<Rightarrow> device) \<Rightarrow> device_table \<Rightarrow> device_table" where
  "touch now addr fn m =
     (case client_ip addr of
        None \<Rightarrow> m
      | Some ip \<Rightarrow>
          (case map_of m ip of
             Some d \<Rightarrow> map_put ip (fn (d\<lparr>dv_last_seen := now\<rparr>)) m
           | None \<Rightarrow>
               (let m1 = (if max_devices \<le> length m then evict_device m else m)
                in map_put ip (fn ((new_device now ip)\<lparr>dv_last_seen := now\<rparr>)) m1)))"

definition get_device :: "string \<Rightarrow> device_table \<Rightarrow> device option" where
  "get_device addr m = (case client_ip addr of None \<Rightarrow> None | Some ip \<Rightarrow> map_of m ip)"

text \<open>\<open>sort.Slice\<close> is unstable and the map's order arbitrary: the order of equal instants is that of the list.\<close>

definition list_devices :: "device_table \<Rightarrow> device list" where
  "list_devices m = sort_key (\<lambda>d. - dv_last_seen d) (List.map snd m)"

definition name_device :: "string \<Rightarrow> bool \<Rightarrow> device \<Rightarrow> device" where
  "name_device ua cnt d =
     (let d1 = (if cnt then d\<lparr>dv_requests := dv_requests d + 1\<rparr> else d); name = device_name ua
      in if name \<noteq> [] \<and> (dv_user_agent d1 = [] \<or> better_name name (dv_name d1))
         then d1\<lparr>dv_user_agent := ua, dv_name := name\<rparr> else d1)"

definition note_request :: "gotime \<Rightarrow> string \<Rightarrow> string \<Rightarrow> bool \<Rightarrow> device_table \<Rightarrow> device_table" where
  "note_request now addr ua cnt = touch now addr (name_device ua cnt)"

definition note_handshake :: "gotime \<Rightarrow> string \<Rightarrow> bool \<Rightarrow> device_table \<Rightarrow> device_table" where
  "note_handshake now addr ok =
     touch now addr (\<lambda>d. if ok then d\<lparr>dv_decrypted := dv_decrypted d + 1\<rparr> else d\<lparr>dv_rejected := dv_rejected d + 1\<rparr>)"

datatype device_op = Request gotime string string bool | Handshake gotime string bool

fun device_step :: "device_op \<Rightarrow> device_table \<Rightarrow> device_table" where
  "device_step (Request now addr ua cnt) m = note_request now addr ua cnt m"
| "device_step (Handshake now addr ok) m = note_handshake now addr ok m"

definition device_run :: "device_op list \<Rightarrow> device_table" where
  "device_run ops = fold device_step ops []"

section \<open>Invariant\<close>

definition remote_ip :: "string \<Rightarrow> bool" where
  "remote_ip s = (\<exists>h ip. parse_ip h = Some ip \<and> \<not> ip_is_loopback ip \<and> s = ip_string ip)"

definition named_ok :: "device \<Rightarrow> bool" where
  "named_ok d = (dv_name d = device_name (dv_user_agent d) \<and> (dv_user_agent d = [] \<longleftrightarrow> dv_name d = []))"

definition device_ok :: "string \<Rightarrow> device \<Rightarrow> bool" where
  "device_ok ip d = (dv_ip d = ip \<and> remote_ip ip \<and> named_ok d \<and> 0 \<le> dv_requests d \<and> 0 \<le> dv_decrypted d \<and> 0 \<le> dv_rejected d)"

definition table_ok :: "device_table \<Rightarrow> bool" where
  "table_ok m = (keys_distinct m \<and> length m \<le> max_devices \<and> (\<forall>(ip, d) \<in> set m. device_ok ip d))"

text \<open>What a device event may do: keep the address and the counters from going down, and keep the name
  that of the agent.\<close>

definition counts_up :: "(device \<Rightarrow> device) \<Rightarrow> bool" where
  "counts_up fn = (\<forall>d ip. device_ok ip d \<longrightarrow> device_ok ip (fn d))"

lemma client_ip_remote: "client_ip addr = Some ip \<Longrightarrow> remote_ip ip"
  by (auto simp: client_ip_def remote_ip_def Let_def split: option.splits if_splits)

lemma older_simps [simp]:
  "older p None = Some (snd p)"
  "older p (Some b) = Some (if dv_last_seen (snd p) < dv_last_seen b then snd p else b)"
  by (simp_all add: older_def)

lemma oldest_fold:
  "fold older m best = Some r
   \<Longrightarrow> (r \<in> snd ` set m \<or> best = Some r) \<and> (\<forall>d \<in> snd ` set m. dv_last_seen r \<le> dv_last_seen d)
     \<and> (\<forall>b. best = Some b \<longrightarrow> dv_last_seen r \<le> dv_last_seen b)"
proof (induction m arbitrary: best)
  case (Cons p m)
  then show ?case
    by (cases best) (auto split: if_splits dest!: Cons.IH)
qed simp

lemma oldest_least: "oldest m = Some r \<Longrightarrow> r \<in> snd ` set m \<and> (\<forall>d \<in> snd ` set m. dv_last_seen r \<le> dv_last_seen d)"
  unfolding oldest_def by (drule oldest_fold) simp

lemma fold_older_Some: "fold older m (Some b) = None \<longleftrightarrow> False"
  by (induction m arbitrary: b) simp_all

lemma oldest_None: "oldest m = None \<Longrightarrow> m = []"
  by (cases m) (simp_all add: oldest_def fold_older_Some del: not_None_eq)

lemma evict_device_ok:
  assumes "table_ok m" "m \<noteq> []"
  shows "\<exists>r. r \<in> snd ` set m \<and> (\<forall>d \<in> snd ` set m. dv_last_seen r \<le> dv_last_seen d)
    \<and> evict_device m = map_del (dv_ip r) m \<and> length (evict_device m) = length m - 1"
proof -
  obtain r where r: "oldest m = Some r" using oldest_None assms(2) by (cases "oldest m") auto
  note least = oldest_least [OF r]
  from least obtain ip where "(ip, r) \<in> set m" by auto
  with assms(1) have "dv_ip r \<in> fst ` set m" by (auto simp: table_ok_def device_ok_def rev_image_eqI)
  then have "length (map_del (dv_ip r) m) = length m - 1"
    using assms(1) by (simp add: table_ok_def length_map_del)
  with least r show ?thesis by (auto simp: evict_device_def intro!: exI [of _ r])
qed

lemma touch_ok:
  assumes "table_ok m" "counts_up fn"
  shows "table_ok (touch now addr fn m)"
proof (cases "client_ip addr")
  case (Some ip)
  note remote = client_ip_remote [OF Some]
  show ?thesis
  proof (cases "map_of m ip")
    case (Some d)
    then have mem: "(ip, d) \<in> set m" by (rule map_of_SomeD)
    then have "device_ok ip d" using assms(1) by (auto simp: table_ok_def)
    then have "device_ok ip (d\<lparr>dv_last_seen := now\<rparr>)" by (simp add: device_ok_def named_ok_def)
    then have "device_ok ip (fn (d\<lparr>dv_last_seen := now\<rparr>))" using assms(2) by (auto simp: counts_up_def)
    with assms(1) mem \<open>client_ip addr = Some ip\<close> Some show ?thesis
      by (auto simp: touch_def table_ok_def map_put_in_set length_map_put keys_distinct_put image_iff)
  next
    case None
    then have fresh: "ip \<notin> fst ` set m" by (simp add: map_of_eq_None_iff)
    define m1 where "m1 = (if max_devices \<le> length m then evict_device m else m)"
    have "device_ok ip ((new_device now ip)\<lparr>dv_last_seen := now\<rparr>)"
      using remote by (simp add: new_device_def device_ok_def named_ok_def device_name_def)
    then have d: "device_ok ip (fn ((new_device now ip)\<lparr>dv_last_seen := now\<rparr>))"
      using assms(2) by (auto simp: counts_up_def)
    have "keys_distinct m1 \<and> set m1 \<subseteq> set m \<and> length m1 < max_devices"
    proof (cases "max_devices \<le> length m")
      case True
      then have "m \<noteq> []" by (auto simp: max_devices_def)
      from evict_device_ok [OF assms(1) this] obtain r :: device where
        "evict_device m = map_del (dv_ip r) m" "length (evict_device m) = length m - 1" by blast
      with True assms(1) show ?thesis
        by (auto simp: m1_def table_ok_def map_del_def max_devices_def distinct_map_filter)
    next
      case False
      with assms(1) show ?thesis by (auto simp: m1_def table_ok_def)
    qed
    with assms(1) fresh d have "table_ok (map_put ip (fn ((new_device now ip)\<lparr>dv_last_seen := now\<rparr>)) m1)"
      by (auto simp: table_ok_def map_put_in_set length_map_put keys_distinct_put image_iff)
    with \<open>client_ip addr = Some ip\<close> None show ?thesis by (simp add: touch_def m1_def Let_def)
  qed
qed (use assms in \<open>simp add: touch_def\<close>)

lemma device_name_Nil [simp]: "device_name [] = []"
  by (simp add: device_name_def)

lemma name_device_up: "counts_up (name_device ua cnt)"
  by (auto simp: counts_up_def name_device_def Let_def device_ok_def named_ok_def)

lemma handshake_up:
  "counts_up (\<lambda>d. if ok then d\<lparr>dv_decrypted := dv_decrypted d + 1\<rparr> else d\<lparr>dv_rejected := dv_rejected d + 1\<rparr>)"
  by (auto simp: counts_up_def device_ok_def named_ok_def)

lemma device_step_ok: "table_ok m \<Longrightarrow> table_ok (device_step op m)"
  by (cases op) (simp_all add: note_request_def note_handshake_def touch_ok name_device_up handshake_up)

lemma device_run_ok: "table_ok (device_run ops)"
proof -
  have "table_ok m \<Longrightarrow> table_ok (fold device_step ops m)" for m
    by (induction ops arbitrary: m) (simp_all add: device_step_ok del: device_step.simps)
  from this [of "[]"] show ?thesis by (simp add: device_run_def table_ok_def)
qed

lemma touch_lookup:
  assumes "client_ip addr = Some ip"
  shows "map_of (touch now addr fn m) ip =
    Some (fn ((case map_of m ip of Some d \<Rightarrow> d | None \<Rightarrow> new_device now ip)\<lparr>dv_last_seen := now\<rparr>))"
  using assms by (auto simp: touch_def Let_def split: option.split)

lemma touch_frame:
  assumes "table_ok m" "client_ip addr = Some ip" "jp \<noteq> ip" "map_of m jp = Some d"
  shows "map_of (touch now addr fn m) jp = Some d
    \<or> (map_of m ip = None \<and> length m = max_devices \<and> (\<forall>e \<in> snd ` set m. dv_last_seen d \<le> dv_last_seen e))"
proof (cases "map_of m ip = None \<and> max_devices \<le> length m")
  case True
  then have "m \<noteq> []" by (auto simp: max_devices_def)
  from evict_device_ok [OF assms(1) this] obtain r :: device where r: "r \<in> snd ` set m"
    "\<forall>e \<in> snd ` set m. dv_last_seen r \<le> dv_last_seen e" "evict_device m = map_del (dv_ip r) m" by blast
  have len: "length m = max_devices" using True assms(1) by (simp add: table_ok_def)
  show ?thesis
  proof (cases "dv_ip r = jp")
    case True
    obtain k where k: "(k, r) \<in> set m" using r(1) by auto
    then have "k = jp" using assms(1) True by (auto simp: table_ok_def device_ok_def)
    with k assms(1) have "map_of m jp = Some r" by (simp add: table_ok_def)
    with assms(4) r(2) len \<open>map_of m ip = None \<and> max_devices \<le> length m\<close> show ?thesis by simp
  next
    case False
    with True assms r(3) show ?thesis by (simp add: touch_def Let_def)
  qed
next
  case False
  with assms show ?thesis by (auto simp: touch_def Let_def split: option.split)
qed

lemma name_device_counts:
  "dv_requests (name_device ua cnt d) = dv_requests d + (if cnt then 1 else 0)
   \<and> dv_decrypted (name_device ua cnt d) = dv_decrypted d \<and> dv_rejected (name_device ua cnt d) = dv_rejected d
   \<and> dv_last_seen (name_device ua cnt d) = dv_last_seen d \<and> dv_first_seen (name_device ua cnt d) = dv_first_seen d"
  by (simp add: name_device_def Let_def)

text \<open>A name once specific stays; a generic one only gives way to a specific one.\<close>

lemma name_device_keeps:
  assumes "named_ok d" "dv_name d \<noteq> []"
  shows "dv_name (name_device ua cnt d) = dv_name d
    \<or> generic_name (dv_name d) \<and> \<not> generic_name (dv_name (name_device ua cnt d))"
  using assms by (auto simp: name_device_def Let_def named_ok_def better_name_def)

lemma device_names:
  "device_name ''Mozilla/5.0 (iPhone; CPU iPhone OS 17_5 like Mac OS X)'' = ''iPhone'' @ mid_dot @ ''iOS 17.5''"
  "device_name ''Mozilla/5.0 (Linux; Android 14; Pixel 8 Build/UQ1A) Chrome'' = ''Pixel 8'' @ mid_dot @ ''Android 14''"
  "device_name ''Mozilla/5.0 (Linux; Android 10; K) Chrome'' = ''Android 10''"
  "device_name ''curl/8.1'' = []"
  by code_simp+

section \<open>Properties\<close>

text \<open>Whatever requests and handshakes come in, the table holds at most 64 devices, each under its own
  canonical address and none of them a loopback address, named after the agent it keeps.\<close>

theorem devices_bounded_remote:
  "length (device_run ops) \<le> 64 \<and> keys_distinct (device_run ops)
   \<and> list_all (\<lambda>(ip, d). dv_ip d = ip \<and> remote_ip ip \<and> dv_name d = device_name (dv_user_agent d)) (device_run ops)"
  using device_run_ok [of ops] by (auto simp: table_ok_def max_devices_def list_all_iff device_ok_def named_ok_def)

text \<open>A counted request is added to its client's own entry and to no other; another client's entry stays
  as it was, or went because the table was full, the client new and no entry seen less recently; and a
  specific device name is never replaced.\<close>

theorem request_counts_one_device:
  assumes "client_ip addr = Some ip"
  shows "(\<exists>d. get_device addr (note_request now addr ua True (device_run ops)) = Some d \<and> dv_last_seen d = now
      \<and> (case map_of (device_run ops) ip of
           None \<Rightarrow> dv_requests d = 1 \<and> dv_first_seen d = now
         | Some e \<Rightarrow> dv_requests d = dv_requests e + 1 \<and> dv_decrypted d = dv_decrypted e \<and> dv_first_seen d = dv_first_seen e
             \<and> (dv_name e \<noteq> [] \<longrightarrow> dv_name d = dv_name e \<or> generic_name (dv_name e) \<and> \<not> generic_name (dv_name d))))
    \<and> (\<forall>jp e. jp \<noteq> ip \<longrightarrow> map_of (device_run ops) jp = Some e \<longrightarrow>
      map_of (note_request now addr ua True (device_run ops)) jp = Some e
      \<or> (map_of (device_run ops) ip = None \<and> length (device_run ops) = 64
          \<and> (\<forall>x \<in> snd ` set (device_run ops). dv_last_seen e \<le> dv_last_seen x)))"
proof (rule conjI)
  let ?m = "device_run ops"
  note ok = device_run_ok [of ops]
  have named: "named_ok e" if "map_of ?m ip = Some e" for e
    using map_of_SomeD [OF that] ok by (auto simp: table_ok_def device_ok_def)
  show "\<exists>d. get_device addr (note_request now addr ua True ?m) = Some d \<and> dv_last_seen d = now
      \<and> (case map_of ?m ip of
           None \<Rightarrow> dv_requests d = 1 \<and> dv_first_seen d = now
         | Some e \<Rightarrow> dv_requests d = dv_requests e + 1 \<and> dv_decrypted d = dv_decrypted e \<and> dv_first_seen d = dv_first_seen e
             \<and> (dv_name e \<noteq> [] \<longrightarrow> dv_name d = dv_name e \<or> generic_name (dv_name e) \<and> \<not> generic_name (dv_name d)))"
    using named name_device_keeps [of "_\<lparr>dv_last_seen := now\<rparr>" ua True]
    by (auto simp: get_device_def note_request_def touch_lookup assms name_device_counts new_device_def named_ok_def split: option.split)
  show "\<forall>jp e. jp \<noteq> ip \<longrightarrow> map_of ?m jp = Some e \<longrightarrow>
      map_of (note_request now addr ua True ?m) jp = Some e
      \<or> (map_of ?m ip = None \<and> length ?m = 64 \<and> (\<forall>x \<in> snd ` set ?m. dv_last_seen e \<le> dv_last_seen x))"
    using touch_frame [OF ok assms, of _ _ now "name_device ua True"] by (auto simp: note_request_def max_devices_def)
qed

lemma request_counts_one_device_witness:
  "map_option dv_requests (get_device ''10.0.0.7:5000''
     (note_request 9 ''10.0.0.7:5000'' ''curl/8'' True (device_run [Request 5 ''10.0.0.7:4000'' [] True]))) = Some 2"
proof -
  have c: "client_ip ''10.0.0.7:5000'' = Some ''10.0.0.7''" by code_simp
  have m: "map_option dv_requests (map_of (device_run [Request 5 ''10.0.0.7:4000'' [] True]) ''10.0.0.7'') = Some 1"
    by code_simp
  then obtain e where e: "map_of (device_run [Request 5 ''10.0.0.7:4000'' [] True]) ''10.0.0.7'' = Some e" "dv_requests e = 1"
    by auto
  show ?thesis
    using request_counts_one_device [OF c, of 9 "''curl/8''" "[Request 5 ''10.0.0.7:4000'' [] True]"] e by auto
qed

end
