(* ===== verification/Proxy_Server.thy ===== *)
theory Proxy_Server
  imports Proxy_Policy Proxy_Devices Http
begin

text \<open>
  The routing of \<open>internal/proxy/server.go\<close> and \<open>connect.go\<close>: which requests pano answers itself,
  which it forwards, which tunnels it splices and which it terminates, and the admission of tunnels.
  What the network does (the hijack, the greeting, the TLS handshake) is an input of the tunnel.
\<close>

section \<open>The server\<close>

text \<open>An extra listener is its identity, address and port; \<open>sv_tls\<close>: a TLS configuration was given.\<close>

record server =
  sv_port :: int
  sv_extra :: "(nat \<times> string \<times> int) list"
  sv_self_ips :: "(string \<times> int) list"
  sv_policy :: decrypt_policy
  sv_rejected :: ring_map
  sv_devices :: device_table
  sv_tls :: bool
  sv_disable_h2 :: bool
  sv_max_conns :: nat
  sv_sem :: nat
  sv_active :: int
  sv_capturing :: bool

text \<open>\<open>New\<close>, listening on \<open>port\<close>; an unset limit or mode gets its default.\<close>

definition new_server :: "int \<Rightarrow> nat \<Rightarrow> bool \<Rightarrow> bool \<Rightarrow> decrypt_policy \<Rightarrow> server" where
  "new_server port max_conns tls no_h2 p =
     \<lparr>sv_port = port, sv_extra = [], sv_self_ips = [], sv_policy = fst (set_decrypt p []), sv_rejected = [], sv_devices = [],
      sv_tls = tls, sv_disable_h2 = no_h2, sv_max_conns = (if max_conns = 0 then 10000 else max_conns), sv_sem = 0,
      sv_active = 0, sv_capturing = True\<rparr>"

definition add_listener :: "nat \<Rightarrow> string \<Rightarrow> int \<Rightarrow> server \<Rightarrow> server" where
  "add_listener ln ip port sv =
     sv\<lparr>sv_extra := map_put ln (ip, port) (sv_extra sv), sv_self_ips := map_put ip port (sv_self_ips sv)\<rparr>"

definition remove_listener :: "nat \<Rightarrow> string \<Rightarrow> server \<Rightarrow> server" where
  "remove_listener ln ip sv =
     sv\<lparr>sv_extra := map_del ln (sv_extra sv), sv_self_ips := map_del ip (sv_self_ips sv)\<rparr>"

definition set_capturing :: "bool \<Rightarrow> server \<Rightarrow> server" where
  "set_capturing on sv = sv\<lparr>sv_capturing := on\<rparr>"

definition install_policy :: "decrypt_policy \<Rightarrow> server \<Rightarrow> server" where
  "install_policy p sv =
     (let (cp, m) = set_decrypt p (sv_rejected sv) in sv\<lparr>sv_policy := cp, sv_rejected := m\<rparr>)"

section \<open>Addresses\<close>

definition magic_host :: string where "magic_host = ''pano.internal''"

definition is_magic :: "string \<Rightarrow> bool" where
  "is_magic host = equal_fold (case split_host_port host of Some (h, _) \<Rightarrow> h | None \<Rightarrow> host) magic_host"

text \<open>The value \<open>strconv.Atoi\<close> returns beside its error: 0, or the nearest bound when out of range.\<close>

definition atoi_value :: "string \<Rightarrow> int" where
  "atoi_value p =
     (case atoi p of
        Some n \<Rightarrow> n
      | None \<Rightarrow>
          (case p of
             [] \<Rightarrow> 0
           | c # t \<Rightarrow>
               if c = CHR ''-'' \<and> parse_digits t \<noteq> None then int_min
               else if parse_digits (if c = CHR ''+'' then t else p) \<noteq> None then int_max
               else 0))"

definition is_self :: "server \<Rightarrow> string \<Rightarrow> bool" where
  "is_self sv hostport =
     (case split_host_port hostport of
        None \<Rightarrow> False
      | Some (h, p) \<Rightarrow>
          (let port = atoi_value p in
           if map_of (sv_self_ips sv) h = Some port then True
           else if port \<noteq> sv_port sv then False
           else if h = ''localhost'' then True
           else case parse_ip h of None \<Rightarrow> False | Some ip \<Rightarrow> ip_is_loopback ip))"

definition host_and_port :: "string \<Rightarrow> string \<times> string" where
  "host_and_port a =
     (case split_host_port a of
        Some (h, p) \<Rightarrow> if h = [] then (a, ''443'') else (h, p)
      | None \<Rightarrow> (a, ''443''))"

definition same_host_port :: "string \<Rightarrow> string \<Rightarrow> bool" where
  "same_host_port a b =
     (equal_fold (fst (host_and_port a)) (fst (host_and_port b)) \<and> snd (host_and_port a) = snd (host_and_port b))"

text \<open>The package's own port parser: digits only, no range check, an empty port is 0.\<close>

fun parse_port_loop :: "string \<Rightarrow> int \<Rightarrow> int option" where
  "parse_port_loop [] n = Some n"
| "parse_port_loop (c # s) n =
     (if \<not> is_digit c then None else parse_port_loop s (wrap_int (n * 10 + int (digit_val c))))"

definition parse_port :: "string \<Rightarrow> int option" where
  "parse_port p = parse_port_loop p 0"

definition split_host_port_or :: "string \<Rightarrow> int \<Rightarrow> string \<times> int" where
  "split_host_port_or hp def =
     (case split_host_port hp of
        None \<Rightarrow> (hp, def)
      | Some (h, p) \<Rightarrow> (h, case parse_port p of Some n \<Rightarrow> n | None \<Rightarrow> def))"

section \<open>Requests on the proxy port\<close>

datatype front_route = ToTunnel | ToLocal | ToExchange string string

definition noted_request :: "gotime \<Rightarrow> string \<Rightarrow> request \<Rightarrow> bool \<Rightarrow> server \<Rightarrow> server" where
  "noted_request now client r cnt sv =
     sv\<lparr>sv_devices := note_request now client (header_get (rq_header r) ''User-Agent'') cnt (sv_devices sv)\<rparr>"

definition serve_front :: "gotime \<Rightarrow> string \<Rightarrow> request \<Rightarrow> server \<Rightarrow> front_route \<times> server" where
  "serve_front now client r sv =
     (let u = rq_url r in
      if rq_method r = ''CONNECT'' then (ToTunnel, noted_request now client r True sv)
      else if url_is_abs u \<and> (is_self sv (u_host u) \<or> is_magic (u_host u)) then
        (ToLocal, noted_request now client r True sv)
      else if url_is_abs u then (ToExchange (u_scheme u) (u_host u), noted_request now client r True sv)
      else (ToLocal, sv))"

text \<open>The built-in site, without a local handler: status and whether the body is the certificate.\<close>

definition serve_local :: "bool \<Rightarrow> string \<Rightarrow> int \<times> bool" where
  "serve_local has_pem path =
     (if path = ''/_pano/ca.pem'' \<or> path = ''/ca.pem'' then (if has_pem then (200, True) else (404, False))
      else if path = ''/'' \<or> path = ''/_pano'' \<or> path = ''/_pano/'' then (200, False)
      else (400, False))"

text \<open>Requests on a decrypted tunnel to \<open>target\<close>.\<close>

definition tunneled_host :: "string \<Rightarrow> request \<Rightarrow> string" where
  "tunneled_host target r =
     (let host = (if rq_host r = [] then target else rq_host r) in
      if u_host (rq_url r) = [] \<and> host \<noteq> [] \<and> target \<noteq> [] \<and> \<not> same_host_port host target then target else host)"

definition serve_tunneled :: "gotime \<Rightarrow> string \<Rightarrow> string \<Rightarrow> request \<Rightarrow> server \<Rightarrow> front_route \<times> server" where
  "serve_tunneled now client target r sv =
     (if is_magic target then (ToLocal, sv)
      else (ToExchange ''https'' (tunneled_host target r), noted_request now client r False sv))"

section \<open>Tunnels\<close>

definition connect_target :: "string \<Rightarrow> string" where
  "connect_target host = (case split_host_port host of Some _ \<Rightarrow> host | None \<Rightarrow> join_host_port host ''443'')"

datatype admission = Refused | Busy | Admitted

definition connect_admit :: "string \<Rightarrow> server \<Rightarrow> admission \<times> server" where
  "connect_admit target sv =
     (if \<not> is_magic target \<and> is_self sv target then (Refused, sv)
      else if sv_max_conns sv \<le> sv_sem sv then (Busy, sv)
      else (Admitted, sv\<lparr>sv_sem := sv_sem sv + 1, sv_active := sv_active sv + 1\<rparr>))"

definition connect_done :: "server \<Rightarrow> server" where
  "connect_done sv = sv\<lparr>sv_sem := sv_sem sv - 1, sv_active := sv_active sv - 1\<rparr>"

text \<open>A handshake ends with the protocol agreed on, or with an error text (\<open>True\<close>: it was an EOF).\<close>

datatype handshake = Shook string | ShakeFailed string bool

text \<open>What becomes of an admitted tunnel: closed at once, spliced with a reason, its handshake failed (the
  error text, \<open>None\<close> when no flow is recorded), or served decrypted (\<open>True\<close>: HTTP/2).\<close>

datatype tunnel = Closed | Spliced string string | Unshaken "(string \<times> bool) option" | Decrypted string bool

definition dash :: string where
  "dash = [CHR '' '', CHR 0xE2, CHR 0x80, CHR 0x94, CHR '' '']"

definition handshake_error :: "string \<Rightarrow> string \<Rightarrow> bool \<Rightarrow> string \<times> bool" where
  "handshake_error host msg eof =
     (if str_contains msg ''unknown certificate authority'' \<or> str_contains msg ''unknown_ca''
         \<or> str_contains msg ''bad certificate'' \<or> str_contains msg ''certificate unknown'' then
        (''client rejected pano certificate (CA not trusted, or the app pins certificates'' @ dash
           @ ''run `pano decrypt never add '' @ host @ ''`)'', True)
      else if eof then
        (''client closed connection during TLS handshake (likely certificate rejected / pinning'' @ dash
           @ ''run `pano decrypt never add '' @ host @ ''`)'', True)
      else (''tls handshake: '' @ msg, False))"

definition record_handshake_failure :: "gotime \<Rightarrow> string \<Rightarrow> string \<Rightarrow> bool \<Rightarrow> server \<Rightarrow> (string \<times> bool) \<times> server" where
  "record_handshake_failure now target msg eof sv =
     (let host = fst (split_host_port_or target 443); (err, rejected) = handshake_error host msg eof
      in ((err, rejected), if rejected then sv\<lparr>sv_rejected := reject_add now host err (sv_rejected sv)\<rparr> else sv))"

definition connect_tunnel ::
  "gotime \<Rightarrow> string \<Rightarrow> string \<Rightarrow> bool \<Rightarrow> bool \<Rightarrow> handshake \<Rightarrow> server \<Rightarrow> tunnel \<times> server" where
  "connect_tunnel now client target hijacked greeted hs sv =
     (let magic = is_magic target; host = (case split_host_port target of Some (h, _) \<Rightarrow> h | None \<Rightarrow> []);
          (dec, reason) = decide (sv_policy sv) host in
      if \<not> hijacked \<or> \<not> greeted then (Closed, sv)
      else if \<not> dec \<and> \<not> magic then (Spliced target reason, sv)
      else if \<not> sv_tls sv then (if magic then Closed else Spliced target reason_off, sv)
      else
        (case hs of
           ShakeFailed msg eof \<Rightarrow>
             (let sv1 = sv\<lparr>sv_devices := note_handshake now client False (sv_devices sv)\<rparr> in
              if magic then (Unshaken None, sv1)
              else (let (e, sv2) = record_handshake_failure now target msg eof sv1 in (Unshaken (Some e), sv2)))
         | Shook proto \<Rightarrow>
             (Decrypted target (proto = ''h2'' \<and> \<not> sv_disable_h2 sv),
              sv\<lparr>sv_devices := note_handshake now client True (sv_devices sv)\<rparr>)))"

section \<open>Tunnels open at once\<close>

datatype tunnel_op =
    Open string | Finish | Listen nat string int | Unlisten nat string | Policy decrypt_policy

text \<open>The state with the targets of the tunnels admitted and not finished; \<open>Finish\<close> ends the oldest, which
  no count depends on.\<close>

fun tunnel_step :: "tunnel_op \<Rightarrow> string list \<times> server \<Rightarrow> string list \<times> server" where
  "tunnel_step (Open host) (ts, sv) =
     (case connect_admit (connect_target host) sv of
        (Admitted, sv1) \<Rightarrow> (ts @ [connect_target host], sv1)
      | (_, sv1) \<Rightarrow> (ts, sv1))"
| "tunnel_step Finish (ts, sv) = (case ts of [] \<Rightarrow> ([], sv) | _ # ts' \<Rightarrow> (ts', connect_done sv))"
| "tunnel_step (Listen ln ip port) (ts, sv) = (ts, add_listener ln ip port sv)"
| "tunnel_step (Unlisten ln ip) (ts, sv) = (ts, remove_listener ln ip sv)"
| "tunnel_step (Policy p) (ts, sv) = (ts, install_policy p sv)"

definition tunnel_run :: "tunnel_op list \<Rightarrow> server \<Rightarrow> string list \<times> server" where
  "tunnel_run ops sv = fold tunnel_step ops ([], sv)"

fun sem_ok :: "string list \<times> server \<Rightarrow> bool" where
  "sem_ok (ts, sv) = (sv_sem sv = length ts \<and> sv_active sv = int (length ts) \<and> length ts \<le> sv_max_conns sv)"

lemma tunnel_step_ok: "sem_ok s \<Longrightarrow> sem_ok (tunnel_step op s)"
  by (cases s; cases op)
    (auto simp: connect_admit_def connect_done_def add_listener_def remove_listener_def install_policy_def
      split: prod.split list.split)

lemma tunnel_run_ok: "sem_ok (tunnel_run ops (new_server port n tls h2 p))"
proof -
  have "sem_ok s \<Longrightarrow> sem_ok (fold tunnel_step ops s)" for s
    by (induction ops arbitrary: s) (simp_all add: tunnel_step_ok del: tunnel_step.simps sem_ok.simps)
  from this [of "([], new_server port n tls h2 p)"] show ?thesis by (simp add: tunnel_run_def new_server_def)
qed

section \<open>Ports\<close>

lemma parse_port_loop_digits:
  "list_all is_digit s \<Longrightarrow> foldl (\<lambda>v c. 10 * v + digit_val c) n s < 2 ^ 63 \<Longrightarrow>
     parse_port_loop s (int n) = Some (int (foldl (\<lambda>v c. 10 * v + digit_val c) n s))"
proof (induction s arbitrary: n)
  case (Cons c s)
  have mono: "n \<le> foldl (\<lambda>v c. 10 * v + digit_val c) n s" for n s
  proof (induction s arbitrary: n)
    case (Cons c s)
    from this [of "10 * n + digit_val c"] show ?case by simp
  qed simp
  have "10 * n + digit_val c < 2 ^ 63"
    using mono [of "10 * n + digit_val c" s] Cons.prems(2) by simp
  then have "wrap_int (int n * 10 + int (digit_val c)) = int (10 * n + digit_val c)"
    by (simp add: wrap_int_def mult.commute)
  with Cons.prems Cons.IH [of "10 * n + digit_val c"] show ?case by (simp del: of_nat_add of_nat_mult)
qed simp

lemma parse_port_dec_digits: "n < 2 ^ 63 \<Longrightarrow> parse_port (dec_digits n) = Some (int n)"
  using parse_port_loop_digits [of "dec_digits n" 0] digits_val_dec_digits [of n]
  by (simp add: parse_port_def dec_digits_all digits_val_def)

lemma port_plain: "plain_host (dec_digits n) \<and> CHR '':'' \<notin> set (dec_digits n)"
proof -
  have "is_digit c" if "c \<in> set (dec_digits n)" for c
    using that dec_digits_all [of n] by (auto simp: list_all_iff)
  then show ?thesis by (force simp: plain_host_def is_digit_def)
qed

lemma is_self_noted: "is_self (noted_request now client r cnt sv) h = is_self sv h"
  by (simp add: is_self_def noted_request_def Let_def split: option.split prod.split)

section \<open>Gaps of the loop guard\<close>

text \<open>\<open>isSelf\<close> compares the name with its case, and a second listener on an address hides the first one's port.\<close>

lemma self_guard_gaps:
  "is_self (new_server 9091 0 True False p) ''localhost:9091'' \<and> \<not> is_self (new_server 9091 0 True False p) ''LOCALHOST:9091''
   \<and> is_self (add_listener 1 ''10.0.0.2'' 8080 (new_server 9091 0 True False p)) ''10.0.0.2:8080''
   \<and> \<not> is_self (add_listener 2 ''10.0.0.2'' 8081 (add_listener 1 ''10.0.0.2'' 8080 (new_server 9091 0 True False p))) ''10.0.0.2:8080''"
proof -
  have s: "split_host_port ''localhost:9091'' = Some (''localhost'', ''9091'')" "split_host_port ''LOCALHOST:9091'' = Some (''LOCALHOST'', ''9091'')"
    "split_host_port ''10.0.0.2:8080'' = Some (''10.0.0.2'', ''8080'')" "atoi_value ''9091'' = 9091" "atoi_value ''8080'' = 8080"
    "parse_ip ''LOCALHOST'' = None"
    by code_simp+
  show ?thesis by (simp add: is_self_def s new_server_def add_listener_def)
qed

section \<open>Properties\<close>



text \<open>The semaphore, the count of active connections and the tunnels really open agree at all times, and
  there are never more of them than the limit (10000 when none is set).\<close>

theorem tunnels_bounded:
  "(case tunnel_run ops (new_server port limit tls h2 p) of
      (open, sv) \<Rightarrow> sv_sem sv = length open \<and> sv_active sv = int (length open) \<and> length open \<le> sv_max_conns sv)
   \<and> sv_max_conns (new_server port limit tls h2 p) = (if limit = 0 then 10000 else limit)"
  using tunnel_run_ok [of ops port limit tls h2 p] by (auto simp: new_server_def split: prod.split)

text \<open>The host and port recorded for a tunnel are those asked for.\<close>

lemma target_recorded:
  assumes "plain_host host" "n < 2 ^ 63"
  shows "split_host_port_or (join_host_port host (dec_digits n)) def = (host, int n)"
  using split_join [OF assms(1), of "dec_digits n"] port_plain [of n] assms(2)
  by (simp add: split_host_port_or_def parse_port_dec_digits)

text \<open>An address without a port keeps the default; one with an empty port is recorded as port 0.\<close>

lemma empty_port_recorded_as_zero:
  "split_host_port_or ''a.com'' 443 = (''a.com'', 443) \<and> split_host_port_or ''a.com:'' 443 = (''a.com'', 0)
   \<and> split_host_port_or ''a.com:http'' 443 = (''a.com'', 443)"
  by code_simp



end
