(* ===== verification/Proxy_Capture.thy ===== *)
theory Proxy_Capture
  imports Prelude
begin

text \<open>
  \<open>internal/proxy/capture.go\<close>: the body captures of the exchanges in flight and the byte budget they
  share. The budget counter is an atomic; a \<open>take\<close> is one step here (the code's add and take back can
  only make a concurrent \<open>take\<close> fail that would otherwise have fitted).
\<close>

section \<open>Operations\<close>

record budget =
  bu_limit :: int
  bu_used :: int

definition take_budget :: "int \<Rightarrow> budget \<Rightarrow> bool \<times> budget" where
  "take_budget n b =
     (if bu_limit b \<le> 0 then (True, b)
      else if bu_limit b < bu_used b + n then (False, b)
      else (True, b\<lparr>bu_used := bu_used b + n\<rparr>))"

definition release_budget :: "int \<Rightarrow> budget \<Rightarrow> budget" where
  "release_budget n b = (if 0 < bu_limit b then b\<lparr>bu_used := bu_used b - n\<rparr> else b)"

record capture =
  cp_buf :: string
  cp_limit :: int
  cp_size :: int
  cp_truncated :: bool
  cp_reserved :: int
  cp_off :: bool

definition new_capture :: "int \<Rightarrow> bool \<Rightarrow> capture" where
  "new_capture limit off = \<lparr>cp_buf = [], cp_limit = limit, cp_size = 0, cp_truncated = False, cp_reserved = 0, cp_off = off\<rparr>"

definition capture_write :: "string \<Rightarrow> capture \<Rightarrow> budget \<Rightarrow> capture \<times> budget" where
  "capture_write p c b =
     (let c1 = c\<lparr>cp_size := cp_size c + int (length p)\<rparr> in
      if cp_off c \<or> cp_truncated c then (c1, b)
      else
        (let room = cp_limit c - int (length (cp_buf c)) in
         if room \<le> 0 then (c1\<lparr>cp_truncated := True\<rparr>, b)
         else
           (let tk = (if room < int (length p) then take (nat room) p else p);
                c2 = (if room < int (length p) then c1\<lparr>cp_truncated := True\<rparr> else c1);
                (ok, b1) = take_budget (int (length tk)) b
            in if \<not> ok then (c2\<lparr>cp_truncated := True\<rparr>, b1)
               else (c2\<lparr>cp_reserved := cp_reserved c2 + int (length tk), cp_buf := cp_buf c2 @ tk\<rparr>, b1))))"

definition bytes_and_release :: "capture \<Rightarrow> budget \<Rightarrow> string \<times> capture \<times> budget" where
  "bytes_and_release c b = (cp_buf c, c\<lparr>cp_reserved := 0\<rparr>, release_budget (cp_reserved c) b)"

section \<open>Exchanges in flight\<close>

text \<open>Captures are opened, written to, harvested (\<open>storeBody\<close>) and, once their exchange ends, dropped
  with what they still hold (\<open>inflight.release\<close>). A slot keeps all the bytes that passed.\<close>

record slot =
  sl_cap :: capture
  sl_seen :: string
  sl_live :: bool

datatype capture_op = OpenCap int bool | WriteCap nat string | Harvest nat | Drop nat

definition live :: "nat \<Rightarrow> slot list \<Rightarrow> bool" where
  "live i ss = (i < length ss \<and> sl_live (ss ! i))"

fun capture_step :: "capture_op \<Rightarrow> slot list \<times> budget \<Rightarrow> slot list \<times> budget" where
  "capture_step (OpenCap limit off) (ss, b) = (ss @ [\<lparr>sl_cap = new_capture limit off, sl_seen = [], sl_live = True\<rparr>], b)"
| "capture_step (WriteCap i p) (ss, b) =
     (if live i ss
      then (let (c, b1) = capture_write p (sl_cap (ss ! i)) b
            in (ss[i := (ss ! i)\<lparr>sl_cap := c, sl_seen := sl_seen (ss ! i) @ p\<rparr>], b1))
      else (ss, b))"
| "capture_step (Harvest i) (ss, b) =
     (if live i ss
      then (let (_, c, b1) = bytes_and_release (sl_cap (ss ! i)) b in (ss[i := (ss ! i)\<lparr>sl_cap := c\<rparr>], b1))
      else (ss, b))"
| "capture_step (Drop i) (ss, b) =
     (if live i ss
      then (ss[i := (ss ! i)\<lparr>sl_live := False\<rparr>], release_budget (cp_reserved (sl_cap (ss ! i))) b)
      else (ss, b))"

definition capture_run :: "capture_op list \<Rightarrow> int \<Rightarrow> slot list \<times> budget" where
  "capture_run ops limit = fold capture_step ops ([], \<lparr>bu_limit = limit, bu_used = 0\<rparr>)"

section \<open>Invariant\<close>

text \<open>The captured bytes are a prefix of what passed, all of it unless flagged; never more than the limit.\<close>

definition slot_ok :: "slot \<Rightarrow> bool" where
  "slot_ok s =
     (let c = sl_cap s in
      cp_size c = int (length (sl_seen s)) \<and> cp_buf c = take (length (cp_buf c)) (sl_seen s)
      \<and> (\<not> cp_truncated c \<and> \<not> cp_off c \<longrightarrow> cp_buf c = sl_seen s)
      \<and> (cp_buf c \<noteq> [] \<longrightarrow> int (length (cp_buf c)) \<le> cp_limit c) \<and> (cp_off c \<longrightarrow> cp_buf c = [])
      \<and> 0 \<le> cp_reserved c \<and> cp_reserved c \<le> int (length (cp_buf c)))"

definition reserved :: "slot list \<Rightarrow> int" where
  "reserved ss = sum_list (List.map (\<lambda>s. if sl_live s then cp_reserved (sl_cap s) else 0) ss)"

fun capture_ok :: "slot list \<times> budget \<Rightarrow> bool" where
  "capture_ok (ss, b) =
     ((\<forall>s \<in> set ss. slot_ok s)
      \<and> (0 < bu_limit b \<longrightarrow> bu_used b = reserved ss \<and> bu_used b \<le> bu_limit b))"

lemma reserved_update:
  "i < length ss \<Longrightarrow> reserved (ss[i := s]) =
     reserved ss + (if sl_live s then cp_reserved (sl_cap s) else 0) - (if sl_live (ss ! i) then cp_reserved (sl_cap (ss ! i)) else 0)"
proof (induction ss arbitrary: i)
  case (Cons t ss)
  then show ?case by (cases i) (auto simp: reserved_def)
qed simp

lemma reserved_nonneg: "\<forall>s \<in> set ss. slot_ok s \<Longrightarrow> 0 \<le> reserved ss"
  unfolding reserved_def by (rule sum_list_nonneg) (auto simp: slot_ok_def Let_def)

lemma slots_update: "\<forall>s \<in> set ss. slot_ok s \<Longrightarrow> slot_ok t \<Longrightarrow> \<forall>s \<in> set (ss[i := t]). slot_ok s"
  using set_update_subset_insert [of ss i t] by blast

lemma capture_write_ok:
  assumes "slot_ok s" "capture_write p (sl_cap s) b = (c, b')"
  shows "slot_ok (s\<lparr>sl_cap := c, sl_seen := sl_seen s @ p\<rparr>)"
    and "bu_limit b' = bu_limit b"
    and "0 < bu_limit b \<Longrightarrow> bu_used b' - bu_used b = cp_reserved c - cp_reserved (sl_cap s)"
    and "0 < bu_limit b \<Longrightarrow> bu_used b \<le> bu_limit b \<Longrightarrow> bu_used b' \<le> bu_limit b'"
proof -
  have "cp_buf (sl_cap s) = take (length (cp_buf (sl_cap s))) (sl_seen s)"
    using assms(1) by (simp add: slot_ok_def Let_def)
  then have "length (cp_buf (sl_cap s)) = length (take (length (cp_buf (sl_cap s))) (sl_seen s))" by (rule arg_cong)
  then have le: "length (cp_buf (sl_cap s)) \<le> length (sl_seen s)" by simp
  show "slot_ok (s\<lparr>sl_cap := c, sl_seen := sl_seen s @ p\<rparr>)"
    and "bu_limit b' = bu_limit b"
    and "0 < bu_limit b \<Longrightarrow> bu_used b' - bu_used b = cp_reserved c - cp_reserved (sl_cap s)"
    and "0 < bu_limit b \<Longrightarrow> bu_used b \<le> bu_limit b \<Longrightarrow> bu_used b' \<le> bu_limit b'"
    using assms le
    by (auto simp: capture_write_def slot_ok_def Let_def take_budget_def split: if_splits)
qed

lemma capture_step_ok: "capture_ok s \<Longrightarrow> capture_ok (capture_step op s)"
proof -
  obtain ss b where s: "s = (ss, b)" by (cases s) auto
  assume "capture_ok s"
  then have ok: "\<forall>s \<in> set ss. slot_ok s" and bu: "0 < bu_limit b \<Longrightarrow> bu_used b = reserved ss \<and> bu_used b \<le> bu_limit b"
    by (simp_all add: s)
  show ?thesis
  proof (cases op)
    case (OpenCap limit off)
    with ok bu show ?thesis by (auto simp: s new_capture_def slot_ok_def reserved_def Let_def)
  next
    case (WriteCap i p)
    show ?thesis
    proof (cases "live i ss")
      case True
      then have i: "i < length ss" "sl_live (ss ! i)" by (simp_all add: live_def)
      obtain c b1 where w: "capture_write p (sl_cap (ss ! i)) b = (c, b1)" by (cases "capture_write p (sl_cap (ss ! i)) b") auto
      have si: "slot_ok (ss ! i)" using ok i by simp
      note wo = capture_write_ok [OF si w]
      show ?thesis
        using slots_update [OF ok wo(1)] wo(2-4) bu i by (auto simp: s WriteCap True w reserved_update)
    qed (use ok bu WriteCap s in auto)
  next
    case (Harvest i)
    show ?thesis
    proof (cases "live i ss")
      case True
      then have i: "i < length ss" "sl_live (ss ! i)" by (simp_all add: live_def)
      have "slot_ok (ss ! i)" using ok i by simp
      then have "slot_ok ((ss ! i)\<lparr>sl_cap := (sl_cap (ss ! i))\<lparr>cp_reserved := 0\<rparr>\<rparr>)" "0 \<le> cp_reserved (sl_cap (ss ! i))"
        by (auto simp: slot_ok_def Let_def)
      with slots_update [OF ok this(1)] bu i show ?thesis
        by (auto simp: s Harvest True bytes_and_release_def release_budget_def reserved_update)
    qed (use ok bu Harvest s in auto)
  next
    case (Drop i)
    show ?thesis
    proof (cases "live i ss")
      case True
      then have i: "i < length ss" "sl_live (ss ! i)" by (simp_all add: live_def)
      have "slot_ok (ss ! i)" using ok i by simp
      then have "slot_ok ((ss ! i)\<lparr>sl_live := False\<rparr>)" "0 \<le> cp_reserved (sl_cap (ss ! i))"
        by (auto simp: slot_ok_def Let_def)
      with slots_update [OF ok this(1)] bu i show ?thesis
        by (auto simp: s Drop True release_budget_def reserved_update)
    qed (use ok bu Drop s in auto)
  qed
qed

lemma capture_run_ok: "0 \<le> limit \<Longrightarrow> capture_ok (capture_run ops limit)"
proof -
  have "capture_ok s \<Longrightarrow> capture_ok (fold capture_step ops s)" for s
    by (induction ops arbitrary: s) (simp_all add: capture_step_ok del: capture_step.simps)
  moreover assume "0 \<le> limit"
  ultimately show ?thesis by (simp add: capture_run_def reserved_def)
qed

section \<open>Properties\<close>



end
