(* ===== verification/Rules_Frame.thy ===== *)
theory Rules_Frame
  imports Rules_Apply
begin

text \<open>
  What no rule changes: the identity of the flow it acts on (its id, session, kind, client, protocol,
  start and replay link). The proxy's part of an exchange relies on it.
\<close>

definition flow_ident :: "flow \<Rightarrow> flow_id \<times> string \<times> flow_kind \<times> string \<times> string \<times> gotime \<times> bool \<times> flow_id" where
  "flow_ident f = (fl_id f, fl_session f, fl_kind f, fl_client f, fl_proto f, t_start (fl_t f), fl_replay f, fl_replay_of f)"

abbreviation ident :: "exchange \<Rightarrow> flow_id \<times> string \<times> flow_kind \<times> string \<times> string \<times> gotime \<times> bool \<times> flow_id" where
  "ident x \<equiv> flow_ident (x_flow x)"

lemma ident_on [simp]: "ident (on_req g x) = ident x" "ident (on_resp h x) = ident x"
  by (simp_all add: on_defs)

lemma ident_edit_headers [simp]: "ident (edit_headers g s x) = ident x"
  by (cases s) (simp_all add: Let_def on_defs flow_ident_def)

lemma ident_headers [simp]: "ident (set_header n v s x) = ident x" "ident (del_header n s x) = ident x"
  by (simp_all add: set_header_def del_header_def)

lemma ident_sides [simp]: "ident (put_body b s x) = ident x" "ident (put_framing n s x) = ident x"
  "ident (clear_encoding s x) = ident x" "ident (restore d s x) = ident x"
  by (cases s; simp add: on_defs flow_ident_def restore_def)+

lemma ident_set_body [simp]: "ident (set_body d dec s x) = ident x"
  by (simp add: set_body_def Let_def)

lemma ident_rewrite: "ident (snd (rewrite lib txt fn s x)) = ident x"
  by (simp add: rewrite_def Let_def split: prod.split option.split sum.split)

lemma ident_edits [simp]: "ident (snd (redirect u a x)) = ident x" "ident (snd (add_tags ts x)) = ident x"
  "ident (set_query lib a x) = ident x" "ident (record_hit cr s typ note x) = ident x"
  by (simp_all add: redirect_def add_tags_def set_query_def record_hit_def Let_def on_defs flow_ident_def)

lemma ident_foldl: "(\<And>y z. ident (g y z) = ident y) \<Longrightarrow> ident (foldl g x zs) = ident x"
  by (induction zs arbitrary: x) simp_all

lemma ident_edit_parts [simp]: "ident (snd (edit_head lib s req x)) = ident x" "ident (snd (edit_fields s req x)) = ident x"
proof -
  have "ident (snd (edit_url lib u x)) = ident x" "ident (snd (edit_method m x)) = ident x" "ident (snd (edit_status st x)) = ident x"
    for u m st x
    by (simp_all add: edit_url_def edit_method_def edit_status_def Let_def on_defs flow_ident_def split: option.split)
  then show "ident (snd (edit_head lib s req x)) = ident x" by (simp add: edit_head_def Let_def)
  show "ident (snd (edit_fields s req x)) = ident x" by (simp add: edit_fields_def Let_def ident_foldl)
qed

lemma ident_edit_body [simp]: "ident (snd (edit_body lib txt s raw er req x)) = ident x"
  by (simp add: edit_body_def Let_def split: option.split sum.split prod.split)

lemma ident_hold: "ident (snd (hold_exchange lib txt out cr s x)) = ident x"
proof -
  have st: "ident (on_flow (\<lambda>f. f\<lparr>fl_state := StateActive\<rparr>) y) = ident y" for y by (simp add: on_defs flow_ident_def)
  show ?thesis
    by (simp add: hold_exchange_def apply_edits_def Let_def st split: prod.split hold_outcome.split)
qed

lemma ident_action: "ident (snd (snd (phase_action s lib txt inp cr a x))) = ident x"
  by (cases "a_typ a")
    (auto simp: phase_action_def request_action_def response_action_def noted_def decided_def Let_def ident_rewrite ident_hold
      split: prod.split option.split dest: arg_cong [where f = "\<lambda>p. ident (snd p)"])

lemma ident_apply_phase: "apply_phase s lib txt inp cr ps acts x = (d, acts', x') \<Longrightarrow> ident x' = ident x"
proof (induction s lib "txt" inp cr ps acts x rule: apply_phase.induct)
  case (2 s lib et inp cr i rest acts x)
  obtain d1 a x1 where a: "phase_action s lib et (inp i) cr (acts ! i) x = (d1, a, x1)"
    by (cases "phase_action s lib et (inp i) cr (acts ! i) x") auto
  have "ident x1 = ident x" using ident_action [of s lib et "inp i" cr "acts ! i" x] a by simp
  with 2 a show ?case by (auto simp: Let_def split: option.splits)
qed simp

lemma ident_run_rules: "run_rules s lib txt now draw inp rs e x = (d, e', x') \<Longrightarrow> ident x' = ident x"
proof (induction rs arbitrary: e x)
  case (Cons a rest)
  from Cons.prems show ?case
  proof (cases rule: run_rules_Cons)
    case (1 e1)
    from Cons.IH [OF 1] show ?thesis .
  next
    case (2 cr ps acts d1 x1 e1)
    have "ident x1 = ident x" by (rule ident_apply_phase [OF 2(1)])
    with 2(2) Cons.IH show ?thesis by auto
  qed
qed simp

end
