(* ===== verification/Proxy_Exchange.thy ===== *)
theory Proxy_Exchange
  imports Proxy_Server Proxy_Capture Rules_Frame
begin

text \<open>
  \<open>internal/proxy/hop.go\<close> and \<open>handler.go\<close>: the path of one exchange, from the request on the proxy or in
  a tunnel to the answer and the published flow. The origin (the transport, its trace, how bodies are
  chunked, a client that goes away) is an input; the hooks are functions on the exchange. Errors from
  outside are their texts.
\<close>

section \<open>Hop-by-hop headers\<close>

definition hop_headers :: "string list" where
  "hop_headers = [''Connection'', ''Proxy-Connection'', ''Keep-Alive'', ''Proxy-Authenticate'', ''Proxy-Authorization'',
     ''Te'', ''Trailer'', ''Transfer-Encoding'', ''Upgrade'']"

definition connection_names :: "header \<Rightarrow> string list" where
  "connection_names h =
     filter (\<lambda>n. n \<noteq> []) (List.map trim_space (concat (List.map (str_split (CHR '','')) (header_values h ''Connection''))))"

definition te_trailers :: "header \<Rightarrow> bool" where
  "te_trailers h = equal_fold (trim_space (header_get h ''Te'')) ''trailers''"

definition strip_named :: "bool \<Rightarrow> header \<Rightarrow> header" where
  "strip_named ws h =
     fold (\<lambda>n h. if ws \<and> equal_fold n ''upgrade'' then h else header_del n h) (connection_names h) h"

definition strip_one :: "bool \<Rightarrow> string \<Rightarrow> header \<Rightarrow> header" where
  "strip_one ws n h =
     (if ws \<and> (n = ''Connection'' \<or> n = ''Upgrade'') then h
      else if n = ''Te'' \<and> te_trailers h then h
      else header_del n h)"

definition strip_hop :: "bool \<Rightarrow> header \<Rightarrow> header" where
  "strip_hop ws h = fold (strip_one ws) hop_headers (strip_named ws h)"

definition is_websocket :: "int \<Rightarrow> request \<Rightarrow> bool" where
  "is_websocket proto_major r =
     (proto_major = 1 \<and> equal_fold (header_get (rq_header r) ''Upgrade'') ''websocket''
      \<and> list_ex (\<lambda>t. equal_fold (trim_space t) ''upgrade'')
          (concat (List.map (str_split (CHR '','')) (header_values (rq_header r) ''Connection''))))"

section \<open>Publishing a flow\<close>

datatype sink_event = SStarted flow | SUpdated flow | SDone flow | SBlob string

record exchange_env =
  xe_max_body :: int
  xe_blob :: "string \<Rightarrow> string"
  xe_timeout :: "string \<Rightarrow> bool"
  xe_deadline :: "string \<Rightarrow> bool"
  xe_canceled :: "string \<Rightarrow> bool"
  xe_closed :: "string \<Rightarrow> bool"

definition store_body :: "exchange_env \<Rightarrow> body_ref \<Rightarrow> capture \<Rightarrow> budget \<Rightarrow> body_ref \<times> capture \<times> budget \<times> sink_event list" where
  "store_body env ref c b =
     (let (bytes, c1, b1) = bytes_and_release c b;
          ref1 = ref\<lparr>br_size := cp_size c, br_truncated := cp_truncated c, br_captured := int (length bytes)\<rparr>
      in if bytes \<noteq> [] then (ref1\<lparr>br_hash := xe_blob env bytes\<rparr>, c1, b1, [SBlob bytes]) else (ref1, c1, b1, []))"

text \<open>An exchange in flight: its flow, its two captures, and the shared budget.\<close>

record inflight =
  if_flow :: flow
  if_req :: capture
  if_resp :: capture
  if_budget :: budget
  if_events :: "sink_event list"

definition on_inflight :: "(flow \<Rightarrow> flow) \<Rightarrow> inflight \<Rightarrow> inflight" where
  "on_inflight g i = i\<lparr>if_flow := g (if_flow i)\<rparr>"

definition emit_started :: "inflight \<Rightarrow> inflight" where
  "emit_started i = i\<lparr>if_events := if_events i @ [SStarted (if_flow i)]\<rparr>"

definition emit_updated :: "inflight \<Rightarrow> inflight" where
  "emit_updated i = i\<lparr>if_events := if_events i @ [SUpdated (if_flow i)]\<rparr>"

definition finish_inflight :: "exchange_env \<Rightarrow> gotime \<Rightarrow> flow_state \<Rightarrow> inflight \<Rightarrow> inflight" where
  "finish_inflight env now st i =
     (let f = if_flow i;
          (r1, c1, b1, e1) = store_body env (fl_req_body f) (if_req i) (if_budget i);
          (r2, c2, b2, e2) = store_body env (fl_resp_body f) (if_resp i) b1;
          f1 = f\<lparr>fl_req_body := r1, fl_resp_body := r2, fl_t := (fl_t f)\<lparr>t_end := now\<rparr>, fl_state := st\<rparr>
      in \<lparr>if_flow = f1, if_req = c1, if_resp = c2, if_budget = b2, if_events = if_events i @ e1 @ e2 @ [SDone f1]\<rparr>)"

definition release_inflight :: "inflight \<Rightarrow> budget" where
  "release_inflight i = release_budget (cp_reserved (if_resp i)) (release_budget (cp_reserved (if_req i)) (if_budget i))"

section \<open>What the network does\<close>

record trace_times =
  tt_dns :: gotime
  tt_conn :: gotime
  tt_tls :: gotime
  tt_wrote :: gotime
  tt_first :: gotime
  tt_proto :: string
  tt_reused :: bool

record exchange_run =
  xr_id :: flow_id
  xr_session :: string
  xr_client :: string
  xr_proto :: string
  xr_start :: gotime
  xr_headers_at :: gotime
  xr_end :: gotime
  xr_trace :: trace_times
  xr_req_read :: "string list"
  xr_transport :: "request \<Rightarrow> string + (response \<times> header \<times> string)"
  xr_chunks :: "string \<Rightarrow> string list"
  xr_gone :: "(nat \<times> string) option"

definition apply_trace :: "trace_times \<Rightarrow> flow \<Rightarrow> flow" where
  "apply_trace t f =
     (let f1 = f\<lparr>fl_t := (fl_t f)\<lparr>t_dns_done := tt_dns t, t_connected := tt_conn t, t_tls_done := tt_tls t,
                    t_wrote_req := tt_wrote t, t_first_byte := tt_first t, t_reused := tt_reused t\<rparr>\<rparr>
      in if tt_proto t \<noteq> [] then f1\<lparr>fl_up_proto := tt_proto t\<rparr> else f1)"

definition upstream_error :: "exchange_env \<Rightarrow> string \<Rightarrow> string" where
  "upstream_error env msg =
     (if xe_timeout env msg then ''upstream timeout: '' @ msg
      else if str_contains msg ''no such host'' then ''dns: '' @ msg
      else if str_contains msg ''connection refused'' then ''connection refused: '' @ msg
      else if str_contains msg ''certificate'' then ''upstream tls: '' @ msg
      else ''upstream: '' @ msg)"

definition upstream_status :: "exchange_env \<Rightarrow> string \<Rightarrow> int" where
  "upstream_status env msg =
     (if xe_canceled env msg then 499 else if xe_timeout env msg \<or> xe_deadline env msg then 504 else 502)"

definition is_client_gone :: "exchange_env \<Rightarrow> string \<Rightarrow> bool" where
  "is_client_gone env msg =
     (xe_closed env msg \<or> str_contains msg ''broken pipe'' \<or> str_contains msg ''connection reset''
      \<or> str_contains msg ''client disconnected'' \<or> str_contains msg ''stream closed'')"

definition default_port :: "string \<Rightarrow> int" where
  "default_port scheme = (if scheme = ''http'' then 80 else 443)"

section \<open>The answer\<close>

text \<open>The connection is dropped, or the client sees a status, headers, body and trailers (\<open>True\<close>: flushed live).\<close>

datatype client_end = Aborted | Answered int header string header bool

definition is_streamy :: "response \<Rightarrow> bool" where
  "is_streamy resp =
     (let ct = header_get (rp_header resp) ''Content-Type'' in
      if has_prefix ct ''text/event-stream'' then True
      else if rp_length resp < 0 then True
      else if equal_fold (header_get (rp_header resp) ''X-Accel-Buffering'') ''no'' then True
      else str_contains (header_get (rp_header resp) ''Cache-Control'') ''no-transform'' \<and> str_contains ct ''json'')"

text \<open>The copy loop: the reads of the body with the error they end with, and the write (by its number) on
  which the client is found gone. A read is captured before it is written.\<close>

fun copy_stream ::
  "string list \<Rightarrow> string option \<Rightarrow> (nat \<times> string) option \<Rightarrow> capture \<Rightarrow> budget \<Rightarrow> string \<times> string option \<times> capture \<times> budget" where
  "copy_stream [] rerr gone c b = ([], rerr, c, b)"
| "copy_stream (p # ps) rerr gone c b =
     (if p = [] then copy_stream ps rerr gone c b
      else (let (c1, b1) = capture_write p c b in
            case gone of
              Some (0, e) \<Rightarrow> ([], Some e, c1, b1)
            | Some (Suc n, e) \<Rightarrow>
                (let (out, err, c2, b2) = copy_stream ps rerr (Some (n, e)) c1 b1 in (p @ out, err, c2, b2))
            | None \<Rightarrow> (let (out, err, c2, b2) = copy_stream ps rerr None c1 b1 in (p @ out, err, c2, b2))))"

definition merge_header :: "header \<Rightarrow> header \<Rightarrow> header" where
  "merge_header new h = fold (\<lambda>(k, vs). map_put k vs) new h"

definition has_no_body :: "string \<Rightarrow> int \<Rightarrow> bool" where
  "has_no_body meth status = (meth = ''HEAD'' \<or> status = 204 \<or> status = 304)"

fun body_error_of :: "body \<Rightarrow> string option" where
  "body_error_of NoBody = None"
| "body_error_of (Body _ e) = e"

definition write_response ::
  "exchange_env \<Rightarrow> exchange_run \<Rightarrow> header \<Rightarrow> string \<Rightarrow> response \<Rightarrow> header \<Rightarrow> inflight \<Rightarrow> client_end \<times> inflight" where
  "write_response env run w meth resp trailer i =
     (let h1 = strip_hop False (merge_header (rp_header resp) w);
          h2 = (if trailer \<noteq> [] then header_set ''Trailer'' (str_join '', '' (List.map fst trailer)) h1 else h1);
          i1 = emit_updated (on_inflight (\<lambda>f. f\<lparr>fl_t := (fl_t f)\<lparr>t_headers_sent := xr_headers_at run\<rparr>\<rparr>) i);
          (out, err, c, b) = (if has_no_body meth (rp_status resp) then ([], None, if_resp i1, if_budget i1)
             else copy_stream (xr_chunks run (body_data (rp_body resp))) (body_error_of (rp_body resp)) (xr_gone run)
                    (if_resp i1) (if_budget i1));
          i2 = on_inflight (\<lambda>f. if trailer \<noteq> [] then f\<lparr>fl_trailers := trailer\<rparr> else f) (i1\<lparr>if_resp := c, if_budget := b\<rparr>);
          answer = Answered (rp_status resp) h2 out trailer (is_streamy resp)
      in case err of
           Some e \<Rightarrow>
             (answer, finish_inflight env (xr_end run) StateFailed
                (on_inflight (\<lambda>f. f\<lparr>fl_error :=
                   (if xe_canceled env e \<or> is_client_gone env e then ''client disconnected'' else ''body: '' @ e)\<rparr>) i2))
         | None \<Rightarrow> (answer, finish_inflight env (xr_end run) StateDone i2))"

text \<open>\<open>inflight.fail\<close> and the finish that always follows it.\<close>

definition error_headers :: "header \<Rightarrow> header" where
  "error_headers h = header_set ''X-Pano-Error'' ''1'' (header_set ''Content-Type'' ''text/plain; charset=utf-8'' h)"

definition fail_exchange :: "exchange_env \<Rightarrow> exchange_run \<Rightarrow> header \<Rightarrow> int \<Rightarrow> string \<Rightarrow> inflight \<Rightarrow> client_end \<times> inflight" where
  "fail_exchange env run w status msg i =
     (Answered status (error_headers w) (msg @ [CHR 0x0A]) [] False,
      finish_inflight env (xr_end run) StateFailed
        (on_inflight (\<lambda>f. f\<lparr>fl_status := status, fl_resp_headers := error_headers (fl_resp_headers f)\<rparr>) i))"

text \<open>A decision ends the exchange; a blocked one is dropped after the wait.\<close>

definition apply_decision ::
  "exchange_env \<Rightarrow> exchange_run \<Rightarrow> header \<Rightarrow> string \<Rightarrow> decision \<Rightarrow> inflight \<Rightarrow> client_end \<times> inflight" where
  "apply_decision env run w meth d i =
     (case d of
        MockWith m \<Rightarrow>
          write_response env run w meth m []
            (on_inflight (\<lambda>f. f\<lparr>fl_status := rp_status m, fl_resp_headers := rp_header m,
               fl_resp_body := (fl_resp_body f)\<lparr>br_mime := media_type (header_get (rp_header m) ''Content-Type'')\<rparr>,
               fl_t := (fl_t f)\<lparr>t_first_byte := xr_headers_at run\<rparr>\<rparr>) i)
      | BlockReset \<Rightarrow>
          (Aborted, finish_inflight env (xr_end run) StateFailed (on_inflight (\<lambda>f. f\<lparr>fl_error := ''blocked: connection reset''\<rparr>) i))
      | BlockTimeout _ \<Rightarrow>
          (Aborted, finish_inflight env (xr_end run) StateFailed (on_inflight (\<lambda>f. f\<lparr>fl_error := ''blocked: timeout''\<rparr>) i)))"

section \<open>The exchange\<close>

record exchange_hooks =
  hk_request :: "exchange \<Rightarrow> decision option \<times> exchange"
  hk_response :: "exchange \<Rightarrow> decision option \<times> exchange"

definition zero_body :: body_ref where
  "zero_body = \<lparr>br_hash = [], br_size = 0, br_captured = 0, br_truncated = False, br_encoding = [], br_mime = []\<rparr>"

definition zero_timing :: timing where
  "zero_timing = \<lparr>t_start = 0, t_dns_done = 0, t_connected = 0, t_tls_done = 0, t_wrote_req = 0, t_first_byte = 0,
     t_headers_sent = 0, t_end = 0, t_reused = False\<rparr>"

definition new_flow :: "exchange_run \<Rightarrow> flow_kind \<Rightarrow> request \<Rightarrow> string \<Rightarrow> string \<Rightarrow> flow" where
  "new_flow run kind r scheme hostport =
     \<lparr>fl_id = xr_id run, fl_session = xr_session run, fl_kind = kind, fl_client = xr_client run, fl_proto = xr_proto run,
      fl_up_proto = [], fl_scheme = scheme, fl_host = fst (split_host_port_or hostport (default_port scheme)),
      fl_port = snd (split_host_port_or hostport (default_port scheme)), fl_method = rq_method r,
      fl_path = u_path (rq_url r), fl_query = u_raw_query (rq_url r), fl_req_headers = rq_header r, fl_req_body = zero_body,
      fl_status = 0, fl_resp_headers = [], fl_resp_body = zero_body, fl_trailers = [],
      fl_t = zero_timing\<lparr>t_start := xr_start run\<rparr>, fl_error = [], fl_tags = [], fl_rules = [], fl_state = StateActive,
      fl_replay = False, fl_replay_of = 0\<rparr>"

definition new_inflight :: "exchange_env \<Rightarrow> exchange_run \<Rightarrow> bool \<Rightarrow> budget \<Rightarrow> request \<Rightarrow> string \<Rightarrow> string \<Rightarrow> inflight" where
  "new_inflight env run capturing b r scheme hostport =
     (let f = new_flow run KindHTTP r scheme hostport; c = new_capture (xe_max_body env) (\<not> capturing)
      in \<lparr>if_flow = (if fl_path f = [] then f\<lparr>fl_path := ''/''\<rparr> else f), if_req = c, if_resp = c, if_budget = b, if_events = []\<rparr>)"

text \<open>The outbound request before its control headers go: routed, with no hop-by-hop header.\<close>

definition outbound :: "bool \<Rightarrow> request \<Rightarrow> string \<Rightarrow> string \<Rightarrow> request" where
  "outbound ws r scheme hostport =
     r\<lparr>rq_url := (rq_url r)\<lparr>u_scheme := scheme, u_host := hostport\<rparr>,
       rq_host := (if rq_host r = [] then hostport else rq_host r),
       rq_header := strip_hop ws (rq_header r)\<rparr>"

definition replay_header :: string where "replay_header = ''X-Pano-Replay-Of''"
definition no_rules_header :: string where "no_rules_header = ''X-Pano-No-Rules''"
definition flow_id_header :: string where "flow_id_header = ''X-Pano-Flow-Id''"

text \<open>\<open>take_control name\<close> removes a control header from the request and the flow.\<close>

definition take_control :: "string \<Rightarrow> request \<Rightarrow> flow \<Rightarrow> request \<times> flow" where
  "take_control name out f =
     (out\<lparr>rq_header := header_del name (rq_header out)\<rparr>, f\<lparr>fl_req_headers := header_del name (fl_req_headers f)\<rparr>)"

definition control_headers :: "request \<Rightarrow> flow \<Rightarrow> request \<times> flow \<times> header \<times> bool" where
  "control_headers out f =
     (let v = header_get (rq_header out) replay_header;
          (out1, f1, w) =
            (if v = [] then (out, f, [])
             else (let (o1, f1) = take_control replay_header out f
                   in (o1, (case parse_short v of Some i \<Rightarrow> f1\<lparr>fl_replay := True, fl_replay_of := i\<rparr> | None \<Rightarrow> f1),
                       header_set flow_id_header (short (fl_id f)) [])))
      in if header_get (rq_header out1) no_rules_header = [] then (out1, f1, w, False)
         else (let (o2, f2) = take_control no_rules_header out1 f1 in (o2, f2, w, True)))"

definition request_body :: "request \<Rightarrow> request \<Rightarrow> request" where
  "request_body r out =
     (if rq_length r \<noteq> 0 \<and> rq_body r \<noteq> NoBody then out else out\<lparr>rq_body := NoBody, rq_length := 0\<rparr>)"

definition request_meta :: "request \<Rightarrow> flow \<Rightarrow> flow" where
  "request_meta r f =
     f\<lparr>fl_req_body := (fl_req_body f)\<lparr>br_mime := media_type (header_get (rq_header r) ''Content-Type''),
         br_encoding := header_get (rq_header r) ''Content-Encoding''\<rparr>\<rparr>"

definition response_meta :: "string \<Rightarrow> response \<Rightarrow> flow \<Rightarrow> flow" where
  "response_meta proto resp f =
     f\<lparr>fl_up_proto := (if fl_up_proto f = [] then proto else fl_up_proto f), fl_status := rp_status resp,
       fl_resp_headers := rp_header resp,
       fl_resp_body := (fl_resp_body f)\<lparr>br_mime := media_type (header_get (rp_header resp) ''Content-Type''),
         br_encoding := header_get (rp_header resp) ''Content-Encoding''\<rparr>\<rparr>"

text \<open>All that was read of the request's body, through the capture.\<close>

definition tee_reads :: "string list \<Rightarrow> capture \<Rightarrow> budget \<Rightarrow> capture \<times> budget" where
  "tee_reads ps c b = fold (\<lambda>p (c, b). if p = [] then (c, b) else capture_write p c b) ps (c, b)"

definition tee_request :: "exchange_run \<Rightarrow> request \<Rightarrow> inflight \<Rightarrow> inflight" where
  "tee_request run r i =
     (if rq_length r \<noteq> 0 \<and> rq_body r \<noteq> NoBody
      then (let (c, b) = tee_reads (xr_req_read run) (if_req i) (if_budget i) in i\<lparr>if_req := c, if_budget := b\<rparr>)
      else i)"

text \<open>After the round trip: the response hooks and the answer.\<close>

definition answer_exchange ::
  "exchange_env \<Rightarrow> exchange_run \<Rightarrow> exchange_hooks option \<Rightarrow> header \<Rightarrow> string \<Rightarrow> request \<Rightarrow> inflight \<Rightarrow> client_end \<times> inflight" where
  "answer_exchange env run hooks w meth out i =
     (let i1 = on_inflight (apply_trace (xr_trace run)) i in
      case xr_transport run out of
        Inl e \<Rightarrow>
          (let msg = upstream_error env e
           in fail_exchange env run w (upstream_status env e) (''pano: '' @ msg) (on_inflight (\<lambda>f. f\<lparr>fl_error := msg\<rparr>) i1))
      | Inr (resp, trailer, proto) \<Rightarrow>
          (let i2 = on_inflight (response_meta proto resp) i1 in
           case hooks of
             None \<Rightarrow> write_response env run w meth resp trailer i2
           | Some hk \<Rightarrow>
               (let (d, x) = hk_response hk \<lparr>x_flow = if_flow i2, x_req = out, x_resp = Some resp, x_mirrored = ph_both\<rparr>;
                    i3 = i2\<lparr>if_flow := x_flow x\<rparr> in
                case d of
                  Some d \<Rightarrow> apply_decision env run w meth d i3
                | None \<Rightarrow>
                    (let resp' = (case x_resp x of Some q \<Rightarrow> q | None \<Rightarrow> resp)
                     in write_response env run w meth resp' trailer
                          (on_inflight (\<lambda>f. f\<lparr>fl_status := rp_status resp', fl_resp_headers := rp_header resp'\<rparr>) i3)))))"

definition refusal :: string where "refusal = ''pano: refusing to proxy to itself''"

text \<open>The loop guard and the round trip; \<open>Some out\<close> is what went to the origin.\<close>

definition forward_exchange ::
  "exchange_env \<Rightarrow> exchange_run \<Rightarrow> exchange_hooks option \<Rightarrow> server \<Rightarrow> header \<Rightarrow> string \<Rightarrow> request \<Rightarrow> inflight
     \<Rightarrow> request option \<times> client_end \<times> inflight" where
  "forward_exchange env run hooks sv w meth out i =
     (if is_self sv (u_host (rq_url out)) then (None, fail_exchange env run w 403 refusal i)
      else (Some out, answer_exchange env run hooks w meth out i))"

definition handle_exchange ::
  "exchange_env \<Rightarrow> exchange_run \<Rightarrow> exchange_hooks option \<Rightarrow> server \<Rightarrow> budget \<Rightarrow> request \<Rightarrow> string \<Rightarrow> string
     \<Rightarrow> request option \<times> client_end \<times> inflight" where
  "handle_exchange env run hooks sv b r scheme hostport =
     (let i0 = new_inflight env run (sv_capturing sv) b r scheme hostport;
          (out1, f1, w, skip) = control_headers (outbound False r scheme hostport) (if_flow i0);
          out = request_body r out1;
          i1 = emit_started (i0\<lparr>if_flow := request_meta r f1\<rparr>);
          hooks' = (if skip then None else hooks);
          i2 = tee_request run r i1 in
      case hooks' of
        None \<Rightarrow> forward_exchange env run None sv w (rq_method r) out i2
      | Some hk \<Rightarrow>
          (let (d, x) = hk_request hk \<lparr>x_flow = if_flow i2, x_req = out, x_resp = None, x_mirrored = ph_request\<rparr>;
               i3 = i2\<lparr>if_flow := x_flow x\<rparr> in
           case d of
             Some d \<Rightarrow> (None, apply_decision env run w (rq_method r) d i3)
           | None \<Rightarrow>
               (let host = u_host (rq_url (x_req x));
                    i4 = (if host \<noteq> hostport
                          then on_inflight (\<lambda>f. f\<lparr>fl_host := fst (split_host_port_or host (default_port scheme)),
                                 fl_port := snd (split_host_port_or host (default_port scheme))\<rparr>) i3
                          else i3)
                in forward_exchange env run (Some hk) sv w (rq_method r) (x_req x) i4)))"

end
