(* ===== verification/Proxy_Record.thy ===== *)
theory Proxy_Record
  imports Proxy_Exchange
begin

text \<open>
  What an exchange leaves behind: the hop-by-hop headers that are dropped, the events published, the
  budget returned, and how the recorded flow relates to what the client was sent. The hooks are an
  interface (\<open>hook_laws\<close>) the rule engine provides.
\<close>

section \<open>Hop-by-hop headers\<close>

definition hop_kept :: "bool \<Rightarrow> bool \<Rightarrow> string \<Rightarrow> bool" where
  "hop_kept ws te k = (ws \<and> (k = ''Connection'' \<or> k = ''Upgrade'') \<or> k = ''Te'' \<and> te)"

definition hop_dropped :: "bool \<Rightarrow> header \<Rightarrow> string \<Rightarrow> bool" where
  "hop_dropped ws h k =
     (list_ex (\<lambda>n. canonical_key n = k \<and> \<not> (ws \<and> equal_fold n ''upgrade'')) (connection_names h)
      \<or> (k \<in> set hop_headers \<and> \<not> hop_kept ws (te_trailers h) k))"

lemma fold_header_del:
  "header_values (fold (\<lambda>n h. if P n then h else header_del n h) ns h) k =
     (if \<exists>n \<in> set ns. \<not> P n \<and> canonical_key n = canonical_key k then [] else header_values h k)"
  by (induction ns arbitrary: h) (auto simp: header_values_del_if)

lemma hop_canonical: "n \<in> set hop_headers \<Longrightarrow> canonical_key n = n"
proof -
  have "list_all (\<lambda>n. canonical_key n = n) hop_headers" by code_simp
  then show "n \<in> set hop_headers \<Longrightarrow> canonical_key n = n" by (simp add: list_all_iff)
qed

lemma te_trailers_values: "header_values h ''Te'' = header_values h' ''Te'' \<Longrightarrow> te_trailers h = te_trailers h'"
  by (simp add: te_trailers_def header_get_def)

lemma te_trailers_del: "\<not> te_trailers (header_del ''Te'' h)"
proof -
  have "\<not> equal_fold (trim_space []) ''trailers''" by code_simp
  then show ?thesis by (simp add: te_trailers_def header_get_def)
qed

lemma te_canonical: "canonical_key ''Te'' = ''Te''"
  by code_simp

lemma te_trailers_strip: "canonical_key n = n \<Longrightarrow> te_trailers (strip_one ws n h) = te_trailers h"
proof (cases "n = ''Te''")
  case True
  then show ?thesis by (simp add: strip_one_def te_trailers_del)
next
  case False
  assume "canonical_key n = n"
  with False show ?thesis
    by (intro te_trailers_values) (simp add: strip_one_def header_values_del_if te_canonical)
qed

lemma strip_one_values:
  "canonical_key n = n \<Longrightarrow> header_values (strip_one ws n h) k =
     (if canonical_key k = n \<and> \<not> (ws \<and> (n = ''Connection'' \<or> n = ''Upgrade'')) \<and> \<not> (n = ''Te'' \<and> te_trailers h)
      then [] else header_values h k)"
  by (simp add: strip_one_def header_values_del_if) fastforce

lemma fold_strip_one:
  "\<forall>n \<in> set ns. canonical_key n = n \<Longrightarrow>
   header_values (fold (strip_one ws) ns h) k =
     (if canonical_key k \<in> set ns \<and> \<not> hop_kept ws (te_trailers h) (canonical_key k) then [] else header_values h k)"
proof (induction ns arbitrary: h)
  case (Cons n ns)
  then have n: "canonical_key n = n" and ns: "\<forall>n \<in> set ns. canonical_key n = n" by simp_all
  have v: "header_values (strip_one ws n h) k =
     (if canonical_key k = n \<and> \<not> hop_kept ws (te_trailers h) n then [] else header_values h k)"
    by (simp only: strip_one_values [OF n] hop_kept_def de_Morgan_disj)
  show ?case
    using Cons.IH [OF ns, of "strip_one ws n h"] v
    by (cases "canonical_key k = n") (simp_all add: te_trailers_strip [OF n])
qed simp

lemma strip_named_values:
  "header_values (strip_named ws h) k =
     (if list_ex (\<lambda>n. canonical_key n = canonical_key k \<and> \<not> (ws \<and> equal_fold n ''upgrade'')) (connection_names h)
      then [] else header_values h k)"
  by (auto simp: strip_named_def fold_header_del list_ex_iff)

lemma strip_hop_values:
  "header_values (strip_hop ws h) k = (if hop_dropped ws h (canonical_key k) then [] else header_values h k)"
proof -
  let ?named = "\<lambda>k. list_ex (\<lambda>n. canonical_key n = k \<and> \<not> (ws \<and> equal_fold n ''upgrade'')) (connection_names h)"
  have te: "te_trailers (strip_named ws h) = te_trailers h" if "\<not> ?named ''Te''"
    using that by (intro te_trailers_values) (simp add: strip_named_values te_canonical)
  have f: "header_values (strip_hop ws h) k =
     (if canonical_key k \<in> set hop_headers \<and> \<not> hop_kept ws (te_trailers (strip_named ws h)) (canonical_key k)
      then [] else if ?named (canonical_key k) then [] else header_values h k)"
    unfolding strip_hop_def by (subst fold_strip_one) (simp_all add: hop_canonical strip_named_values)
  show ?thesis
  proof (cases "?named (canonical_key k)")
    case False
    then have "hop_kept ws (te_trailers (strip_named ws h)) (canonical_key k) = hop_kept ws (te_trailers h) (canonical_key k)"
      using te unfolding hop_kept_def by fastforce
    with f False show ?thesis by (simp add: hop_dropped_def)
  qed (use f in \<open>simp add: hop_dropped_def\<close>)
qed

section \<open>The budget\<close>

definition charged :: "budget \<Rightarrow> int \<Rightarrow> budget" where
  "charged b n = (if 0 < bu_limit b then b\<lparr>bu_used := bu_used b + n\<rparr> else b)"

lemma charged_charged [simp]: "charged (charged b m) n = charged b (m + n)" "charged b 0 = b"
  by (simp_all add: charged_def)

lemma release_charged [simp]: "release_budget n b = charged b (- n)"
  by (simp add: release_budget_def charged_def)

lemma capture_write_charges:
  "capture_write p c b = (c', b') \<Longrightarrow> b' = charged b (cp_reserved c' - cp_reserved c)"
  by (auto simp: capture_write_def take_budget_def charged_def Let_def split: if_splits)

lemma capture_write_fields:
  "capture_write p c b = (c', b') \<Longrightarrow> cp_off c' = cp_off c \<and> cp_limit c' = cp_limit c"
  by (auto simp: capture_write_def take_budget_def Let_def split: if_splits)

lemma tee_reads_charges:
  "tee_reads ps c b = (c', b') \<Longrightarrow> b' = charged b (cp_reserved c' - cp_reserved c)"
proof (induction ps arbitrary: c b)
  case (Cons p ps)
  obtain c1 b1 where w: "(if p = [] then (c, b) else capture_write p c b) = (c1, b1)" by fastforce
  then have "b1 = charged b (cp_reserved c1 - cp_reserved c)"
    using capture_write_charges [of p c b c1 b1] by (auto split: if_splits)
  moreover have "tee_reads ps c1 b1 = (c', b')" using Cons.prems w by (simp add: tee_reads_def)
  ultimately show ?case using Cons.IH [of c1 b1] by simp
qed (simp add: tee_reads_def)

definition later :: "(nat \<times> string) option \<Rightarrow> (nat \<times> string) option" where
  "later g = (case g of Some (Suc n, e) \<Rightarrow> Some (n, e) | _ \<Rightarrow> None)"

lemma copy_stream_cases:
  assumes "copy_stream (p # ps) rerr gone c b = (out, err, c', b')"
  obtains "p = []" "copy_stream ps rerr gone c b = (out, err, c', b')"
  | e where "capture_write p c b = (c', b')" "out = []" "err = Some e"
  | c1 b1 out1 where "capture_write p c b = (c1, b1)" "out = p @ out1"
      "copy_stream ps rerr (later gone) c1 b1 = (out1, err, c', b')"
  using assms
  by (auto simp: later_def split: if_splits option.splits prod.splits nat.splits)

lemma copy_stream_charges:
  "copy_stream ps rerr gone c b = (out, err, c', b') \<Longrightarrow> b' = charged b (cp_reserved c' - cp_reserved c)"
proof (induction ps arbitrary: gone c b out)
  case (Cons p ps)
  from Cons.prems show ?case
  proof (cases rule: copy_stream_cases)
    case 1
    then show ?thesis using Cons.IH by blast
  next
    case (2 e)
    then show ?thesis using capture_write_charges by blast
  next
    case (3 c1 b1 out1)
    show ?thesis using capture_write_charges [OF 3(1)] Cons.IH [OF 3(3)] by simp
  qed
qed simp

section \<open>Captured bodies\<close>

abbreviation captures :: "capture \<Rightarrow> string \<Rightarrow> bool" where
  "captures c seen \<equiv> slot_ok \<lparr>sl_cap = c, sl_seen = seen, sl_live = True\<rparr>"

lemma captures_new: "captures (new_capture limit off) []"
  by (simp add: new_capture_def slot_ok_def)

lemma captures_write: "captures c seen \<Longrightarrow> capture_write p c b = (c', b') \<Longrightarrow> captures c' (seen @ p)"
  using capture_write_ok(1) [of "\<lparr>sl_cap = c, sl_seen = seen, sl_live = True\<rparr>" p b c' b'] by simp

lemma copy_stream_captures:
  "copy_stream ps rerr gone c b = (out, err, c', b') \<Longrightarrow> captures c seen \<Longrightarrow>
     \<exists>extra. captures c' (seen @ out @ extra) \<and> cp_off c' = cp_off c \<and> (err = None \<longrightarrow> extra = [] \<and> out = concat ps)
       \<and> prefix (out @ extra) (concat ps)"
proof (induction ps arbitrary: gone c b out seen)
  case (Cons p ps)
  from Cons.prems(1) show ?case
  proof (cases rule: copy_stream_cases)
    case 1
    then show ?thesis using Cons.IH [OF 1(2) Cons.prems(2)] by simp
  next
    case (2 e)
    then show ?thesis
      using captures_write [OF Cons.prems(2) 2(1)] capture_write_fields [OF 2(1)] by (intro exI [of _ p]) simp
  next
    case (3 c1 b1 out1)
    note off = capture_write_fields [OF 3(1)]
    from Cons.IH [OF 3(3) captures_write [OF Cons.prems(2) 3(1)]] obtain extra where
      "captures c' ((seen @ p) @ out1 @ extra)" "cp_off c' = cp_off c1"
      "err = None \<longrightarrow> extra = [] \<and> out1 = concat ps" "prefix (out1 @ extra) (concat ps)" by blast
    with 3(2) off show ?thesis by (intro exI [of _ extra]) simp
  qed
qed simp

section \<open>Publishing once\<close>

fun quiet :: "flow_id \<times> string \<times> flow_kind \<times> string \<times> string \<times> gotime \<times> bool \<times> flow_id \<Rightarrow> sink_event \<Rightarrow> bool" where
  "quiet d (SUpdated f) = (flow_ident f = d)"
| "quiet d (SBlob b) = True"
| "quiet d (SStarted f) = False"
| "quiet d (SDone f) = False"

definition held :: "inflight \<Rightarrow> int" where
  "held i = cp_reserved (if_req i) + cp_reserved (if_resp i)"

text \<open>Between two points of an exchange: the flow keeps its identity, only updates and blobs are
  published, and the budget moves with what the captures hold.\<close>

definition goes_on :: "inflight \<Rightarrow> inflight \<Rightarrow> bool" where
  "goes_on i i' =
     (flow_ident (if_flow i') = flow_ident (if_flow i)
      \<and> (\<exists>mid. if_events i' = if_events i @ mid \<and> list_all (quiet (flow_ident (if_flow i))) mid)
      \<and> if_budget i' = charged (if_budget i) (held i' - held i))"

definition ended :: "inflight \<Rightarrow> inflight \<Rightarrow> bool" where
  "ended i i' =
     (flow_ident (if_flow i') = flow_ident (if_flow i)
      \<and> (\<exists>mid. if_events i' = if_events i @ mid @ [SDone (if_flow i')] \<and> list_all (quiet (flow_ident (if_flow i))) mid)
      \<and> fl_state (if_flow i') \<in> {StateDone, StateFailed}
      \<and> if_budget i' = charged (if_budget i) (- held i) \<and> cp_reserved (if_req i') = 0 \<and> cp_reserved (if_resp i') = 0)"

lemma goes_on_refl [simp]: "goes_on i i"
  by (simp add: goes_on_def)

lemma goes_on_trans [trans]: "goes_on i j \<Longrightarrow> goes_on j k \<Longrightarrow> goes_on i k"
  by (auto simp: goes_on_def)

lemma goes_on_ended: "goes_on i j \<Longrightarrow> ended j k \<Longrightarrow> ended i k"
  by (auto simp: goes_on_def ended_def)

lemma goes_on_flow: "flow_ident f = flow_ident (if_flow i) \<Longrightarrow> goes_on i (i\<lparr>if_flow := f\<rparr>)"
  by (simp add: goes_on_def held_def)

lemma goes_on_inflight: "flow_ident (g (if_flow i)) = flow_ident (if_flow i) \<Longrightarrow> goes_on i (on_inflight g i)"
  by (simp add: on_inflight_def goes_on_flow)

lemma goes_on_updated: "goes_on i (emit_updated i)"
  by (simp add: goes_on_def emit_updated_def held_def)

lemma goes_on_resp:
  "b' = charged (if_budget i) (cp_reserved c - cp_reserved (if_resp i)) \<Longrightarrow> goes_on i (i\<lparr>if_resp := c, if_budget := b'\<rparr>)"
  by (simp add: goes_on_def held_def algebra_simps)

lemma goes_on_req:
  "b' = charged (if_budget i) (cp_reserved c - cp_reserved (if_req i)) \<Longrightarrow> goes_on i (i\<lparr>if_req := c, if_budget := b'\<rparr>)"
  by (simp add: goes_on_def held_def algebra_simps)

lemma store_body_parts:
  assumes "store_body env ref c b = (r, c', b', e)"
  shows "b' = charged b (- cp_reserved c)" "cp_reserved c' = 0" "list_all (quiet d) e"
    and "captures c seen \<Longrightarrow> br_size r = int (length seen) \<and> br_truncated r = cp_truncated c
      \<and> (\<not> cp_truncated c \<and> \<not> cp_off c \<longrightarrow>
          br_captured r = int (length seen) \<and> (seen = [] \<or> (SBlob seen \<in> set e \<and> br_hash r = xe_blob env seen)))"
  using assms by (auto simp: store_body_def bytes_and_release_def Let_def slot_ok_def split: if_splits)

text \<open>How the record of a finished exchange stands to what its client saw.\<close>

definition answered :: "exchange_env \<Rightarrow> bool \<Rightarrow> header \<Rightarrow> client_end \<Rightarrow> inflight \<Rightarrow> bool" where
  "answered env off w en i =
     (case en of
        Aborted \<Rightarrow> fl_state (if_flow i) = StateFailed
      | Answered st h out trailer flushed \<Rightarrow>
          (let f = if_flow i; body = fl_resp_body f in
           fl_status f = st
           \<and> (fl_state f = StateDone \<longrightarrow>
               (trailer = [] \<longrightarrow> h = strip_hop False (merge_header (fl_resp_headers f) w))
               \<and> br_size body = int (length out)
               \<and> (\<not> off \<and> \<not> br_truncated body \<longrightarrow>
                   br_captured body = int (length out)
                   \<and> (out = [] \<or> (SBlob out \<in> set (if_events i) \<and> br_hash body = xe_blob env out))))))"

lemma finish_ended:
  assumes "st = StateDone \<or> st = StateFailed" and "finish_inflight env now st i = i'"
  shows "ended i i'" "fl_status (if_flow i') = fl_status (if_flow i)" "fl_resp_headers (if_flow i') = fl_resp_headers (if_flow i)"
    and "fl_state (if_flow i') = st"
    and "captures (if_resp i) seen \<Longrightarrow> br_size (fl_resp_body (if_flow i')) = int (length seen)
      \<and> (\<not> br_truncated (fl_resp_body (if_flow i')) \<and> \<not> cp_off (if_resp i) \<longrightarrow>
          br_captured (fl_resp_body (if_flow i')) = int (length seen)
          \<and> (seen = [] \<or> (SBlob seen \<in> set (if_events i') \<and> br_hash (fl_resp_body (if_flow i')) = xe_blob env seen)))"
proof -
  obtain r1 c1 b1 e1 where s1: "store_body env (fl_req_body (if_flow i)) (if_req i) (if_budget i) = (r1, c1, b1, e1)"
    by (metis prod_cases4)
  obtain r2 c2 b2 e2 where s2: "store_body env (fl_resp_body (if_flow i)) (if_resp i) b1 = (r2, c2, b2, e2)"
    by (metis prod_cases4)
  note p1 = store_body_parts [OF s1] and p2 = store_body_parts [OF s2]
  have i': "i' = \<lparr>if_flow = (if_flow i)\<lparr>fl_req_body := r1, fl_resp_body := r2, fl_t := (fl_t (if_flow i))\<lparr>t_end := now\<rparr>, fl_state := st\<rparr>,
      if_req = c1, if_resp = c2, if_budget = b2,
      if_events = if_events i @ (e1 @ e2) @ [SDone ((if_flow i)\<lparr>fl_req_body := r1, fl_resp_body := r2,
        fl_t := (fl_t (if_flow i))\<lparr>t_end := now\<rparr>, fl_state := st\<rparr>)]\<rparr>"
    using assms(2) by (simp add: finish_inflight_def s1 s2 Let_def)
  have "list_all (quiet d) (e1 @ e2)" for d using p1(3) p2(3) by simp
  with p1(1,2) p2(1,2) assms(1) show "ended i i'"
    by (auto simp: ended_def i' flow_ident_def held_def intro!: exI [of _ "e1 @ e2"])
  show "fl_status (if_flow i') = fl_status (if_flow i)" "fl_resp_headers (if_flow i') = fl_resp_headers (if_flow i)"
    "fl_state (if_flow i') = st" by (simp_all add: i')
  show "captures (if_resp i) seen \<Longrightarrow> br_size (fl_resp_body (if_flow i')) = int (length seen)
      \<and> (\<not> br_truncated (fl_resp_body (if_flow i')) \<and> \<not> cp_off (if_resp i) \<longrightarrow>
          br_captured (fl_resp_body (if_flow i')) = int (length seen)
          \<and> (seen = [] \<or> (SBlob seen \<in> set (if_events i') \<and> br_hash (fl_resp_body (if_flow i')) = xe_blob env seen)))"
    using p2(4) by (auto simp: i')
qed

lemma fail_ended:
  assumes "fail_exchange env run w status msg i = (en, i')"
  shows "ended i i'" "answered env off w' en i'"
proof -
  let ?j = "on_inflight (\<lambda>f. f\<lparr>fl_status := status, fl_resp_headers := error_headers (fl_resp_headers f)\<rparr>) i"
  have en: "en = Answered status (error_headers w) (msg @ [CHR 0x0A]) [] False"
    and i': "finish_inflight env (xr_end run) StateFailed ?j = i'"
    using assms by (simp_all add: fail_exchange_def)
  note f = finish_ended [OF disjI2 [OF refl] i']
  have "goes_on i ?j" by (intro goes_on_inflight) (simp add: flow_ident_def)
  from goes_on_ended [OF this f(1)] show "ended i i'" .
  show "answered env off w' en i'" using f(2,4) by (simp add: answered_def en on_inflight_def Let_def)
qed

lemma write_response_ended:
  assumes "fl_status (if_flow i) = rp_status resp" "fl_resp_headers (if_flow i) = rp_header resp" "captures (if_resp i) []"
    and "write_response env run w meth resp trailer i = (en, i')"
  shows "ended i i'" "answered env (cp_off (if_resp i)) w en i'"
proof -
  let ?i1 = "emit_updated (on_inflight (\<lambda>f. f\<lparr>fl_t := (fl_t f)\<lparr>t_headers_sent := xr_headers_at run\<rparr>\<rparr>) i)"
  define copy where "copy = (if has_no_body meth (rp_status resp) then ([], None, if_resp ?i1, if_budget ?i1)
     else copy_stream (xr_chunks run (body_data (rp_body resp))) (body_error_of (rp_body resp)) (xr_gone run) (if_resp ?i1) (if_budget ?i1))"
  obtain out err c b where cp: "copy = (out, err, c, b)" by (metis prod_cases4)
  define i2 where "i2 = on_inflight (\<lambda>f. if trailer \<noteq> [] then f\<lparr>fl_trailers := trailer\<rparr> else f) (?i1\<lparr>if_resp := c, if_budget := b\<rparr>)"
  define h where "h = (let h1 = strip_hop False (merge_header (rp_header resp) w) in
      if trailer \<noteq> [] then header_set ''Trailer'' (str_join '', '' (List.map fst trailer)) h1 else h1)"
  have same: "if_resp ?i1 = if_resp i" "if_budget ?i1 = if_budget i" by (simp_all add: emit_updated_def on_inflight_def)
  have b: "b = charged (if_budget ?i1) (cp_reserved c - cp_reserved (if_resp ?i1))"
    using cp copy_stream_charges by (auto simp: copy_def split: if_splits)
  have "goes_on i ?i1"
    by (rule goes_on_trans [OF goes_on_inflight goes_on_updated]) (simp add: flow_ident_def)
  also note goes_on_resp [OF b]
  also have "goes_on (?i1\<lparr>if_resp := c, if_budget := b\<rparr>) i2"
    unfolding i2_def by (rule goes_on_inflight) (simp add: flow_ident_def)
  finally have go: "goes_on i i2" .
  obtain extra where cap: "captures c (out @ extra)" "cp_off c = cp_off (if_resp i)" "err = None \<longrightarrow> extra = []"
  proof (cases "has_no_body meth (rp_status resp)")
    case True
    with cp same have "c = if_resp i" "out = []" by (simp_all add: copy_def)
    with that [of "[]"] assms(3) show ?thesis by simp
  next
    case False
    with cp same have "copy_stream (xr_chunks run (body_data (rp_body resp))) (body_error_of (rp_body resp)) (xr_gone run)
        (if_resp i) (if_budget i) = (out, err, c, b)" by (simp add: copy_def)
    from copy_stream_captures [OF this assms(3)] that show ?thesis by auto
  qed
  have i2: "if_resp i2 = c" "fl_status (if_flow i2) = rp_status resp" "fl_resp_headers (if_flow i2) = rp_header resp"
    using assms(1,2) by (simp_all add: i2_def on_inflight_def emit_updated_def)
  have en: "en = Answered (rp_status resp) h out trailer (is_streamy resp)"
    and fin: "case err of None \<Rightarrow> finish_inflight env (xr_end run) StateDone i2 = i'
      | Some e \<Rightarrow> finish_inflight env (xr_end run) StateFailed (on_inflight (\<lambda>f. f\<lparr>fl_error :=
                   (if xe_canceled env e \<or> is_client_gone env e then ''client disconnected'' else ''body: '' @ e)\<rparr>) i2) = i'"
    using assms(4) cp unfolding write_response_def copy_def [symmetric] h_def i2_def
    by (auto simp: Let_def copy_def [symmetric] split: option.splits)
  have "ended i i' \<and> answered env (cp_off (if_resp i)) w en i'"
  proof (cases err)
    case None
    with fin have f: "finish_inflight env (xr_end run) StateDone i2 = i'" by simp
    note fe = finish_ended [OF disjI1 [OF refl] f]
    have "captures (if_resp i2) out" using cap None i2 by simp
    from fe(5) [OF this] fe(2,3) cap(2) i2 have "answered env (cp_off (if_resp i)) w en i'"
      by (auto simp: answered_def en Let_def h_def)
    with goes_on_ended [OF go fe(1)] show ?thesis by blast
  next
    case (Some e)
    let ?g = "\<lambda>f. f\<lparr>fl_error := (if xe_canceled env e \<or> is_client_gone env e then ''client disconnected'' else ''body: '' @ e)\<rparr>"
    from Some fin have f: "finish_inflight env (xr_end run) StateFailed (on_inflight ?g i2) = i'" by simp
    note fe = finish_ended [OF disjI2 [OF refl] f]
    have "goes_on i2 (on_inflight ?g i2)" by (rule goes_on_inflight) (simp add: flow_ident_def)
    from goes_on_ended [OF goes_on_trans [OF go this] fe(1)] have "ended i i'" .
    moreover have "answered env (cp_off (if_resp i)) w en i'"
      using fe(2,4) i2 by (simp add: answered_def en Let_def on_inflight_def)
    ultimately show ?thesis by blast
  qed
  then show "ended i i'" "answered env (cp_off (if_resp i)) w en i'" by blast+
qed

lemma decision_ended:
  assumes "captures (if_resp i) []" "apply_decision env run w meth d i = (en, i')"
  shows "ended i i'" "answered env (cp_off (if_resp i)) w en i'"
proof -
  have blocked: "ended i i' \<and> answered env off w en i'"
    if "(en, i') = (Aborted, finish_inflight env (xr_end run) StateFailed (on_inflight (\<lambda>f. f\<lparr>fl_error := tx\<rparr>) i))" for off tx
  proof -
    have f: "finish_inflight env (xr_end run) StateFailed (on_inflight (\<lambda>f. f\<lparr>fl_error := tx\<rparr>) i) = i'" using that by simp
    have "goes_on i (on_inflight (\<lambda>f. f\<lparr>fl_error := tx\<rparr>) i)" by (rule goes_on_inflight) (simp add: flow_ident_def)
    from goes_on_ended [OF this finish_ended(1) [OF disjI2 [OF refl] f]] finish_ended(4) [OF disjI2 [OF refl] f] that
    show ?thesis by (simp add: answered_def)
  qed
  have "ended i i' \<and> answered env (cp_off (if_resp i)) w en i'"
  proof (cases d)
    case (MockWith m)
    let ?g = "\<lambda>f. f\<lparr>fl_status := rp_status m, fl_resp_headers := rp_header m,
               fl_resp_body := (fl_resp_body f)\<lparr>br_mime := media_type (header_get (rp_header m) ''Content-Type'')\<rparr>,
               fl_t := (fl_t f)\<lparr>t_first_byte := xr_headers_at run\<rparr>\<rparr>"
    have go: "goes_on i (on_inflight ?g i)" by (rule goes_on_inflight) (simp add: flow_ident_def)
    have "write_response env run w meth m [] (on_inflight ?g i) = (en, i')"
      using assms(2) MockWith by (simp add: apply_decision_def)
    from write_response_ended [OF _ _ _ this] assms(1)
    have "ended (on_inflight ?g i) i'" "answered env (cp_off (if_resp i)) w en i'" by (simp_all add: on_inflight_def)
    with goes_on_ended [OF go] show ?thesis by blast
  next
    case BlockReset
    show ?thesis by (rule blocked [where tx = "''blocked: connection reset''"]) (use assms(2) BlockReset in \<open>simp add: apply_decision_def\<close>)
  next
    case (BlockTimeout n)
    show ?thesis by (rule blocked [where tx = "''blocked: timeout''"]) (use assms(2) BlockTimeout in \<open>simp add: apply_decision_def\<close>)
  qed
  then show "ended i i'" "answered env (cp_off (if_resp i)) w en i'" by blast+
qed

text \<open>What the handler has set on the answer before it is written: the flow id of a replay.\<close>

definition started_header :: "exchange_run \<Rightarrow> request \<Rightarrow> string \<Rightarrow> string \<Rightarrow> header" where
  "started_header run r scheme hostport =
     (if header_get (strip_hop False (rq_header r)) replay_header = [] then []
      else header_set flow_id_header (short (xr_id run)) [])"

lemma control_parts:
  assumes "control_headers out f = (out1, f1, w, skip)"
  shows "fl_id f1 = fl_id f"
    and "w = (if header_get (rq_header out) replay_header = [] then [] else header_set flow_id_header (short (fl_id f)) [])"
  using assms by (auto simp: control_headers_def take_control_def Let_def split: if_splits option.splits)

section \<open>The hooks as an interface\<close>

text \<open>All an exchange relies on: the hooks do not change which flow this is.\<close>

locale hook_laws =
  fixes on_request on_response :: "exchange \<Rightarrow> decision option \<times> exchange"
  assumes request_ident: "ident (snd (on_request x)) = ident x"
    and response_ident: "ident (snd (on_response x)) = ident x"
begin

abbreviation hooks :: exchange_hooks where
  "hooks \<equiv> \<lparr>hk_request = on_request, hk_response = on_response\<rparr>"

lemma answer_ended:
  assumes "captures (if_resp i) []" "hks = None \<or> hks = Some hooks"
    and "answer_exchange env run hks w meth out i = (en, i')"
  shows "ended i i' \<and> answered env (cp_off (if_resp i)) w en i'"
proof -
  let ?i1 = "on_inflight (apply_trace (xr_trace run)) i"
  have go1: "goes_on i ?i1" by (rule goes_on_inflight) (simp add: apply_trace_def flow_ident_def Let_def)
  have r1: "if_resp ?i1 = if_resp i" by (simp add: on_inflight_def)
  show ?thesis
  proof (cases "xr_transport run out")
    case (Inl e)
    let ?i2 = "on_inflight (\<lambda>f. f\<lparr>fl_error := upstream_error env e\<rparr>) ?i1"
    have "goes_on ?i1 ?i2" by (rule goes_on_inflight) (simp add: flow_ident_def)
    with go1 have go: "goes_on i ?i2" by (rule goes_on_trans)
    have "fail_exchange env run w (upstream_status env e) (''pano: '' @ upstream_error env e) ?i2 = (en, i')"
      using assms(3) Inl by (simp add: answer_exchange_def Let_def)
    from fail_ended [OF this] goes_on_ended [OF go] show ?thesis by blast
  next
    case (Inr rtp)
    obtain resp trailer proto where rtp: "rtp = (resp, trailer, proto)" by (cases rtp) auto
    let ?i2 = "on_inflight (response_meta proto resp) ?i1"
    have "goes_on ?i1 ?i2" by (rule goes_on_inflight) (simp add: response_meta_def flow_ident_def)
    with go1 have go2: "goes_on i ?i2" by (rule goes_on_trans)
    have r2: "if_resp ?i2 = if_resp i" "fl_status (if_flow ?i2) = rp_status resp" "fl_resp_headers (if_flow ?i2) = rp_header resp"
      by (simp_all add: on_inflight_def response_meta_def)
    show ?thesis
    proof (cases hks)
      case None
      have "write_response env run w meth resp trailer ?i2 = (en, i')"
        using assms(3) Inr rtp None by (simp add: answer_exchange_def Let_def)
      from write_response_ended [OF r2(2,3) _ this] assms(1) r2(1) goes_on_ended [OF go2] show ?thesis by simp
    next
      case (Some hk)
      with assms(2) have hk: "hk = hooks" by simp
      let ?x0 = "\<lparr>x_flow = if_flow ?i2, x_req = out, x_resp = Some resp, x_mirrored = ph_both\<rparr>"
      obtain d x where h: "on_response ?x0 = (d, x)" by (cases "on_response ?x0") auto
      let ?i3 = "?i2\<lparr>if_flow := x_flow x\<rparr>"
      have "ident x = flow_ident (if_flow ?i2)" using response_ident [of ?x0] h by simp
      then have "goes_on ?i2 ?i3" by (rule goes_on_flow)
      with go2 have go3: "goes_on i ?i3" by (rule goes_on_trans)
      show ?thesis
      proof (cases d)
        case (Some dd)
        have "apply_decision env run w meth dd ?i3 = (en, i')"
          using assms(3) Inr rtp \<open>hks = Some hk\<close> hk h Some by (simp add: answer_exchange_def Let_def)
        from decision_ended [OF _ this] assms(1) r2(1) goes_on_ended [OF go3] show ?thesis by simp
      next
        case None
        define resp' where "resp' = (case x_resp x of Some q \<Rightarrow> q | None \<Rightarrow> resp)"
        let ?g = "\<lambda>f. f\<lparr>fl_status := rp_status resp', fl_resp_headers := rp_header resp'\<rparr>"
        have "goes_on ?i3 (on_inflight ?g ?i3)" by (rule goes_on_inflight) (simp add: flow_ident_def)
        with go3 have go4: "goes_on i (on_inflight ?g ?i3)" by (rule goes_on_trans)
        have wr: "write_response env run w meth resp' trailer (on_inflight ?g ?i3) = (en, i')"
          using assms(3) Inr rtp \<open>hks = Some hk\<close> hk h None by (simp add: answer_exchange_def Let_def resp'_def)
        have "if_resp (on_inflight ?g ?i3) = if_resp i" "fl_status (if_flow (on_inflight ?g ?i3)) = rp_status resp'"
          "fl_resp_headers (if_flow (on_inflight ?g ?i3)) = rp_header resp'" by (simp_all add: on_inflight_def)
        with write_response_ended [OF _ _ _ wr] assms(1) goes_on_ended [OF go4] show ?thesis by simp
      qed
    qed
  qed
qed

lemma forward_ended:
  assumes "captures (if_resp i) []" "hks = None \<or> hks = Some hooks"
    and "forward_exchange env run hks sv w meth out i = (sent, en, i')"
  shows "ended i i' \<and> answered env (cp_off (if_resp i)) w en i' \<and> (\<forall>q. sent = Some q \<longrightarrow> \<not> is_self sv (u_host (rq_url q)))"
proof (cases "is_self sv (u_host (rq_url out))")
  case True
  with assms(3) have "fail_exchange env run w 403 refusal i = (en, i')" "sent = None" by (simp_all add: forward_exchange_def)
  with fail_ended show ?thesis by blast
next
  case False
  with assms(3) have "answer_exchange env run hks w meth out i = (en, i')" "sent = Some out" by (simp_all add: forward_exchange_def)
  with answer_ended [OF assms(1,2)] False show ?thesis by blast
qed

text \<open>The whole exchange: it starts, and from there \<open>ended\<close> and \<open>answered\<close> hold of what it leaves.\<close>

lemma handle_ended:
  assumes "hks = None \<or> hks = Some hooks" and "handle_exchange env run hks sv b r scheme hostport = (sent, en, i')"
  shows "\<exists>i f0. ended i i' \<and> answered env (\<not> sv_capturing sv) (started_header run r scheme hostport) en i'
     \<and> if_events i = [SStarted f0] \<and> flow_ident f0 = flow_ident (if_flow i) \<and> fl_id f0 = xr_id run
     \<and> charged (if_budget i) (- held i) = b
     \<and> (\<forall>q. sent = Some q \<longrightarrow> \<not> is_self sv (u_host (rq_url q)))"
proof -
  define i0 where "i0 = new_inflight env run (sv_capturing sv) b r scheme hostport"
  obtain out1 f1 w skip where ctl: "control_headers (outbound False r scheme hostport) (if_flow i0) = (out1, f1, w, skip)"
    by (metis prod_cases4)
  define out where "out = request_body r out1"
  define i1 where "i1 = emit_started (i0\<lparr>if_flow := request_meta r f1\<rparr>)"
  define i2 where "i2 = tee_request run r i1"
  have "fl_id (if_flow i0) = xr_id run" by (simp add: i0_def new_inflight_def new_flow_def Let_def)
  then have f1: "fl_id f1 = fl_id (if_flow i0)" "w = started_header run r scheme hostport"
    using control_parts [OF ctl] by (simp_all add: started_header_def outbound_def)
  have id: "fl_id (request_meta r f1) = xr_id run"
    by (simp add: request_meta_def f1 i0_def new_inflight_def new_flow_def Let_def)
  have start: "if_events i2 = [SStarted (request_meta r f1)]" "if_flow i2 = request_meta r f1"
    by (simp_all add: i2_def i1_def tee_request_def emit_started_def i0_def new_inflight_def Let_def split: prod.split)
  have resp: "captures (if_resp i2) []" "cp_off (if_resp i2) = (\<not> sv_capturing sv)"
    using captures_new [of "xe_max_body env" "\<not> sv_capturing sv"]
    by (simp_all add: i2_def i1_def tee_request_def emit_started_def i0_def new_inflight_def Let_def new_capture_def split: prod.split)
  have z: "held i1 = 0" "if_budget i1 = b"
    by (simp_all add: i1_def emit_started_def i0_def new_inflight_def new_capture_def held_def Let_def)
  have "goes_on i1 i2"
    by (auto simp: i2_def tee_request_def Let_def dest!: tee_reads_charges intro!: goes_on_req split: prod.split)
  then have budget: "charged (if_budget i2) (- held i2) = b"
    using z by (simp add: goes_on_def)
  have fin: ?thesis if "ended i2 i'" "answered env (cp_off (if_resp i2)) w en i'" "\<forall>q. sent = Some q \<longrightarrow> \<not> is_self sv (u_host (rq_url q))"
    using that start id budget resp(2) f1(2) by (intro exI [of _ i2] exI [of _ "request_meta r f1"]) simp
  define hks' where "hks' = (if skip then None else hks)"
  have handle: "(sent, en, i') = (case hks' of
        None \<Rightarrow> forward_exchange env run None sv w (rq_method r) out i2
      | Some hk \<Rightarrow>
          (let (d, x) = hk_request hk \<lparr>x_flow = if_flow i2, x_req = out, x_resp = None, x_mirrored = ph_request\<rparr>;
               i3 = i2\<lparr>if_flow := x_flow x\<rparr> in
           case d of
             Some d \<Rightarrow> (None, apply_decision env run w (rq_method r) d i3)
           | None \<Rightarrow>
               (let host = u_host (rq_url (x_req x));
                    i4 = (if host \<noteq> hostport
                          then on_inflight (\<lambda>f. f\<lparr>fl_host := fst (split_host_port_or host (default_port scheme)),
                                 fl_port := snd (split_host_port_or host (default_port scheme))\<rparr>) i3
                          else i3)
                in forward_exchange env run (Some hk) sv w (rq_method r) (x_req x) i4)))"
    using assms(2) unfolding handle_exchange_def i0_def [symmetric] Let_def ctl prod.case i1_def [symmetric]
      out_def [symmetric] i2_def [symmetric] hks'_def [symmetric] by (rule sym)
  show ?thesis
  proof (cases hks')
    case None
    with handle have "forward_exchange env run None sv w (rq_method r) out i2 = (sent, en, i')" by simp
    from forward_ended [OF resp(1) _ this] fin show ?thesis by blast
  next
    case (Some hk)
    then have hk: "hk = hooks" using assms(1) by (auto simp: hks'_def split: if_splits)
    let ?x0 = "\<lparr>x_flow = if_flow i2, x_req = out, x_resp = None, x_mirrored = ph_request\<rparr>"
    obtain d x where h: "on_request ?x0 = (d, x)" by (cases "on_request ?x0") auto
    let ?i3 = "i2\<lparr>if_flow := x_flow x\<rparr>"
    have "ident x = flow_ident (if_flow i2)" using request_ident [of ?x0] h by simp
    then have go3: "goes_on i2 ?i3" by (rule goes_on_flow)
    show ?thesis
    proof (cases d)
      case (Some dd)
      with handle \<open>hks' = Some hk\<close> hk h have "apply_decision env run w (rq_method r) dd ?i3 = (en, i')" "sent = None"
        by (simp_all add: Let_def)
      from decision_ended [OF _ this(1)] resp(1) goes_on_ended [OF go3] this(2) show ?thesis by (intro fin) simp_all
    next
      case None
      define i4 where "i4 = (if u_host (rq_url (x_req x)) \<noteq> hostport
          then on_inflight (\<lambda>f. f\<lparr>fl_host := fst (split_host_port_or (u_host (rq_url (x_req x))) (default_port scheme)),
                 fl_port := snd (split_host_port_or (u_host (rq_url (x_req x))) (default_port scheme))\<rparr>) ?i3 else ?i3)"
      have "goes_on ?i3 i4" unfolding i4_def by (auto intro!: goes_on_inflight simp: flow_ident_def)
      with go3 have go4: "goes_on i2 i4" by (rule goes_on_trans)
      have r4: "if_resp i4 = if_resp i2" by (simp add: i4_def on_inflight_def)
      from handle \<open>hks' = Some hk\<close> hk h None
      have "forward_exchange env run (Some hooks) sv w (rq_method r) (x_req x) i4 = (sent, en, i')"
        by (simp add: Let_def i4_def)
      from forward_ended [OF _ _ this] resp(1) r4 goes_on_ended [OF go4] show ?thesis by (intro fin) simp_all
    qed
  qed
qed

end

section \<open>The rule engine provides the hooks\<close>

definition rule_request ::
  "rule_lib \<Rightarrow> (body_error \<Rightarrow> string) \<Rightarrow> gotime \<Rightarrow> (nat \<Rightarrow> rat) \<Rightarrow> (nat \<Rightarrow> nat \<Rightarrow> action_input) \<Rightarrow> engine \<Rightarrow> exchange
     \<Rightarrow> decision option \<times> exchange" where
  "rule_request lib etxt now draw inp e x = (let (d, e', x') = request_hook lib etxt now draw inp e x in (d, x'))"

definition rule_response ::
  "rule_lib \<Rightarrow> (body_error \<Rightarrow> string) \<Rightarrow> gotime \<Rightarrow> (nat \<Rightarrow> rat) \<Rightarrow> (nat \<Rightarrow> nat \<Rightarrow> action_input) \<Rightarrow> engine \<Rightarrow> exchange
     \<Rightarrow> decision option \<times> exchange" where
  "rule_response lib etxt now draw inp e x = (let (d, e', x') = response_hook lib etxt now draw inp e x in (d, x'))"

interpretation rules: hook_laws "rule_request lib etxt now draw inp e" "rule_response lib etxt now' draw' inp' e'"
  for lib etxt now draw inp e now' draw' inp' e'
proof
  fix x :: exchange
  show "ident (snd (rule_request lib etxt now draw inp e x)) = ident x"
    using ident_run_rules by (auto simp: rule_request_def request_hook_def split: prod.split)
  show "ident (snd (rule_response lib etxt now' draw' inp' e' x)) = ident x"
    using ident_run_rules by (auto simp: rule_response_def response_hook_def split: prod.split)
qed

section \<open>Properties\<close>

text \<open>Forwarding drops exactly the hop-by-hop headers: those of the fixed list and those the Connection
  header names, a WebSocket handshake keeping Connection and Upgrade and a TE of trailers staying; any
  other header keeps all its values.\<close>

theorem hop_headers_stripped:
  "header_values (strip_hop ws h) k = (if hop_dropped ws h (canonical_key k) then [] else header_values h k)"
  by (rule strip_hop_values)




section \<open>Samples\<close>

definition sample_env :: exchange_env where
  "sample_env = \<lparr>xe_max_body = 4, xe_blob = (\<lambda>b. b), xe_timeout = (\<lambda>_. False), xe_deadline = (\<lambda>_. False),
     xe_canceled = (\<lambda>_. False), xe_closed = (\<lambda>_. False)\<rparr>"

definition sample_response :: response where
  "sample_response = \<lparr>rp_status = 200, rp_status_line = ''200 OK'', rp_header = [(''Connection'', [''close''])],
     rp_body = Body ''abc'' None, rp_length = 3, rp_te = []\<rparr>"

definition sample_run :: exchange_run where
  "sample_run = \<lparr>xr_id = 7, xr_session = ''s'', xr_client = ''10.0.0.7:1'', xr_proto = ''HTTP/1.1'', xr_start = 1, xr_headers_at = 3,
     xr_end = 4, xr_trace = \<lparr>tt_dns = 1, tt_conn = 1, tt_tls = 1, tt_wrote = 2, tt_first = 2, tt_proto = [], tt_reused = False\<rparr>,
     xr_req_read = [], xr_transport = (\<lambda>_. Inr (sample_response, [], ''HTTP/1.1'')), xr_chunks = (\<lambda>d. [d]), xr_gone = None\<rparr>"

definition sample_request :: request where
  "sample_request = \<lparr>rq_method = ''GET'', rq_url = \<lparr>u_scheme = ''http'', u_host = ''a.com'', u_path = ''/'', u_raw_path = [], u_raw_query = []\<rparr>,
     rq_host = ''a.com'', rq_header = [], rq_body = NoBody, rq_length = 0, rq_te = []\<rparr>"

definition sample_server :: server where
  "sample_server = new_server 9091 0 True False \<lparr>dp_mode = mode_all, dp_only = [], dp_never = []\<rparr>"

text \<open>With an empty rule set the hooks pass everything.\<close>

definition no_rules :: engine where
  "no_rules = new_engine sample_lib 9 False 0 []"

abbreviation no_rule_hooks :: exchange_hooks where
  "no_rule_hooks \<equiv> \<lparr>hk_request = rule_request sample_lib (\<lambda>_. []) 9 (\<lambda>_. 0) (\<lambda>_ _. undefined) no_rules,
     hk_response = rule_response sample_lib (\<lambda>_. []) 9 (\<lambda>_. 0) (\<lambda>_ _. undefined) no_rules\<rparr>"

lemma no_rule_hooks:
  "rule_request lib etxt now draw inp no_rules x = (None, x)" "rule_response lib etxt now draw inp no_rules x = (None, x)"
  by (simp_all add: rule_request_def rule_response_def request_hook_def response_hook_def no_rules_def new_engine_def
      rebuild_def Let_def sort_func_def)

lemma sample_handle:
  assumes "hks = None \<or> hks = Some no_rule_hooks"
  shows "\<exists>q i. handle_exchange sample_env sample_run hks sample_server b sample_request ''http'' ''a.com''
    = (Some q, Answered 200 [] ''abc'' [] False, i)"
proof -
  have s: "strip_hop False [] = []" "strip_hop False (merge_header (rp_header sample_response) []) = []"
    "\<not> is_streamy sample_response" by code_simp+
  have self: "\<not> is_self sample_server ''a.com''" by code_simp
  define out where "out = request_body sample_request (outbound False sample_request ''http'' ''a.com'')"
  have o: "u_host (rq_url out) = ''a.com''"
    by (simp add: out_def request_body_def outbound_def sample_request_def)
  have ctl: "control_headers (outbound False sample_request ''http'' ''a.com'') f = (outbound False sample_request ''http'' ''a.com'', f, [], False)" for f
    by (simp add: control_headers_def outbound_def sample_request_def s header_get_def header_values_def)
  have tee: "tee_request sample_run sample_request i = i" for i by (simp add: tee_request_def sample_request_def)
  have w: "\<exists>i'. write_response sample_env sample_run [] (rq_method sample_request) sample_response [] i
      = (Answered 200 [] ''abc'' [] False, i')" for i
  proof -
    have "xr_chunks sample_run d = [d]" "xr_gone sample_run = None" "body_data (rp_body sample_response) = ''abc''"
      "body_error_of (rp_body sample_response) = None" "rp_status sample_response = 200"
      "has_no_body (rq_method sample_request) 200 = False" for d
      by (simp_all add: sample_run_def sample_response_def has_no_body_def sample_request_def)
    then show ?thesis
      unfolding write_response_def using s(2,3) by (simp add: Let_def split: prod.split)
  qed
  have tr: "xr_transport sample_run q = Inr (sample_response, [], ''HTTP/1.1'')" for q by (simp add: sample_run_def)
  have "\<exists>i'. answer_exchange sample_env sample_run hks [] (rq_method sample_request) out i = (Answered 200 [] ''abc'' [] False, i')" for i
    using assms w by (auto simp: answer_exchange_def tr Let_def no_rule_hooks split: option.split)
  then have f: "\<exists>i'. forward_exchange sample_env sample_run hks sample_server [] (rq_method sample_request) out i
      = (Some out, Answered 200 [] ''abc'' [] False, i')" for i
    using self o by (simp add: forward_exchange_def)
  show ?thesis
    by (rule exI [of _ out])
      (use assms f o in \<open>auto simp: handle_exchange_def Let_def ctl tee out_def [symmetric] no_rule_hooks\<close>)
qed




end
