(* ===== verification/Proxy_Frames.thy ===== *)
theory Proxy_Frames
  imports Prelude
begin

text \<open>
  The incremental WebSocket frame parser of \<open>internal/proxy/websocket.go\<close>, which sees the copied bytes
  in whatever pieces the network delivers. What it emits is the list \<open>fp_out\<close>; flow id, direction
  and time are added to each message and are the same for all.
\<close>

unbundle bit_operations_syntax

type_synonym byte = "8 word"

section \<open>The parser\<close>

record emitted =
  em_seq :: int
  em_op :: nat
  em_payload :: "byte list"
  em_len :: int
  em_masked :: bool

record frame_parser =
  fp_limit :: int
  fp_buf :: "byte list"
  fp_seq :: int
  fp_op :: nat
  fp_msg :: "byte list"
  fp_len :: int
  fp_trun :: bool
  fp_out :: "emitted list"

definition new_parser :: "int \<Rightarrow> frame_parser" where
  "new_parser limit = \<lparr>fp_limit = limit, fp_buf = [], fp_seq = 0, fp_op = 0, fp_msg = [], fp_len = 0, fp_trun = False, fp_out = []\<rparr>"

definition big_endian :: "byte list \<Rightarrow> nat" where
  "big_endian bs = foldl (\<lambda>v b. 256 * v + unat b) 0 bs"

definition emit :: "nat \<Rightarrow> byte list \<Rightarrow> int \<Rightarrow> bool \<Rightarrow> frame_parser \<Rightarrow> frame_parser" where
  "emit op payload len masked p =
     p\<lparr>fp_seq := fp_seq p + 1,
       fp_out := fp_out p @ [\<lparr>em_seq = fp_seq p + 1, em_op = op, em_payload = payload, em_len = len, em_masked = masked\<rparr>]\<rparr>"

definition append_payload :: "byte list \<Rightarrow> frame_parser \<Rightarrow> frame_parser" where
  "append_payload payload p =
     (let p1 = p\<lparr>fp_len := fp_len p + int (length payload)\<rparr>; room = fp_limit p - int (length (fp_msg p)) in
      if room \<le> 0 then p1\<lparr>fp_trun := True\<rparr>
      else if room < int (length payload)
           then p1\<lparr>fp_msg := fp_msg p @ take (nat room) payload, fp_trun := True\<rparr>
           else p1\<lparr>fp_msg := fp_msg p @ payload\<rparr>)"

definition reset_msg :: "frame_parser \<Rightarrow> frame_parser" where
  "reset_msg p = p\<lparr>fp_msg := [], fp_len := 0, fp_trun := False\<rparr>"

text \<open>What a complete frame does: control frames, continuations, text and binary.\<close>

definition take_frame :: "bool \<Rightarrow> nat \<Rightarrow> bool \<Rightarrow> byte list \<Rightarrow> frame_parser \<Rightarrow> frame_parser" where
  "take_frame fin op masked payload p =
     (if op = 8 \<or> op = 9 \<or> op = 10 then emit op payload (int (length payload)) masked p
      else if op = 0 then
        (let q = append_payload payload p
         in if fin then reset_msg (emit (fp_op q) (fp_msg q) (fp_len q) masked q) else q)
      else
        (let q = append_payload payload (reset_msg (p\<lparr>fp_op := op\<rparr>))
         in if fin then reset_msg (emit op (fp_msg q) (fp_len q) masked q) else q))"

text \<open>The length field: \<open>plen\<close> as the code's \<open>int64\<close> and the offset behind it; \<open>None\<close> when it is incomplete.\<close>

definition frame_length :: "byte list \<Rightarrow> (int \<times> nat) option" where
  "frame_length b =
     (let l = unat (b ! 1 AND 0x7F) in
      if l = 126 then (if length b < 4 then None else Some (int (big_endian (take 2 (drop 2 b))), 4))
      else if l = 127 then (if length b < 10 then None else Some (wrap_int (int (big_endian (take 8 (drop 2 b)))), 10))
      else Some (int l, 2))"

definition unmask :: "byte list \<Rightarrow> byte list \<Rightarrow> byte list" where
  "unmask key payload = List.map (\<lambda>i. payload ! i XOR key ! (i mod 4)) [0..<length payload]"

definition max_frame :: int where
  "max_frame = 2 ^ 31"

definition parse_one :: "frame_parser \<Rightarrow> nat option \<times> frame_parser" where
  "parse_one p =
     (let b = fp_buf p in
      if length b < 2 then (None, p)
      else
        (let fin = (b ! 0 AND 0x80 \<noteq> 0); op = unat (b ! 0 AND 0x0F); masked = (b ! 1 AND 0x80 \<noteq> 0) in
         case frame_length b of
           None \<Rightarrow> (None, p)
         | Some (plen, off) \<Rightarrow>
             if plen < 0 \<or> max_frame < plen then (None, p\<lparr>fp_buf := []\<rparr>)
             else if masked \<and> length b < off + 4 then (None, p)
             else
               (let key = take 4 (drop off b); off = (if masked then off + 4 else off) in
                if int (length b) < int off + plen
                then (None, if fp_limit p < plen then p\<lparr>fp_trun := True\<rparr> else p)
                else
                  (let raw = take (nat plen) (drop off b); payload = (if masked then unmask key raw else raw)
                   in (Some (off + nat plen), take_frame fin op masked payload p)))))"

lemma take_frame_buf [simp]: "fp_buf (take_frame fin op masked payload p) = fp_buf p"
  by (simp add: take_frame_def emit_def reset_msg_def append_payload_def Let_def)

lemma parse_one_consumes:
  assumes "parse_one p = (Some n, q)"
  shows "2 \<le> n" "n \<le> length (fp_buf p)" "fp_buf q = fp_buf p"
proof -
  have off: "2 \<le> off" if "frame_length b = Some (plen, off)" for b plen off
    using that by (auto simp: frame_length_def Let_def split: if_splits)
  show "2 \<le> n" "n \<le> length (fp_buf p)" "fp_buf q = fp_buf p"
    using assms off by (auto simp: parse_one_def Let_def split: if_splits option.splits prod.splits) fastforce+
qed

text \<open>The loop of \<open>Write\<close>.\<close>

function parse_loop :: "frame_parser \<Rightarrow> frame_parser" where
  "parse_loop p =
     (case parse_one p of (None, q) \<Rightarrow> q | (Some n, q) \<Rightarrow> parse_loop (q\<lparr>fp_buf := drop n (fp_buf q)\<rparr>))"
  by pat_completeness auto
termination
proof (relation "measure (\<lambda>p. length (fp_buf p))", goal_cases)
  case (2 p on q n)
  then have "parse_one p = (Some n, q)" by simp
  from parse_one_consumes [OF this] show ?case by simp
qed simp

declare parse_loop.simps [simp del]

definition write_bytes :: "byte list \<Rightarrow> frame_parser \<Rightarrow> frame_parser" where
  "write_bytes bs p = parse_loop (p\<lparr>fp_buf := fp_buf p @ bs\<rparr>)"

section \<open>Encoding frames\<close>

record frame =
  fr_fin :: bool
  fr_op :: nat
  fr_key :: "byte list option"
  fr_payload :: "byte list"

fun be_bytes :: "nat \<Rightarrow> nat \<Rightarrow> byte list" where
  "be_bytes 0 n = []"
| "be_bytes (Suc k) n = be_bytes k (n div 256) @ [of_nat (n mod 256)]"

definition encode_length :: "nat \<Rightarrow> nat \<times> byte list" where
  "encode_length n = (if n < 126 then (n, []) else if n < 2 ^ 16 then (126, be_bytes 2 n) else (127, be_bytes 8 n))"

definition key_bytes :: "frame \<Rightarrow> byte list" where
  "key_bytes f = (case fr_key f of None \<Rightarrow> [] | Some k \<Rightarrow> k)"

definition wire_payload :: "frame \<Rightarrow> byte list" where
  "wire_payload f = (case fr_key f of None \<Rightarrow> fr_payload f | Some k \<Rightarrow> unmask k (fr_payload f))"

text \<open>RFC 6455, section 5.2, with the shortest length form.\<close>

definition encode_frame :: "frame \<Rightarrow> byte list" where
  "encode_frame f =
     (let (l, ext) = encode_length (length (fr_payload f)) in
      [of_nat (fr_op f + (if fr_fin f then 128 else 0)), of_nat (l + (if fr_key f \<noteq> None then 128 else 0))]
        @ ext @ key_bytes f @ wire_payload f)"

definition frame_ok :: "frame \<Rightarrow> bool" where
  "frame_ok f = (fr_op f < 16 \<and> length (fr_payload f) \<le> 2 ^ 31 \<and> (\<forall>k. fr_key f = Some k \<longrightarrow> length k = 4))"

lemma length_be_bytes [simp]: "length (be_bytes k n) = k"
  by (induction k arbitrary: n) simp_all

lemma big_endian_snoc: "big_endian (bs @ [b]) = 256 * big_endian bs + unat b"
  by (simp add: big_endian_def)

lemma big_endian_be_bytes: "big_endian (be_bytes k n) = n mod 256 ^ k"
proof (induction k arbitrary: n)
  case (Suc k)
  have "unat (of_nat (n mod 256) :: byte) = n mod 256" by (simp add: unat_of_nat)
  then show ?case
    using Suc.IH [of "n div 256"] mod_mult2_eq [of n 256 "256 ^ k"] by (simp add: big_endian_snoc)
qed (simp add: big_endian_def)

lemma unmask_twice: "length key = 4 \<Longrightarrow> unmask key (unmask key xs) = xs"
  by (intro nth_equalityI) (simp_all add: unmask_def xor.assoc)

lemma length_unmask [simp]: "length (unmask key xs) = length xs"
  by (simp add: unmask_def)

lemma opcode_bits:
  assumes "n < 16"
  shows "(of_nat (n + (if fin then 128 else 0)) :: byte) AND 0x80 \<noteq> 0 \<longleftrightarrow> fin"
    and "unat ((of_nat (n + (if fin then 128 else 0)) :: byte) AND 0x0F) = n"
proof -
  have all: "\<forall>n \<in> set [0..<16]. \<forall>fin \<in> set [False, True]. ((of_nat (n + (if fin then 128 else 0)) :: byte) AND 0x80 \<noteq> 0) = fin
    \<and> unat ((of_nat (n + (if fin then 128 else 0)) :: byte) AND 0x0F) = n"
    by code_simp
  have "n \<in> set [0..<16]" "fin \<in> set [False, True]" using assms by auto
  with all show "(of_nat (n + (if fin then 128 else 0)) :: byte) AND 0x80 \<noteq> 0 \<longleftrightarrow> fin"
    "unat ((of_nat (n + (if fin then 128 else 0)) :: byte) AND 0x0F) = n" by blast+
qed

lemma length_bits:
  assumes "n < 128"
  shows "(of_nat (n + (if fin then 128 else 0)) :: byte) AND 0x80 \<noteq> 0 \<longleftrightarrow> fin"
    and "unat ((of_nat (n + (if fin then 128 else 0)) :: byte) AND 0x7F) = n"
proof -
  have all: "\<forall>n \<in> set [0..<128]. \<forall>fin \<in> set [False, True]. ((of_nat (n + (if fin then 128 else 0)) :: byte) AND 0x80 \<noteq> 0) = fin
    \<and> unat ((of_nat (n + (if fin then 128 else 0)) :: byte) AND 0x7F) = n"
    by code_simp
  have "n \<in> set [0..<128]" "fin \<in> set [False, True]" using assms by auto
  with all show "(of_nat (n + (if fin then 128 else 0)) :: byte) AND 0x80 \<noteq> 0 \<longleftrightarrow> fin"
    "unat ((of_nat (n + (if fin then 128 else 0)) :: byte) AND 0x7F) = n" by blast+
qed

section \<open>Parsing what was encoded\<close>

definition head_bytes :: "frame \<Rightarrow> byte list" where
  "head_bytes f =
     [of_nat (fr_op f + (if fr_fin f then 128 else 0)),
      of_nat (fst (encode_length (length (fr_payload f))) + (if fr_key f \<noteq> None then 128 else 0))]"

definition ext_bytes :: "frame \<Rightarrow> byte list" where
  "ext_bytes f = snd (encode_length (length (fr_payload f)))"

lemma encode_frame_parts: "encode_frame f = head_bytes f @ ext_bytes f @ key_bytes f @ wire_payload f"
  by (simp add: encode_frame_def head_bytes_def ext_bytes_def split: prod.split)

lemma frame_length_prefix:
  assumes "frame_ok f"
  shows "frame_length (head_bytes f @ c) =
    (if length c < length (ext_bytes f) then None
     else if take (length (ext_bytes f)) c = ext_bytes f then Some (int (length (fr_payload f)), 2 + length (ext_bytes f))
     else frame_length (head_bytes f @ c))"
proof -
  let ?n = "length (fr_payload f)" and ?l = "fst (encode_length (length (fr_payload f)))"
  have n: "?n \<le> 2 ^ 31" using assms by (simp add: frame_ok_def)
  have "?l < 128" by (simp add: encode_length_def)
  note bits = length_bits(2) [OF this, of "fr_key f \<noteq> None"]
  have l: "unat ((head_bytes f @ c) ! 1 AND 0x7F) = ?l" using bits by (simp add: head_bytes_def)
  have d: "drop 2 (head_bytes f @ c) = c" "length (head_bytes f @ c) = 2 + length c" by (simp_all add: head_bytes_def)
  have two: "?n < 2 ^ 16 \<Longrightarrow> big_endian (be_bytes 2 ?n) = ?n" by (simp add: big_endian_be_bytes)
  have "big_endian (be_bytes 8 ?n) = ?n" using n by (simp add: big_endian_be_bytes)
  then have eight: "wrap_int (int (big_endian (be_bytes 8 ?n))) = int ?n"
    using n by (simp add: wrap_int_def)
  show ?thesis
    unfolding frame_length_def l d Let_def
    using two eight by (auto simp: ext_bytes_def encode_length_def)
qed

lemma head_bits:
  assumes "frame_ok f"
  shows "(head_bytes f @ c) ! 0 AND 0x80 \<noteq> 0 \<longleftrightarrow> fr_fin f" "unat ((head_bytes f @ c) ! 0 AND 0x0F) = fr_op f"
    "(head_bytes f @ c) ! 1 AND 0x80 \<noteq> 0 \<longleftrightarrow> fr_key f \<noteq> None"
proof -
  have "fst (encode_length (length (fr_payload f))) < 128" by (simp add: encode_length_def)
  note len = length_bits(1) [OF this, of "fr_key f \<noteq> None"]
  have op: "fr_op f < 16" using assms by (simp add: frame_ok_def)
  show "(head_bytes f @ c) ! 0 AND 0x80 \<noteq> 0 \<longleftrightarrow> fr_fin f" "unat ((head_bytes f @ c) ! 0 AND 0x0F) = fr_op f"
    using opcode_bits [OF op, of "fr_fin f"] by (simp_all add: head_bytes_def)
  show "(head_bytes f @ c) ! 1 AND 0x80 \<noteq> 0 \<longleftrightarrow> fr_key f \<noteq> None" using len by (simp add: head_bytes_def)
qed

definition apply_frame :: "frame \<Rightarrow> frame_parser \<Rightarrow> frame_parser" where
  "apply_frame f p = take_frame (fr_fin f) (fr_op f) (fr_key f \<noteq> None) (fr_payload f) p"

lemma plen_ok: "frame_ok f \<Longrightarrow> \<not> max_frame < int (length (fr_payload f))"
  by (simp add: frame_ok_def max_frame_def)

lemma length_wire [simp]: "length (wire_payload f) = length (fr_payload f)"
  by (simp add: wire_payload_def split: option.split)

lemma length_key: "frame_ok f \<Longrightarrow> length (key_bytes f) = (if fr_key f \<noteq> None then 4 else 0)"
  by (auto simp: frame_ok_def key_bytes_def split: option.split)

lemma parse_one_frame:
  assumes "frame_ok f" "fp_buf p = encode_frame f @ rest"
  shows "parse_one p = (Some (length (encode_frame f)), apply_frame f p)"
proof -
  let ?e = "ext_bytes f" and ?c = "ext_bytes f @ key_bytes f @ wire_payload f @ rest"
  have b: "fp_buf p = head_bytes f @ ?c" using assms(2) by (simp add: encode_frame_parts)
  have two: "length (head_bytes f) = 2" by (simp add: head_bytes_def)
  have len: "frame_length (head_bytes f @ ?c) = Some (int (length (fr_payload f)), 2 + length ?e)"
    by (subst frame_length_prefix [OF assms(1)]) simp
  note k = length_key [OF assms(1)]
  have d1: "drop (2 + length ?e) (head_bytes f @ ?c) = key_bytes f @ wire_payload f @ rest" using two by simp
  have d2: "drop (2 + length ?e + length (key_bytes f)) (head_bytes f @ ?c) = wire_payload f @ rest"
    using two by (simp add: add.assoc)
  have pay: "(if fr_key f \<noteq> None then unmask (take 4 (key_bytes f @ wire_payload f @ rest)) (wire_payload f) else wire_payload f)
      = fr_payload f"
    using k assms(1) by (auto simp: wire_payload_def key_bytes_def frame_ok_def unmask_twice)
  show ?thesis
  proof (cases "fr_key f = None")
    case True
    with k have "key_bytes f = []" by simp
    with True d1 pay two show ?thesis
      unfolding parse_one_def Let_def b head_bits [OF assms(1)] len
      by (simp add: apply_frame_def plen_ok [OF assms(1)] encode_frame_parts)
  next
    case False
    with k have kl: "length (key_bytes f) = 4" by simp
    with False d1 d2 pay two show ?thesis
      unfolding parse_one_def Let_def b head_bits [OF assms(1)] len
      by (simp add: apply_frame_def plen_ok [OF assms(1)] encode_frame_parts)
  qed
qed

lemma same_trun [simp]: "\<exists>t. p = p\<lparr>fp_trun := t\<rparr>"
  by (rule exI [of _ "fp_trun p"]) simp

text \<open>A part of a frame waits for more, changing at most the truncation flag.\<close>

lemma parse_one_partial:
  assumes "frame_ok f" "encode_frame f = x @ y" "y \<noteq> []" "fp_buf p = x"
  shows "\<exists>t. parse_one p = (None, p\<lparr>fp_trun := t\<rparr>)"
proof (cases "length x < 2")
  case True
  with assms(4) show ?thesis by (auto simp: parse_one_def Let_def)
next
  case False
  have two: "length (head_bytes f) = 2" by (simp add: head_bytes_def)
  let ?t = "ext_bytes f @ key_bytes f @ wire_payload f"
  have "head_bytes f @ ?t = x @ y" using assms(2) by (simp add: encode_frame_parts)
  then consider us where "head_bytes f = x @ us" "us @ ?t = y" | us where "head_bytes f @ us = x" "?t = us @ y"
    unfolding append_eq_append_conv2 by blast
  then obtain c where x: "x = head_bytes f @ c" and c: "?t = c @ y"
  proof cases
    case 1
    then have "us = []" using False two arg_cong [OF 1(1), of length] by (cases us) auto
    with 1 that [of "[]"] show ?thesis by simp
  next
    case 2
    with that [of us] show ?thesis by simp
  qed
  show ?thesis
  proof (cases "length c < length (ext_bytes f)")
    case True
    then have "frame_length x = None" unfolding x by (subst frame_length_prefix [OF assms(1)]) simp
    then show ?thesis using False assms(4) by (auto simp: parse_one_def Let_def)
  next
    case ext: False
    then have "take (length (ext_bytes f)) c = ext_bytes f"
      using arg_cong [OF c, of "take (length (ext_bytes f))"] by simp
    then have len: "frame_length (head_bytes f @ c) = Some (int (length (fr_payload f)), 2 + length (ext_bytes f))"
      using ext by (subst frame_length_prefix [OF assms(1)]) simp
    have total: "length c < length (ext_bytes f) + length (key_bytes f) + length (fr_payload f)"
      using arg_cong [OF c, of length] assms(3) by (cases y) auto
    note k = length_key [OF assms(1)]
    show ?thesis
      using total k two ext False
      unfolding parse_one_def Let_def assms(4) x head_bits [OF assms(1)] len
      by (cases "fr_key f = None") (auto simp: plen_ok [OF assms(1)])
  qed
qed

text \<open>Up to the truncation flag, which nothing emitted depends on.\<close>

definition same_state :: "frame_parser \<Rightarrow> frame_parser \<Rightarrow> bool" where
  "same_state p q = (p\<lparr>fp_trun := False\<rparr> = q\<lparr>fp_trun := False\<rparr>)"

lemma same_state_refl [simp]: "same_state p p"
  by (simp add: same_state_def)

lemma same_state_trans: "same_state p q \<Longrightarrow> same_state q r \<Longrightarrow> same_state p r"
  by (simp add: same_state_def)

lemma same_state_fields:
  "same_state p q \<Longrightarrow> fp_limit p = fp_limit q \<and> fp_buf p = fp_buf q \<and> fp_seq p = fp_seq q \<and> fp_op p = fp_op q
     \<and> fp_msg p = fp_msg q \<and> fp_len p = fp_len q \<and> fp_out p = fp_out q"
  by (cases p; cases q) (simp add: same_state_def)

lemma same_stateI:
  "fp_limit p = fp_limit q \<Longrightarrow> fp_buf p = fp_buf q \<Longrightarrow> fp_seq p = fp_seq q \<Longrightarrow> fp_op p = fp_op q
     \<Longrightarrow> fp_msg p = fp_msg q \<Longrightarrow> fp_len p = fp_len q \<Longrightarrow> fp_out p = fp_out q \<Longrightarrow> same_state p q"
  by (cases p; cases q) (simp add: same_state_def)

lemma same_state_buf: "same_state p q \<Longrightarrow> same_state (p\<lparr>fp_buf := b\<rparr>) (q\<lparr>fp_buf := b\<rparr>)"
  by (cases p; cases q) (simp add: same_state_def)

lemma same_state_apply: "same_state p q \<Longrightarrow> same_state (apply_frame f p) (apply_frame f q)"
  using same_state_fields [of p q]
  by (intro same_stateI)
    (simp_all add: apply_frame_def take_frame_def emit_def reset_msg_def append_payload_def Let_def)

lemma apply_frame_buf [simp]: "fp_buf (apply_frame f p) = fp_buf p"
  by (simp add: apply_frame_def)

lemma apply_frame_set_buf: "(apply_frame f p)\<lparr>fp_buf := b\<rparr> = apply_frame f (p\<lparr>fp_buf := b\<rparr>)"
  by (simp add: apply_frame_def take_frame_def emit_def reset_msg_def append_payload_def Let_def)

definition partial :: "byte list \<Rightarrow> bool" where
  "partial x = (x = [] \<or> (\<exists>f y. frame_ok f \<and> encode_frame f = x @ y \<and> y \<noteq> []))"

definition apply_frames :: "frame list \<Rightarrow> frame_parser \<Rightarrow> frame_parser" where
  "apply_frames fs p = foldl (\<lambda>p f. apply_frame f p) p fs"

lemma parse_loop_frames:
  assumes "list_all frame_ok fs" "partial x" "fp_buf p = concat (List.map encode_frame fs) @ x"
  shows "same_state (parse_loop p) ((apply_frames fs p)\<lparr>fp_buf := x\<rparr>)"
  using assms
proof (induction fs arbitrary: p)
  case Nil
  have "\<exists>t. parse_one p = (None, p\<lparr>fp_trun := t\<rparr>)"
  proof (cases "x = []")
    case True
    with True Nil show ?thesis by (auto simp: parse_one_def)
  next
    case False
    with Nil obtain f y where "frame_ok f" "encode_frame f = x @ y" "y \<noteq> []" by (auto simp: partial_def)
    from parse_one_partial [OF this] Nil show ?thesis by simp
  qed
  with Nil show ?case by (subst parse_loop.simps) (auto simp: apply_frames_def same_state_def)
next
  case (Cons f fs)
  have f: "frame_ok f" using Cons.prems by simp
  have b: "fp_buf p = encode_frame f @ concat (List.map encode_frame fs) @ x" using Cons.prems by simp
  let ?q = "(apply_frame f p)\<lparr>fp_buf := concat (List.map encode_frame fs) @ x\<rparr>"
  have "parse_loop p = parse_loop ?q"
    by (subst parse_loop.simps) (simp add: parse_one_frame [OF f b], simp add: b)
  moreover have "same_state (parse_loop ?q) ((apply_frames fs ?q)\<lparr>fp_buf := x\<rparr>)"
    using Cons.prems by (intro Cons.IH) auto
  moreover have "(apply_frames fs (p\<lparr>fp_buf := b\<rparr>))\<lparr>fp_buf := x\<rparr> = (apply_frames fs p)\<lparr>fp_buf := x\<rparr>" for b p
    by (induction fs arbitrary: p b) (simp_all add: apply_frames_def apply_frame_set_buf [symmetric])
  ultimately show ?case by (simp add: apply_frames_def)
qed

section \<open>The pieces do not matter\<close>

fun fits :: "byte list \<Rightarrow> frame list \<Rightarrow> bool" where
  "fits r [] = True"
| "fits r (f # fs) = (length r < length (encode_frame f))"

lemma encode_nonempty: "0 < length (encode_frame f)"
  by (simp add: encode_frame_parts head_bytes_def)

lemma partial_prefix: "partial (r @ w) \<Longrightarrow> partial r"
  by (cases "r = []") (auto simp: partial_def)

lemma fits_partial:
  assumes "fits r fs" "list_all frame_ok fs" "partial x" "r @ w = concat (List.map encode_frame fs) @ x"
  shows "partial r"
proof (cases fs)
  case Nil
  with assms(3,4) show ?thesis by (metis append_Nil concat.simps(1) list.map(1) partial_prefix)
next
  case (Cons f gs)
  define y where "y = drop (length r) (encode_frame f)"
  have lt: "length r < length (encode_frame f)" using assms(1) Cons by simp
  have "r = take (length r) (encode_frame f)"
    using arg_cong [OF assms(4), of "take (length r)"] lt Cons by simp
  then have "encode_frame f = r @ y" unfolding y_def by (metis append_take_drop_id)
  moreover have "y \<noteq> []" using lt by (simp add: y_def)
  ultimately show ?thesis using assms(2) Cons by (auto simp: partial_def)
qed

lemma split_stream:
  assumes "list_all frame_ok fs" "partial x" "z @ w = concat (List.map encode_frame fs) @ x"
  shows "\<exists>hs ks r. fs = hs @ ks \<and> z = concat (List.map encode_frame hs) @ r \<and> fits r ks
    \<and> r @ w = concat (List.map encode_frame ks) @ x"
  using assms
proof (induction fs arbitrary: z)
  case Nil
  then show ?case by (intro exI [of _ "[]"] exI [of _ "[]"] exI [of _ z]) simp
next
  case (Cons f fs)
  show ?case
  proof (cases "length z < length (encode_frame f)")
    case True
    then show ?thesis
      using Cons.prems by (intro exI [of _ "[]"] exI [of _ "f # fs"] exI [of _ z]) simp
  next
    case False
    have "take (length (encode_frame f)) z = encode_frame f"
      using arg_cong [OF Cons.prems(3), of "take (length (encode_frame f))"] False by simp
    then obtain z' where z: "z = encode_frame f @ z'" by (metis append_take_drop_id)
    with Cons.prems have "z' @ w = concat (List.map encode_frame fs) @ x" by simp
    with Cons.IH [of z'] Cons.prems obtain hs ks r where
      "fs = hs @ ks" "z' = concat (List.map encode_frame hs) @ r" "fits r ks" "r @ w = concat (List.map encode_frame ks) @ x"
      by auto
    with z show ?thesis by (intro exI [of _ "f # hs"] exI [of _ ks] exI [of _ r]) simp
  qed
qed

lemma same_state_frames: "same_state p q \<Longrightarrow> same_state (apply_frames fs p) (apply_frames fs q)"
  by (induction fs arbitrary: p q) (simp_all add: apply_frames_def same_state_apply)

lemma apply_frames_set_buf: "(apply_frames fs p)\<lparr>fp_buf := b\<rparr> = apply_frames fs (p\<lparr>fp_buf := b\<rparr>)"
  by (induction fs arbitrary: p) (simp_all add: apply_frames_def apply_frame_set_buf)

lemma apply_frames_append: "apply_frames (fs @ gs) p = apply_frames gs (apply_frames fs p)"
  by (simp add: apply_frames_def)

lemma same_state_sym: "same_state p q \<Longrightarrow> same_state q p"
  by (simp add: same_state_def)

lemma write_chunks:
  assumes "list_all frame_ok fs" "partial x" "same_state p (q\<lparr>fp_buf := r\<rparr>)" "fits r fs"
    and "r @ concat chunks = concat (List.map encode_frame fs) @ x"
  shows "same_state (fold write_bytes chunks p) ((apply_frames fs q)\<lparr>fp_buf := x\<rparr>)"
  using assms
proof (induction chunks arbitrary: p q r fs)
  case Nil
  have "fs = []"
  proof (cases fs)
    case (Cons f gs)
    with Nil have "r = encode_frame f @ concat (List.map encode_frame gs) @ x" by simp
    with Nil Cons show ?thesis by simp
  qed simp
  with Nil show ?case by (simp add: apply_frames_def)
next
  case (Cons c chunks)
  have "(r @ c) @ concat chunks = concat (List.map encode_frame fs) @ x" using Cons.prems(5) by simp
  from split_stream [OF Cons.prems(1,2) this] obtain hs ks r' where
    h: "fs = hs @ ks" "r @ c = concat (List.map encode_frame hs) @ r'" "fits r' ks"
      "r' @ concat chunks = concat (List.map encode_frame ks) @ x" by blast
  have ok: "list_all frame_ok hs" "list_all frame_ok ks" using Cons.prems(1) h(1) by auto
  have part: "partial r'" by (rule fits_partial [OF h(3) ok(2) Cons.prems(2) h(4)])
  have buf: "fp_buf p = r" using same_state_fields [OF Cons.prems(3)] by simp
  have "same_state (write_bytes c p) ((apply_frames hs (p\<lparr>fp_buf := r @ c\<rparr>))\<lparr>fp_buf := r'\<rparr>)"
    unfolding write_bytes_def buf by (rule parse_loop_frames [OF ok(1) part]) (simp add: h(2))
  moreover have "same_state (p\<lparr>fp_buf := r'\<rparr>) (q\<lparr>fp_buf := r'\<rparr>)"
    using same_state_buf [OF Cons.prems(3), of r'] by simp
  from same_state_frames [OF this]
  have "same_state ((apply_frames hs (p\<lparr>fp_buf := r @ c\<rparr>))\<lparr>fp_buf := r'\<rparr>) ((apply_frames hs q)\<lparr>fp_buf := r'\<rparr>)"
    by (simp add: apply_frames_set_buf)
  ultimately have "same_state (write_bytes c p) ((apply_frames hs q)\<lparr>fp_buf := r'\<rparr>)"
    by (rule same_state_trans)
  from Cons.IH [OF ok(2) Cons.prems(2) this h(3,4)]
  show ?case by (simp add: h(1) apply_frames_append)
qed

section \<open>Messages\<close>

text \<open>The messages a list of frames carries: control frames as they come, and each data message once its
  last fragment is there, its payload cut at the limit and its length in full. \<open>acc\<close> is the message
  being assembled.\<close>

fun messages :: "int \<Rightarrow> nat \<Rightarrow> byte list \<Rightarrow> frame list \<Rightarrow> (nat \<times> byte list \<times> int \<times> bool) list" where
  "messages lim op acc [] = []"
| "messages lim op acc (f # fs) =
     (let m = (fr_key f \<noteq> None) in
      if fr_op f = 8 \<or> fr_op f = 9 \<or> fr_op f = 10
      then (fr_op f, fr_payload f, int (length (fr_payload f)), m) # messages lim op acc fs
      else
        (let op' = (if fr_op f = 0 then op else fr_op f); body = (if fr_op f = 0 then acc else []) @ fr_payload f in
         if fr_fin f then (op', take (nat lim) body, int (length body), m) # messages lim op' [] fs
         else messages lim op' body fs))"

fun number :: "int \<Rightarrow> (nat \<times> byte list \<times> int \<times> bool) list \<Rightarrow> emitted list" where
  "number k [] = []"
| "number k ((op, pl, len, m) # ms) =
     \<lparr>em_seq = k + 1, em_op = op, em_payload = pl, em_len = len, em_masked = m\<rparr> # number (k + 1) ms"

definition holds :: "frame_parser \<Rightarrow> nat \<Rightarrow> byte list \<Rightarrow> bool" where
  "holds p op acc = (fp_op p = op \<and> fp_msg p = take (nat (fp_limit p)) acc \<and> fp_len p = int (length acc))"

lemma append_payload_holds:
  assumes "holds p op acc"
  shows "holds (append_payload pl p) op (acc @ pl)" "fp_out (append_payload pl p) = fp_out p"
    "fp_seq (append_payload pl p) = fp_seq p" "fp_limit (append_payload pl p) = fp_limit p"
proof -
  have nd: "nat (a - int n) = nat a - n" for a n by linarith
  show "holds (append_payload pl p) op (acc @ pl)" "fp_out (append_payload pl p) = fp_out p"
    "fp_seq (append_payload pl p) = fp_seq p" "fp_limit (append_payload pl p) = fp_limit p"
    using assms by (auto simp: holds_def append_payload_def Let_def nd)
qed

lemma apply_frames_messages:
  "holds p op acc \<Longrightarrow> fp_out (apply_frames fs p) = fp_out p @ number (fp_seq p) (messages (fp_limit p) op acc fs)"
proof (induction fs arbitrary: p op acc)
  case (Cons f fs)
  show ?case
  proof (cases "fr_op f = 8 \<or> fr_op f = 9 \<or> fr_op f = 10")
    case True
    let ?q = "apply_frame f p"
    have q: "holds ?q op acc" "fp_seq ?q = fp_seq p + 1" "fp_limit ?q = fp_limit p"
      using Cons.prems True by (auto simp: apply_frame_def take_frame_def emit_def holds_def)
    from Cons.IH [OF q(1)] show ?thesis
      using True by (auto simp: apply_frames_def q apply_frame_def take_frame_def emit_def Let_def)
  next
    case False
    let ?op = "if fr_op f = 0 then op else fr_op f" and ?acc = "if fr_op f = 0 then acc else []"
    let ?s = "if fr_op f = 0 then p else reset_msg (p\<lparr>fp_op := fr_op f\<rparr>)"
    let ?a = "append_payload (fr_payload f) ?s"
    have s: "holds ?s ?op ?acc" "fp_out ?s = fp_out p" "fp_seq ?s = fp_seq p" "fp_limit ?s = fp_limit p"
      using Cons.prems by (auto simp: holds_def reset_msg_def)
    note a = append_payload_holds [OF s(1), of "fr_payload f"]
    have op: "fp_op ?a = ?op" using a(1) by (simp add: holds_def)
    have step: "apply_frame f p = (if fr_fin f then reset_msg (emit ?op (fp_msg ?a) (fp_len ?a) (fr_key f \<noteq> None) ?a) else ?a)"
      using False op by (auto simp: apply_frame_def take_frame_def Let_def)
    show ?thesis
    proof (cases "fr_fin f")
      case True
      define q where "q = reset_msg (emit ?op (fp_msg ?a) (fp_len ?a) (fr_key f \<noteq> None) ?a)"
      have q: "holds q ?op []" "fp_seq q = fp_seq p + 1" "fp_limit q = fp_limit p"
        using op a s by (auto simp: q_def holds_def reset_msg_def emit_def)
      have out: "fp_out q = fp_out p @ [\<lparr>em_seq = fp_seq p + 1, em_op = ?op, em_payload = take (nat (fp_limit p)) (?acc @ fr_payload f),
          em_len = int (length (?acc @ fr_payload f)), em_masked = (fr_key f \<noteq> None)\<rparr>]"
        using a s by (simp add: q_def reset_msg_def emit_def holds_def)
      have "apply_frames (f # fs) p = apply_frames fs q" using step True by (simp add: apply_frames_def q_def)
      then show ?thesis
        using Cons.IH [OF q(1)] out True False by (cases "fr_op f = 0") (simp_all add: q Let_def)
    next
      case nofin: False
      define q where "q = ?a"
      have q: "holds q ?op (?acc @ fr_payload f)" "fp_seq q = fp_seq p" "fp_limit q = fp_limit p" "fp_out q = fp_out p"
        using a s by (simp_all add: q_def)
      have "apply_frames (f # fs) p = apply_frames fs q" using step nofin by (simp add: apply_frames_def q_def)
      then show ?thesis using Cons.IH [OF q(1)] False nofin by (cases "fr_op f = 0") (simp_all add: q Let_def)
    qed
  qed
qed (simp add: apply_frames_def)

lemma parsed_chunks:
  assumes "list_all frame_ok fs" and "partial x" and "concat chunks = concat (List.map encode_frame fs) @ x"
  shows "fp_out (fold write_bytes chunks (new_parser limit)) = number 0 (messages limit 0 [] fs)
    \<and> fp_buf (fold write_bytes chunks (new_parser limit)) = x"
proof -
  let ?p = "new_parser limit"
  have fits: "fits [] fs" using encode_nonempty by (cases fs) auto
  have "same_state ?p (?p\<lparr>fp_buf := []\<rparr>)" by (simp add: same_state_def new_parser_def)
  from write_chunks [OF assms(1,2) this fits] assms(3)
  have "same_state (fold write_bytes chunks ?p) ((apply_frames fs ?p)\<lparr>fp_buf := x\<rparr>)" by simp
  from same_state_fields [OF this]
  have "fp_out (fold write_bytes chunks ?p) = fp_out (apply_frames fs ?p)" "fp_buf (fold write_bytes chunks ?p) = x" by simp_all
  moreover have "holds ?p 0 []" by (simp add: holds_def new_parser_def)
  note apply_frames_messages [OF this, of fs]
  ultimately show ?thesis by (simp add: new_parser_def)
qed

section \<open>Properties\<close>

text \<open>However the network cuts the bytes of a direction into pieces, the recorded messages are
  those of the frames sent, numbered in order: control frames at once, data messages when their last
  fragment is complete, unmasked, cut at the capture limit with their full length noted; a frame not
  complete yet stays buffered and is not lost.\<close>

theorem ws_capture_any_chunks:
  assumes "list_all frame_ok fs" and "partial x" and "concat chunks = concat (List.map encode_frame fs) @ x"
  shows "fp_out (fold write_bytes chunks (new_parser limit)) = number 0 (messages limit 0 [] fs)
    \<and> fp_buf (fold write_bytes chunks (new_parser limit)) = x"
  by (rule parsed_chunks [OF assms])

definition sample_frames :: "frame list" where
  "sample_frames =
     [\<lparr>fr_fin = False, fr_op = 1, fr_key = Some [1, 2, 3, 4], fr_payload = [104, 101]\<rparr>,
      \<lparr>fr_fin = True, fr_op = 9, fr_key = None, fr_payload = []\<rparr>,
      \<lparr>fr_fin = True, fr_op = 0, fr_key = Some [5, 6, 7, 8], fr_payload = [108, 108, 111]\<rparr>]"

lemma ws_capture_any_chunks_witness:
  "List.map em_payload (fp_out (fold write_bytes [take 5 (concat (List.map encode_frame sample_frames)),
      drop 5 (concat (List.map encode_frame sample_frames))] (new_parser 4))) = [[], [104, 101, 108, 108]]"
proof -
  let ?w = "concat (List.map encode_frame sample_frames)"
  have "list_all frame_ok sample_frames" "partial []" by (simp_all add: sample_frames_def frame_ok_def partial_def)
  from ws_capture_any_chunks [OF this, of "[take 5 ?w, drop 5 ?w]" 4]
  have "fp_out (fold write_bytes [take 5 ?w, drop 5 ?w] (new_parser 4)) = number 0 (messages 4 0 [] sample_frames)" by simp
  then show ?thesis by (simp add: sample_frames_def)
qed

text \<open>A frame with an impossible length does not stop the parsing of its direction, as the code's
  comment says: the bytes buffered so far are dropped and the next piece is read as a new frame, so
  what is recorded depends on where the network cut the bytes.\<close>

theorem ws_corrupt_frame_resumes:
  "fp_out (fold write_bytes [[0x82, 127, 255, 0, 0, 0, 0, 0, 0, 0], [0x81, 1, 97]] (new_parser 10)) =
     [\<lparr>em_seq = 1, em_op = 1, em_payload = [97], em_len = 1, em_masked = False\<rparr>]
   \<and> fp_out (write_bytes [0x82, 127, 255, 0, 0, 0, 0, 0, 0, 0, 0x81, 1, 97] (new_parser 10)) = []"
proof -
  have bad: "parse_loop (p\<lparr>fp_buf := [0x82, 127, 255, 0, 0, 0, 0, 0, 0, 0] @ tl\<rparr>) = p\<lparr>fp_buf := []\<rparr>" for p tl
  proof -
    have l: "unat ((127::byte) AND 0x7F) = 127" by code_simp
    have be: "wrap_int (int (big_endian [255, 0, 0, 0, 0, 0, 0, 0])) < 0" by (simp add: big_endian_def wrap_int_def)
    have "frame_length ([0x82, 127, 255, 0, 0, 0, 0, 0, 0, 0] @ tl) = Some (wrap_int (int (big_endian [255, 0, 0, 0, 0, 0, 0, 0])), 10)"
      by (simp add: frame_length_def l)
    then have "parse_one (p\<lparr>fp_buf := [0x82, 127, 255, 0, 0, 0, 0, 0, 0, 0] @ tl\<rparr>) = (None, p\<lparr>fp_buf := []\<rparr>)"
      using be unfolding parse_one_def by (simp add: Let_def)
    then show ?thesis by (subst parse_loop.simps) simp
  qed
  have new: "(new_parser 10)\<lparr>fp_buf := []\<rparr> = new_parser 10" "fp_buf (new_parser 10) = []" "fp_out (new_parser 10) = []"
    by (simp_all add: new_parser_def)
  let ?f = "\<lparr>fr_fin = True, fr_op = Suc 0, fr_key = None, fr_payload = [97]\<rparr>"
  have enc: "encode_frame ?f = [0x81, 1, 97]" by (simp add: encode_frame_def encode_length_def key_bytes_def wire_payload_def)
  have "same_state (parse_loop ((new_parser 10)\<lparr>fp_buf := [0x81, 1, 97]\<rparr>))
      ((apply_frames [?f] ((new_parser 10)\<lparr>fp_buf := [0x81, 1, 97]\<rparr>))\<lparr>fp_buf := []\<rparr>)"
    by (rule parse_loop_frames) (simp_all add: enc frame_ok_def partial_def)
  from same_state_fields [OF this]
  have "fp_out (parse_loop ((new_parser 10)\<lparr>fp_buf := [0x81, 1, 97]\<rparr>)) =
     [\<lparr>em_seq = 1, em_op = 1, em_payload = [97], em_len = 1, em_masked = False\<rparr>]"
    by (simp add: apply_frames_def apply_frame_def take_frame_def append_payload_def emit_def reset_msg_def new_parser_def)
  moreover have "write_bytes [0x82, 127, 255, 0, 0, 0, 0, 0, 0, 0] (new_parser 10) = new_parser 10"
    using bad [of "[]" "new_parser 10"] by (simp add: write_bytes_def new)
  moreover have "write_bytes [0x82, 127, 255, 0, 0, 0, 0, 0, 0, 0, 0x81, 1, 97] (new_parser 10) = new_parser 10"
    using bad [of "[0x81, 1, 97]" "new_parser 10"] by (simp add: write_bytes_def new)
  ultimately show ?thesis by (simp add: write_bytes_def new)
qed

end
