(* ===== verification/Proxy_WebSocket.thy ===== *)
theory Proxy_WebSocket
  imports Proxy_Record Proxy_Frames
begin

text \<open>
  \<open>handleWebSocket\<close> and \<open>spliceWS\<close> of \<open>internal/proxy/websocket.go\<close>: the upgrade of a connection, what is
  recorded of it, and the splicing of its two directions. What the network does is an input, as for
  an exchange; the two directions run concurrently but share only the sink, so each has its own list
  of messages.
\<close>

section \<open>The handler\<close>

record upgrade_run =
  wr_base :: exchange_run
  wr_connected :: gotime
  wr_wrote :: gotime
  wr_first :: gotime
  wr_dial :: "string \<Rightarrow> string option"
  wr_write :: "request \<Rightarrow> string option"
  wr_response :: "request \<Rightarrow> string + response"
  wr_hijack :: "string option"
  wr_c2s :: "byte list list"
  wr_s2c :: "byte list list"

datatype ws_end =
    WsRefused int string
  | WsAnswered int header string
  | WsHijackFailed
  | WsSpliced response "byte list" "byte list"

text \<open>The state of the handler: the flow, the budget and the events published, as for an exchange.\<close>

record ws_state =
  wx_flow :: flow
  wx_budget :: budget
  wx_events :: "sink_event list"
  wx_messages :: "emitted list \<times> emitted list"
  wx_dialed :: "string option"
  wx_sent :: "request option"

definition ws_flow :: "(flow \<Rightarrow> flow) \<Rightarrow> ws_state \<Rightarrow> ws_state" where
  "ws_flow g x = x\<lparr>wx_flow := g (wx_flow x)\<rparr>"

definition ws_event :: "(flow \<Rightarrow> sink_event) \<Rightarrow> ws_state \<Rightarrow> ws_state" where
  "ws_event ev x = x\<lparr>wx_events := wx_events x @ [ev (wx_flow x)]\<rparr>"

text \<open>\<open>finish\<close>\<close>

definition finish_flow :: "gotime \<Rightarrow> flow_state \<Rightarrow> ws_state \<Rightarrow> ws_state" where
  "finish_flow now st x =
     ws_event SDone (ws_flow (\<lambda>f. f\<lparr>fl_t := (fl_t f)\<lparr>t_end := now\<rparr>, fl_state := st\<rparr>) x)"

text \<open>An error answered with \<open>http.Error\<close>: the client sees a status, the flow only the text.\<close>

definition ws_fail :: "upgrade_run \<Rightarrow> int \<Rightarrow> string \<Rightarrow> string \<Rightarrow> ws_state \<Rightarrow> ws_end \<times> ws_state" where
  "ws_fail run status body msg x =
     (WsRefused status body, finish_flow (xr_end (wr_base run)) StateFailed (ws_flow (\<lambda>f. f\<lparr>fl_error := msg\<rparr>) x))"

definition upstream_failed :: "upgrade_run \<Rightarrow> string \<Rightarrow> ws_state \<Rightarrow> ws_end \<times> ws_state" where
  "upstream_failed run msg x = ws_fail run 502 (''pano: '' @ msg) msg x"

definition splice_messages :: "bool \<Rightarrow> int \<Rightarrow> byte list list \<Rightarrow> emitted list" where
  "splice_messages on limit chunks = (if on then fp_out (fold write_bytes chunks (new_parser limit)) else [])"

text \<open>The response arrived: not upgraded, it is proxied; upgraded, the connection is taken over.\<close>

definition not_upgraded :: "exchange_env \<Rightarrow> upgrade_run \<Rightarrow> response \<Rightarrow> ws_state \<Rightarrow> ws_end \<times> ws_state" where
  "not_upgraded env run resp x =
     (let base = wr_base run;
          (out, err, c, b) = copy_stream (xr_chunks base (body_data (rp_body resp))) (body_error_of (rp_body resp)) (xr_gone base)
                               (new_capture (xe_max_body env) False) (wx_budget x);
          (ref, c', b', blobs) = store_body env (fl_resp_body (wx_flow x)) c b;
          x1 = (ws_flow (\<lambda>f. f\<lparr>fl_resp_body := ref\<rparr>) x)\<lparr>wx_budget := b', wx_events := wx_events x @ blobs\<rparr>
      in (WsAnswered (rp_status resp) (strip_hop False (merge_header (rp_header resp) [])) out, finish_flow (xr_end base) StateDone x1))"

definition upgraded :: "exchange_env \<Rightarrow> upgrade_run \<Rightarrow> bool \<Rightarrow> response \<Rightarrow> ws_state \<Rightarrow> ws_end \<times> ws_state" where
  "upgraded env run capture_ws resp x =
     (let base = wr_base run in
      case wr_hijack run of
        Some e \<Rightarrow>
          (WsHijackFailed, finish_flow (xr_end base) StateFailed (ws_flow (\<lambda>f. f\<lparr>fl_error := ''hijack: '' @ e\<rparr>) x))
      | None \<Rightarrow>
          (let x1 = ws_event SUpdated (ws_flow (\<lambda>f. f\<lparr>fl_t := (fl_t f)\<lparr>t_headers_sent := xr_headers_at base\<rparr>\<rparr>) x);
               c2s = concat (wr_c2s run); s2c = concat (wr_s2c run);
               x2 = x1\<lparr>wx_messages := (splice_messages capture_ws (xe_max_body env) (wr_c2s run),
                                       splice_messages capture_ws (xe_max_body env) (wr_s2c run))\<rparr>
           in (WsSpliced resp c2s s2c,
               finish_flow (xr_end base) StateDone
                 (ws_flow (\<lambda>f. f\<lparr>fl_req_body := (fl_req_body f)\<lparr>br_size := int (length c2s)\<rparr>,
                    fl_resp_body := (fl_resp_body f)\<lparr>br_size := int (length s2c)\<rparr>\<rparr>) x2))))"

definition dial_address :: "string \<Rightarrow> string \<Rightarrow> string" where
  "dial_address scheme hostport =
     (case split_host_port hostport of
        Some _ \<Rightarrow> hostport
      | None \<Rightarrow> join_host_port hostport (itoa (default_port scheme)))"

text \<open>From the dial on, with the request the hooks left.\<close>

definition ws_connect :: "exchange_env \<Rightarrow> upgrade_run \<Rightarrow> bool \<Rightarrow> request \<Rightarrow> ws_state \<Rightarrow> ws_end \<times> ws_state" where
  "ws_connect env run capture_ws out x0 =
     (let x = x0\<lparr>wx_dialed := Some (u_host (rq_url out))\<rparr> in
      case wr_dial run (u_host (rq_url out)) of
        Some e \<Rightarrow> upstream_failed run (upstream_error env e) x
      | None \<Rightarrow>
          (let x1 = ws_flow (\<lambda>f. f\<lparr>fl_t := (fl_t f)\<lparr>t_connected := wr_connected run\<rparr>\<rparr>) x in
           case wr_write run out of
             Some e \<Rightarrow> upstream_failed run (''upstream write: '' @ e) x1
           | None \<Rightarrow>
               (let x2 = (ws_flow (\<lambda>f. f\<lparr>fl_t := (fl_t f)\<lparr>t_wrote_req := wr_wrote run\<rparr>\<rparr>) x1)\<lparr>wx_sent := Some out\<rparr> in
                case wr_response run out of
                  Inl e \<Rightarrow> upstream_failed run (''upstream response: '' @ e) x2
                | Inr resp \<Rightarrow>
                    (let x3 = ws_flow (\<lambda>f. f\<lparr>fl_t := (fl_t f)\<lparr>t_first_byte := wr_first run\<rparr>, fl_status := rp_status resp,
                                fl_resp_headers := rp_header resp\<rparr>) x2
                     in if rp_status resp \<noteq> 101 then not_upgraded env run resp x3
                        else upgraded env run capture_ws resp x3))))"

text \<open>\<open>capture_ws\<close>: the option is on and the proxy is capturing. The handler does not consult the loop guard.\<close>

definition handle_websocket ::
  "exchange_env \<Rightarrow> upgrade_run \<Rightarrow> exchange_hooks option \<Rightarrow> bool \<Rightarrow> budget \<Rightarrow> request \<Rightarrow> string \<Rightarrow> string \<Rightarrow> ws_end \<times> ws_state" where
  "handle_websocket env run hooks capture_ws b r scheme hostport =
     (let f0 = new_flow (wr_base run) KindWebSocket r scheme hostport;
          x0 = ws_event SStarted \<lparr>wx_flow = f0, wx_budget = b, wx_events = [], wx_messages = ([], []), wx_dialed = None, wx_sent = None\<rparr>;
          out = outbound True r scheme (dial_address scheme hostport)
      in case hooks of
           None \<Rightarrow> ws_connect env run capture_ws out x0
         | Some hk \<Rightarrow>
             (let (d, y) = hk_request hk \<lparr>x_flow = wx_flow x0, x_req = out, x_resp = None, x_mirrored = ph_request\<rparr>;
                  x1 = x0\<lparr>wx_flow := x_flow y\<rparr>
              in case d of
                   Some _ \<Rightarrow> ws_fail run 403 ''pano: blocked'' ''websocket blocked by rule'' x1
                 | None \<Rightarrow> ws_connect env run capture_ws (x_req y) x1))"

section \<open>What is published\<close>

text \<open>A state of the handler on the way: its events after the start are updates and bodies, all of one flow.\<close>

definition ws_running :: "flow \<Rightarrow> budget \<Rightarrow> ws_state \<Rightarrow> bool" where
  "ws_running f0 b x =
     (\<exists>mid. wx_events x = SStarted f0 # mid \<and> list_all (quiet (flow_ident f0)) mid
        \<and> flow_ident (wx_flow x) = flow_ident f0 \<and> wx_budget x = b)"

definition ws_finished :: "flow \<Rightarrow> budget \<Rightarrow> ws_state \<Rightarrow> bool" where
  "ws_finished f0 b x =
     (\<exists>mid. wx_events x = SStarted f0 # mid @ [SDone (wx_flow x)] \<and> list_all (quiet (flow_ident f0)) mid
        \<and> flow_ident (wx_flow x) = flow_ident f0 \<and> wx_budget x = b \<and> fl_state (wx_flow x) \<in> {StateDone, StateFailed})"

lemma ws_running_flow:
  "ws_running f0 b x \<Longrightarrow> flow_ident (g (wx_flow x)) = flow_ident (wx_flow x) \<Longrightarrow> ws_running f0 b (ws_flow g x)"
  by (simp add: ws_running_def ws_flow_def)

lemma ws_running_fields:
  "ws_running f0 b (x\<lparr>wx_dialed := d\<rparr>) = ws_running f0 b x" "ws_running f0 b (x\<lparr>wx_sent := s\<rparr>) = ws_running f0 b x"
  "ws_running f0 b (x\<lparr>wx_messages := m\<rparr>) = ws_running f0 b x"
  by (simp_all add: ws_running_def)

lemma ws_running_updated: "ws_running f0 b x \<Longrightarrow> ws_running f0 b (ws_event SUpdated x)"
  by (auto simp: ws_running_def ws_event_def)

lemma finish_flow_finished:
  "ws_running f0 b x \<Longrightarrow> st \<in> {StateDone, StateFailed} \<Longrightarrow> ws_finished f0 b (finish_flow now st x)"
  by (auto simp: ws_running_def ws_finished_def finish_flow_def ws_event_def ws_flow_def flow_ident_def)

lemma ws_fail_finished: "ws_running f0 b x \<Longrightarrow> ws_finished f0 b (snd (ws_fail run st body msg x))"
  by (simp add: ws_fail_def finish_flow_finished ws_running_flow flow_ident_def)

lemma store_body_quiet:
  "store_body env ref c b = (ref', c', b', blobs) \<Longrightarrow> list_all (quiet d) blobs \<and> b' = release_budget (cp_reserved c) b"
  by (auto simp: store_body_def bytes_and_release_def Let_def split: if_splits)

lemma not_upgraded_finished:
  assumes "ws_running f0 b x"
  shows "ws_finished f0 b (snd (not_upgraded env run resp x))"
proof -
  obtain out err c b1 where cp: "copy_stream (xr_chunks (wr_base run) (body_data (rp_body resp))) (body_error_of (rp_body resp))
      (xr_gone (wr_base run)) (new_capture (xe_max_body env) False) (wx_budget x) = (out, err, c, b1)"
    by (metis prod_cases4)
  obtain ref c' b2 blobs where st: "store_body env (fl_resp_body (wx_flow x)) c b1 = (ref, c', b2, blobs)" by (metis prod_cases4)
  have "b1 = charged (wx_budget x) (cp_reserved c)" using copy_stream_charges [OF cp] by (simp add: new_capture_def)
  then have b2: "b2 = wx_budget x" using store_body_quiet [OF st] by simp
  define x1 where "x1 = (ws_flow (\<lambda>f. f\<lparr>fl_resp_body := ref\<rparr>) x)\<lparr>wx_budget := b2, wx_events := wx_events x @ blobs\<rparr>"
  have "ws_running f0 b x1"
    using assms store_body_quiet [OF st] b2 by (auto simp: ws_running_def x1_def ws_flow_def flow_ident_def)
  then show ?thesis
    by (simp add: not_upgraded_def Let_def cp st finish_flow_finished flip: x1_def)
qed

lemma upgraded_finished:
  "ws_running f0 b x \<Longrightarrow> ws_finished f0 b (snd (upgraded env run on resp x))"
  by (auto simp: upgraded_def Let_def flow_ident_def split: option.split
      intro!: finish_flow_finished ws_running_flow ws_running_updated ws_running_fields [THEN iffD2])

lemma upstream_failed_finished: "ws_running f0 b x \<Longrightarrow> ws_finished f0 b (snd (upstream_failed run msg x))"
  by (simp add: upstream_failed_def ws_fail_finished)

lemma ws_connect_finished:
  assumes "ws_running f0 b x"
  shows "ws_finished f0 b (snd (ws_connect env run on out x))"
proof -
  define x0 where "x0 = x\<lparr>wx_dialed := Some (u_host (rq_url out))\<rparr>"
  define x1 where "x1 = ws_flow (\<lambda>f. f\<lparr>fl_t := (fl_t f)\<lparr>t_connected := wr_connected run\<rparr>\<rparr>) x0"
  define x2 where "x2 = (ws_flow (\<lambda>f. f\<lparr>fl_t := (fl_t f)\<lparr>t_wrote_req := wr_wrote run\<rparr>\<rparr>) x1)\<lparr>wx_sent := Some out\<rparr>"
  have run: "ws_running f0 b x0" "ws_running f0 b x1" "ws_running f0 b x2"
    using assms by (simp_all add: x0_def x1_def x2_def ws_running_fields ws_running_flow flow_ident_def)
  define x3 where "x3 = (\<lambda>resp :: response. ws_flow (\<lambda>f. f\<lparr>fl_t := (fl_t f)\<lparr>t_first_byte := wr_first run\<rparr>, fl_status := rp_status resp,
      fl_resp_headers := rp_header resp\<rparr>) x2)"
  have "ws_running f0 b (x3 resp)" for resp
    using run(3) by (simp add: x3_def ws_running_flow flow_ident_def)
  then have answer: "ws_finished f0 b (snd (if rp_status resp \<noteq> 101 then not_upgraded env run resp (x3 resp) else upgraded env run on resp (x3 resp)))"
    for resp by (simp add: not_upgraded_finished upgraded_finished)
  have "ws_connect env run on out x = (case wr_dial run (u_host (rq_url out)) of
        Some e \<Rightarrow> upstream_failed run (upstream_error env e) x0
      | None \<Rightarrow>
          (case wr_write run out of
             Some e \<Rightarrow> upstream_failed run (''upstream write: '' @ e) x1
           | None \<Rightarrow>
               (case wr_response run out of
                  Inl e \<Rightarrow> upstream_failed run (''upstream response: '' @ e) x2
                | Inr resp \<Rightarrow>
                    (if rp_status resp \<noteq> 101 then not_upgraded env run resp (x3 resp) else upgraded env run on resp (x3 resp)))))"
    unfolding ws_connect_def Let_def x0_def x1_def x2_def x3_def by (rule refl)
  with run answer show ?thesis
    by (simp add: upstream_failed_finished split: option.split sum.split split del: if_split)
qed

context hook_laws begin

lemma websocket_finished:
  "ws_finished (new_flow (wr_base run) KindWebSocket r scheme hostport) b (snd (handle_websocket env run (Some hooks) on b r scheme hostport))"
proof -
  define f0 where "f0 = new_flow (wr_base run) KindWebSocket r scheme hostport"
  define x0 where "x0 = ws_event SStarted \<lparr>wx_flow = f0, wx_budget = b, wx_events = [], wx_messages = ([], []), wx_dialed = None, wx_sent = None\<rparr>"
  obtain d y where y: "on_request \<lparr>x_flow = f0, x_req = outbound True r scheme (dial_address scheme hostport), x_resp = None,
      x_mirrored = ph_request\<rparr> = (d, y)" by fastforce
  have "flow_ident (x_flow y) = flow_ident f0"
    using request_ident [of "\<lparr>x_flow = f0, x_req = outbound True r scheme (dial_address scheme hostport), x_resp = None,
      x_mirrored = ph_request\<rparr>"] y by simp
  then have run: "ws_running f0 b (x0\<lparr>wx_flow := x_flow y\<rparr>)" by (simp add: ws_running_def x0_def ws_event_def)
  have "wx_flow x0 = f0" by (simp add: x0_def ws_event_def)
  with run y show ?thesis
    by (simp add: handle_websocket_def Let_def ws_fail_finished ws_connect_finished split: option.split flip: f0_def x0_def)
qed

end

section \<open>Properties\<close>

text \<open>C29: whatever the rules, the origin and the client do, a WebSocket exchange publishes its start once,
  then only updates of the same flow and bodies, and last, once, the final flow, done or failed; and
  the capture budget is back to what it was.\<close>

theorem websocket_published_once:
  assumes "handle_websocket env run (Some \<lparr>hk_request = rule_request lib etxt now draw inp e,
      hk_response = rule_response lib etxt now' draw' inp' e'\<rparr>) on b r scheme hostport = (en, x)"
  shows "(\<exists>f0 mid. wx_events x = SStarted f0 # mid @ [SDone (wx_flow x)] \<and> list_all (quiet (flow_ident (wx_flow x))) mid
        \<and> flow_ident f0 = flow_ident (wx_flow x) \<and> fl_id f0 = xr_id (wr_base run))
    \<and> fl_state (wx_flow x) \<in> {StateDone, StateFailed} \<and> wx_budget x = b"
proof -
  from rules.websocket_finished [of run r scheme hostport b env lib etxt now draw inp e now' draw' inp' e' on] assms
  have "ws_finished (new_flow (wr_base run) KindWebSocket r scheme hostport) b x" by simp
  moreover have "fl_id (new_flow (wr_base run) KindWebSocket r scheme hostport) = xr_id (wr_base run)" by (simp add: new_flow_def)
  ultimately show ?thesis unfolding ws_finished_def by force
qed

lemma ws_spliced_cases:
  assumes "handle_websocket env run hks on b r scheme hostport = (WsSpliced resp c2s s2c, x)"
  shows "c2s = concat (wr_c2s run) \<and> s2c = concat (wr_s2c run)
    \<and> wx_messages x = (splice_messages on (xe_max_body env) (wr_c2s run), splice_messages on (xe_max_body env) (wr_s2c run))
    \<and> br_size (fl_req_body (wx_flow x)) = int (length c2s) \<and> br_size (fl_resp_body (wx_flow x)) = int (length s2c)
    \<and> fl_status (wx_flow x) = 101 \<and> fl_state (wx_flow x) = StateDone"
proof -
  have up: "upgraded env run on q y = (WsSpliced resp c2s s2c, x) \<Longrightarrow> fl_status (wx_flow y) = 101 \<Longrightarrow> ?thesis" for q y
    by (auto simp: upgraded_def Let_def finish_flow_def ws_event_def ws_flow_def split: option.splits)
  have conn: "ws_connect env run on out y = (WsSpliced resp c2s s2c, x) \<Longrightarrow> ?thesis" for out y
    by (auto simp: ws_connect_def Let_def upstream_failed_def ws_fail_def not_upgraded_def ws_flow_def split_beta
        intro!: up split: option.splits sum.splits if_splits)
  show ?thesis
    using assms by (auto simp: handle_websocket_def Let_def ws_fail_def intro!: conn split: option.splits prod.splits)
qed


text \<open>A rule that redirects an upgrade to the proxy's own address is followed: unlike an exchange, the
  handler does not consult the loop guard after the hooks.\<close>

lemma websocket_not_guarded:
  "wx_dialed (snd (handle_websocket env run (Some \<lparr>hk_request =
       (\<lambda>y. (None, y\<lparr>x_req := (x_req y)\<lparr>rq_url := (rq_url (x_req y))\<lparr>u_host := own\<rparr>\<rparr>\<rparr>)), hk_response = hr\<rparr>) on b r scheme hostport))
   = Some own"
  by (simp add: handle_websocket_def ws_connect_def Let_def upstream_failed_def ws_fail_def not_upgraded_def upgraded_def
      finish_flow_def ws_event_def ws_flow_def split_beta split: option.split sum.split)

section \<open>Samples\<close>

text \<open>An origin that accepts the upgrade and sends one frame, answered by none.\<close>

definition sample_upgrade :: response where
  "sample_upgrade = \<lparr>rp_status = 101, rp_status_line = ''101 Switching Protocols'', rp_header = [], rp_body = Body [] None, rp_length = 0, rp_te = []\<rparr>"

definition sample_hello :: frame where
  "sample_hello = \<lparr>fr_fin = True, fr_op = 1, fr_key = None, fr_payload = [104, 105]\<rparr>"

definition sample_ws :: upgrade_run where
  "sample_ws = \<lparr>wr_base = sample_run, wr_connected = 1, wr_wrote = 2, wr_first = 3, wr_dial = (\<lambda>_. None), wr_write = (\<lambda>_. None),
     wr_response = (\<lambda>_. Inr sample_upgrade), wr_hijack = None, wr_c2s = [], wr_s2c = [[0x81], [2, 104, 105, 0x81]]\<rparr>"

lemma sample_spliced:
  "\<exists>x. handle_websocket sample_env sample_ws None on b sample_request ''http'' ''a.com'' = (WsSpliced sample_upgrade [] [0x81, 2, 104, 105, 0x81], x)"
  by (simp add: handle_websocket_def ws_connect_def upgraded_def sample_ws_def sample_upgrade_def Let_def)

lemma websocket_published_once_witness:
  "\<exists>en x. handle_websocket sample_env sample_ws (Some no_rule_hooks) True \<lparr>bu_limit = 100, bu_used = 5\<rparr> sample_request ''http'' ''a.com'' = (en, x)
    \<and> fl_state (wx_flow x) \<in> {StateDone, StateFailed} \<and> wx_budget x = \<lparr>bu_limit = 100, bu_used = 5\<rparr>"
proof -
  obtain en x where h: "handle_websocket sample_env sample_ws (Some no_rule_hooks) True \<lparr>bu_limit = 100, bu_used = 5\<rparr>
      sample_request ''http'' ''a.com'' = (en, x)" by fastforce
  from websocket_published_once [OF h] h show ?thesis by blast
qed


end
