(* ===== verification/View_Diff.thy ===== *)
theory View_Diff
  imports Prelude
begin

text \<open>
  \<open>internal/view/diff.go\<close>, texts: the line diff (common prefix and suffix, then an LCS table, or a
  whole-block replacement for big inputs) and its rendering in hunks. The edit script is compared
  with what an edit script is for: it rebuilds both texts, and no script with fewer changes does.
\<close>

section \<open>Lines\<close>

definition newline :: char where "newline = CHR 0x0A"

definition split_lines :: "string \<Rightarrow> string list" where
  "split_lines s = (if s = [] then [] else str_split newline (trim_suffix s [newline]))"

datatype diff_kind = Same | Del | Add

record diff_op =
  do_kind :: diff_kind
  do_text :: string
  do_a :: nat
  do_b :: nat

text \<open>Operations get their positions as they are emitted.\<close>

fun number_ops :: "nat \<Rightarrow> nat \<Rightarrow> (diff_kind \<times> string) list \<Rightarrow> diff_op list" where
  "number_ops ai bi [] = []"
| "number_ops ai bi ((k, t) # ops) =
     \<lparr>do_kind = k, do_text = t, do_a = ai, do_b = bi\<rparr>
     # number_ops (if k \<noteq> Add then Suc ai else ai) (if k \<noteq> Del then Suc bi else bi) ops"

section \<open>The table\<close>

fun common_prefix :: "'a list \<Rightarrow> 'a list \<Rightarrow> nat" where
  "common_prefix (x # xs) (y # ys) = (if x = y then Suc (common_prefix xs ys) else 0)"
| "common_prefix _ _ = 0"

text \<open>Row \<open>i\<close> of the table from row \<open>i + 1\<close>, right to left; the last row and column are zero.\<close>

fun lcs_row :: "'a \<Rightarrow> 'a list \<Rightarrow> nat list \<Rightarrow> nat list" where
  "lcs_row x [] below = [0]"
| "lcs_row x (y # ys) below =
     (let r = lcs_row x ys (tl below) in
      (if x = y then hd (tl below) + 1 else max (hd below) (hd r)) # r)"

fun lcs_table :: "'a list \<Rightarrow> 'a list \<Rightarrow> nat list list" where
  "lcs_table [] ys = [replicate (Suc (length ys)) 0]"
| "lcs_table (x # xs) ys = (let t = lcs_table xs ys in lcs_row x ys (hd t) # t)"

definition dels :: "'a list \<Rightarrow> (diff_kind \<times> 'a) list" where "dels xs = List.map (Pair Del) xs"
definition adds :: "'a list \<Rightarrow> (diff_kind \<times> 'a) list" where "adds ys = List.map (Pair Add) ys"
definition keeps :: "'a list \<Rightarrow> (diff_kind \<times> 'a) list" where "keeps xs = List.map (Pair Same) xs"

function lcs_walk :: "nat list list \<Rightarrow> 'a list \<Rightarrow> 'a list \<Rightarrow> nat \<Rightarrow> nat \<Rightarrow> (diff_kind \<times> 'a) list" where
  "lcs_walk t ma mb i j =
     (if i < length ma \<and> j < length mb then
        (if ma ! i = mb ! j then (Same, ma ! i) # lcs_walk t ma mb (Suc i) (Suc j)
         else if t ! i ! Suc j \<le> t ! Suc i ! j then (Del, ma ! i) # lcs_walk t ma mb (Suc i) j
         else (Add, mb ! j) # lcs_walk t ma mb i (Suc j))
      else dels (drop i ma) @ adds (drop j mb))"
  by pat_completeness auto
termination
  by (relation "measure (\<lambda>(t, ma, mb, i, j). (length ma - i) + (length mb - j))") auto

declare lcs_walk.simps [simp del]

definition diff_max_cells :: nat where "diff_max_cells = 4000000"

definition diff_middle :: "'a list \<Rightarrow> 'a list \<Rightarrow> (diff_kind \<times> 'a) list" where
  "diff_middle ma mb =
     (if diff_max_cells < length ma * length mb \<or> ma = [] \<or> mb = [] then dels ma @ adds mb
      else lcs_walk (lcs_table ma mb) ma mb 0 0)"

definition diff_parts :: "'a list \<Rightarrow> 'a list \<Rightarrow> 'a list \<times> 'a list \<times> 'a list \<times> 'a list" where
  "diff_parts a b =
     (let pre = common_prefix a b; a1 = drop pre a; b1 = drop pre b;
          suf = common_prefix (rev a1) (rev b1)
      in (take pre a, take (length a1 - suf) a1, take (length b1 - suf) b1, drop (length a1 - suf) a1))"

definition diff_script :: "'a list \<Rightarrow> 'a list \<Rightarrow> (diff_kind \<times> 'a) list" where
  "diff_script a b =
     (let (pre, ma, mb, suf) = diff_parts a b in keeps pre @ diff_middle ma mb @ keeps suf)"

definition diff_lines :: "string list \<Rightarrow> string list \<Rightarrow> diff_op list" where
  "diff_lines a b = number_ops 0 0 (diff_script a b)"

section \<open>What an edit script is for\<close>

definition old_side :: "(diff_kind \<times> 'a) list \<Rightarrow> 'a list" where
  "old_side s = List.map snd (filter (\<lambda>p. fst p \<noteq> Add) s)"

definition new_side :: "(diff_kind \<times> 'a) list \<Rightarrow> 'a list" where
  "new_side s = List.map snd (filter (\<lambda>p. fst p \<noteq> Del) s)"

definition kept_side :: "(diff_kind \<times> 'a) list \<Rightarrow> 'a list" where
  "kept_side s = List.map snd (filter (\<lambda>p. fst p = Same) s)"

definition changes :: "(diff_kind \<times> 'a) list \<Rightarrow> nat" where
  "changes s = length (filter (\<lambda>p. fst p \<noteq> Same) s)"

lemmas side_defs = old_side_def new_side_def kept_side_def changes_def dels_def adds_def keeps_def

lemma sides_append [simp]:
  "old_side (s @ t) = old_side s @ old_side t" "new_side (s @ t) = new_side s @ new_side t"
  "kept_side (s @ t) = kept_side s @ kept_side t" "changes (s @ t) = changes s + changes t"
  by (simp_all add: side_defs)

lemma sides_blocks [simp]:
  "old_side (dels xs) = xs" "new_side (dels xs) = []" "kept_side (dels xs) = []"
  "old_side (adds xs) = []" "new_side (adds xs) = xs" "kept_side (adds xs) = []"
  "old_side (keeps xs) = xs" "new_side (keeps xs) = xs" "kept_side (keeps xs) = xs"
  by (simp_all add: side_defs filter_map comp_def)

lemma sides_Cons [simp]:
  "old_side ((k, x) # s) = (if k = Add then old_side s else x # old_side s)"
  "new_side ((k, x) # s) = (if k = Del then new_side s else x # new_side s)"
  "kept_side ((k, x) # s) = (if k = Same then x # kept_side s else kept_side s)"
  "changes ((k, x) # s) = (if k = Same then changes s else Suc (changes s))"
  by (simp_all add: side_defs)

lemma sides_Nil [simp]: "old_side [] = []" "new_side [] = []" "kept_side [] = []" "changes [] = 0"
  by (simp_all add: side_defs)

text \<open>Whatever is not a change is kept on both sides, so fewer changes means more lines kept.\<close>

lemma script_lengths: "length (old_side s) + length (new_side s) = changes s + 2 * length (kept_side s)"
proof (induction s)
  case (Cons p s)
  then show ?case by (cases p; cases "fst p") auto
qed simp

lemma kept_subseq: "subseq (kept_side s) (old_side s)" "subseq (kept_side s) (new_side s)"
proof (induction s)
  case (Cons p s)
  case 1 show ?case using Cons(1) by (cases p; cases "fst p") auto
  case 2 show ?case using Cons(2) by (cases p; cases "fst p") auto
qed simp_all

section \<open>Longest common subsequences\<close>

fun lcs :: "'a list \<Rightarrow> 'a list \<Rightarrow> nat" where
  "lcs [] ys = 0"
| "lcs (x # xs) [] = 0"
| "lcs (x # xs) (y # ys) = (if x = y then Suc (lcs xs ys) else max (lcs xs (y # ys)) (lcs (x # xs) ys))"

lemma lcs_Nil2 [simp]: "lcs xs [] = 0"
  by (cases xs) simp_all

lemma lcs_upper: "subseq zs xs \<Longrightarrow> subseq zs ys \<Longrightarrow> length zs \<le> lcs xs ys"
proof (induction xs ys arbitrary: zs rule: lcs.induct)
  case (3 x xs y ys)
  show ?case
  proof (cases zs)
    case (Cons z zs')
    show ?thesis
    proof (cases "x = y")
      case True
      have "subseq zs' xs \<and> subseq zs' ys"
        using "3.prems" Cons by (auto simp: subseq_Cons2_iff dest: subseq_Cons' split: if_splits)
      then show ?thesis using "3.IH"(1) [OF True, of zs'] True Cons by simp
    next
      case False
      have "subseq zs xs \<or> subseq zs ys"
        using "3.prems" False Cons by (auto simp: subseq_Cons2_iff split: if_splits)
      then show ?thesis
        using "3.IH"(2) [OF False, of zs] "3.IH"(3) [OF False, of zs] "3.prems" False by auto
    qed
  qed simp
qed auto

lemma lcs_attained: "\<exists>zs. subseq zs xs \<and> subseq zs ys \<and> length zs = lcs xs ys"
proof (induction xs ys rule: lcs.induct)
  case (3 x xs y ys)
  show ?case
  proof (cases "x = y")
    case True
    with "3.IH"(1) obtain zs where "subseq zs xs" "subseq zs ys" "length zs = lcs xs ys" by blast
    with True show ?thesis by (intro exI [of _ "x # zs"]) simp
  next
    case False
    from "3.IH"(2) [OF False] "3.IH"(3) [OF False] obtain zs1 zs2 where
      "subseq zs1 xs" "subseq zs1 (y # ys)" "length zs1 = lcs xs (y # ys)"
      "subseq zs2 (x # xs)" "subseq zs2 ys" "length zs2 = lcs (x # xs) ys" by blast
    with False show ?thesis
      by (cases "lcs xs (y # ys) \<le> lcs (x # xs) ys") (auto simp: max_def intro: subseq_Cons' exI [of _ zs1] exI [of _ zs2])
  qed
qed (auto intro: exI [of _ "[]"])

lemma subseq_reversed: "subseq xs ys \<Longrightarrow> subseq (rev xs) (rev ys)"
proof (induction rule: list_emb.induct)
  case (list_emb_Cons2 x y xs ys)
  then show ?case by (simp add: list_emb_append_mono)
qed (simp_all add: subseq_rev_drop_many)

lemma lcs_rev: "lcs (rev xs) (rev ys) = lcs xs ys"
proof (rule antisym)
  have le: "lcs (rev xs) (rev ys) \<le> lcs xs ys" for xs ys :: "'a list"
  proof -
    obtain zs where zs: "subseq zs (rev xs)" "subseq zs (rev ys)" "length zs = lcs (rev xs) (rev ys)"
      using lcs_attained by blast
    then have "subseq (rev zs) xs" "subseq (rev zs) ys"
      using subseq_reversed [of zs "rev xs"] subseq_reversed [of zs "rev ys"] by simp_all
    from lcs_upper [OF this] zs(3) show ?thesis by simp
  qed
  from le [of xs ys] le [of "rev xs" "rev ys"] show "lcs (rev xs) (rev ys) \<le> lcs xs ys" "lcs xs ys \<le> lcs (rev xs) (rev ys)"
    by simp_all
qed

lemma lcs_prefix: "lcs (p @ xs) (p @ ys) = length p + lcs xs ys"
  by (induction p) simp_all

lemma lcs_suffix: "lcs (xs @ q) (ys @ q) = lcs xs ys + length q"
  using lcs_rev [of "xs @ q" "ys @ q"] lcs_rev [of xs ys] lcs_prefix [of "rev q" "rev xs" "rev ys"] by simp

section \<open>The table holds them\<close>

definition row_of :: "'a list \<Rightarrow> 'a list \<Rightarrow> nat list" where
  "row_of xs ys = List.map (\<lambda>j. lcs xs (drop j ys)) [0..<Suc (length ys)]"

lemma upt_shift: "[0..<Suc n] = 0 # List.map Suc [0..<n]"
  by (simp add: upt_conv_Cons map_Suc_upt del: upt_Suc)

lemma row_of_Cons: "row_of xs (y # ys) = lcs xs (y # ys) # row_of xs ys"
  by (simp add: row_of_def upt_shift [of "Suc (length ys)"] comp_def del: upt_Suc)

lemma hd_row_of [simp]: "hd (row_of xs ys) = lcs xs ys" "row_of xs ys \<noteq> []"
  by (simp_all add: row_of_def upt_conv_Cons del: upt_Suc)

lemma lcs_row_correct: "lcs_row x ys (row_of xs ys) = row_of (x # xs) ys"
  by (induction ys) (simp_all add: row_of_Cons Let_def, simp add: row_of_def)

lemma lcs_table_correct: "lcs_table xs ys = List.map (\<lambda>i. row_of (drop i xs) ys) [0..<Suc (length xs)]"
proof (induction xs)
  case Nil
  have "List.map (\<lambda>j. 0) [0..<Suc (length ys)] = replicate (Suc (length ys)) (0 :: nat)"
    by (simp only: map_replicate_const length_upt) simp
  then have "row_of [] ys = replicate (Suc (length ys)) 0" by (simp only: row_of_def lcs.simps)
  then show ?case by (simp add: upt_shift [of 0])
next
  case (Cons x xs)
  have u: "[0..<Suc (length (x # xs))] = 0 # List.map Suc [0..<Suc (length xs)]"
    by (simp add: upt_shift [of "Suc (length xs)"] del: upt_Suc)
  have h: "hd (List.map (\<lambda>i. row_of (drop i xs) ys) [0..<Suc (length xs)]) = row_of xs ys"
    by (simp add: upt_conv_Cons del: upt_Suc)
  show ?case
    by (simp only: lcs_table.simps Let_def Cons h u list.map list.map_comp comp_def drop_0 drop_Suc_Cons lcs_row_correct)
qed

lemma lcs_table_at:
  assumes "i \<le> length xs" "j \<le> length ys"
  shows "lcs_table xs ys ! i ! j = lcs (drop i xs) (drop j ys)"
proof -
  have "lcs_table xs ys ! i = row_of (drop i xs) ys" using assms(1) by (simp add: lcs_table_correct del: upt_Suc)
  then show ?thesis using assms(2) by (simp add: row_of_def del: upt_Suc)
qed

section \<open>The walk\<close>

lemma lcs_walk_step:
  "i < length ma \<Longrightarrow> j < length mb \<Longrightarrow> lcs_walk t ma mb i j =
     (if ma ! i = mb ! j then (Same, ma ! i) # lcs_walk t ma mb (Suc i) (Suc j)
      else if t ! i ! Suc j \<le> t ! Suc i ! j then (Del, ma ! i) # lcs_walk t ma mb (Suc i) j
      else (Add, mb ! j) # lcs_walk t ma mb i (Suc j))"
  "\<not> (i < length ma \<and> j < length mb) \<Longrightarrow> lcs_walk t ma mb i j = dels (drop i ma) @ adds (drop j mb)"
  by (auto simp: lcs_walk.simps [of t ma mb i j])

declare lcs.simps(3) [simp del]

lemma lcs_walk_sides:
  "i \<le> length ma \<Longrightarrow> j \<le> length mb \<Longrightarrow>
     old_side (lcs_walk t ma mb i j) = drop i ma \<and> new_side (lcs_walk t ma mb i j) = drop j mb"
proof (induction t ma mb i j rule: lcs_walk.induct)
  case (1 t ma mb i j)
  show ?case
  proof (cases "i < length ma \<and> j < length mb")
    case True
    then have d: "drop i ma = ma ! i # drop (Suc i) ma" "drop j mb = mb ! j # drop (Suc j) mb"
      by (simp_all add: Cons_nth_drop_Suc)
    with 1 True show ?thesis by (simp add: lcs_walk_step(1))
  qed (simp add: lcs_walk_step(2))
qed

lemma lcs_walk_kept:
  "i \<le> length ma \<Longrightarrow> j \<le> length mb \<Longrightarrow> t = lcs_table ma mb \<Longrightarrow>
     length (kept_side (lcs_walk t ma mb i j)) = lcs (drop i ma) (drop j mb)"
proof (induction t ma mb i j rule: lcs_walk.induct)
  case (1 t ma mb i j)
  show ?case
  proof (cases "i < length ma \<and> j < length mb")
    case True
    then have d: "drop i ma = ma ! i # drop (Suc i) ma" "drop j mb = mb ! j # drop (Suc j) mb"
      by (simp_all add: Cons_nth_drop_Suc)
    have at: "t ! i ! Suc j = lcs (drop i ma) (drop (Suc j) mb)" "t ! Suc i ! j = lcs (drop (Suc i) ma) (drop j mb)"
      using True "1.prems"(3) by (simp_all add: lcs_table_at)
    show ?thesis
      using 1 True at d by (simp add: lcs_walk_step(1) lcs.simps(3) max_def)
  next
    case False
    then have "drop i ma = [] \<or> drop j mb = []" using 1 by auto
    with False show ?thesis by (auto simp: lcs_walk_step(2))
  qed
qed

lemma common_prefix_take: "take (common_prefix xs ys) xs = take (common_prefix xs ys) ys"
  by (induction xs ys rule: common_prefix.induct) auto

lemma common_prefix_le: "common_prefix xs ys \<le> length xs" "common_prefix xs ys \<le> length ys"
  by (induction xs ys rule: common_prefix.induct) auto

lemma diff_parts_join:
  assumes "diff_parts a b = (pre, ma, mb, suf)"
  shows "a = pre @ ma @ suf" "b = pre @ mb @ suf"
proof -
  define n where "n = common_prefix a b"
  define a1 b1 where "a1 = drop n a" and "b1 = drop n b"
  define k where "k = common_prefix (rev a1) (rev b1)"
  have parts: "pre = take n a" "ma = take (length a1 - k) a1" "mb = take (length b1 - k) b1" "suf = drop (length a1 - k) a1"
    using assms by (simp_all add: diff_parts_def Let_def n_def a1_def b1_def k_def)
  have "take k (rev a1) = take k (rev b1)" "k \<le> length a1" "k \<le> length b1"
    using common_prefix_take [of "rev a1" "rev b1"] common_prefix_le [of "rev a1" "rev b1"] by (simp_all add: k_def)
  then have "drop (length a1 - k) a1 = drop (length b1 - k) b1" by (simp add: take_rev)
  moreover have "take n a = take n b" unfolding n_def by (rule common_prefix_take)
  moreover have "a = take n a @ a1" "b = take n b @ b1" by (simp_all add: a1_def b1_def)
  ultimately show "a = pre @ ma @ suf" "b = pre @ mb @ suf"
    unfolding parts by (metis append_take_drop_id)+
qed

lemma diff_script_sides: "old_side (diff_script a b) = a" "new_side (diff_script a b) = b"
proof -
  obtain pre ma mb suf where p: "diff_parts a b = (pre, ma, mb, suf)" by (metis prod_cases4)
  have "old_side (diff_middle ma mb) = ma" "new_side (diff_middle ma mb) = mb"
    by (simp_all add: diff_middle_def lcs_walk_sides)
  then have "old_side (diff_script a b) = pre @ ma @ suf" "new_side (diff_script a b) = pre @ mb @ suf"
    by (simp_all add: diff_script_def p)
  then show "old_side (diff_script a b) = a" "new_side (diff_script a b) = b"
    by (simp_all only: diff_parts_join [OF p, symmetric])
qed

section \<open>Positions\<close>

definition op_ok :: "string list \<Rightarrow> string list \<Rightarrow> diff_op \<Rightarrow> bool" where
  "op_ok a b p =
     ((do_kind p = Add \<or> (do_a p < length a \<and> a ! do_a p = do_text p))
      \<and> (do_kind p = Del \<or> (do_b p < length b \<and> b ! do_b p = do_text p)))"

lemma number_ops_ok:
  "list_all (op_ok (pa @ old_side s) (pb @ new_side s)) (number_ops (length pa) (length pb) s)"
proof (induction s arbitrary: pa pb)
  case (Cons p s)
  obtain k t where p: "p = (k, t)" by (cases p) auto
  show ?case
    using Cons [of "if k = Add then pa else pa @ [t]" "if k = Del then pb else pb @ [t]"]
    by (cases k) (auto simp: p op_ok_def nth_append)
qed simp

section \<open>Minimality\<close>

lemma diff_middle_kept:
  "length ma * length mb \<le> diff_max_cells \<Longrightarrow> length (kept_side (diff_middle ma mb)) = lcs ma mb"
  by (auto simp: diff_middle_def lcs_walk_kept)

lemma diff_script_kept:
  assumes "diff_parts a b = (pre, ma, mb, suf)" "length ma * length mb \<le> diff_max_cells"
  shows "length (kept_side (diff_script a b)) = lcs a b"
proof -
  have "length (kept_side (diff_script a b)) = length pre + (lcs ma mb + length suf)"
    using diff_middle_kept [OF assms(2)] by (simp add: diff_script_def assms(1))
  also have "\<dots> = lcs (pre @ ma @ suf) (pre @ mb @ suf)" by (simp add: lcs_prefix lcs_suffix)
  finally show ?thesis by (simp only: diff_parts_join [OF assms(1), symmetric])
qed

section \<open>Hunks\<close>

definition diff_context :: nat where "diff_context = 2"

abbreviation changed :: "diff_op \<Rightarrow> bool" where
  "changed p \<equiv> do_kind p \<noteq> Same"

definition same_run :: "diff_op list \<Rightarrow> nat \<Rightarrow> nat" where
  "same_run ops e = length (takeWhile (\<lambda>p. do_kind p = Same) (drop e ops))"

text \<open>Forward from the first change of a hunk to a run of more than twice the context.\<close>

function hunk_end :: "diff_op list \<Rightarrow> nat \<Rightarrow> nat" where
  "hunk_end ops e =
     (if e < length ops then
        (if changed (ops ! e) then hunk_end ops (Suc e)
         else (let run = same_run ops e in
               if 2 * diff_context < run then e + diff_context else hunk_end ops (e + run)))
      else e)"
  by pat_completeness auto
termination
proof (relation "measure (\<lambda>(ops, e). length ops - e)", goal_cases)
  case (3 ops e run)
  then have "drop e ops = ops ! e # drop (Suc e) ops" by (simp add: Cons_nth_drop_Suc)
  with 3 have "0 < run" by (simp add: same_run_def)
  with 3(1) show ?case by simp
qed auto

declare hunk_end.simps [simp del]

fun kind_char :: "diff_kind \<Rightarrow> char" where
  "kind_char Same = CHR '' ''"
| "kind_char Del = CHR ''-''"
| "kind_char Add = CHR ''+''"

definition op_line :: "diff_op \<Rightarrow> string" where
  "op_line p = kind_char (do_kind p) # do_text p"

definition hunk_header :: "diff_op list \<Rightarrow> string" where
  "hunk_header h =
     ''@@ -'' @ itoa (int (do_a (hd h)) + 1) @ '','' @ itoa (int (length (filter (\<lambda>p. do_kind p \<noteq> Add) h)))
     @ '' +'' @ itoa (int (do_b (hd h)) + 1) @ '','' @ itoa (int (length (filter (\<lambda>p. do_kind p \<noteq> Del) h))) @ '' @@''"

text \<open>The lines of a hunk until the limit is hit: lines, changes printed so far, whether it was.\<close>

fun print_hunk :: "nat \<Rightarrow> diff_op list \<Rightarrow> nat \<Rightarrow> string list \<times> nat \<times> bool" where
  "print_hunk mx [] printed = ([], printed, False)"
| "print_hunk mx (p # ps) printed =
     (if changed p \<and> mx \<le> printed then ([], printed, True)
      else (let (ls, n, capped) = print_hunk mx ps (if changed p then Suc printed else printed) in (op_line p # ls, n, capped)))"

definition ellipsis :: string where "ellipsis = [CHR 0xE2, CHR 0x80, CHR 0xA6]"

definition more_lines :: "nat \<Rightarrow> string" where
  "more_lines n = ellipsis @ '' and '' @ itoa (int n) @ '' more lines''"

partial_function (option) hunk_loop ::
  "nat \<Rightarrow> nat \<Rightarrow> diff_op list \<Rightarrow> nat \<Rightarrow> nat \<Rightarrow> string list \<Rightarrow> string list option" where
  "hunk_loop mx tot ops i printed acc =
     (if i < length ops then
        (if \<not> changed (ops ! i) then hunk_loop mx tot ops (Suc i) printed acc
         else (let start = i - diff_context; e = min (hunk_end ops i) (length ops);
                   hunk = take (e - start) (drop start ops);
                   (ls, n, capped) = print_hunk mx hunk printed;
                   acc' = acc @ [hunk_header hunk] @ ls
               in if capped then Some (acc' @ [more_lines (tot - mx)])
                  else hunk_loop mx tot ops e n acc'))
      else Some acc)"

definition no_changes :: string where "no_changes = ''(no changes)''"

definition diff_text :: "string \<Rightarrow> string \<Rightarrow> int \<Rightarrow> (string \<times> nat) option" where
  "diff_text a b max_lines =
     (let mx = (if max_lines \<le> 0 then 200 else nat max_lines) in
      if a = b then Some (no_changes, 0)
      else (let ops = diff_lines (split_lines a) (split_lines b); tot = length (filter changed ops) in
            if tot = 0 then Some (no_changes, 0)
            else map_option (\<lambda>ls. (str_join [newline] ls, tot)) (hunk_loop mx tot ops 0 0 [])))"

text \<open>The diff lines of a rendering, apart from context, hunk headers and the closing note.\<close>

definition change_line :: "string \<Rightarrow> bool" where
  "change_line l = (l \<noteq> [] \<and> (hd l = CHR ''+'' \<or> hd l = CHR ''-''))"

lemma change_line_op [simp]: "change_line (op_line p) = changed p"
  by (cases "do_kind p") (simp_all add: change_line_def op_line_def)

lemma change_line_other [simp]: "\<not> change_line (hunk_header h)" "\<not> change_line (more_lines n)"
  by (simp_all add: change_line_def hunk_header_def more_lines_def ellipsis_def)

lemma print_hunk_changes:
  "print_hunk mx ps printed = (ls, n, capped) \<Longrightarrow>
     filter change_line ls = take (mx - printed) (List.map op_line (filter changed ps))
     \<and> capped = (mx - printed < length (filter changed ps))
     \<and> (\<not> capped \<longrightarrow> n = printed + length (filter changed ps))"
proof (induction ps arbitrary: printed ls)
  case (Cons p ps)
  show ?case
  proof (cases "changed p \<and> mx \<le> printed")
    case True
    with Cons.prems show ?thesis by auto
  next
    case False
    obtain ls' where l: "print_hunk mx ps (if changed p then Suc printed else printed) = (ls', n, capped)" "ls = op_line p # ls'"
      using Cons.prems False by (auto simp: Let_def split: prod.splits)
    show ?thesis
    proof (cases "changed p")
      case True
      with False obtain k where "mx - printed = Suc k" "mx - Suc printed = k" by (cases "mx - printed") auto
      with Cons.IH [OF l(1)] l(2) True show ?thesis by auto
    next
      case False
      with Cons.IH [OF l(1)] l(2) show ?thesis by auto
    qed
  qed
qed simp

definition context_before :: "diff_op list \<Rightarrow> nat \<Rightarrow> bool" where
  "context_before ops i = (\<forall>k. i - diff_context \<le> k \<longrightarrow> k < i \<longrightarrow> k < length ops \<longrightarrow> \<not> changed (ops ! k))"

lemma same_run_nth: "k < same_run ops e \<Longrightarrow> e \<le> length ops \<Longrightarrow> \<not> changed (ops ! (e + k)) \<and> e + k < length ops"
proof -
  assume k: "k < same_run ops e" and e: "e \<le> length ops"
  have "same_run ops e \<le> length (drop e ops)" unfolding same_run_def by (rule length_takeWhile_le)
  with k e have len: "e + k < length ops" by simp
  have "takeWhile (\<lambda>p. do_kind p = Same) (drop e ops) ! k = drop e ops ! k"
    using k by (simp add: same_run_def takeWhile_nth)
  moreover have "takeWhile (\<lambda>p. do_kind p = Same) (drop e ops) ! k \<in> set (takeWhile (\<lambda>p. do_kind p = Same) (drop e ops))"
    using k by (simp add: same_run_def)
  ultimately show ?thesis using len e by (auto dest: set_takeWhileD)
qed

lemma hunk_end_steps:
  "\<not> e < length ops \<Longrightarrow> hunk_end ops e = e"
  "e < length ops \<Longrightarrow> changed (ops ! e) \<Longrightarrow> hunk_end ops e = hunk_end ops (Suc e)"
  "e < length ops \<Longrightarrow> \<not> changed (ops ! e) \<Longrightarrow> 2 * diff_context < same_run ops e \<Longrightarrow> hunk_end ops e = e + diff_context"
  "e < length ops \<Longrightarrow> \<not> changed (ops ! e) \<Longrightarrow> \<not> 2 * diff_context < same_run ops e \<Longrightarrow>
     hunk_end ops e = hunk_end ops (e + same_run ops e)"
  by (simp_all add: hunk_end.simps [of ops e] Let_def)

lemma hunk_end_grows: "e \<le> hunk_end ops e"
proof (induction ops e rule: hunk_end.induct)
  case (1 ops e)
  consider "\<not> e < length ops" | "e < length ops" "changed (ops ! e)"
    | "e < length ops" "\<not> changed (ops ! e)" "2 * diff_context < same_run ops e"
    | "e < length ops" "\<not> changed (ops ! e)" "\<not> 2 * diff_context < same_run ops e" by blast
  then show ?case
  proof cases
    case 2
    from 1(1) [OF 2] show ?thesis by (simp add: hunk_end_steps(2) [OF 2])
  next
    case 4
    from 1(2) [OF 4(1,2) refl 4(3)] show ?thesis by (simp add: hunk_end_steps(4) [OF 4])
  qed (simp_all add: hunk_end_steps)
qed

lemma hunk_end_after: "e < length ops \<Longrightarrow> changed (ops ! e) \<Longrightarrow> e < hunk_end ops e"
  using hunk_end_grows [of "Suc e" ops] by (simp add: hunk_end_steps(2))

lemma hunk_end_context: "e \<le> length ops \<Longrightarrow> hunk_end ops e \<le> length ops \<and> (hunk_end ops e = length ops \<or> context_before ops (hunk_end ops e))"
proof (induction ops e rule: hunk_end.induct)
  case (1 ops e)
  show ?case
  proof (cases "e < length ops")
    case True
    show ?thesis
    proof (cases "changed (ops ! e)")
      case False
      have "same_run ops e \<le> length (drop e ops)" unfolding same_run_def by (rule length_takeWhile_le)
      then have le: "e + same_run ops e \<le> length ops" using True by simp
      show ?thesis
      proof (cases "2 * diff_context < same_run ops e")
        case long: True
        then have "\<not> changed (ops ! (e + 0)) \<and> \<not> changed (ops ! (e + 1))"
          using same_run_nth [of 0 ops e] same_run_nth [of 1 ops e] True by (auto simp: diff_context_def)
        then have "context_before ops (e + diff_context)"
          by (auto simp: context_before_def diff_context_def le_Suc_eq less_Suc_eq)
        with True False long le show ?thesis by (simp add: hunk_end_steps(3) diff_context_def)
      next
        case short: False
        from 1(2) [OF True False refl short le] True False short show ?thesis
          by (simp add: hunk_end_steps(4))
      qed
    next
      case chg: True
      from 1(1) [OF True chg] True chg show ?thesis by (simp add: hunk_end_steps(2))
    qed
  next
    case False
    with 1(3) have "e = length ops" by simp
    then show ?thesis by (simp add: hunk_end_steps(1))
  qed
qed

lemma changes_number: "length (filter changed (number_ops ai bi s)) = changes s"
proof (induction s arbitrary: ai bi)
  case (Cons p s)
  then show ?case by (cases p) simp
qed simp

lemma filter_context: "context_before ops i \<Longrightarrow> e \<le> length ops \<Longrightarrow> i \<le> e \<Longrightarrow>
   filter changed (take (e - (i - diff_context)) (drop (i - diff_context) ops)) = filter changed (take (e - i) (drop i ops))"
proof -
  assume ctx: "context_before ops i" and e: "e \<le> length ops" "i \<le> e"
  let ?s = "i - diff_context"
  have "take (e - ?s) (drop ?s ops) = take (i - ?s) (drop ?s ops) @ take (e - i) (drop i ops)"
    using e take_add [of "i - ?s" "e - i" "drop ?s ops"] by simp
  moreover have "\<not> changed p" if "p \<in> set (take (i - ?s) (drop ?s ops))" for p
  proof -
    from that obtain k where k: "k < length (take (i - ?s) (drop ?s ops))" "p = take (i - ?s) (drop ?s ops) ! k"
      by (auto simp: in_set_conv_nth)
    with e have "p = ops ! (?s + k)" "?s + k < i" "?s + k < length ops" by auto
    with ctx show ?thesis by (auto simp: context_before_def)
  qed
  ultimately show ?thesis by (simp add: filter_empty_conv)
qed

lemma print_hunk_all: "print_hunk mx ps printed = (ls, n, False) \<Longrightarrow> ls = List.map op_line ps"
  by (induction mx ps printed arbitrary: ls rule: print_hunk.induct) (auto split: if_splits prod.splits simp: Let_def)

lemma op_line_not_note [simp]: "op_line p \<noteq> more_lines n" "hunk_header h \<noteq> more_lines n"
  by (cases "do_kind p"; simp add: op_line_def more_lines_def ellipsis_def)
     (simp add: hunk_header_def more_lines_def ellipsis_def)

lemma hunk_lines_not_note: "last (hunk_header h # List.map op_line ps) \<noteq> more_lines n"
  by (cases ps rule: rev_cases) simp_all

text \<open>The loop ends and has printed every change, in order, up to the limit.\<close>

lemma hunk_loop_prints:
  "i \<le> length ops \<Longrightarrow> context_before ops i \<Longrightarrow> printed \<le> mx \<Longrightarrow>
     \<exists>ls. hunk_loop mx tot ops i printed acc = Some (acc @ ls)
       \<and> filter change_line ls = take (mx - printed) (List.map op_line (filter changed (drop i ops)))
       \<and> (mx - printed < length (filter changed (drop i ops)) \<longleftrightarrow> (ls \<noteq> [] \<and> last ls = more_lines (tot - mx)))"
proof (induction "length ops - i" arbitrary: i printed acc rule: less_induct)
  case less
  show ?case
  proof (cases "i < length ops")
    case False
    then show ?thesis by (simp add: hunk_loop.simps)
  next
    case True
    show ?thesis
    proof (cases "changed (ops ! i)")
      case False
      have "context_before ops (Suc i)"
        using less.prems(2) False by (auto simp: context_before_def less_Suc_eq)
      moreover have "filter changed (drop i ops) = filter changed (drop (Suc i) ops)"
        using True False by (simp add: Cons_nth_drop_Suc [symmetric])
      ultimately show ?thesis
        using less.hyps [of "Suc i" printed acc] less.prems(3) True False by (simp add: hunk_loop.simps [of mx tot ops i])
    next
      case chg: True
      define e where "e = hunk_end ops i"
      define hunk where "hunk = take (e - (i - diff_context)) (drop (i - diff_context) ops)"
      have e: "i < e" "e \<le> length ops" "e = length ops \<or> context_before ops e"
        using hunk_end_after [OF True chg] hunk_end_context [of i ops] less.prems(1) by (simp_all add: e_def)
      obtain ls n capped where ph: "print_hunk mx hunk printed = (ls, n, capped)" by (cases "print_hunk mx hunk printed") auto
      have fh: "filter changed hunk = filter changed (take (e - i) (drop i ops))"
        unfolding hunk_def using filter_context [OF less.prems(2) e(2)] e(1) by simp
      note pc = print_hunk_changes [OF ph]
      have split: "filter changed (drop i ops) = filter changed hunk @ filter changed (drop e ops)"
        using e append_take_drop_id [of "e - i" "drop i ops"] unfolding fh by (metis drop_drop filter_append le_add_diff_inverse2 less_imp_le)
      have step: "hunk_loop mx tot ops i printed acc =
        (if capped then Some (acc @ ([hunk_header hunk] @ ls) @ [more_lines (tot - mx)])
         else hunk_loop mx tot ops e n (acc @ [hunk_header hunk] @ ls))"
        using True chg e(2) ph by (simp add: hunk_loop.simps [of mx tot ops i] e_def [symmetric] hunk_def [symmetric] Let_def min_absorb1)
      show ?thesis
      proof (cases capped)
        case True
        with step pc split show ?thesis
          by (intro exI [of _ "([hunk_header hunk] @ ls) @ [more_lines (tot - mx)]"]) auto
      next
        case False
        with pc have n: "n = printed + length (filter changed hunk)" "length (filter changed hunk) \<le> mx - printed" by auto
        have printed: "n \<le> mx" "filter change_line ls = List.map op_line (filter changed hunk)"
          using n less.prems(3) pc by simp_all
        have "\<exists>ls'. hunk_loop mx tot ops e n (acc @ [hunk_header hunk] @ ls) = Some ((acc @ [hunk_header hunk] @ ls) @ ls')
            \<and> filter change_line ls' = take (mx - n) (List.map op_line (filter changed (drop e ops)))
            \<and> (mx - n < length (filter changed (drop e ops)) \<longleftrightarrow> (ls' \<noteq> [] \<and> last ls' = more_lines (tot - mx)))"
        proof (cases "e = length ops")
          case True
          then show ?thesis by (simp add: hunk_loop.simps)
        next
          case False
          then have "context_before ops e" using e(3) by simp
          with less.hyps [of e n "acc @ [hunk_header hunk] @ ls"] e(1,2) True printed(1) show ?thesis by simp
        qed
        then obtain ls' where ls': "hunk_loop mx tot ops e n (acc @ [hunk_header hunk] @ ls) = Some ((acc @ [hunk_header hunk] @ ls) @ ls')"
          "filter change_line ls' = take (mx - n) (List.map op_line (filter changed (drop e ops)))"
          "mx - n < length (filter changed (drop e ops)) \<longleftrightarrow> (ls' \<noteq> [] \<and> last ls' = more_lines (tot - mx))" by blast
        have no_note: "last (hunk_header hunk # ls) \<noteq> more_lines (tot - mx)"
          using print_hunk_all [of mx hunk printed ls n] ph False hunk_lines_not_note [of hunk hunk] by simp
        have "last ((hunk_header hunk # ls) @ ls') = more_lines (tot - mx) \<longleftrightarrow> ls' \<noteq> [] \<and> last ls' = more_lines (tot - mx)"
          using no_note by (cases "ls' = []") simp_all
        with ls' step False n printed split show ?thesis
          by (intro exI [of _ "(hunk_header hunk # ls) @ ls'"]) auto
      qed
    qed
  qed
qed

section \<open>What the text diff promises\<close>

lemma common_prefix_self [simp]: "common_prefix xs xs = length xs"
  by (induction xs) simp_all

lemma diff_script_self: "changes (diff_script a a) = 0"
proof -
  have "changes (keeps xs) = 0" for xs :: "'a list" by (simp add: side_defs filter_empty_conv)
  then show ?thesis by (simp add: diff_script_def diff_parts_def Let_def diff_middle_def dels_def adds_def)
qed

text \<open>The edit script between two texts is one: the lines it keeps or deletes are, in order, the
  first text, those it keeps or adds are the second, and every operation carries the position at
  which its line stands in each of them.\<close>

theorem diff_rebuilds_both:
  "old_side (diff_script a b) = a \<and> new_side (diff_script a b) = b \<and> list_all (op_ok a b) (diff_lines a b)"
  using number_ops_ok [of "[]" "diff_script a b" "[]"] by (simp add: diff_lines_def diff_script_sides)

text \<open>C23: below the table's size limit the diff is minimal: no edit script between the two texts has
  fewer added and deleted lines.\<close>

theorem diff_fewest_changes:
  assumes "diff_parts a b = (pre, ma, mb, suf)" "length ma * length mb \<le> diff_max_cells"
    and "old_side s = a" "new_side s = b"
  shows "changes (diff_script a b) \<le> changes s"
proof -
  have "length (kept_side s) \<le> lcs a b"
    using lcs_upper kept_subseq [of s] assms(3,4) by metis
  then show ?thesis
    using script_lengths [of s] script_lengths [of "diff_script a b"] diff_script_kept [OF assms(1,2)] assms(3,4)
    by (simp add: diff_script_sides)
qed

lemma diff_fewest_changes_witness:
  "changes (diff_script [''a'', ''b'', ''c''] [''b'', ''c'', ''d'']) \<le> changes [(Del, ''a''), (Del, ''b''), (Add, ''b''), (Same, ''c''), (Add, ''d'')]"
  by (rule diff_fewest_changes [where pre = "[]" and ma = "[''a'', ''b'', ''c'']" and mb = "[''b'', ''c'', ''d'']" and suf = "[]"])
    (simp_all add: diff_parts_def Let_def diff_max_cells_def)

definition text_changes :: "string \<Rightarrow> string \<Rightarrow> nat" where
  "text_changes a b = changes (diff_script (split_lines a) (split_lines b))"

definition line_limit :: "int \<Rightarrow> nat" where
  "line_limit m = (if m \<le> 0 then 200 else nat m)"

lemma no_changes_line: "filter change_line [no_changes] = []" "no_changes \<noteq> more_lines n"
  by (simp_all add: no_changes_def change_line_def more_lines_def ellipsis_def)

text \<open>C22: the text diff always ends. It counts every changed line; it prints the changed lines in
  order up to the limit, and says how many are left exactly when it left some out.\<close>

theorem diff_text_ends:
  "\<exists>ls. diff_text a b m = Some (str_join [newline] ls, text_changes a b)
     \<and> filter change_line ls
         = take (line_limit m) (List.map op_line (filter changed (diff_lines (split_lines a) (split_lines b))))
     \<and> (line_limit m < text_changes a b \<longleftrightarrow> last ls = more_lines (text_changes a b - line_limit m))"
proof -
  let ?ops = "diff_lines (split_lines a) (split_lines b)"
  have n: "length (filter changed ?ops) = text_changes a b"
    by (simp add: diff_lines_def changes_number text_changes_def)
  show ?thesis
  proof (cases "a = b \<or> text_changes a b = 0")
    case True
    then have z: "text_changes a b = 0" by (auto simp: text_changes_def diff_script_self)
    then have "filter changed ?ops = []" using n by simp
    with z True n show ?thesis
      by (intro exI [of _ "[no_changes]"]) (auto simp: diff_text_def Let_def no_changes_line simp del: filter.simps)
  next
    case False
    have "\<exists>ls. hunk_loop (line_limit m) (text_changes a b) ?ops 0 0 [] = Some ([] @ ls)
       \<and> filter change_line ls = take (line_limit m - 0) (List.map op_line (filter changed (drop 0 ?ops)))
       \<and> (line_limit m - 0 < length (filter changed (drop 0 ?ops))
           \<longleftrightarrow> (ls \<noteq> [] \<and> last ls = more_lines (text_changes a b - line_limit m)))"
      by (rule hunk_loop_prints) (simp_all add: context_before_def)
    then obtain ls where ls: "hunk_loop (line_limit m) (text_changes a b) ?ops 0 0 [] = Some ls"
      "filter change_line ls = take (line_limit m) (List.map op_line (filter changed ?ops))"
      "line_limit m < text_changes a b \<longleftrightarrow> (ls \<noteq> [] \<and> last ls = more_lines (text_changes a b - line_limit m))"
      using n by auto
    moreover have "ls \<noteq> []"
    proof
      assume "ls = []"
      then have "take (line_limit m) (List.map op_line (filter changed ?ops)) = []" using ls(2) by simp
      then show False using False n by (auto simp: line_limit_def split: if_splits)
    qed
    moreover have "filter changed ?ops \<noteq> []" using False n by force
    ultimately show ?thesis
      using False n by (intro exI [of _ ls]) (simp add: diff_text_def Let_def line_limit_def)
  qed
qed

text \<open>Texts that differ in a trailing newline only have no changed line, and are reported equal.\<close>

lemma diff_text_trailing_newline: "diff_text ''x'' [CHR ''x'', newline] m = Some (no_changes, 0)"
proof -
  have "split_lines ''x'' = [''x'']" "split_lines [CHR ''x'', newline] = [''x'']" by code_simp+
  then show ?thesis by (simp add: diff_text_def Let_def diff_lines_def diff_script_def diff_parts_def keeps_def
        diff_middle_def dels_def adds_def newline_def)
qed

end
