(* ===== verification/View_Paths.thy ===== *)
theory View_Paths
  imports Prelude
begin

text \<open>
  The gjson paths of the views: \<open>childPath\<close> and \<open>escapeKey\<close> of \<open>internal/view/diff.go\<close>, which build
  them, and \<open>NormalizePath\<close> of \<open>render.go\<close>, which reads JSONPath as gjson.
\<close>

section \<open>Building paths\<close>

definition backslash :: char where "backslash = CHR 0x5C"

definition special_char :: "char \<Rightarrow> bool" where
  "special_char c = (c \<in> {CHR ''.'', CHR ''*'', CHR ''?'', CHR ''|'', CHR ''#'', CHR ''@'', backslash})"

fun escape_chars :: "string \<Rightarrow> string" where
  "escape_chars [] = []"
| "escape_chars (c # s) = (if special_char c then backslash # c # escape_chars s else c # escape_chars s)"

definition escape_key :: "string \<Rightarrow> string" where
  "escape_key k = (if list_ex special_char k then escape_chars k else k)"

definition child_path :: "string \<Rightarrow> string \<Rightarrow> string" where
  "child_path parent key = (if parent = ''$'' then key else parent @ ''.'' @ key)"

lemma escape_key_chars: "escape_key k = escape_chars k"
proof -
  have "\<not> list_ex special_char k \<Longrightarrow> escape_chars k = k" by (induction k) auto
  then show ?thesis by (simp add: escape_key_def)
qed

text \<open>The path of a member below the root, as the walks build it.\<close>

definition key_path :: "string list \<Rightarrow> string" where
  "key_path ks = foldl (\<lambda>p k. child_path p (escape_key k)) ''$'' ks"

text \<open>Reading a path as gjson does: a dot separates, a backslash takes the next character as it is.\<close>

fun split_path :: "string \<Rightarrow> string list" where
  "split_path [] = [[]]"
| "split_path (c # s) =
     (if c = backslash then
        (case s of [] \<Rightarrow> [[]] | d # s' \<Rightarrow> (case split_path s' of [] \<Rightarrow> [[d]] | w # ws \<Rightarrow> (d # w) # ws))
      else if c = CHR ''.'' then [] # split_path s
      else (case split_path s of [] \<Rightarrow> [[c]] | w # ws \<Rightarrow> (c # w) # ws))"

declare split_path.simps(2) [simp del]

lemma split_path_nonempty [simp]: "split_path s \<noteq> []"
proof (cases s)
  case (Cons c s')
  show ?thesis unfolding Cons by (subst split_path.simps(2)) (simp split: list.split)
qed simp

lemma split_path_steps:
  "split_path (backslash # c # s) = (case split_path s of [] \<Rightarrow> [[c]] | w # ws \<Rightarrow> (c # w) # ws)"
  "split_path (CHR ''.'' # s) = [] # split_path s"
  "c \<noteq> backslash \<Longrightarrow> c \<noteq> CHR ''.'' \<Longrightarrow> split_path (c # s) = (case split_path s of [] \<Rightarrow> [[c]] | w # ws \<Rightarrow> (c # w) # ws)"
  by (simp_all add: split_path.simps(2) backslash_def)

lemma split_path_escaped: "split_path (escape_chars k @ s) = (case split_path s of [] \<Rightarrow> [k] | w # ws \<Rightarrow> (k @ w) # ws)"
proof (induction k)
  case Nil
  then show ?case by (cases "split_path s") auto
next
  case (Cons c k)
  show ?case
  proof (cases "special_char c")
    case True
    with Cons show ?thesis by (cases "split_path s") (simp_all add: split_path_steps)
  next
    case False
    then have "c \<noteq> backslash" "c \<noteq> CHR ''.''" by (auto simp: special_char_def)
    with False Cons show ?thesis by (cases "split_path s") (simp_all add: split_path_steps)
  qed
qed

lemma split_path_key: "split_path (escape_chars k) = [k]" "split_path (escape_chars k @ CHR ''.'' # s) = k # split_path s"
  using split_path_escaped [of k "[]"] split_path_escaped [of k "CHR ''.'' # s"] by (simp_all add: split_path_steps)

lemma escape_dollar: "escape_chars k = ''$'' \<longleftrightarrow> k = ''$''"
  by (cases k; cases "tl k") (auto simp: special_char_def backslash_def split: if_splits)

lemma key_path_join: "p \<noteq> ''$'' \<Longrightarrow> foldl (\<lambda>p k. child_path p (escape_key k)) p ks = p @ concat (List.map (\<lambda>k. CHR ''.'' # escape_chars k) ks)"
proof (induction ks arbitrary: p)
  case (Cons k ks)
  have "p @ CHR ''.'' # escape_chars k \<noteq> ''$''" by (cases p) auto
  with Cons show ?case by (simp add: child_path_def escape_key_chars)
qed simp

lemma split_joined: "split_path (escape_chars k @ concat (List.map (\<lambda>k. CHR ''.'' # escape_chars k) ks)) = k # ks"
  by (induction ks arbitrary: k) (simp_all add: split_path_key)

text \<open>The path printed for a place in a document names that place: split at its unescaped dots it
  gives back the keys on the way, whatever characters they contain, unless the first key is \<open>$\<close>.\<close>

theorem key_path_splits:
  assumes "k \<noteq> ''$''"
  shows "split_path (key_path (k # ks)) = k # ks"
proof -
  have "escape_chars k \<noteq> ''$''" using assms by (simp add: escape_dollar)
  then have "key_path (k # ks) = escape_chars k @ concat (List.map (\<lambda>k. CHR ''.'' # escape_chars k) ks)"
    using key_path_join [of "escape_chars k" ks] by (simp add: key_path_def child_path_def escape_key_chars)
  then show ?thesis by (simp add: split_joined)
qed

lemma key_path_splits_witness: "split_path (key_path [''a.b'', ''*'', '''', ''0'']) = [''a.b'', ''*'', '''', ''0'']"
  by (rule key_path_splits) simp

text \<open>A root member named \<open>$\<close> is taken for the root, so two places share a path.\<close>

lemma dollar_key_lost: "key_path [''$'', ''a''] = key_path [''a'']"
  by (simp add: key_path_def child_path_def escape_key_chars special_char_def backslash_def)

section \<open>JSONPath\<close>

definition np_emit :: "string \<Rightarrow> string \<Rightarrow> string" where
  "np_emit sb seg = (if sb = [] then seg else sb @ ''.'' @ seg)"

definition in_quotes :: "string \<Rightarrow> bool" where
  "in_quotes s = (2 \<le> length s \<and> (hd s = CHR 0x27 \<or> hd s = CHR 0x22) \<and> last s = hd s)"

definition np_segment :: "string \<Rightarrow> string" where
  "np_segment s =
     (if s = ''*'' then ''#'' else if in_quotes s then escape_key (butlast (tl s)) else s)"

definition plain_char :: "char \<Rightarrow> bool" where
  "plain_char c = (c \<noteq> CHR ''.'' \<and> c \<noteq> CHR ''['')"

function np_loop :: "string \<Rightarrow> string \<Rightarrow> string" where
  "np_loop [] sb = sb"
| "np_loop (c # s) sb =
     (if c = CHR ''.'' then np_loop s sb
      else if c = CHR ''['' then
        (if CHR '']'' \<notin> set s then np_emit sb (c # s)
         else np_loop (tl (dropWhile (\<lambda>d. d \<noteq> CHR '']'') s))
                (np_emit sb (np_segment (trim_space (takeWhile (\<lambda>d. d \<noteq> CHR '']'') s)))))
      else np_loop (dropWhile plain_char (c # s)) (np_emit sb (takeWhile plain_char (c # s))))"
  by pat_completeness auto
termination
proof (relation "measure (\<lambda>(s, sb). length s)", goal_cases)
  case (3 c s sb)
  then show ?case using length_dropWhile_le [of "\<lambda>d. d \<noteq> CHR '']''" s] by simp
next
  case (4 c s sb)
  then show ?case using length_dropWhile_le [of plain_char s] by (simp add: plain_char_def)
qed simp_all

declare np_loop.simps(2) [simp del]

definition normalize_path :: "string \<Rightarrow> string" where
  "normalize_path p0 =
     (let p = trim_space p0 in
      if p = [] then []
      else if \<not> has_prefix p ''$'' \<and> CHR ''['' \<notin> set p then p
      else np_loop (if has_prefix p ''$'' then trim_prefix p ''$'' else p) [])"

text \<open>JSONPath as it is written, and what each step means in gjson.\<close>

datatype path_step = Field string | Index nat | Quoted string | Every

fun step_text :: "path_step \<Rightarrow> string" where
  "step_text (Field f) = CHR ''.'' # f"
| "step_text (Index n) = ''['' @ itoa (int n) @ '']''"
| "step_text (Quoted k) = ''['' @ [CHR 0x27] @ k @ [CHR 0x27] @ '']''"
| "step_text Every = ''[*]''"

fun step_gjson :: "path_step \<Rightarrow> string" where
  "step_gjson (Field f) = f"
| "step_gjson (Index n) = itoa (int n)"
| "step_gjson (Quoted k) = escape_key k"
| "step_gjson Every = ''#''"

fun ok_step :: "path_step \<Rightarrow> bool" where
  "ok_step (Field f) = (f \<noteq> [] \<and> list_all plain_char f \<and> \<not> is_space (last f))"
| "ok_step (Quoted k) = (k \<noteq> [] \<and> CHR '']'' \<notin> set k)"
| "ok_step _ = True"

lemma trim_space_ends: "s \<noteq> [] \<Longrightarrow> \<not> is_space (hd s) \<Longrightarrow> \<not> is_space (last s) \<Longrightarrow> trim_space s = s"
proof -
  assume s: "s \<noteq> []" "\<not> is_space (hd s)" "\<not> is_space (last s)"
  then have "dropWhile is_space s = s" by (cases s) auto
  moreover have "dropWhile is_space (rev s) = rev s" using s by (cases s rule: rev_cases) auto
  ultimately show ?thesis by (simp add: trim_space_def trim_left_def trim_right_def)
qed

lemma np_loop_bracket:
  "CHR '']'' \<notin> set w \<Longrightarrow> np_loop (CHR ''['' # w @ CHR '']'' # s) sb = np_loop s (np_emit sb (np_segment (trim_space w)))"
  by (simp add: np_loop.simps(2) takeWhile_tail dropWhile_append takeWhile_append)

lemma np_loop_field:
  assumes "f \<noteq> []" "list_all plain_char f" "s = [] \<or> \<not> plain_char (hd s)"
  shows "np_loop (CHR ''.'' # f @ s) sb = np_loop s (np_emit sb f)"
proof -
  obtain c f' where f: "f = c # f'" using assms(1) by (cases f) auto
  have "takeWhile plain_char (f @ s) = f" "dropWhile plain_char (f @ s) = s"
    using assms(2,3) by (cases s; simp add: takeWhile_append dropWhile_append list_all_iff)+
  moreover have "c \<noteq> CHR ''.''" "c \<noteq> CHR ''[''" using assms(2) f by (simp_all add: plain_char_def)
  ultimately show ?thesis using f by (simp add: np_loop.simps(2))
qed

lemma digits_plain: "c \<in> set (itoa (int n)) \<Longrightarrow> \<not> is_space c \<and> c \<noteq> CHR '']'' \<and> c \<noteq> CHR 0x27 \<and> c \<noteq> CHR 0x22 \<and> c \<noteq> CHR ''*''"
  using dec_digits_all [of n] by (auto simp: itoa_def list_all_iff is_digit_def is_space_def)

lemma itoa_nat_nonempty [simp]: "itoa (int n) \<noteq> []"
  by (simp add: itoa_def)

lemma np_segment_index: "np_segment (trim_space (itoa (int n))) = itoa (int n)"
proof -
  have "hd (itoa (int n)) \<in> set (itoa (int n))" by simp
  then have "\<not> in_quotes (itoa (int n))" "itoa (int n) \<noteq> ''*''"
    using digits_plain [of "hd (itoa (int n))" n] by (auto simp: in_quotes_def)
  moreover have "trim_space (itoa (int n)) = itoa (int n)"
    by (rule trim_space_id) (simp add: list_all_iff digits_plain)
  ultimately show ?thesis by (simp add: np_segment_def)
qed

lemma np_segment_quoted: "np_segment (trim_space ([CHR 0x27] @ k @ [CHR 0x27])) = escape_key k"
  by (simp add: trim_space_ends is_space_def np_segment_def in_quotes_def)

lemma np_loop_step:
  assumes "ok_step st" "s = [] \<or> \<not> plain_char (hd s)"
  shows "np_loop (step_text st @ s) sb = np_loop s (np_emit sb (step_gjson st))"
proof (cases st)
  case (Field f)
  then show ?thesis using assms np_loop_field by simp
next
  case (Index n)
  have "CHR '']'' \<notin> set (itoa (int n))" using digits_plain by blast
  from np_loop_bracket [OF this] Index show ?thesis by (simp add: np_segment_index)
next
  case (Quoted k)
  then have "CHR '']'' \<notin> set ([CHR 0x27] @ k @ [CHR 0x27])" using assms(1) by simp
  from np_loop_bracket [OF this] Quoted show ?thesis by (simp only: np_segment_quoted) simp
next
  case Every
  have "np_segment (trim_space ''*'') = ''#''" by code_simp
  with np_loop_bracket [of "''*''" s sb] Every show ?thesis by simp
qed

definition path_text :: "path_step list \<Rightarrow> string" where
  "path_text steps = concat (List.map step_text steps)"

lemma path_text_head: "path_text steps = [] \<or> \<not> plain_char (hd (path_text steps))"
proof (cases steps)
  case (Cons st rest)
  then show ?thesis by (cases st) (simp_all add: path_text_def plain_char_def)
qed (simp add: path_text_def)

lemma escape_chars_nonempty: "k \<noteq> [] \<Longrightarrow> escape_chars k \<noteq> []"
  by (cases k) simp_all

lemma step_gjson_nonempty: "ok_step st \<Longrightarrow> step_gjson st \<noteq> []"
  by (cases st) (simp_all add: escape_key_chars escape_chars_nonempty)

lemma np_loop_steps:
  "list_all ok_step steps \<Longrightarrow> sb \<noteq> [] \<Longrightarrow>
     np_loop (path_text steps) sb = sb @ concat (List.map (\<lambda>st. CHR ''.'' # step_gjson st) steps)"
proof (induction steps arbitrary: sb)
  case (Cons st steps)
  have "path_text (st # steps) = step_text st @ path_text steps" by (simp add: path_text_def)
  with Cons np_loop_step [of st "path_text steps" sb] path_text_head [of steps] show ?case
    by (simp add: np_emit_def)
qed (simp add: path_text_def)

lemma join_dots: "str_join ''.'' (w # ws) = w @ concat (List.map (\<lambda>v. CHR ''.'' # v) ws)"
  by (induction ws arbitrary: w) simp_all

lemma path_text_last: "list_all ok_step steps \<Longrightarrow> steps \<noteq> [] \<Longrightarrow> path_text steps \<noteq> [] \<and> \<not> is_space (last (path_text steps))"
proof (induction steps rule: rev_induct)
  case (snoc st steps)
  then have "step_text st \<noteq> [] \<and> \<not> is_space (last (step_text st))"
    by (cases st) (auto simp: is_space_def)
  then show ?case by (simp add: path_text_def)
qed simp

text \<open>A JSONPath is translated to the gjson path of the same place: fields, indices, quoted keys with
  their special characters escaped, and wildcards, in any combination.\<close>

theorem normalize_path_steps:
  assumes "list_all ok_step (st # steps)"
  shows "normalize_path (CHR ''$'' # path_text (st # steps)) = str_join ''.'' (List.map step_gjson (st # steps))"
proof -
  have "trim_space (CHR ''$'' # path_text (st # steps)) = CHR ''$'' # path_text (st # steps)"
    using path_text_last [OF assms] by (intro trim_space_ends) (simp_all add: is_space_def)
  then have "normalize_path (CHR ''$'' # path_text (st # steps)) = np_loop (path_text (st # steps)) []"
    by (simp add: normalize_path_def Let_def trim_prefix_def)
  also have "\<dots> = np_loop (path_text steps) (step_gjson st)"
    using np_loop_step [of st "path_text steps" "[]"] path_text_head [of steps] assms
    by (simp add: path_text_def np_emit_def)
  also have "\<dots> = step_gjson st @ concat (List.map (\<lambda>st. CHR ''.'' # step_gjson st) steps)"
    using assms by (intro np_loop_steps) (simp_all add: step_gjson_nonempty)
  also have "\<dots> = str_join ''.'' (List.map step_gjson (st # steps))" by (simp add: join_dots comp_def)
  finally show ?thesis .
qed

lemma normalize_path_steps_witness: "normalize_path ''$[*].a[0]'' = ''#.a.0''"
proof -
  have "itoa (int 0) = ''0''" by code_simp
  then show ?thesis
    using normalize_path_steps [of Every "[Field ''a'', Index 0]"] by (simp add: plain_char_def is_space_def path_text_def)
qed

text \<open>A quoted key with a closing bracket is cut at it, and a gjson query with a bracket is rewritten
  although it is gjson already.\<close>

lemma normalize_path_gaps:
  "normalize_path (''$['' @ [CHR 0x27] @ ''a]b'' @ [CHR 0x27] @ '']'') = [CHR 0x27] @ ''a.b'' @ [CHR 0x27] @ '']''"
  "normalize_path ''a.#(k==[x])'' = ''a.#(k==.x.)''"
  by code_simp+

end
