(* ===== verification/View_Text.thy ===== *)
theory View_Text
  imports Store_Filter
begin

text \<open>
  \<open>internal/view/truncate.go\<close>, \<open>options.go\<close> and the text helpers of \<open>summary.go\<close>: cutting a body to
  a budget without splitting a UTF-8 rune, and the options that carry the budget. A byte string is a
  \<^typ>\<open>string\<close>; budgets are positive after \<open>normalize\<close>, so they are naturals here.
\<close>

section \<open>Runes\<close>

definition octet :: "char \<Rightarrow> nat" where "octet c = of_char c"

text \<open>\<open>utf8.RuneStart\<close>\<close>

definition rune_start :: "char \<Rightarrow> bool" where
  "rune_start c = (\<not> cont_byte (octet c))"

text \<open>The length of the rune at the front, 1 for an invalid byte (\<open>utf8.DecodeRune\<close>).\<close>

fun rune_len :: "nat list \<Rightarrow> nat" where
  "rune_len [] = 0"
| "rune_len (a # s) =
     (if 194 \<le> a \<and> a \<le> 223
      then (case s of b # _ \<Rightarrow> if cont_byte b then 2 else 1 | _ \<Rightarrow> 1)
      else if 224 \<le> a \<and> a \<le> 239
      then (case s of
              b # c # _ \<Rightarrow> if cont_byte b \<and> (a = 224 \<longrightarrow> 160 \<le> b) \<and> (a = 237 \<longrightarrow> b \<le> 159) \<and> cont_byte c then 3 else 1
            | _ \<Rightarrow> 1)
      else if 240 \<le> a \<and> a \<le> 244
      then (case s of
              b # c # d # _ \<Rightarrow>
                if cont_byte b \<and> (a = 240 \<longrightarrow> 144 \<le> b) \<and> (a = 244 \<longrightarrow> b \<le> 143) \<and> cont_byte c \<and> cont_byte d then 4 else 1
            | _ \<Rightarrow> 1)
      else 1)"

lemma rune_len_pos: "s \<noteq> [] \<Longrightarrow> 0 < rune_len s"
  by (cases s) (auto split: list.split)

lemma rune_len_le: "rune_len s \<le> length s" "rune_len s \<le> 4"
  by (cases s; auto split: list.split)+

text \<open>A conversion to runes replaces an invalid byte by U+FFFD.\<close>

definition replacement :: string where "replacement = [CHR 0xEF, CHR 0xBF, CHR 0xBD]"

definition first_rune :: "string \<Rightarrow> string" where
  "first_rune s =
     (if rune_len (List.map octet s) = 1 \<and> 128 \<le> octet (hd s) then replacement
      else take (rune_len (List.map octet s)) s)"

function runes :: "string \<Rightarrow> string list" where
  "runes s = (if s = [] then [] else first_rune s # runes (drop (rune_len (List.map octet s)) s))"
  by pat_completeness auto
termination by (relation "measure length") (auto simp: rune_len_pos)

declare runes.simps [simp del]

definition rune_count :: "string \<Rightarrow> nat" where
  "rune_count s = length (runes s)"

section \<open>Cutting at a rune boundary\<close>

definition utf8_max :: nat where "utf8_max = 4"

fun back_up :: "nat \<Rightarrow> string \<Rightarrow> nat \<Rightarrow> nat" where
  "back_up 0 b n = n"
| "back_up (Suc k) b n = (if n = 0 \<or> rune_start (b ! n) then n else back_up k b (n - 1))"

fun go_on :: "nat \<Rightarrow> string \<Rightarrow> nat \<Rightarrow> nat" where
  "go_on 0 b n = n"
| "go_on (Suc k) b n = (if length b \<le> n \<or> rune_start (b ! n) then n else go_on k b (Suc n))"

definition cut_head :: "string \<Rightarrow> nat \<Rightarrow> string" where
  "cut_head b n =
     (if n = 0 then [] else if length b \<le> n then b else take (back_up utf8_max b n) b)"

definition cut_tail :: "string \<Rightarrow> nat \<Rightarrow> string" where
  "cut_tail b n =
     (if n = 0 then [] else if length b \<le> n then b else drop (go_on utf8_max b (length b - n)) b)"

definition cut_runes :: "string \<Rightarrow> nat \<Rightarrow> string" where
  "cut_runes s n = cut_head s n"

record cut_info =
  ci_shown :: nat
  ci_total :: nat
  ci_truncated :: bool

definition dots :: string where "dots = [CHR 0xE2, CHR 0x80, CHR 0xA6]"

definition skip_mark :: "nat \<Rightarrow> string" where
  "skip_mark n = CHR 0x0A # dots @ '' [skipped '' @ itoa (int n) @ '' bytes] '' @ dots @ [CHR 0x0A]"

definition more_mark :: "nat \<Rightarrow> string" where
  "more_mark n = CHR 0x0A # dots @ '' [truncated; '' @ itoa (int n) @ '' more bytes] '' @ dots"

definition head_tail :: "string \<Rightarrow> nat \<Rightarrow> string \<times> cut_info" where
  "head_tail b budget =
     (if length b \<le> budget then (b, \<lparr>ci_shown = length b, ci_total = length b, ci_truncated = False\<rparr>)
      else (let head_n = budget * 3 div 4; head = cut_head b head_n; tail = cut_tail b (budget - head_n);
                skipped = length b - length head - length tail
            in (head @ skip_mark skipped @ tail,
                \<lparr>ci_shown = length head + length tail, ci_total = length b, ci_truncated = True\<rparr>)))"

definition head_only :: "string \<Rightarrow> nat \<Rightarrow> string \<times> cut_info" where
  "head_only b budget =
     (if length b \<le> budget then (b, \<lparr>ci_shown = length b, ci_total = length b, ci_truncated = False\<rparr>)
      else (let head = cut_head b budget
            in (head @ more_mark (length b - length head),
                \<lparr>ci_shown = length head, ci_total = length b, ci_truncated = True\<rparr>)))"

text \<open>\<open>capText\<close>\<close>

definition cap_text :: "string \<Rightarrow> nat \<Rightarrow> string" where
  "cap_text s n = (if length s \<le> n then s else cut_runes s n @ dots)"

section \<open>Options\<close>

record options =
  op_max_bytes :: int
  op_string_truncate :: int
  op_redact :: bool
  op_reveal :: bool
  op_array_sample :: int

definition default_max_bytes :: int where "default_max_bytes = 4096"
definition max_bytes_cap :: int where "max_bytes_cap = 2 ^ 20"
definition default_string_truncate :: int where "default_string_truncate = 200"
definition default_array_sample :: int where "default_array_sample = 3"

definition default_options :: options where
  "default_options =
     \<lparr>op_max_bytes = default_max_bytes, op_string_truncate = default_string_truncate, op_redact = True,
      op_reveal = False, op_array_sample = default_array_sample\<rparr>"

definition normalize_options :: "options \<Rightarrow> options" where
  "normalize_options o0 =
     (let o1 = (if op_max_bytes o0 \<le> 0 then o0\<lparr>op_max_bytes := default_max_bytes\<rparr> else o0);
          o2 = (if max_bytes_cap < op_max_bytes o1 then o1\<lparr>op_max_bytes := max_bytes_cap\<rparr> else o1);
          o3 = (if op_string_truncate o2 \<le> 0 then o2\<lparr>op_string_truncate := default_string_truncate\<rparr> else o2)
      in if op_array_sample o3 \<le> 0 then o3\<lparr>op_array_sample := default_array_sample\<rparr> else o3)"

definition redacting :: "options \<Rightarrow> bool" where
  "redacting ops = (op_redact ops \<and> \<not> op_reveal ops)"

lemma normalize_options_bounds:
  "0 < op_max_bytes (normalize_options ops) \<and> op_max_bytes (normalize_options ops) \<le> max_bytes_cap
   \<and> 0 < op_string_truncate (normalize_options ops) \<and> 0 < op_array_sample (normalize_options ops)
   \<and> redacting (normalize_options ops) = redacting ops"
  by (auto simp: normalize_options_def Let_def default_max_bytes_def max_bytes_cap_def
      default_string_truncate_def default_array_sample_def redacting_def)

section \<open>Valid text stays valid\<close>

text \<open>The shapes of a rune: its length, its lead byte and its continuation bytes.\<close>

lemma valid_cases:
  assumes "utf8_valid_bytes xs" "xs \<noteq> []"
  obtains (one) a s where "xs = a # s" "a < 128"
  | (two) a b s where "xs = a # b # s" "194 \<le> a" "a \<le> 223" "cont_byte b"
  | (three) a b c s where "xs = a # b # c # s" "224 \<le> a" "a \<le> 239" "cont_byte b"
      "a = 224 \<longrightarrow> 160 \<le> b" "a = 237 \<longrightarrow> b \<le> 159" "cont_byte c"
  | (four) a b c d s where "xs = a # b # c # d # s" "240 \<le> a" "a \<le> 244" "cont_byte b"
      "a = 240 \<longrightarrow> 144 \<le> b" "a = 244 \<longrightarrow> b \<le> 143" "cont_byte c" "cont_byte d"
proof -
  from assms(2) obtain a s where x: "xs = a # s" by (cases xs) auto
  with assms(1) show thesis using that
    by (auto split: if_splits list.splits)
qed

lemma lt_cases: "(k :: nat) < 4 \<Longrightarrow> k = 0 \<or> k = 1 \<or> k = 2 \<or> k = 3"
  by auto

lemma valid_rune:
  assumes "utf8_valid_bytes xs" "xs \<noteq> []"
  shows "utf8_valid_bytes (drop (rune_len xs) xs)
    \<and> list_all cont_byte (take (rune_len xs - 1) (tl xs))
    \<and> \<not> cont_byte (hd xs)
    \<and> (\<forall>ys. utf8_valid_bytes ys \<longrightarrow> utf8_valid_bytes (take (rune_len xs) xs @ ys))"
  using assms
proof (cases rule: valid_cases)
  case (one a s)
  with assms(1) show ?thesis by (simp add: cont_byte_def)
next
  case (two a b s)
  with assms(1) show ?thesis by (simp add: cont_byte_def)
next
  case (three a b c s)
  with assms(1) show ?thesis by (simp add: cont_byte_def)
next
  case (four a b c d s)
  with assms(1) show ?thesis by (simp add: cont_byte_def)
qed

lemma valid_induct [consumes 1, case_names Nil Rune]:
  assumes "utf8_valid_bytes xs" "P []"
    and "\<And>xs. utf8_valid_bytes xs \<Longrightarrow> xs \<noteq> [] \<Longrightarrow> P (drop (rune_len xs) xs) \<Longrightarrow> P xs"
  shows "P xs"
  using assms(1)
proof (induction "length xs" arbitrary: xs rule: less_induct)
  case less
  show ?case
  proof (cases "xs = []")
    case False
    have "P (drop (rune_len xs) xs)"
      using less valid_rune [OF less.prems False] rune_len_pos [OF False] by (simp add: False)
    with less.prems False assms(3) show ?thesis by blast
  qed (simp add: assms(2))
qed

lemma inside_rune:
  assumes "utf8_valid_bytes xs" "0 < k" "k < rune_len xs"
  shows "cont_byte (xs ! k)"
proof -
  have ne: "xs \<noteq> []" using assms(3) by auto
  with assms obtain j where j: "k = Suc j" by (cases k) auto
  have "rune_len xs \<le> length xs" by (rule rune_len_le)
  then have "take (rune_len xs - 1) (tl xs) ! j = xs ! k" "j < length (take (rune_len xs - 1) (tl xs))"
    using assms(3) ne j by (auto simp: nth_tl)
  with valid_rune [OF assms(1) ne] show ?thesis by (metis list_all_length)
qed

text \<open>At the start of a rune a valid text splits into two.\<close>

lemma split_at_start:
  "utf8_valid_bytes xs \<Longrightarrow> n \<le> length xs \<Longrightarrow> (n < length xs \<longrightarrow> \<not> cont_byte (xs ! n)) \<Longrightarrow>
     utf8_valid_bytes (take n xs) \<and> utf8_valid_bytes (drop n xs)"
proof (induction xs arbitrary: n rule: valid_induct)
  case (Rune xs)
  let ?r = "rune_len xs"
  have r: "?r \<le> length xs" "0 < ?r" using rune_len_le rune_len_pos Rune by auto
  show ?case
  proof (cases "n = 0")
    case False
    have "?r \<le> n"
      using inside_rune [OF Rune.hyps(1), of n] False Rune.prems r by (meson leI le_less_trans less_le_trans not_le neq0_conv)
    then have n: "n - ?r \<le> length (drop ?r xs)" "take n xs = take ?r xs @ take (n - ?r) (drop ?r xs)"
      "drop n xs = drop (n - ?r) (drop ?r xs)"
      using Rune.prems(1) take_add [of ?r "n - ?r" xs] by simp_all
    have "n - ?r < length (drop ?r xs) \<longrightarrow> \<not> cont_byte (drop ?r xs ! (n - ?r))"
      using Rune.prems(2) r \<open>?r \<le> n\<close> by auto
    from Rune.IH [OF n(1) this] n valid_rune [OF Rune.hyps] show ?thesis by simp
  qed (simp add: Rune.hyps)
qed simp

text \<open>A rune has at most three continuation bytes, so four in a row are not in a valid text.\<close>

lemma start_nearby:
  "utf8_valid_bytes xs \<Longrightarrow> n < length xs \<Longrightarrow> \<exists>k \<le> 3. k \<le> n \<and> \<not> cont_byte (xs ! (n - k))"
proof (induction xs arbitrary: n rule: valid_induct)
  case (Rune xs)
  let ?r = "rune_len xs"
  have r: "?r \<le> length xs" "0 < ?r" "?r \<le> 4" using rune_len_le rune_len_pos Rune by auto
  show ?case
  proof (cases "n < ?r")
    case True
    have "\<not> cont_byte (xs ! (n - n))" using valid_rune [OF Rune.hyps] Rune.hyps(2) by (simp add: hd_conv_nth)
    then show ?thesis using True r by (intro exI [of _ n]) auto
  next
    case False
    then have "n - ?r < length (drop ?r xs)" using Rune.prems by simp
    then obtain k where k: "k \<le> 3" "k \<le> n - ?r" "\<not> cont_byte (drop ?r xs ! (n - ?r - k))"
      using Rune.IH [of "n - ?r"] by blast
    moreover have "?r + (n - ?r - k) = n - k" using False k(2) by simp
    ultimately show ?thesis using False r by (intro exI [of _ k]) simp
  qed
qed simp

section \<open>The cuts\<close>

lemma back_up_le: "back_up k b n \<le> n"
  by (induction k b n rule: back_up.induct) auto

lemma go_on_ge: "n \<le> go_on k b n" "n \<le> length b \<Longrightarrow> go_on k b n \<le> length b"
  by (induction k b n rule: go_on.induct) auto

lemma back_up_start:
  "\<exists>j < k. j \<le> n \<and> rune_start (b ! (n - j)) \<Longrightarrow> back_up k b n = 0 \<or> rune_start (b ! back_up k b n)"
proof (induction k b n rule: back_up.induct)
  case (2 k b n)
  show ?case
  proof (cases "n = 0 \<or> rune_start (b ! n)")
    case False
    from "2.prems" obtain j where j: "j < Suc k" "j \<le> n" "rune_start (b ! (n - j))" by blast
    with False obtain i where "j = Suc i" by (cases j) auto
    with j have "i < k \<and> i \<le> n - 1 \<and> rune_start (b ! (n - 1 - i))" by auto
    with "2.IH" [OF False] False show ?thesis by auto
  qed auto
qed simp

lemma go_on_start:
  "\<exists>j < k. n + j < length b \<longrightarrow> rune_start (b ! (n + j)) \<Longrightarrow>
     length b \<le> go_on k b n \<or> rune_start (b ! go_on k b n)"
proof (induction k b n rule: go_on.induct)
  case (2 k b n)
  show ?case
  proof (cases "length b \<le> n \<or> rune_start (b ! n)")
    case False
    from "2.prems" obtain j where j: "j < Suc k" "n + j < length b \<longrightarrow> rune_start (b ! (n + j))" by blast
    with False obtain i where "j = Suc i" by (cases j) auto
    with j have "i < k \<and> (Suc n + i < length b \<longrightarrow> rune_start (b ! (Suc n + i)))" by auto
    with "2.IH" [OF False] False show ?thesis by auto
  qed auto
qed simp

lemma utf8_valid_byte: "utf8_valid s = utf8_valid_bytes (List.map octet s)"
  by (simp add: utf8_valid_def octet_def cong: list.map_cong)

lemma valid_split:
  assumes "utf8_valid s" "n \<le> length s" "n < length s \<longrightarrow> rune_start (s ! n)"
  shows "utf8_valid (take n s)" "utf8_valid (drop n s)"
  using split_at_start [of "List.map octet s" n] assms
  by (auto simp: utf8_valid_byte rune_start_def take_map drop_map)

lemma valid_starts:
  assumes "utf8_valid s" "n < length s"
  shows "\<exists>j < 4. j \<le> n \<and> rune_start (s ! (n - j))"
proof -
  obtain k where "k \<le> 3" "k \<le> n" "\<not> cont_byte (List.map octet s ! (n - k))"
    using start_nearby [of "List.map octet s" n] assms by (auto simp: utf8_valid_byte)
  with assms(2) show ?thesis by (intro exI [of _ k]) (auto simp: rune_start_def)
qed

lemma cut_head_ok:
  "length (cut_head b n) \<le> n \<and> prefix (cut_head b n) b \<and> (utf8_valid b \<longrightarrow> utf8_valid (cut_head b n))"
proof (cases "n = 0 \<or> length b \<le> n")
  case True
  then show ?thesis by (auto simp: cut_head_def utf8_valid_def)
next
  case False
  let ?k = "back_up utf8_max b n"
  have k: "?k \<le> n" by (rule back_up_le)
  have "utf8_valid (take ?k b)" if v: "utf8_valid b"
  proof (rule valid_split [OF v])
    show "?k \<le> length b" using k False by simp
    have "?k = 0 \<or> rune_start (b ! ?k)"
      unfolding utf8_max_def by (rule back_up_start) (use valid_starts [OF v, of n] False in auto)
    moreover have "rune_start (b ! 0)" if "b \<noteq> []"
      using valid_starts [OF v, of 0] that by auto
    ultimately show "?k < length b \<longrightarrow> rune_start (b ! ?k)" using False by (metis gr_implies_not0 length_0_conv)
  qed
  with False k show ?thesis by (simp add: cut_head_def take_is_prefix)
qed

lemma cut_tail_ok:
  "length (cut_tail b n) \<le> n \<and> suffix (cut_tail b n) b \<and> (utf8_valid b \<longrightarrow> utf8_valid (cut_tail b n))"
proof (cases "n = 0 \<or> length b \<le> n")
  case True
  then show ?thesis by (auto simp: cut_tail_def utf8_valid_def)
next
  case False
  let ?m = "length b - n"
  let ?k = "go_on utf8_max b ?m"
  have k: "?m \<le> ?k" "?k \<le> length b" by (simp_all add: go_on_ge)
  have "utf8_valid (drop ?k b)" if v: "utf8_valid b"
  proof (rule valid_split [OF v k(2)])
    have "\<exists>j < 4. ?m + j < length b \<longrightarrow> rune_start (b ! (?m + j))"
    proof (cases "?m + 3 < length b")
      case True
      then obtain j where "j < 4" "j \<le> ?m + 3" "rune_start (b ! (?m + 3 - j))" using valid_starts [OF v True] by blast
      then show ?thesis by (intro exI [of _ "3 - j"]) (auto simp: algebra_simps)
    next
      case False
      then show ?thesis by (intro exI [of _ 3]) simp
    qed
    then have "length b \<le> ?k \<or> rune_start (b ! ?k)" unfolding utf8_max_def by (rule go_on_start)
    then show "?k < length b \<longrightarrow> rune_start (b ! ?k)" using leD by blast
  qed
  with False k show ?thesis by (simp add: cut_tail_def suffix_drop)
qed

section \<open>What a budget promises\<close>

lemma cut_lengths:
  "length b > budget \<Longrightarrow> length (cut_head b (budget * 3 div 4)) + length (cut_tail b (budget - budget * 3 div 4)) \<le> budget"
  using cut_head_ok [of b "budget * 3 div 4"] cut_tail_ok [of b "budget - budget * 3 div 4"] by linarith

lemma middle_of:
  assumes "prefix h b" "suffix t b" "length h + length t \<le> length b"
  obtains m where "b = h @ m @ t"
proof -
  obtain z y where "b = h @ z" "b = y @ t" using assms(1,2) unfolding prefix_def suffix_def by blast
  moreover from this have "length h \<le> length y" using assms(3) by (metis add_le_cancel_right length_append)
  ultimately obtain m where "y = h @ m" by (auto simp: append_eq_append_conv2)
  with \<open>b = y @ t\<close> that show thesis by simp
qed

text \<open>A body shown within a budget is shown whole when it fits; otherwise what is shown is a prefix
  and a suffix of it, at most the budget in bytes and neither of them splitting a UTF-8 rune, around a
  mark with the exact number of bytes between them.\<close>

theorem head_tail_exact:
  "\<exists>h m t. b = h @ m @ t \<and> ci_total (snd (head_tail b budget)) = length b
     \<and> ci_shown (snd (head_tail b budget)) = length (h @ t)
     \<and> fst (head_tail b budget) = (if length b \<le> budget then b else h @ skip_mark (length m) @ t)
     \<and> (if length b \<le> budget then m = [] else length (h @ t) \<le> budget)
     \<and> ci_truncated (snd (head_tail b budget)) = (budget < length b)
     \<and> (if utf8_valid b then utf8_valid h \<and> utf8_valid t else True)"
proof (cases "length b \<le> budget")
  case True
  then show ?thesis
    by (intro exI [of _ b] exI [of _ "[]"]) (simp add: head_tail_def utf8_valid_def)
next
  case False
  let ?h = "cut_head b (budget * 3 div 4)" and ?t = "cut_tail b (budget - budget * 3 div 4)"
  have le: "length ?h + length ?t \<le> budget" using cut_lengths False by simp
  have ht: "prefix ?h b" "suffix ?t b" using cut_head_ok [of b] cut_tail_ok [of b] by blast+
  have v: "utf8_valid b \<Longrightarrow> utf8_valid ?h \<and> utf8_valid ?t" using cut_head_ok [of b] cut_tail_ok [of b] by blast
  obtain m where b: "b = ?h @ m @ ?t" using middle_of [OF ht] le False by auto
  then have "length m = length b - length ?h - length ?t" by (metis add_diff_cancel_left' add_diff_cancel_right' length_append)
  with b le v False show ?thesis
    by (intro exI [of _ ?h] exI [of _ m] exI [of _ ?t]) (simp add: head_tail_def Let_def)
qed

end
