(* ===== verification/View_JsonDiff.thy ===== *)
theory View_JsonDiff
  imports View_Diff View_Paths View_Text Rules_Match
begin

text \<open>
  \<open>DiffJSON\<close> and \<open>DiffHeaders\<close> of \<open>internal/view/diff.go\<close>. Go's \<open>encoding/json\<close> is a parameter: the
  decoder as a function from text to \<^typ>\<open>json option\<close> and the encoder back. The walk is the list of
  changes it adds, in order; the differ counts them all and keeps the first ones.
\<close>

section \<open>The walk\<close>

datatype change =
    Removed string json
  | Added string json
  | Changed string json json
  | Resized string nat nat

definition elem_path :: "string \<Rightarrow> nat \<Rightarrow> string" where
  "elem_path path i = child_path path (itoa (int i))"

definition member_path :: "string \<Rightarrow> string \<Rightarrow> string" where
  "member_path path k = child_path path (escape_key k)"

definition member_names :: "(string \<times> 'a) list \<Rightarrow> (string \<times> 'a) list \<Rightarrow> string list" where
  "member_names f g = sorted_list_of_set (fst ` set f \<union> fst ` set g)"

lemma size_member: "map_of f k = Some x \<Longrightarrow> size x < Suc (size_list (size_prod (\<lambda>_. 0) size) f)"
  by (induction f) (auto split: if_splits)

lemma size_elem: "i < length xs \<Longrightarrow> size (xs ! i) < Suc (size_list size xs)"
  using size_list_estimation' [of "xs ! i" xs "size (xs ! i)" size] by (simp add: less_Suc_eq_le)

function json_changes :: "string \<Rightarrow> json \<Rightarrow> json \<Rightarrow> change list" where
  "json_changes path (JObj f) (JObj g) =
     concat (List.map (\<lambda>k.
       case map_of f k of
         Some x \<Rightarrow>
           (case map_of g k of Some y \<Rightarrow> json_changes (member_path path k) x y | None \<Rightarrow> [Removed (member_path path k) x])
       | None \<Rightarrow> (case map_of g k of Some y \<Rightarrow> [Added (member_path path k) y] | None \<Rightarrow> []))
       (member_names f g))"
| "json_changes path (JArr xs) (JArr ys) =
     (let n = min (length xs) (length ys) in
      (if length xs \<noteq> length ys then [Resized path (length xs) (length ys)] else [])
      @ concat (List.map (\<lambda>i. json_changes (elem_path path i) (xs ! i) (ys ! i)) [0..<n])
      @ List.map (\<lambda>i. Removed (elem_path path i) (xs ! i)) [n..<length xs]
      @ List.map (\<lambda>i. Added (elem_path path i) (ys ! i)) [n..<length ys])"
| "\<not> (\<exists>f g. a = JObj f \<and> b = JObj g) \<Longrightarrow> \<not> (\<exists>xs ys. a = JArr xs \<and> b = JArr ys) \<Longrightarrow>
     json_changes path a b = (if a \<noteq> b then [Changed path a b] else [])"
  by atomize_elim auto

termination
  by (relation "measure (\<lambda>(path, a, b). size a)") (auto simp: size_member size_elem)

section \<open>The differ\<close>

definition diff_value_len :: nat where "diff_value_len = 120"

definition compact_value :: "(json \<Rightarrow> string) \<Rightarrow> json \<Rightarrow> string" where
  "compact_value enc v =
     (let s = enc v in if diff_value_len < length s then cut_runes s diff_value_len @ dots else s)"

definition arrow :: string where "arrow = '' '' @ [CHR 0xE2, CHR 0x86, CHR 0x92] @ '' ''"

fun change_text :: "(json \<Rightarrow> string) \<Rightarrow> change \<Rightarrow> string" where
  "change_text enc (Removed p x) = ''- '' @ p @ '': '' @ compact_value enc x"
| "change_text enc (Added p y) = ''+ '' @ p @ '': '' @ compact_value enc y"
| "change_text enc (Changed p x y) = ''~ '' @ p @ '': '' @ compact_value enc x @ arrow @ compact_value enc y"
| "change_text enc (Resized p m n) = ''~ '' @ p @ '': array length '' @ itoa (int m) @ arrow @ itoa (int n)"

record json_differ =
  jd_lines :: "string list"
  jd_total :: nat
  jd_max :: nat

definition jd_add :: "json_differ \<Rightarrow> string \<Rightarrow> json_differ" where
  "jd_add d line =
     (let d1 = d\<lparr>jd_total := jd_total d + 1\<rparr> in
      if jd_total d1 \<le> jd_max d1 then d1\<lparr>jd_lines := jd_lines d1 @ [line]\<rparr> else d1)"

text \<open>\<open>Decode\<close> gives the value and the rest of the text; \<open>More\<close> is about the next byte of the rest.\<close>

definition json_more :: "string \<Rightarrow> bool" where
  "json_more rest =
     (let t = trim_left (\<lambda>c. c \<in> {CHR '' '', CHR 0x09, CHR 0x0A, CHR 0x0D}) rest
      in t \<noteq> [] \<and> hd t \<noteq> CHR '']'' \<and> hd t \<noteq> CHR ''}'')"

definition parse_json_value :: "(string \<Rightarrow> (json \<times> string) option) \<Rightarrow> string \<Rightarrow> json option" where
  "parse_json_value dec b = (case dec b of None \<Rightarrow> None | Some (v, rest) \<Rightarrow> if json_more rest then None else Some v)"

definition more_changes :: "nat \<Rightarrow> string" where
  "more_changes n = dots @ '' and '' @ itoa (int n) @ '' more''"

definition diff_json ::
  "(string \<Rightarrow> (json \<times> string) option) \<Rightarrow> (json \<Rightarrow> string) \<Rightarrow> string \<Rightarrow> string \<Rightarrow> int \<Rightarrow> (string \<times> nat) option" where
  "diff_json dec enc a b max_changes =
     (let mx = (if max_changes \<le> 0 then 50 else max_changes) in
      case (parse_json_value dec a, parse_json_value dec b) of
        (Some va, Some vb) \<Rightarrow>
          (let d = foldl jd_add \<lparr>jd_lines = [], jd_total = 0, jd_max = nat mx\<rparr>
                     (List.map (change_text enc) (json_changes ''$'' va vb))
           in if jd_total d = 0 then Some (no_changes, 0)
              else Some (str_join [newline]
                           (if jd_max d < jd_total d then jd_lines d @ [more_changes (jd_total d - jd_max d)] else jd_lines d),
                         jd_total d))
      | _ \<Rightarrow> map_option (\<lambda>(t, n). (''(not JSON; text diff)'' @ [newline] @ t, n)) (diff_text a b mx))"

lemma jd_add_cases:
  "jd_total d < jd_max d \<Longrightarrow> jd_add d l = d\<lparr>jd_lines := jd_lines d @ [l], jd_total := Suc (jd_total d)\<rparr>"
  "\<not> jd_total d < jd_max d \<Longrightarrow> jd_add d l = d\<lparr>jd_total := Suc (jd_total d)\<rparr>"
  by (simp_all add: jd_add_def Let_def)

lemma jd_add_all:
  "foldl jd_add d ls =
     d\<lparr>jd_lines := jd_lines d @ take (jd_max d - jd_total d) ls, jd_total := jd_total d + length ls\<rparr>"
proof (induction ls arbitrary: d)
  case (Cons l ls)
  show ?case
  proof (cases "jd_total d < jd_max d")
    case True
    then obtain k where "jd_max d - jd_total d = Suc k" "jd_max d - Suc (jd_total d) = k" by (metis Suc_diff_Suc)
    with True Cons show ?thesis by (simp add: jd_add_cases(1))
  next
    case False
    with Cons show ?thesis by (simp add: jd_add_cases(2))
  qed
qed simp

section \<open>Equal documents\<close>

text \<open>Equality of decoded documents: the order of an object's members does not count.\<close>

inductive same_json :: "json \<Rightarrow> json \<Rightarrow> bool" where
  Atom: "\<not> (\<exists>f. a = JObj f) \<Longrightarrow> \<not> (\<exists>xs. a = JArr xs) \<Longrightarrow> same_json a a"
| Arr: "list_all2 same_json xs ys \<Longrightarrow> same_json (JArr xs) (JArr ys)"
| Obj: "(\<And>k. rel_option same_json (map_of f k) (map_of g k)) \<Longrightarrow> same_json (JObj f) (JObj g)"
monos list.rel_mono_strong option.rel_mono_strong

inductive_simps same_json_obj: "same_json (JObj f) b"
inductive_simps same_json_arr: "same_json (JArr xs) b"
inductive_cases same_json_cases: "same_json a b"

lemma member_names_set [simp]: "set (member_names f g) = fst ` set f \<union> fst ` set g"
  by (simp add: member_names_def)

lemma member_none: "k \<notin> fst ` set f \<longleftrightarrow> map_of f k = None"
  by (simp add: map_of_eq_None_iff)

text \<open>No change is listed exactly between equal documents.\<close>

lemma json_changes_none: "json_changes p a b = [] \<longleftrightarrow> same_json a b"
proof (induction p a b rule: json_changes.induct)
  case (1 path f g)
  let ?at = "\<lambda>k. case map_of f k of
         Some x \<Rightarrow> (case map_of g k of Some y \<Rightarrow> json_changes (member_path path k) x y | None \<Rightarrow> [Removed (member_path path k) x])
       | None \<Rightarrow> (case map_of g k of Some y \<Rightarrow> [Added (member_path path k) y] | None \<Rightarrow> [])"
  have at: "?at k = [] \<longleftrightarrow> rel_option same_json (map_of f k) (map_of g k)" for k
  proof (cases "map_of f k"; cases "map_of g k")
    fix x y
    assume x: "map_of f k = Some x" and y: "map_of g k = Some y"
    then have "k \<in> set (member_names f g)" by (auto simp: map_of_eq_None_iff intro: map_of_SomeD rev_image_eqI)
    from 1 [OF this x y] x y show ?thesis by simp
  qed simp_all
  have "json_changes path (JObj f) (JObj g) = [] \<longleftrightarrow> (\<forall>k \<in> set (member_names f g). ?at k = [])"
    by (simp only: json_changes.simps concat_eq_Nil_conv) auto
  also have "\<dots> \<longleftrightarrow> (\<forall>k. ?at k = [])"
  proof -
    have "?at k = []" if "k \<notin> set (member_names f g)" for k
      using that by (simp add: member_none)
    then show ?thesis by blast
  qed
  finally show ?case by (simp only: at) (simp add: same_json_obj)
next
  case (2 path xs ys)
  then show ?case by (auto simp: Let_def same_json_arr list_all2_conv_all_nth)
next
  case (3 a b path)
  then show ?case by (auto simp: same_json_obj same_json_arr intro: same_json.Atom elim: same_json_cases)
qed

section \<open>What a JSON diff promises\<close>

text \<open>A JSON diff reports no change exactly for equal documents (up to the order of members). It
  counts every change, lists the first ones up to the limit, and says how many it left out.\<close>

theorem diff_json_reports:
  assumes "parse_json_value dec a = Some va" "parse_json_value dec b = Some vb"
  shows "\<exists>ls. diff_json dec enc a b m = Some (str_join [newline] ls, length (json_changes ''$'' va vb))
     \<and> (length (json_changes ''$'' va vb) = 0 \<longleftrightarrow> same_json va vb)
     \<and> (if same_json va vb then ls = [no_changes]
        else let mx = (if m \<le> 0 then 50 else nat m); cs = List.map (change_text enc) (json_changes ''$'' va vb) in
             ls = take mx cs @ (if mx < length cs then [more_changes (length cs - mx)] else []))"
proof -
  define mx where "mx = (if m \<le> 0 then 50 else nat m)"
  have eq: "nat (if m \<le> 0 then 50 else m) = mx" by (simp add: mx_def)
  define cs where "cs = json_changes ''$'' va vb"
  have run: "diff_json dec enc a b m = (if cs = [] then Some (no_changes, 0) else
      Some (str_join [newline] (take mx (List.map (change_text enc) cs) @ (if mx < length cs then [more_changes (length cs - mx)] else [])),
            length cs))"
    using assms unfolding diff_json_def Let_def eq cs_def by (simp add: jd_add_all)
  have same: "same_json va vb \<longleftrightarrow> cs = []" by (simp add: cs_def json_changes_none)
  show ?thesis
    unfolding mx_def [symmetric] cs_def [symmetric] same run Let_def
    by (cases "cs = []") (simp_all only: list.size length_0_conv length_map if_True if_False str_join.simps simp_thms ex_simps, auto)
qed

lemma diff_json_reports_witness:
  "\<exists>ls. diff_json (\<lambda>s. Some (JObj [(''a'', JStr s)], [])) (\<lambda>_. ''v'') ''x'' ''y'' 0 = Some (str_join [newline] ls, 1)"
proof -
  let ?d = "\<lambda>s. Some (JObj [(''a'', JStr s)], []) :: (json \<times> string) option"
  have p: "parse_json_value ?d s = Some (JObj [(''a'', JStr s)])" for s
    by (simp add: parse_json_value_def json_more_def trim_left_def)
  have "length (json_changes ''$'' (JObj [(''a'', JStr ''x'')]) (JObj [(''a'', JStr ''y'')])) = 1"
    by (simp add: member_names_def)
  then show ?thesis using diff_json_reports [OF p p, of "\<lambda>_. ''v''" "''x''" "''y''" 0] by auto
qed

text \<open>A text with stray closing brackets after its value is taken for JSON.\<close>

lemma json_trailing_closers: "dec b = Some (v, ''}]'') \<Longrightarrow> parse_json_value dec b = Some v"
  by (simp add: parse_json_value_def json_more_def trim_left_def)

section \<open>Headers\<close>

definition default_ignore :: "string list" where
  "default_ignore =
     [''date'', ''age'', ''etag'', ''x-request-id'', ''cf-ray'', ''set-cookie'', ''content-length'', ''traceparent'',
      ''x-amzn-trace-id'', ''x-amz-request-id'']"

text \<open>Lower-case names with the name and the values they were seen with.\<close>

type_synonym header_entries = "(string \<times> string \<times> string list) list"

definition collect_header :: "string list \<Rightarrow> header_entries \<Rightarrow> string \<times> string list \<Rightarrow> header_entries" where
  "collect_header skip out kv =
     (let (k, vs) = kv; lk = to_lower k in
      if lk \<in> set skip then out
      else map_put lk (canonical_key k, (case map_of out lk of None \<Rightarrow> [] | Some (_, ws) \<Rightarrow> ws) @ vs) out)"

definition collect_headers :: "string list \<Rightarrow> header \<Rightarrow> header_entries" where
  "collect_headers skip h = foldl (collect_header skip) [] h"

definition join_values :: "string list \<Rightarrow> string" where
  "join_values vs = str_join '', '' vs"

definition header_change :: "header_entries \<Rightarrow> header_entries \<Rightarrow> string \<Rightarrow> string list" where
  "header_change ea eb k =
     (case (map_of ea k, map_of eb k) of
        (Some (n, vs), None) \<Rightarrow> [''- '' @ n @ '': '' @ join_values vs]
      | (None, Some (n, vs)) \<Rightarrow> [''+ '' @ n @ '': '' @ join_values vs]
      | (Some (n, vs), Some (_, ws)) \<Rightarrow>
          (if join_values vs \<noteq> join_values ws then [''~ '' @ n @ '': '' @ join_values vs @ arrow @ join_values ws] else [])
      | (None, None) \<Rightarrow> [])"

definition diff_headers :: "header \<Rightarrow> header \<Rightarrow> string list option \<Rightarrow> string \<times> nat" where
  "diff_headers a b ign =
     (let skip = List.map to_lower (case ign of None \<Rightarrow> default_ignore | Some ns \<Rightarrow> ns);
          ea = collect_headers skip a; eb = collect_headers skip b;
          lines = concat (List.map (header_change ea eb) (member_names ea eb))
      in if lines = [] then (''(no header changes)'', 0) else (str_join [newline] lines, length lines))"

text \<open>The values of a header whatever the case its name is written in.\<close>

definition fold_values :: "header \<Rightarrow> string \<Rightarrow> string list option" where
  "fold_values h lk =
     (let hits = filter (\<lambda>(k, _). to_lower k = lk) h in if hits = [] then None else Some (concat (List.map snd hits)))"

lemma fold_values_Cons:
  "fold_values ((k, vs) # h) lk =
     (if to_lower k = lk then Some (vs @ (case fold_values h lk of None \<Rightarrow> [] | Some ws \<Rightarrow> ws)) else fold_values h lk)"
  by (auto simp: fold_values_def Let_def)

lemma collect_header_values:
  "map_option snd (map_of (collect_header skip out (k, vs)) lk) =
     (if lk = to_lower k \<and> lk \<notin> set skip
      then Some ((case map_option snd (map_of out lk) of None \<Rightarrow> [] | Some ws \<Rightarrow> ws) @ vs)
      else map_option snd (map_of out lk))"
  by (auto simp: collect_header_def Let_def split: option.split)

lemma collect_values:
  "map_option snd (map_of (foldl (collect_header skip) out h) lk) =
     (if lk \<in> set skip then map_option snd (map_of out lk)
      else case (map_option snd (map_of out lk), fold_values h lk) of
             (None, r) \<Rightarrow> r | (Some ws, None) \<Rightarrow> Some ws | (Some ws, Some vs) \<Rightarrow> Some (ws @ vs))"
proof (induction h arbitrary: out)
  case (Cons p h)
  obtain k vs where p: "p = (k, vs)" by (cases p)
  show ?case
    unfolding p foldl_Cons Cons.IH collect_header_values fold_values_Cons
    by (cases "map_option snd (map_of out lk)"; cases "fold_values h lk") auto
qed (simp add: fold_values_def split: option.split)

lemma collect_fold_values:
  "map_option snd (map_of (collect_headers skip h) lk) = (if lk \<in> set skip then None else fold_values h lk)"
  by (simp add: collect_headers_def collect_values)

text \<open>No header change is reported exactly when every header not ignored has the same joined values in
  both, whatever the case of its name.\<close>

lemma diff_headers_none:
  "snd (diff_headers a b ign) = 0 \<longleftrightarrow>
     (\<forall>k. k \<in> to_lower ` set (case ign of None \<Rightarrow> default_ignore | Some ns \<Rightarrow> ns)
          \<or> map_option join_values (fold_values a k) = map_option join_values (fold_values b k))"
proof -
  define skip where "skip = List.map to_lower (case ign of None \<Rightarrow> default_ignore | Some ns \<Rightarrow> ns)"
  define ea eb where "ea = collect_headers skip a" and "eb = collect_headers skip b"
  have line: "header_change ea eb k = [] \<longleftrightarrow>
      map_option join_values (map_option snd (map_of ea k)) = map_option join_values (map_option snd (map_of eb k))" for k
    by (simp add: header_change_def split: option.splits prod.splits)
  have "snd (diff_headers a b ign) = 0 \<longleftrightarrow> (\<forall>k \<in> set (member_names ea eb). header_change ea eb k = [])"
    by (simp add: diff_headers_def Let_def flip: skip_def ea_def eb_def)
  also have "\<dots> \<longleftrightarrow> (\<forall>k. header_change ea eb k = [])"
  proof -
    have "header_change ea eb k = []" if "k \<notin> set (member_names ea eb)" for k
      using that by (simp add: header_change_def member_none)
    then show ?thesis by blast
  qed
  finally show ?thesis
    unfolding line unfolding ea_def eb_def collect_fold_values skip_def by (simp add: image_iff) metis
qed

end
