(* ===== verification/View_Sse.thy ===== *)
theory View_Sse
  imports View_Text
begin

text \<open>
  \<open>internal/view/sse.go\<close>: the parser of \<open>text/event-stream\<close> bodies as one pass over lines with the
  event being built as its state, and a printer of events it is compared with.
\<close>

section \<open>The parser\<close>

record sse_event =
  se_name :: string
  se_data :: string
  se_id :: string

definition max_sse_events :: nat where "max_sse_events = 10000"

record sse_state =
  ss_events :: "sse_event list"
  ss_cur :: sse_event
  ss_data :: "string list"
  ss_have :: bool

definition sse_empty :: sse_event where
  "sse_empty = \<lparr>se_name = [], se_data = [], se_id = []\<rparr>"

definition lf :: char where "lf = CHR 0x0A"
definition cr :: char where "cr = CHR 0x0D"

definition sse_flush :: "sse_state \<Rightarrow> sse_state" where
  "sse_flush s =
     (if \<not> ss_have s then s
      else (let name = (if se_name (ss_cur s) = [] then ''message'' else se_name (ss_cur s))
            in \<lparr>ss_events = ss_events s @ [(ss_cur s)\<lparr>se_name := name, se_data := str_join [lf] (ss_data s)\<rparr>],
                ss_cur = sse_empty, ss_data = [], ss_have = False\<rparr>))"

definition sse_field :: "string \<Rightarrow> sse_state \<Rightarrow> sse_state" where
  "sse_field line s =
     (let (field, val, _) = str_cut (CHR '':'') line;
          val = trim_prefix val '' ''
      in if field = ''event'' then s\<lparr>ss_cur := (ss_cur s)\<lparr>se_name := val\<rparr>, ss_have := True\<rparr>
         else if field = ''data'' then s\<lparr>ss_data := ss_data s @ [val], ss_have := True\<rparr>
         else if field = ''id'' then s\<lparr>ss_cur := (ss_cur s)\<lparr>se_id := val\<rparr>, ss_have := True\<rparr>
         else if field = ''retry'' then s\<lparr>ss_have := True\<rparr>
         else s)"

fun sse_lines :: "string list \<Rightarrow> sse_state \<Rightarrow> sse_state" where
  "sse_lines [] s = s"
| "sse_lines (l # ls) s =
     (let line = trim_suffix l [cr] in
      if line = [] then (let s' = sse_flush s in if max_sse_events \<le> length (ss_events s') then s' else sse_lines ls s')
      else if has_prefix line '':'' then sse_lines ls s
      else sse_lines ls (sse_field line s))"

definition sse_init :: sse_state where
  "sse_init = \<lparr>ss_events = [], ss_cur = sse_empty, ss_data = [], ss_have = False\<rparr>"

definition parse_sse :: "string \<Rightarrow> sse_event list" where
  "parse_sse b = ss_events (sse_flush (sse_lines (str_split lf b) sse_init))"

section \<open>What is done with events\<close>

text \<open>\<open>looksLikeSSE\<close>\<close>

definition looks_like_sse :: "string \<Rightarrow> bool" where
  "looks_like_sse b =
     (let s = trim_left (\<lambda>c. c \<in> {CHR '' '', CHR 0x09, cr, lf}) (cut_head b 512)
      in has_prefix s ''data:'' \<or> has_prefix s ''event:'')"

definition llm_event_names :: "string list" where
  "llm_event_names =
     [''message_start'', ''message_delta'', ''message_stop'', ''content_block_start'', ''content_block_delta'',
      ''content_block_stop'', ''response.created'', ''response.completed'', ''response.output_text'']"

definition quoted :: "string \<Rightarrow> string" where
  "quoted s = CHR 0x22 # s @ [CHR 0x22]"

definition llm_event :: "sse_event \<Rightarrow> bool" where
  "llm_event ev =
     (List.member llm_event_names (se_name ev) \<or> has_prefix (se_name ev) ''response.''
      \<or> str_contains (se_data ev) (quoted ''chat.completion.chunk'') \<or> str_contains (se_data ev) (quoted ''candidates'')
      \<or> trim_space (se_data ev) = ''[DONE]'')"

text \<open>The loop looks at index 21 before it breaks.\<close>

definition is_llm_stream :: "sse_event list \<Rightarrow> bool" where
  "is_llm_stream events = list_ex llm_event (take 22 events)"

definition count_name :: "(string \<times> nat) list \<Rightarrow> string \<Rightarrow> (string \<times> nat) list" where
  "count_name m n = map_put n (case map_of m n of None \<Rightarrow> 1 | Some k \<Rightarrow> Suc k) m"

text \<open>The counts in first-seen order.\<close>

definition event_name_counts :: "sse_event list \<Rightarrow> (string \<times> nat) list" where
  "event_name_counts events = foldl count_name [] (List.map se_name events)"

section \<open>Counts\<close>

lemma map_of_count_name: "map_of (count_name m n) k =
    (if k = n then Some (case map_of m n of None \<Rightarrow> 1 | Some j \<Rightarrow> Suc j) else map_of m k)"
  by (simp add: count_name_def)

lemma event_counts_fold:
  "map_of (foldl count_name m ns) k =
     (let c = (case map_of m k of None \<Rightarrow> 0 | Some j \<Rightarrow> j) + length (filter ((=) k) ns)
      in if k \<in> set ns \<or> map_of m k \<noteq> None then Some c else None)"
  by (induction ns arbitrary: m) (auto simp: map_of_count_name Let_def split: option.split)

lemma event_name_counts_exact:
  "map_of (event_name_counts events) n =
     (if n \<in> se_name ` set events then Some (length (filter (\<lambda>e. se_name e = n) events)) else None)"
  by (auto simp: event_name_counts_def event_counts_fold Let_def filter_map comp_def eq_commute)

section \<open>The bound on events\<close>

lemma sse_flush_length: "length (ss_events (sse_flush s)) \<le> Suc (length (ss_events s))"
  by (simp add: sse_flush_def Let_def)

lemma sse_field_events [simp]: "ss_events (sse_field l s) = ss_events s"
  by (simp add: sse_field_def Let_def split: prod.split)

lemma sse_flush_idle: "\<not> ss_have (sse_flush s)" "\<not> ss_have s \<Longrightarrow> sse_flush s = s"
  by (simp_all add: sse_flush_def Let_def)

lemma sse_lines_bound:
  "length (ss_events s) < max_sse_events \<Longrightarrow>
     length (ss_events (sse_flush (sse_lines ls s))) \<le> max_sse_events"
proof (induction ls s rule: sse_lines.induct)
  case (1 s)
  then show ?case using sse_flush_length [of s] by simp
next
  case (2 l ls s)
  show ?case
  proof (cases "trim_suffix l [cr] = [] \<and> max_sse_events \<le> length (ss_events (sse_flush s))")
    case True
    then show ?thesis
      using sse_flush_length [of s] 2(4) by (simp add: Let_def sse_flush_idle sse_lines.simps(2))
  next
    case False
    then show ?thesis using 2 by (auto simp: Let_def not_le sse_lines.simps(2))
  qed
qed

lemma parse_sse_bound: "length (parse_sse b) \<le> max_sse_events"
  unfolding parse_sse_def by (rule sse_lines_bound) (simp add: sse_init_def max_sse_events_def)

section \<open>Printing and parsing\<close>

definition event_lines :: "sse_event \<Rightarrow> string list" where
  "event_lines ev =
     [''event: '' @ se_name ev] @ List.map (\<lambda>l. ''data: '' @ l) (str_split lf (se_data ev))
     @ (if se_id ev = [] then [] else [''id: '' @ se_id ev])"

text \<open>An event stream, with or without CRLF line endings; \<open>noise\<close> is a comment line before each event.\<close>

definition line_end :: "bool \<Rightarrow> string" where
  "line_end crlf = (if crlf then [cr, lf] else [lf])"

definition print_event :: "bool \<Rightarrow> string \<Rightarrow> sse_event \<Rightarrow> string" where
  "print_event crlf noise ev =
     concat (List.map (\<lambda>l. l @ line_end crlf) (('':'' @ noise) # event_lines ev @ [[]]))"

definition print_sse :: "bool \<Rightarrow> string \<Rightarrow> sse_event list \<Rightarrow> string" where
  "print_sse crlf noise evs = concat (List.map (print_event crlf noise) evs)"

definition sse_text :: "string \<Rightarrow> bool" where
  "sse_text s = (lf \<notin> set s \<and> \<not> has_suffix s [cr])"

definition ok_event :: "sse_event \<Rightarrow> bool" where
  "ok_event ev =
     (se_name ev \<noteq> [] \<and> sse_text (se_name ev) \<and> sse_text (se_id ev) \<and> list_all sse_text (str_split lf (se_data ev)))"

definition wire_line :: "bool \<Rightarrow> string \<Rightarrow> string" where
  "wire_line crlf l = (if crlf then l @ [cr] else l)"

lemma split_wire: "lf \<notin> set l \<Longrightarrow> str_split lf (l @ line_end crlf @ rest) = wire_line crlf l # str_split lf rest"
proof (cases crlf)
  case True
  assume "lf \<notin> set l"
  moreover have "lf \<noteq> cr" by (simp add: lf_def cr_def)
  ultimately have "str_split lf ((l @ [cr]) @ lf # rest) = (l @ [cr]) # str_split lf rest"
    by (intro str_split_append) auto
  then show ?thesis by (simp add: True line_end_def wire_line_def)
qed (simp add: line_end_def wire_line_def str_split_append)

lemma trim_wire: "\<not> has_suffix l [cr] \<Longrightarrow> trim_suffix (wire_line crlf l) [cr] = l"
  by (simp add: wire_line_def trim_suffix_def)

lemma split_all_wire:
  "list_all (\<lambda>l. lf \<notin> set l) ls \<Longrightarrow>
     str_split lf (concat (List.map (\<lambda>l. l @ line_end crlf) ls) @ rest) = List.map (wire_line crlf) ls @ str_split lf rest"
  by (induction ls) (simp_all add: split_wire)

text \<open>What a line of an event does to the event being built.\<close>

declare sse_lines.simps(2) [simp del]

lemma sse_field_lines:
  "sse_field (''event: '' @ v) s = s\<lparr>ss_cur := (ss_cur s)\<lparr>se_name := v\<rparr>, ss_have := True\<rparr>"
  "sse_field (''data: '' @ v) s = s\<lparr>ss_data := ss_data s @ [v], ss_have := True\<rparr>"
  "sse_field (''id: '' @ v) s = s\<lparr>ss_cur := (ss_cur s)\<lparr>se_id := v\<rparr>, ss_have := True\<rparr>"
  by (simp_all add: sse_field_def str_cut_def trim_prefix_def)

lemma suffix_of_line: "sse_text v \<Longrightarrow> p \<noteq> [] \<Longrightarrow> last p \<noteq> cr \<Longrightarrow> \<not> has_suffix (p @ v) [cr]"
  by (cases v rule: rev_cases) (auto simp: sse_text_def suffix_def dest: sym [of "_ @ [cr]"])

lemma sse_line_step:
  "trim_suffix w [cr] = l \<Longrightarrow> l \<noteq> [] \<Longrightarrow> \<not> has_prefix l '':'' \<Longrightarrow> sse_lines (w # ls) s = sse_lines ls (sse_field l s)"
  "trim_suffix w [cr] = l \<Longrightarrow> has_prefix l '':'' \<Longrightarrow> sse_lines (w # ls) s = sse_lines ls s"
  by (auto simp: Let_def sse_lines.simps(2))

lemma sse_data_lines:
  "list_all sse_text ds \<Longrightarrow>
     sse_lines (List.map (wire_line crlf) (List.map (\<lambda>l. ''data: '' @ l) ds) @ rest) s
     = sse_lines rest (s\<lparr>ss_data := ss_data s @ ds, ss_have := (ss_have s \<or> ds \<noteq> [])\<rparr>)"
proof (induction ds arbitrary: s)
  case (Cons d ds)
  have "\<not> has_suffix (''data: '' @ d) [cr]" using Cons.prems by (intro suffix_of_line) (simp_all add: cr_def)
  then have "trim_suffix (wire_line crlf (''data: '' @ d)) [cr] = ''data: '' @ d" by (rule trim_wire)
  then have "sse_lines (wire_line crlf (''data: '' @ d) # List.map (wire_line crlf) (List.map (\<lambda>l. ''data: '' @ l) ds) @ rest) s
      = sse_lines (List.map (wire_line crlf) (List.map (\<lambda>l. ''data: '' @ l) ds) @ rest) (sse_field (''data: '' @ d) s)"
    by (rule sse_line_step(1)) simp_all
  also have "\<dots> = sse_lines rest (s\<lparr>ss_data := ss_data s @ d # ds, ss_have := True\<rparr>)"
    using Cons by (simp only: sse_field_lines) simp
  finally show ?case by simp
qed simp

definition fresh :: "sse_state \<Rightarrow> bool" where
  "fresh s = (ss_cur s = sse_empty \<and> ss_data s = [] \<and> \<not> ss_have s)"

lemma wire_text_line: "sse_text v \<Longrightarrow> p \<noteq> [] \<Longrightarrow> last p \<noteq> cr \<Longrightarrow> trim_suffix (wire_line crlf (p @ v)) [cr] = p @ v"
  by (intro trim_wire suffix_of_line)

lemma sse_name_line:
  "sse_text v \<Longrightarrow> sse_lines (wire_line crlf (''event: '' @ v) # ls) s
     = sse_lines ls (s\<lparr>ss_cur := (ss_cur s)\<lparr>se_name := v\<rparr>, ss_have := True\<rparr>)"
  by (subst sse_line_step(1) [OF wire_text_line]) (simp_all only: sse_field_lines, simp_all add: cr_def)

lemma sse_id_line:
  "sse_text v \<Longrightarrow> sse_lines (wire_line crlf (''id: '' @ v) # ls) s
     = sse_lines ls (s\<lparr>ss_cur := (ss_cur s)\<lparr>se_id := v\<rparr>, ss_have := True\<rparr>)"
  by (subst sse_line_step(1) [OF wire_text_line]) (simp_all only: sse_field_lines, simp_all add: cr_def)

lemma sse_comment_line: "sse_text v \<Longrightarrow> sse_lines (wire_line crlf ('':'' @ v) # ls) s = sse_lines ls s"
  by (rule sse_line_step(2) [OF wire_text_line]) (simp_all add: cr_def)

lemma sse_blank_line:
  "sse_lines (wire_line crlf [] # ls) s =
     (let s' = sse_flush s in if max_sse_events \<le> length (ss_events s') then s' else sse_lines ls s')"
  by (simp add: wire_line_def trim_suffix_def Let_def sse_lines.simps(2))

text \<open>The lines of one event, its comment and the blank line after it add that event.\<close>

lemma sse_event_lines:
  assumes ok: "ok_event ev" and noise: "sse_text noise" and s: "fresh s"
    and room: "Suc (length (ss_events s)) < max_sse_events \<or> rest = [[]]"
  shows "sse_lines (List.map (wire_line crlf) (('':'' @ noise) # event_lines ev @ [[]]) @ rest) s
    = sse_lines rest (s\<lparr>ss_events := ss_events s @ [ev]\<rparr>)"
proof -
  let ?w = "List.map (wire_line crlf)"
  let ?ids = "if se_id ev = [] then [] else [''id: '' @ se_id ev]"
  define ds where "ds = str_split lf (se_data ev)"
  define s3 where "s3 = s\<lparr>ss_cur := ev\<lparr>se_data := []\<rparr>, ss_data := ds, ss_have := True\<rparr>"
  have ev: "se_name ev \<noteq> []" "sse_text (se_name ev)" "sse_text (se_id ev)" "list_all sse_text ds" "ds \<noteq> []"
    using ok by (simp_all add: ok_event_def ds_def)
  have "sse_lines (?w (('':'' @ noise) # event_lines ev @ [[]]) @ rest) s
     = sse_lines (wire_line crlf ('':'' @ noise) # wire_line crlf (''event: '' @ se_name ev) # ?w (List.map (\<lambda>l. ''data: '' @ l) ds)
         @ ?w ?ids @ wire_line crlf [] # rest) s"
    by (simp add: event_lines_def ds_def)
  also have "\<dots> = sse_lines (?w ?ids @ wire_line crlf [] # rest)
      (s\<lparr>ss_cur := (ss_cur s)\<lparr>se_name := se_name ev\<rparr>, ss_data := ds, ss_have := True\<rparr>)"
    using s ev by (simp only: sse_comment_line [OF noise] sse_name_line sse_data_lines) (simp add: fresh_def)
  also have "\<dots> = sse_lines (wire_line crlf [] # rest) s3"
  proof (cases "se_id ev = []")
    case True
    then have "ss_cur s\<lparr>se_name := se_name ev\<rparr> = ev\<lparr>se_data := []\<rparr>" using s by (simp add: fresh_def sse_empty_def)
    with True show ?thesis by (simp add: s3_def)
  next
    case False
    have "s\<lparr>ss_data := ds, ss_cur := (ss_cur s)\<lparr>se_name := se_name ev, se_id := se_id ev\<rparr>, ss_have := True\<rparr> = s3"
      using s by (simp add: s3_def fresh_def sse_empty_def)
    with False ev show ?thesis by (simp add: sse_id_line [simplified])
  qed
  also have "\<dots> = sse_lines rest (s\<lparr>ss_events := ss_events s @ [ev]\<rparr>)"
  proof -
    have "sse_flush s3 = s\<lparr>ss_events := ss_events s @ [ev]\<rparr>"
      using s ev by (simp add: sse_flush_def s3_def ds_def fresh_def)
    moreover have "sse_lines [[]] s' = s'" if "\<not> ss_have s'" for s' :: sse_state
      using that by (simp add: trim_suffix_def sse_flush_idle Let_def sse_lines.simps(2))
    ultimately show ?thesis using room s by (auto simp: sse_blank_line Let_def fresh_def)
  qed
  finally show ?thesis .
qed

lemma print_event_split:
  "ok_event ev \<Longrightarrow> sse_text noise \<Longrightarrow>
     str_split lf (print_event crlf noise ev @ rest)
     = List.map (wire_line crlf) (('':'' @ noise) # event_lines ev @ [[]]) @ str_split lf rest"
  unfolding print_event_def
  by (rule split_all_wire) (auto simp: event_lines_def ok_event_def sse_text_def list_all_iff lf_def)

lemma sse_stream_lines:
  "list_all ok_event evs \<Longrightarrow> sse_text noise \<Longrightarrow> fresh s \<Longrightarrow> length (ss_events s) + length evs \<le> max_sse_events \<Longrightarrow>
     sse_lines (str_split lf (print_sse crlf noise evs)) s = s\<lparr>ss_events := ss_events s @ evs\<rparr>"
proof (induction evs arbitrary: s)
  case Nil
  then show ?case by (simp add: print_sse_def trim_suffix_def sse_flush_idle fresh_def Let_def sse_lines.simps(2))
next
  case (Cons ev evs)
  let ?s = "s\<lparr>ss_events := ss_events s @ [ev]\<rparr>"
  have split: "str_split lf (print_sse crlf noise (ev # evs))
     = List.map (wire_line crlf) (('':'' @ noise) # event_lines ev @ [[]]) @ str_split lf (print_sse crlf noise evs)"
    using print_event_split [of ev noise crlf "print_sse crlf noise evs"] Cons.prems by (simp add: print_sse_def)
  have "Suc (length (ss_events s)) < max_sse_events \<or> str_split lf (print_sse crlf noise evs) = [[]]"
    using Cons.prems by (cases evs) (auto simp: print_sse_def)
  then have "sse_lines (str_split lf (print_sse crlf noise (ev # evs))) s = sse_lines (str_split lf (print_sse crlf noise evs)) ?s"
    using Cons.prems unfolding split by (intro sse_event_lines) simp_all
  also have "\<dots> = s\<lparr>ss_events := ss_events s @ ev # evs\<rparr>"
    using Cons.IH [of ?s] Cons.prems by (simp add: fresh_def)
  finally show ?case .
qed

text \<open>C24: parsing an event stream gives back the events it was printed from (up to the parser's bound of
  10000), with LF and with CRLF line endings, multi-line data, missing ids and comment lines between
  the events included.\<close>

theorem sse_roundtrip:
  assumes "list_all ok_event evs" "sse_text noise" "length evs \<le> max_sse_events"
  shows "parse_sse (print_sse crlf noise evs) = evs"
  using sse_stream_lines [OF assms(1,2), of sse_init crlf] assms(3)
  by (simp add: parse_sse_def sse_init_def fresh_def sse_flush_idle)

lemma sse_roundtrip_witness:
  "parse_sse (print_sse True ''ping'' [\<lparr>se_name = ''delta'', se_data = ''a'' @ [lf] @ ''b'', se_id = ''7''\<rparr>, \<lparr>se_name = ''message'', se_data = [], se_id = []\<rparr>])
   = [\<lparr>se_name = ''delta'', se_data = ''a'' @ [lf] @ ''b'', se_id = ''7''\<rparr>, \<lparr>se_name = ''message'', se_data = [], se_id = []\<rparr>]"
  by (rule sse_roundtrip) (simp_all add: ok_event_def sse_text_def lf_def cr_def suffix_def max_sse_events_def append_eq_Cons_conv)

end
