(* ===== verification/View_Redact.thy ===== *)
theory View_Redact
  imports View_Text "HOL-Library.Product_Lexorder"
begin

text \<open>
  \<open>internal/view/redact.go\<close>: how credentials are masked. SHA-256 (as a hex text) and the regular
  expressions are parameters; a regular expression is known by its name in the source.
\<close>

section \<open>Masks\<close>

definition known_prefixes :: "string list" where
  "known_prefixes =
     [''sk-ant-'', ''sk-proj-'', ''sk-'', ''ghp_'', ''gho_'', ''ghu_'', ''ghs_'', ''ghr_'', ''xoxb-'', ''xoxa-'',
      ''xoxp-'', ''xoxr-'', ''xoxs-'', ''AKIA'', ''AIza'', ''key-'', ''eyJ'']"

definition known_prefix :: "string \<Rightarrow> string" where
  "known_prefix v = (case find (has_prefix v) known_prefixes of None \<Rightarrow> [] | Some p \<Rightarrow> p)"

text \<open>The visible start of a masked value.\<close>

definition mask_prefix :: "string \<Rightarrow> string" where
  "mask_prefix v =
     (let r = runes v in if known_prefix v = [] \<and> 12 < length r then concat (take 3 r) else known_prefix v)"

definition mask_secret :: "(string \<Rightarrow> string) \<Rightarrow> string \<Rightarrow> string" where
  "mask_secret sha v =
     (if v = [] then []
      else (let r = runes v; rest = int (length r) - int (length (runes (mask_prefix v)));
                suf = (if 8 \<le> rest then concat (drop (length r - 4) r) else [])
            in mask_prefix v @ dots @ suf @ '' hash:'' @ take 4 (sha v)))"

definition is_masked :: "string \<Rightarrow> bool" where
  "is_masked s = (str_contains s dots \<or> str_contains s ''hash:'')"

definition sensitive_keys :: "string list" where
  "sensitive_keys =
     [''password'', ''passwd'', ''secret'', ''token'', ''access_token'', ''refresh_token'', ''client_secret'',
      ''api_key'', ''apikey'', ''private_key'', ''authorization'', ''cookie'', ''set-cookie'']"

definition is_sensitive_key :: "string \<Rightarrow> bool" where
  "is_sensitive_key k = List.member sensitive_keys (to_lower k)"

text \<open>A nil masker behaves as one that is off.\<close>

record masker =
  mk_on :: bool
  mk_n :: nat

definition mask_value :: "(string \<Rightarrow> string) \<Rightarrow> masker \<Rightarrow> string \<Rightarrow> string \<Rightarrow> string \<times> bool \<times> masker" where
  "mask_value sha m key v =
     (if \<not> mk_on m \<or> v = [] \<or> \<not> is_sensitive_key key \<or> is_masked v then (v, False, m)
      else (mask_secret sha v, True, m\<lparr>mk_n := mk_n m + 1\<rparr>))"

section \<open>Text\<close>

text \<open>
  A regular expression cuts a text into its matches, each with the text before it, and the rest
  after the last; \<open>rx_group\<close> is \<open>FindStringSubmatchIndex\<close> for one group: where the group starts and ends.
\<close>

record regexes =
  rx_cut :: "string \<Rightarrow> string \<Rightarrow> (string \<times> string) list \<times> string"
  rx_group :: "string \<Rightarrow> string \<Rightarrow> nat \<Rightarrow> (nat \<times> nat) option"

text \<open>\<open>ReplaceAllStringFunc\<close>, with the replacements counted.\<close>

fun replace_matches :: "(string \<Rightarrow> string \<times> nat) \<Rightarrow> (string \<times> string) list \<Rightarrow> string \<Rightarrow> string \<times> nat" where
  "replace_matches f [] rest = (rest, 0)"
| "replace_matches f ((pre, m) # ms) rest =
     (let (out, k) = f m; (tail, n) = replace_matches f ms rest in (pre @ out @ tail, k + n))"

definition replace_all :: "regexes \<Rightarrow> string \<Rightarrow> (string \<Rightarrow> string \<times> nat) \<Rightarrow> string \<Rightarrow> string \<times> nat" where
  "replace_all rx re f s = (let (ms, rest) = rx_cut rx re s in replace_matches f ms rest)"

text \<open>A match always has its second group here, and ends with it; the code does not check.\<close>

definition mask_bearer :: "(string \<Rightarrow> string) \<Rightarrow> regexes \<Rightarrow> string \<Rightarrow> string \<times> nat" where
  "mask_bearer sha rx m =
     (case rx_group rx ''reBearer'' m 2 of
        None \<Rightarrow> (m, 0)
      | Some (i, j) \<Rightarrow>
          (let tok = take (j - i) (drop i m) in
           if is_masked tok then (m, 0) else (take i m @ mask_secret sha tok, 1)))"

text \<open>\<open>maskGroup\<close>\<close>

definition mask_group :: "(string \<Rightarrow> string) \<Rightarrow> regexes \<Rightarrow> string \<Rightarrow> nat \<Rightarrow> string \<Rightarrow> string \<times> nat" where
  "mask_group sha rx re g m =
     (case rx_group rx re m g of
        None \<Rightarrow> (m, 0)
      | Some (i, j) \<Rightarrow>
          (let val = take (j - i) (drop i m) in
           if val = [] \<or> is_masked val then (m, 0) else (take i m @ mask_secret sha val @ drop j m, 1)))"

definition mask_quoted :: "(string \<Rightarrow> string) \<Rightarrow> string \<Rightarrow> string \<times> nat" where
  "mask_quoted sha q =
     (if length q < 3 then (q, 0) else ([CHR 0x22] @ mask_secret sha (butlast (tl q)) @ [CHR 0x22], 1))"

definition line_space :: "char \<Rightarrow> bool" where
  "line_space c = (c = CHR '' '' \<or> c = CHR 0x09 \<or> c = CHR 0x0D)"

definition mask_line :: "(string \<Rightarrow> string) \<Rightarrow> regexes \<Rightarrow> string \<Rightarrow> string \<times> nat" where
  "mask_line sha rx m =
     (case rx_group rx ''reLineKV'' m 3 of
        None \<Rightarrow> (m, 0)
      | Some (i, j) \<Rightarrow>
          (let val = trim_right line_space (take (j - i) (drop i m)) in
           if val = [] \<or> is_masked val then (m, 0)
           else if hd val = CHR 0x22 then
             (let (masked, n) = replace_all rx ''reQuoted'' (mask_quoted sha) val in
              (take i m @ masked @ drop (i + length val) m, n))
           else if fst (rx_cut rx ''reTypeWord'' val) \<noteq> [] then (m, 0)
           else (take i m @ mask_secret sha val @ drop (i + length val) m, 1)))"

definition mask_match :: "(string \<Rightarrow> string) \<Rightarrow> string \<Rightarrow> string \<times> nat" where
  "mask_match sha m = (if m = [] \<or> is_masked m then (m, 0) else (mask_secret sha m, 1))"

text \<open>The passes in their order; the configured patterns come last.\<close>

definition text_passes :: "(string \<Rightarrow> string) \<Rightarrow> regexes \<Rightarrow> string list \<Rightarrow> (string \<times> (string \<Rightarrow> string \<times> nat)) list" where
  "text_passes sha rx extra =
     [(''reBearer'', mask_bearer sha rx), (''reToken'', \<lambda>m. (mask_secret sha m, 1)),
      (''reJSONKV'', mask_group sha rx ''reJSONKV'' 2), (''reJSONKVEsc'', mask_group sha rx ''reJSONKVEsc'' 2),
      (''reFormKV'', mask_group sha rx ''reFormKV'' 3), (''reURLAuth'', mask_group sha rx ''reURLAuth'' 2),
      (''reLineKV'', mask_line sha rx)]
     @ List.map (\<lambda>re. (re, mask_match sha)) extra"

fun run_passes :: "regexes \<Rightarrow> (string \<times> (string \<Rightarrow> string \<times> nat)) list \<Rightarrow> string \<Rightarrow> nat \<Rightarrow> string \<times> nat" where
  "run_passes rx [] s n = (s, n)"
| "run_passes rx ((re, f) # ps) s n = (let (s', k) = replace_all rx re f s in run_passes rx ps s' (n + k))"

definition redact_text :: "(string \<Rightarrow> string) \<Rightarrow> regexes \<Rightarrow> string list \<Rightarrow> string \<Rightarrow> string \<times> nat" where
  "redact_text sha rx extra s = run_passes rx (text_passes sha rx extra) s 0"

section \<open>Headers\<close>

definition secret_headers :: "string list" where
  "secret_headers =
     [''authorization'', ''proxy-authorization'', ''cookie'', ''set-cookie'', ''x-api-key'', ''api-key'',
      ''x-goog-api-key'', ''x-auth-token'', ''openai-organization'', ''x-amz-security-token'', ''x-csrf-token'']"

definition is_secret_header :: "string list \<Rightarrow> string \<Rightarrow> bool" where
  "is_secret_header extra name =
     (List.member secret_headers (to_lower name) \<or> list_ex (\<lambda>h. equal_fold h name) extra)"

definition mask_cookie_pair :: "(string \<Rightarrow> string) \<Rightarrow> string \<Rightarrow> string" where
  "mask_cookie_pair sha p =
     (let (k, val, ok) = str_cut (CHR ''='') p in
      if \<not> ok then (if p = [] then p else mask_secret sha p)
      else if val = [] then p
      else k @ ''='' @ mask_secret sha val)"

definition mask_header_value :: "(string \<Rightarrow> string) \<Rightarrow> string \<Rightarrow> string \<Rightarrow> string" where
  "mask_header_value sha name v =
     (let n = to_lower name in
      if n = ''authorization'' \<or> n = ''proxy-authorization'' then
        (let (scheme, rest, ok) = str_cut (CHR '' '') v in
         if ok \<and> rest \<noteq> [] then scheme @ '' '' @ mask_secret sha (trim_space rest) else mask_secret sha v)
      else if n = ''cookie'' then
        str_join ''; '' (List.map (\<lambda>p. mask_cookie_pair sha (trim_space p)) (str_split (CHR '';'') v))
      else if n = ''set-cookie'' then
        (let (first, attrs, has_attrs) = str_cut (CHR '';'') v; first' = mask_cookie_pair sha first in
         if has_attrs then first' @ '';'' @ attrs else first')
      else mask_secret sha v)"

text \<open>One value of a header; \<open>rt\<close> is \<open>RedactText\<close>.\<close>

definition redact_value ::
  "(string \<Rightarrow> string) \<Rightarrow> (string \<Rightarrow> string \<times> nat) \<Rightarrow> bool \<Rightarrow> string \<Rightarrow> string \<Rightarrow> string \<times> nat" where
  "redact_value sha rt sec name v =
     (if v = [] then (v, 0)
      else if sec then
        (if is_masked v then (v, 0)
         else (let m = mask_header_value sha name v in if m \<noteq> v then (m, 1) else (v, 0)))
      else rt v)"

definition redact_headers ::
  "(string \<Rightarrow> string) \<Rightarrow> (string \<Rightarrow> string \<times> nat) \<Rightarrow> string list \<Rightarrow> header \<Rightarrow> bool \<Rightarrow> header \<times> nat" where
  "redact_headers sha rt extra h reveal =
     (if reveal then (h, 0)
      else (let out = List.map (\<lambda>(name, vals). (name, List.map (redact_value sha rt (is_secret_header extra name) name) vals)) h
            in (List.map (\<lambda>(name, vs). (name, List.map fst vs)) out,
                sum_list (List.map (\<lambda>(name, vs). sum_list (List.map snd vs)) out))))"

text \<open>\<open>FormatHeaders\<close>\<close>

definition format_headers :: "header \<Rightarrow> string" where
  "format_headers h =
     str_join [CHR 0x0A]
       (concat (List.map (\<lambda>(k, vs). List.map (\<lambda>v. k @ '': '' @ v) vs) (sort_key (\<lambda>(k, vs). (to_lower k, k)) h)))"

section \<open>What a mask shows\<close>

lemma runes_Nil [simp]: "runes [] = []"
  by (simp add: runes.simps)

lemma rune_len_local: "1 < rune_len xs \<Longrightarrow> rune_len (take (rune_len xs) xs @ ys) = rune_len xs"
  by (cases xs) (auto split: if_splits list.splits)

text \<open>A rune followed by anything is read as that rune.\<close>

lemma first_rune_again:
  assumes "s \<noteq> []"
  shows "first_rune (first_rune s @ x) = first_rune s \<and> rune_len (List.map octet (first_rune s @ x)) = length (first_rune s)"
proof -
  let ?b = "List.map octet s" let ?l = "rune_len ?b"
  have len: "?l \<le> length s" using rune_len_le(1) [of ?b] by simp
  show ?thesis
  proof (cases "1 < ?l")
    case True
    then have f: "first_rune s = take ?l s" by (simp add: first_rune_def)
    have "rune_len (List.map octet (take ?l s @ x)) = ?l"
      using rune_len_local [OF True, of "List.map octet x"] by (simp add: take_map)
    with f len True show ?thesis by (simp add: first_rune_def)
  next
    case False
    with assms rune_len_pos [of ?b] have one: "?l = 1" by simp
    obtain c t where s: "s = c # t" using assms by (cases s) auto
    show ?thesis
    proof (cases "128 \<le> octet c")
      case True
      have "octet (CHR 0xEF) = 239" "octet (CHR 0xBF) = 191" "octet (CHR 0xBD) = 189" by (simp_all add: octet_def)
      with True one s show ?thesis by (simp add: first_rune_def replacement_def cont_byte_def)
    next
      case False
      with one s show ?thesis by (simp add: first_rune_def)
    qed
  qed
qed

lemma first_rune_nonempty: "s \<noteq> [] \<Longrightarrow> first_rune s \<noteq> []"
  using rune_len_pos [of "List.map octet s"] by (simp add: first_rune_def replacement_def)

lemma runes_of_runes: "list_all (\<lambda>r. \<exists>t. t \<noteq> [] \<and> r = first_rune t) rs \<Longrightarrow> runes (concat rs) = rs"
proof (induction rs)
  case (Cons r rs)
  then obtain t where t: "t \<noteq> []" "r = first_rune t" by auto
  from first_rune_again [OF t(1), of "concat rs"] t first_rune_nonempty [OF t(1)] Cons show ?case
    by (simp add: runes.simps [of "first_rune t @ concat rs"])
qed (simp add: runes.simps)

lemma runes_are_runes: "list_all (\<lambda>r. \<exists>t. t \<noteq> [] \<and> r = first_rune t) (runes s)"
proof (induction s rule: runes.induct)
  case (1 s)
  then show ?case by (cases "s = []") (auto simp: runes.simps [of s])
qed

lemma runes_take: "runes (concat (take k (runes s))) = take k (runes s)"
  using runes_are_runes [of s] by (intro runes_of_runes) (auto simp: list_all_iff dest: in_set_takeD)

lemma runes_ascii: "list_all (\<lambda>c. octet c < 128) p \<Longrightarrow> runes (p @ s) = List.map (\<lambda>c. [c]) p @ runes s"
proof (induction p)
  case (Cons c p)
  have "rune_len (List.map octet (c # p @ s)) = 1" using Cons.prems by simp
  then have "first_rune (c # p @ s) = [c]" "drop (rune_len (List.map octet (c # p @ s))) (c # p @ s) = p @ s"
    using Cons.prems by (simp_all add: first_rune_def)
  with Cons show ?case by (simp add: runes.simps [of "c # p @ s"])
qed simp

lemma known_prefix_cases: "known_prefix v = [] \<or> known_prefix v \<in> set known_prefixes \<and> has_prefix v (known_prefix v)"
  by (auto simp: known_prefix_def find_Some_iff split: option.split)

lemma known_prefixes_ascii: "p \<in> set known_prefixes \<Longrightarrow> list_all (\<lambda>c. octet c < 128) p"
proof -
  have "list_all (list_all (\<lambda>c. octet c < 128)) known_prefixes" by code_simp
  then show "p \<in> set known_prefixes \<Longrightarrow> list_all (\<lambda>c. octet c < 128) p" by (simp add: list_all_iff)
qed

lemma runes_known_prefix:
  obtains pre rest where "runes v = pre @ rest" "concat pre = known_prefix v" "runes (known_prefix v) = pre"
proof -
  consider "known_prefix v = []" | "known_prefix v \<in> set known_prefixes" "has_prefix v (known_prefix v)"
    using known_prefix_cases by blast
  then show thesis
  proof cases
    case 1
    then show thesis using that [of "[]" "runes v"] by (simp add: runes.simps)
  next
    case 2
    from 2(2) obtain t where t: "v = known_prefix v @ t" by (auto simp: prefix_def)
    note ascii = known_prefixes_ascii [OF 2(1)]
    let ?p = "List.map (\<lambda>c. [c]) (known_prefix v)"
    have "runes v = ?p @ runes t" using t runes_ascii [OF ascii, of t] by metis
    moreover have "runes (known_prefix v) = ?p" using runes_ascii [OF ascii, of "[]"] by (simp add: runes.simps)
    moreover have "concat ?p = known_prefix v" by (simp add: concat_map_singleton)
    ultimately show thesis using that by blast
  qed
qed

text \<open>A mask shows of a value a recognisable prefix, or the first three characters of more than twelve,
  and its last four characters only when at least four others stay hidden; the rest of it is the
  first four hex digits of its hash.\<close>

theorem mask_hides:
  assumes "v \<noteq> []"
  shows "\<exists>pre hid suf. runes v = pre @ hid @ suf
     \<and> mask_secret sha v = concat pre @ dots @ concat suf @ '' hash:'' @ take 4 (sha v)
     \<and> (suf = [] \<or> length suf = 4 \<and> 4 \<le> length hid)
     \<and> (pre = [] \<or> concat pre \<in> set known_prefixes \<or> length pre = 3 \<and> 12 < length (runes v))"
proof -
  obtain kp rest where k: "runes v = kp @ rest" "concat kp = known_prefix v" "runes (known_prefix v) = kp"
    using runes_known_prefix .
  define pre where "pre = (if known_prefix v = [] \<and> 12 < length (runes v) then take 3 (runes v) else kp)"
  have pre: "concat pre = mask_prefix v" "runes (mask_prefix v) = pre"
    by (simp_all add: pre_def mask_prefix_def Let_def runes_take k(2,3))
  obtain tail where tail: "runes v = pre @ tail"
  proof (cases "known_prefix v = [] \<and> 12 < length (runes v)")
    case True
    then have "pre = take 3 (runes v)" unfolding pre_def by (rule if_P)
    then show thesis using that [of "drop 3 (runes v)"] by (simp only: append_take_drop_id)
  next
    case False
    then have "pre = kp" unfolding pre_def by (rule if_not_P)
    then show thesis using that [of rest] k(1) by simp
  qed
  have shows_pre: "pre = [] \<or> concat pre \<in> set known_prefixes \<or> length pre = 3 \<and> 12 < length (runes v)"
    using known_prefix_cases [of v] k by (auto simp: pre_def runes.simps)
  define suf where "suf = (if 8 \<le> length tail then drop (length tail - 4) tail else [])"
  define hid where "hid = (if 8 \<le> length tail then take (length tail - 4) tail else tail)"
  have "drop (length (runes v) - 4) (runes v) = suf" if "8 \<le> length tail"
    using that tail by (simp add: suf_def)
  moreover have "(8 \<le> int (length (runes v)) - int (length pre)) = (8 \<le> length tail)"
    using tail by simp
  ultimately have "mask_secret sha v = concat pre @ dots @ concat suf @ '' hash:'' @ take 4 (sha v)"
    using assms pre by (auto simp: mask_secret_def Let_def suf_def)
  moreover have "runes v = pre @ hid @ suf" "suf = [] \<or> length suf = 4 \<and> 4 \<le> length hid"
    using tail by (auto simp: hid_def suf_def)
  ultimately show ?thesis using shows_pre by blast
qed

lemma mask_hides_witness:
  "\<exists>pre hid suf. runes ''hunter2hunter2'' = pre @ hid @ suf
     \<and> mask_secret (\<lambda>_. ''0123'') ''hunter2hunter2'' = concat pre @ dots @ concat suf @ '' hash:'' @ take 4 ''0123''
     \<and> (suf = [] \<or> length suf = 4 \<and> 4 \<le> length hid)
     \<and> (pre = [] \<or> concat pre \<in> set known_prefixes \<or> length pre = 3 \<and> 12 < length (runes ''hunter2hunter2''))"
  by (rule mask_hides) simp

section \<open>Counts and idempotence\<close>

lemma is_masked_parts: "is_masked (a @ dots @ b)"
  by (auto simp: is_masked_def str_contains_iff)

lemma mask_secret_masked: "v \<noteq> [] \<Longrightarrow> is_masked (a @ mask_secret sha v @ b)"
  using is_masked_parts [of "a @ mask_prefix v"] by (simp add: mask_secret_def Let_def)

text \<open>The cut of a text gives the text back.\<close>

definition cuts_text :: "regexes \<Rightarrow> bool" where
  "cuts_text rx = (\<forall>re s. concat (List.map (\<lambda>(a, m). a @ m) (fst (rx_cut rx re s))) @ snd (rx_cut rx re s) = s)"

lemma replace_matches_none:
  assumes "\<And>m. snd (f m) = 0 \<Longrightarrow> fst (f m) = m"
  shows "snd (replace_matches f ms rest) = 0 \<Longrightarrow>
     fst (replace_matches f ms rest) = concat (List.map (\<lambda>(a, m). a @ m) ms) @ rest"
proof (induction ms)
  case (Cons p ms)
  obtain a m where p: "p = (a, m)" by (cases p)
  with Cons assms [of m] show ?case by (auto simp: Let_def split: prod.splits)
qed simp

lemma replace_all_none:
  assumes "cuts_text rx" "\<And>m. snd (f m) = 0 \<Longrightarrow> fst (f m) = m" "snd (replace_all rx re f s) = 0"
  shows "fst (replace_all rx re f s) = s"
proof -
  obtain ms rest where c: "rx_cut rx re s = (ms, rest)" by (cases "rx_cut rx re s")
  with assms(1) have "concat (List.map (\<lambda>(a, m). a @ m) ms) @ rest = s" unfolding cuts_text_def by (metis fst_conv snd_conv)
  with replace_matches_none [OF assms(2), of ms rest] assms(3) c show ?thesis by (simp add: replace_all_def)
qed

lemma mask_group_none: "snd (mask_group sha rx re g m) = 0 \<Longrightarrow> fst (mask_group sha rx re g m) = m"
  by (auto simp: mask_group_def Let_def split: option.splits if_splits)

lemma mask_bearer_none: "snd (mask_bearer sha rx m) = 0 \<Longrightarrow> fst (mask_bearer sha rx m) = m"
  by (auto simp: mask_bearer_def Let_def split: option.splits if_splits)

lemma mask_match_none: "snd (mask_match sha m) = 0 \<Longrightarrow> fst (mask_match sha m) = m"
  by (auto simp: mask_match_def split: if_splits)

definition honest :: "(string \<Rightarrow> string \<times> nat) \<Rightarrow> bool" where
  "honest f = (\<forall>m. snd (f m) = 0 \<longrightarrow> fst (f m) = m)"

lemma honest_replace: "cuts_text rx \<Longrightarrow> honest f \<Longrightarrow> snd (replace_all rx re f s) = 0 \<Longrightarrow> fst (replace_all rx re f s) = s"
  by (rule replace_all_none) (auto simp: honest_def)

lemma run_passes_none:
  assumes "cuts_text rx"
  shows "list_all (honest \<circ> snd) ps \<Longrightarrow> snd (run_passes rx ps s n) = 0 \<Longrightarrow> n = 0 \<and> fst (run_passes rx ps s n) = s"
proof (induction ps arbitrary: s n)
  case (Cons p ps)
  obtain re f where p: "p = (re, f)" by (cases p)
  obtain s' k where r: "replace_all rx re f s = (s', k)" by (cases "replace_all rx re f s")
  from Cons.IH [of s' "n + k"] Cons.prems p r have "n + k = 0" "fst (run_passes rx ps s' (n + k)) = s'" by auto
  moreover from this honest_replace [OF assms, of f re s] Cons.prems(1) p r have "s' = s" by simp
  ultimately show ?case by (simp add: p r)
qed simp

lemma take_val_drop: "prefix val (drop i m) \<Longrightarrow> take i m @ val @ drop (i + length val) m = m"
  by (metis append_eq_conv_conj append_take_drop_id drop_drop add.commute prefix_def)

lemma trim_right_prefix: "prefix (trim_right P s) s"
proof -
  have "suffix (dropWhile P (rev s)) (rev s)" by (rule suffix_dropWhile)
  then show ?thesis by (simp add: trim_right_def suffix_to_prefix)
qed

lemma honest_quoted: "honest (mask_quoted sha)"
  by (simp add: honest_def mask_quoted_def)

lemma honest_line:
  assumes "cuts_text rx" shows "honest (mask_line sha rx)"
proof (unfold honest_def, intro allI impI)
  fix m assume z: "snd (mask_line sha rx m) = 0"
  show "fst (mask_line sha rx m) = m"
  proof (cases "rx_group rx ''reLineKV'' m 3")
    case None
    then show ?thesis by (simp add: mask_line_def)
  next
    case (Some ij)
    obtain i j where ij: "ij = (i, j)" by (cases ij)
    define val where "val = trim_right line_space (take (j - i) (drop i m))"
    have pre: "prefix val (drop i m)"
      unfolding val_def using trim_right_prefix take_is_prefix by (rule prefix_order.trans)
    show ?thesis
    proof (cases "val \<noteq> [] \<and> \<not> is_masked val \<and> hd val = CHR 0x22")
      case True
      obtain masked n where r: "replace_all rx ''reQuoted'' (mask_quoted sha) val = (masked, n)"
        by (cases "replace_all rx ''reQuoted'' (mask_quoted sha) val")
      have l: "mask_line sha rx m = (take i m @ masked @ drop (i + length val) m, n)"
        using True Some ij r by (simp add: mask_line_def Let_def flip: val_def)
      with z r honest_replace [OF assms honest_quoted, of "''reQuoted''" sha val] have "masked = val" by simp
      with l take_val_drop [OF pre] show ?thesis by simp
    next
      case False
      with z Some ij show ?thesis by (auto simp: mask_line_def Let_def simp flip: val_def split: if_splits)
    qed
  qed
qed

lemma honest_passes: "cuts_text rx \<Longrightarrow> list_all (honest \<circ> snd) (text_passes sha rx extra)"
  by (simp add: text_passes_def honest_line list_all_iff)
    (simp add: honest_def mask_group_none mask_bearer_none mask_match_none)

text \<open>A text reported with no redaction is the text itself, unchanged, whatever patterns are configured.\<close>

theorem redact_text_count:
  assumes "cuts_text rx" "snd (redact_text sha rx extra s) = 0"
  shows "fst (redact_text sha rx extra s) = s"
  using run_passes_none [OF assms(1) honest_passes [OF assms(1)], of sha extra s 0] assms(2)
  by (simp add: redact_text_def)

lemma redact_text_count_witness:
  "fst (redact_text (\<lambda>_. ''0123'') \<lparr>rx_cut = (\<lambda>_ s. ([], s)), rx_group = (\<lambda>_ _ _. None)\<rparr> [''x''] ''hello'') = ''hello''"
  by (rule redact_text_count) (simp_all add: cuts_text_def redact_text_def text_passes_def replace_all_def)

section \<open>Cookies\<close>

definition cookie_text :: "(string \<Rightarrow> string) \<Rightarrow> (string \<times> string) list \<Rightarrow> string" where
  "cookie_text f ps = str_join ''; '' (List.map (\<lambda>(k, v). k @ ''='' @ f v) ps)"

definition cookie_ok :: "string \<times> string \<Rightarrow> bool" where
  "cookie_ok p =
     (fst p \<noteq> [] \<and> snd p \<noteq> [] \<and> CHR ''='' \<notin> set (fst p)
      \<and> list_all (\<lambda>c. c \<noteq> CHR '';'' \<and> \<not> is_space c) (fst p @ snd p))"

lemma trim_space_leading: "list_all (\<lambda>c. \<not> is_space c) s \<Longrightarrow> trim_space (CHR '' '' # s) = s"
proof -
  assume a: "list_all (\<lambda>c. \<not> is_space c) s"
  have "dropWhile is_space (CHR '' '' # s) = dropWhile is_space s" by (simp add: is_space_def)
  then have "trim_space (CHR '' '' # s) = trim_space s" by (simp add: trim_space_def trim_left_def)
  with trim_space_id [OF a] show ?thesis by simp
qed

lemma split_cookies:
  "list_all (\<lambda>w. CHR '';'' \<notin> set w) (w # ws) \<Longrightarrow>
     str_split (CHR '';'') (str_join ''; '' (w # ws)) = w # List.map (\<lambda>w. CHR '' '' # w) ws"
proof (induction ws arbitrary: w)
  case (Cons v ws)
  have "str_split (CHR '';'') (CHR '' '' # str_join ''; '' (v # ws)) = (CHR '' '' # v) # List.map (\<lambda>w. CHR '' '' # w) ws"
    using Cons by simp
  with Cons.prems show ?case by (simp add: str_split_append)
qed (simp add: str_split_id)

lemma mask_pair: "cookie_ok (k, v) \<Longrightarrow> mask_cookie_pair sha (k @ ''='' @ v) = k @ ''='' @ mask_secret sha v"
  by (simp add: mask_cookie_pair_def cookie_ok_def str_cut_at [of "CHR ''=''" k v])

text \<open>Masking a cookie header keeps the names and their order and masks every value.\<close>

theorem cookies_masked:
  assumes "list_all cookie_ok ps" "to_lower name = ''cookie''"
  shows "mask_header_value sha name (cookie_text id ps) = cookie_text (mask_secret sha) ps"
proof (cases ps)
  case Nil
  then show ?thesis using assms(2) by (simp add: mask_header_value_def cookie_text_def Let_def trim_space_id mask_cookie_pair_def str_cut_def)
next
  case (Cons p rest)
  define ws where "ws = List.map (\<lambda>(k, v). k @ ''='' @ v) ps"
  have ok: "list_all (\<lambda>c. c \<noteq> CHR '';'' \<and> \<not> is_space c) w" if w: "w \<in> set ws" for w
  proof -
    from w obtain k v where kv: "(k, v) \<in> set ps" "w = k @ ''='' @ v" by (auto simp only: ws_def set_map split: prod.splits)
    then have "cookie_ok (k, v)" using assms(1) by (simp only: list_all_iff)
    then have "list_all (\<lambda>c. c \<noteq> CHR '';'' \<and> \<not> is_space c) (k @ v)" by (simp add: cookie_ok_def)
    moreover have "\<not> is_space (CHR ''='')" by code_simp
    ultimately show ?thesis unfolding kv(2) by simp
  qed
  obtain w ws' where w: "ws = w # ws'" using Cons by (simp add: ws_def)
  have ct: "cookie_text id ps = str_join ''; '' (w # ws')"
    unfolding w [symmetric] ws_def cookie_text_def by (simp only: id_apply)
  have "list_all (\<lambda>w. CHR '';'' \<notin> set w) (w # ws')" using ok w by (auto simp: list_all_iff)
  then have "str_split (CHR '';'') (cookie_text id ps) = w # List.map (\<lambda>w. CHR '' '' # w) ws'"
    using split_cookies [of w ws'] by (simp only: ct)
  moreover have "trim_space u = u \<and> trim_space (CHR '' '' # u) = u" if "u \<in> set ws" for u
    using ok [OF that] by (intro conjI trim_space_id trim_space_leading) (auto simp: list_all_iff)
  ultimately have "List.map (\<lambda>p. mask_cookie_pair sha (trim_space p)) (str_split (CHR '';'') (cookie_text id ps))
      = List.map (mask_cookie_pair sha) ws"
    using w by (simp add: comp_def)
  also have "\<dots> = List.map (\<lambda>(k, v). k @ ''='' @ mask_secret sha v) ps"
  proof -
    have "mask_cookie_pair sha (case q of (k, v) \<Rightarrow> k @ ''='' @ v) = (case q of (k, v) \<Rightarrow> k @ ''='' @ mask_secret sha v)"
      if "q \<in> set ps" for q
    proof (cases q)
      case (Pair k v)
      with assms(1) that have "cookie_ok (k, v)" by (simp only: list_all_iff)
      from mask_pair [OF this] Pair show ?thesis by simp
    qed
    then show ?thesis unfolding ws_def list.map_comp comp_def by (intro list.map_cong refl)
  qed
  finally show ?thesis using assms(2) by (simp add: mask_header_value_def cookie_text_def Let_def)
qed

lemma cookies_masked_witness:
  "mask_header_value (\<lambda>_. ''0123'') ''Cookie'' ''sid=abc; theme=dark''
   = cookie_text (mask_secret (\<lambda>_. ''0123'')) [(''sid'', ''abc''), (''theme'', ''dark'')]"
proof -
  have t: "cookie_text id [(''sid'', ''abc''), (''theme'', ''dark'')] = ''sid=abc; theme=dark''" by (simp add: cookie_text_def)
  have o: "list_all cookie_ok [(''sid'', ''abc''), (''theme'', ''dark'')]" "to_lower ''Cookie'' = ''cookie''" by code_simp+
  show ?thesis unfolding t [symmetric] by (rule cookies_masked [OF o])
qed

text \<open>A credential that happens to contain \<open>hash:\<close> counts as masked already and is shown.\<close>

lemma secret_with_mark_shown:
  "redact_headers sha rt extra [(''Authorization'', [''Bearer hash:hunter2''])] False
   = ([(''Authorization'', [''Bearer hash:hunter2''])], 0)"
proof -
  have "List.member secret_headers (to_lower ''Authorization'')" by code_simp
  then have "is_secret_header extra ''Authorization''" by (simp add: is_secret_header_def)
  moreover have "is_masked ''Bearer hash:hunter2''" by code_simp
  ultimately show ?thesis by (simp add: redact_headers_def redact_value_def)
qed

end
