(* ===== verification/View_Schema.thy ===== *)
theory View_Schema
  imports View_Sse View_Redact
begin

text \<open>
  \<open>internal/view/schema.go\<close>: the shape inferred for JSON values. \<open>gjson\<close> is a parameter whose results
  are the values of \<open>gres\<close>, each with its raw text; \<open>time.Parse\<close> is a predicate on a layout and a text.
  A shape is compared with the list of values merged into it.
\<close>

section \<open>Values\<close>

datatype gres =
    GNull string
  | GBool string
  | GNum string
  | GStr string string
  | GObj string "(string \<times> gres) list"
  | GArr string "gres list"

fun g_raw :: "gres \<Rightarrow> string" where
  "g_raw (GNull r) = r"
| "g_raw (GBool r) = r"
| "g_raw (GNum r) = r"
| "g_raw (GStr r s) = r"
| "g_raw (GObj r ms) = r"
| "g_raw (GArr r xs) = r"

section \<open>Shapes\<close>

record shape_head =
  sh_seen :: nat
  sh_kinds :: "(string \<times> nat) list"
  sh_deep :: bool
  sh_sensitive :: bool
  sh_objects :: nat
  sh_extra :: bool
  sh_str_count :: nat
  sh_str_short :: nat
  sh_strs :: "(string \<times> nat) list"
  sh_formats :: "(string \<times> nat) list"

text \<open>The members are in first-seen order, which is \<open>order\<close> and \<open>keys\<close> of the code in one list.\<close>

datatype shape = Shape shape_head "(string \<times> shape) list" "shape option"

definition schema_max_keys :: nat where "schema_max_keys = 48"
definition schema_max_elems :: nat where "schema_max_elems = 256"
definition schema_max_depth :: nat where "schema_max_depth = 6"
definition enum_max_values :: nat where "enum_max_values = 5"
definition enum_max_len :: nat where "enum_max_len = 32"

definition new_head :: "bool \<Rightarrow> shape_head" where
  "new_head sens =
     \<lparr>sh_seen = 0, sh_kinds = [], sh_deep = False, sh_sensitive = sens, sh_objects = 0, sh_extra = False,
      sh_str_count = 0, sh_str_short = 0, sh_strs = [], sh_formats = []\<rparr>"

definition new_shape :: "bool \<Rightarrow> shape" where
  "new_shape sens = Shape (new_head sens) [] None"

definition times_of :: "(string \<times> nat) list \<Rightarrow> string \<Rightarrow> nat" where
  "times_of m k = (case map_of m k of None \<Rightarrow> 0 | Some n \<Rightarrow> n)"

definition bump_kind :: "string \<Rightarrow> shape_head \<Rightarrow> shape_head" where
  "bump_kind k h = h\<lparr>sh_kinds := count_name (sh_kinds h) k\<rparr>"

section \<open>Formats of strings\<close>

definition re_alnum :: "char \<Rightarrow> bool" where
  "re_alnum c = (is_digit c \<or> (65 \<le> octet c \<and> octet c \<le> 90) \<or> (97 \<le> octet c \<and> octet c \<le> 122))"

definition re_enum_value :: "string \<Rightarrow> bool" where
  "re_enum_value s = (s \<noteq> [] \<and> list_all (\<lambda>c. re_alnum c \<or> c \<in> set ''_.:-'') s)"

definition re_hex :: "char \<Rightarrow> bool" where
  "re_hex c = (is_digit c \<or> (65 \<le> octet c \<and> octet c \<le> 70) \<or> (97 \<le> octet c \<and> octet c \<le> 102))"

definition re_uuid :: "string \<Rightarrow> bool" where
  "re_uuid s =
     (length s = 36
      \<and> list_all (\<lambda>i. if i \<in> set [8, 13, 18, 23] then s ! i = CHR ''-'' else re_hex (s ! i)) [0..<36])"

definition re_space :: "char \<Rightarrow> bool" where
  "re_space c = (c = CHR '' '' \<or> c = CHR 0x09 \<or> c = CHR 0x0A \<or> c = CHR 0x0C \<or> c = CHR 0x0D)"

definition re_email :: "string \<Rightarrow> bool" where
  "re_email s =
     (let (l, d, ok) = str_cut (CHR ''@'') s in
      ok \<and> l \<noteq> [] \<and> \<not> list_ex re_space s \<and> CHR ''@'' \<notin> set d \<and> CHR ''.'' \<in> set (butlast (tl d)))"

definition re_bare_key :: "string \<Rightarrow> bool" where
  "re_bare_key s =
     (s \<noteq> [] \<and> \<not> is_digit (hd s) \<and> hd s \<noteq> CHR ''-'' \<and> list_all (\<lambda>c. re_alnum c \<or> c \<in> set ''_$-'') s)"

definition detect_format :: "(string \<Rightarrow> string \<Rightarrow> bool) \<Rightarrow> string \<Rightarrow> string" where
  "detect_format tp s =
     (if s = [] then []
      else if 19 \<le> length s \<and> length s \<le> 40 \<and> s ! 4 = CHR ''-''
              \<and> (tp ''2006-01-02T15:04:05.999999999Z07:00'' s \<or> tp ''2006-01-02T15:04:05'' s) then ''date-time''
      else if \<not> (19 \<le> length s \<and> length s \<le> 40 \<and> s ! 4 = CHR ''-'')
              \<and> length s = 10 \<and> s ! 4 = CHR ''-'' \<and> tp ''2006-01-02'' s then ''date''
      else if length s = 36 \<and> re_uuid s then ''uuid''
      else if has_prefix s ''http://'' \<or> has_prefix s ''https://'' then ''url''
      else if length s < 254 \<and> re_email s then ''email''
      else [])"

text \<open>\<open>numKind\<close>\<close>

definition num_kind :: "string \<Rightarrow> string" where
  "num_kind raw = (if contains_any raw ''.eE'' then ''float'' else ''int'')"

section \<open>Merging\<close>

definition merge_str :: "(string \<Rightarrow> string \<Rightarrow> bool) \<Rightarrow> string \<Rightarrow> shape_head \<Rightarrow> shape_head" where
  "merge_str tp s h0 =
     (let h = (bump_kind ''str'' h0)\<lparr>sh_str_count := sh_str_count h0 + 1\<rparr>; f = detect_format tp s in
      if f \<noteq> [] then h\<lparr>sh_formats := count_name (sh_formats h) f\<rparr>
      else if rune_count s \<le> enum_max_len \<and> re_enum_value s then
        (let h1 = h\<lparr>sh_str_short := sh_str_short h + 1\<rparr> in
         if map_of (sh_strs h1) s \<noteq> None \<or> length (sh_strs h1) \<le> enum_max_values
         then h1\<lparr>sh_strs := count_name (sh_strs h1) s\<rparr> else h1)
      else h)"

definition saw :: "shape_head \<Rightarrow> shape_head" where
  "saw h = h\<lparr>sh_seen := sh_seen h + 1\<rparr>"

definition saw_object :: "shape_head \<Rightarrow> shape_head" where
  "saw_object h = (bump_kind ''object'' (saw h))\<lparr>sh_objects := sh_objects h + 1\<rparr>"

definition child_shape :: "shape_head \<Rightarrow> string \<Rightarrow> shape" where
  "child_shape h k = new_shape (sh_sensitive h \<or> is_sensitive_key k)"

definition elem_shape :: "shape_head \<Rightarrow> shape option \<Rightarrow> shape" where
  "elem_shape h el = (case el of None \<Rightarrow> new_shape (sh_sensitive h) | Some e \<Rightarrow> e)"

lemma size_list_take: "size_list f (take n xs) \<le> size_list f xs"
  by (induction xs arbitrary: n) (auto simp: take_Cons' split: if_splits intro: le_SucI add_le_mono)

function merge_value :: "(string \<Rightarrow> string \<Rightarrow> bool) \<Rightarrow> nat \<Rightarrow> shape \<Rightarrow> gres \<Rightarrow> shape"
  and merge_members :: "(string \<Rightarrow> string \<Rightarrow> bool) \<Rightarrow> nat \<Rightarrow> shape \<Rightarrow> (string \<times> gres) list \<Rightarrow> shape"
  and merge_elems :: "(string \<Rightarrow> string \<Rightarrow> bool) \<Rightarrow> nat \<Rightarrow> shape \<Rightarrow> gres list \<Rightarrow> shape" where
  "merge_value tp depth (Shape h ks el) (GStr raw s) = Shape (merge_str tp s (saw h)) ks el"
| "merge_value tp depth (Shape h ks el) (GNum raw) = Shape (bump_kind (num_kind raw) (saw h)) ks el"
| "merge_value tp depth (Shape h ks el) (GBool raw) = Shape (bump_kind ''bool'' (saw h)) ks el"
| "merge_value tp depth (Shape h ks el) (GObj raw ms) =
     (if schema_max_depth \<le> depth then Shape ((saw_object h)\<lparr>sh_deep := True\<rparr>) ks el
      else merge_members tp depth (Shape (saw_object h) ks el) ms)"
| "merge_value tp depth (Shape h ks el) (GArr raw xs) =
     (let h1 = bump_kind ''array'' (saw h) in
      if schema_max_depth \<le> depth then Shape (h1\<lparr>sh_deep := True\<rparr>) ks el
      else Shape h1 ks (Some (merge_elems tp depth (elem_shape h1 el) (take schema_max_elems xs))))"
| "merge_value tp depth (Shape h ks el) (GNull raw) = Shape (bump_kind ''null'' (saw h)) ks el"
| "merge_members tp depth sh [] = sh"
| "merge_members tp depth (Shape h ks el) ((k, v) # ms) =
     (case map_of ks k of
        None \<Rightarrow>
          if schema_max_keys \<le> length ks then merge_members tp depth (Shape (h\<lparr>sh_extra := True\<rparr>) ks el) ms
          else merge_members tp depth (Shape h (map_put k (merge_value tp (depth + 1) (child_shape h k) v) ks) el) ms
      | Some c \<Rightarrow> merge_members tp depth (Shape h (map_put k (merge_value tp (depth + 1) c v) ks) el) ms)"
| "merge_elems tp depth e [] = e"
| "merge_elems tp depth e (x # xs) = merge_elems tp depth (merge_value tp (depth + 1) e x) xs"
  by pat_completeness auto

termination
proof (relation "measure (\<lambda>x. case x of
     Inl (tp, d, sh, v) \<Rightarrow> size v
   | Inr (Inl (tp, d, sh, ms)) \<Rightarrow> size_list (size_prod (\<lambda>_. 0) size) ms
   | Inr (Inr (tp, d, e, xs)) \<Rightarrow> size_list size xs)", goal_cases)
  case (3 tp depth h ks el raw xs h1)
  then show ?case using size_list_take [of size schema_max_elems xs] by simp
qed auto

definition shape_of :: "(string \<Rightarrow> string \<Rightarrow> bool) \<Rightarrow> nat \<Rightarrow> bool \<Rightarrow> gres list \<Rightarrow> shape" where
  "shape_of tp depth sens vs = foldl (merge_value tp depth) (new_shape sens) vs"

section \<open>What was merged\<close>

fun kind_of :: "gres \<Rightarrow> string" where
  "kind_of (GStr r s) = ''str''"
| "kind_of (GNum r) = num_kind r"
| "kind_of (GBool r) = ''bool''"
| "kind_of (GObj r ms) = ''object''"
| "kind_of (GArr r xs) = ''array''"
| "kind_of (GNull r) = ''null''"

fun str_of :: "gres \<Rightarrow> string list" where
  "str_of (GStr r s) = [s]"
| "str_of _ = []"

fun members_of :: "gres \<Rightarrow> (string \<times> gres) list" where
  "members_of (GObj r ms) = ms"
| "members_of _ = []"

fun elems_of :: "gres \<Rightarrow> gres list" where
  "elems_of (GArr r xs) = take schema_max_elems xs"
| "elems_of _ = []"

definition values_at :: "string \<Rightarrow> (string \<times> gres) list \<Rightarrow> gres list" where
  "values_at k ms = List.map snd (filter (\<lambda>p. fst p = k) ms)"

definition strs_of :: "gres list \<Rightarrow> string list" where
  "strs_of vs = concat (List.map str_of vs)"

definition members_at :: "string \<Rightarrow> gres list \<Rightarrow> gres list" where
  "members_at k vs = concat (List.map (\<lambda>v. values_at k (members_of v)) vs)"

definition all_elems :: "gres list \<Rightarrow> gres list" where
  "all_elems vs = concat (List.map elems_of vs)"

definition enumerable :: "(string \<Rightarrow> string \<Rightarrow> bool) \<Rightarrow> string \<Rightarrow> bool" where
  "enumerable tp s = (detect_format tp s = [] \<and> rune_count s \<le> enum_max_len \<and> re_enum_value s)"

lemma collected_snoc [simp]:
  "strs_of (vs @ [v]) = strs_of vs @ str_of v" "strs_of [] = []"
  "members_at k (vs @ [v]) = members_at k vs @ values_at k (members_of v)" "members_at k [] = []"
  "all_elems (vs @ [v]) = all_elems vs @ elems_of v" "all_elems [] = []"
  by (simp_all add: strs_of_def members_at_def all_elems_def)

lemma values_at_simps [simp]:
  "values_at k [] = []" "values_at k ((j, v) # ms) = (if j = k then v # values_at k ms else values_at k ms)"
  by (simp_all add: values_at_def)

lemma times_of_count_name: "times_of (count_name m n) k = (if k = n then Suc (times_of m k) else times_of m k)"
  by (simp add: times_of_def map_of_count_name split: option.split)

lemma times_of_Nil [simp]: "times_of [] k = 0"
  by (simp add: times_of_def)

definition head_ok :: "(string \<Rightarrow> string \<Rightarrow> bool) \<Rightarrow> gres list \<Rightarrow> shape_head \<Rightarrow> bool" where
  "head_ok tp vs h =
     (sh_seen h = length vs
      \<and> (\<forall>k. times_of (sh_kinds h) k = length (filter (\<lambda>v. kind_of v = k) vs))
      \<and> sh_objects h = length (filter (\<lambda>v. kind_of v = ''object'') vs)
      \<and> sh_str_count h = length (strs_of vs)
      \<and> sh_str_short h = length (filter (enumerable tp) (strs_of vs))
      \<and> (\<forall>f. f \<noteq> [] \<longrightarrow> times_of (sh_formats h) f = length (filter (\<lambda>s. detect_format tp s = f) (strs_of vs)))
      \<and> keys_distinct (sh_formats h) \<and> [] \<notin> fst ` set (sh_formats h)
      \<and> (\<forall>s \<in> set (strs_of vs). enumerable tp s \<longrightarrow> s \<in> fst ` set (sh_strs h) \<or> enum_max_values < length (sh_strs h)))"

lemma head_ok_extra [simp]: "head_ok tp vs (h\<lparr>sh_extra := b\<rparr>) = head_ok tp vs h" "head_ok tp vs (h\<lparr>sh_deep := b\<rparr>) = head_ok tp vs h"
  by (simp_all add: head_ok_def)

lemma num_kind_cases: "num_kind r = ''float'' \<or> num_kind r = ''int''"
  by (simp add: num_kind_def)

lemma head_ok_other:
  assumes "head_ok tp vs h" "str_of v = []" "kind_of v \<noteq> ''object''"
  shows "head_ok tp (vs @ [v]) (bump_kind (kind_of v) (saw h))"
  using assms by (auto simp: head_ok_def bump_kind_def saw_def times_of_count_name)

lemma head_ok_object:
  assumes "head_ok tp vs h"
  shows "head_ok tp (vs @ [GObj r ms]) (saw_object h)"
  using assms by (auto simp: head_ok_def saw_object_def bump_kind_def saw_def times_of_count_name)

lemma length_count_name: "length (count_name m n) = (if n \<in> fst ` set m then length m else Suc (length m))"
  by (simp add: count_name_def length_map_put)

lemma keys_distinct_count_name [simp]: "keys_distinct m \<Longrightarrow> keys_distinct (count_name m n)"
  by (simp add: count_name_def keys_distinct_put)

lemma set_count_name [simp]: "fst ` set (count_name m n) = insert n (fst ` set m)"
  by (simp add: count_name_def)

lemma head_ok_string:
  assumes "head_ok tp vs h"
  shows "head_ok tp (vs @ [GStr r s]) (merge_str tp s (saw h))"
proof -
  have in_dom: "map_of m s = None \<longleftrightarrow> s \<notin> fst ` set m" for m :: "(string \<times> nat) list"
    by (simp add: map_of_eq_None_iff)
  consider "detect_format tp s \<noteq> []" | "enumerable tp s" | "detect_format tp s = []" "\<not> enumerable tp s" 
    by blast
  then show ?thesis
  proof cases
    case 1
    with assms show ?thesis
      by (auto simp: head_ok_def merge_str_def Let_def bump_kind_def saw_def times_of_count_name enumerable_def)
  next
    case 2
    with assms show ?thesis
      by (auto simp: head_ok_def merge_str_def Let_def bump_kind_def saw_def times_of_count_name enumerable_def
          in_dom length_count_name)
  next
    case 3
    with assms show ?thesis
      by (auto simp: head_ok_def merge_str_def Let_def bump_kind_def saw_def times_of_count_name enumerable_def)
  qed
qed

section \<open>The members and the elements\<close>

definition keys_ok ::
  "(string \<Rightarrow> string \<Rightarrow> bool) \<Rightarrow> nat \<Rightarrow> bool \<Rightarrow> (string \<Rightarrow> gres list) \<Rightarrow> shape_head \<Rightarrow> (string \<times> shape) list \<Rightarrow> bool" where
  "keys_ok tp depth b M h ks =
     (keys_distinct ks \<and>
      (\<forall>k. case map_of ks k of
           Some c \<Rightarrow> M k \<noteq> [] \<and> c = shape_of tp (Suc depth) (b \<or> is_sensitive_key k) (M k)
         | None \<Rightarrow> M k = [] \<or> sh_extra h \<and> schema_max_keys \<le> length ks))"

definition elem_ok :: "(string \<Rightarrow> string \<Rightarrow> bool) \<Rightarrow> nat \<Rightarrow> bool \<Rightarrow> gres list \<Rightarrow> bool \<Rightarrow> shape option \<Rightarrow> bool" where
  "elem_ok tp depth b es arrays el =
     (case el of None \<Rightarrow> \<not> arrays \<and> es = [] | Some e \<Rightarrow> e = shape_of tp (Suc depth) b es)"

lemma shape_of_snoc: "shape_of tp depth b (vs @ [v]) = merge_value tp depth (shape_of tp depth b vs) v"
  by (simp add: shape_of_def)

lemma shape_of_append: "shape_of tp depth b (vs @ ws) = foldl (merge_value tp depth) (shape_of tp depth b vs) ws"
  by (simp add: shape_of_def)

lemma merge_elems_fold: "merge_elems tp depth e xs = foldl (merge_value tp (Suc depth)) e xs"
  by (induction xs arbitrary: e) simp_all

lemma keys_ok_at:
  "keys_ok tp depth b M h ks \<Longrightarrow> map_of ks k = Some c \<Longrightarrow> M k \<noteq> [] \<and> c = shape_of tp (Suc depth) (b \<or> is_sensitive_key k) (M k)"
  "keys_ok tp depth b M h ks \<Longrightarrow> map_of ks k = None \<Longrightarrow> M k = [] \<or> sh_extra h \<and> schema_max_keys \<le> length ks"
  by (unfold keys_ok_def, (drule conjunct2, drule spec [of _ k], simp)+)

lemma length_map_put_ge: "length ks \<le> length (map_put k c ks)"
  by (simp add: length_map_put)

lemma keys_ok_put:
  assumes "keys_ok tp depth b M h ks" "c = shape_of tp (Suc depth) (b \<or> is_sensitive_key k) (M k @ [v])"
  shows "keys_ok tp depth b (M(k := M k @ [v])) h (map_put k c ks)"
  unfolding keys_ok_def
proof (rule conjI, use assms(1) in \<open>simp add: keys_ok_def keys_distinct_put\<close>, rule allI)
  fix j
  show "case map_of (map_put k c ks) j of
      Some c' \<Rightarrow> (M(k := M k @ [v])) j \<noteq> [] \<and> c' = shape_of tp (Suc depth) (b \<or> is_sensitive_key j) ((M(k := M k @ [v])) j)
    | None \<Rightarrow> (M(k := M k @ [v])) j = [] \<or> sh_extra h \<and> schema_max_keys \<le> length (map_put k c ks)"
    using assms(2) keys_ok_at [OF assms(1), of j] length_map_put_ge [of ks k c]
    by (auto split: option.split)
qed

lemma merge_members_ok:
  "keys_ok tp depth b M h ks \<Longrightarrow> sh_sensitive h = b \<Longrightarrow>
     \<exists>x ks'. merge_members tp depth (Shape h ks el) ms = Shape (h\<lparr>sh_extra := x\<rparr>) ks' el
       \<and> keys_ok tp depth b (\<lambda>k. M k @ values_at k ms) (h\<lparr>sh_extra := x\<rparr>) ks'"
proof (induction ms arbitrary: M h ks)
  case Nil
  then show ?case by (intro exI [of _ "sh_extra h"] exI [of _ ks]) (simp add: keys_ok_def)
next
  case (Cons p ms)
  obtain k v where p: "p = (k, v)" by (cases p)
  have fold: "(\<lambda>j. (M(k := M k @ [v])) j @ values_at j ms) = (\<lambda>j. M j @ values_at j ((k, v) # ms))" by auto
  show ?case
  proof (cases "map_of ks k")
    case None
    note at = keys_ok_at(2) [OF Cons.prems(1) None]
    show ?thesis
    proof (cases "schema_max_keys \<le> length ks")
      case True
      have "keys_ok tp depth b (M(k := M k @ [v])) (h\<lparr>sh_extra := True\<rparr>) ks"
        using Cons.prems(1) None True by (auto simp: keys_ok_def split: option.splits)
      from Cons.IH [OF this] Cons.prems(2) fold None True show ?thesis by (simp add: p)
    next
      case False
      with at have "M k = []" by simp
      then have "merge_value tp (Suc depth) (child_shape h k) v = shape_of tp (Suc depth) (b \<or> is_sensitive_key k) (M k @ [v])"
        using Cons.prems(2) by (simp add: shape_of_def child_shape_def)
      from Cons.IH [OF keys_ok_put [OF Cons.prems(1) this] Cons.prems(2)] fold None False show ?thesis by (simp add: p)
    qed
  next
    case (Some c)
    have "merge_value tp (Suc depth) c v = shape_of tp (Suc depth) (b \<or> is_sensitive_key k) (M k @ [v])"
      using keys_ok_at(1) [OF Cons.prems(1) Some] by (simp add: shape_of_snoc)
    from Cons.IH [OF keys_ok_put [OF Cons.prems(1) this] Cons.prems(2)] fold Some show ?thesis by (simp add: p)
  qed
qed

lemma sensitive_kept [simp]:
  "sh_sensitive (bump_kind k h) = sh_sensitive h" "sh_sensitive (saw h) = sh_sensitive h"
  "sh_sensitive (saw_object h) = sh_sensitive h" "sh_sensitive (merge_str tp s h) = sh_sensitive h"
  by (simp_all add: bump_kind_def saw_def saw_object_def merge_str_def Let_def)

lemma extra_kept [simp]:
  "sh_extra (bump_kind k h) = sh_extra h" "sh_extra (saw h) = sh_extra h"
  "sh_extra (saw_object h) = sh_extra h" "sh_extra (merge_str tp s h) = sh_extra h"
  by (simp_all add: bump_kind_def saw_def saw_object_def merge_str_def Let_def)

lemma deep_kept [simp]:
  "sh_deep (bump_kind k h) = sh_deep h" "sh_deep (saw h) = sh_deep h"
  "sh_deep (saw_object h) = sh_deep h" "sh_deep (merge_str tp s h) = sh_deep h"
  by (simp_all add: bump_kind_def saw_def saw_object_def merge_str_def Let_def)

text \<open>All that a shape says of the values merged into it.\<close>

definition has_kind :: "string \<Rightarrow> gres list \<Rightarrow> bool" where
  "has_kind k vs = list_ex (\<lambda>v. kind_of v = k) vs"

definition describes :: "(string \<Rightarrow> string \<Rightarrow> bool) \<Rightarrow> nat \<Rightarrow> bool \<Rightarrow> gres list \<Rightarrow> shape \<Rightarrow> bool" where
  "describes tp depth b vs sh =
     (case sh of Shape h ks el \<Rightarrow>
        head_ok tp vs h \<and> sh_sensitive h = b
        \<and> (if schema_max_depth \<le> depth then ks = [] \<and> el = None \<and> (has_kind ''object'' vs \<or> has_kind ''array'' vs \<longrightarrow> sh_deep h)
           else keys_ok tp depth b (\<lambda>k. members_at k vs) h ks
                \<and> elem_ok tp depth b (all_elems vs) (has_kind ''array'' vs) el))"

lemma has_kind_snoc [simp]: "has_kind k (vs @ [v]) = (has_kind k vs \<or> kind_of v = k)" "\<not> has_kind k []"
  by (simp_all add: has_kind_def)

lemma keys_ok_head: "sh_extra h' = sh_extra h \<Longrightarrow> keys_ok tp depth b M h' ks = keys_ok tp depth b M h ks"
  by (simp add: keys_ok_def cong: option.case_cong)

lemma describes_step:
  assumes "describes tp depth b vs sh"
  shows "describes tp depth b (vs @ [v]) (merge_value tp depth sh v)"
proof -
  obtain h ks el where sh: "sh = Shape h ks el" by (cases sh)
  note d = assms [unfolded sh describes_def, simplified]
  have nk: "num_kind r \<noteq> ''object''" "num_kind r \<noteq> ''array''" for r using num_kind_cases [of r] by auto
  show ?thesis
  proof (cases v)
    case (GStr r s)
    with d head_ok_string [of tp vs h r s] show ?thesis
      by (auto simp: sh describes_def keys_ok_head [where h' = "merge_str tp s (saw h)" and h = h])
  next
    case (GNum r)
    with d head_ok_other [of tp vs h v] nk [of r] show ?thesis
      by (auto simp: sh describes_def keys_ok_head [where h' = "bump_kind (num_kind r) (saw h)" and h = h])
  next
    case (GBool r)
    with d head_ok_other [of tp vs h v] show ?thesis
      by (auto simp: sh describes_def keys_ok_head [where h' = "bump_kind ''bool'' (saw h)" and h = h])
  next
    case (GNull r)
    with d head_ok_other [of tp vs h v] show ?thesis
      by (auto simp: sh describes_def keys_ok_head [where h' = "bump_kind ''null'' (saw h)" and h = h])
  next
    case (GObj r ms)
    note head = head_ok_object [of tp vs h r ms]
    show ?thesis
    proof (cases "schema_max_depth \<le> depth")
      case True
      with GObj d head show ?thesis by (simp add: sh describes_def)
    next
      case False
      with d have "keys_ok tp depth b (\<lambda>k. members_at k vs) (saw_object h) ks"
        by (simp add: keys_ok_head [where h' = "saw_object h" and h = h])
      from merge_members_ok [OF this, of el ms] d obtain x ks' where
        "merge_members tp depth (Shape (saw_object h) ks el) ms = Shape ((saw_object h)\<lparr>sh_extra := x\<rparr>) ks' el"
        "keys_ok tp depth b (\<lambda>k. members_at k vs @ values_at k ms) ((saw_object h)\<lparr>sh_extra := x\<rparr>) ks'" by auto
      with GObj False d head show ?thesis by (simp add: sh describes_def)
    qed
  next
    case (GArr r xs)
    note head = head_ok_other [of tp vs h v]
    show ?thesis
    proof (cases "schema_max_depth \<le> depth")
      case True
      with GArr d head show ?thesis by (simp add: sh describes_def Let_def)
    next
      case False
      have el: "elem_shape (bump_kind ''array'' (saw h)) el = shape_of tp (Suc depth) b (all_elems vs)"
        using d False by (cases el) (simp_all add: elem_ok_def elem_shape_def shape_of_def)
      with GArr False d head show ?thesis
        by (simp add: sh describes_def Let_def merge_elems_fold elem_ok_def shape_of_append
            keys_ok_head [where h' = "bump_kind ''array'' (saw h)" and h = h])
    qed
  qed
qed

lemma shape_describes: "describes tp depth b vs (shape_of tp depth b vs)"
proof (induction vs rule: rev_induct)
  case Nil
  show ?case
    by (simp add: describes_def shape_of_def new_shape_def new_head_def head_ok_def keys_ok_def elem_ok_def)
next
  case (snoc v vs)
  then show ?case by (simp add: shape_of_snoc describes_step)
qed

section \<open>Shapes as types\<close>

text \<open>What \<open>renderStr\<close> prints: an enumeration, a format all strings have, or just a string.\<close>

definition is_enum :: "shape_head \<Rightarrow> bool" where
  "is_enum h =
     (2 \<le> sh_str_count h \<and> sh_str_short h = sh_str_count h \<and> length (sh_strs h) \<le> enum_max_values)"

definition str_format :: "shape_head \<Rightarrow> string" where
  "str_format h = (case find (\<lambda>(f, n). n = sh_str_count h) (sh_formats h) of None \<Rightarrow> [] | Some (f, _) \<Rightarrow> f)"

fun head_part :: "shape \<Rightarrow> shape_head" where
  "head_part (Shape h ks el) = h"

definition optional :: "shape_head \<Rightarrow> shape \<Rightarrow> bool" where
  "optional h c = (sh_seen (head_part c) < sh_objects h)"

definition accepts_str :: "(string \<Rightarrow> string \<Rightarrow> bool) \<Rightarrow> shape_head \<Rightarrow> string \<Rightarrow> bool" where
  "accepts_str tp h s =
     (if is_enum h then s \<in> fst ` set (sh_strs h)
      else if str_format h \<noteq> [] then detect_format tp s = str_format h
      else True)"

text \<open>Reading a shape as a type: a value is of the type when its kind is one of those listed, its members
  are listed and accepted (or the list is marked incomplete), no required member is missing, and its
  first 256 elements are accepted. Below the depth limit nothing is promised.\<close>

lemma size_gres_member: "p \<in> set ms \<Longrightarrow> size (snd p) < Suc (size_list (size_prod (\<lambda>_. 0) size) ms)"
  using size_list_estimation' [of p ms "size (snd p)" "size_prod (\<lambda>_. 0) size"] by (cases p) (simp add: less_Suc_eq_le)

lemma size_gres_in: "x \<in> set xs \<Longrightarrow> size x < Suc (size_list size xs)"
  using size_list_estimation' [of x xs "size x" size] by (auto simp: less_Suc_eq_le)

lemma size_gres_elem: "x \<in> set (take n xs) \<Longrightarrow> size x < Suc (size_list size xs)"
  using size_list_estimation' [of x xs "size x" size] by (auto simp: less_Suc_eq_le dest: in_set_takeD)

function accepts :: "(string \<Rightarrow> string \<Rightarrow> bool) \<Rightarrow> nat \<Rightarrow> shape \<Rightarrow> gres \<Rightarrow> bool" where
  "accepts tp depth (Shape h ks el) (GStr r s) = (0 < times_of (sh_kinds h) ''str'' \<and> accepts_str tp h s)"
| "accepts tp depth (Shape h ks el) (GNum r) = (0 < times_of (sh_kinds h) (num_kind r))"
| "accepts tp depth (Shape h ks el) (GBool r) = (0 < times_of (sh_kinds h) ''bool'')"
| "accepts tp depth (Shape h ks el) (GNull r) = (0 < times_of (sh_kinds h) ''null'')"
| "accepts tp depth (Shape h ks el) (GObj r ms) =
     (0 < times_of (sh_kinds h) ''object''
      \<and> (if schema_max_depth \<le> depth then sh_deep h
         else list_all (\<lambda>p. case map_of ks (fst p) of Some c \<Rightarrow> accepts tp (Suc depth) c (snd p) | None \<Rightarrow> sh_extra h) ms
              \<and> list_all (\<lambda>(k, c). optional h c \<or> k \<in> fst ` set ms) ks))"
| "accepts tp depth (Shape h ks el) (GArr r xs) =
     (0 < times_of (sh_kinds h) ''array''
      \<and> (if schema_max_depth \<le> depth then sh_deep h
         else (case el of None \<Rightarrow> False | Some e \<Rightarrow> list_all (accepts tp (Suc depth) e) (take schema_max_elems xs))))"
  by pat_completeness auto

termination
  by (relation "measure (\<lambda>(tp, d, sh, v). size v)") (auto simp: size_gres_member size_gres_elem)

function distinct_keys :: "gres \<Rightarrow> bool" where
  "distinct_keys (GObj r ms) = (distinct (List.map fst ms) \<and> list_all (\<lambda>p. distinct_keys (snd p)) ms)"
| "distinct_keys (GArr r xs) = list_all distinct_keys xs"
| "distinct_keys (GStr r s) = True"
| "distinct_keys (GNum r) = True"
| "distinct_keys (GBool r) = True"
| "distinct_keys (GNull r) = True"
  by pat_completeness auto
termination
  by (relation "measure size") (auto simp: size_gres_member size_gres_in)

section \<open>Merged values are accepted\<close>

lemma head_okD:
  assumes "head_ok tp vs h"
  shows "sh_seen h = length vs" "sh_objects h = length (filter (\<lambda>v. kind_of v = ''object'') vs)"
    "sh_str_count h = length (strs_of vs)" "keys_distinct (sh_formats h)" "[] \<notin> fst ` set (sh_formats h)"
    "f \<noteq> [] \<Longrightarrow> times_of (sh_formats h) f = length (filter (\<lambda>s. detect_format tp s = f) (strs_of vs))"
  using assms unfolding head_ok_def by blast+

lemma head_times: "head_ok tp vs h \<Longrightarrow> v \<in> set vs \<Longrightarrow> 0 < times_of (sh_kinds h) (kind_of v)"
  by (auto simp: head_ok_def filter_empty_conv)

lemma strs_of_member: "GStr r s \<in> set vs \<Longrightarrow> s \<in> set (strs_of vs)"
  by (force simp: strs_of_def)

lemma filter_all: "length (filter P xs) = length xs \<Longrightarrow> x \<in> set xs \<Longrightarrow> P x"
  by (metis length_filter_less less_irrefl)

lemma head_accepts_str:
  assumes "head_ok tp vs h" "s \<in> set (strs_of vs)"
  shows "accepts_str tp h s"
proof (cases "is_enum h")
  case True
  then have "length (filter (enumerable tp) (strs_of vs)) = length (strs_of vs)" using assms(1) by (simp add: is_enum_def head_ok_def)
  from filter_all [OF this assms(2)] assms True show ?thesis
    by (auto simp: accepts_str_def is_enum_def head_ok_def)
next
  case False
  show ?thesis
  proof (cases "find (\<lambda>(f, n). n = sh_str_count h) (sh_formats h)")
    case None
    then show ?thesis using False by (simp add: accepts_str_def str_format_def)
  next
    case (Some fn)
    obtain f n where fn: "fn = (f, n)" by (cases fn)
    with Some have n: "n = sh_str_count h" "(f, n) \<in> set (sh_formats h)" by (auto simp: find_Some_iff in_set_conv_nth)
    have f: "f \<noteq> []" using n(2) head_okD(5) [OF assms(1)] by (auto simp: image_iff)
    have "times_of (sh_formats h) f = n" using n(2) head_okD(4) [OF assms(1)] by (simp add: times_of_def)
    then have "length (filter (\<lambda>s. detect_format tp s = f) (strs_of vs)) = length (strs_of vs)"
      using head_okD(3) [OF assms(1)] head_okD(6) [OF assms(1) f] n(1) by simp
    from filter_all [OF this assms(2)] False Some fn show ?thesis by (simp add: accepts_str_def str_format_def)
  qed
qed

text \<open>With distinct keys in every object, a member is seen as often as there are objects with it.\<close>

lemma values_at_once: "distinct (List.map fst ms) \<Longrightarrow> length (values_at k ms) = (if k \<in> fst ` set ms then 1 else 0)"
proof (induction ms)
  case (Cons p ms)
  then show ?case by (cases p) (auto simp: values_at_def filter_empty_conv)
qed simp

lemma members_at_count:
  "list_all distinct_keys vs \<Longrightarrow>
     length (members_at k vs) = length (filter (\<lambda>v. k \<in> fst ` set (members_of v)) vs)"
proof (induction vs rule: rev_induct)
  case (snoc v vs)
  then have "distinct (List.map fst (members_of v))" by (cases v) simp_all
  from values_at_once [OF this, of k] snoc show ?case by simp
qed simp

lemma members_at_distinct: "list_all distinct_keys vs \<Longrightarrow> list_all distinct_keys (members_at k vs)"
proof (induction vs rule: rev_induct)
  case (snoc v vs)
  then show ?case by (cases v) (auto simp: values_at_def list_all_iff)
qed simp

lemma all_elems_distinct: "list_all distinct_keys vs \<Longrightarrow> list_all distinct_keys (all_elems vs)"
proof (induction vs rule: rev_induct)
  case (snoc v vs)
  then show ?case by (cases v) (auto simp: list_all_iff dest: in_set_takeD)
qed simp

lemma shape_parts:
  "shape_of tp depth b vs = Shape h ks el \<Longrightarrow> head_ok tp vs h \<and> sh_sensitive h = b
     \<and> (if schema_max_depth \<le> depth then ks = [] \<and> el = None \<and> (has_kind ''object'' vs \<or> has_kind ''array'' vs \<longrightarrow> sh_deep h)
        else keys_ok tp depth b (\<lambda>k. members_at k vs) h ks \<and> elem_ok tp depth b (all_elems vs) (has_kind ''array'' vs) el)"
  using shape_describes [of tp depth b vs] by (simp add: describes_def)

lemma seen_length: "sh_seen (head_part (shape_of tp depth b vs)) = length vs"
proof (cases "shape_of tp depth b vs")
  case (Shape h ks el)
  from shape_parts [OF this] Shape show ?thesis by (simp add: head_ok_def)
qed

lemma filter_shorter: "length (filter P xs) < length xs \<longleftrightarrow> (\<exists>x \<in> set xs. \<not> P x)"
  by (induction xs) (auto simp: less_Suc_eq_le le_Suc_eq)

text \<open>A member is marked optional exactly when an object without it was merged.\<close>

lemma optional_iff:
  assumes sh: "shape_of tp depth b vs = Shape h ks el" and k: "map_of ks k = Some c"
    and vs: "list_all distinct_keys vs"
  shows "optional h c \<longleftrightarrow> (\<exists>v \<in> set vs. kind_of v = ''object'' \<and> k \<notin> fst ` set (members_of v))"
proof -
  have lt: "\<not> schema_max_depth \<le> depth" using shape_parts [OF sh] k by auto
  with shape_parts [OF sh] keys_ok_at(1) k
  have c: "c = shape_of tp (Suc depth) (b \<or> is_sensitive_key k) (members_at k vs)" by fastforce
  have "sh_seen (head_part c) = length (members_at k vs)" unfolding c by (rule seen_length)
  moreover have "sh_objects h = length (filter (\<lambda>v. kind_of v = ''object'') vs)"
    using shape_parts [OF sh] head_okD(2) by blast
  ultimately have "optional h c \<longleftrightarrow>
      length (filter (\<lambda>v. k \<in> fst ` set (members_of v)) vs) < length (filter (\<lambda>v. kind_of v = ''object'') vs)"
    by (simp only: optional_def members_at_count [OF vs])
  also have "filter (\<lambda>v. k \<in> fst ` set (members_of v)) vs
      = filter (\<lambda>v. k \<in> fst ` set (members_of v)) (filter (\<lambda>v. kind_of v = ''object'') vs)"
  proof -
    have "kind_of v = ''object''" if "k \<in> fst ` set (members_of v)" for v using that by (cases v) simp_all
    then show ?thesis unfolding filter_filter by (intro filter_cong [OF refl]) blast
  qed
  also have "length \<dots> < length (filter (\<lambda>v. kind_of v = ''object'') vs) \<longleftrightarrow>
      (\<exists>v \<in> set (filter (\<lambda>v. kind_of v = ''object'') vs). k \<notin> fst ` set (members_of v))"
    by (rule filter_shorter)
  finally show ?thesis by auto
qed

lemma values_at_in: "p \<in> set ms \<Longrightarrow> snd p \<in> set (values_at (fst p) ms)"
  by (force simp: values_at_def)

lemma members_at_in: "GObj r ms \<in> set vs \<Longrightarrow> p \<in> set ms \<Longrightarrow> snd p \<in> set (members_at (fst p) vs)"
  using values_at_in [of p ms] by (force simp: members_at_def)

lemma all_elems_in: "GArr r xs \<in> set vs \<Longrightarrow> x \<in> set (take schema_max_elems xs) \<Longrightarrow> x \<in> set (all_elems vs)"
  by (force simp: all_elems_def)

lemma has_kind_in: "v \<in> set vs \<Longrightarrow> has_kind (kind_of v) vs"
  by (auto simp: has_kind_def list_ex_iff)

lemma merged_accepted:
  "v \<in> set vs \<Longrightarrow> list_all distinct_keys vs \<Longrightarrow> accepts tp depth (shape_of tp depth b vs) v"
proof (induction v arbitrary: vs depth b)
  case (GObj r ms)
  obtain h ks el where sh: "shape_of tp depth b vs = Shape h ks el" by (cases "shape_of tp depth b vs")
  note parts = shape_parts [OF sh]
  have kind: "0 < times_of (sh_kinds h) ''object''" "has_kind ''object'' vs"
    using parts head_times [of tp vs h "GObj r ms"] has_kind_in [OF GObj.prems(1)] GObj.prems(1) by auto
  show ?case
  proof (cases "schema_max_depth \<le> depth")
    case True
    with parts kind show ?thesis by (simp add: sh)
  next
    case False
    with parts have ks: "keys_ok tp depth b (\<lambda>k. members_at k vs) h ks" by simp
    have "case map_of ks (fst p) of Some c \<Rightarrow> accepts tp (Suc depth) c (snd p) | None \<Rightarrow> sh_extra h" if p: "p \<in> set ms" for p
    proof -
      note at = members_at_in [OF GObj.prems(1) p]
      show ?thesis
      proof (cases "map_of ks (fst p)")
        case None
        with keys_ok_at(2) [OF ks None] at show ?thesis by auto
      next
        case (Some c)
        have "snd p \<in> Basic_BNFs.snds p" by (cases p) simp
        from GObj.IH [OF p this at members_at_distinct [OF GObj.prems(2)]] keys_ok_at(1) [OF ks Some] Some
        show ?thesis by simp
      qed
    qed
    moreover have "optional h c \<or> k \<in> fst ` set ms" if "(k, c) \<in> set ks" for k c
    proof -
      have "map_of ks k = Some c" using that ks by (simp add: keys_ok_def)
      from optional_iff [OF sh this GObj.prems(2)] GObj.prems(1) show ?thesis by force
    qed
    ultimately show ?thesis using False kind by (auto simp: sh list_all_iff)
  qed
next
  case (GArr r xs)
  obtain h ks el where sh: "shape_of tp depth b vs = Shape h ks el" by (cases "shape_of tp depth b vs")
  note parts = shape_parts [OF sh]
  have kind: "0 < times_of (sh_kinds h) ''array''" "has_kind ''array'' vs"
    using parts head_times [of tp vs h "GArr r xs"] has_kind_in [OF GArr.prems(1)] GArr.prems(1) by auto
  show ?case
  proof (cases "schema_max_depth \<le> depth")
    case True
    with parts kind show ?thesis by (simp add: sh)
  next
    case False
    with parts kind obtain e where e: "el = Some e" "e = shape_of tp (Suc depth) b (all_elems vs)"
      by (cases el) (auto simp: elem_ok_def)
    have "accepts tp (Suc depth) e x" if x: "x \<in> set (take schema_max_elems xs)" for x
      unfolding e(2)
      by (rule GArr.IH [OF _ all_elems_in [OF GArr.prems(1) x] all_elems_distinct [OF GArr.prems(2)]])
        (use x in \<open>auto dest: in_set_takeD\<close>)
    with False kind e show ?thesis by (simp add: sh list_all_iff)
  qed
next
  case (GStr r s)
  obtain h ks el where sh: "shape_of tp depth b vs = Shape h ks el" by (cases "shape_of tp depth b vs")
  from shape_parts [OF sh] head_times [of tp vs h "GStr r s"] head_accepts_str [of tp vs h s] strs_of_member [of r s vs] GStr
  show ?case by (simp add: sh)
next
  case (GNum r)
  obtain h ks el where sh: "shape_of tp depth b vs = Shape h ks el" by (cases "shape_of tp depth b vs")
  from shape_parts [OF sh] head_times [of tp vs h "GNum r"] GNum show ?case by (simp add: sh)
next
  case (GBool r)
  obtain h ks el where sh: "shape_of tp depth b vs = Shape h ks el" by (cases "shape_of tp depth b vs")
  from shape_parts [OF sh] head_times [of tp vs h "GBool r"] GBool show ?case by (simp add: sh)
next
  case (GNull r)
  obtain h ks el where sh: "shape_of tp depth b vs = Shape h ks el" by (cases "shape_of tp depth b vs")
  from shape_parts [OF sh] head_times [of tp vs h "GNull r"] GNull show ?case by (simp add: sh)
qed

text \<open>C21: the shape shown for JSON values is a type of theirs: every value merged into it, at any
  depth, has one of the kinds shown, no member that is not shown and none missing that is not marked
  optional, and a string of the enumeration or format shown, as long as objects have distinct keys.\<close>

theorem shape_accepts_merged:
  assumes "list_all distinct_keys vs"
  shows "list_all (accepts tp depth (shape_of tp depth sens vs)) vs"
  using merged_accepted [OF _ assms] by (simp add: list_all_iff)

lemma shape_accepts_merged_witness:
  "list_all (accepts (\<lambda>_ _. False) 0 (shape_of (\<lambda>_ _. False) 0 False
      [GObj [] [(''id'', GNum ''1''), (''tag'', GStr [] ''a'')], GObj [] [(''id'', GNull ''null'')]]))
      [GObj [] [(''id'', GNum ''1''), (''tag'', GStr [] ''a'')], GObj [] [(''id'', GNull ''null'')]]"
  by (rule shape_accepts_merged) simp

text \<open>A key repeated in one object hides that another object lacks it.\<close>

lemma repeated_key_not_optional:
  "case shape_of (\<lambda>_ _. False) 0 False [GObj [] [(''a'', GNum ''1''), (''a'', GNum ''2'')], GObj [] []] of
     Shape h ks el \<Rightarrow> (case map_of ks ''a'' of Some c \<Rightarrow> \<not> optional h c | None \<Rightarrow> False)"
  by code_simp

end
