(* ===== verification/View_Form.thy ===== *)
theory View_Form
  imports View_Redact
begin

text \<open>
  Forms, of \<open>internal/view/truncate.go\<close>: the fields of an \<open>application/x-www-form-urlencoded\<close> body in
  order, with \<open>url.QueryUnescape\<close>, and their rendering with sensitive values masked.
\<close>

section \<open>Unescaping\<close>

definition form_hex_val :: "char \<Rightarrow> nat option" where
  "form_hex_val c =
     (if is_digit c then Some (octet c - 48)
      else if 97 \<le> octet c \<and> octet c \<le> 102 then Some (octet c - 87)
      else if 65 \<le> octet c \<and> octet c \<le> 70 then Some (octet c - 55)
      else None)"

fun query_unescape :: "string \<Rightarrow> string option" where
  "query_unescape [] = Some []"
| "query_unescape (c # s) =
     (if c = CHR ''%'' then
        (case s of
           a # b # s' \<Rightarrow>
             (case (form_hex_val a, form_hex_val b) of
                (Some x, Some y) \<Rightarrow> map_option ((#) (char_of (16 * x + y))) (query_unescape s')
              | _ \<Rightarrow> None)
         | _ \<Rightarrow> None)
      else map_option ((#) (if c = CHR ''+'' then CHR '' '' else c)) (query_unescape s))"

declare query_unescape.simps(2) [simp del]

definition unescape_or_raw :: "string \<Rightarrow> string" where
  "unescape_or_raw s = (case query_unescape s of None \<Rightarrow> s | Some t \<Rightarrow> t)"

definition form_pair :: "string \<Rightarrow> string \<times> string" where
  "form_pair kv = (let (k, v, _) = str_cut (CHR ''='') kv in (unescape_or_raw k, unescape_or_raw v))"

definition form_pairs :: "string \<Rightarrow> (string \<times> string) list" where
  "form_pairs b = List.map form_pair (filter (\<lambda>kv. kv \<noteq> []) (str_split (CHR ''&'') b))"

text \<open>\<open>formLines\<close>; every line has a colon, so the newline goes between the lines.\<close>

fun form_line_list :: "(string \<Rightarrow> string) \<Rightarrow> masker \<Rightarrow> (string \<times> string) list \<Rightarrow> string list \<times> masker" where
  "form_line_list sha m [] = ([], m)"
| "form_line_list sha m ((k, v) # ps) =
     (let (w, _, m1) = mask_value sha m k v; (ls, m2) = form_line_list sha m1 ps in ((k @ '': '' @ w) # ls, m2))"

definition form_lines :: "(string \<Rightarrow> string) \<Rightarrow> masker \<Rightarrow> string \<Rightarrow> string \<times> masker" where
  "form_lines sha m b = (let (ls, m') = form_line_list sha m (form_pairs b) in (str_join [CHR 0x0A] ls, m'))"

section \<open>Encoding and decoding\<close>

definition upper_hex :: "nat \<Rightarrow> char" where
  "upper_hex n = (if n < 10 then char_of (48 + n) else char_of (55 + n))"

definition plain_byte :: "char \<Rightarrow> bool" where
  "plain_byte c = (is_digit c \<or> (65 \<le> octet c \<and> octet c \<le> 90) \<or> (97 \<le> octet c \<and> octet c \<le> 122) \<or> c \<in> set ''-_.~'')"

text \<open>\<open>url.QueryEscape\<close>\<close>

definition escape_byte :: "char \<Rightarrow> string" where
  "escape_byte c =
     (if plain_byte c then [c] else if c = CHR '' '' then ''+''
      else [CHR ''%'', upper_hex (octet c div 16), upper_hex (octet c mod 16)])"

definition query_escape :: "string \<Rightarrow> string" where
  "query_escape s = concat (List.map escape_byte s)"

lemma byte_lt: "octet c < 256"
  by (simp add: octet_def)

lemma hex_val_digit: "n < 16 \<Longrightarrow> form_hex_val (upper_hex n) = Some n"
  by (auto simp: form_hex_val_def upper_hex_def is_digit_def octet_def)

lemma char_of_byte: "char_of (octet c) = c"
  by (simp add: octet_def)

lemma query_unescape_byte: "query_unescape (escape_byte c @ s) = map_option ((#) c) (query_unescape s)"
proof -
  have "16 * (octet c div 16) + octet c mod 16 = octet c" by simp
  moreover have "octet c div 16 < 16" using byte_lt [of c] by simp
  moreover have "plain_byte c \<Longrightarrow> c \<noteq> CHR ''%'' \<and> c \<noteq> CHR ''+''" by (auto simp: plain_byte_def is_digit_def octet_def)
  ultimately show ?thesis
    by (simp add: escape_byte_def query_unescape.simps(2) hex_val_digit char_of_byte)
qed

lemma query_unescape_escape: "query_unescape (query_escape s) = Some s"
  by (induction s) (simp_all add: query_escape_def query_unescape_byte)

lemma hex_digit_plain: "n < 16 \<Longrightarrow> plain_byte (upper_hex n)"
  by (auto simp: upper_hex_def plain_byte_def is_digit_def octet_def)

lemma escape_byte_safe: "d \<in> set (escape_byte c) \<Longrightarrow> d \<noteq> CHR ''&'' \<and> d \<noteq> CHR ''=''"
proof -
  assume d: "d \<in> set (escape_byte c)"
  have "octet c div 16 < 16" "octet c mod 16 < 16" using byte_lt [of c] by simp_all
  with d have "plain_byte d \<or> d = CHR ''+'' \<or> d = CHR ''%''"
    using hex_digit_plain by (auto simp: escape_byte_def split: if_splits)
  then show ?thesis by (auto simp: plain_byte_def is_digit_def octet_def)
qed

lemma query_escape_safe: "CHR ''&'' \<notin> set (query_escape s)" "CHR ''='' \<notin> set (query_escape s)"
  using escape_byte_safe by (auto simp: query_escape_def)

text \<open>The fields read from a form are those it was encoded from, in order, with any bytes in names
  and values and with repeated names.\<close>

theorem form_roundtrip:
  "form_pairs (str_join ''&'' (List.map (\<lambda>(k, v). query_escape k @ ''='' @ query_escape v) ps)) = ps"
proof (cases "ps = []")
  case False
  let ?ws = "List.map (\<lambda>(k, v). query_escape k @ ''='' @ query_escape v) ps"
  have "str_split (CHR ''&'') (str_join ''&'' ?ws) = ?ws"
    using False by (intro str_split_join) (auto simp: query_escape_safe)
  moreover have "filter (\<lambda>kv. kv \<noteq> []) ?ws = ?ws" by (auto simp: filter_id_conv)
  moreover have "form_pair (query_escape k @ ''='' @ query_escape v) = (k, v)" for k v
    using str_cut_at [OF query_escape_safe(2), of k "query_escape v"]
    by (simp add: form_pair_def unescape_or_raw_def query_unescape_escape)
  then have "form_pair (case p of (k, v) \<Rightarrow> query_escape k @ ''='' @ query_escape v) = p" for p by (cases p) simp
  ultimately show ?thesis by (simp add: form_pairs_def comp_def)
qed (simp add: form_pairs_def)

end
