(* ===== verification/View_Summary.thy ===== *)
theory View_Summary
  imports View_Schema View_Form View_Paths
begin

text \<open>
  \<open>internal/view/summary.go\<close> and the rest of \<open>schema.go\<close>: the digests of JSON, forms, event streams,
  HTML and text, and the rendering of shapes. Go's JSON, HTML, quoting, time and regular expression
  packages and \<open>gjson\<close> are fields of \<open>view_lib\<close>.
\<close>

record view_lib =
  vl_parse :: "string \<Rightarrow> gres"
  vl_get :: "string \<Rightarrow> string \<Rightarrow> gres option"
  vl_valid :: "string \<Rightarrow> bool"
  vl_compact :: "string \<Rightarrow> string option"
  vl_indent :: "string \<Rightarrow> string option"
  vl_time :: "string \<Rightarrow> string \<Rightarrow> bool"
  vl_quote :: "string \<Rightarrow> string"
  vl_sha :: "string \<Rightarrow> string"
  vl_regex :: regexes
  vl_patterns :: "string list"
  vl_unescape_html :: "string \<Rightarrow> string"
  vl_codec :: codec

section \<open>Text helpers\<close>

definition notable_keys :: "string list" where
  "notable_keys =
     [''id'', ''status'', ''error'', ''message'', ''model'', ''count'', ''total'', ''usage'', ''stop_reason'', ''finish_reason'']"

definition is_notable :: "string \<Rightarrow> bool" where
  "is_notable k = (to_lower k \<in> set notable_keys \<or> has_suffix (to_lower k) ''_id'')"

definition summary_budget :: nat where "summary_budget = 1536"
definition schema_budget :: nat where "schema_budget = 2048"

fun type_word :: "gres \<Rightarrow> string" where
  "type_word (GObj r ms) = ''object''"
| "type_word (GArr r xs) = ''array''"
| "type_word (GStr r s) = ''str''"
| "type_word (GNum r) = num_kind r"
| "type_word (GBool r) = ''bool''"
| "type_word (GNull r) = ''null''"

fun child_count :: "gres \<Rightarrow> nat" where
  "child_count (GObj r ms) = length ms"
| "child_count (GArr r xs) = length xs"
| "child_count _ = 0"

definition count_elems :: "gres \<Rightarrow> nat" where
  "count_elems v = min (child_count v) 1000000"

definition nat_text :: "nat \<Rightarrow> string" where
  "nat_text n = itoa (int n)"

definition hex_lower :: "nat \<Rightarrow> char" where
  "hex_lower n = (if n < 10 then char_of (48 + n) else char_of (87 + n))"

definition quote_rune :: "string \<Rightarrow> string" where
  "quote_rune r =
     (case r of
        [c] \<Rightarrow>
          (if c = CHR 0x22 then [backslash, CHR 0x22]
           else if c = backslash then [backslash, backslash]
           else if c = CHR 0x0A then [backslash, CHR ''n'']
           else if c = CHR 0x0D then [backslash, CHR ''r'']
           else if c = CHR 0x09 then [backslash, CHR ''t'']
           else if octet c < 32 \<or> octet c = 127
                then backslash # ''u00'' @ [hex_lower (octet c div 16), hex_lower (octet c mod 16)]
           else [c])
      | _ \<Rightarrow> r)"

definition quote_text :: "string \<Rightarrow> string" where
  "quote_text s = [CHR 0x22] @ concat (List.map quote_rune (runes s)) @ [CHR 0x22]"

definition short_string :: "string \<Rightarrow> nat \<Rightarrow> string" where
  "short_string s limit =
     (if rune_count s \<le> limit then quote_text s
      else quote_text (cut_runes s 60) @ dots @ ''('' @ nat_text (rune_count s) @ '' chars)'')"

definition compact_json_len :: nat where "compact_json_len = 120"

definition compact_json :: "view_lib \<Rightarrow> string \<Rightarrow> nat \<Rightarrow> string" where
  "compact_json lib raw0 limit =
     (let raw = (case vl_compact lib raw0 of None \<Rightarrow> raw0 | Some s \<Rightarrow> s) in
      if limit < length raw then cut_runes raw limit @ dots else raw)"

definition truncate_len :: "options \<Rightarrow> nat" where
  "truncate_len ops = nat (op_string_truncate ops)"

definition sample_len :: "options \<Rightarrow> nat" where
  "sample_len ops = nat (op_array_sample ops)"

definition scalar_text :: "gres \<Rightarrow> options \<Rightarrow> string" where
  "scalar_text v ops = (case v of GStr r s \<Rightarrow> short_string s (truncate_len ops) | _ \<Rightarrow> g_raw v)"

fun describe_masked :: "view_lib \<Rightarrow> gres \<Rightarrow> string" where
  "describe_masked lib (GObj r ms) = ''object['' @ nat_text (count_elems (GObj r ms)) @ ''] (redacted)''"
| "describe_masked lib (GArr r xs) = ''array['' @ nat_text (count_elems (GArr r xs)) @ ''] (redacted)''"
| "describe_masked lib (GStr r s) = ''str '' @ quote_text (mask_secret (vl_sha lib) s)"
| "describe_masked lib v = type_word v @ '' '' @ mask_secret (vl_sha lib) (g_raw v)"

definition mask_count :: "masker \<Rightarrow> masker" where
  "mask_count m = m\<lparr>mk_n := mk_n m + 1\<rparr>"

section \<open>Values\<close>

fun add_sample_keys :: "string list \<Rightarrow> string list \<Rightarrow> string list" where
  "add_sample_keys ks [] = ks"
| "add_sample_keys ks (k # r) =
     (let ks' = (if k \<in> set ks then ks else ks @ [k]) in if length ks' < 12 then add_sample_keys ks' r else ks')"

fun sample_keys :: "string list \<Rightarrow> gres list \<Rightarrow> string list" where
  "sample_keys ks [] = ks"
| "sample_keys ks (GObj r ms # es) = sample_keys (add_sample_keys ks (List.map fst ms)) es"
| "sample_keys ks (_ # es) = sample_keys ks es"

fun sample_text :: "gres \<Rightarrow> string list" where
  "sample_text (GObj r ms) = []"
| "sample_text (GArr r xs) = []"
| "sample_text (GStr r s) = [short_string s 30]"
| "sample_text v = [g_raw v]"

definition array_shape :: "gres list \<Rightarrow> options \<Rightarrow> string" where
  "array_shape xs ops =
     (let kinds = List.map fst (foldl count_name [] (List.map type_word (take 1000 xs)));
          firsts = take (min 1000 (sample_len ops)) xs;
          keys = sample_keys [] firsts;
          samples = concat (List.map sample_text firsts)
      in if kinds = [''object''] then ''object{'' @ cap_text (str_join '', '' keys) 70 @ ''}''
         else if length kinds = 1 \<and> samples \<noteq> []
              then hd kinds @ '' ['' @ str_join '', '' samples
                   @ (if length samples < min (length xs) 1000000 then '', '' @ dots else []) @ '']''
         else str_join ''|'' kinds)"

definition object_keys :: "(string \<times> gres) list \<Rightarrow> string" where
  "object_keys ms =
     (let keys = List.map fst (take 8 ms) in
      str_join '', '' keys @ (if length keys < length ms then '', '' @ dots else []))"

fun describe_value :: "gres \<Rightarrow> options \<Rightarrow> string" where
  "describe_value (GStr r s) ops = ''str '' @ short_string s (truncate_len ops)"
| "describe_value (GNum r) ops = num_kind r @ '' '' @ r"
| "describe_value (GBool r) ops = ''bool '' @ r"
| "describe_value (GArr r xs) ops =
     (if xs = [] then ''array[0]''
      else ''array['' @ nat_text (count_elems (GArr r xs)) @ ''] of '' @ array_shape xs ops)"
| "describe_value (GObj r ms) ops =
     (if ms = [] then ''object{}''
      else ''object{'' @ nat_text (length ms) @ '': '' @ cap_text (object_keys ms) 70 @ ''}'')"
| "describe_value (GNull r) ops = ''null''"

fun is_container :: "gres \<Rightarrow> bool" where
  "is_container (GObj r ms) = True"
| "is_container (GArr r xs) = True"
| "is_container _ = False"

section \<open>Notable values\<close>

definition summary_max_keys :: nat where "summary_max_keys = 40"
definition summary_max_notable :: nat where "summary_max_notable = 10"
definition summary_max_nodes :: nat where "summary_max_nodes = 2000"
definition summary_max_depth :: nat where "summary_max_depth = 5"

record notable_state =
  ns_lines :: "string list"
  ns_nodes :: nat

definition notable_line :: "view_lib \<Rightarrow> options \<Rightarrow> string \<Rightarrow> gres \<Rightarrow> string" where
  "notable_line lib ops p v =
     p @ '': '' @ (if is_container v then compact_json lib (g_raw v) compact_json_len else scalar_text v ops)"

definition add_notable :: "string \<Rightarrow> notable_state \<Rightarrow> notable_state" where
  "add_notable l st = st\<lparr>ns_lines := ns_lines st @ [l]\<rparr>"

definition visit_node :: "notable_state \<Rightarrow> notable_state" where
  "visit_node st = st\<lparr>ns_nodes := ns_nodes st + 1\<rparr>"

fun walk_value :: "view_lib \<Rightarrow> options \<Rightarrow> bool \<Rightarrow> string \<Rightarrow> gres \<Rightarrow> nat \<Rightarrow> notable_state \<Rightarrow> notable_state"
  and walk_members :: "view_lib \<Rightarrow> options \<Rightarrow> bool \<Rightarrow> string \<Rightarrow> (string \<times> gres) list \<Rightarrow> nat \<Rightarrow> notable_state \<Rightarrow> notable_state"
  and walk_elems :: "view_lib \<Rightarrow> options \<Rightarrow> bool \<Rightarrow> string \<Rightarrow> nat \<Rightarrow> gres list \<Rightarrow> nat \<Rightarrow> notable_state \<Rightarrow> notable_state" where
  "walk_value lib ops on path v depth st =
     (if summary_max_depth < depth \<or> summary_max_notable \<le> length (ns_lines st) then st
      else (case v of
              GObj r ms \<Rightarrow> walk_members lib ops on path ms depth st
            | GArr r xs \<Rightarrow> walk_elems lib ops on path 0 xs depth st
            | _ \<Rightarrow> st))"
| "walk_members lib ops on path [] depth st = st"
| "walk_members lib ops on path ((k, v) # ms) depth st0 =
     (let st = visit_node st0 in
      if summary_max_nodes < ns_nodes st \<or> summary_max_notable \<le> length (ns_lines st) then st
      else if on \<and> is_sensitive_key k then walk_members lib ops on path ms depth st
      else (let p = child_path path (escape_key k);
                st1 = (if 0 < depth \<and> is_notable k then add_notable (notable_line lib ops p v) st else st)
            in walk_members lib ops on path ms depth (walk_value lib ops on p v (depth + 1) st1)))"
| "walk_elems lib ops on path i [] depth st = st"
| "walk_elems lib ops on path i (x # xs) depth st =
     (if sample_len ops \<le> i \<or> summary_max_nodes < ns_nodes st then st
      else walk_elems lib ops on path (i + 1) xs depth
             (walk_value lib ops on (child_path path (nat_text i)) x (depth + 1) (visit_node st)))"

definition collect_notable :: "view_lib \<Rightarrow> options \<Rightarrow> bool \<Rightarrow> gres \<Rightarrow> string list" where
  "collect_notable lib ops on root = ns_lines (walk_value lib ops on ''$'' root 0 \<lparr>ns_lines = [], ns_nodes = 0\<rparr>)"

section \<open>Digests\<close>

definition nl :: string where "nl = [CHR 0x0A]"

definition trim_nl :: "string \<Rightarrow> string" where
  "trim_nl s = trim_right (\<lambda>c. c = CHR 0x0A) s"

fun member_line :: "view_lib \<Rightarrow> options \<Rightarrow> masker \<Rightarrow> string \<times> gres \<Rightarrow> string \<times> masker" where
  "member_line lib ops m (k, v) =
     (if mk_on m \<and> is_sensitive_key k then (k @ '': '' @ describe_masked lib v, mask_count m)
      else if is_notable k \<and> is_container v
      then (k @ '': '' @ type_word v @ ''['' @ nat_text (count_elems v) @ ''] = '' @ compact_json lib (g_raw v) compact_json_len, m)
      else (k @ '': '' @ describe_value v ops, m))"

fun member_lines :: "view_lib \<Rightarrow> options \<Rightarrow> masker \<Rightarrow> (string \<times> gres) list \<Rightarrow> string list \<times> masker" where
  "member_lines lib ops m [] = ([], m)"
| "member_lines lib ops m (p # ps) =
     (let (l, m1) = member_line lib ops m p; (ls, m2) = member_lines lib ops m1 ps in (l # ls, m2))"

definition with_newlines :: "string list \<Rightarrow> string" where
  "with_newlines ls = concat (List.map (\<lambda>l. l @ nl) ls)"

definition summarize_object :: "view_lib \<Rightarrow> options \<Rightarrow> masker \<Rightarrow> string \<Rightarrow> (string \<times> gres) list \<Rightarrow> string \<times> masker" where
  "summarize_object lib ops m raw ms =
     (let n = count_elems (GObj raw ms); (ls, m') = member_lines lib ops m (take summary_max_keys ms);
          more = (if summary_max_keys < length ms then [dots @ '' '' @ nat_text (n - summary_max_keys) @ '' more keys''] else []);
          notable = collect_notable lib ops (mk_on m) (GObj raw ms)
      in (with_newlines
            ([''json object ('' @ nat_text n @ '' keys)''] @ ls @ more
             @ (if notable = [] then [] else ''notable:'' # List.map (\<lambda>l. ''  '' @ l) notable)), m'))"

definition summarize_array :: "view_lib \<Rightarrow> options \<Rightarrow> string \<Rightarrow> gres list \<Rightarrow> string" where
  "summarize_array lib ops raw xs =
     (let n = count_elems (GArr raw xs); shown = take (sample_len ops) xs in
      if n = 0 then ''json array[0]'' @ nl
      else with_newlines
        ([''json array['' @ nat_text n @ ''] of '' @ array_shape xs ops]
         @ List.map (\<lambda>(i, e). ''  ['' @ nat_text i @ '']: '' @ compact_json lib (g_raw e) compact_json_len)
             (zip [0..<length shown] shown)
         @ (if length shown < n then [''  '' @ dots @ '' '' @ nat_text (n - length shown) @ '' more''] else [])))"

definition summarize_json :: "view_lib \<Rightarrow> options \<Rightarrow> masker \<Rightarrow> string \<Rightarrow> string \<times> masker" where
  "summarize_json lib ops m content =
     (case vl_parse lib content of
        GObj raw ms \<Rightarrow> (let (s, m') = summarize_object lib ops m raw ms in (trim_nl s, m'))
      | GArr raw xs \<Rightarrow> (trim_nl (summarize_array lib ops raw xs), m)
      | v \<Rightarrow> (trim_nl (describe_value v ops), m))"

text \<open>The first match of a regular expression and its first group.\<close>

definition first_group :: "regexes \<Rightarrow> string \<Rightarrow> string \<Rightarrow> string option" where
  "first_group rx re s =
     (case fst (rx_cut rx re s) of
        [] \<Rightarrow> None
      | (_, mt) # _ \<Rightarrow> (case rx_group rx re mt 1 of None \<Rightarrow> Some [] | Some (i, j) \<Rightarrow> Some (take (j - i) (drop i mt))))"

fun squeeze :: "bool \<Rightarrow> string \<Rightarrow> string" where
  "squeeze sp [] = []"
| "squeeze sp (c # s) = (if re_space c then (if sp then squeeze True s else CHR '' '' # squeeze True s) else c # squeeze False s)"

definition collapse_space :: "string \<Rightarrow> string" where
  "collapse_space s = trim_space (squeeze False s)"

definition text_preview_len :: nat where "text_preview_len = 300"

definition preview :: "string \<Rightarrow> string" where
  "preview s = (if rune_count s \<le> text_preview_len then s else concat (take text_preview_len (runes s)) @ dots)"

definition summarize_html :: "view_lib \<Rightarrow> string \<Rightarrow> string" where
  "summarize_html lib content =
     (let rx = vl_regex lib;
          title = (case first_group rx ''reTitle'' content of
                     None \<Rightarrow> [] | Some t \<Rightarrow> [''title: '' @ collapse_space (vl_unescape_html lib t)]);
          text1 = fst (replace_all rx ''reScript'' (\<lambda>_. ([], 1)) content);
          text2 = fst (replace_all rx ''reTag'' (\<lambda>_. ('' '', 1)) text1);
          visible = collapse_space (vl_unescape_html lib text2)
      in trim_nl (with_newlines ([''html ('' @ nat_text (rune_count content) @ '' chars)''] @ title)
                  @ (if visible = [] then [] else ''text: '' @ preview visible)))"

definition event_parts :: "(string \<times> nat) list \<Rightarrow> string list" where
  "event_parts counts =
     List.map (\<lambda>(n, k). n @ '' '' @ nat_text k) (take 20 counts) @ (if 20 < length counts then [dots] else [])"

definition summarize_sse :: "string \<Rightarrow> options \<Rightarrow> string" where
  "summarize_sse content ops =
     (let events = parse_sse content;
          head = ''sse: '' @ nat_text (length events) @ '' events ('' @ nat_text (length content) @ '' bytes)''
      in if events = [] then head
         else trim_nl (with_newlines
           ([head, ''events: '' @ str_join '', '' (event_parts (event_name_counts events)),
             ''first: '' @ se_name (hd events) @ '' '' @ cap_text (se_data (hd events)) (truncate_len ops)]
            @ (if 1 < length events
               then [''last: '' @ se_name (last events) @ '' '' @ cap_text (se_data (last events)) (truncate_len ops)] else [])
            @ (if is_llm_stream events then [''next: pano_flow_explain (looks like an LLM stream)''] else []))))"

fun form_field_lines :: "view_lib \<Rightarrow> options \<Rightarrow> masker \<Rightarrow> (string \<times> string) list \<Rightarrow> string list \<times> masker" where
  "form_field_lines lib ops m [] = ([], m)"
| "form_field_lines lib ops m ((k, v) # ps) =
     (let (w, masked, m1) = mask_value (vl_sha lib) m k v;
          w' = (if masked then w else cap_text w (truncate_len ops));
          (ls, m2) = form_field_lines lib ops m1 ps
      in ((k @ '': '' @ w') # ls, m2))"

definition summarize_form :: "view_lib \<Rightarrow> options \<Rightarrow> masker \<Rightarrow> string \<Rightarrow> string \<times> masker" where
  "summarize_form lib ops m content =
     (let pairs = form_pairs content; (ls, m') = form_field_lines lib ops m (take summary_max_keys pairs)
      in (trim_nl (with_newlines
            ([''form ('' @ nat_text (length pairs) @ '' fields)''] @ ls
             @ (if summary_max_keys < length pairs
                then [dots @ '' '' @ nat_text (length pairs - summary_max_keys) @ '' more fields''] else []))), m'))"

definition line_count :: "string \<Rightarrow> nat" where
  "line_count content =
     length (filter (\<lambda>c. c = CHR 0x0A) content) + (if content \<noteq> [] \<and> last content \<noteq> CHR 0x0A then 1 else 0)"

definition summarize_text :: "view_lib \<Rightarrow> string \<Rightarrow> string \<Rightarrow> string" where
  "summarize_text lib kind content =
     (let rx = vl_regex lib;
          rest = fst (replace_all rx ''reXMLPrefix'' (\<lambda>_. ([], 1)) content);
          root = (if kind = ''xml''
                  then (case first_group rx ''reXMLRoot'' rest of None \<Rightarrow> [] | Some t \<Rightarrow> [''root: <'' @ t @ ''>'']) else [])
      in trim_nl (with_newlines
           ([kind @ '' ('' @ nat_text (rune_count content) @ '' chars, '' @ nat_text (line_count content) @ '' lines)''] @ root)
           @ preview (collapse_space (cut_head content (4 * text_preview_len)))))"

definition summary_view :: "view_lib \<Rightarrow> string \<Rightarrow> string \<Rightarrow> options \<Rightarrow> masker \<Rightarrow> string \<times> masker" where
  "summary_view lib kind content ops m =
     (let (s, m') =
        (if kind = ''json'' then summarize_json lib ops m content
         else if kind = ''html'' then (summarize_html lib content, m)
         else if kind = ''sse'' then (summarize_sse content ops, m)
         else if kind = ''form'' then summarize_form lib ops m content
         else (summarize_text lib kind content, m))
      in (cap_text s summary_budget, m'))"

section \<open>Shapes as text\<close>

definition inline_width :: nat where "inline_width = 72"

definition key_name :: "view_lib \<Rightarrow> string \<Rightarrow> string" where
  "key_name lib k = (if re_bare_key k then k else vl_quote lib k)"

definition render_str :: "view_lib \<Rightarrow> shape_head \<Rightarrow> masker \<Rightarrow> string \<times> masker" where
  "render_str lib h m =
     (if is_enum h then
        (let hide = sh_sensitive h \<and> mk_on m; vals = List.map fst (sh_strs h)
         in (str_join ''|'' (List.map (\<lambda>v. vl_quote lib (if hide then mask_secret (vl_sha lib) v else v)) vals),
             if hide then m\<lparr>mk_n := mk_n m + length vals\<rparr> else m))
      else if str_format h \<noteq> [] then (''str<'' @ str_format h @ ''>'', m)
      else (''str'', m))"

definition fits_inline :: "string \<Rightarrow> bool" where
  "fits_inline s = (length s \<le> inline_width \<and> CHR 0x0A \<notin> set s)"

definition object_text :: "bool \<Rightarrow> string list \<Rightarrow> string \<Rightarrow> string" where
  "object_text extra es0 indent =
     (if es0 = [] then ''{}''
      else (let es = es0 @ (if extra then [dots] else []); inl = ''{ '' @ str_join '', '' es @ '' }''; inner = indent @ ''  ''
            in if fits_inline inl then inl
               else ''{'' @ nl @ inner @ str_join ('','' @ nl @ inner) es @ nl @ indent @ ''}''))"

definition array_text :: "string \<Rightarrow> string \<Rightarrow> string" where
  "array_text e indent =
     (if fits_inline e then ''[ '' @ e @ '' ]'' else ''['' @ nl @ indent @ ''  '' @ e @ nl @ indent @ '']'')"

definition scalar_parts :: "shape_head \<Rightarrow> string list" where
  "scalar_parts h =
     (if 0 < times_of (sh_kinds h) ''float'' then [''float''] else if 0 < times_of (sh_kinds h) ''int'' then [''int''] else [])
     @ (if 0 < times_of (sh_kinds h) ''bool'' then [''bool''] else [])
     @ (if 0 < times_of (sh_kinds h) ''null'' then [''null''] else [])"

fun render_shape :: "view_lib \<Rightarrow> shape \<Rightarrow> string \<Rightarrow> masker \<Rightarrow> string \<times> masker"
  and render_entries :: "view_lib \<Rightarrow> shape_head \<Rightarrow> (string \<times> shape) list \<Rightarrow> string \<Rightarrow> masker \<Rightarrow> string list \<times> masker"
  and render_elem :: "view_lib \<Rightarrow> shape option \<Rightarrow> string \<Rightarrow> masker \<Rightarrow> string \<times> masker" where
  "render_shape lib (Shape h ks el) indent m =
     (let (obj, m1) =
            (if 0 < times_of (sh_kinds h) ''object'' then
               (if sh_deep h \<and> ks = [] then ([''{'' @ dots @ ''}''], m)
                else (let (es, m') = render_entries lib h ks (indent @ ''  '') m in ([object_text (sh_extra h) es indent], m')))
             else ([], m));
          (arr, m2) =
            (if 0 < times_of (sh_kinds h) ''array'' then
               (if sh_deep h \<and> el = None then ([''['' @ dots @ '']''], m1)
                else (let (t, m') = render_elem lib el indent m1 in ([t], m')))
             else ([], m1));
          (str, m3) = (if 0 < times_of (sh_kinds h) ''str'' then (let (t, m') = render_str lib h m2 in ([t], m')) else ([], m2));
          parts = obj @ arr @ str @ scalar_parts h
      in (if parts = [] then ''?'' else str_join ''|'' parts, m3))"
| "render_entries lib h [] indent m = ([], m)"
| "render_entries lib h ((k, c) # ks) indent m =
     (let name = key_name lib k @ (if optional h c then ''?'' else []);
          (t, m1) = render_shape lib c indent m;
          (es, m2) = render_entries lib h ks indent m1
      in ((name @ '': '' @ t) # es, m2))"
| "render_elem lib None indent m = (''[]'', m)"
| "render_elem lib (Some e) indent m =
     (if sh_seen (head_part e) = 0 then (''[]'', m)
      else (let (t, m') = render_shape lib e (indent @ ''  '') m in (array_text t indent, m')))"

section \<open>The schema view\<close>

text \<open>\<open>looksLikeJSON\<close>\<close>

definition looks_like_json :: "view_lib \<Rightarrow> string \<Rightarrow> bool" where
  "looks_like_json lib b =
     (let t = trim_left (\<lambda>c. c \<in> {CHR '' '', CHR 0x09, cr, lf}) b in
      if t = [] \<or> (hd t \<noteq> CHR ''{'' \<and> hd t \<noteq> CHR ''['') then False else vl_valid lib t)"

definition event_shape :: "view_lib \<Rightarrow> (string \<times> shape) list \<Rightarrow> sse_event \<Rightarrow> (string \<times> shape) list" where
  "event_shape lib shapes ev =
     (let s = (case map_of shapes (se_name ev) of None \<Rightarrow> new_shape False | Some s \<Rightarrow> s);
          data = trim_space (se_data ev);
          v = (if looks_like_json lib data then vl_parse lib data else GStr (vl_quote lib data) data)
      in map_put (se_name ev) (merge_value (vl_time lib) 1 s v) shapes)"

fun event_shape_lines :: "view_lib \<Rightarrow> (string \<times> shape) list \<Rightarrow> masker \<Rightarrow> string list \<times> masker" where
  "event_shape_lines lib [] m = ([], m)"
| "event_shape_lines lib ((n, s) # ss) m =
     (let (t, m1) = render_shape lib s [] m; (ls, m2) = event_shape_lines lib ss m1
      in ((n @ '' ('' @ nat_text (sh_seen (head_part s)) @ ''): '' @ t) # ls, m2))"

definition schema_sse :: "view_lib \<Rightarrow> string \<Rightarrow> masker \<Rightarrow> string \<times> masker" where
  "schema_sse lib content m =
     (let events = parse_sse content; shapes = foldl (event_shape lib) [] events;
          (ls, m') = event_shape_lines lib (take 20 shapes) m
      in (trim_nl (with_newlines
            ([''events: '' @ nat_text (length events)] @ ls
             @ (if 20 < length shapes then [dots @ '' '' @ nat_text (length shapes - 20) @ '' more event types''] else []))), m'))"

definition form_shape :: "view_lib \<Rightarrow> shape \<Rightarrow> string \<times> string \<Rightarrow> shape" where
  "form_shape lib sh kv =
     (case sh of Shape h ks el \<Rightarrow>
        (let (k, v) = kv; c = (case map_of ks k of None \<Rightarrow> new_shape (is_sensitive_key k) | Some c \<Rightarrow> c)
         in Shape h (map_put k (merge_value (vl_time lib) 1 c (GStr (vl_quote lib v) v)) ks) el))"

definition form_head :: shape_head where
  "form_head = (bump_kind ''object'' (new_head False))\<lparr>sh_objects := 1\<rparr>"

definition schema_view :: "view_lib \<Rightarrow> string \<Rightarrow> string \<Rightarrow> options \<Rightarrow> masker \<Rightarrow> string \<times> masker" where
  "schema_view lib kind content ops m =
     (let (out, m') =
        (if kind = ''json'' then render_shape lib (merge_value (vl_time lib) 0 (new_shape False) (vl_parse lib content)) [] m
         else if kind = ''form''
         then render_shape lib (foldl (form_shape lib) (Shape form_head [] None) (form_pairs content)) [] m
         else if kind = ''sse'' then schema_sse lib content m
         else (let (s, m') = summary_view lib kind content ops m
               in (''(no schema for '' @ kind @ ''; showing summary)'' @ nl @ s, m')))
      in (cap_text out schema_budget, m'))"

section \<open>Bounds\<close>

lemma cap_text_length: "length (cap_text s n) \<le> n + 3"
  using cut_head_ok [of s n] by (simp add: cap_text_def cut_runes_def dots_def)

lemma view_budgets:
  "length (fst (summary_view lib kind content ops m)) \<le> 1539"
  "length (fst (schema_view lib kind content ops m)) \<le> 2051"
  using cap_text_length [of _ summary_budget] cap_text_length [of _ schema_budget]
  by (simp_all add: summary_view_def schema_view_def summary_budget_def schema_budget_def split_beta Let_def)

declare walk_value.simps [simp del]

lemma walk_bound:
  "length (ns_lines st) \<le> 10 \<Longrightarrow> length (ns_lines (walk_value lib ops on path v depth st)) \<le> 10"
  "length (ns_lines st) \<le> 10 \<Longrightarrow> length (ns_lines (walk_members lib ops on path ms depth st)) \<le> 10"
  "length (ns_lines st) \<le> 10 \<Longrightarrow> length (ns_lines (walk_elems lib ops on path i xs depth st)) \<le> 10"
proof (induction lib ops on path v depth st and lib ops on path ms depth st and lib ops on path i xs depth st
    rule: walk_value_walk_members_walk_elems.induct)
  case (1 lib ops on path v depth st)
  then show ?case by (cases v) (simp_all add: walk_value.simps)
next
  case (3 lib ops on path k v ms depth st0)
  then show ?case
    by (auto simp: Let_def visit_node_def add_notable_def summary_max_notable_def)
next
  case (5 lib ops on path i x xs depth st)
  then show ?case by (simp add: visit_node_def)
qed simp_all

lemma notable_bound: "length (collect_notable lib ops on root) \<le> 10"
  unfolding collect_notable_def by (rule walk_bound) simp

section \<open>Sensitive members stay hidden\<close>

text \<open>Two members that differ at most in a value under a sensitive key, with the same mask.\<close>

definition hidden_alike :: "view_lib \<Rightarrow> string \<times> gres \<Rightarrow> string \<times> gres \<Rightarrow> bool" where
  "hidden_alike lib p q =
     (fst p = fst q
      \<and> (snd p = snd q \<or> is_sensitive_key (fst p) \<and> describe_masked lib (snd p) = describe_masked lib (snd q)))"

lemma member_line_alike: "mk_on m \<Longrightarrow> hidden_alike lib p q \<Longrightarrow> member_line lib ops m p = member_line lib ops m q"
  by (cases p; cases q) (auto simp: hidden_alike_def)

lemma member_line_on: "mk_on (snd (member_line lib ops m p)) = mk_on m"
  by (cases p) (simp add: mask_count_def)

lemma member_lines_alike:
  "list_all2 (hidden_alike lib) ps qs \<Longrightarrow> mk_on m \<Longrightarrow> member_lines lib ops m ps = member_lines lib ops m qs"
proof (induction arbitrary: m rule: list_all2_induct)
  case (Cons p ps q qs)
  obtain l m1 where l: "member_line lib ops m q = (l, m1)" by (cases "member_line lib ops m q")
  with member_line_on [of lib ops m q] Cons.prems have "mk_on m1" by simp
  with l Cons.IH [of m1] member_line_alike [OF Cons.prems Cons.hyps(1), of ops] show ?case by simp
qed simp

lemma walk_members_alike:
  "list_all2 (hidden_alike lib) ps qs \<Longrightarrow>
     walk_members lib ops True path ps depth st = walk_members lib ops True path qs depth st"
proof (induction arbitrary: st rule: list_all2_induct)
  case (Cons p ps q qs)
  obtain k v w where pq: "p = (k, v)" "q = (k, w)" "v = w \<or> is_sensitive_key k"
    using Cons.hyps(1) by (cases p; cases q) (auto simp: hidden_alike_def)
  with Cons.IH show ?case by (auto simp: Let_def)
qed simp


definition sample_view_lib :: view_lib where
  "sample_view_lib =
     \<lparr>vl_parse = (\<lambda>s. GObj s [(''user'', GStr [] ''ann''), (''password'', GArr s [GStr s s])]), vl_get = (\<lambda>_ _. None),
      vl_valid = (\<lambda>_. True), vl_compact = (\<lambda>_. None), vl_indent = (\<lambda>_. None), vl_time = (\<lambda>_ _. False),
      vl_quote = quoted, vl_sha = (\<lambda>_. ''0123''), vl_regex = \<lparr>rx_cut = (\<lambda>_ s. ([], s)), rx_group = (\<lambda>_ _ _. None)\<rparr>,
      vl_patterns = [], vl_unescape_html = (\<lambda>s. s), vl_codec = (\<lambda>_ _. None)\<rparr>"


end
