(* ===== verification/View_Render.thy ===== *)
theory View_Render
  imports View_Summary
begin

text \<open>
  \<open>internal/view/decode.go\<close>, \<open>render.go\<close> and the view modes of \<open>truncate.go\<close>: decoding a captured
  body, deciding what it is and rendering it in a mode. The second decoder of the program is
  compared with the store's.
\<close>

section \<open>Decoding\<close>

definition read_limited :: "string \<times> bool \<Rightarrow> int \<Rightarrow> string \<Rightarrow> string \<times> decode_error option" where
  "read_limited r limit coding =
     (let (out, fails) = r; buf = take (nat (limit + 1)) out in
      if limit < int (length buf) then (take (nat limit) buf, Some ErrDecodeLimit)
      else (buf, if fails then Some (ErrDecode coding) else None))"

definition view_decode_one :: "codec \<Rightarrow> string \<Rightarrow> string \<Rightarrow> int \<Rightarrow> string \<times> decode_error option" where
  "view_decode_one lib coding b limit =
     (let read = (\<lambda>r. case r of None \<Rightarrow> ([], Some (ErrDecode coding)) | Some r \<Rightarrow> read_limited r limit coding) in
      if coding = ''gzip'' \<or> coding = ''x-gzip'' then read (lib ''gzip'' b)
      else if coding = ''deflate'' then
        (case lib ''zlib'' b of
           None \<Rightarrow> read (lib ''flate'' b)
         | Some zr \<Rightarrow>
             (let (out, rerr) = read_limited zr limit coding
              in if rerr = None \<or> out \<noteq> [] then (out, rerr) else read (lib ''flate'' b)))
      else if coding = ''br'' then read (lib ''br'' b)
      else if coding = ''zstd'' then read (lib ''zstd'' b)
      else ([], Some (ErrUnsupportedEncoding coding)))"

text \<open>\<open>splitEncodings\<close> is the list of codings of the store's decoder.\<close>

definition split_encodings :: "string \<Rightarrow> string list" where
  "split_encodings enc =
     filter (\<lambda>p. p \<noteq> [] \<and> p \<noteq> ''identity'') (List.map (\<lambda>p. to_lower (trim_space p)) (str_split (CHR '','') enc))"

fun view_decode_chain :: "codec \<Rightarrow> int \<Rightarrow> string list \<Rightarrow> string \<Rightarrow> string \<times> decode_error option" where
  "view_decode_chain lib limit [] out = (out, None)"
| "view_decode_chain lib limit (c # cs) out =
     (case view_decode_one lib c out limit of
        (out', Some e) \<Rightarrow> (out', Some e)
      | (out', None) \<Rightarrow> view_decode_chain lib limit cs out')"

definition view_decode :: "codec \<Rightarrow> string \<Rightarrow> string \<Rightarrow> int \<Rightarrow> string \<times> decode_error option" where
  "view_decode lib enc b limit0 =
     (let limit = (if limit0 \<le> 0 then default_decode_limit else limit0) in
      if split_encodings enc = [] then (b, None) else view_decode_chain lib limit (rev (split_encodings enc)) b)"

text \<open>A decompressor whose streams are all intact.\<close>

definition intact :: "codec \<Rightarrow> bool" where
  "intact lib = (\<forall>c b. case lib c b of Some (_, fails) \<Rightarrow> \<not> fails | None \<Rightarrow> True)"

lemma read_agree: "0 < limit \<Longrightarrow> \<not> snd r \<Longrightarrow> read_limited r limit c = read_bounded r limit c"
  by (auto simp: read_limited_def read_bounded_def Let_def split_beta)

lemma decode_one_agree:
  assumes "intact lib" "0 < limit"
  shows "view_decode_one lib c b limit = decode_one lib c b limit"
proof -
  have ok: "\<not> snd r" if "lib d x = Some r" for d x r
  proof -
    have "case lib d x of Some (_, fails) \<Rightarrow> \<not> fails | None \<Rightarrow> True" using assms(1) unfolding intact_def by blast
    then show ?thesis by (simp add: that split: prod.splits)
  qed
  have read: "(case lib d x of None \<Rightarrow> ([], Some (ErrDecode c)) | Some r \<Rightarrow> read_limited r limit c)
      = (case lib d x of None \<Rightarrow> ([], Some (ErrDecode c)) | Some r \<Rightarrow> read_bounded r limit c)" for d x
    using ok [of d x] read_agree [OF assms(2)] by (simp split: option.split)
  have zlib: "(let (out, rerr) = read_limited zr limit c in if rerr = None \<or> out \<noteq> [] then (out, rerr) else y)
      = read_bounded zr limit c" if "lib ''zlib'' x = Some zr" for x zr y
  proof -
    have "snd (read_bounded zr limit c) = None \<or> fst (read_bounded zr limit c) \<noteq> []"
      using ok [OF that] assms(2) by (auto simp: read_bounded_def Let_def split_beta)
    then show ?thesis using read_agree [OF assms(2) ok [OF that], of c] by (auto simp: split_beta)
  qed
  show ?thesis
  proof (cases "c = ''deflate''")
    case True
    show ?thesis
      unfolding view_decode_one_def decode_one_def Let_def True
      by (cases "lib ''zlib'' b") (simp_all add: read [unfolded True] zlib [unfolded Let_def True] split: option.split)
  next
    case False
    then show ?thesis
      unfolding view_decode_one_def decode_one_def Let_def by (simp add: read split: option.split)
  qed
qed

text \<open>As long as the compressed streams are intact, the two decoders of the program, of the views and
  of the store, agree on every body, every chain of codings and every limit, errors included.\<close>

theorem decoders_agree:
  assumes "intact lib"
  shows "view_decode lib enc b limit = decode_body lib enc b limit"
proof -
  have "view_decode_chain lib l cs b = decode_chain lib l cs b" if "0 < l" for l cs
    by (induction cs arbitrary: b) (simp_all add: decode_one_agree [OF assms that] split: prod.split option.split)
  then show ?thesis
    using effective_limit_pos [of limit]
    by (simp add: view_decode_def decode_body_def Let_def split_encodings_def codings_def effective_limit_def)
qed

lemma decoders_agree_witness:
  "view_decode (\<lambda>c b. Some (b, False)) ''gzip, br'' ''abc'' 2 = decode_body (\<lambda>c b. Some (b, False)) ''gzip, br'' ''abc'' 2"
  by (rule decoders_agree) (simp add: intact_def)

text \<open>A stream that breaks just at the limit is an error for the views and none for the store.\<close>

lemma broken_at_limit:
  "view_decode (\<lambda>_ _. Some (''ab'', True)) ''gzip'' x 2 = (''ab'', Some (ErrDecode ''gzip''))"
  "decode_body (\<lambda>_ _. Some (''ab'', True)) ''gzip'' x 2 = (''ab'', None)"
proof -
  have "codings ''gzip'' = [''gzip'']" "split_encodings ''gzip'' = [''gzip'']" by code_simp+
  then show "view_decode (\<lambda>_ _. Some (''ab'', True)) ''gzip'' x 2 = (''ab'', Some (ErrDecode ''gzip''))"
    "decode_body (\<lambda>_ _. Some (''ab'', True)) ''gzip'' x 2 = (''ab'', None)"
    by (simp_all add: view_decode_def decode_body_def view_decode_one_def decode_one_def read_limited_def read_bounded_def Let_def)
qed

section \<open>What a body is\<close>

definition arrow_mark :: string where "arrow_mark = [CHR 0xE2, CHR 0x86, CHR 0x92]"

definition binary_note :: string where
  "binary_note = ''(binary; use pano export har or `pano show --out FILE` to save)''"

definition is_binary :: "string \<Rightarrow> string \<Rightarrow> bool" where
  "is_binary cls b =
     (cls \<in> {''img'', ''font'', ''media'', ''bin''} \<or> \<not> utf8_valid b \<or> CHR 0x00 \<in> set b)"

definition detect_kind :: "view_lib \<Rightarrow> string \<Rightarrow> string \<Rightarrow> string \<Rightarrow> string" where
  "detect_kind lib cls mime b =
     (if cls = ''json'' then (if vl_valid lib b then ''json'' else ''text'')
      else if cls = ''sse'' then ''sse''
      else if cls = ''html'' then ''html''
      else if cls = ''form'' then (if has_prefix (media_type mime) ''multipart/'' then ''text'' else ''form'')
      else if cls \<in> {''xml'', ''js'', ''css''} then cls
      else if looks_like_json lib b then ''json''
      else if looks_like_sse b then ''sse''
      else ''text'')"

definition header_line :: "view_lib \<Rightarrow> string \<Rightarrow> string \<Rightarrow> string \<Rightarrow> string \<Rightarrow> string" where
  "header_line lib mime raw decoded enc =
     (let mt = media_type mime; encs = split_encodings enc in
      ''body: '' @ (if mt = [] then ''-'' else mt) @ '' '' @ nat_text (length raw) @ ''B''
      @ (if encs \<noteq> [] then '' ['' @ str_join '','' encs @ arrow_mark @ nat_text (length decoded) @ ''B]'' else [])
      @ '' sha256:'' @ take 8 (vl_sha lib raw))"

definition describe_top_level :: "view_lib \<Rightarrow> string \<Rightarrow> string" where
  "describe_top_level lib content =
     (case vl_parse lib content of
        GObj r ms \<Rightarrow>
          (let keys = List.map fst (take 30 ms) @ (if 30 < length ms then [dots] else []) in
           if keys = [] then ''top-level object is empty'' else ''top-level keys: '' @ str_join '', '' keys)
      | GArr r xs \<Rightarrow>
          ''top-level is an array of '' @ nat_text (length xs) @ '' elements (start with an index, e.g. 0.key, or # for all)''
      | v \<Rightarrow> ''body is a JSON '' @ type_word v)"

section \<open>The modes\<close>

definition pretty_json :: "view_lib \<Rightarrow> string \<Rightarrow> string" where
  "pretty_json lib b = (case vl_indent lib b of None \<Rightarrow> b | Some s \<Rightarrow> s)"

definition pretty_bytes :: "view_lib \<Rightarrow> string \<Rightarrow> string \<Rightarrow> masker \<Rightarrow> string \<times> masker" where
  "pretty_bytes lib kind content m =
     (if kind = ''json'' then (pretty_json lib content, m)
      else if kind = ''form'' then form_lines (vl_sha lib) m content
      else (content, m))"

definition body_budget :: "options \<Rightarrow> nat" where
  "body_budget ops = nat (op_max_bytes ops)"

definition truncated_view :: "view_lib \<Rightarrow> string \<Rightarrow> string \<Rightarrow> options \<Rightarrow> string \<times> cut_info" where
  "truncated_view lib kind content0 ops =
     (let content = (if kind = ''json'' \<and> length (pretty_json lib content0) \<le> 4 * body_budget ops
                     then pretty_json lib content0 else content0)
      in head_tail content (body_budget ops))"

definition pretty_view :: "view_lib \<Rightarrow> string \<Rightarrow> string \<Rightarrow> options \<Rightarrow> masker \<Rightarrow> (string \<times> cut_info) \<times> masker" where
  "pretty_view lib kind content ops m =
     (let (b, m') = pretty_bytes lib kind content m in (head_tail b (body_budget ops), m'))"

definition raw_view :: "string \<Rightarrow> options \<Rightarrow> string \<times> cut_info" where
  "raw_view content ops = head_only content (body_budget ops)"

datatype render_error =
    UnknownView string
  | DecodeFailed decode_error
  | PathNotUtf8
  | PathOnStream string
  | PathOnText string string
  | PathNotFound string string

type_synonym rendered = "string \<times> nat \<times> bool"

text \<open>The selected content: its header, its kind (\<open>string\<close> for a JSON string) and its bytes.\<close>

definition select_path ::
  "view_lib \<Rightarrow> string \<Rightarrow> string \<Rightarrow> string \<Rightarrow> string \<Rightarrow> render_error + (string \<times> string \<times> string)" where
  "select_path lib path0 kind hdr content =
     (let path = trim_space path0 in
      if path = [] then Inr (hdr, kind, content)
      else if \<not> utf8_valid path then Inl PathNotUtf8
      else if kind = ''sse'' then Inl (PathOnStream path)
      else if kind \<noteq> ''json'' then Inl (PathOnText path kind)
      else (let np = normalize_path path in
            case vl_get lib content np of
              None \<Rightarrow> Inl (PathNotFound np (describe_top_level lib content))
            | Some (GStr r s) \<Rightarrow> Inr (hdr @ '' path:'' @ np, ''string'', s)
            | Some v \<Rightarrow> Inr (hdr @ '' path:'' @ np, kind, g_raw v)))"

definition uncut :: cut_info where
  "uncut = \<lparr>ci_shown = 0, ci_total = 0, ci_truncated = False\<rparr>"

definition render_mode :: "view_lib \<Rightarrow> string \<Rightarrow> string \<Rightarrow> string \<Rightarrow> options \<Rightarrow> masker \<Rightarrow> (string \<times> cut_info) \<times> masker" where
  "render_mode lib mode kind content ops m =
     (if kind = ''string''
      then ((if mode = ''raw'' then raw_view content ops else head_tail content (body_budget ops)), m)
      else if mode = ''summary'' then (let (s, m') = summary_view lib kind content ops m in ((s, uncut), m'))
      else if mode = ''schema'' then (let (s, m') = schema_view lib kind content ops m in ((s, uncut), m'))
      else if mode = ''truncated'' then (truncated_view lib kind content ops, m)
      else if mode = ''pretty'' then pretty_view lib kind content ops m
      else (raw_view content ops, m))"

definition view_modes :: "string list" where
  "view_modes = [''summary'', ''schema'', ''truncated'', ''pretty'', ''raw'']"

definition show_content :: "view_lib \<Rightarrow> string \<Rightarrow> options \<Rightarrow> string \<times> string \<times> string \<Rightarrow> rendered" where
  "show_content lib mode ops sel =
     (let (hdr, kind, content) = sel;
          ((out, ci), m) = render_mode lib mode kind content ops \<lparr>mk_on = redacting ops, mk_n = 0\<rparr>;
          hdr' = (if ci_truncated ci
                  then hdr @ '' [truncated to '' @ nat_text (ci_shown ci) @ '' of '' @ nat_text (ci_total ci) @ '']'' else hdr);
          (out', n) = (if redacting ops then redact_text (vl_sha lib) (vl_regex lib) (vl_patterns lib) out else (out, 0))
      in (hdr' @ nl @ out', n + mk_n m, False))"

definition render_body ::
  "view_lib \<Rightarrow> (decode_error \<Rightarrow> string) \<Rightarrow> string \<Rightarrow> string \<Rightarrow> string \<Rightarrow> string \<Rightarrow> string \<Rightarrow> options \<Rightarrow> render_error + rendered" where
  "render_body lib err_text mode0 body enc mime path ops0 =
     (let ops = normalize_options ops0; mode = (if mode0 = [] then ''summary'' else mode0) in
      if mode \<notin> set view_modes then Inl (UnknownView mode0)
      else
        (let (decoded, derr) = view_decode (vl_codec lib) enc body 0 in
         case (if decoded = [] then derr else None) of
           Some e \<Rightarrow> Inl (DecodeFailed e)
         | None \<Rightarrow>
             (let hdr = header_line lib mime body decoded enc
                        @ (case derr of None \<Rightarrow> [] | Some e \<Rightarrow> '' [decode error: '' @ err_text e @ '']'');
                  cls = class_str (mime_of mime)
              in if is_binary cls decoded then Inr (hdr @ nl @ binary_note, 0, True)
                 else if decoded = [] then Inr (hdr @ nl @ ''(empty)'', 0, False)
                 else (case select_path lib path (detect_kind lib cls mime decoded) hdr decoded of
                         Inl e \<Rightarrow> Inl e
                       | Inr sel \<Rightarrow> Inr (show_content lib mode ops sel)))))"

section \<open>When rendering fails\<close>

definition decoded_of :: "view_lib \<Rightarrow> string \<Rightarrow> string \<Rightarrow> string \<times> decode_error option" where
  "decoded_of lib enc body = view_decode (vl_codec lib) enc body 0"

text \<open>Whether there is text to show, to which a path would be applied.\<close>

definition has_text :: "string \<Rightarrow> string \<Rightarrow> bool" where
  "has_text mime d = (\<not> is_binary (class_str (mime_of mime)) d \<and> d \<noteq> [])"

definition known_view :: "string \<Rightarrow> bool" where
  "known_view mode = (mode = [] \<or> mode \<in> set view_modes)"

lemma known_view_default: "known_view mode \<longleftrightarrow> (if mode = [] then ''summary'' else mode) \<in> set view_modes"
  by (simp add: known_view_def view_modes_def)

text \<open>Rendering fails for exactly five reasons, each reported as itself: a mode that does not exist, a
  body of which nothing could be decoded, and for a text shown a path that is not UTF-8, is for an
  event stream or for something that is not JSON, or selects nothing. A body decoded in part is shown,
  and binary content is reported as binary.\<close>

theorem render_errors:
  "case render_body lib err_text mode body enc mime path ops of
     Inl (UnknownView v) \<Rightarrow> \<not> known_view mode \<and> v = mode
   | Inl (DecodeFailed e) \<Rightarrow> known_view mode \<and> decoded_of lib enc body = ([], Some e)
   | Inl (PathNotFound np msg) \<Rightarrow>
       np = normalize_path (trim_space path) \<and> vl_get lib (fst (decoded_of lib enc body)) np = None
       \<and> detect_kind lib (class_str (mime_of mime)) mime (fst (decoded_of lib enc body)) = ''json''
       \<and> has_text mime (fst (decoded_of lib enc body))
   | Inl (PathOnStream p) \<Rightarrow>
       p = trim_space path \<and> p \<noteq> [] \<and> detect_kind lib (class_str (mime_of mime)) mime (fst (decoded_of lib enc body)) = ''sse''
       \<and> has_text mime (fst (decoded_of lib enc body))
   | Inl (PathOnText p k) \<Rightarrow>
       p = trim_space path \<and> p \<noteq> [] \<and> k = detect_kind lib (class_str (mime_of mime)) mime (fst (decoded_of lib enc body))
       \<and> k \<noteq> ''json'' \<and> k \<noteq> ''sse'' \<and> has_text mime (fst (decoded_of lib enc body))
   | Inl PathNotUtf8 \<Rightarrow> \<not> utf8_valid (trim_space path) \<and> has_text mime (fst (decoded_of lib enc body))
   | Inr (shown, n, bin) \<Rightarrow>
       known_view mode \<and> bin = is_binary (class_str (mime_of mime)) (fst (decoded_of lib enc body))
       \<and> \<not> (fst (decoded_of lib enc body) = [] \<and> snd (decoded_of lib enc body) \<noteq> None)"
proof -
  obtain d e where d: "decoded_of lib enc body = (d, e)" by (cases "decoded_of lib enc body")
  let ?cls = "class_str (mime_of mime)"
  show ?thesis
  proof (cases "known_view mode")
    case False
    then show ?thesis by (simp add: render_body_def Let_def known_view_default)
  next
    case known: True
    show ?thesis
    proof (cases "d = [] \<and> e \<noteq> None")
      case True
      with known d show ?thesis
        by (auto simp: render_body_def Let_def known_view_default decoded_of_def)
    next
      case ok: False
      then have ok': "(if d = [] then e else None) = None" by auto
      define hdr where "hdr = header_line lib mime body d enc
          @ (case e of None \<Rightarrow> [] | Some e \<Rightarrow> '' [decode error: '' @ err_text e @ '']'')"
      have run: "render_body lib err_text mode body enc mime path ops =
          (if is_binary ?cls d then Inr (hdr @ nl @ binary_note, 0, True)
           else if d = [] then Inr (hdr @ nl @ ''(empty)'', 0, False)
           else (case select_path lib path (detect_kind lib ?cls mime d) hdr d of
                   Inl e \<Rightarrow> Inl e
                 | Inr sel \<Rightarrow> Inr (show_content lib (if mode = [] then ''summary'' else mode) (normalize_options ops) sel)))"
        using known d ok' unfolding render_body_def Let_def decoded_of_def hdr_def known_view_default
        by (simp only: prod.case option.case simp_thms not_True_eq_False if_False)
      have shown_text: "\<exists>t n. show_content lib md os sel = (t, n, False)" for md os sel
        by (simp add: show_content_def split_beta Let_def)
      show ?thesis
      proof (cases "is_binary ?cls d \<or> d = []")
        case True
        with run known ok d show ?thesis by auto
      next
        case False
        show ?thesis
        proof (cases "select_path lib path (detect_kind lib ?cls mime d) hdr d")
          case (Inl er)
          with run False have r: "render_body lib err_text mode body enc mime path ops = Inl er" by simp
          from Inl show ?thesis
            unfolding r using False
            by (auto simp: select_path_def Let_def d has_text_def split: if_splits option.splits gres.splits)
        next
          case (Inr sel)
          obtain t n where "show_content lib (if mode = [] then ''summary'' else mode) (normalize_options ops) sel = (t, n, False)"
            using shown_text by blast
          with run False Inr have r: "render_body lib err_text mode body enc mime path ops = Inr (t, n, False)" by simp
          show ?thesis unfolding r using False known ok d by auto
        qed
      qed
    qed
  qed
qed

end
