(* ===== verification/Sysproxy.thy ===== *)
theory Sysproxy
  imports Prelude
begin

text \<open>
  \<open>internal/sysproxy\<close>: pointing the system proxy at pano and putting the previous settings back. The
  settings are read and changed by running \<open>networksetup\<close>; what it answers, and whether the state file
  can be read, written and removed, are inputs that may depend on everything done so far (the
  \<open>history\<close>). The state file's JSON codec is a parameter.
\<close>

section \<open>Settings and the state file\<close>

record proxy_setting =
  ps_enabled :: bool
  ps_server :: string
  ps_port :: int

definition points_at :: "proxy_setting \<Rightarrow> string \<Rightarrow> int \<Rightarrow> bool" where
  "points_at p host port = (ps_enabled p \<and> ps_server p = host \<and> ps_port p = port)"

record auto_proxy =
  ap_url :: string
  ap_enabled :: bool
  ap_discovery :: bool

record service_state =
  sv_name :: string
  sv_web :: proxy_setting
  sv_secure :: proxy_setting
  sv_bypass :: "string list"
  sv_auto :: "auto_proxy option"

record endpoint =
  ep_host :: string
  ep_port :: int

definition endpoint_string :: "endpoint \<Rightarrow> string" where
  "endpoint_string e = ep_host e @ '':'' @ itoa (ep_port e)"

record snapshot =
  sn_version :: int
  sn_set_at :: gotime
  sn_pano :: endpoint
  sn_services :: "service_state list"
  sn_admin :: bool

definition snapshot_version :: int where "snapshot_version = 1"

datatype cmd_error =
    ExitStatus int string string
  | RunFailed string

datatype sp_error =
    InvalidAddress string int
  | ToolMissing
  | ReadState string
  | ParseState string
  | BadVersion int
  | WriteState string
  | ListServices cmd_error
  | QueryFailed cmd_error
  | BadPort string
  | BadOutput string string string
  | NoServices
  | SetFailed string bool cmd_error
  | ForService string sp_error
  | EnableIncomplete "sp_error list"
  | RestoreIncomplete "sp_error list"
  | RemoveState string
  | Unsupported

section \<open>The bypass list\<close>

definition default_bypass :: "string list" where
  "default_bypass = [''localhost'', ''127.0.0.1'', ''*.local'', ''169.254/16'']"

fun add_bypass :: "string list \<Rightarrow> string list \<Rightarrow> string list" where
  "add_bypass out [] = out"
| "add_bypass out (d # ds) =
     (let t = trim_space d in if t = [] \<or> t \<in> set out then add_bypass out ds else add_bypass (out @ [t]) ds)"

definition merge_bypass :: "string list \<Rightarrow> string list \<Rightarrow> string list" where
  "merge_bypass existing extra = fold (\<lambda>l out. add_bypass out l) [existing, default_bypass, extra] []"

definition bypass_args :: "string list \<Rightarrow> string list" where
  "bypass_args l = (if l = [] then [''Empty''] else l)"

section \<open>What networksetup prints\<close>

fun service_lines :: "string list \<Rightarrow> string list" where
  "service_lines [] = []"
| "service_lines (l # ls) =
     (let t = trim_space l in
      if t = [] \<or> has_prefix t ''An asterisk'' \<or> has_prefix t ''*'' then service_lines ls else t # service_lines ls)"

definition parse_services :: "string \<Rightarrow> string list" where
  "parse_services out = service_lines (str_split (CHR 0x0A) out)"

text \<open>\<open>parseProxy\<close>: the setting so far and how many of its three lines were seen.\<close>

fun proxy_lines :: "string list \<Rightarrow> proxy_setting \<Rightarrow> nat \<Rightarrow> sp_error + proxy_setting \<times> nat" where
  "proxy_lines [] p seen = Inr (p, seen)"
| "proxy_lines (l # ls) p seen =
     (let (key, v, ok) = str_cut (CHR '':'') l; value = trim_space v; name = trim_space key in
      if \<not> ok then proxy_lines ls p seen
      else if name = ''Enabled'' then proxy_lines ls (p\<lparr>ps_enabled := equal_fold value ''yes''\<rparr>) (Suc seen)
      else if name = ''Server'' then proxy_lines ls (p\<lparr>ps_server := value\<rparr>) (Suc seen)
      else if name = ''Port'' then
        (if value = [] then proxy_lines ls p (Suc seen)
         else case atoi value of
                None \<Rightarrow> Inl (BadPort value)
              | Some n \<Rightarrow> proxy_lines ls (p\<lparr>ps_port := n\<rparr>) (Suc seen))
      else proxy_lines ls p seen)"

definition parse_proxy :: "string \<Rightarrow> sp_error + proxy_setting" where
  "parse_proxy out =
     and_then (proxy_lines (str_split (CHR 0x0A) out) \<lparr>ps_enabled = False, ps_server = [], ps_port = 0\<rparr> 0)
       (\<lambda>(p, seen). if seen < 3 then Inl (BadOutput [] [] (trim_space out)) else Inr p)"

fun bypass_lines :: "string list \<Rightarrow> string list" where
  "bypass_lines [] = []"
| "bypass_lines (l # ls) =
     (let t = trim_space l in
      if t = [] \<or> has_prefix t (''There aren'' @ [CHR 0x27] @ ''t any bypass domains'') then bypass_lines ls
      else t # bypass_lines ls)"

definition parse_bypass :: "string \<Rightarrow> string list" where
  "parse_bypass out = bypass_lines (str_split (CHR 0x0A) out)"

fun auto_lines :: "string list \<Rightarrow> auto_proxy \<Rightarrow> auto_proxy" where
  "auto_lines [] a = a"
| "auto_lines (l # ls) a =
     (let (key, v, ok) = str_cut (CHR '':'') l; value = trim_space v; name = trim_space key in
      if \<not> ok then auto_lines ls a
      else if name = ''URL'' then auto_lines ls (if value \<noteq> ''(null)'' then a\<lparr>ap_url := value\<rparr> else a)
      else if name = ''Enabled'' then auto_lines ls (a\<lparr>ap_enabled := equal_fold value ''yes''\<rparr>)
      else auto_lines ls a)"

definition parse_auto_proxy :: "string \<Rightarrow> auto_proxy" where
  "parse_auto_proxy out = auto_lines (str_split (CHR 0x0A) out) \<lparr>ap_url = [], ap_enabled = False, ap_discovery = False\<rparr>"

definition parse_discovery :: "string \<Rightarrow> bool" where
  "parse_discovery out = (let (_, v, ok) = str_cut (CHR '':'') out in ok \<and> equal_fold (trim_space v) ''on'')"

definition on_off :: "bool \<Rightarrow> string" where
  "on_off b = (if b then ''on'' else ''off'')"

section \<open>Errors of commands\<close>

definition output_of :: "string \<Rightarrow> string \<Rightarrow> string" where
  "output_of stdout stderr = to_lower (stderr @ [CHR 0x0A] @ stdout)"

definition permission_hints :: "string list" where
  "permission_hints = [''permission'', ''not permitted'', ''authoriz'', ''admin'']"

fun is_permission_error :: "cmd_error \<Rightarrow> bool" where
  "is_permission_error (ExitStatus code stdout stderr) =
     (code \<noteq> 0 \<and> list_ex (str_contains (output_of stdout stderr)) permission_hints)"
| "is_permission_error (RunFailed _) = False"

fun cmd_missing_service :: "cmd_error \<Rightarrow> bool" where
  "cmd_missing_service (ExitStatus code stdout stderr) =
     str_contains (output_of stdout stderr) ''unable to find item in network database''"
| "cmd_missing_service (RunFailed _) = False"

text \<open>The error of a command that was set, directly or with privileges, wraps the command's own.\<close>

fun is_missing_service :: "sp_error \<Rightarrow> bool" where
  "is_missing_service (SetFailed _ _ e) = cmd_missing_service e"
| "is_missing_service _ = False"

section \<open>The script run with administrator privileges\<close>

text \<open>\<open>strings.ReplaceAll\<close> of one byte.\<close>

definition replace_byte :: "char \<Rightarrow> string \<Rightarrow> string \<Rightarrow> string" where
  "replace_byte c by s = concat (List.map (\<lambda>x. if x = c then by else [x]) s)"

abbreviation quote :: char where "quote \<equiv> CHR 0x27"
abbreviation double_quote :: char where "double_quote \<equiv> CHR 0x22"
abbreviation backslash :: char where "backslash \<equiv> CHR 0x5C"

definition shell_quote :: "string \<Rightarrow> string" where
  "shell_quote s = [quote] @ replace_byte quote [quote, backslash, quote, quote] s @ [quote]"

definition apple_script_escape :: "string \<Rightarrow> string" where
  "apple_script_escape s = replace_byte double_quote [backslash, double_quote] (replace_byte backslash [backslash, backslash] s)"

definition admin_command :: "string \<Rightarrow> string list \<Rightarrow> string" where
  "admin_command name args = str_join '' '' (List.map shell_quote (name # args))"

definition admin_script :: "string \<Rightarrow> string list \<Rightarrow> string" where
  "admin_script name args =
     ''do shell script '' @ [CHR 0x22] @ apple_script_escape (admin_command name args) @ [CHR 0x22]
     @ '' with administrator privileges''"

text \<open>
  What becomes of the script: the text of an AppleScript string literal (a backslash makes the next
  character literal), and the words the shell splits a command into (POSIX: nothing is special between
  single quotes; outside, a backslash makes the next character literal and a space ends a word;
  any other character outside quotes, which the shell might interpret, has no reading here).
\<close>

fun apple_script_text :: "string \<Rightarrow> string" where
  "apple_script_text [] = []"
| "apple_script_text (c # s) =
     (if c = backslash then (case s of [] \<Rightarrow> [] | d # t \<Rightarrow> d # apple_script_text t)
      else if c = double_quote then [] else c # apple_script_text s)"

definition the_default :: "string option \<Rightarrow> string" where
  "the_default w = (case w of None \<Rightarrow> [] | Some x \<Rightarrow> x)"

fun shell_words :: "bool \<Rightarrow> string option \<Rightarrow> string \<Rightarrow> string list option" where
  "shell_words q w [] = (if q then None else Some (case w of None \<Rightarrow> [] | Some x \<Rightarrow> [x]))"
| "shell_words True w (c # s) =
     (if c = quote then shell_words False w s else shell_words True (Some (the_default w @ [c])) s)"
| "shell_words False w (c # s) =
     (if c = quote then shell_words True (Some (the_default w)) s
      else if c = CHR '' '' then
        (case w of None \<Rightarrow> shell_words False None s | Some x \<Rightarrow> map_option (\<lambda>ws. x # ws) (shell_words False None s))
      else if c = backslash then
        (case s of [] \<Rightarrow> None | d # t \<Rightarrow> shell_words False (Some (the_default w @ [d])) t)
      else None)"

lemma replace_byte_simps [simp]:
  "replace_byte c by [] = []"
  "replace_byte c by (x # s) = (if x = c then by @ replace_byte c by s else x # replace_byte c by s)"
  by (simp_all add: replace_byte_def)

lemma apple_script_escape_Cons:
  "apple_script_escape [] = []"
  "apple_script_escape (c # s) =
     (if c = backslash \<or> c = double_quote then backslash # c # apple_script_escape s else c # apple_script_escape s)"
  by (auto simp: apple_script_escape_def)

lemma apple_script_text_escape: "apple_script_text (apple_script_escape s @ double_quote # t) = s"
  by (induction s) (auto simp: apple_script_escape_Cons)

lemma shell_words_body:
  "shell_words True (Some w) (replace_byte quote [quote, backslash, quote, quote] s @ quote # t) = shell_words False (Some (w @ s)) t"
  by (induction s arbitrary: w) (auto simp: the_default_def)

lemma shell_words_quoted: "shell_words False None (shell_quote s @ t) = shell_words False (Some s) t"
  using shell_words_body [of "[]" s t] by (simp add: shell_quote_def the_default_def)

lemma shell_words_join: "shell_words False None (str_join '' '' (List.map shell_quote ss)) = Some ss"
proof (induction ss rule: induct_list012)
  case 1
  then show ?case by simp
next
  case (2 a)
  then show ?case using shell_words_quoted [of a "[]"] by simp
next
  case (3 a b ss)
  then show ?case by (simp add: shell_words_quoted)
qed

lemma add_bypass_spec:
  "distinct out \<Longrightarrow> distinct (add_bypass out ds) \<and> set (add_bypass out ds) = set out \<union> (trim_space ` set ds - {[]})
    \<and> take (length out) (add_bypass out ds) = out"
proof (induction ds arbitrary: out)
  case (Cons d ds)
  show ?case
  proof (cases "trim_space d = [] \<or> trim_space d \<in> set out")
    case True
    with Cons show ?thesis by (auto simp: Let_def)
  next
    case False
    with Cons.prems have "distinct (out @ [trim_space d])" by simp
    from Cons.IH [OF this] have *: "distinct (add_bypass (out @ [trim_space d]) ds)"
      "set (add_bypass (out @ [trim_space d]) ds) = insert (trim_space d) (set out) \<union> (trim_space ` set ds - {[]})"
      "take (Suc (length out)) (add_bypass (out @ [trim_space d]) ds) = out @ [trim_space d]" by simp_all
    from arg_cong [OF *(3), of "take (length out)"] have "take (length out) (add_bypass (out @ [trim_space d]) ds) = out" by simp
    with * False show ?thesis by (auto simp: Let_def)
  qed
qed simp

lemma merge_bypass_spec:
  "distinct (merge_bypass existing extra)
    \<and> set (merge_bypass existing extra) = trim_space ` (set existing \<union> set default_bypass \<union> set extra) - {[]}"
proof -
  note a = add_bypass_spec [of "[]" existing]
  note b = add_bypass_spec [of "add_bypass [] existing" default_bypass]
  note c = add_bypass_spec [of "add_bypass (add_bypass [] existing) default_bypass" extra]
  from a b c show ?thesis by (auto simp: merge_bypass_def)
qed

section \<open>The machine\<close>

datatype effect =
    Ran string "string list"
  | WroteState string
  | RemovedState

record machine =
  mc_history :: "effect list"
  mc_file :: "string option"

record sysproxy_lib =
  sl_supported :: bool
  sl_run :: "effect list \<Rightarrow> string \<Rightarrow> string list \<Rightarrow> cmd_error + string"
  sl_read_error :: "effect list \<Rightarrow> string option"
  sl_write_error :: "effect list \<Rightarrow> string option"
  sl_remove_error :: "effect list \<Rightarrow> string option"
  sl_now :: gotime
  sl_encode :: "snapshot \<Rightarrow> string"
  sl_decode :: "string \<Rightarrow> string + snapshot"

type_synonym 'a step = "machine \<Rightarrow> (sp_error + 'a) \<times> machine"

definition step_then :: "'a step \<Rightarrow> ('a \<Rightarrow> 'b step) \<Rightarrow> 'b step" where
  "step_then s f m = (case s m of (Inl e, m1) \<Rightarrow> (Inl e, m1) | (Inr a, m1) \<Rightarrow> f a m1)"

definition networksetup :: string where "networksetup = ''/usr/sbin/networksetup''"

definition osascript :: string where "osascript = ''/usr/bin/osascript''"

definition run_cmd :: "sysproxy_lib \<Rightarrow> string \<Rightarrow> string list \<Rightarrow> machine \<Rightarrow> (cmd_error + string) \<times> machine" where
  "run_cmd lib name args m =
     (sl_run lib (mc_history m) name args, m\<lparr>mc_history := mc_history m @ [Ran name args]\<rparr>)"

definition ask_tool :: "sysproxy_lib \<Rightarrow> string list \<Rightarrow> (cmd_error \<Rightarrow> sp_error) \<Rightarrow> string step" where
  "ask_tool lib args wrap m = (case run_cmd lib networksetup args m of (Inl e, m1) \<Rightarrow> (Inl (wrap e), m1) | (Inr out, m1) \<Rightarrow> (Inr out, m1))"

definition list_services :: "sysproxy_lib \<Rightarrow> string list step" where
  "list_services lib = step_then (ask_tool lib [''-listallnetworkservices''] ListServices) (\<lambda>out m. (Inr (parse_services out), m))"

fun output_error :: "string \<Rightarrow> string \<Rightarrow> sp_error \<Rightarrow> sp_error" where
  "output_error op service (BadOutput _ _ out) = BadOutput op service out"
| "output_error op service e = e"

definition get_proxy :: "sysproxy_lib \<Rightarrow> string \<Rightarrow> string \<Rightarrow> proxy_setting step" where
  "get_proxy lib op service =
     step_then (ask_tool lib [op, service] QueryFailed)
       (\<lambda>out m. (case parse_proxy out of Inl e \<Rightarrow> Inl (output_error op service e) | Inr p \<Rightarrow> Inr p, m))"

definition get_auto :: "sysproxy_lib \<Rightarrow> string \<Rightarrow> auto_proxy step" where
  "get_auto lib service =
     step_then (ask_tool lib [''-getautoproxyurl'', service] QueryFailed)
       (\<lambda>out. step_then (ask_tool lib [''-getproxyautodiscovery'', service] QueryFailed)
         (\<lambda>disc m. (Inr ((parse_auto_proxy out)\<lparr>ap_discovery := parse_discovery disc\<rparr>), m)))"

section \<open>Capturing the settings\<close>

definition capture_service :: "sysproxy_lib \<Rightarrow> string \<Rightarrow> service_state step" where
  "capture_service lib name =
     step_then (get_proxy lib ''-getwebproxy'' name) (\<lambda>web.
     step_then (get_proxy lib ''-getsecurewebproxy'' name) (\<lambda>secure.
     step_then (ask_tool lib [''-getproxybypassdomains'', name] QueryFailed) (\<lambda>out.
     step_then (get_auto lib name) (\<lambda>auto m.
       (Inr \<lparr>sv_name = name, sv_web = web, sv_secure = secure, sv_bypass = parse_bypass out, sv_auto = Some auto\<rparr>, m)))))"

fun capture_services :: "sysproxy_lib \<Rightarrow> string list \<Rightarrow> service_state list step" where
  "capture_services lib [] m = (Inr [], m)"
| "capture_services lib (n # ns) m =
     step_then (capture_service lib n) (\<lambda>svc. step_then (capture_services lib ns) (\<lambda>svcs m. (Inr (svc # svcs), m))) m"

definition capture_snapshot :: "sysproxy_lib \<Rightarrow> string \<Rightarrow> int \<Rightarrow> snapshot step" where
  "capture_snapshot lib host port =
     step_then (list_services lib) (\<lambda>names.
       if names = [] then (\<lambda>m. (Inl NoServices, m))
       else step_then (capture_services lib names) (\<lambda>svcs m.
         (Inr \<lparr>sn_version = snapshot_version, sn_set_at = sl_now lib, sn_pano = \<lparr>ep_host = host, ep_port = port\<rparr>,
           sn_services = svcs, sn_admin = False\<rparr>, m)))"

section \<open>The state file\<close>

definition read_snapshot :: "sysproxy_lib \<Rightarrow> machine \<Rightarrow> sp_error + snapshot option" where
  "read_snapshot lib m =
     (case mc_file m of
        None \<Rightarrow> Inr None
      | Some b \<Rightarrow>
          (case sl_read_error lib (mc_history m) of
             Some e \<Rightarrow> Inl (ReadState e)
           | None \<Rightarrow>
               (case sl_decode lib b of
                  Inl e \<Rightarrow> Inl (ParseState e)
                | Inr s \<Rightarrow> if sn_version s \<noteq> snapshot_version then Inl (BadVersion (sn_version s)) else Inr (Some s))))"

text \<open>The file is replaced atomically: after an error the previous one is still there.\<close>

definition write_snapshot :: "sysproxy_lib \<Rightarrow> snapshot \<Rightarrow> unit step" where
  "write_snapshot lib s m =
     (case sl_write_error lib (mc_history m) of
        Some e \<Rightarrow> (Inl (WriteState e), m)
      | None \<Rightarrow> (let b = sl_encode lib s in (Inr (), m\<lparr>mc_history := mc_history m @ [WroteState b], mc_file := Some b\<rparr>)))"

section \<open>Enable\<close>

definition set_admin :: "sysproxy_lib \<Rightarrow> string list \<Rightarrow> machine \<Rightarrow> (bool \<times> sp_error option) \<times> machine" where
  "set_admin lib args m =
     (case run_cmd lib osascript [''-e'', admin_script networksetup args] m of
        (Inr _, m1) \<Rightarrow> ((True, None), m1)
      | (Inl e, m1) \<Rightarrow> ((True, Some (SetFailed (hd args) True e)), m1))"

definition set_command :: "sysproxy_lib \<Rightarrow> bool \<Rightarrow> string list \<Rightarrow> machine \<Rightarrow> (bool \<times> sp_error option) \<times> machine" where
  "set_command lib admin args m =
     (if admin then set_admin lib args m
      else case run_cmd lib networksetup args m of
             (Inr _, m1) \<Rightarrow> ((False, None), m1)
           | (Inl e, m1) \<Rightarrow>
               if is_permission_error e then set_admin lib args m1 else ((False, Some (SetFailed (hd args) False e)), m1))"

definition enable_commands :: "service_state \<Rightarrow> string \<Rightarrow> int \<Rightarrow> string list \<Rightarrow> string list list" where
  "enable_commands svc host port bypass =
     [[''-setwebproxy'', sv_name svc, host, itoa port],
      [''-setsecurewebproxy'', sv_name svc, host, itoa port],
      [''-setproxybypassdomains'', sv_name svc] @ bypass_args (merge_bypass (sv_bypass svc) bypass),
      [''-setautoproxystate'', sv_name svc, ''off''],
      [''-setproxyautodiscovery'', sv_name svc, ''off'']]"

text \<open>The commands of a service run until the first that fails.\<close>

fun apply_commands :: "sysproxy_lib \<Rightarrow> string list list \<Rightarrow> bool \<Rightarrow> machine \<Rightarrow> bool \<times> sp_error option \<times> machine" where
  "apply_commands lib [] admin m = (admin, None, m)"
| "apply_commands lib (c # cs) admin m =
     (let ((used, err), m1) = set_command lib admin c m in
      case err of
        Some e \<Rightarrow> (admin \<or> used, Some e, m1)
      | None \<Rightarrow> apply_commands lib cs (admin \<or> used) m1)"

fun apply_services ::
  "sysproxy_lib \<Rightarrow> string \<Rightarrow> int \<Rightarrow> string list \<Rightarrow> service_state list \<Rightarrow> bool \<Rightarrow> machine \<Rightarrow> bool \<times> sp_error list \<times> machine" where
  "apply_services lib host port bypass [] admin m = (admin, [], m)"
| "apply_services lib host port bypass (svc # svcs) admin m =
     (let (admin1, err, m1) = apply_commands lib (enable_commands svc host port bypass) admin m;
          (admin2, errs, m2) = apply_services lib host port bypass svcs admin1 m1
      in (admin2, (case err of None \<Rightarrow> errs | Some e \<Rightarrow> ForService (sv_name svc) e # errs), m2))"

text \<open>A snapshot of an earlier version has no automatic settings: they are captured now where possible.\<close>

fun fill_auto :: "sysproxy_lib \<Rightarrow> service_state list \<Rightarrow> machine \<Rightarrow> service_state list \<times> machine" where
  "fill_auto lib [] m = ([], m)"
| "fill_auto lib (svc # svcs) m =
     (case sv_auto svc of
        Some _ \<Rightarrow> (let (rest, m1) = fill_auto lib svcs m in (svc # rest, m1))
      | None \<Rightarrow>
          (let (r, m1) = get_auto lib (sv_name svc) m;
               svc' = (case r of Inl _ \<Rightarrow> svc | Inr a \<Rightarrow> svc\<lparr>sv_auto := Some a\<rparr>);
               (rest, m2) = fill_auto lib svcs m1
           in (svc' # rest, m2)))"

definition prepare :: "sysproxy_lib \<Rightarrow> string \<Rightarrow> int \<Rightarrow> snapshot option \<Rightarrow> snapshot step" where
  "prepare lib host port found m =
     (case found of
        None \<Rightarrow> capture_snapshot lib host port m
      | Some s \<Rightarrow>
          (let (svcs, m1) = fill_auto lib (sn_services s) m
           in (Inr (s\<lparr>sn_pano := \<lparr>ep_host = host, ep_port = port\<rparr>, sn_services := svcs\<rparr>), m1)))"

definition note_admin :: "sysproxy_lib \<Rightarrow> snapshot \<Rightarrow> bool \<Rightarrow> sp_error list \<Rightarrow> machine \<Rightarrow> sp_error list \<times> machine" where
  "note_admin lib s admin errs m =
     (if admin \<and> \<not> sn_admin s then
        (case write_snapshot lib (s\<lparr>sn_admin := True\<rparr>) m of
           (Inl e, m1) \<Rightarrow> (errs @ [e], m1)
         | (Inr _, m1) \<Rightarrow> (errs, m1))
      else (errs, m))"

definition apply_snapshot :: "sysproxy_lib \<Rightarrow> string \<Rightarrow> int \<Rightarrow> string list \<Rightarrow> snapshot \<Rightarrow> unit step" where
  "apply_snapshot lib host port bypass s m =
     (let (admin, errs, m1) = apply_services lib host port bypass (sn_services s) (sn_admin s) m;
          (errs', m2) = note_admin lib s admin errs m1
      in (if errs' \<noteq> [] then Inl (EnableIncomplete errs') else Inr (), m2))"

definition enable_proxy :: "sysproxy_lib \<Rightarrow> string \<Rightarrow> int \<Rightarrow> string list \<Rightarrow> unit step" where
  "enable_proxy lib host port bypass m =
     (if host = [] \<or> port \<le> 0 \<or> port > 65535 then (Inl (InvalidAddress host port), m)
      else if \<not> sl_supported lib then (Inl ToolMissing, m)
      else case read_snapshot lib m of
             Inl e \<Rightarrow> (Inl e, m)
           | Inr found \<Rightarrow>
               step_then (prepare lib host port found)
                 (\<lambda>s. step_then (write_snapshot lib s) (\<lambda>_. apply_snapshot lib host port bypass s)) m)"

section \<open>Disable\<close>

definition restore_commands :: "service_state \<Rightarrow> string list list" where
  "restore_commands svc =
     (if ps_enabled (sv_web svc)
      then [[''-setwebproxy'', sv_name svc, ps_server (sv_web svc), itoa (ps_port (sv_web svc))],
            [''-setwebproxystate'', sv_name svc, ''on'']]
      else [[''-setwebproxystate'', sv_name svc, ''off'']])
     @ (if ps_enabled (sv_secure svc)
        then [[''-setsecurewebproxy'', sv_name svc, ps_server (sv_secure svc), itoa (ps_port (sv_secure svc))],
              [''-setsecurewebproxystate'', sv_name svc, ''on'']]
        else [[''-setsecurewebproxystate'', sv_name svc, ''off'']])
     @ [[''-setproxybypassdomains'', sv_name svc] @ bypass_args (sv_bypass svc)]
     @ (case sv_auto svc of
          None \<Rightarrow> []
        | Some a \<Rightarrow>
            (if ap_url a \<noteq> [] then [[''-setautoproxyurl'', sv_name svc, ap_url a]] else [])
            @ [[''-setautoproxystate'', sv_name svc, on_off (ap_enabled a \<and> ap_url a \<noteq> [])],
               [''-setproxyautodiscovery'', sv_name svc, on_off (ap_discovery a)]])"

text \<open>An error does not stop the commands that follow, unless the service is gone: then its errors are dropped.\<close>

fun restore_service ::
  "sysproxy_lib \<Rightarrow> string \<Rightarrow> string list list \<Rightarrow> bool \<Rightarrow> sp_error list \<Rightarrow> machine \<Rightarrow> bool \<times> sp_error list \<times> machine" where
  "restore_service lib name [] admin errs m = (admin, errs, m)"
| "restore_service lib name (c # cs) admin errs m =
     (let ((used, err), m1) = set_command lib admin c m in
      case err of
        None \<Rightarrow> restore_service lib name cs (admin \<or> used) errs m1
      | Some e \<Rightarrow>
          if is_missing_service e then (admin \<or> used, [], m1)
          else restore_service lib name cs (admin \<or> used) (errs @ [ForService name e]) m1)"

fun restore_services :: "sysproxy_lib \<Rightarrow> service_state list \<Rightarrow> bool \<Rightarrow> machine \<Rightarrow> sp_error list \<times> machine" where
  "restore_services lib [] admin m = ([], m)"
| "restore_services lib (svc # svcs) admin m =
     (let (admin1, errs, m1) = restore_service lib (sv_name svc) (restore_commands svc) admin [] m;
          (errs', m2) = restore_services lib svcs admin1 m1
      in (errs @ errs', m2))"

text \<open>Whether a snapshot was found, and the error.\<close>

definition restore_locked :: "sysproxy_lib \<Rightarrow> machine \<Rightarrow> (bool \<times> sp_error option) \<times> machine" where
  "restore_locked lib m =
     (case read_snapshot lib m of
        Inl e \<Rightarrow> ((False, Some e), m)
      | Inr None \<Rightarrow> ((False, None), m)
      | Inr (Some s) \<Rightarrow>
          (let (errs, m1) = restore_services lib (sn_services s) (sn_admin s) m in
           if errs \<noteq> [] then ((True, Some (RestoreIncomplete errs)), m1)
           else case sl_remove_error lib (mc_history m1) of
                  Some e \<Rightarrow> ((True, Some (RemoveState e)), m1)
                | None \<Rightarrow> ((True, None), m1\<lparr>mc_history := mc_history m1 @ [RemovedState], mc_file := None\<rparr>)))"

definition disable_proxy :: "sysproxy_lib \<Rightarrow> machine \<Rightarrow> sp_error option \<times> machine" where
  "disable_proxy lib m = (let ((_, err), m1) = restore_locked lib m in (err, m1))"

definition restore_stale :: "sysproxy_lib \<Rightarrow> machine \<Rightarrow> (bool \<times> sp_error option) \<times> machine" where
  "restore_stale lib = restore_locked lib"

text \<open>\<open>Supported\<close>, and the manager of other systems.\<close>

definition unsupported_enable :: "string \<Rightarrow> int \<Rightarrow> string list \<Rightarrow> unit step" where
  "unsupported_enable host port bypass m = (Inl Unsupported, m)"

definition unsupported_disable :: "machine \<Rightarrow> sp_error option \<times> machine" where
  "unsupported_disable m = (None, m)"

definition unsupported_restore :: "machine \<Rightarrow> (bool \<times> sp_error option) \<times> machine" where
  "unsupported_restore m = ((False, None), m)"

section \<open>Status\<close>

record sys_proxy =
  xp_supported :: bool
  xp_enabled :: bool
  xp_set_by_pano :: bool
  xp_services :: "string list"
  xp_detail :: string

definition plural_services :: "string list \<Rightarrow> string" where
  "plural_services names =
     (if length names = 1 then ''1 service ('' @ hd names @ '')''
      else itoa (int (length names)) @ '' services ('' @ str_join '', '' names @ '')'')"

text \<open>What is found of each service: those that point at the address, those with an automatic
  configuration, and the errors; a service with an error is left out from there on.\<close>

definition auto_label :: "string \<Rightarrow> auto_proxy \<Rightarrow> string" where
  "auto_label name a = (if ap_url a \<noteq> [] then name @ '' ('' @ ap_url a @ '')'' else name)"

fun look_at :: "sysproxy_lib \<Rightarrow> string \<Rightarrow> int \<Rightarrow> string list \<Rightarrow> machine \<Rightarrow> (string list \<times> string list \<times> sp_error list) \<times> machine" where
  "look_at lib host port [] m = (([], [], []), m)"
| "look_at lib host port (n # ns) m =
     (let (web, m1) = get_proxy lib ''-getwebproxy'' n m in
      case web of
        Inl e \<Rightarrow> (let ((p, a, es), m') = look_at lib host port ns m1 in ((p, a, e # es), m'))
      | Inr w \<Rightarrow>
          (let (secure, m2) = get_proxy lib ''-getsecurewebproxy'' n m1 in
           case secure of
             Inl e \<Rightarrow> (let ((p, a, es), m') = look_at lib host port ns m2 in ((p, a, e # es), m'))
           | Inr s \<Rightarrow>
               (let here = (if points_at w host port \<or> points_at s host port then [n] else []);
                    (out, m3) = ask_tool lib [''-getautoproxyurl'', n] QueryFailed m2;
                    ((p, a, es), m') = look_at lib host port ns m3
                in case out of
                     Inl e \<Rightarrow> ((here @ p, a, e # es), m')
                   | Inr t \<Rightarrow>
                       (let auto = parse_auto_proxy t in
                        ((here @ p, (if ap_enabled auto then [auto_label n auto] else []) @ a, es), m')))))"

definition arrow :: string where "arrow = [CHR 0xE2, CHR 0x86, CHR 0x92]"

definition dash :: string where "dash = [CHR 0xE2, CHR 0x80, CHR 0x94]"

definition auto_turned_off :: "service_state list \<Rightarrow> string list" where
  "auto_turned_off svcs =
     List.map sv_name (filter (\<lambda>svc. case sv_auto svc of None \<Rightarrow> False | Some a \<Rightarrow> ap_enabled a \<or> ap_discovery a) svcs)"

definition status_detail :: "string \<Rightarrow> snapshot option \<Rightarrow> string list \<Rightarrow> string list \<Rightarrow> string" where
  "status_detail target found pointing pacs =
     (if pointing \<noteq> [] then plural_services pointing @ '' '' @ arrow @ '' '' @ target
      else if found \<noteq> None then
        ''state file present but no service points at '' @ target @ '' (stale; run `pano doctor`)''
      else ''no service points at '' @ target)
     @ (if pacs \<noteq> [] then
          ''; auto proxy config (PAC) is ON for '' @ str_join '', '' pacs @ '' '' @ dash
          @ '' it overrides pano in Chrome and most apps; re-run `pano on` to turn it off''
        else case found of
          Some s \<Rightarrow>
            (let offed = auto_turned_off (sn_services s) in
             if pointing \<noteq> [] \<and> offed \<noteq> [] then
               ''; auto proxy config turned off on '' @ str_join '', '' offed @ '' '' @ dash @ '' `pano off` restores it''
             else [])
        | None \<Rightarrow> [])"

text \<open>\<open>canceled\<close>: the error of the context, if it is over. The result carries errors beside the status.\<close>

definition proxy_status ::
  "sysproxy_lib \<Rightarrow> (sp_error \<Rightarrow> string) \<Rightarrow> string option \<Rightarrow> string \<Rightarrow> int \<Rightarrow> machine \<Rightarrow> (sys_proxy \<times> sp_error list) \<times> machine" where
  "proxy_status lib text canceled host port m =
     (let st = \<lparr>xp_supported = sl_supported lib, xp_enabled = False, xp_set_by_pano = False, xp_services = [], xp_detail = []\<rparr> in
      case read_snapshot lib m of
        Inl e \<Rightarrow> ((st\<lparr>xp_detail := text e\<rparr>, [e]), m)
      | Inr found \<Rightarrow>
          (let st1 = (case found of None \<Rightarrow> st
                      | Some s \<Rightarrow> st\<lparr>xp_set_by_pano := True, xp_services := List.map sv_name (sn_services s)\<rparr>) in
           if \<not> sl_supported lib then ((st1\<lparr>xp_detail := networksetup @ '' not found''\<rparr>, []), m)
           else case canceled of
             Some e \<Rightarrow> ((st1\<lparr>xp_detail := ''current settings not queried: '' @ e\<rparr>, []), m)
           | None \<Rightarrow>
               (case list_services lib m of
                  (Inl e, m1) \<Rightarrow> ((st1\<lparr>xp_detail := text e\<rparr>, [e]), m1)
                | (Inr names, m1) \<Rightarrow>
                    (let ((pointing, pacs, errs), m2) = look_at lib host port names m1;
                         target = endpoint_string \<lparr>ep_host = host, ep_port = port\<rparr>;
                         st2 = st1\<lparr>xp_enabled := pointing \<noteq> [], xp_detail := status_detail target found pointing pacs\<rparr>
                     in ((if pointing \<noteq> [] then st2\<lparr>xp_services := pointing\<rparr> else st2, errs), m2)))))"

section \<open>Properties\<close>

text \<open>The script run with administrator privileges runs exactly the command meant: whatever the arguments
  hold (quotes, backslashes, spaces, dollar signs), the shell that AppleScript starts splits its text
  back into the program and its arguments, and interprets none of their characters.\<close>

theorem admin_script_exact:
  "\<exists>body. admin_script name args = ''do shell script '' @ [CHR 0x22] @ body @ [CHR 0x22] @ '' with administrator privileges''
    \<and> shell_words False None (apple_script_text (body @ [CHR 0x22] @ '' with administrator privileges'')) = Some (name # args)"
  using apple_script_text_escape [of "admin_command name args" "'' with administrator privileges''"]
  by (intro exI [of _ "apple_script_escape (admin_command name args)"])
    (use shell_words_join [of "name # args"] in \<open>simp add: admin_script_def admin_command_def\<close>)

end
