(* ===== verification/Sysproxy_Restore.thy ===== *)
theory Sysproxy_Restore
  imports Sysproxy "HOL-Library.Countable"
begin

text \<open>
  What is promised about the system proxy (\<open>internal/sysproxy\<close>): the state file is there before anything is
  changed, it keeps the settings that predate pano however often the proxy is enabled, restoring
  attempts every command and keeps the file on failure, and on a machine where \<open>networksetup\<close> does what
  its manual says, disabling undoes enabling.
\<close>

section \<open>The effects of the operations\<close>

definition ran :: "(effect \<Rightarrow> bool) \<Rightarrow> machine \<Rightarrow> machine \<Rightarrow> bool" where
  "ran P m m' = (\<exists>es. mc_history m' = mc_history m @ es \<and> list_all P es \<and> mc_file m' = mc_file m)"

lemma ran_refl [simp, intro]: "ran P m m"
  by (simp add: ran_def)

lemma ran_trans: "ran P m m1 \<Longrightarrow> ran P m1 m2 \<Longrightarrow> ran P m m2"
  unfolding ran_def by (metis append_assoc list_all_append)

lemma ran_mono: "ran P m m' \<Longrightarrow> (\<And>e. P e \<Longrightarrow> Q e) \<Longrightarrow> ran Q m m'"
  unfolding ran_def by (metis list.pred_mono_strong)

definition query_names :: "string list" where
  "query_names = [''-listallnetworkservices'', ''-getwebproxy'', ''-getsecurewebproxy'', ''-getproxybypassdomains'',
     ''-getautoproxyurl'', ''-getproxyautodiscovery'']"

fun is_query :: "effect \<Rightarrow> bool" where
  "is_query (Ran name args) = (name = networksetup \<and> args \<noteq> [] \<and> hd args \<in> set query_names)"
| "is_query _ = False"

fun is_change :: "effect \<Rightarrow> bool" where
  "is_change (Ran name args) = (\<not> is_query (Ran name args))"
| "is_change _ = False"

text \<open>A command tried directly or with privileges.\<close>

definition tries :: "string list \<Rightarrow> effect \<Rightarrow> bool" where
  "tries c e = (e = Ran networksetup c \<or> e = Ran osascript [''-e'', admin_script networksetup c])"

lemma run_cmd_ran: "run_cmd lib name args m = (r, m') \<Longrightarrow> ran (\<lambda>e. e = Ran name args) m m'"
  by (auto simp: run_cmd_def ran_def)

lemma step_then_ran:
  assumes "step_then s f m = (r, m')" and "\<And>r1 m1. s m = (r1, m1) \<Longrightarrow> ran P m m1"
    and "\<And>a m1. s m = (Inr a, m1) \<Longrightarrow> f a m1 = (r, m') \<Longrightarrow> ran P m1 m'"
  shows "ran P m m'"
  using assms ran_trans by (fastforce simp: step_then_def split: prod.splits sum.splits)

lemma query_ran: "ask_tool lib args wrap m = (r, m') \<Longrightarrow> args \<noteq> [] \<Longrightarrow> hd args \<in> set query_names \<Longrightarrow> ran is_query m m'"
  using run_cmd_ran ran_mono [of "\<lambda>e. e = Ran networksetup args" m m' is_query]
  by (fastforce simp: ask_tool_def split: prod.splits sum.splits)

lemma list_services_ran: "list_services lib m = (r, m') \<Longrightarrow> ran is_query m m'"
  unfolding list_services_def by (erule step_then_ran) (auto dest: query_ran simp: query_names_def)

lemma get_proxy_ran: "get_proxy lib op name m = (r, m') \<Longrightarrow> op \<in> set query_names \<Longrightarrow> ran is_query m m'"
  unfolding get_proxy_def by (erule step_then_ran) (auto dest: query_ran)

lemma get_auto_ran: "get_auto lib name m = (r, m') \<Longrightarrow> ran is_query m m'"
  unfolding get_auto_def
  by (erule step_then_ran) (auto dest: query_ran simp: query_names_def elim!: step_then_ran)

lemma capture_service_ran: "capture_service lib name m = (r, m') \<Longrightarrow> ran is_query m m'"
  unfolding capture_service_def
  by (elim step_then_ran) (auto dest: query_ran get_proxy_ran get_auto_ran simp: query_names_def)

lemma capture_services_ran: "capture_services lib ns m = (r, m') \<Longrightarrow> ran is_query m m'"
proof (induction ns arbitrary: m r m')
  case (Cons n ns)
  from Cons.prems show ?case
    unfolding capture_services.simps by (elim step_then_ran) (auto dest: capture_service_ran Cons.IH)
qed simp

lemma capture_snapshot_ran: "capture_snapshot lib host port m = (r, m') \<Longrightarrow> ran is_query m m'"
  unfolding capture_snapshot_def
  by (erule step_then_ran) (auto dest: list_services_ran capture_services_ran elim!: step_then_ran split: if_splits)

lemma fill_auto_ran: "fill_auto lib svcs m = (r, m') \<Longrightarrow> ran is_query m m'"
proof (induction svcs arbitrary: m r m')
  case (Cons svc svcs)
  show ?case
  proof (cases "sv_auto svc")
    case None
    obtain a m1 where a: "get_auto lib (sv_name svc) m = (a, m1)" by fastforce
    obtain rest m2 where f: "fill_auto lib svcs m1 = (rest, m2)" by fastforce
    from Cons.prems None a f have "m' = m2" by simp
    with get_auto_ran [OF a] Cons.IH [OF f] show ?thesis by (auto intro: ran_trans)
  next
    case (Some x)
    obtain rest m1 where f: "fill_auto lib svcs m = (rest, m1)" by fastforce
    from Cons.prems Some f Cons.IH [OF f] show ?thesis by simp
  qed
qed simp

lemma prepare_ran: "prepare lib host port found m = (r, m') \<Longrightarrow> ran is_query m m'"
  by (auto simp: prepare_def dest: capture_snapshot_ran fill_auto_ran split: option.splits prod.splits)

lemma set_admin_ran: "set_admin lib c m = (r, m') \<Longrightarrow> ran (tries c) m m'"
  using ran_mono [of "\<lambda>e. e = Ran osascript [''-e'', admin_script networksetup c]" m m' "tries c"]
  by (auto simp: set_admin_def tries_def dest!: run_cmd_ran split: prod.splits sum.splits)

lemma set_command_ran: "set_command lib admin c m = (r, m') \<Longrightarrow> ran (tries c) m m'"
proof (cases admin)
  case False
  assume *: "set_command lib admin c m = (r, m')"
  obtain x m1 where x: "run_cmd lib networksetup c m = (x, m1)" by fastforce
  have "ran (tries c) m m1" using run_cmd_ran [OF x] by (rule ran_mono) (simp add: tries_def)
  with * False x show ?thesis
    by (auto simp: set_command_def split: sum.splits if_splits intro: ran_trans set_admin_ran)
qed (simp add: set_command_def set_admin_ran)

definition tries_any :: "string list list \<Rightarrow> effect \<Rightarrow> bool" where
  "tries_any cs e = list_ex (\<lambda>c. tries c e) cs"

lemma tries_any_mono: "tries_any cs e \<Longrightarrow> set cs \<subseteq> set ds \<Longrightarrow> tries_any ds e"
  by (auto simp: tries_any_def list_ex_iff)

lemma set_command_ran_any: "set_command lib admin c m = (r, m') \<Longrightarrow> c \<in> set cs \<Longrightarrow> ran (tries_any cs) m m'"
  by (rule ran_mono [OF set_command_ran]) (auto simp: tries_any_def list_ex_iff)

lemma apply_commands_ran: "apply_commands lib cs admin m = (a, r, m') \<Longrightarrow> ran (tries_any cs) m m'"
proof (induction cs arbitrary: admin m a r m')
  case (Cons c cs)
  obtain used err m1 where c: "set_command lib admin c m = ((used, err), m1)" by (metis surj_pair)
  have first: "ran (tries_any (c # cs)) m m1" using c by (rule set_command_ran_any) simp
  show ?case
  proof (cases err)
    case None
    with Cons.prems c have "apply_commands lib cs (admin \<or> used) m1 = (a, r, m')" by simp
    from Cons.IH [OF this] have "ran (tries_any (c # cs)) m1 m'" by (rule ran_mono) (auto elim: tries_any_mono)
    with first show ?thesis by (rule ran_trans)
  next
    case (Some e)
    with Cons.prems c first show ?thesis by simp
  qed
qed simp

lemma apply_services_ran:
  "apply_services lib host port bypass svcs admin m = (a, errs, m')
    \<Longrightarrow> ran (tries_any (concat (List.map (\<lambda>svc. enable_commands svc host port bypass) svcs))) m m'"
proof (induction svcs arbitrary: admin m a errs m')
  case (Cons svc svcs)
  let ?cs = "\<lambda>svcs. concat (List.map (\<lambda>svc. enable_commands svc host port bypass) svcs)"
  obtain a1 e1 m1 where c: "apply_commands lib (enable_commands svc host port bypass) admin m = (a1, e1, m1)" by (metis surj_pair)
  obtain a2 e2 m2 where r: "apply_services lib host port bypass svcs a1 m1 = (a2, e2, m2)" by (metis surj_pair)
  have "ran (tries_any (?cs (svc # svcs))) m m1" by (rule ran_mono [OF apply_commands_ran [OF c]]) (auto elim: tries_any_mono)
  moreover have "ran (tries_any (?cs (svc # svcs))) m1 m2" by (rule ran_mono [OF Cons.IH [OF r]]) (auto elim: tries_any_mono)
  ultimately show ?case using Cons.prems c r by (auto intro: ran_trans)
qed simp

section \<open>The state file through a crash\<close>

text \<open>The state file after some effects, and the services a restore would find in it.\<close>

fun file_after :: "string option \<Rightarrow> effect list \<Rightarrow> string option" where
  "file_after f [] = f"
| "file_after f (Ran _ _ # es) = file_after f es"
| "file_after f (WroteState b # es) = file_after (Some b) es"
| "file_after f (RemovedState # es) = file_after None es"

definition saved_services :: "sysproxy_lib \<Rightarrow> string option \<Rightarrow> service_state list option" where
  "saved_services lib f =
     (case f of
        None \<Rightarrow> None
      | Some b \<Rightarrow> (case sl_decode lib b of Inl _ \<Rightarrow> None | Inr s \<Rightarrow> if sn_version s = snapshot_version then Some (sn_services s) else None))"

definition codec_ok :: "sysproxy_lib \<Rightarrow> bool" where
  "codec_ok lib = (\<forall>s. sl_decode lib (sl_encode lib s) = Inr s)"

lemma file_after_append: "file_after f (es @ es') = file_after (file_after f es) es'"
  by (induction f es rule: file_after.induct) simp_all

definition is_ran :: "effect \<Rightarrow> bool" where
  "is_ran e = (case e of Ran _ _ \<Rightarrow> True | _ \<Rightarrow> False)"

lemma file_after_ran: "list_all is_ran es \<Longrightarrow> file_after f es = f"
  by (induction f es rule: file_after.induct) (simp_all add: is_ran_def)

lemma query_is_ran: "is_query e \<Longrightarrow> is_ran e"
  by (cases e) (simp_all add: is_ran_def)

lemma tries_is_ran: "tries_any cs e \<Longrightarrow> is_ran e"
  by (auto simp: tries_any_def list_ex_iff tries_def is_ran_def)

lemma queries_no_change: "list_all is_query es \<Longrightarrow> \<not> list_ex is_change es"
proof (induction es)
  case (Cons e es)
  then show ?case by (cases e) simp_all
qed simp

lemma write_snapshot_cases:
  assumes "write_snapshot lib s m = (r, m')"
  obtains e where "r = Inl (WriteState e)" "m' = m"
  | "r = Inr ()" "mc_history m' = mc_history m @ [WroteState (sl_encode lib s)]" "mc_file m' = Some (sl_encode lib s)"
  using assms by (auto simp: write_snapshot_def Let_def split: option.splits)

lemma note_admin_cases:
  assumes "note_admin lib s admin errs m = (errs', m')"
  obtains "m' = m"
  | "errs' = errs" "mc_history m' = mc_history m @ [WroteState (sl_encode lib (s\<lparr>sn_admin := True\<rparr>))]"
    "mc_file m' = Some (sl_encode lib (s\<lparr>sn_admin := True\<rparr>))"
proof (cases "admin \<and> \<not> sn_admin s")
  case True
  obtain r m1 where w: "write_snapshot lib (s\<lparr>sn_admin := True\<rparr>) m = (r, m1)" by fastforce
  from w show ?thesis
  proof (cases rule: write_snapshot_cases)
    case (1 e)
    with True w assms that(1) show ?thesis by (auto simp: note_admin_def)
  next
    case 2
    with True w assms that(2) show ?thesis by (auto simp: note_admin_def)
  qed
next
  case False
  with assms that(1) show ?thesis by (auto simp: note_admin_def)
qed

lemma apply_snapshot_effects:
  assumes "apply_snapshot lib host port bypass s m = (r, m')"
  shows "\<exists>changes again. mc_history m' = mc_history m @ changes @ again
    \<and> list_all (tries_any (concat (List.map (\<lambda>svc. enable_commands svc host port bypass) (sn_services s)))) changes
    \<and> again \<in> {[], [WroteState (sl_encode lib (s\<lparr>sn_admin := True\<rparr>))]}
    \<and> mc_file m' = file_after (mc_file m) again"
proof -
  obtain a errs m1 where svcs: "apply_services lib host port bypass (sn_services s) (sn_admin s) m = (a, errs, m1)" by (metis surj_pair)
  obtain errs' m2 where n: "note_admin lib s a errs m1 = (errs', m2)" by fastforce
  from assms svcs n have m2: "m' = m2" by (simp add: apply_snapshot_def)
  from apply_services_ran [OF svcs] obtain es where es: "mc_history m1 = mc_history m @ es" "mc_file m1 = mc_file m"
    "list_all (tries_any (concat (List.map (\<lambda>svc. enable_commands svc host port bypass) (sn_services s)))) es"
    by (auto simp: ran_def)
  from n show ?thesis
  proof (cases rule: note_admin_cases)
    case 1
    with es m2 show ?thesis by (intro exI [of _ es] exI [of _ "[]"]) simp
  next
    case 2
    with es m2 show ?thesis
      by (intro exI [of _ es] exI [of _ "[WroteState (sl_encode lib (s\<lparr>sn_admin := True\<rparr>))]"]) simp
  qed
qed

lemma enable_cases:
  assumes "enable_proxy lib host port bypass m = (r, m')"
  obtains e where "r = Inl e" "ran is_query m m'"
  | found s m1 where "read_snapshot lib m = Inr found" "prepare lib host port found m = (Inr s, m1)"
      "mc_history m' = mc_history m1 @ WroteState (sl_encode lib s) # drop (Suc (length (mc_history m1))) (mc_history m')"
      "apply_snapshot lib host port bypass s
         (m1\<lparr>mc_history := mc_history m1 @ [WroteState (sl_encode lib s)], mc_file := Some (sl_encode lib s)\<rparr>) = (r, m')"
proof (cases "read_snapshot lib m")
  case (Inr found)
  obtain p m1 where p: "prepare lib host port found m = (p, m1)" by fastforce
  note q = prepare_ran [OF p]
  show ?thesis
  proof (cases "host = [] \<or> port \<le> 0 \<or> port > 65535 \<or> \<not> sl_supported lib")
    case True
    with assms that(1) show ?thesis by (auto simp: enable_proxy_def split: if_splits)
  next
    case ok: False
    show ?thesis
    proof (cases p)
      case (Inl e)
      with assms ok Inr p q that(1) show ?thesis by (auto simp: enable_proxy_def step_then_def)
    next
      case (Inr s)
      show ?thesis
      proof (cases "sl_write_error lib (mc_history m1)")
        case (Some e)
        with assms ok \<open>read_snapshot lib m = Inr found\<close> p q Inr that(1) show ?thesis
          by (auto simp: enable_proxy_def step_then_def write_snapshot_def)
      next
        case None
        let ?m = "m1\<lparr>mc_history := mc_history m1 @ [WroteState (sl_encode lib s)], mc_file := Some (sl_encode lib s)\<rparr>"
        from None assms ok \<open>read_snapshot lib m = Inr found\<close> p Inr
        have a: "apply_snapshot lib host port bypass s ?m = (r, m')"
          by (auto simp: enable_proxy_def step_then_def write_snapshot_def Let_def)
        from apply_snapshot_effects [OF a] obtain es where "mc_history m' = mc_history ?m @ es" by auto
        then have "mc_history m' = mc_history m1 @ WroteState (sl_encode lib s) # drop (Suc (length (mc_history m1))) (mc_history m')"
          by simp
        with \<open>read_snapshot lib m = Inr found\<close> p Inr a that(2) show ?thesis by blast
      qed
    qed
  qed
next
  case (Inl e)
  with assms that(1) show ?thesis by (auto simp: enable_proxy_def split: if_splits)
qed

lemma prepare_version:
  assumes "read_snapshot lib m = Inr found" "prepare lib host port found m = (Inr s, m1)"
  shows "sn_version s = snapshot_version"
  using assms
  by (auto simp: read_snapshot_def prepare_def capture_snapshot_def step_then_def
      split: option.splits sum.splits prod.splits if_splits)

lemma saved_written:
  assumes "codec_ok lib" "sn_version s = snapshot_version" "list_all is_ran cs"
    and "again \<in> {[], [WroteState (sl_encode lib (s\<lparr>sn_admin := True\<rparr>))]}"
  shows "saved_services lib (file_after (Some (sl_encode lib s)) (take k (cs @ again))) = Some (sn_services s)"
proof -
  have dec: "sl_decode lib (sl_encode lib x) = Inr x" for x using assms(1) by (simp add: codec_ok_def)
  have cs: "list_all is_ran (take k cs)"
    using assms(3) by (metis append_take_drop_id list_all_append)
  have "take (k - length cs) again \<in> {[], [WroteState (sl_encode lib (s\<lparr>sn_admin := True\<rparr>))]}"
    using assms(4) by (cases "k - length cs") auto
  then show ?thesis
    using cs assms(2) by (auto simp: file_after_append file_after_ran saved_services_def dec)
qed

lemma reads_then_saved:
  assumes "codec_ok lib" "sn_version s = snapshot_version" "list_all is_query reads" "list_all is_ran cs"
    and "again \<in> {[], [WroteState (sl_encode lib (s\<lparr>sn_admin := True\<rparr>))]}"
    and "list_ex is_change (take k (reads @ WroteState (sl_encode lib s) # cs @ again))"
  shows "saved_services lib (file_after f (take k (reads @ WroteState (sl_encode lib s) # cs @ again))) = Some (sn_services s)"
proof -
  have "list_all is_query (take k reads)"
    using assms(3) by (metis append_take_drop_id list_all_append)
  note nc = queries_no_change [OF this]
  with assms(6) obtain j where j: "k - length reads = Suc j"
    by (cases "k - length reads") auto
  then have "take k reads = reads" by simp
  moreover have "list_all is_ran reads" using assms(3) query_is_ran by (metis list.pred_mono_strong)
  ultimately show ?thesis
    using j saved_written [OF assms(1,2,4,5)] by (simp add: file_after_append file_after_ran)
qed

lemma changes_of_queries: "list_all is_query es \<Longrightarrow> list_all (\<lambda>e. \<not> is_change e \<or> P e) es"
  using queries_no_change [of es] by (auto simp: list_all_iff list_ex_iff)

lemma enable_effects:
  assumes "enable_proxy lib host port bypass m = (r, m')"
  obtains new where "mc_history m' = mc_history m @ new" "list_all is_query new" "mc_file m' = mc_file m"
  | s reads changes again where "mc_history m' = mc_history m @ reads @ WroteState (sl_encode lib s) # changes @ again"
      "list_all is_query reads" "sn_version s = snapshot_version"
      "list_all (tries_any (concat (List.map (\<lambda>svc. enable_commands svc host port bypass) (sn_services s)))) changes"
      "again \<in> {[], [WroteState (sl_encode lib (s\<lparr>sn_admin := True\<rparr>))]}"
      "mc_file m' = file_after (Some (sl_encode lib s)) again"
  using assms
proof (cases rule: enable_cases)
  case (1 e)
  with that(1) show ?thesis by (auto simp: ran_def)
next
  case (2 found s m1)
  from prepare_ran [OF 2(2)] obtain reads where "mc_history m1 = mc_history m @ reads" "list_all is_query reads"
    by (auto simp: ran_def)
  moreover from apply_snapshot_effects [OF 2(4)] obtain changes again where
    "mc_history m' = mc_history m1 @ WroteState (sl_encode lib s) # changes @ again"
    "list_all (tries_any (concat (List.map (\<lambda>svc. enable_commands svc host port bypass) (sn_services s)))) changes"
    "again \<in> {[], [WroteState (sl_encode lib (s\<lparr>sn_admin := True\<rparr>))]}"
    "mc_file m' = file_after (Some (sl_encode lib s)) again" by auto
  ultimately show ?thesis using that(2) prepare_version [OF 2(1,2)] by (metis append_assoc)
qed


section \<open>The settings that predate pano\<close>

definition same_origin :: "service_state \<Rightarrow> service_state \<Rightarrow> bool" where
  "same_origin a b = (sv_name b = sv_name a \<and> sv_web b = sv_web a \<and> sv_secure b = sv_secure a \<and> sv_bypass b = sv_bypass a
     \<and> (sv_auto a = None \<or> sv_auto b = sv_auto a))"

lemma same_origin_refl [simp]: "same_origin a a"
  by (simp add: same_origin_def)

lemma same_origin_trans: "same_origin a b \<Longrightarrow> same_origin b c \<Longrightarrow> same_origin a c"
  by (auto simp: same_origin_def)

lemma fill_auto_origin: "fill_auto lib svcs m = (svcs', m') \<Longrightarrow> list_all2 same_origin svcs svcs'"
proof (induction svcs arbitrary: m svcs' m')
  case (Cons svc svcs)
  show ?case
  proof (cases "sv_auto svc")
    case None
    obtain a m1 where a: "get_auto lib (sv_name svc) m = (a, m1)" by fastforce
    obtain rest m2 where f: "fill_auto lib svcs m1 = (rest, m2)" by fastforce
    from Cons.prems None a f Cons.IH [OF f] show ?thesis by (auto simp: same_origin_def split: sum.splits)
  next
    case (Some x)
    obtain rest m1 where f: "fill_auto lib svcs m = (rest, m1)" by fastforce
    from Cons.prems Some f Cons.IH [OF f] show ?thesis by auto
  qed
qed simp

lemma saved_of_read:
  "saved_services lib (mc_file m) = Some svcs \<Longrightarrow> read_snapshot lib m = Inr found \<Longrightarrow> \<exists>s. found = Some s \<and> sn_services s = svcs"
  by (auto simp: saved_services_def read_snapshot_def split: option.splits sum.splits if_splits)

lemma enable_keeps_saved:
  assumes "codec_ok lib" "saved_services lib (mc_file m) = Some svcs"
  shows "\<exists>svcs'. saved_services lib (mc_file (snd (enable_proxy lib host port bypass m))) = Some svcs' \<and> list_all2 same_origin svcs svcs'"
proof -
  obtain r m' where e: "enable_proxy lib host port bypass m = (r, m')" by fastforce
  then show ?thesis
  proof (cases rule: enable_cases)
    case (1 err)
    with e assms(2) show ?thesis by (auto simp: ran_def list.rel_refl)
  next
    case (2 found s m1)
    from saved_of_read [OF assms(2) 2(1)] obtain s0 where s0: "found = Some s0" "sn_services s0 = svcs" by blast
    obtain svcs' m2 where f: "fill_auto lib svcs m = (svcs', m2)" by fastforce
    from 2(2) s0 f have "sn_services s = svcs'" by (auto simp: prepare_def)
    with fill_auto_origin [OF f] have o: "list_all2 same_origin svcs (sn_services s)" by simp
    from apply_snapshot_effects [OF 2(4)] obtain again where
      "again \<in> {[], [WroteState (sl_encode lib (s\<lparr>sn_admin := True\<rparr>))]}" "mc_file m' = file_after (Some (sl_encode lib s)) again" by auto
    with saved_written [OF assms(1) prepare_version [OF 2(1,2)], of "[]" again "length again"]
    have "saved_services lib (mc_file m') = Some (sn_services s)" by simp
    with o e show ?thesis by auto
  qed
qed

definition enable_all :: "sysproxy_lib \<Rightarrow> (string \<times> int \<times> string list) list \<Rightarrow> machine \<Rightarrow> machine" where
  "enable_all lib calls m = fold (\<lambda>(host, port, bypass) m. snd (enable_proxy lib host port bypass m)) calls m"

text \<open>Once a snapshot exists, enabling the proxy again, any number of times, at any address, with whatever
  failures, keeps the settings that predate pano: every service is still there with its proxies and
  bypass list, and its automatic settings once they are known.\<close>

theorem first_settings_kept:
  assumes "codec_ok lib" "saved_services lib (mc_file m) = Some svcs"
  shows "\<exists>svcs'. saved_services lib (mc_file (enable_all lib calls m)) = Some svcs' \<and> list_all2 same_origin svcs svcs'"
  using assms(2)
proof (induction calls arbitrary: m svcs)
  case Nil
  then show ?case by (auto simp: enable_all_def list.rel_refl)
next
  case (Cons call calls)
  obtain host port bypass where c: "call = (host, port, bypass)" by (metis surj_pair)
  from enable_keeps_saved [OF assms(1) Cons.prems, of host port bypass] obtain svcs1 where
    s1: "saved_services lib (mc_file (snd (enable_proxy lib host port bypass m))) = Some svcs1" "list_all2 same_origin svcs svcs1" by blast
  from Cons.IH [OF s1(1)] obtain svcs' where
    "saved_services lib (mc_file (enable_all lib calls (snd (enable_proxy lib host port bypass m)))) = Some svcs'" "list_all2 same_origin svcs1 svcs'"
    by blast
  moreover from this(2) s1(2) have "list_all2 same_origin svcs svcs'"
    by (blast intro: list_all2_trans [of same_origin same_origin same_origin] same_origin_trans)
  ultimately show ?case by (auto simp: enable_all_def c)
qed

section \<open>Restoring\<close>

text \<open>A command was tried between two histories and answered so.\<close>

definition answered :: "sysproxy_lib \<Rightarrow> effect list \<Rightarrow> effect list \<Rightarrow> string list \<Rightarrow> cmd_error + string \<Rightarrow> bool" where
  "answered lib h h' c r =
     (\<exists>h1 name args. prefix h h1 \<and> prefix (h1 @ [Ran name args]) h' \<and> tries c (Ran name args) \<and> sl_run lib h1 name args = r)"

lemma answered_mono:
  assumes "answered lib h h' c r" "prefix g h" "prefix h' g'"
  shows "answered lib g g' c r"
proof -
  from assms(1) obtain h1 name args where *: "prefix h h1" "prefix (h1 @ [Ran name args]) h'" "tries c (Ran name args)"
    "sl_run lib h1 name args = r" by (auto simp: answered_def)
  have "prefix g h1" "prefix (h1 @ [Ran name args]) g'"
    using assms(2,3) *(1,2) prefix_order.trans by blast+
  with * show ?thesis unfolding answered_def by blast
qed

lemma answered_now:
  "tries c (Ran name args) \<Longrightarrow> answered lib h (h @ [Ran name args]) c (sl_run lib h name args)"
  unfolding answered_def by (intro exI [of _ h] exI [of _ name] exI [of _ args]) simp

lemma ran_prefix: "ran P m m' \<Longrightarrow> prefix (mc_history m) (mc_history m')"
  by (auto simp: ran_def)

lemma set_admin_answered:
  assumes "set_admin lib c m = ((used, err), m')"
  shows "case err of None \<Rightarrow> \<exists>out. answered lib (mc_history m) (mc_history m') c (Inr out)
    | Some e \<Rightarrow> \<exists>x. e = SetFailed (hd c) True x \<and> answered lib (mc_history m) (mc_history m') c (Inl x)"
proof -
  have t: "tries c (Ran osascript [''-e'', admin_script networksetup c])" by (simp add: tries_def)
  from answered_now [OF t, of lib "mc_history m"] assms show ?thesis
    by (auto simp: set_admin_def run_cmd_def split: sum.splits)
qed

lemma set_command_answered:
  assumes "set_command lib admin c m = ((used, err), m')"
  shows "case err of None \<Rightarrow> \<exists>out. answered lib (mc_history m) (mc_history m') c (Inr out)
    | Some e \<Rightarrow> \<exists>b x. e = SetFailed (hd c) b x \<and> answered lib (mc_history m) (mc_history m') c (Inl x)"
proof (cases "admin \<or> (\<exists>e. sl_run lib (mc_history m) networksetup c = Inl e \<and> is_permission_error e)")
  case True
  then obtain m1 where m1: "set_admin lib c m1 = ((used, err), m')" "prefix (mc_history m) (mc_history m1)"
    using assms by (cases admin) (auto simp: set_command_def run_cmd_def)
  note mono = answered_mono [OF _ m1(2) prefix_order.refl]
  from set_admin_answered [OF m1(1)] show ?thesis by (cases err) (auto dest: mono)
next
  case False
  have t: "tries c (Ran networksetup c)" by (simp add: tries_def)
  from answered_now [OF t, of lib "mc_history m"] False assms show ?thesis
    by (auto simp: set_command_def run_cmd_def split: sum.splits)
qed

definition service_gone :: "sysproxy_lib \<Rightarrow> effect list \<Rightarrow> effect list \<Rightarrow> service_state \<Rightarrow> bool" where
  "service_gone lib h h' svc = (\<exists>c \<in> set (restore_commands svc). \<exists>x. answered lib h h' c (Inl x) \<and> cmd_missing_service x)"

definition attempted :: "sysproxy_lib \<Rightarrow> effect list \<Rightarrow> effect list \<Rightarrow> string list \<Rightarrow> bool" where
  "attempted lib h h' c = (\<exists>r. answered lib h h' c r)"

definition succeeded :: "sysproxy_lib \<Rightarrow> effect list \<Rightarrow> effect list \<Rightarrow> string list \<Rightarrow> bool" where
  "succeeded lib h h' c = (\<exists>out. answered lib h h' c (Inr out))"

text \<open>The outcome of some commands: one was told the service is gone, or all were tried and, when no error
  is reported and \<open>ok\<close> held before, all succeeded.\<close>

definition restored_as :: "sysproxy_lib \<Rightarrow> effect list \<Rightarrow> effect list \<Rightarrow> string list list \<Rightarrow> bool \<Rightarrow> sp_error list \<Rightarrow> bool" where
  "restored_as lib h h' cs ok errs =
     (list_ex (\<lambda>c. \<exists>x. answered lib h h' c (Inl x) \<and> cmd_missing_service x) cs
      \<or> list_all (attempted lib h h') cs \<and> (errs = [] \<longrightarrow> ok \<and> list_all (succeeded lib h h') cs))"

lemma restored_as_mono:
  assumes "restored_as lib h h' cs ok errs" "prefix g h" "prefix h' g'"
  shows "restored_as lib g g' cs ok errs"
proof -
  have mono: "answered lib h h' c r \<Longrightarrow> answered lib g g' c r" for c r
    using assms(2,3) answered_mono by blast
  then have "attempted lib h h' c \<Longrightarrow> attempted lib g g' c" "succeeded lib h h' c \<Longrightarrow> succeeded lib g g' c" for c
    unfolding attempted_def succeeded_def by blast+
  with mono assms(1) show ?thesis unfolding restored_as_def list_all_iff list_ex_iff by blast
qed

lemma restored_as_Cons:
  assumes "restored_as lib h1 h' cs ok1 errs" "prefix h h1" "attempted lib h h' c" "ok1 \<Longrightarrow> ok \<and> succeeded lib h h' c"
  shows "restored_as lib h h' (c # cs) ok errs"
proof -
  from assms(1,2) have "restored_as lib h h' cs ok1 errs" by (rule restored_as_mono) simp
  with assms(3,4) show ?thesis by (auto simp: restored_as_def)
qed

lemma restore_service_ran:
  "restore_service lib name cs admin errs m = (a, errs', m') \<Longrightarrow> ran (tries_any cs) m m'"
proof (induction cs arbitrary: admin errs m)
  case (Cons c cs)
  obtain used err m1 where c: "set_command lib admin c m = ((used, err), m1)" by (metis surj_pair)
  have first: "ran (tries_any (c # cs)) m m1" using c by (rule set_command_ran_any) simp
  have rest: "restore_service lib name cs (admin \<or> used) es m1 = (a, errs', m') \<Longrightarrow> ran (tries_any (c # cs)) m m'" for es
    using ran_mono [OF Cons.IH] by (rule ran_trans [OF first]) (auto elim: tries_any_mono)
  show ?case
    using Cons.prems c first by (auto split: option.splits if_splits dest: rest)
qed simp

lemma restore_service_outcome:
  "restore_service lib name cs admin errs m = (a, errs', m')
    \<Longrightarrow> restored_as lib (mc_history m) (mc_history m') cs (errs = []) errs'"
proof (induction cs arbitrary: admin errs m)
  case Nil
  then show ?case by (simp add: restored_as_def)
next
  case (Cons c cs)
  obtain used err m1 where c: "set_command lib admin c m = ((used, err), m1)" by (metis surj_pair)
  have p1: "prefix (mc_history m) (mc_history m1)" using ran_prefix set_command_ran c by blast
  note p2 = ran_prefix [OF restore_service_ran]
  note ans = set_command_answered [OF c]
  show ?case
  proof (cases err)
    case None
    with Cons.prems c have r: "restore_service lib name cs (admin \<or> used) errs m1 = (a, errs', m')" by simp
    from ans None obtain out where "answered lib (mc_history m) (mc_history m1) c (Inr out)" by auto
    then have "answered lib (mc_history m) (mc_history m') c (Inr out)"
      by (rule answered_mono [OF _ prefix_order.refl p2 [OF r]])
    then show ?thesis
      by (intro restored_as_Cons [OF Cons.IH [OF r] p1]) (auto simp: attempted_def succeeded_def)
  next
    case (Some e)
    from ans Some obtain b x where x: "e = SetFailed (hd c) b x" "answered lib (mc_history m) (mc_history m1) c (Inl x)" by auto
    show ?thesis
    proof (cases "is_missing_service e")
      case True
      with Cons.prems c Some x show ?thesis by (auto simp: restored_as_def)
    next
      case False
      with Cons.prems c Some have r: "restore_service lib name cs (admin \<or> used) (errs @ [ForService name e]) m1 = (a, errs', m')" by simp
      have "answered lib (mc_history m) (mc_history m') c (Inl x)"
        by (rule answered_mono [OF x(2) prefix_order.refl p2 [OF r]])
      then show ?thesis
        by (intro restored_as_Cons [OF Cons.IH [OF r] p1]) (auto simp: attempted_def)
    qed
  qed
qed

lemma restore_services_outcome:
  "restore_services lib svcs admin m = (errs, m')
    \<Longrightarrow> list_all (\<lambda>svc. restored_as lib (mc_history m) (mc_history m') (restore_commands svc) True errs) svcs
      \<and> prefix (mc_history m) (mc_history m') \<and> mc_file m' = mc_file m"
proof (induction svcs arbitrary: admin m errs m')
  case (Cons svc svcs)
  obtain a1 e1 m1 where s: "restore_service lib (sv_name svc) (restore_commands svc) admin [] m = (a1, e1, m1)" by (metis surj_pair)
  obtain e2 m2 where r: "restore_services lib svcs a1 m1 = (e2, m2)" by fastforce
  from Cons.prems s r have eq: "errs = e1 @ e2" "m' = m2" by auto
  note p1 = ran_prefix [OF restore_service_ran [OF s]] and ih = Cons.IH [OF r]
  have weaken: "restored_as lib h h' cs True errs" if "restored_as lib h h' cs True e" "e \<in> {e1, e2}" for h h' cs e
    using that eq(1) by (auto simp: restored_as_def)
  have "restored_as lib (mc_history m) (mc_history m') (restore_commands svc) True e1"
    using restored_as_mono [OF restore_service_outcome [OF s] prefix_order.refl] ih eq(2) by simp
  then have "restored_as lib (mc_history m) (mc_history m') (restore_commands svc) True errs" by (rule weaken) simp
  moreover have "list_all (\<lambda>svc. restored_as lib (mc_history m) (mc_history m') (restore_commands svc) True errs) svcs"
  proof (rule list.pred_mono_strong)
    show "list_all (\<lambda>svc. restored_as lib (mc_history m1) (mc_history m2) (restore_commands svc) True e2) svcs" using ih by blast
  next
    fix x assume "restored_as lib (mc_history m1) (mc_history m2) (restore_commands x) True e2"
    from weaken [OF restored_as_mono [OF this p1 prefix_order.refl]] eq(2)
    show "restored_as lib (mc_history m) (mc_history m') (restore_commands x) True errs" by simp
  qed
  moreover have "prefix (mc_history m) (mc_history m')" using ih eq(2) p1 prefix_order.trans by blast
  moreover have "mc_file m1 = mc_file m" using restore_service_ran [OF s] by (auto simp: ran_def)
  ultimately show ?case using ih eq(2) by simp
qed simp

text \<open>C28: with a snapshot, Disable tries every command that restores every service, whatever fails on the way,
  except those of a service that is reported gone; it reports success only if all of them succeeded,
  and then the state file is gone; otherwise it is kept unchanged.\<close>

theorem disable_attempts_all:
  assumes "saved_services lib (mc_file m) = Some svcs" "sl_read_error lib (mc_history m) = None"
    and "disable_proxy lib m = (err, m')"
  shows "list_all (\<lambda>svc. list_ex (\<lambda>c. \<exists>x. answered lib (mc_history m) (mc_history m') c (Inl x) \<and> cmd_missing_service x) (restore_commands svc)
      \<or> list_all (attempted lib (mc_history m) (mc_history m')) (restore_commands svc)
        \<and> (err = None \<longrightarrow> list_all (succeeded lib (mc_history m) (mc_history m')) (restore_commands svc))) svcs
    \<and> mc_file m' = (if err = None then None else mc_file m)"
proof -
  from assms(1,2) obtain s where s: "read_snapshot lib m = Inr (Some s)" "sn_services s = svcs"
    by (auto simp: saved_services_def read_snapshot_def split: option.splits sum.splits if_splits)
  obtain errs m1 where r: "restore_services lib svcs (sn_admin s) m = (errs, m1)" by fastforce
  from restore_services_outcome [OF r]
  have o: "restored_as lib (mc_history m) (mc_history m1) (restore_commands svc) True errs" if "svc \<in> set svcs" for svc
    using that by (auto simp: list_all_iff)
  have p: "prefix (mc_history m1) (mc_history m')" "err = None \<Longrightarrow> errs = []" "mc_file m' = (if err = None then None else mc_file m1)"
    using assms(3) s r by (auto simp: disable_proxy_def restore_locked_def split: option.splits if_splits)
  have "restored_as lib (mc_history m) (mc_history m') (restore_commands svc) True errs" if "svc \<in> set svcs" for svc
    using restored_as_mono [OF o [OF that] prefix_order.refl p(1)] .
  with p(2) have "list_all (\<lambda>svc. list_ex (\<lambda>c. \<exists>x. answered lib (mc_history m) (mc_history m') c (Inl x) \<and> cmd_missing_service x) (restore_commands svc)
      \<or> list_all (attempted lib (mc_history m) (mc_history m')) (restore_commands svc)
        \<and> (err = None \<longrightarrow> list_all (succeeded lib (mc_history m) (mc_history m')) (restore_commands svc))) svcs"
    unfolding restored_as_def list_all_iff by blast
  with p(3) restore_services_outcome [OF r] show ?thesis by simp
qed

section \<open>Samples\<close>

text \<open>A machine with one service, a corporate proxy for http and none for https, where every command succeeds.
  The state file holds the number of the snapshot.\<close>

type_synonym service_tuple = "string \<times> (bool \<times> string \<times> int) \<times> (bool \<times> string \<times> int) \<times> string list \<times> (string \<times> bool \<times> bool) option"

definition service_tuple :: "service_state \<Rightarrow> service_tuple" where
  "service_tuple v = (sv_name v, (ps_enabled (sv_web v), ps_server (sv_web v), ps_port (sv_web v)),
     (ps_enabled (sv_secure v), ps_server (sv_secure v), ps_port (sv_secure v)), sv_bypass v,
     map_option (\<lambda>a. (ap_url a, ap_enabled a, ap_discovery a)) (sv_auto v))"

fun tuple_service :: "service_tuple \<Rightarrow> service_state" where
  "tuple_service (n, (we, ws, wp), (se, ss, sp), b, a) =
     \<lparr>sv_name = n, sv_web = \<lparr>ps_enabled = we, ps_server = ws, ps_port = wp\<rparr>,
      sv_secure = \<lparr>ps_enabled = se, ps_server = ss, ps_port = sp\<rparr>, sv_bypass = b,
      sv_auto = map_option (\<lambda>(u, e, d). \<lparr>ap_url = u, ap_enabled = e, ap_discovery = d\<rparr>) a\<rparr>"

lemma tuple_service: "tuple_service (service_tuple v) = v"
  by (cases "sv_auto v") (auto simp: service_tuple_def intro!: service_state.equality proxy_setting.equality auto_proxy.equality)

type_synonym snapshot_tuple = "int \<times> int \<times> (string \<times> int) \<times> service_tuple list \<times> bool"

definition snapshot_tuple :: "snapshot \<Rightarrow> snapshot_tuple" where
  "snapshot_tuple s = (sn_version s, sn_set_at s, (ep_host (sn_pano s), ep_port (sn_pano s)),
     List.map service_tuple (sn_services s), sn_admin s)"

fun tuple_snapshot :: "snapshot_tuple \<Rightarrow> snapshot" where
  "tuple_snapshot (v, t, (h, p), svcs, a) =
     \<lparr>sn_version = v, sn_set_at = t, sn_pano = \<lparr>ep_host = h, ep_port = p\<rparr>, sn_services = List.map tuple_service svcs, sn_admin = a\<rparr>"

lemma tuple_snapshot: "tuple_snapshot (snapshot_tuple s) = s"
  by (auto simp: snapshot_tuple_def comp_def tuple_service intro!: snapshot.equality endpoint.equality)

definition sample_proxy :: string where
  "sample_proxy = ''Enabled: Yes'' @ [CHR 0x0A] @ ''Server: proxy.corp'' @ [CHR 0x0A] @ ''Port: 8080'' @ [CHR 0x0A]
     @ ''Authenticated Proxy Enabled: 0'' @ [CHR 0x0A]"

definition sample_no_proxy :: string where
  "sample_no_proxy = ''Enabled: No'' @ [CHR 0x0A] @ ''Server: '' @ [CHR 0x0A] @ ''Port: 0'' @ [CHR 0x0A]"

definition sample_answer :: "string list \<Rightarrow> string" where
  "sample_answer args =
     (if args = [''-listallnetworkservices''] then ''An asterisk (*) denotes that a network service is disabled.'' @ [CHR 0x0A] @ ''Wi-Fi'' @ [CHR 0x0A]
      else if hd args = ''-getwebproxy'' then sample_proxy
      else if hd args = ''-getsecurewebproxy'' then sample_no_proxy
      else if hd args = ''-getproxybypassdomains'' then ''*.corp'' @ [CHR 0x0A]
      else if hd args = ''-getautoproxyurl'' then ''URL: (null)'' @ [CHR 0x0A] @ ''Enabled: No'' @ [CHR 0x0A]
      else if hd args = ''-getproxyautodiscovery'' then ''Auto Proxy Discovery: Off'' @ [CHR 0x0A]
      else [])"

definition sample_mac :: sysproxy_lib where
  "sample_mac = \<lparr>sl_supported = True, sl_run = (\<lambda>h name args. Inr (sample_answer args)), sl_read_error = (\<lambda>_. None),
     sl_write_error = (\<lambda>_. None), sl_remove_error = (\<lambda>_. None), sl_now = 5,
     sl_encode = (\<lambda>s. dec_digits (to_nat (snapshot_tuple s))),
     sl_decode = (\<lambda>b. Inr (tuple_snapshot (from_nat (digits_val b))))\<rparr>"

lemma sample_codec: "codec_ok sample_mac"
  by (simp add: codec_ok_def sample_mac_def tuple_snapshot)

definition sample_wifi :: service_state where
  "sample_wifi = \<lparr>sv_name = ''Wi-Fi'', sv_web = \<lparr>ps_enabled = True, ps_server = ''proxy.corp'', ps_port = 8080\<rparr>,
     sv_secure = \<lparr>ps_enabled = False, ps_server = [], ps_port = 0\<rparr>, sv_bypass = [''*.corp''],
     sv_auto = Some \<lparr>ap_url = [], ap_enabled = False, ap_discovery = False\<rparr>\<rparr>"

definition sample_machine :: machine where
  "sample_machine = \<lparr>mc_history = [], mc_file = None\<rparr>"

definition sample_on :: machine where
  "sample_on = \<lparr>mc_history = [], mc_file = Some (sl_encode sample_mac
     \<lparr>sn_version = 1, sn_set_at = 5, sn_pano = \<lparr>ep_host = ''127.0.0.1'', ep_port = 9091\<rparr>, sn_services = [sample_wifi], sn_admin = False\<rparr>)\<rparr>"

lemma sample_saved: "saved_services sample_mac (mc_file sample_on) = Some [sample_wifi]"
  using sample_codec by (simp add: saved_services_def sample_on_def codec_ok_def snapshot_version_def)


lemma first_settings_kept_witness:
  "\<exists>svc. saved_services sample_mac (mc_file (enable_all sample_mac [(''127.0.0.1'', 9091, []), (''::1'', 0, [])] sample_on)) = Some [svc]
    \<and> sv_web svc = sv_web sample_wifi"
proof -
  from first_settings_kept [OF sample_codec sample_saved] obtain svcs where
    s: "saved_services sample_mac (mc_file (enable_all sample_mac [(''127.0.0.1'', 9091, []), (''::1'', 0, [])] sample_on)) = Some svcs"
    "list_all2 same_origin [sample_wifi] svcs" by blast
  from s(2) obtain svc where "svcs = [svc]" "same_origin sample_wifi svc" by (auto simp: list_all2_Cons1)
  with s(1) show ?thesis by (intro exI [of _ svc]) (simp only: same_origin_def)
qed

lemma disable_attempts_all_witness:
  "\<exists>err m'. disable_proxy sample_mac sample_on = (err, m') \<and> mc_file m' = (if err = None then None else mc_file sample_on)
    \<and> list_all (attempted sample_mac (mc_history sample_on) (mc_history m')) (restore_commands sample_wifi)"
proof -
  obtain err m' where d: "disable_proxy sample_mac sample_on = (err, m')" by fastforce
  have r: "sl_read_error sample_mac (mc_history sample_on) = None" by (simp add: sample_mac_def)
  have "\<not> answered sample_mac h h' c (Inl x)" for h h' c x by (simp add: answered_def sample_mac_def)
  then have no: "\<not> list_ex (\<lambda>c. \<exists>x. answered sample_mac h h' c (Inl x) \<and> cmd_missing_service x) cs" for h h' cs
    by (auto simp: list_ex_iff)
  from disable_attempts_all [OF sample_saved r d] no
  have "list_all (attempted sample_mac (mc_history sample_on) (mc_history m')) (restore_commands sample_wifi)"
    "mc_file m' = (if err = None then None else mc_file sample_on)" by (simp_all only: list.pred_inject) blast+
  with d show ?thesis by blast
qed

end
