(* ===== verification/Sysproxy_Undo.thy ===== *)
theory Sysproxy_Undo
  imports Sysproxy_Restore
begin

text \<open>
  Disable undoes Enable on a machine where \<open>networksetup\<close> does what its manual says. The manual's
  sentences are the hypothesis \<open>networksetup_works\<close>: what each \<open>-set\<close> command makes of the settings of
  its service, that it touches no other, and that the \<open>-get\<close> commands print the settings.
\<close>

section \<open>The commands as documented\<close>

definition set_names :: "string list" where
  "set_names = [''-setwebproxy'', ''-setwebproxystate'', ''-setsecurewebproxy'', ''-setsecurewebproxystate'',
     ''-setproxybypassdomains'', ''-setautoproxyurl'', ''-setautoproxystate'', ''-setproxyautodiscovery'']"

definition documented :: "string \<Rightarrow> string list \<Rightarrow> service_state \<Rightarrow> service_state" where
  "documented op rest svc =
     (if op = ''-setwebproxy'' then svc\<lparr>sv_web := \<lparr>ps_enabled = True, ps_server = rest ! 0, ps_port = the (atoi (rest ! 1))\<rparr>\<rparr>
      else if op = ''-setwebproxystate'' then svc\<lparr>sv_web := (sv_web svc)\<lparr>ps_enabled := rest = [''on'']\<rparr>\<rparr>
      else if op = ''-setsecurewebproxy'' then svc\<lparr>sv_secure := \<lparr>ps_enabled = True, ps_server = rest ! 0, ps_port = the (atoi (rest ! 1))\<rparr>\<rparr>
      else if op = ''-setsecurewebproxystate'' then svc\<lparr>sv_secure := (sv_secure svc)\<lparr>ps_enabled := rest = [''on'']\<rparr>\<rparr>
      else if op = ''-setproxybypassdomains'' then svc\<lparr>sv_bypass := if rest = [''Empty''] then [] else rest\<rparr>
      else if op = ''-setautoproxyurl'' then svc\<lparr>sv_auto := map_option (\<lambda>a. a\<lparr>ap_url := rest ! 0, ap_enabled := True\<rparr>) (sv_auto svc)\<rparr>
      else if op = ''-setautoproxystate'' then svc\<lparr>sv_auto := map_option (\<lambda>a. a\<lparr>ap_enabled := rest = [''on'']\<rparr>) (sv_auto svc)\<rparr>
      else if op = ''-setproxyautodiscovery'' then svc\<lparr>sv_auto := map_option (\<lambda>a. a\<lparr>ap_discovery := rest = [''on'']\<rparr>) (sv_auto svc)\<rparr>
      else svc)"

text \<open>\<open>view h n\<close>: the settings of service \<open>n\<close> after the effects \<open>h\<close>.\<close>

type_synonym settings_view = "effect list \<Rightarrow> string \<Rightarrow> service_state"

definition sets_as_documented :: "sysproxy_lib \<Rightarrow> settings_view \<Rightarrow> bool" where
  "sets_as_documented lib view =
     ((\<forall>h op n rest. op \<in> set set_names \<longrightarrow>
         \<not> isl (sl_run lib h networksetup (op # n # rest))
         \<and> view (h @ [Ran networksetup (op # n # rest)]) = (view h)(n := documented op rest (view h n)))
      \<and> (\<forall>h b. view (h @ [WroteState b]) = view h \<and> view (h @ [RemovedState]) = view h))"

definition answers_as_documented :: "sysproxy_lib \<Rightarrow> effect list \<Rightarrow> string list \<Rightarrow> (string \<Rightarrow> service_state) \<Rightarrow> bool" where
  "answers_as_documented lib h names now =
     ((\<exists>out. sl_run lib h networksetup [''-listallnetworkservices''] = Inr out \<and> parse_services out = names)
      \<and> (\<forall>n \<in> set names.
           (\<exists>out. sl_run lib h networksetup [''-getwebproxy'', n] = Inr out \<and> parse_proxy out = Inr (sv_web (now n)))
         \<and> (\<exists>out. sl_run lib h networksetup [''-getsecurewebproxy'', n] = Inr out \<and> parse_proxy out = Inr (sv_secure (now n)))
         \<and> (\<exists>out. sl_run lib h networksetup [''-getproxybypassdomains'', n] = Inr out \<and> parse_bypass out = sv_bypass (now n))
         \<and> (\<exists>out out'. sl_run lib h networksetup [''-getautoproxyurl'', n] = Inr out
               \<and> sl_run lib h networksetup [''-getproxyautodiscovery'', n] = Inr out'
               \<and> sv_auto (now n) = Some ((parse_auto_proxy out)\<lparr>ap_discovery := parse_discovery out'\<rparr>))
         \<and> sv_name (now n) = n))"

text \<open>While nothing is set, the answers stay the same and the queries change nothing.\<close>

definition networksetup_works :: "sysproxy_lib \<Rightarrow> effect list \<Rightarrow> string list \<Rightarrow> settings_view \<Rightarrow> bool" where
  "networksetup_works lib h names view =
     (sets_as_documented lib view
      \<and> (\<forall>es. list_all is_query es \<longrightarrow> answers_as_documented lib (h @ es) names (view h) \<and> view (h @ es) = view h))"

definition no_io_errors :: "sysproxy_lib \<Rightarrow> bool" where
  "no_io_errors lib = (sl_supported lib \<and> (\<forall>h. sl_read_error lib h = None \<and> sl_write_error lib h = None \<and> sl_remove_error lib h = None))"

section \<open>Capturing\<close>

definition did :: "effect list \<Rightarrow> machine \<Rightarrow> machine" where
  "did es m = m\<lparr>mc_history := mc_history m @ es\<rparr>"

lemma did_simps [simp]:
  "mc_history (did es m) = mc_history m @ es" "mc_file (did es m) = mc_file m" "did [] m = m" "did fs (did es m) = did (es @ fs) m"
  by (simp_all add: did_def)

lemma run_cmd_did: "run_cmd lib name args m = (sl_run lib (mc_history m) name args, did [Ran name args] m)"
  by (simp add: run_cmd_def did_def)

definition answering :: "sysproxy_lib \<Rightarrow> string list \<Rightarrow> (string \<Rightarrow> service_state) \<Rightarrow> machine \<Rightarrow> bool" where
  "answering lib names now m = (\<forall>es. list_all is_query es \<longrightarrow> answers_as_documented lib (mc_history m @ es) names now)"

lemma answering_did [intro]: "answering lib names now m \<Longrightarrow> list_all is_query es \<Longrightarrow> answering lib names now (did es m)"
  by (simp add: answering_def)

lemma answering_now: "answering lib names now m \<Longrightarrow> answers_as_documented lib (mc_history m) names now"
  unfolding answering_def by (metis append_Nil2 list.pred_inject(1))

lemma query_did: "sl_run lib (mc_history m) networksetup args = Inr out \<Longrightarrow> ask_tool lib args wrap m = (Inr out, did [Ran networksetup args] m)"
  by (simp add: ask_tool_def run_cmd_did)

lemma list_services_answered:
  "answering lib names now m \<Longrightarrow> list_services lib m = (Inr names, did [Ran networksetup [''-listallnetworkservices'']] m)"
  by (auto simp: list_services_def step_then_def answers_as_documented_def query_did dest!: answering_now)

lemma get_proxy_answered:
  assumes "answering lib names now m" "n \<in> set names"
  shows "get_proxy lib ''-getwebproxy'' n m = (Inr (sv_web (now n)), did [Ran networksetup [''-getwebproxy'', n]] m)"
    and "get_proxy lib ''-getsecurewebproxy'' n m = (Inr (sv_secure (now n)), did [Ran networksetup [''-getsecurewebproxy'', n]] m)"
  using answering_now [OF assms(1)] assms(2)
  by (auto simp: get_proxy_def step_then_def answers_as_documented_def query_did)

lemma get_bypass_answered:
  assumes "answering lib names now m" "n \<in> set names"
  shows "\<exists>out. ask_tool lib [''-getproxybypassdomains'', n] QueryFailed m = (Inr out, did [Ran networksetup [''-getproxybypassdomains'', n]] m)
    \<and> parse_bypass out = sv_bypass (now n)"
  using answering_now [OF assms(1)] assms(2) by (auto simp: answers_as_documented_def query_did)

lemma get_auto_answered:
  assumes "answering lib names now m" "n \<in> set names"
  shows "\<exists>a. get_auto lib n m = (Inr a, did [Ran networksetup [''-getautoproxyurl'', n], Ran networksetup [''-getproxyautodiscovery'', n]] m)
    \<and> sv_auto (now n) = Some a"
proof -
  have a2: "answering lib names now (did [Ran networksetup [''-getautoproxyurl'', n]] m)"
    using assms(1) by (rule answering_did) (simp add: query_names_def)
  from answering_now [OF assms(1)] assms(2) obtain out out1 where
    1: "sl_run lib (mc_history m) networksetup [''-getautoproxyurl'', n] = Inr out"
       "sv_auto (now n) = Some ((parse_auto_proxy out)\<lparr>ap_discovery := parse_discovery out1\<rparr>)"
    by (auto simp: answers_as_documented_def)
  from answering_now [OF a2] assms(2) obtain out2 out' where
    2: "sl_run lib (mc_history m @ [Ran networksetup [''-getautoproxyurl'', n]]) networksetup [''-getproxyautodiscovery'', n] = Inr out'"
       "sv_auto (now n) = Some ((parse_auto_proxy out2)\<lparr>ap_discovery := parse_discovery out'\<rparr>)"
    by (auto simp: answers_as_documented_def)
  have "(parse_auto_proxy out)\<lparr>ap_discovery := parse_discovery out'\<rparr> = (parse_auto_proxy out2)\<lparr>ap_discovery := parse_discovery out'\<rparr>"
    using 1(2) 2(2) by (cases "parse_auto_proxy out", cases "parse_auto_proxy out2") simp
  with 1(1) 2 show ?thesis
    by (auto simp: get_auto_def step_then_def query_did)
qed

lemma capture_service_answered:
  assumes "answering lib names now m" "n \<in> set names"
  shows "\<exists>es. list_all is_query es \<and> capture_service lib n m = (Inr (now n), did es m)"
proof -
  let ?q = "\<lambda>op. Ran networksetup [op, n]"
  note web = get_proxy_answered(1) [OF assms]
  have a1: "answering lib names now (did [?q ''-getwebproxy''] m)"
    using assms(1) by (rule answering_did) (simp add: query_names_def)
  note secure = get_proxy_answered(2) [OF a1 assms(2)]
  have a2: "answering lib names now (did [?q ''-getwebproxy'', ?q ''-getsecurewebproxy''] m)"
    using assms(1) by (rule answering_did) (simp add: query_names_def)
  from get_bypass_answered [OF a2 assms(2)] obtain out where
    bypass: "ask_tool lib [''-getproxybypassdomains'', n] QueryFailed (did [?q ''-getwebproxy'', ?q ''-getsecurewebproxy''] m)
      = (Inr out, did [?q ''-getwebproxy'', ?q ''-getsecurewebproxy'', ?q ''-getproxybypassdomains''] m)" "parse_bypass out = sv_bypass (now n)"
    by auto
  have a3: "answering lib names now (did [?q ''-getwebproxy'', ?q ''-getsecurewebproxy'', ?q ''-getproxybypassdomains''] m)"
    using assms(1) by (rule answering_did) (simp add: query_names_def)
  let ?es = "[?q ''-getwebproxy'', ?q ''-getsecurewebproxy'', ?q ''-getproxybypassdomains'', ?q ''-getautoproxyurl'', ?q ''-getproxyautodiscovery'']"
  from get_auto_answered [OF a3 assms(2)] obtain a where
    auto: "get_auto lib n (did [?q ''-getwebproxy'', ?q ''-getsecurewebproxy'', ?q ''-getproxybypassdomains''] m) = (Inr a, did ?es m)"
      "sv_auto (now n) = Some a" by auto
  have "sv_name (now n) = n" using answering_now [OF assms(1)] assms(2) by (auto simp: answers_as_documented_def)
  then have "\<lparr>sv_name = n, sv_web = sv_web (now n), sv_secure = sv_secure (now n), sv_bypass = parse_bypass out, sv_auto = Some a\<rparr> = now n"
    using bypass(2) auto(2) by simp
  then have "capture_service lib n m = (Inr (now n), did ?es m)"
    using secure by (simp add: capture_service_def step_then_def web bypass(1) auto(1))
  moreover have "list_all is_query ?es" by (simp add: query_names_def)
  ultimately show ?thesis by blast
qed

lemma capture_services_answered:
  assumes "answering lib names now m" "set ns \<subseteq> set names"
  shows "\<exists>es. list_all is_query es \<and> capture_services lib ns m = (Inr (List.map now ns), did es m)"
  using assms
proof (induction ns arbitrary: m)
  case Nil
  then show ?case by (intro exI [of _ "[]"]) simp
next
  case (Cons n ns)
  from capture_service_answered [OF Cons.prems(1), of n] Cons.prems(2) obtain es where
    es: "list_all is_query es" "capture_service lib n m = (Inr (now n), did es m)" by auto
  from Cons.IH [OF answering_did [OF Cons.prems(1) es(1)]] Cons.prems(2) obtain fs where
    "list_all is_query fs" "capture_services lib ns (did es m) = (Inr (List.map now ns), did (es @ fs) m)" by auto
  with es show ?case by (intro exI [of _ "es @ fs"]) (simp add: step_then_def)
qed

lemma capture_snapshot_answered:
  assumes "answering lib names now m" "names \<noteq> []"
  shows "\<exists>es. list_all is_query es \<and> capture_snapshot lib host port m =
    (Inr \<lparr>sn_version = snapshot_version, sn_set_at = sl_now lib, sn_pano = \<lparr>ep_host = host, ep_port = port\<rparr>,
       sn_services = List.map now names, sn_admin = False\<rparr>, did es m)"
proof -
  let ?e = "Ran networksetup [''-listallnetworkservices'']"
  have q: "list_all is_query [?e]" by (simp add: query_names_def)
  from capture_services_answered [OF answering_did [OF assms(1) q], of names] obtain es where
    "list_all is_query es" "capture_services lib names (did [?e] m) = (Inr (List.map now names), did (?e # es) m)" by auto
  with q assms show ?thesis
    by (intro exI [of _ "?e # es"]) (simp add: capture_snapshot_def step_then_def list_services_answered)
qed

section \<open>Setting\<close>

definition is_set :: "string list \<Rightarrow> bool" where
  "is_set c = (2 \<le> length c \<and> hd c \<in> set set_names)"

definition ran_all :: "string list list \<Rightarrow> effect list" where
  "ran_all cs = List.map (Ran networksetup) cs"

lemma ran_all_simps [simp]:
  "ran_all [] = []" "ran_all (c # cs) = Ran networksetup c # ran_all cs" "ran_all (cs @ ds) = ran_all cs @ ran_all ds"
  by (simp_all add: ran_all_def)

lemma is_set_elim:
  assumes "is_set c"
  obtains op n rest where "c = op # n # rest" "op \<in> set set_names"
  using assms by (cases c; cases "tl c") (auto simp: is_set_def)

lemma set_command_documented:
  "sets_as_documented lib view \<Longrightarrow> is_set c \<Longrightarrow> set_command lib False c m = ((False, None), did [Ran networksetup c] m)"
  by (erule is_set_elim) (auto simp: set_command_def run_cmd_did sets_as_documented_def isl_def split: sum.splits)

lemma apply_commands_documented:
  "sets_as_documented lib view \<Longrightarrow> list_all is_set cs \<Longrightarrow> apply_commands lib cs False m = (False, None, did (ran_all cs) m)"
  by (induction cs arbitrary: m) (simp_all add: set_command_documented)

lemma enable_commands_set: "list_all is_set (enable_commands svc host port bypass)"
  by (simp add: enable_commands_def is_set_def set_names_def bypass_args_def)

lemma restore_commands_set: "list_all is_set (restore_commands svc)"
  by (simp add: restore_commands_def is_set_def set_names_def bypass_args_def split: option.split)

definition enable_all_commands :: "string \<Rightarrow> int \<Rightarrow> string list \<Rightarrow> service_state list \<Rightarrow> string list list" where
  "enable_all_commands host port bypass svcs = concat (List.map (\<lambda>svc. enable_commands svc host port bypass) svcs)"

lemma apply_services_documented:
  "sets_as_documented lib view \<Longrightarrow>
    apply_services lib host port bypass svcs False m = (False, [], did (ran_all (enable_all_commands host port bypass svcs)) m)"
  by (induction svcs arbitrary: m)
    (simp_all add: apply_commands_documented [OF _ enable_commands_set] enable_all_commands_def)

lemma restore_service_documented:
  "sets_as_documented lib view \<Longrightarrow> list_all is_set cs \<Longrightarrow>
    restore_service lib n cs False errs m = (False, errs, did (ran_all cs) m)"
  by (induction cs arbitrary: m) (simp_all add: set_command_documented)

lemma restore_services_documented:
  "sets_as_documented lib view \<Longrightarrow>
    restore_services lib svcs False m = ([], did (ran_all (concat (List.map restore_commands svcs))) m)"
  by (induction svcs arbitrary: m) (simp_all add: restore_service_documented [OF _ restore_commands_set])

section \<open>The settings after the commands\<close>

fun after_command :: "string list \<Rightarrow> (string \<Rightarrow> service_state) \<Rightarrow> string \<Rightarrow> service_state" where
  "after_command (op # n # rest) v = v(n := documented op rest (v n))"
| "after_command _ v = v"

lemma view_after:
  "sets_as_documented lib view \<Longrightarrow> list_all is_set cs \<Longrightarrow> view (h @ ran_all cs) = fold after_command cs (view h)"
proof (induction cs arbitrary: h)
  case (Cons c cs)
  from Cons.prems(2) obtain op n rest where c: "c = op # n # rest" "op \<in> set set_names" by (auto elim: is_set_elim)
  with Cons.prems(1) have "view (h @ [Ran networksetup c]) = after_command c (view h)"
    by (simp add: sets_as_documented_def)
  with Cons.IH [of "h @ [Ran networksetup c]"] Cons.prems show ?case by simp
qed simp

lemma view_file:
  assumes "sets_as_documented lib view"
  shows "view (h @ [WroteState b]) = view h" and "view (h @ [RemovedState]) = view h"
  using assms by (simp_all add: sets_as_documented_def)

text \<open>Commands of one service act on it alone.\<close>

fun at_service :: "string list \<Rightarrow> service_state \<Rightarrow> service_state" where
  "at_service (op # n # rest) svc = documented op rest svc"
| "at_service _ svc = svc"

lemma fold_one_service:
  "list_all (\<lambda>c. \<exists>op rest. c = op # n # rest) cs \<Longrightarrow>
    fold after_command cs v = v(n := fold at_service cs (v n))"
  by (induction cs arbitrary: v) auto

lemma fold_services:
  assumes "\<And>n. n \<in> set ns \<Longrightarrow> list_all (\<lambda>c. \<exists>op rest. c = op # n # rest) (block n)" "distinct ns"
  shows "fold after_command (concat (List.map block ns)) v = (\<lambda>n. if n \<in> set ns then fold at_service (block n) (v n) else v n)"
  using assms
proof (induction ns arbitrary: v)
  case (Cons n ns)
  then show ?case by (auto simp: fold_one_service [of n] fun_eq_iff)
qed simp

lemma enable_block: "sv_name svc = n \<Longrightarrow> list_all (\<lambda>c. \<exists>op rest. c = op # n # rest) (enable_commands svc host port bypass)"
  by (simp add: enable_commands_def)

lemma restore_block: "sv_name svc = n \<Longrightarrow> list_all (\<lambda>c. \<exists>op rest. c = op # n # rest) (restore_commands svc)"
  by (simp add: restore_commands_def split: option.split)

lemma merge_bypass_not_marker: "merge_bypass existing extra \<noteq> [''Empty'']" "merge_bypass existing extra \<noteq> []"
proof -
  have "''localhost'' \<in> set (merge_bypass existing extra)"
    using merge_bypass_spec [of existing extra] image_eqI [of "''localhost''" trim_space "''localhost''" "set default_bypass"]
    by (simp add: default_bypass_def image_Un) code_simp
  then show "merge_bypass existing extra \<noteq> [''Empty'']" "merge_bypass existing extra \<noteq> []" by auto
qed

lemma enabled_settings:
  assumes "in_int port" "sv_auto svc = Some a"
  shows "fold at_service (enable_commands svc0 host port bypass) svc =
    svc\<lparr>sv_web := \<lparr>ps_enabled = True, ps_server = host, ps_port = port\<rparr>,
        sv_secure := \<lparr>ps_enabled = True, ps_server = host, ps_port = port\<rparr>,
        sv_bypass := merge_bypass (sv_bypass svc0) bypass,
        sv_auto := Some (a\<lparr>ap_enabled := False, ap_discovery := False\<rparr>)\<rparr>"
  using assms merge_bypass_not_marker [of "sv_bypass svc0" bypass]
  by (simp add: enable_commands_def documented_def atoi_itoa bypass_args_def)

text \<open>Settings that can be put back: ports are integers, the bypass list is not the word that clears it,
  and the automatic configuration is not on without an address.\<close>

definition restorable :: "service_state \<Rightarrow> bool" where
  "restorable svc =
     (in_int (ps_port (sv_web svc)) \<and> in_int (ps_port (sv_secure svc)) \<and> sv_bypass svc \<noteq> [''Empty'']
      \<and> (case sv_auto svc of None \<Rightarrow> True | Some a \<Rightarrow> \<not> (ap_enabled a \<and> ap_url a = [])))"

definition put_back :: "proxy_setting \<Rightarrow> proxy_setting \<Rightarrow> proxy_setting" where
  "put_back old now = (if ps_enabled old then old else now\<lparr>ps_enabled := False\<rparr>)"

lemma restored_settings:
  assumes "restorable svc0" "sv_auto svc0 = Some a0" "sv_auto svc = Some a" "ap_url a = ap_url a0"
  shows "fold at_service (restore_commands svc0) svc =
    svc\<lparr>sv_web := put_back (sv_web svc0) (sv_web svc), sv_secure := put_back (sv_secure svc0) (sv_secure svc),
        sv_bypass := sv_bypass svc0, sv_auto := Some a0\<rparr>"
  using assms
  by (cases "sv_web svc0"; cases "sv_secure svc0"; cases a0; cases a)
    (auto simp: restore_commands_def documented_def atoi_itoa bypass_args_def on_off_def restorable_def put_back_def)

section \<open>Enable, then Disable\<close>

definition captured :: "sysproxy_lib \<Rightarrow> string \<Rightarrow> int \<Rightarrow> service_state list \<Rightarrow> snapshot" where
  "captured lib host port svcs =
     \<lparr>sn_version = snapshot_version, sn_set_at = sl_now lib, sn_pano = \<lparr>ep_host = host, ep_port = port\<rparr>,
      sn_services = svcs, sn_admin = False\<rparr>"

lemma enable_documented:
  assumes "no_io_errors lib" "networksetup_works lib (mc_history m) names view" "mc_file m = None"
    and "host \<noteq> []" "0 < port" "port \<le> 65535" "names \<noteq> []"
  shows "\<exists>es. list_all is_query es \<and> enable_proxy lib host port bypass m =
    (Inr (), (did (es @ WroteState (sl_encode lib (captured lib host port (List.map (view (mc_history m)) names)))
          # ran_all (enable_all_commands host port bypass (List.map (view (mc_history m)) names))) m)
       \<lparr>mc_file := Some (sl_encode lib (captured lib host port (List.map (view (mc_history m)) names)))\<rparr>)"
proof -
  from assms(2) have "answering lib names (view (mc_history m)) m" by (simp add: networksetup_works_def answering_def)
  from capture_snapshot_answered [OF this assms(7)] obtain es where
    es: "list_all is_query es" "capture_snapshot lib host port m = (Inr (captured lib host port (List.map (view (mc_history m)) names)), did es m)"
    by (auto simp: captured_def)
  from assms(2) have "sets_as_documented lib view" by (simp add: networksetup_works_def)
  note services = apply_services_documented [OF this]
  have "enable_proxy lib host port bypass m =
    (Inr (), (did (es @ WroteState (sl_encode lib (captured lib host port (List.map (view (mc_history m)) names)))
          # ran_all (enable_all_commands host port bypass (List.map (view (mc_history m)) names))) m)
       \<lparr>mc_file := Some (sl_encode lib (captured lib host port (List.map (view (mc_history m)) names)))\<rparr>)"
    using assms(1,3-6) es(2)
    by (simp add: enable_proxy_def read_snapshot_def prepare_def step_then_def write_snapshot_def no_io_errors_def apply_snapshot_def
        captured_def services note_admin_def did_def Let_def)
  with es(1) show ?thesis by blast
qed

lemma disable_documented:
  assumes "no_io_errors lib" "codec_ok lib" "sets_as_documented lib view"
    and "mc_file m = Some (sl_encode lib (captured lib host port svcs))"
  shows "disable_proxy lib m = (None, (did (ran_all (concat (List.map restore_commands svcs)) @ [RemovedState]) m)\<lparr>mc_file := None\<rparr>)"
  using assms(1,2,4)
  by (simp add: disable_proxy_def restore_locked_def read_snapshot_def no_io_errors_def codec_ok_def captured_def
      restore_services_documented [OF assms(3)] did_def)


section \<open>Samples\<close>

text \<open>The sample machine of \<open>Sysproxy_Restore\<close>, with the settings its commands leave.\<close>

fun sample_effect :: "effect \<Rightarrow> (string \<Rightarrow> service_state) \<Rightarrow> string \<Rightarrow> service_state" where
  "sample_effect (Ran name (op # n # rest)) v =
     (if name = networksetup \<and> op \<in> set set_names then v(n := documented op rest (v n)) else v)"
| "sample_effect _ v = v"

definition sample_view :: settings_view where
  "sample_view h = fold sample_effect h (\<lambda>_. sample_wifi)"

lemma sample_query_effect: "is_query e \<Longrightarrow> sample_effect e v = v"
  by (cases "(e, v)" rule: sample_effect.cases) (auto simp: query_names_def set_names_def)

lemma sample_works: "networksetup_works sample_mac [] [''Wi-Fi''] sample_view"
proof -
  have "parse_services (sample_answer [''-listallnetworkservices'']) = [''Wi-Fi'']"
    "parse_proxy (sample_answer [''-getwebproxy'', ''Wi-Fi'']) = Inr (sv_web sample_wifi)"
    "parse_proxy (sample_answer [''-getsecurewebproxy'', ''Wi-Fi'']) = Inr (sv_secure sample_wifi)"
    "parse_bypass (sample_answer [''-getproxybypassdomains'', ''Wi-Fi'']) = sv_bypass sample_wifi"
    "sv_auto sample_wifi = Some ((parse_auto_proxy (sample_answer [''-getautoproxyurl'', ''Wi-Fi'']))
      \<lparr>ap_discovery := parse_discovery (sample_answer [''-getproxyautodiscovery'', ''Wi-Fi''])\<rparr>)"
    "sv_name sample_wifi = ''Wi-Fi''"
    by code_simp+
  moreover have "list_all is_query es \<Longrightarrow> fold sample_effect es v = v" for es v
    by (induction es arbitrary: v) (simp_all add: sample_query_effect)
  ultimately show ?thesis
    by (auto simp: networksetup_works_def sets_as_documented_def answers_as_documented_def sample_mac_def sample_view_def)
qed


text \<open>So the settings are not put back exactly: the address of a proxy that was off stays pano's.\<close>

lemma address_of_disabled_proxy_lost:
  assumes "\<not> ps_enabled old"
  shows "put_back old \<lparr>ps_enabled = True, ps_server = host, ps_port = port\<rparr> = \<lparr>ps_enabled = False, ps_server = host, ps_port = port\<rparr>"
  using assms by (simp add: put_back_def)

end
