(* ===== verification/Update.thy ===== *)
theory Update
  imports Prelude
begin

text \<open>
  \<open>internal/update/update.go\<close>: the release check. Versions and their order, when the check must not run,
  the cached answer, and the upgrade command that fits the installation. The environment, the
  configuration, the state file and the answer of the release server are inputs.
\<close>

section \<open>Semantic versions\<close>

record semver =
  ver_nums :: "int list"
  ver_pre :: string

fun parse_nums :: "string list \<Rightarrow> int list option" where
  "parse_nums [] = Some []"
| "parse_nums (p # ps) =
     (case atoi p of
        None \<Rightarrow> None
      | Some n \<Rightarrow> if n < 0 then None else map_option (\<lambda>ns. n # ns) (parse_nums ps))"

definition parse_semver :: "string \<Rightarrow> semver option" where
  "parse_semver s0 =
     (let s1 = trim_prefix (trim_space s0) ''v'';
          (s2, _, _) = str_cut (CHR ''+'') s1;
          (s3, pre, _) = str_cut (CHR ''-'') s2;
          parts = str_split (CHR ''.'') s3
      in if length parts \<noteq> 3 then None
         else map_option (\<lambda>ns. \<lparr>ver_nums = ns, ver_pre = pre\<rparr>) (parse_nums parts))"

definition cmp_int :: "int \<Rightarrow> int \<Rightarrow> int" where
  "cmp_int a b = (if a = b then 0 else if a > b then 1 else -1)"

definition compare_part :: "string \<Rightarrow> string \<Rightarrow> int" where
  "compare_part a b =
     (case (atoi a, atoi b) of
        (Some m, Some n) \<Rightarrow> cmp_int m n
      | (Some _, None) \<Rightarrow> -1
      | (None, Some _) \<Rightarrow> 1
      | (None, None) \<Rightarrow> str_compare a b)"

text \<open>Element by element, and a longer list after its prefix.\<close>

fun lex_compare :: "('a \<Rightarrow> 'a \<Rightarrow> int) \<Rightarrow> 'a list \<Rightarrow> 'a list \<Rightarrow> int" where
  "lex_compare cmp [] [] = 0"
| "lex_compare cmp (a # as) [] = 1"
| "lex_compare cmp [] (b # bs) = -1"
| "lex_compare cmp (a # as) (b # bs) = (let c = cmp a b in if c \<noteq> 0 then c else lex_compare cmp as bs)"

definition compare_pre :: "string \<Rightarrow> string \<Rightarrow> int" where
  "compare_pre a b = lex_compare compare_part (str_split (CHR ''.'') a) (str_split (CHR ''.'') b)"

definition compare_semver :: "semver \<Rightarrow> semver \<Rightarrow> int" where
  "compare_semver v w =
     (let c = lex_compare cmp_int (ver_nums v) (ver_nums w) in
      if c \<noteq> 0 then c
      else if ver_pre v = ver_pre w then 0
      else if ver_pre v = [] then 1
      else if ver_pre w = [] then -1
      else compare_pre (ver_pre v) (ver_pre w))"

definition newer :: "string \<Rightarrow> string \<Rightarrow> bool" where
  "newer a b =
     (case (parse_semver a, parse_semver b) of
        (Some v, Some w) \<Rightarrow> compare_semver v w > 0
      | _ \<Rightarrow> False)"

section \<open>Development builds\<close>

text \<open>\<open>describeRE\<close>, \<open>-\d+-g[0-9a-f]{6,}\<close>: some suffix starts with it.\<close>

definition is_hex_lower :: "char \<Rightarrow> bool" where
  "is_hex_lower c = (is_digit c \<or> (97 \<le> (of_char c :: nat) \<and> (of_char c :: nat) \<le> 102))"

definition describe_here :: "string \<Rightarrow> bool" where
  "describe_here s =
     (case s of
        c # t \<Rightarrow> c = CHR ''-'' \<and> takeWhile is_digit t \<noteq> []
          \<and> has_prefix (dropWhile is_digit t) ''-g''
          \<and> 6 \<le> length (takeWhile is_hex_lower (drop 2 (dropWhile is_digit t)))
      | [] \<Rightarrow> False)"

fun describe_match :: "string \<Rightarrow> bool" where
  "describe_match [] = False"
| "describe_match (c # s) = (describe_here (c # s) \<or> describe_match s)"

definition is_dev :: "string \<Rightarrow> bool" where
  "is_dev v = (v \<in> {[], ''dev'', ''(devel)''} \<or> has_suffix v ''-dirty'' \<or> describe_match v)"

definition opted_out :: "string \<Rightarrow> bool" where
  "opted_out v = (v \<noteq> [] \<and> v \<noteq> ''0'')"

text \<open>\<open>Disabled\<close>: \<open>dflt\<close> is the build-time switch; \<open>check\<close> the configured flag, if the file could be read, and
  asked only when there is a configuration directory.\<close>

definition disabled :: "string \<Rightarrow> string \<Rightarrow> (string \<Rightarrow> string) \<Rightarrow> string \<Rightarrow> bool option \<Rightarrow> string" where
  "disabled dflt current getenv dir check =
     (if dflt \<noteq> ''on'' then ''compiled out''
      else if is_dev current then ''development build''
      else if opted_out (getenv ''PANO_NO_UPDATE_CHECK'') then ''PANO_NO_UPDATE_CHECK is set''
      else if opted_out (getenv ''DO_NOT_TRACK'') then ''DO_NOT_TRACK is set''
      else if getenv ''CI'' \<noteq> [] then ''running in CI''
      else if dir \<noteq> [] \<and> check \<noteq> Some True then ''[updates] check = false''
      else [])"

section \<open>The upgrade command\<close>

text \<open>\<open>path.Clean\<close>: components without empty ones and dots, dot-dots resolved lexically.\<close>

fun clean_parts :: "bool \<Rightarrow> string list \<Rightarrow> string list \<Rightarrow> string list" where
  "clean_parts rooted [] out = out"
| "clean_parts rooted (p # ps) out =
     (if p = [] \<or> p = ''.'' then clean_parts rooted ps out
      else if p = ''..'' then
        (if out \<noteq> [] \<and> last out \<noteq> ''..'' then clean_parts rooted ps (butlast out)
         else if rooted then clean_parts rooted ps out
         else clean_parts rooted ps (out @ [p]))
      else clean_parts rooted ps (out @ [p]))"

definition clean_path :: "string \<Rightarrow> string" where
  "clean_path p =
     (let rooted = has_prefix p ''/'';
          r = str_join ''/'' (clean_parts rooted (str_split (CHR ''/'') p) [])
      in if rooted then ''/'' @ r else if r = [] then ''.'' else r)"

definition dir_path :: "string \<Rightarrow> string" where
  "dir_path p = clean_path (rev (dropWhile (\<lambda>c. c \<noteq> CHR ''/'') (rev p)))"

definition join_path :: "string list \<Rightarrow> string" where
  "join_path ps =
     (let qs = filter (\<lambda>p. p \<noteq> []) ps in if qs = [] then [] else clean_path (str_join ''/'' qs))"

definition split_list :: "string \<Rightarrow> string list" where
  "split_list s = (if s = [] then [] else str_split (CHR '':'') s)"

definition go_bins :: "(string \<Rightarrow> string) \<Rightarrow> string list" where
  "go_bins getenv =
     getenv ''GOBIN'' #
     (if getenv ''GOPATH'' \<noteq> [] then List.map (\<lambda>p. join_path [p, ''bin'']) (split_list (getenv ''GOPATH''))
      else if getenv ''HOME'' \<noteq> [] then [join_path [getenv ''HOME'', ''go'', ''bin'']]
      else [])"

definition hint :: "string \<Rightarrow> (string \<Rightarrow> string) \<Rightarrow> string" where
  "hint exe getenv =
     (if str_contains exe ''/Caskroom/'' \<or> str_contains exe ''/Cellar/'' then ''brew upgrade pano''
      else if list_ex (\<lambda>b. b \<noteq> [] \<and> dir_path exe = clean_path b) (go_bins getenv)
      then ''go install github.com/orron/pano/cmd/pano@latest''
      else ''https://github.com/OrRon/pano/releases/latest'')"

section \<open>The check\<close>

record check_state =
  cs_checked_at :: gotime
  cs_latest :: string
  cs_url :: string

record update_info =
  ui_current :: string
  ui_latest :: string
  ui_available :: bool
  ui_url :: string
  ui_hint :: string

text \<open>What the release server answers: a transport error, or a status with a body decoded to tag and page.\<close>

datatype fetch_error =
    FetchFailed string
  | NoReleases
  | BadStatus string string
  | BadBody string
  | NoTag

datatype fetch_reply =
    TransportError string
  | Reply int string "string + string \<times> string"

definition fetch_latest :: "string \<Rightarrow> fetch_reply \<Rightarrow> fetch_error + string \<times> string" where
  "fetch_latest ep reply =
     (case reply of
        TransportError e \<Rightarrow> Inl (FetchFailed e)
      | Reply status text rel \<Rightarrow>
          if status = 404 then Inl NoReleases
          else if status \<noteq> 200 then Inl (BadStatus ep text)
          else case rel of
                 Inl e \<Rightarrow> Inl (BadBody e)
               | Inr (tag, page) \<Rightarrow> if tag = [] then Inl NoTag else Inr (tag, page))"

definition check_fresh :: "gotime \<Rightarrow> duration \<Rightarrow> check_state option \<Rightarrow> bool" where
  "check_fresh now interval st =
     (case st of
        None \<Rightarrow> False
      | Some s \<Rightarrow> cs_latest s \<noteq> [] \<and> time_sub now (cs_checked_at s) < interval \<and> cs_checked_at s < now)"

definition update_info_of :: "string \<Rightarrow> string \<Rightarrow> (string \<Rightarrow> string) \<Rightarrow> check_state \<Rightarrow> update_info" where
  "update_info_of current exe getenv st =
     \<lparr>ui_current = trim_prefix current ''v'', ui_latest = trim_prefix (cs_latest st) ''v'',
      ui_available = newer (cs_latest st) current, ui_url = cs_url st, ui_hint = hint exe getenv\<rparr>"

text \<open>The result, the state written to the cache (if any), and whether the server was asked. \<open>caching\<close>: there
  is a state path; \<open>cached\<close> is what the file holds, when it can be read.\<close>

definition check_update ::
  "string \<Rightarrow> string \<Rightarrow> (string \<Rightarrow> string) \<Rightarrow> string \<Rightarrow> gotime \<Rightarrow> duration \<Rightarrow> bool \<Rightarrow> bool \<Rightarrow> check_state option \<Rightarrow> fetch_reply
    \<Rightarrow> (fetch_error + update_info) \<times> check_state option \<times> bool" where
  "check_update current exe getenv ep now interval0 forced caching cached reply =
     (let interval = (if interval0 = 0 then 24 * hour else interval0);
          st = (if caching then cached else None)
      in if check_fresh now interval st \<and> \<not> forced then (Inr (update_info_of current exe getenv (the st)), None, False)
         else case fetch_latest ep reply of
                Inl e \<Rightarrow> (Inl e, None, True)
              | Inr (tag, page) \<Rightarrow>
                  (let s = \<lparr>cs_checked_at = now, cs_latest = tag, cs_url = page\<rparr>
                   in (Inr (update_info_of current exe getenv s), if caching then Some s else None, True)))"

section \<open>The order of versions\<close>

lemma cmp_int_facts:
  "cmp_int a b = - cmp_int b a" "cmp_int a b = 0 \<longleftrightarrow> a = b" "cmp_int a b > 0 \<longleftrightarrow> a > b"
  by (auto simp: cmp_int_def)

lemma str_compare_facts:
  "str_compare a b = - str_compare b a" "str_compare a b = 0 \<longleftrightarrow> a = b" "str_compare a b > 0 \<longleftrightarrow> a > b"
  by (auto simp: str_compare_def)

text \<open>A comparison that is a total preorder.\<close>

locale total_compare =
  fixes cmp :: "'a \<Rightarrow> 'a \<Rightarrow> int"
  assumes swap: "cmp a b = - cmp b a"
    and less_trans: "cmp a b > 0 \<Longrightarrow> cmp b c > 0 \<Longrightarrow> cmp a c > 0"
    and same: "cmp a b = 0 \<Longrightarrow> cmp a c = cmp b c"
begin

lemma cmp_refl [simp]: "cmp a a = 0"
  using swap [of a a] by simp

lemma cmp_asym: "cmp a b > 0 \<Longrightarrow> \<not> cmp b a > 0"
  using swap [of a b] by simp

lemma cmp_le_trans: "\<not> cmp a b > 0 \<Longrightarrow> \<not> cmp b c > 0 \<Longrightarrow> \<not> cmp a c > 0"
proof
  assume *: "\<not> cmp a b > 0" "\<not> cmp b c > 0" "cmp a c > 0"
  have "cmp c b = 0 \<or> cmp c b > 0" using *(2) swap [of b c] by linarith
  then have "cmp a b > 0"
  proof
    assume "cmp c b = 0"
    then have "cmp c a = cmp b a" by (rule same)
    with *(3) swap [of a c] swap [of a b] show ?thesis by simp
  next
    assume "cmp c b > 0"
    with *(3) show ?thesis by (rule less_trans)
  qed
  with *(1) show False by blast
qed

lemma same_right: "cmp b c = 0 \<Longrightarrow> cmp a c = cmp a b"
  using same [of b c a] swap [of a b] swap [of a c] by simp

lemma step_trans:
  assumes "cmp a b > 0 \<or> cmp a b = 0 \<and> P" "cmp b c > 0 \<or> cmp b c = 0 \<and> Q"
  shows "cmp a c > 0 \<or> cmp a c = 0 \<and> P \<and> Q"
  using assms(1)
proof
  assume ab: "cmp a b > 0"
  from assms(2) show ?thesis
  proof
    assume "cmp b c > 0"
    with ab show ?thesis using less_trans by blast
  next
    assume "cmp b c = 0 \<and> Q"
    with ab show ?thesis using same_right [of b c a] by simp
  qed
next
  assume "cmp a b = 0 \<and> P"
  with assms(2) show ?thesis using same [of a b c] by auto
qed

lemma lex_swap: "lex_compare cmp as bs = - lex_compare cmp bs as"
proof (induction as arbitrary: bs)
  case Nil
  then show ?case by (cases bs) simp_all
next
  case (Cons a as)
  show ?case
  proof (cases bs)
    case (Cons b bs')
    with Cons.IH [of bs'] swap [of a b] show ?thesis by (simp add: Let_def)
  qed simp
qed

lemma lex_same: "lex_compare cmp as bs = 0 \<Longrightarrow> lex_compare cmp as cs = lex_compare cmp bs cs"
proof (induction as arbitrary: bs cs)
  case Nil
  then show ?case by (cases bs) simp_all
next
  case (Cons a as)
  then obtain b bs' where b: "bs = b # bs'" "cmp a b = 0" "lex_compare cmp as bs' = 0"
    by (cases bs) (auto simp: Let_def split: if_splits)
  then show ?case using Cons.IH [OF b(3)] same [OF b(2)] by (cases cs) (simp_all add: Let_def)
qed

lemma lex_less_trans: "lex_compare cmp as bs > 0 \<Longrightarrow> lex_compare cmp bs cs > 0 \<Longrightarrow> lex_compare cmp as cs > 0"
proof (induction as arbitrary: bs cs)
  case Nil
  then show ?case by (cases bs) simp_all
next
  case (Cons a as)
  show ?case
  proof (cases cs)
    case (Cons c cs')
    with Cons.prems(2) obtain b bs' where b: "bs = b # bs'" by (cases bs) simp_all
    from Cons.prems b Cons have ab: "cmp a b > 0 \<or> cmp a b = 0 \<and> lex_compare cmp as bs' > 0"
      and bc: "cmp b c > 0 \<or> cmp b c = 0 \<and> lex_compare cmp bs' cs' > 0"
      by (auto simp: Let_def split: if_splits)
    from step_trans [OF ab bc] consider "cmp a c > 0" | "cmp a c = 0" "lex_compare cmp as bs' > 0" "lex_compare cmp bs' cs' > 0"
      by blast
    then show ?thesis
    proof cases
      case 2
      with Cons.IH [of bs' cs'] Cons show ?thesis by simp
    qed (simp add: Cons)
  qed simp
qed

lemma lex_total: "total_compare (lex_compare cmp)"
  by unfold_locales (rule lex_swap, erule (1) lex_less_trans, erule lex_same)

end

interpretation ints: total_compare cmp_int
  by unfold_locales (auto simp: cmp_int_def split: if_splits)

interpretation nums: total_compare "lex_compare cmp_int"
  by (rule ints.lex_total)

interpretation strings: total_compare str_compare
  by unfold_locales (auto simp: str_compare_def split: if_splits)

interpretation parts: total_compare compare_part
  by unfold_locales
    (auto simp: compare_part_def str_compare_def cmp_int_def split: option.splits if_splits)

interpretation pre_releases: total_compare compare_pre
  unfolding compare_pre_def by unfold_locales
    (rule parts.lex_swap, erule (1) parts.lex_less_trans, erule parts.lex_same)

text \<open>A release sorts after its pre-releases.\<close>

definition pre_order :: "string \<Rightarrow> string \<Rightarrow> int" where
  "pre_order p q = (if p = [] then if q = [] then 0 else 1 else if q = [] then -1 else compare_pre p q)"

interpretation pre_part: total_compare pre_order
proof
  show "pre_order a b = - pre_order b a" for a b
    using pre_releases.swap [of a b] by (simp add: pre_order_def)
  show "pre_order a c > 0" if "pre_order a b > 0" "pre_order b c > 0" for a b c
    using that pre_releases.less_trans by (auto simp: pre_order_def split: if_splits)
  show "pre_order a c = pre_order b c" if "pre_order a b = 0" for a b c
    using that pre_releases.same by (auto simp: pre_order_def split: if_splits)
qed

lemma compare_semver_eq:
  "compare_semver v w =
     (let c = lex_compare cmp_int (ver_nums v) (ver_nums w) in if c \<noteq> 0 then c else pre_order (ver_pre v) (ver_pre w))"
  by (simp add: compare_semver_def pre_order_def Let_def)

interpretation versions: total_compare compare_semver
proof
  show "compare_semver v w = - compare_semver w v" for v w
    using nums.swap [of "ver_nums v" "ver_nums w"] pre_part.swap [of "ver_pre v" "ver_pre w"]
    by (simp add: compare_semver_eq Let_def)
  show "compare_semver v u = compare_semver w u" if "compare_semver v w = 0" for v w u
    using that nums.same [of "ver_nums v" "ver_nums w" "ver_nums u"] pre_part.same
    by (auto simp: compare_semver_eq Let_def split: if_splits)
  show "compare_semver v u > 0" if "compare_semver v w > 0" "compare_semver w u > 0" for v w u
  proof -
    let ?n = "\<lambda>x y. lex_compare cmp_int (ver_nums x) (ver_nums y)" and ?p = "\<lambda>x y. pre_order (ver_pre x) (ver_pre y)"
    from that have "?n v w > 0 \<or> ?n v w = 0 \<and> ?p v w > 0" "?n w u > 0 \<or> ?n w u = 0 \<and> ?p w u > 0"
      by (auto simp: compare_semver_eq Let_def split: if_splits)
    from nums.step_trans [OF this] have "?n v u > 0 \<or> ?n v u = 0 \<and> ?p v u > 0"
      using pre_part.less_trans by blast
    then show ?thesis by (auto simp: compare_semver_eq Let_def)
  qed
qed

section \<open>Properties\<close>

text \<open>\<open>Newer\<close> is a strict order of versions: irreflexive, asymmetric and transitive, and versions neither of which
  is newer rank equally; text that is no version is never newer.\<close>

theorem newer_strict_order:
  "\<not> newer a a \<and> \<not> (newer a b \<and> newer b a)
    \<and> (if newer a b \<and> newer b c then newer a c else True)
    \<and> (if parse_semver a \<noteq> None \<and> parse_semver b \<noteq> None \<and> parse_semver c \<noteq> None \<and> \<not> newer a b \<and> \<not> newer b c
       then \<not> newer a c else True)
    \<and> (if parse_semver a = None \<or> parse_semver b = None then \<not> newer a b else True)"
proof -
  have tr: "newer a b \<Longrightarrow> newer b c \<Longrightarrow> newer a c"
    using versions.less_trans by (auto simp: newer_def split: option.splits)
  have le: "newer a c \<Longrightarrow> parse_semver b \<noteq> None \<Longrightarrow> newer a b \<or> newer b c"
    using versions.cmp_le_trans by (auto simp: newer_def split: option.splits)
  have "\<not> newer a a" "\<not> (newer a b \<and> newer b a)"
    using versions.cmp_asym by (auto simp: newer_def split: option.splits)
  moreover have "parse_semver a = None \<or> parse_semver b = None \<Longrightarrow> \<not> newer a b"
    by (auto simp: newer_def split: option.splits)
  ultimately show ?thesis using tr le by auto
qed

text \<open>What the tests of the code expect.\<close>

lemma newer_samples:
  "newer ''v0.3.0'' ''v0.2.9''" "newer ''v0.3.0'' ''v0.3.0-beta.1''" "newer ''v0.3.0-beta.2'' ''v0.3.0-beta.1''"
  "\<not> newer ''v0.3.0+build.7'' ''v0.3.0''" "\<not> newer ''v0.3.0'' ''v0.3.1-0.20260830120000-abcdef123456''"
  "is_dev ''v0.3.0-4-gabc1234''" "\<not> is_dev ''v0.0.0-20260830120000-abcdef123456''"
  by code_simp+

lemma hint_samples:
  "hint ''/usr/local/Cellar/pano/0.2.0/bin/pano'' (\<lambda>_. []) = ''brew upgrade pano''"
  "hint ''/home/dev/go/bin/pano'' (\<lambda>k. if k = ''HOME'' then ''/home/dev'' else []) = ''go install github.com/orron/pano/cmd/pano@latest''"
  by code_simp+

text \<open>A check_fresh answer is used without asking the server; a stored time in the future is not check_fresh.\<close>

lemma check_update_asks:
  "snd (snd (check_update current exe getenv ep now interval forced caching cached reply)) =
     (forced \<or> \<not> caching \<or> \<not> check_fresh now (if interval = 0 then 24 * hour else interval) cached)"
  by (auto simp: check_update_def Let_def check_fresh_def split: sum.splits option.splits)

lemma fresh_not_future: "check_fresh now interval (Some s) \<Longrightarrow> cs_checked_at s < now \<and> time_sub now (cs_checked_at s) < interval"
  by (simp add: check_fresh_def)

text \<open>A numeric pre-release part with leading zeros ranks with the same number, although the versions differ.\<close>

lemma leading_zero_ranks_equal: "\<not> newer ''1.0.0-01'' ''1.0.0-1'' \<and> \<not> newer ''1.0.0-1'' ''1.0.0-01''"
  by code_simp

end
