(* ===== verification/Config.thy ===== *)
theory Config
  imports Proxy_Policy
begin

text \<open>
  The settings (\<open>internal/config/config.go\<close>): the struct and its defaults, validation, loading with the
  migration of deprecated keys, and saving by temporary file and rename. The TOML codec is a parameter:
  \<open>tm_unmarshal b c\<close> is \<open>c\<close> with the keys of the document \<open>b\<close> written over it, and the error if there
  was one. The files are a map from paths to contents.
\<close>

section \<open>The settings\<close>

record proxy_cfg =
  px_port :: int
  px_mcp_port :: int
  px_bind :: string
  px_bypass :: "string list"

record decrypt_cfg =
  dc_mode :: string
  dc_only :: "string list"
  dc_never :: "string list"

record capture_cfg =
  cc_enabled :: bool
  cc_max_body :: int
  cc_max_inflight :: int
  cc_ws_frames :: bool
  cc_ring_size :: int

record redaction_cfg =
  rd_enabled :: bool
  rd_patterns :: "string list"
  rd_headers :: "string list"

record views_cfg =
  vc_max_bytes :: int
  vc_page_size :: int
  vc_truncate :: int

record config =
  cf_proxy :: proxy_cfg
  cf_decrypt :: decrypt_cfg
  cf_capture :: capture_cfg
  cf_redaction :: redaction_cfg
  cf_views :: views_cfg
  cf_hold_timeout :: duration
  cf_expose_http :: bool
  cf_restore_on_exit :: bool
  cf_max_conns :: int
  cf_check_updates :: bool

definition default_never :: "string list" where
  "default_never = [''*.push.apple.com'', ''*.icloud.com'', ''*.icloud-content.com'', ''*.apple-cloudkit.com'', ''*.ls.apple.com'']"

definition default_config :: config where
  "default_config =
     \<lparr>cf_proxy = \<lparr>px_port = 9091, px_mcp_port = 9092, px_bind = ''127.0.0.1'', px_bypass = []\<rparr>,
      cf_decrypt = \<lparr>dc_mode = ''all'', dc_only = [], dc_never = default_never\<rparr>,
      cf_capture = \<lparr>cc_enabled = True, cc_max_body = 4 * 2 ^ 20, cc_max_inflight = 256 * 2 ^ 20,
        cc_ws_frames = True, cc_ring_size = 10000\<rparr>,
      cf_redaction = \<lparr>rd_enabled = True, rd_patterns = [], rd_headers = []\<rparr>,
      cf_views = \<lparr>vc_max_bytes = 4096, vc_page_size = 50, vc_truncate = 200\<rparr>,
      cf_hold_timeout = 120 * second, cf_expose_http = True, cf_restore_on_exit = True,
      cf_max_conns = 10000, cf_check_updates = True\<rparr>"

text \<open>\<open>UnmarshalText\<close> of a duration: \<open>scan\<close> is \<open>Sscanf\<close> of one float times a day, \<open>parse\<close> is \<open>time.ParseDuration\<close>.\<close>

definition unmarshal_duration ::
  "(string \<Rightarrow> duration option) \<Rightarrow> (string \<Rightarrow> duration option) \<Rightarrow> string \<Rightarrow> duration option" where
  "unmarshal_duration scan parse s =
     (if 1 < length s \<and> last s = CHR ''d'' then scan (butlast s) else parse s)"

section \<open>Validation\<close>

datatype config_error =
    ReadFailed string
  | ParseFailed string
  | PortRange int
  | MaxBodyNegative
  | ViewsNotPositive
  | BadDecryptMode string
  | BadDecryptEntry string
  | EncodeFailed string
  | SaveFailed string

definition host_entry_ok :: "string \<Rightarrow> bool" where
  "host_entry_ok h = (trim_space h \<noteq> [] \<and> \<not> contains_any h [CHR '' '', CHR 0x09, CHR ''/''])"

definition check_host_entries :: "string list \<Rightarrow> config_error option" where
  "check_host_entries hs = map_option BadDecryptEntry (find (\<lambda>h. \<not> host_entry_ok h) hs)"

definition validate_config :: "config \<Rightarrow> config_error option" where
  "validate_config c =
     (if px_port (cf_proxy c) \<le> 0 \<or> 65535 < px_port (cf_proxy c) then Some (PortRange (px_port (cf_proxy c)))
      else if cc_max_body (cf_capture c) < 0 then Some MaxBodyNegative
      else if vc_max_bytes (cf_views c) \<le> 0 \<or> vc_page_size (cf_views c) \<le> 0 then Some ViewsNotPositive
      else if dc_mode (cf_decrypt c) \<notin> {''all'', ''only'', ''off''} then Some (BadDecryptMode (dc_mode (cf_decrypt c)))
      else check_host_entries (dc_only (cf_decrypt c) @ dc_never (cf_decrypt c)))"

lemma check_host_entries_None: "check_host_entries hs = None \<longleftrightarrow> list_all host_entry_ok hs"
  by (auto simp: check_host_entries_def find_None_iff list_all_iff)

lemma validate_config_None:
  "validate_config c = None \<longleftrightarrow>
     1 \<le> px_port (cf_proxy c) \<and> px_port (cf_proxy c) \<le> 65535 \<and> 0 \<le> cc_max_body (cf_capture c)
     \<and> 1 \<le> vc_max_bytes (cf_views c) \<and> 1 \<le> vc_page_size (cf_views c)
     \<and> dc_mode (cf_decrypt c) \<in> {''all'', ''only'', ''off''}
     \<and> list_all host_entry_ok (dc_only (cf_decrypt c) @ dc_never (cf_decrypt c))"
proof -
  have "validate_config c = None \<longleftrightarrow>
     \<not> (px_port (cf_proxy c) \<le> 0 \<or> 65535 < px_port (cf_proxy c)) \<and> \<not> cc_max_body (cf_capture c) < 0
     \<and> \<not> (vc_max_bytes (cf_views c) \<le> 0 \<or> vc_page_size (cf_views c) \<le> 0)
     \<and> dc_mode (cf_decrypt c) \<in> {''all'', ''only'', ''off''}
     \<and> check_host_entries (dc_only (cf_decrypt c) @ dc_never (cf_decrypt c)) = None"
    unfolding validate_config_def by (simp del: insert_iff)
  also have "\<dots> \<longleftrightarrow> 1 \<le> px_port (cf_proxy c) \<and> px_port (cf_proxy c) \<le> 65535 \<and> 0 \<le> cc_max_body (cf_capture c)
     \<and> 1 \<le> vc_max_bytes (cf_views c) \<and> 1 \<le> vc_page_size (cf_views c)
     \<and> dc_mode (cf_decrypt c) \<in> {''all'', ''only'', ''off''}
     \<and> list_all host_entry_ok (dc_only (cf_decrypt c) @ dc_never (cf_decrypt c))"
    unfolding check_host_entries_None by linarith
  finally show ?thesis .
qed

lemma default_config_valid: "validate_config default_config = None"
  by code_simp

section \<open>Files\<close>

type_synonym files = "string \<rightharpoonup> string"

text \<open>
  \<open>WriteAtomic\<close>. A write can fail, or the process die in it, with any prefix (or nothing) in the temporary
  file; a rename can fail, or the process die before it, and the temporary file is removed or stays.
\<close>

datatype write_fault = NoFault | WriteFault "string option" | RenameFault bool

fun write_atomic :: "write_fault \<Rightarrow> string \<Rightarrow> string \<Rightarrow> files \<Rightarrow> bool \<times> files" where
  "write_atomic NoFault path b fs = (True, fs(path @ ''.tmp'' := None, path \<mapsto> b))"
| "write_atomic (WriteFault left) path b fs = (False, fs(path @ ''.tmp'' := left))"
| "write_atomic (RenameFault removed) path b fs = (False, fs(path @ ''.tmp'' := (if removed then None else Some b)))"

lemma write_atomic_all_or_nothing:
  "snd (write_atomic flt path b fs) path = (if fst (write_atomic flt path b fs) then Some b else fs path)"
  by (cases flt) simp_all

lemma write_atomic_frame:
  "p \<noteq> path \<Longrightarrow> p \<noteq> path @ ''.tmp'' \<Longrightarrow> snd (write_atomic flt path b fs) p = fs p"
  by (cases flt) simp_all

section \<open>Paths\<close>

text \<open>\<open>join\<close> is \<open>filepath.Join\<close> of a directory and a name.\<close>

definition default_dir :: "(string \<Rightarrow> string \<Rightarrow> string) \<Rightarrow> string \<Rightarrow> string option \<Rightarrow> string option" where
  "default_dir join env home =
     (if env \<noteq> [] then Some env else map_option (\<lambda>h. join h ''.pano'') home)"

definition config_file :: "(string \<Rightarrow> string \<Rightarrow> string) \<Rightarrow> string \<Rightarrow> string" where
  "config_file join dir = join dir ''config.toml''"

definition socket_path :: "(string \<Rightarrow> string \<Rightarrow> string) \<Rightarrow> string \<Rightarrow> int \<Rightarrow> string \<Rightarrow> string" where
  "socket_path join tmp uid dir =
     (let s = join dir ''pano.sock''
      in if 100 < length s then join tmp (''pano-'' @ itoa uid @ ''.sock'') else s)"

section \<open>Loading and saving\<close>

record toml_lib =
  tm_unmarshal :: "string \<Rightarrow> config \<Rightarrow> config \<times> string option"
  tm_marshal :: "config \<Rightarrow> string + string"
  tm_has_retention :: "string \<Rightarrow> bool"
  tm_has_persist :: "string \<Rightarrow> bool"
  tm_has_decrypt :: "string \<Rightarrow> bool"

datatype config_warning = RetentionIgnored | PersistIgnored | BypassMigrated | BypassIgnored

datatype file_read = Absent | Unreadable string | Content string

definition old_keys :: "toml_lib \<Rightarrow> string \<Rightarrow> config_warning list" where
  "old_keys lib b =
     (if tm_has_retention lib b then [RetentionIgnored] else []) @ (if tm_has_persist lib b then [PersistIgnored] else [])"

text \<open>The migration of \<open>[proxy] bypass\<close>: it becomes the never list unless the file has a decrypt table.\<close>

definition migrate_bypass :: "toml_lib \<Rightarrow> string \<Rightarrow> config \<Rightarrow> config \<times> config_warning list" where
  "migrate_bypass lib b c =
     (let old = px_bypass (cf_proxy c); c1 = c\<lparr>cf_proxy := (cf_proxy c)\<lparr>px_bypass := []\<rparr>\<rparr>
      in if old = [] then (c, [])
         else if tm_has_decrypt lib b then (c1, [BypassIgnored])
         else (c1\<lparr>cf_decrypt := (cf_decrypt c)\<lparr>dc_never := old\<rparr>\<rparr>, [BypassMigrated]))"

fun load_config :: "toml_lib \<Rightarrow> file_read \<Rightarrow> config \<times> config_warning list \<times> config_error option" where
  "load_config lib Absent = (default_config, [], None)"
| "load_config lib (Unreadable e) = (default_config, [], Some (ReadFailed e))"
| "load_config lib (Content b) =
     (case tm_unmarshal lib b default_config of
        (c, Some e) \<Rightarrow> (c, [], Some (ParseFailed e))
      | (c, None) \<Rightarrow>
          (let (c1, ws) = migrate_bypass lib b c in (c1, old_keys lib b @ ws, validate_config c1)))"

definition save_config :: "toml_lib \<Rightarrow> write_fault \<Rightarrow> string \<Rightarrow> config \<Rightarrow> files \<Rightarrow> config_error option \<times> files" where
  "save_config lib flt path c fs =
     (case tm_marshal lib c of
        Inl e \<Rightarrow> (Some (EncodeFailed e), fs)
      | Inr b \<Rightarrow> (let (ok, fs1) = write_atomic flt path b fs in (if ok then None else Some (SaveFailed path), fs1)))"

definition read_config :: "files \<Rightarrow> string \<Rightarrow> file_read" where
  "read_config fs path = (case fs path of None \<Rightarrow> Absent | Some b \<Rightarrow> Content b)"

text \<open>What the code relies on in the codec, for the settings it saves: they marshal, are read back as they
  were, and the document has a decrypt table and none of the old keys.\<close>

definition toml_reads_back :: "toml_lib \<Rightarrow> config \<Rightarrow> bool" where
  "toml_reads_back lib c =
     (case tm_marshal lib c of
        Inl _ \<Rightarrow> False
      | Inr b \<Rightarrow> tm_unmarshal lib b default_config = (c, None) \<and> tm_has_decrypt lib b
          \<and> \<not> tm_has_retention lib b \<and> \<not> tm_has_persist lib b)"

lemma load_clears_bypass: "load_config lib r = (c, ws, None) \<Longrightarrow> px_bypass (cf_proxy c) = []"
  by (cases r) (auto simp: default_config_def migrate_bypass_def Let_def split: prod.splits option.splits if_splits)

lemma load_valid: "load_config lib r = (c, ws, None) \<Longrightarrow> validate_config c = None"
  by (cases r) (auto simp: default_config_valid split: prod.splits option.splits)

text \<open>A file of the old format: its bypass list becomes the never list, nothing else changes.\<close>

lemma bypass_migrated:
  assumes "tm_unmarshal lib b default_config = (c, None)" "px_bypass (cf_proxy c) \<noteq> []" "\<not> tm_has_decrypt lib b"
    and "list_all host_entry_ok (px_bypass (cf_proxy c))" "validate_config c = None"
  shows "\<exists>c' ws. load_config lib (Content b) = (c', ws, None) \<and> BypassMigrated \<in> set ws
    \<and> dc_never (cf_decrypt c') = px_bypass (cf_proxy c) \<and> dc_mode (cf_decrypt c') = dc_mode (cf_decrypt c)
    \<and> dc_only (cf_decrypt c') = dc_only (cf_decrypt c)"
  using assms by (auto simp: migrate_bypass_def Let_def validate_config_None list_all_iff)

lemma save_load:
  assumes "toml_reads_back lib c" "save_config lib flt path c fs = (None, fs')" "validate_config c = None" "px_bypass (cf_proxy c) = []"
  shows "load_config lib (read_config fs' path) = (c, [], None)"
proof -
  from assms(2) obtain b where b: "tm_marshal lib c = Inr b" and w: "fst (write_atomic flt path b fs)" "fs' = snd (write_atomic flt path b fs)"
    by (auto simp: save_config_def split: sum.splits prod.splits if_splits)
  have "fs' path = Some b" using write_atomic_all_or_nothing [of flt path b fs] w by simp
  moreover have "tm_unmarshal lib b default_config = (c, None)" "\<not> tm_has_retention lib b" "\<not> tm_has_persist lib b"
    using assms(1) b by (auto simp: toml_reads_back_def)
  ultimately show ?thesis using assms(3,4) by (simp add: read_config_def migrate_bypass_def old_keys_def)
qed

text \<open>Whatever happens to a save, what a restart reads is the settings of before or those saved.\<close>

lemma save_never_corrupts:
  "read_config (snd (save_config lib flt path c fs)) path
     \<in> {read_config fs path} \<union> (case tm_marshal lib c of Inl _ \<Rightarrow> {} | Inr b \<Rightarrow> {Content b})"
proof (cases "tm_marshal lib c")
  case (Inr b)
  then show ?thesis
    using write_atomic_all_or_nothing [of flt path b fs]
    by (auto simp: save_config_def read_config_def split_beta)
qed (simp add: save_config_def)

end
