(* ===== verification/Daemon_Decrypt.thy ===== *)
theory Daemon_Decrypt
  imports Config
begin

text \<open>
  Changing which tunnels are decrypted while the daemon runs (\<open>internal/daemon/backend.go\<close>: \<open>ChangeDecrypt\<close>,
  \<open>editHostList\<close>): a partial update is validated, installed in the proxy and saved to the configuration
  file, from which the next daemon starts.
\<close>

section \<open>Host lists\<close>

datatype decrypt_error = PolicyRejected policy_error | UnknownHost string

fun remove_hosts :: "string list \<Rightarrow> string list \<Rightarrow> decrypt_error + string list" where
  "remove_hosts out [] = Inr out"
| "remove_hosts out (r # rs) =
     (case normalize_host r of
        Inl e \<Rightarrow> Inl (PolicyRejected e)
      | Inr n \<Rightarrow>
          (let out1 = filter (\<lambda>h. \<not> (h = n \<or> h = r)) out
           in if length out1 = length out then Inl (UnknownHost r) else remove_hosts out1 rs))"

fun add_hosts :: "string list \<Rightarrow> string list \<Rightarrow> decrypt_error + string list" where
  "add_hosts out [] = Inr out"
| "add_hosts out (a # as) =
     (case normalize_host a of
        Inl e \<Rightarrow> Inl (PolicyRejected e)
      | Inr n \<Rightarrow> add_hosts (if n \<in> set out then out else out @ [n]) as)"

definition edit_host_list :: "string list \<Rightarrow> string list \<Rightarrow> string list \<Rightarrow> decrypt_error + string list" where
  "edit_host_list hs add remove =
     and_then (remove_hosts (filter (\<lambda>h. h \<noteq> []) hs) remove) (\<lambda>out. add_hosts out add)"

section \<open>ChangeDecrypt\<close>

record decrypt_change =
  ch_mode :: string
  ch_add_only :: "string list"
  ch_remove_only :: "string list"
  ch_add_never :: "string list"
  ch_remove_never :: "string list"

record decrypt_state =
  ds_policy :: decrypt_policy
  ds_rejected :: "(string \<times> rejected_host) list"
  ds_files :: files
  ds_cfg :: decrypt_cfg

definition rejected_alias :: string where
  "rejected_alias = ''@rejected''"

definition never_to_add :: "gotime \<Rightarrow> decrypt_change \<Rightarrow> decrypt_state \<Rightarrow> string list" where
  "never_to_add now c s =
     (if rejected_alias \<in> set (ch_add_never c)
      then filter (\<lambda>h. h \<noteq> rejected_alias) (ch_add_never c) @ List.map rj_host (fst (reject_list now (ds_rejected s)))
      else ch_add_never c)"

definition policy_change :: "gotime \<Rightarrow> decrypt_change \<Rightarrow> decrypt_state \<Rightarrow> decrypt_error + decrypt_policy" where
  "policy_change now c s =
     (let p = ds_policy s in
      and_then (if ch_mode c = [] then Inr (dp_mode p)
                else case parse_decrypt_mode (ch_mode c) of Inl e \<Rightarrow> Inl (PolicyRejected e) | Inr m \<Rightarrow> Inr m) (\<lambda>mode.
      and_then (edit_host_list (dp_only p) (ch_add_only c) (ch_remove_only c)) (\<lambda>only.
      and_then (edit_host_list (dp_never p) (never_to_add now c s) (ch_remove_never c)) (\<lambda>never.
      Inr \<lparr>dp_mode = mode, dp_only = only, dp_never = never\<rparr>))))"

definition cfg_of_policy :: "decrypt_policy \<Rightarrow> decrypt_cfg" where
  "cfg_of_policy p = \<lparr>dc_mode = dp_mode p, dc_only = dp_only p, dc_never = dp_never p\<rparr>"

definition persist_policy ::
  "toml_lib \<Rightarrow> write_fault \<Rightarrow> string \<Rightarrow> decrypt_policy \<Rightarrow> files \<Rightarrow> files" where
  "persist_policy lib flt path p fs =
     (case load_config lib (read_config fs path) of
        (cfg, _, None) \<Rightarrow> snd (save_config lib flt path (cfg\<lparr>cf_decrypt := cfg_of_policy p\<rparr>) fs)
      | (_, _, Some _) \<Rightarrow> fs)"

definition change_decrypt ::
  "toml_lib \<Rightarrow> write_fault \<Rightarrow> string \<Rightarrow> gotime \<Rightarrow> decrypt_change \<Rightarrow> decrypt_state \<Rightarrow> decrypt_error + decrypt_state" where
  "change_decrypt lib flt path now c s =
     and_then (policy_change now c s) (\<lambda>p.
       (let (p1, ring) = set_decrypt p (snd (reject_list now (ds_rejected s)))
        in Inr \<lparr>ds_policy = p1, ds_rejected = ring, ds_files = persist_policy lib flt path p (ds_files s),
                ds_cfg = cfg_of_policy p\<rparr>))"

section \<open>What the lists become\<close>

lemma remove_hosts_Inr:
  "remove_hosts out rs = Inr out' \<Longrightarrow>
     out' = filter (\<lambda>h. h \<notin> set rs \<and> Inr h \<notin> normalize_host ` set rs) out"
proof (induction rs arbitrary: out)
  case (Cons r rs)
  then obtain n where n: "normalize_host r = Inr n" and
    r: "remove_hosts (filter (\<lambda>h. \<not> (h = n \<or> h = r)) out) rs = Inr out'"
    by (auto simp: Let_def split: sum.splits if_splits)
  show ?case using Cons.IH [OF r] n by (auto intro!: filter_cong)
qed simp

lemma add_hosts_Inr:
  "add_hosts out as = Inr out' \<Longrightarrow>
     set out' = set out \<union> {n. Inr n \<in> normalize_host ` set as} \<and> (distinct out \<longrightarrow> distinct out')
     \<and> prefix out out'"
proof (induction as arbitrary: out)
  case (Cons a as)
  then obtain n where n: "normalize_host a = Inr n" and r: "add_hosts (if n \<in> set out then out else out @ [n]) as = Inr out'"
    by (auto split: sum.splits)
  have "prefix out (if n \<in> set out then out else out @ [n])" by simp
  with Cons.IH [OF r] n show ?case by (auto intro: prefix_order.trans)
qed simp

lemma edit_host_list_set:
  assumes "edit_host_list hs add remove = Inr out"
  shows "set out = {h \<in> set hs. h \<noteq> [] \<and> h \<notin> set remove \<and> Inr h \<notin> normalize_host ` set remove}
      \<union> {n. Inr n \<in> normalize_host ` set add}"
    and "distinct hs \<Longrightarrow> distinct out"
proof -
  from assms obtain kept where k: "remove_hosts (filter (\<lambda>h. h \<noteq> []) hs) remove = Inr kept" "add_hosts kept add = Inr out"
    by (auto simp: edit_host_list_def and_then_Inr)
  from remove_hosts_Inr [OF k(1)] add_hosts_Inr [OF k(2)]
  show "set out = {h \<in> set hs. h \<noteq> [] \<and> h \<notin> set remove \<and> Inr h \<notin> normalize_host ` set remove}
      \<union> {n. Inr n \<in> normalize_host ` set add}"
    and "distinct hs \<Longrightarrow> distinct out" by auto
qed

lemma split_host_port_set: "split_host_port s = Some (h, p) \<Longrightarrow> set h \<subseteq> set s"
  by (auto simp: split_host_port_def Let_def split: option.splits if_splits dest: in_set_takeD in_set_dropD)

text \<open>A normalised host passes validation, unless it is white space the trimming could not see.\<close>

lemma normalize_host_entry:
  assumes "normalize_host s = Inr n"
  shows "host_entry_ok n \<longleftrightarrow> trim_space n \<noteq> []"
proof -
  define h where "h = to_lower (trim_space s)"
  have h: "\<not> contains_any h [CHR '' '', CHR 0x09, CHR ''/'']" and n: "n = trim_suffix (case split_host_port h of Some (hp, _) \<Rightarrow> hp | None \<Rightarrow> h) ''.''"
    using assms by (auto simp: normalize_host_def h_def [symmetric] Let_def split: if_splits)
  have "set (case split_host_port h of Some (hp, _) \<Rightarrow> hp | None \<Rightarrow> h) \<subseteq> set h"
    by (auto split: option.split dest: split_host_port_set)
  then have "set n \<subseteq> set h" unfolding n trim_suffix_def by (auto dest: in_set_takeD)
  then have "\<not> contains_any n [CHR '' '', CHR 0x09, CHR ''/'']" using h by (auto simp: contains_any_iff)
  then show ?thesis by (simp add: host_entry_ok_def)
qed

lemma normalize_host_lower: "normalize_host s = Inr n \<Longrightarrow> to_lower n = n"
proof -
  assume "normalize_host s = Inr n"
  then have "set n \<subseteq> set (to_lower (trim_space s))"
    by (auto simp: normalize_host_def Let_def trim_suffix_def split: if_splits option.splits
        dest!: in_set_takeD split_host_port_set [THEN subsetD])
  then show ?thesis by (auto simp: to_lower_def intro!: map_idI)
qed

definition visible_entries :: "string list \<Rightarrow> bool" where
  "visible_entries hs = list_all (\<lambda>h. case normalize_host h of Inl _ \<Rightarrow> True | Inr n \<Rightarrow> trim_space n \<noteq> []) hs"

lemma edit_host_list_valid:
  assumes "edit_host_list hs add remove = Inr out" "list_all host_entry_ok hs" "visible_entries add"
  shows "list_all host_entry_ok out"
proof -
  have "host_entry_ok n" if "a \<in> set add" "normalize_host a = Inr n" for a n
    using assms(3) that normalize_host_entry [OF that(2)] by (fastforce simp: visible_entries_def list_all_iff)
  with assms(2) show ?thesis unfolding list_all_iff edit_host_list_set(1) [OF assms(1)] by (auto dest: sym)
qed

lemma parse_decrypt_mode_Inr: "parse_decrypt_mode s = Inr m \<Longrightarrow> m \<in> {''all'', ''only'', ''off''}"
  by (auto simp: parse_decrypt_mode_def mode_all_def mode_only_def mode_off_def Let_def split: if_splits)

lemma policy_change_parts:
  assumes "policy_change now c s = Inr p"
  shows "edit_host_list (dp_only (ds_policy s)) (ch_add_only c) (ch_remove_only c) = Inr (dp_only p)"
    and "edit_host_list (dp_never (ds_policy s)) (never_to_add now c s) (ch_remove_never c) = Inr (dp_never p)"
    and "dp_mode p = dp_mode (ds_policy s) \<or> dp_mode p \<in> {''all'', ''only'', ''off''}"
  using assms by (auto simp: policy_change_def Let_def and_then_Inr split: sum.splits if_splits dest: parse_decrypt_mode_Inr)

lemma change_decrypt_parts:
  assumes "change_decrypt lib flt path now c s = Inr s'"
  obtains p where "policy_change now c s = Inr p" "ds_policy s' = fst (set_decrypt p (snd (reject_list now (ds_rejected s))))"
    "ds_files s' = persist_policy lib flt path p (ds_files s)"
  using assms by (auto simp: change_decrypt_def and_then_Inr Let_def split_beta)

section \<open>Properties\<close>

text \<open>C33: a change of the decrypt policy survives a restart: when the configuration file could be read and
  the save succeeds, the next daemon starts with exactly the policy now in force and every other setting
  as it was in the file.\<close>

theorem decrypt_change_survives_restart:
  assumes "change_decrypt lib NoFault path now c s = Inr s'"
    and "load_config lib (read_config (ds_files s) path) = (cfg, ws, None)"
    and "toml_reads_back lib (cfg\<lparr>cf_decrypt := cfg_of_policy (ds_policy s')\<rparr>)"
    and "dp_mode (ds_policy s) \<in> {''all'', ''only'', ''off''}"
    and "list_all host_entry_ok (dp_only (ds_policy s) @ dp_never (ds_policy s))"
    and "visible_entries (ch_add_only c @ never_to_add now c s)"
  shows "load_config lib (read_config (ds_files s') path) = (cfg\<lparr>cf_decrypt := cfg_of_policy (ds_policy s')\<rparr>, [], None)"
proof -
  obtain p where p: "policy_change now c s = Inr p" and sp: "ds_policy s' = fst (set_decrypt p (snd (reject_list now (ds_rejected s))))"
    and fs: "ds_files s' = persist_policy lib NoFault path p (ds_files s)"
    using assms(1) by (rule change_decrypt_parts)
  note parts = policy_change_parts [OF p]
  have mode: "dp_mode p \<in> {''all'', ''only'', ''off''}" using parts(3) assms(4) by auto
  then have pol: "ds_policy s' = p" using sp by (auto simp: set_decrypt_def Let_def)
  let ?c = "cfg\<lparr>cf_decrypt := cfg_of_policy p\<rparr>"
  have "list_all host_entry_ok (dp_only p @ dp_never p)"
    using edit_host_list_valid [OF parts(1)] edit_host_list_valid [OF parts(2)] assms(5,6)
    by (simp add: visible_entries_def)
  with load_valid [OF assms(2)] mode have valid: "validate_config ?c = None"
    unfolding validate_config_None by (simp add: cfg_of_policy_def)
  have bypass: "px_bypass (cf_proxy ?c) = []" using load_clears_bypass [OF assms(2)] by simp
  obtain b where b: "tm_marshal lib ?c = Inr b" using assms(3) pol by (auto simp: toml_reads_back_def split: sum.splits)
  then have "save_config lib NoFault path ?c (ds_files s) = (None, ds_files s')"
    using fs assms(2) by (simp add: persist_policy_def save_config_def)
  from save_load [OF _ this valid bypass] assms(3) pol show ?thesis by simp
qed

text \<open>After an accepted change, no tunnel to a host put on the never list, or to one of its subdomains, is
  decrypted, in any mode and whatever the only list says.\<close>

theorem never_entries_bind:
  assumes "change_decrypt lib flt path now c s = Inr s'" "entry \<in> set (never_to_add now c s)"
    and "normalize_host entry = Inr n" "\<not> is_pattern n" "to_lower host = n \<or> has_suffix (to_lower host) (CHR ''.'' # n)"
  shows "\<not> fst (decide (ds_policy s') host)"
proof -
  obtain p where p: "policy_change now c s = Inr p" and sp: "ds_policy s' = fst (set_decrypt p (snd (reject_list now (ds_rejected s))))"
    using assms(1) by (rule change_decrypt_parts)
  have "n \<in> set (dp_never p)"
    using edit_host_list_set(1) [OF policy_change_parts(2) [OF p]] assms(2,3) by (auto dest: sym)
  moreover have "dp_never (ds_policy s') = dp_never p" using sp by (simp add: set_decrypt_def Let_def)
  moreover have "to_lower n = n" using normalize_host_lower [OF assms(3)] .
  with assms(4,5) have "host_match n host" by (auto simp: host_match_def Let_def)
  ultimately show ?thesis by (auto simp: decide_def host_match_any_def list_ex_iff)
qed

text \<open>White space that trimming does not see inside brackets passes \<open>NormalizeHost\<close>, and what is saved then no
  longer loads.\<close>

lemma invisible_entry_saved:
  "normalize_host (''['' @ [CHR 0x0A] @ '']:1'') = Inr [CHR 0x0A] \<and> \<not> host_entry_ok [CHR 0x0A]"
  by code_simp

section \<open>Samples\<close>

definition sample_change :: decrypt_change where
  "sample_change = \<lparr>ch_mode = '' Only'', ch_add_only = [''localhost''], ch_remove_only = [],
     ch_add_never = ['' Bank.com:443 ''], ch_remove_never = [''*.icloud.com'']\<rparr>"

definition sample_policy :: decrypt_policy where
  "sample_policy = \<lparr>dp_mode = ''only'', dp_only = [''localhost''],
     dp_never = [''*.push.apple.com'', ''*.icloud-content.com'', ''*.apple-cloudkit.com'', ''*.ls.apple.com'', ''bank.com'']\<rparr>"

definition sample_toml :: toml_lib where
  "sample_toml = \<lparr>tm_unmarshal = (\<lambda>_ c. (c\<lparr>cf_decrypt := cfg_of_policy sample_policy\<rparr>, None)), tm_marshal = (\<lambda>_. Inr ''doc''),
     tm_has_retention = (\<lambda>_. False), tm_has_persist = (\<lambda>_. False), tm_has_decrypt = (\<lambda>_. True)\<rparr>"

definition sample_decrypt :: decrypt_state where
  "sample_decrypt = \<lparr>ds_policy = \<lparr>dp_mode = ''all'', dp_only = [], dp_never = default_never\<rparr>, ds_rejected = [],
     ds_files = Map.empty, ds_cfg = cf_decrypt default_config\<rparr>"

lemma sample_change_accepted:
  "\<exists>s'. change_decrypt sample_toml NoFault ''c'' 5 sample_change sample_decrypt = Inr s' \<and> ds_policy s' = sample_policy"
proof -
  have p: "policy_change 5 sample_change sample_decrypt = Inr sample_policy" by code_simp
  have "dp_mode sample_policy \<noteq> []" by (simp add: sample_policy_def)
  with p show ?thesis by (simp add: change_decrypt_def Let_def set_decrypt_def)
qed

lemma decrypt_change_survives_restart_witness:
  "\<exists>s'. change_decrypt sample_toml NoFault ''c'' 5 sample_change sample_decrypt = Inr s' \<and> ds_policy s' = sample_policy
    \<and> load_config sample_toml (read_config (ds_files s') ''c'')
        = (default_config\<lparr>cf_decrypt := cfg_of_policy sample_policy\<rparr>, [], None)"
proof -
  from sample_change_accepted obtain s' where s':
    "change_decrypt sample_toml NoFault ''c'' 5 sample_change sample_decrypt = Inr s'" "ds_policy s' = sample_policy" by blast
  have "load_config sample_toml (read_config (ds_files sample_decrypt) ''c'') = (default_config, [], None)"
    by (simp add: sample_decrypt_def read_config_def)
  moreover have "toml_reads_back sample_toml (default_config\<lparr>cf_decrypt := cfg_of_policy (ds_policy s')\<rparr>)"
    by (simp add: toml_reads_back_def sample_toml_def s'(2))
  moreover have "dp_mode (ds_policy sample_decrypt) \<in> {''all'', ''only'', ''off''}" by (simp add: sample_decrypt_def)
  moreover have "list_all host_entry_ok (dp_only (ds_policy sample_decrypt) @ dp_never (ds_policy sample_decrypt))" by code_simp
  moreover have "visible_entries (ch_add_only sample_change @ never_to_add 5 sample_change sample_decrypt)" by code_simp
  ultimately have "load_config sample_toml (read_config (ds_files s') ''c'')
      = (default_config\<lparr>cf_decrypt := cfg_of_policy (ds_policy s')\<rparr>, [], None)"
    by (rule decrypt_change_survives_restart [OF s'(1)])
  with s' show ?thesis by auto
qed

lemma never_entries_bind_witness:
  "\<exists>s'. change_decrypt sample_toml NoFault ''c'' 5 sample_change sample_decrypt = Inr s'
    \<and> \<not> fst (decide (ds_policy s') ''www.BANK.com'')"
proof -
  from sample_change_accepted obtain s' where s':
    "change_decrypt sample_toml NoFault ''c'' 5 sample_change sample_decrypt = Inr s'" by blast
  moreover have "'' Bank.com:443 '' \<in> set (never_to_add 5 sample_change sample_decrypt)" by code_simp
  moreover have "normalize_host '' Bank.com:443 '' = Inr ''bank.com''" "\<not> is_pattern ''bank.com''"
    "has_suffix (to_lower ''www.BANK.com'') (CHR ''.'' # ''bank.com'')" by code_simp+
  ultimately show ?thesis using never_entries_bind by blast
qed

end
