(* ===== verification/Har_Base64.thy ===== *)
theory Har_Base64
  imports Flow
begin

text \<open>
  \<open>encoding/base64\<close> as \<open>internal/har\<close> uses it: \<open>StdEncoding.EncodeToString\<close> for bodies that are not text, and
  the four decoders an imported body is tried with (standard or URL alphabet, padded or not, trailing
  bits ignored), with \<open>decodeBody\<close> itself.
\<close>

section \<open>Alphabets and quanta\<close>

definition b64_std :: string where
  "b64_std = ''ABCDEFGHIJKLMNOPQRSTUVWXYZabcdefghijklmnopqrstuvwxyz0123456789+/''"

definition b64_url :: string where
  "b64_url = ''ABCDEFGHIJKLMNOPQRSTUVWXYZabcdefghijklmnopqrstuvwxyz0123456789-_''"

definition b64_pad :: char where "b64_pad = CHR ''=''"

abbreviation byte_of :: "char \<Rightarrow> nat" where "byte_of c \<equiv> of_char c"

fun b64_encode :: "string \<Rightarrow> string \<Rightarrow> string" where
  "b64_encode al (a # b # c # s) =
     al ! (byte_of a div 4) # al ! (byte_of a mod 4 * 16 + byte_of b div 16)
     # al ! (byte_of b mod 16 * 4 + byte_of c div 64) # al ! (byte_of c mod 64) # b64_encode al s"
| "b64_encode al [a, b] =
     [al ! (byte_of a div 4), al ! (byte_of a mod 4 * 16 + byte_of b div 16), al ! (byte_of b mod 16 * 4), b64_pad]"
| "b64_encode al [a] = [al ! (byte_of a div 4), al ! (byte_of a mod 4 * 16), b64_pad, b64_pad]"
| "b64_encode al [] = []"

definition byte1 :: "nat \<Rightarrow> nat \<Rightarrow> char" where "byte1 v w = char_of (v * 4 + w div 16)"
definition byte2 :: "nat \<Rightarrow> nat \<Rightarrow> char" where "byte2 v w = char_of (v mod 16 * 16 + w div 4)"
definition byte3 :: "nat \<Rightarrow> nat \<Rightarrow> char" where "byte3 v w = char_of (v mod 4 * 64 + w)"

text \<open>A padded decoder wants whole quanta and padding only at the end; a raw one takes no padding at all.\<close>

fun b64_quanta :: "string \<Rightarrow> bool \<Rightarrow> string \<Rightarrow> string option" where
  "b64_quanta al padded [] = Some []"
| "b64_quanta al padded [a] = None"
| "b64_quanta al padded [a, b] =
     (if padded then None
      else case (find_index a al, find_index b al) of (Some x, Some y) \<Rightarrow> Some [byte1 x y] | _ \<Rightarrow> None)"
| "b64_quanta al padded [a, b, c] =
     (if padded then None
      else case (find_index a al, find_index b al, find_index c al) of
             (Some x, Some y, Some z) \<Rightarrow> Some [byte1 x y, byte2 y z] | _ \<Rightarrow> None)"
| "b64_quanta al padded (a # b # c # d # s) =
     (case (find_index a al, find_index b al) of
        (Some x, Some y) \<Rightarrow>
          (if padded \<and> c = b64_pad then (if d = b64_pad \<and> s = [] then Some [byte1 x y] else None)
           else case find_index c al of
                  None \<Rightarrow> None
                | Some z \<Rightarrow>
                    (if padded \<and> d = b64_pad then (if s = [] then Some [byte1 x y, byte2 y z] else None)
                     else case find_index d al of
                            None \<Rightarrow> None
                          | Some w \<Rightarrow> map_option (\<lambda>r. byte1 x y # byte2 y z # byte3 z w # r) (b64_quanta al padded s)))
      | _ \<Rightarrow> None)"

text \<open>\<open>DecodeString\<close> skips line breaks.\<close>

definition b64_decode :: "string \<Rightarrow> bool \<Rightarrow> string \<Rightarrow> string option" where
  "b64_decode al padded s = b64_quanta al padded (filter (\<lambda>c. c \<noteq> CHR 0x0A \<and> c \<noteq> CHR 0x0D) s)"

section \<open>Bodies\<close>

definition first_decoded :: "string \<Rightarrow> string option" where
  "first_decoded clean =
     (case b64_decode b64_std True clean of Some b \<Rightarrow> Some b | None \<Rightarrow>
      case b64_decode b64_std False clean of Some b \<Rightarrow> Some b | None \<Rightarrow>
      case b64_decode b64_url True clean of Some b \<Rightarrow> Some b | None \<Rightarrow> b64_decode b64_url False clean)"

definition har_blank :: "char \<Rightarrow> bool" where
  "har_blank c = (c \<in> set [CHR '' '', CHR 0x0A, CHR 0x0D, CHR 0x09])"

text \<open>\<open>decodeBody\<close>: text, or base64 in any of the four forms; what none of them takes stays as it is.\<close>

definition decode_har_body :: "string \<Rightarrow> string \<Rightarrow> string" where
  "decode_har_body t enc =
     (if t = [] then []
      else if \<not> equal_fold (trim_space enc) ''base64'' then t
      else case first_decoded (filter (\<lambda>c. \<not> har_blank c) t) of Some b \<Rightarrow> b | None \<Rightarrow> t)"

section \<open>Decoding inverts encoding\<close>

lemma find_index_nth: "distinct al \<Longrightarrow> v < length al \<Longrightarrow> find_index (al ! v) al = Some v"
proof (induction al arbitrary: v)
  case (Cons c al)
  then show ?case by (cases v) auto
qed simp

lemma b64_std_facts: "distinct b64_std" "length b64_std = 64" "b64_pad \<notin> set b64_std" "list_all (\<lambda>c. \<not> har_blank c) b64_std"
  by code_simp+

lemma find_b64: "v < 64 \<Longrightarrow> find_index (b64_std ! v) b64_std = Some v"
  by (rule find_index_nth) (simp_all add: b64_std_facts)

lemma b64_not_pad: "v < 64 \<Longrightarrow> b64_std ! v \<noteq> b64_pad"
  using b64_std_facts(2,3) nth_mem [of v b64_std] by metis

lemma byte_parts: "byte_of c div 4 < 64" "byte_of c div 16 < 16" "byte_of c div 64 < 4"
  by (rule less_mult_imp_div_less, use of_char_less_256 [of c] in simp)+

lemma sixbit:
  "byte_of a div 4 < 64" "byte_of a mod 4 * 16 + byte_of b div 16 < 64" "byte_of b mod 16 * 4 + byte_of c div 64 < 64"
  "byte_of c mod 64 < 64" "byte_of a mod 4 * 16 < 64" "byte_of b mod 16 * 4 < 64"
proof -
  have "byte_of a mod 4 < 4" "byte_of b mod 16 < 16" by simp_all
  then show "byte_of a div 4 < 64" "byte_of a mod 4 * 16 + byte_of b div 16 < 64" "byte_of b mod 16 * 4 + byte_of c div 64 < 64"
    "byte_of c mod 64 < 64" "byte_of a mod 4 * 16 < 64" "byte_of b mod 16 * 4 < 64"
    using byte_parts [of a] byte_parts [of b] byte_parts [of c] by linarith+
qed

lemma byte1_inv: "byte1 (byte_of a div 4) (byte_of a mod 4 * 16 + k) = a" if "k < 16"
proof -
  have "byte_of a div 4 * 4 + (byte_of a mod 4 * 16 + k) div 16 = byte_of a" using that by simp
  then show ?thesis by (simp add: byte1_def)
qed

lemma byte2_inv: "byte2 (j * 16 + byte_of b div 16) (byte_of b mod 16 * 4 + k) = b" if "k < 4"
proof -
  have "byte_of b div 16 < 16" by (rule byte_parts)
  then have "(j * 16 + byte_of b div 16) mod 16 * 16 + (byte_of b mod 16 * 4 + k) div 4 = byte_of b" using that by simp
  then show ?thesis by (simp add: byte2_def)
qed

lemma byte3_inv: "byte3 (j * 4 + byte_of c div 64) (byte_of c mod 64) = c"
proof -
  have "byte_of c div 64 < 4" by (rule byte_parts)
  then have "(j * 4 + byte_of c div 64) mod 4 * 64 + byte_of c mod 64 = byte_of c" by simp
  then show ?thesis by (simp add: byte3_def)
qed

lemma b64_quanta_encode: "b64_quanta b64_std True (b64_encode b64_std s) = Some s"
proof (induction b64_std s rule: b64_encode.induct)
  case (1 a b c s)
  have k: "byte_of b div 16 < 16" "byte_of c div 64 < 4" by (rule byte_parts)+
  from 1 show ?case
    by (simp add: find_b64 sixbit b64_not_pad byte1_inv [OF k(1)] byte2_inv [OF k(2)] byte3_inv)
next
  case (2 a b)
  have k: "byte_of b div 16 < 16" by (rule byte_parts)
  show ?case using byte2_inv [of 0] by (simp add: find_b64 sixbit b64_not_pad byte1_inv [OF k])
next
  case (3 a)
  show ?case using byte1_inv [of 0] by (simp add: find_b64 sixbit b64_not_pad)
qed simp

lemma b64_encode_visible: "list_all (\<lambda>c. \<not> har_blank c) (b64_encode b64_std s)"
proof -
  have v: "\<not> har_blank (b64_std ! v)" if "v < 64" for v
    using that b64_std_facts(2,4) nth_mem [of v b64_std] by (simp add: list_all_iff)
  moreover have "\<not> har_blank b64_pad" by code_simp
  ultimately show ?thesis by (induction b64_std s rule: b64_encode.induct) (simp_all add: sixbit)
qed

lemma b64_encode_Nil [simp]: "b64_encode al s = [] \<longleftrightarrow> s = []"
  by (cases "(al, s)" rule: b64_encode.cases) auto

lemma decode_har_base64: "decode_har_body (b64_encode b64_std s) ''base64'' = s"
proof (cases "s = []")
  case False
  have "filter (\<lambda>c. \<not> har_blank c) (b64_encode b64_std s) = b64_encode b64_std s"
    "filter (\<lambda>c. c \<noteq> CHR 0x0A \<and> c \<noteq> CHR 0x0D) (b64_encode b64_std s) = b64_encode b64_std s"
    using b64_encode_visible [of s] by (auto simp: filter_id_conv list_all_iff har_blank_def)
  moreover have "equal_fold (trim_space ''base64'') ''base64''" by code_simp
  ultimately show ?thesis using False
    by (simp add: decode_har_body_def first_decoded_def b64_decode_def b64_quanta_encode)
qed (simp add: decode_har_body_def)

lemma decode_har_text: "decode_har_body s [] = s"
proof -
  have "\<not> equal_fold (trim_space []) ''base64''" by code_simp
  then show ?thesis by (simp add: decode_har_body_def)
qed

lemma base64_samples:
  "b64_encode b64_std ''Man'' = ''TWFu'' \<and> b64_encode b64_std ''Ma'' = ''TWE='' \<and> b64_encode b64_std ''M'' = ''TQ==''
   \<and> decode_har_body '' TWE '' '' Base64'' = ''Ma'' \<and> decode_har_body ''TW='' ''base64'' = ''TW=''
   \<and> decode_har_body (''_-8'' @ [CHR 0x0A] @ ''='') ''base64'' = [CHR 0xFF, CHR 0xEF]"
  by code_simp

end
