(* ===== verification/Har.thy ===== *)
theory Har
  imports Har_Base64 Proxy_Exchange View_Form
begin

text \<open>
  HAR documents (\<open>internal/har\<close>): a flow as a HAR entry (\<open>export.go\<close>) and an entry as a flow (\<open>import.go\<close>).
  The JSON text of the document, cookie and URL parsing, dates, and floating-point milliseconds are
  parameters: a number of milliseconds is a value of any type \<open>'m\<close>, \<open>hl_ms\<close> makes one from a duration and
  \<open>hl_dur\<close> truncates it back to one. A kind or state outside the flow's own is \<open>None\<close>, as an empty one.
\<close>

section \<open>The document\<close>

record har_cookie =
  ck_name :: string
  ck_value :: string
  ck_path :: string
  ck_domain :: string
  ck_expires :: string
  ck_http_only :: bool
  ck_secure :: bool

record post_data =
  pd_mime :: string
  pd_text :: string
  pd_encoding :: string
  pd_comment :: string

record har_content =
  hc_size :: int
  hc_compression :: "int option"
  hc_mime :: string
  hc_text :: string
  hc_encoding :: string
  hc_comment :: string

record har_request =
  hr_method :: string
  hr_url :: string
  hr_version :: string
  hr_cookies :: "har_cookie list"
  hr_headers :: "(string \<times> string) list"
  hr_query :: "(string \<times> string) list"
  hr_post :: "post_data option"
  hr_body_size :: int

record har_response =
  hs_status :: int
  hs_status_text :: string
  hs_version :: string
  hs_cookies :: "har_cookie list"
  hs_headers :: "(string \<times> string) list"
  hs_content :: har_content
  hs_redirect :: string
  hs_body_size :: int
  hs_error :: string

record 'm har_timings =
  ht_blocked :: 'm
  ht_dns :: 'm
  ht_connect :: 'm
  ht_send :: 'm
  ht_wait :: 'm
  ht_receive :: 'm
  ht_ssl :: 'm

record pano_ext =
  pe_id :: flow_id
  pe_short :: string
  pe_kind :: "flow_kind option"
  pe_state :: "flow_state option"
  pe_session :: string
  pe_error :: string
  pe_tags :: "string list"
  pe_rules :: "rule_hit list"
  pe_req_truncated :: bool
  pe_resp_truncated :: bool
  pe_replay :: bool
  pe_replay_of :: flow_id

record 'm har_entry =
  he_started :: string
  he_time :: 'm
  he_request :: har_request
  he_response :: har_response
  he_timings :: "'m har_timings"
  he_connection :: string
  he_pano :: "pano_ext option"

record url_parts =
  up_scheme :: string
  up_hostname :: string
  up_port :: string
  up_escaped_path :: string
  up_raw_query :: string

record 'm har_lib =
  hl_format_time :: "gotime \<Rightarrow> string"
  hl_parse_time :: "string \<Rightarrow> gotime option"
  hl_ms :: "duration \<Rightarrow> 'm"
  hl_none :: 'm
  hl_neg :: "'m \<Rightarrow> bool"
  hl_pos :: "'m \<Rightarrow> bool"
  hl_dur :: "'m \<Rightarrow> duration"
  hl_req_cookies :: "header \<Rightarrow> (string \<times> string) list"
  hl_resp_cookies :: "header \<Rightarrow> har_cookie list"
  hl_parse_url :: "string \<Rightarrow> url_parts option"

section \<open>Export\<close>

record export_options =
  eo_body :: "(string \<Rightarrow> string option) option"
  eo_redact_headers :: "(header \<Rightarrow> header) option"
  eo_redact_text :: "(string \<Rightarrow> string) option"
  eo_max_body :: int

definition first_non_empty :: "string \<Rightarrow> string \<Rightarrow> string" where
  "first_non_empty a b = (if a \<noteq> [] then a else b)"

definition has_body :: "body_ref \<Rightarrow> bool" where
  "has_body ref = (0 < br_size ref \<or> 0 < br_captured ref \<or> br_hash ref \<noteq> [])"

definition is_text :: "string \<Rightarrow> bool" where
  "is_text mime = is_textual (class_str (mime_of mime))"

text \<open>The notes of a body's comment, and the inline body: text, encoding, notes and the number of bytes fetched.\<close>

datatype body_note = TruncatedNote int int | OmittedNote | NotAvailable | OverCap int int

record exported_body =
  xb_text :: string
  xb_encoding :: string
  xb_notes :: "body_note list"
  xb_size :: int

definition export_body :: "export_options \<Rightarrow> body_ref \<Rightarrow> string \<Rightarrow> exported_body" where
  "export_body opts ref mime =
     (let cut_note = (if br_truncated ref then [TruncatedNote (br_captured ref) (br_size ref)] else []);
          without = (\<lambda>n sz. \<lparr>xb_text = [], xb_encoding = [], xb_notes = cut_note @ [n], xb_size = sz\<rparr>)
      in if eo_max_body opts < 0 then without OmittedNote (-1)
         else case eo_body opts of
                None \<Rightarrow> without NotAvailable (-1)
              | Some fetch \<Rightarrow>
                  if br_hash ref = [] then without NotAvailable (-1)
                  else case fetch (br_hash ref) of
                         None \<Rightarrow> without NotAvailable (-1)
                       | Some b \<Rightarrow>
                           if eo_max_body opts < int (length b)
                           then without (OverCap (int (length b)) (eo_max_body opts)) (int (length b))
                           else if is_text mime \<and> utf8_valid b
                           then \<lparr>xb_text = (case eo_redact_text opts of None \<Rightarrow> b | Some r \<Rightarrow> r b), xb_encoding = [],
                                  xb_notes = cut_note, xb_size = int (length b)\<rparr>
                           else \<lparr>xb_text = b64_encode b64_std b, xb_encoding = ''base64'', xb_notes = cut_note,
                                  xb_size = int (length b)\<rparr>)"

definition note_text :: "body_note \<Rightarrow> string" where
  "note_text n =
     (case n of
        TruncatedNote c s \<Rightarrow> ''body truncated at capture ('' @ itoa c @ '' of '' @ itoa s @ '' bytes)''
      | OmittedNote \<Rightarrow> ''body omitted''
      | NotAvailable \<Rightarrow> ''body not available''
      | OverCap n cap \<Rightarrow> ''body omitted: '' @ itoa n @ '' bytes exceeds inline cap of '' @ itoa cap @ '' bytes'')"

definition xb_comment :: "exported_body \<Rightarrow> string" where
  "xb_comment b = str_join ''; '' (List.map note_text (xb_notes b))"

definition header_pairs :: "header \<Rightarrow> (string \<times> string) list" where
  "header_pairs h =
     concat (List.map (\<lambda>k. List.map (Pair k) (case map_of h k of None \<Rightarrow> [] | Some vs \<Rightarrow> vs)) (sort (List.map fst h)))"

definition query_pairs :: "string \<Rightarrow> (string \<times> string) list" where
  "query_pairs raw = List.map form_pair (filter (\<lambda>p. p \<noteq> []) (str_split (CHR ''&'') raw))"

definition har_ms :: "'m har_lib \<Rightarrow> duration \<Rightarrow> 'm" where
  "har_ms lib d = (if d < 0 then hl_ms lib 0 else hl_ms lib d)"

definition export_timings :: "'m har_lib \<Rightarrow> timing \<Rightarrow> 'm har_timings" where
  "export_timings lib t =
     (let gap = (\<lambda>a b. har_ms lib (time_sub b a));
          none = hl_none lib;
          (dns, c1) = (if time_is_zero (t_dns_done t) then (none, t_start t)
                       else (gap (t_start t) (t_dns_done t), t_dns_done t));
          (ssl, connect, c2) =
            (if \<not> time_is_zero (t_connected t)
             then if \<not> time_is_zero (t_tls_done t)
                  then (gap (t_connected t) (t_tls_done t), gap c1 (t_tls_done t), t_tls_done t)
                  else (none, gap c1 (t_connected t), t_connected t)
             else if \<not> time_is_zero (t_tls_done t) then (none, gap c1 (t_tls_done t), t_tls_done t)
             else (none, none, c1));
          (send, c3) = (if time_is_zero (t_wrote_req t) then (none, c2) else (gap c2 (t_wrote_req t), t_wrote_req t));
          (wait, c4) = (if time_is_zero (t_first_byte t) then (none, c3) else (gap c3 (t_first_byte t), t_first_byte t));
          receive = (if time_is_zero (t_end t) \<or> time_is_zero (t_first_byte t) then none else gap c4 (t_end t))
      in \<lparr>ht_blocked = none, ht_dns = dns, ht_connect = connect, ht_send = send, ht_wait = wait, ht_receive = receive,
          ht_ssl = ssl\<rparr>)"

definition export_method :: "flow \<Rightarrow> string" where
  "export_method f =
     (if fl_method f \<noteq> [] then fl_method f
      else case fl_kind f of KindTunnel \<Rightarrow> ''CONNECT'' | KindWebSocket \<Rightarrow> ''GET'' | KindHTTP \<Rightarrow> [])"

definition export_request :: "'m har_lib \<Rightarrow> export_options \<Rightarrow> header \<Rightarrow> flow \<Rightarrow> har_request" where
  "export_request lib opts h f =
     \<lparr>hr_method = export_method f, hr_url = flow_url f, hr_version = fl_proto f,
      hr_cookies = List.map (\<lambda>(n, v). \<lparr>ck_name = n, ck_value = v, ck_path = [], ck_domain = [], ck_expires = [],
        ck_http_only = False, ck_secure = False\<rparr>) (hl_req_cookies lib h),
      hr_headers = header_pairs h, hr_query = query_pairs (fl_query f),
      hr_post = (if has_body (fl_req_body f)
                 then let mime = first_non_empty (header_get h ''Content-Type'') (br_mime (fl_req_body f));
                          b = export_body opts (fl_req_body f) mime
                      in Some \<lparr>pd_mime = mime, pd_text = xb_text b, pd_encoding = xb_encoding b, pd_comment = xb_comment b\<rparr>
                 else None),
      hr_body_size = br_size (fl_req_body f)\<rparr>"

definition export_content :: "export_options \<Rightarrow> header \<Rightarrow> flow \<Rightarrow> har_content" where
  "export_content opts h f =
     (let ref = fl_resp_body f;
          mime = first_non_empty (header_get h ''Content-Type'') (br_mime ref);
          c = \<lparr>hc_size = br_size ref, hc_compression = None, hc_mime = mime, hc_text = [], hc_encoding = [], hc_comment = []\<rparr>
      in if has_body ref
         then let b = export_body opts ref mime;
                  c1 = c\<lparr>hc_text := xb_text b, hc_encoding := xb_encoding b, hc_comment := xb_comment b\<rparr>
              in if 0 \<le> xb_size b
                 then c1\<lparr>hc_size := xb_size b,
                         hc_compression := (if br_encoding ref \<noteq> [] \<and> br_size ref \<le> xb_size b
                                            then Some (xb_size b - br_size ref) else None)\<rparr>
                 else c1
         else c)"

definition export_response :: "'m har_lib \<Rightarrow> export_options \<Rightarrow> header \<Rightarrow> flow \<Rightarrow> har_response" where
  "export_response lib opts h f =
     \<lparr>hs_status = fl_status f, hs_status_text = status_text (fl_status f),
      hs_version = first_non_empty (fl_up_proto f) (fl_proto f), hs_cookies = hl_resp_cookies lib h,
      hs_headers = header_pairs h, hs_content = export_content opts h f, hs_redirect = header_get h ''Location'',
      hs_body_size = br_size (fl_resp_body f), hs_error = []\<rparr>"

definition pano_ext_of :: "flow \<Rightarrow> pano_ext" where
  "pano_ext_of f =
     \<lparr>pe_id = fl_id f, pe_short = short (fl_id f), pe_kind = Some (fl_kind f), pe_state = Some (fl_state f),
      pe_session = fl_session f, pe_error = fl_error f, pe_tags = fl_tags f, pe_rules = fl_rules f,
      pe_req_truncated = br_truncated (fl_req_body f), pe_resp_truncated = br_truncated (fl_resp_body f),
      pe_replay = fl_replay f, pe_replay_of = fl_replay_of f\<rparr>"

definition export_entry :: "'m har_lib \<Rightarrow> export_options \<Rightarrow> flow \<Rightarrow> 'm har_entry" where
  "export_entry lib opts f =
     (let redact = (case eo_redact_headers opts of None \<Rightarrow> id | Some r \<Rightarrow> r) in
      \<lparr>he_started = hl_format_time lib (t_start (fl_t f)),
       he_time = (if time_is_zero (t_end (fl_t f)) then hl_none lib
                  else har_ms lib (time_sub (t_end (fl_t f)) (t_start (fl_t f)))),
       he_request = export_request lib opts (redact (fl_req_headers f)) f,
       he_response = export_response lib opts (redact (fl_resp_headers f)) f,
       he_timings = export_timings lib (fl_t f), he_connection = fl_client f, he_pano = Some (pano_ext_of f)\<rparr>)"

text \<open>\<open>Export\<close>: the entries written, in order, and how many; a zero cap means the default of a mebibyte.\<close>

definition export_har :: "'m har_lib \<Rightarrow> export_options \<Rightarrow> flow option list \<Rightarrow> 'm har_entry list \<times> nat" where
  "export_har lib opts flows =
     (let opts' = (if eo_max_body opts = 0 then opts\<lparr>eo_max_body := 2 ^ 20\<rparr> else opts);
          es = List.map (export_entry lib opts') (concat (List.map (\<lambda>f. case f of None \<Rightarrow> [] | Some f \<Rightarrow> [f]) flows))
      in (es, length es))"

section \<open>Import\<close>

definition header_map :: "(string \<times> string) list \<Rightarrow> header" where
  "header_map pairs =
     fold (\<lambda>(n, v) h. if n = [] \<or> has_prefix n '':'' then h
                     else map_put (canonical_key n) (header_values h n @ [v]) h) pairs []"

definition join_cookies :: "har_cookie list \<Rightarrow> string" where
  "join_cookies cs =
     str_join ''; '' (List.map (\<lambda>c. ck_name c @ ''='' @ ck_value c) (filter (\<lambda>c. ck_name c \<noteq> []) cs))"

text \<open>\<open>bodyRef\<close>: a size that was declared wins over the bytes at hand.\<close>

definition import_ref :: "string \<Rightarrow> string \<Rightarrow> string \<Rightarrow> int \<Rightarrow> int \<Rightarrow> body_ref" where
  "import_ref b mime ctype declared wire =
     \<lparr>br_hash = [], br_size = (if 0 < declared then declared else if 0 < wire then wire else int (length b)),
      br_captured = int (length b), br_truncated = False, br_encoding = [],
      br_mime = media_type (first_non_empty mime ctype)\<rparr>"

definition no_ref :: body_ref where
  "no_ref = \<lparr>br_hash = [], br_size = 0, br_captured = 0, br_truncated = False, br_encoding = [], br_mime = []\<rparr>"

definition har_advance :: "'m har_lib \<Rightarrow> 'm \<Rightarrow> gotime \<Rightarrow> gotime \<times> bool" where
  "har_advance lib v c = (if hl_neg lib v then (c, False) else (c + hl_dur lib v, True))"

definition import_timing :: "'m har_lib \<Rightarrow> 'm har_entry \<Rightarrow> timing" where
  "import_timing lib e =
     (case hl_parse_time lib (trim_space (he_started e)) of
        None \<Rightarrow> zero_timing
      | Some start \<Rightarrow>
          (let tm = he_timings e;
               (c0, _) = har_advance lib (ht_blocked tm) start;
               (c1, has_dns) = har_advance lib (ht_dns tm) c0;
               (c2, has_conn) = har_advance lib (ht_connect tm) c1;
               has_tls = (has_conn \<and> \<not> hl_neg lib (ht_ssl tm));
               (c3, has_send) = har_advance lib (ht_send tm) c2;
               (c4, has_wait) = har_advance lib (ht_wait tm) c3;
               (c5, has_recv) = har_advance lib (ht_receive tm) c4
           in \<lparr>t_start = start, t_dns_done = (if has_dns then c1 else 0),
               t_connected = (if has_tls then c2 - hl_dur lib (ht_ssl tm) else if has_conn then c2 else 0),
               t_tls_done = (if has_tls then c2 else 0), t_wrote_req = (if has_send then c3 else 0),
               t_first_byte = (if has_wait then c4 else 0), t_headers_sent = 0,
               t_end = (if hl_pos lib (he_time e) then start + hl_dur lib (he_time e)
                        else if has_recv then c5
                        else if hl_neg lib (he_time e) then 0 else start),
               t_reused = False\<rparr>))"

text \<open>\<open>setURL\<close>: an URL that does not parse or has no scheme is the path.\<close>

definition set_url :: "'m har_lib \<Rightarrow> string \<Rightarrow> flow \<Rightarrow> flow" where
  "set_url lib raw f =
     (case hl_parse_url lib raw of
        None \<Rightarrow> f\<lparr>fl_path := raw\<rparr>
      | Some u \<Rightarrow>
          if up_scheme u = [] then f\<lparr>fl_path := raw\<rparr>
          else (let s = to_lower (up_scheme u);
                    (scheme, kind) = (if s = ''ws'' then (''http'', KindWebSocket)
                                      else if s = ''wss'' then (''https'', KindWebSocket) else (s, fl_kind f));
                    port = (case atoi (up_port u) of
                              Some p \<Rightarrow> if 0 < p then p else if scheme = ''https'' then 443 else if scheme = ''http'' then 80 else fl_port f
                            | None \<Rightarrow> if scheme = ''https'' then 443 else if scheme = ''http'' then 80 else fl_port f)
                in f\<lparr>fl_scheme := scheme, fl_kind := kind, fl_host := up_hostname u, fl_port := port,
                    fl_path := up_escaped_path u, fl_query := up_raw_query u\<rparr>))"

definition imported_flow :: "'m har_entry \<Rightarrow> flow" where
  "imported_flow e =
     \<lparr>fl_id = 0, fl_session = [], fl_kind = KindHTTP, fl_client = he_connection e, fl_proto = hr_version (he_request e),
      fl_up_proto = (let v = hs_version (he_response e) in if v \<noteq> [] \<and> v \<noteq> hr_version (he_request e) then v else []),
      fl_scheme = [], fl_host = [], fl_port = 0, fl_method = to_upper (trim_space (hr_method (he_request e))), fl_path = [],
      fl_query = [], fl_req_headers = [], fl_req_body = no_ref, fl_status = hs_status (he_response e), fl_resp_headers = [],
      fl_resp_body = no_ref, fl_trailers = [], fl_t = zero_timing, fl_error = [], fl_tags = [], fl_rules = [],
      fl_state = StateDone, fl_replay = False, fl_replay_of = 0\<rparr>"

definition import_req_headers :: "har_request \<Rightarrow> header" where
  "import_req_headers r =
     (let h = header_map (hr_headers r) in
      if (case map_of h ''Cookie'' of None \<Rightarrow> True | Some vs \<Rightarrow> vs = []) \<and> hr_cookies r \<noteq> []
      then header_set ''Cookie'' (join_cookies (hr_cookies r)) h else h)"

definition import_req_body :: "har_request \<Rightarrow> header \<Rightarrow> string \<times> body_ref" where
  "import_req_body r h =
     (case hr_post r of
        Some p \<Rightarrow> (let b = decode_har_body (pd_text p) (pd_encoding p)
                  in (b, import_ref b (pd_mime p) (header_get h ''Content-Type'') 0 (hr_body_size r)))
      | None \<Rightarrow> ([], if 0 < hr_body_size r then import_ref [] [] (header_get h ''Content-Type'') 0 (hr_body_size r) else no_ref))"

definition import_resp_body :: "har_response \<Rightarrow> header \<Rightarrow> string \<times> body_ref" where
  "import_resp_body r h =
     (let c = hs_content r; b = decode_har_body (hc_text c) (hc_encoding c) in
      (b, if b \<noteq> [] \<or> 0 < hc_size c \<or> 0 < hs_body_size r
          then import_ref b (hc_mime c) (header_get h ''Content-Type'') (hc_size c) (hs_body_size r) else no_ref))"

definition import_pano :: "'m har_entry \<Rightarrow> flow \<Rightarrow> flow" where
  "import_pano e f =
     (case he_pano e of
        Some p \<Rightarrow> f\<lparr>fl_kind := (case pe_kind p of None \<Rightarrow> fl_kind f | Some k \<Rightarrow> k),
                     fl_state := (case pe_state p of None \<Rightarrow> fl_state f | Some st \<Rightarrow> st),
                     fl_session := pe_session p, fl_error := pe_error p, fl_tags := pe_tags p, fl_rules := pe_rules p,
                     fl_req_body := (fl_req_body f)\<lparr>br_truncated := pe_req_truncated p\<rparr>,
                     fl_resp_body := (fl_resp_body f)\<lparr>br_truncated := pe_resp_truncated p\<rparr>,
                     fl_replay := pe_replay p, fl_replay_of := pe_replay_of p\<rparr>
      | None \<Rightarrow> f\<lparr>fl_error := hs_error (he_response e),
                     fl_kind := (if fl_method f = ''CONNECT'' then KindTunnel
                                 else if fl_status f = 101 \<or> equal_fold (header_get (fl_req_headers f) ''Upgrade'') ''websocket''
                                 then KindWebSocket else fl_kind f)\<rparr>)"

record imported =
  im_flow :: flow
  im_req_body :: string
  im_resp_body :: string

definition import_entry :: "'m har_lib \<Rightarrow> 'm har_entry \<Rightarrow> imported" where
  "import_entry lib e =
     (let f0 = set_url lib (hr_url (he_request e)) (imported_flow e);
          rh = import_req_headers (he_request e);
          sh = header_map (hs_headers (he_response e));
          (rb, rref) = import_req_body (he_request e) rh;
          (sb, sref) = import_resp_body (he_response e) sh;
          f1 = import_pano e (f0\<lparr>fl_req_headers := rh, fl_resp_headers := sh, fl_req_body := rref, fl_resp_body := sref,
                               fl_t := import_timing lib e\<rparr>);
          f2 = (if fl_error f1 \<noteq> [] \<and> fl_state f1 = StateDone then f1\<lparr>fl_state := StateFailed\<rparr> else f1)
      in \<lparr>im_flow = f2, im_req_body = rb, im_resp_body = sb\<rparr>)"

text \<open>\<open>Import\<close> of a decoded document: no log object is an error.\<close>

definition import_har :: "'m har_lib \<Rightarrow> 'm har_entry list option \<Rightarrow> imported list option" where
  "import_har lib doc = map_option (List.map (import_entry lib)) doc"

section \<open>What survives a round trip\<close>

lemma header_map_append:
  "header_map (xs @ ys) = fold (\<lambda>(n, v) h. if n = [] \<or> has_prefix n '':'' then h
      else map_put (canonical_key n) (header_values h n @ [v]) h) ys (header_map xs)"
  by (simp add: header_map_def)

lemma map_of_add_pairs:
  assumes "k \<noteq> []" "\<not> has_prefix k '':''" "canonical_key k = k"
  shows "map_of (fold (\<lambda>(n, v) h. if n = [] \<or> has_prefix n '':'' then h
      else map_put (canonical_key n) (header_values h n @ [v]) h) (List.map (Pair k) vs) h) j
    = (if j = k \<and> vs \<noteq> [] then Some (header_values h k @ vs) else map_of h j)"
  using assms by (induction vs arbitrary: h) (auto simp: header_values_def)

text \<open>A header as the proxy records them: canonical names, each once, none empty or of HTTP/2, none without a value.\<close>

definition recorded_header :: "header \<Rightarrow> bool" where
  "recorded_header h =
     (keys_distinct h \<and> list_all (\<lambda>(k, vs). k \<noteq> [] \<and> \<not> has_prefix k '':'' \<and> canonical_key k = k \<and> vs \<noteq> []) h)"

lemma header_map_pairs:
  assumes "recorded_header h"
  shows "map_of (header_map (header_pairs h)) = map_of h"
proof -
  let ?vals = "\<lambda>k. case map_of h k of None \<Rightarrow> [] | Some vs \<Rightarrow> vs"
  have ok: "k \<noteq> [] \<and> \<not> has_prefix k '':'' \<and> canonical_key k = k \<and> ?vals k \<noteq> []" if "k \<in> fst ` set h" for k
    using assms that by (auto simp: recorded_header_def list_all_iff dest: map_of_SomeD split: option.split)
  have "map_of (header_map (concat (List.map (\<lambda>k. List.map (Pair k) (?vals k)) ks))) j
      = (if j \<in> set ks then Some (?vals j) else None)" if "set ks \<subseteq> fst ` set h" "distinct ks" for ks j
    using that
  proof (induction ks arbitrary: j rule: rev_induct)
    case Nil
    then show ?case by (simp add: header_map_def)
  next
    case (snoc k ks)
    then have k: "k \<in> fst ` set h" "k \<notin> set ks" and
      IH: "\<And>j. map_of (header_map (concat (List.map (\<lambda>k. List.map (Pair k) (?vals k)) ks))) j = (if j \<in> set ks then Some (?vals j) else None)"
      by auto
    have "header_values (header_map (concat (List.map (\<lambda>k. List.map (Pair k) (?vals k)) ks))) k = []"
      using IH [of k] k(2) ok [OF k(1)] by (simp add: header_values_def)
    with ok [OF k(1)] IH [of j] show ?case
      by (simp add: header_map_append map_of_add_pairs)
  qed
  from this [of "sort (List.map fst h)"] assms
  have this_at: "map_of (header_map (header_pairs h)) j = (if j \<in> fst ` set h then Some (?vals j) else None)" for j
    by (simp add: header_pairs_def recorded_header_def)
  have "map_of (header_map (header_pairs h)) j = map_of h j" for j
  proof (cases "map_of h j")
    case None
    then have "j \<notin> fst ` set h" by (simp add: map_of_eq_None_iff)
    with None show ?thesis using this_at by simp
  next
    case (Some vs)
    then have "j \<in> fst ` set h" by (metis map_of_eq_None_iff option.distinct(1))
    with Some show ?thesis using this_at by simp
  qed
  then show ?thesis by (rule ext)
qed

lemma header_values_same: "map_of h = map_of h' \<Longrightarrow> header_values h = header_values h'"
  by (simp add: header_values_def fun_eq_iff)

text \<open>Phases in order, each gap one that milliseconds in floating point keep; \<open>TLSDone\<close> not without \<open>Connected\<close>.\<close>

definition gap_kept :: "'m har_lib \<Rightarrow> gotime \<Rightarrow> gotime \<Rightarrow> bool" where
  "gap_kept lib a b =
     (a \<le> b \<and> time_sub b a = b - a \<and> \<not> hl_neg lib (hl_ms lib (b - a)) \<and> hl_dur lib (hl_ms lib (b - a)) = b - a
      \<and> hl_pos lib (hl_ms lib (b - a)) = (a < b))"

definition phases :: "timing \<Rightarrow> (bool \<times> gotime) list" where
  "phases t = (True, t_start t) # List.map (\<lambda>x. (\<not> time_is_zero x, x))
     [t_dns_done t, t_connected t, t_tls_done t, t_wrote_req t, t_first_byte t, t_end t]"

definition timing_kept :: "'m har_lib \<Rightarrow> timing \<Rightarrow> bool" where
  "timing_kept lib t =
     (sorted_wrt (\<lambda>(p, a) (q, b). p \<and> q \<longrightarrow> gap_kept lib a b) (phases t) \<and> hl_neg lib (hl_none lib) \<and> \<not> hl_pos lib (hl_none lib)
      \<and> hl_parse_time lib (trim_space (hl_format_time lib (t_start t))) = Some (t_start t)
      \<and> (time_is_zero (t_connected t) \<longrightarrow> time_is_zero (t_tls_done t)))"

lemma har_ms_gap: "gap_kept lib a b \<Longrightarrow> har_ms lib (time_sub b a) = hl_ms lib (b - a)"
  by (simp add: har_ms_def gap_kept_def)

lemma har_advance_gap: "gap_kept lib a b \<Longrightarrow> har_advance lib (hl_ms lib (b - a)) a = (b, True)"
  by (simp add: har_advance_def gap_kept_def)

text \<open>The cursor after each phase.\<close>

definition after_dns :: "timing \<Rightarrow> gotime" where
  "after_dns t = (if t_dns_done t = 0 then t_start t else t_dns_done t)"
definition after_connect :: "timing \<Rightarrow> gotime" where
  "after_connect t = (if t_connected t = 0 then after_dns t else if t_tls_done t = 0 then t_connected t else t_tls_done t)"
definition after_send :: "timing \<Rightarrow> gotime" where
  "after_send t = (if t_wrote_req t = 0 then after_connect t else t_wrote_req t)"
definition after_wait :: "timing \<Rightarrow> gotime" where
  "after_wait t = (if t_first_byte t = 0 then after_send t else t_first_byte t)"

lemmas after_defs = after_dns_def after_connect_def after_send_def after_wait_def

lemma timing_gaps:
  assumes "timing_kept lib t"
  shows "t_dns_done t \<noteq> 0 \<Longrightarrow> gap_kept lib (t_start t) (t_dns_done t)"
    and "t_connected t \<noteq> 0 \<Longrightarrow> gap_kept lib (after_dns t) (t_connected t)"
    and "t_tls_done t \<noteq> 0 \<Longrightarrow> t_connected t \<noteq> 0 \<and> gap_kept lib (after_dns t) (t_tls_done t) \<and> gap_kept lib (t_connected t) (t_tls_done t)"
    and "t_wrote_req t \<noteq> 0 \<Longrightarrow> gap_kept lib (after_connect t) (t_wrote_req t)"
    and "t_first_byte t \<noteq> 0 \<Longrightarrow> gap_kept lib (after_send t) (t_first_byte t)"
    and "t_end t \<noteq> 0 \<Longrightarrow> gap_kept lib (after_wait t) (t_end t) \<and> gap_kept lib (t_start t) (t_end t)"
  using assms by (simp_all add: timing_kept_def phases_def time_is_zero_def after_defs)

lemma export_timings_eq:
  assumes "timing_kept lib t"
  shows "export_timings lib t =
    \<lparr>ht_blocked = hl_none lib,
     ht_dns = (if t_dns_done t = 0 then hl_none lib else hl_ms lib (t_dns_done t - t_start t)),
     ht_connect = (if t_connected t = 0 then hl_none lib else hl_ms lib (after_connect t - after_dns t)),
     ht_send = (if t_wrote_req t = 0 then hl_none lib else hl_ms lib (t_wrote_req t - after_connect t)),
     ht_wait = (if t_first_byte t = 0 then hl_none lib else hl_ms lib (t_first_byte t - after_send t)),
     ht_receive = (if t_end t = 0 \<or> t_first_byte t = 0 then hl_none lib else hl_ms lib (t_end t - after_wait t)),
     ht_ssl = (if t_tls_done t = 0 then hl_none lib else hl_ms lib (t_tls_done t - t_connected t))\<rparr>"
proof -
  note g = timing_gaps [OF assms]
  have d: "(if time_is_zero (t_dns_done t) then (hl_none lib, t_start t)
      else (har_ms lib (time_sub (t_dns_done t) (t_start t)), t_dns_done t))
    = (if t_dns_done t = 0 then hl_none lib else hl_ms lib (t_dns_done t - t_start t), after_dns t)"
    using g(1) by (simp add: time_is_zero_def after_dns_def har_ms_gap)
  have c: "(if \<not> time_is_zero (t_connected t)
      then if \<not> time_is_zero (t_tls_done t)
           then (har_ms lib (time_sub (t_tls_done t) (t_connected t)), har_ms lib (time_sub (t_tls_done t) (after_dns t)), t_tls_done t)
           else (hl_none lib, har_ms lib (time_sub (t_connected t) (after_dns t)), t_connected t)
      else if \<not> time_is_zero (t_tls_done t) then (hl_none lib, har_ms lib (time_sub (t_tls_done t) (after_dns t)), t_tls_done t)
      else (hl_none lib, hl_none lib, after_dns t))
    = (if t_tls_done t = 0 then hl_none lib else hl_ms lib (t_tls_done t - t_connected t),
       if t_connected t = 0 then hl_none lib else hl_ms lib (after_connect t - after_dns t), after_connect t)"
    using g(2,3) by (auto simp: time_is_zero_def after_connect_def har_ms_gap)
  have w: "(if time_is_zero (t_wrote_req t) then (hl_none lib, after_connect t)
      else (har_ms lib (time_sub (t_wrote_req t) (after_connect t)), t_wrote_req t))
    = (if t_wrote_req t = 0 then hl_none lib else hl_ms lib (t_wrote_req t - after_connect t), after_send t)"
    using g(4) by (simp add: time_is_zero_def after_send_def har_ms_gap)
  have f: "(if time_is_zero (t_first_byte t) then (hl_none lib, after_send t)
      else (har_ms lib (time_sub (t_first_byte t) (after_send t)), t_first_byte t))
    = (if t_first_byte t = 0 then hl_none lib else hl_ms lib (t_first_byte t - after_send t), after_wait t)"
    using g(5) by (simp add: time_is_zero_def after_wait_def har_ms_gap)
  show ?thesis
    unfolding export_timings_def Let_def d prod.case c w f
    using g(6) by (simp add: time_is_zero_def har_ms_gap)
qed

lemma timing_roundtrip:
  assumes "timing_kept lib t"
    and "he_started e = hl_format_time lib (t_start t)" "he_timings e = export_timings lib t"
    and "he_time e = (if time_is_zero (t_end t) then hl_none lib else har_ms lib (time_sub (t_end t) (t_start t)))"
  shows "import_timing lib e = t\<lparr>t_headers_sent := 0, t_reused := False\<rparr>"
proof -
  note g = timing_gaps [OF assms(1)]
  have k: "hl_neg lib (hl_none lib)" "\<not> hl_pos lib (hl_none lib)"
    "hl_parse_time lib (trim_space (hl_format_time lib (t_start t))) = Some (t_start t)"
    using assms(1) by (auto simp: timing_kept_def)
  define tm where "tm = he_timings e"
  note tm = export_timings_eq [OF assms(1), folded assms(3) tm_def]
  have none: "har_advance lib (hl_none lib) c = (c, False)" for c using k(1) by (simp add: har_advance_def)
  have a0: "har_advance lib (ht_blocked tm) (t_start t) = (t_start t, False)" by (simp add: tm none)
  have a1: "har_advance lib (ht_dns tm) (t_start t) = (after_dns t, t_dns_done t \<noteq> 0)"
    using g(1) by (simp add: tm none after_dns_def har_advance_gap)
  have a2: "har_advance lib (ht_connect tm) (after_dns t) = (after_connect t, t_connected t \<noteq> 0)"
    using g(2,3) by (auto simp: tm none after_connect_def har_advance_gap)
  have a3: "har_advance lib (ht_send tm) (after_connect t) = (after_send t, t_wrote_req t \<noteq> 0)"
    using g(4) by (simp add: tm none after_send_def har_advance_gap)
  have a4: "har_advance lib (ht_wait tm) (after_send t) = (after_wait t, t_first_byte t \<noteq> 0)"
    using g(5) by (simp add: tm none after_wait_def har_advance_gap)
  have a5: "har_advance lib (ht_receive tm) (after_wait t)
      = (if t_end t = 0 \<or> t_first_byte t = 0 then (after_wait t, False) else (t_end t, True))"
    using g(6) by (simp add: tm none har_advance_gap)
  have ssl: "hl_neg lib (ht_ssl tm) \<longleftrightarrow> t_tls_done t = 0"
    and ssl_dur: "t_tls_done t \<noteq> 0 \<Longrightarrow> hl_dur lib (ht_ssl tm) = t_tls_done t - t_connected t"
    using g(3) k(1) by (auto simp: tm gap_kept_def)
  have total: "he_time e = (if t_end t = 0 then hl_none lib else hl_ms lib (t_end t - t_start t))"
    using g(6) by (simp add: assms(4) time_is_zero_def har_ms_gap)
  have fin: "(if hl_pos lib (he_time e) then t_start t + hl_dur lib (he_time e)
      else if \<not> (t_end t = 0 \<or> t_first_byte t = 0) then t_end t else if hl_neg lib (he_time e) then 0 else t_start t) = t_end t"
    using g(6) k(1,2) by (auto simp: total gap_kept_def)
  show ?thesis
    unfolding import_timing_def assms(2) k(3) option.case Let_def tm_def [symmetric] a0 prod.case a1 a2 a3 a4 a5
    using g(3) fin ssl ssl_dur by (cases t) (auto simp: after_defs split: if_splits)
qed

text \<open>The bytes an export carries inline.\<close>

definition inline_body :: "export_options \<Rightarrow> body_ref \<Rightarrow> string" where
  "inline_body opts ref =
     (if eo_max_body opts < 0 \<or> br_hash ref = [] then []
      else case eo_body opts of None \<Rightarrow> []
           | Some fetch \<Rightarrow> (case fetch (br_hash ref) of None \<Rightarrow> []
                           | Some b \<Rightarrow> if eo_max_body opts < int (length b) then [] else b))"

lemma decode_exported_body:
  "eo_redact_text opts = None \<Longrightarrow>
     decode_har_body (xb_text (export_body opts ref mime)) (xb_encoding (export_body opts ref mime)) = inline_body opts ref"
  by (simp add: export_body_def inline_body_def Let_def decode_har_base64 decode_har_text split: option.split)

lemma inline_no_body: "\<not> has_body ref \<Longrightarrow> inline_body opts ref = []"
  by (simp add: has_body_def inline_body_def)

text \<open>What a flow is to a reader of it: everything but its id, where its bodies are kept, and its times.\<close>

definition flow_facts where
  "flow_facts f =
     ((fl_kind f, fl_state f, fl_session f, fl_client f, fl_error f, fl_tags f, fl_rules f, fl_replay f, fl_replay_of f),
      (fl_method f, fl_scheme f, fl_host f, fl_port f, fl_path f, fl_query f, fl_proto f, fl_up_proto f, fl_status f),
      (map_of (fl_req_headers f), map_of (fl_resp_headers f)),
      (br_truncated (fl_req_body f), br_truncated (fl_resp_body f)))"

text \<open>A finished flow of the proxy: recorded headers, an upper-case method, an URL the parser takes apart as it
  was put together, no error on a flow that is done.\<close>

definition har_flow_ok :: "'m har_lib \<Rightarrow> flow \<Rightarrow> bool" where
  "har_flow_ok lib f =
     (recorded_header (fl_req_headers f) \<and> recorded_header (fl_resp_headers f)
      \<and> (header_values (fl_req_headers f) ''Cookie'' = [] \<longrightarrow> hl_req_cookies lib (fl_req_headers f) = [])
      \<and> fl_method f \<noteq> [] \<and> to_upper (trim_space (fl_method f)) = fl_method f
      \<and> (fl_up_proto f = [] \<or> fl_up_proto f \<noteq> fl_proto f)
      \<and> (fl_error f = [] \<or> fl_state f \<noteq> StateDone)
      \<and> 0 < fl_port f \<and> fl_scheme f \<in> {''http'', ''https''}
      \<and> (case hl_parse_url lib (flow_url f) of None \<Rightarrow> False
         | Some u \<Rightarrow> up_scheme u = fl_scheme f \<and> up_hostname u = fl_host f \<and> up_escaped_path u = fl_path f
             \<and> up_raw_query u = fl_query f
             \<and> atoi (up_port u) = (if fl_port f = (if fl_scheme f = ''https'' then 443 else 80) then None else Some (fl_port f))))"

lemma set_url_kept:
  assumes "har_flow_ok lib f"
  shows "set_url lib (flow_url f) g =
    g\<lparr>fl_scheme := fl_scheme f, fl_host := fl_host f, fl_port := fl_port f, fl_path := fl_path f, fl_query := fl_query f\<rparr>"
proof -
  obtain u where u: "hl_parse_url lib (flow_url f) = Some u" "up_scheme u = fl_scheme f" "up_hostname u = fl_host f"
    "up_escaped_path u = fl_path f" "up_raw_query u = fl_query f"
    "atoi (up_port u) = (if fl_port f = (if fl_scheme f = ''https'' then 443 else 80) then None else Some (fl_port f))"
    using assms by (auto simp: har_flow_ok_def split: option.splits)
  have s: "fl_scheme f \<in> {''http'', ''https''}" "0 < fl_port f" using assms by (auto simp: har_flow_ok_def)
  have "to_lower ''http'' = ''http''" "to_lower ''https'' = ''https''" by code_simp+
  with s u show ?thesis by (cases g) (auto simp: set_url_def Let_def)
qed

lemma har_entry_roundtrip:
  assumes "har_flow_ok lib f" "timing_kept lib (fl_t f)" "eo_redact_headers opts = None" "eo_redact_text opts = None"
  shows "let im = import_entry lib (export_entry lib opts f) in
      flow_facts (im_flow im) = flow_facts f \<and> fl_t (im_flow im) = (fl_t f)\<lparr>t_headers_sent := 0, t_reused := False\<rparr>
      \<and> im_req_body im = inline_body opts (fl_req_body f) \<and> im_resp_body im = inline_body opts (fl_resp_body f)"
proof -
  let ?e = "export_entry lib opts f"
  have t: "import_timing lib ?e = (fl_t f)\<lparr>t_headers_sent := 0, t_reused := False\<rparr>"
    by (rule timing_roundtrip [OF assms(2)]) (simp_all add: export_entry_def Let_def)
  have q: "map_of (header_map (header_pairs (fl_req_headers f))) = map_of (fl_req_headers f)"
    and r: "map_of (header_map (header_pairs (fl_resp_headers f))) = map_of (fl_resp_headers f)"
    using assms(1) by (simp_all add: har_flow_ok_def header_map_pairs)
  have cookie: "canonical_key ''Cookie'' = ''Cookie''" by code_simp
  have rh: "map_of (import_req_headers (he_request ?e)) = map_of (fl_req_headers f)"
    using assms(1,3) q cookie
    by (auto simp: import_req_headers_def Let_def export_entry_def export_request_def har_flow_ok_def header_values_def
        split: option.splits)
  have b: "fst (import_req_body (he_request ?e) h) = inline_body opts (fl_req_body f)" for h
    using assms(3,4)
    by (simp add: import_req_body_def export_entry_def export_request_def Let_def decode_exported_body inline_no_body)
  have c: "fst (import_resp_body (he_response ?e) h) = inline_body opts (fl_resp_body f)" for h
    using assms(3,4) decode_har_text [of "[]"]
    by (simp add: import_resp_body_def export_entry_def export_response_def export_content_def Let_def decode_exported_body inline_no_body)
  have url: "set_url lib (hr_url (he_request ?e)) g =
    g\<lparr>fl_scheme := fl_scheme f, fl_host := fl_host f, fl_port := fl_port f, fl_path := fl_path f, fl_query := fl_query f\<rparr>" for g
    using set_url_kept [OF assms(1)] by (simp add: export_entry_def export_request_def Let_def)
  obtain rb rref where rb: "import_req_body (he_request ?e) (import_req_headers (he_request ?e)) = (rb, rref)" by fastforce
  obtain sb sref where sb: "import_resp_body (he_response ?e) (header_map (hs_headers (he_response ?e))) = (sb, sref)" by fastforce
  have e: "he_connection ?e = fl_client f" "he_pano ?e = Some (pano_ext_of f)" "hr_version (he_request ?e) = fl_proto f"
    "hs_version (he_response ?e) = first_non_empty (fl_up_proto f) (fl_proto f)" "hr_method (he_request ?e) = fl_method f"
    "hs_status (he_response ?e) = fl_status f" "hs_headers (he_response ?e) = header_pairs (fl_resp_headers f)"
    using assms(1,3) by (simp_all add: export_entry_def export_request_def export_response_def export_method_def har_flow_ok_def Let_def)
  have bodies: "rb = inline_body opts (fl_req_body f)" "sb = inline_body opts (fl_resp_body f)"
    using b [of "import_req_headers (he_request ?e)"] c [of "header_map (hs_headers (he_response ?e))"] rb sb by simp_all
  have m: "to_upper (trim_space (fl_method f)) = fl_method f" and fail: "fl_error f = [] \<or> fl_state f \<noteq> StateDone"
    and up: "(let v = first_non_empty (fl_up_proto f) (fl_proto f) in if v \<noteq> [] \<and> v \<noteq> fl_proto f then v else []) = fl_up_proto f"
    using assms(1) by (auto simp: har_flow_ok_def first_non_empty_def)
  define f1 where "f1 = import_pano ?e ((set_url lib (hr_url (he_request ?e)) (imported_flow ?e))
    \<lparr>fl_req_headers := import_req_headers (he_request ?e), fl_resp_headers := header_map (hs_headers (he_response ?e)),
     fl_req_body := rref, fl_resp_body := sref, fl_t := import_timing lib ?e\<rparr>)"
  have "fl_error f1 = fl_error f" "fl_state f1 = fl_state f" by (simp_all add: f1_def import_pano_def e(2) pano_ext_of_def)
  with fail have im: "import_entry lib ?e = \<lparr>im_flow = f1, im_req_body = rb, im_resp_body = sb\<rparr>"
    unfolding import_entry_def Let_def rb sb prod.case f1_def [symmetric] by auto
  have "flow_facts f1 = flow_facts f" and "fl_t f1 = (fl_t f)\<lparr>t_headers_sent := 0, t_reused := False\<rparr>"
    using up unfolding f1_def url import_pano_def e(2) flow_facts_def t
    by (simp_all add: pano_ext_of_def imported_flow_def e m rh r)
  with bodies show ?thesis unfolding im by simp
qed


section \<open>Samples\<close>

definition sample_har :: "int har_lib" where
  "sample_har = \<lparr>hl_format_time = (\<lambda>_. ''t''), hl_parse_time = (\<lambda>_. Some 1000), hl_ms = (\<lambda>d. d), hl_none = -1,
     hl_neg = (\<lambda>v. v < 0), hl_pos = (\<lambda>v. 0 < v), hl_dur = (\<lambda>v. v), hl_req_cookies = (\<lambda>_. []), hl_resp_cookies = (\<lambda>_. []),
     hl_parse_url = (\<lambda>_. Some \<lparr>up_scheme = ''https'', up_hostname = ''a.com'', up_port = [], up_escaped_path = ''/x'', up_raw_query = []\<rparr>)\<rparr>"

definition sample_har_options :: export_options where
  "sample_har_options = \<lparr>eo_body = Some (\<lambda>h. if h = ''h'' then Some [CHR 0xFF, CHR ''a''] else None), eo_redact_headers = None,
     eo_redact_text = None, eo_max_body = 100\<rparr>"

definition sample_har_flow :: flow where
  "sample_har_flow = \<lparr>fl_id = 5, fl_session = ''s'', fl_kind = KindHTTP, fl_client = ''c'', fl_proto = ''HTTP/1.1'', fl_up_proto = ''HTTP/2.0'',
     fl_scheme = ''https'', fl_host = ''a.com'', fl_port = 443, fl_method = ''GET'', fl_path = ''/x'', fl_query = [],
     fl_req_headers = [(''X-A'', [''1'', ''2'']), (''Accept'', [''*''])], fl_req_body = no_ref, fl_status = 200,
     fl_resp_headers = [(''Content-Type'', [''image/png''])],
     fl_resp_body = \<lparr>br_hash = ''h'', br_size = 2, br_captured = 2, br_truncated = False, br_encoding = [], br_mime = ''image/png''\<rparr>,
     fl_trailers = [],
     fl_t = \<lparr>t_start = 1000, t_dns_done = 0, t_connected = 1010, t_tls_done = 1020, t_wrote_req = 1020, t_first_byte = 1050,
       t_headers_sent = 0, t_end = 1060, t_reused = False\<rparr>,
     fl_error = [], fl_tags = [''x''], fl_rules = [], fl_state = StateDone, fl_replay = False, fl_replay_of = 0\<rparr>"


text \<open>A TLS handshake timed without its connection comes back as the connection.\<close>

lemma tls_without_connect:
  "export_timings sample_har (zero_timing\<lparr>t_start := 1000, t_tls_done := 1020\<rparr>)
     = \<lparr>ht_blocked = -1, ht_dns = -1, ht_connect = 20, ht_send = -1, ht_wait = -1, ht_receive = -1, ht_ssl = -1\<rparr>
   \<and> t_connected (import_timing sample_har (export_entry sample_har sample_har_options
        (sample_har_flow\<lparr>fl_t := zero_timing\<lparr>t_start := 1000, t_tls_done := 1020\<rparr>\<rparr>))) = 1020"
  by code_simp

end
