(* ===== verification/Daemon_Store.thy ===== *)
theory Daemon_Store
  imports Proxy_Record Store_Row Store_WS Store_Blobs Store_Sessions Bus
begin

text \<open>
  What the daemon keeps of the traffic (\<open>internal/daemon/daemon.go\<close> and \<open>backend.go\<close>): the ring of flows,
  the WebSocket log, bodies, sessions and the event bus, fed by the proxy through the sink and changed
  by the capture and session requests; and what clients ask of them. The lock of each part makes its
  methods single steps; how the parts stay together under any interleaving of the goroutines is the
  step relation \<open>daemon_step\<close>.
\<close>

section \<open>The parts and the sink\<close>

record daemon =
  d_mem :: mem
  d_blobs :: mem_blobs
  d_ws :: ws_log
  d_sess :: sessions
  d_ids :: idgen
  d_bus :: bus

text \<open>\<open>d.mem.OnEvict\<close>, called for every flow that leaves the ring.\<close>

definition forget_messages :: "flow list \<Rightarrow> daemon \<Rightarrow> daemon" where
  "forget_messages gone d = d\<lparr>d_ws := fold (\<lambda>g. ws_drop (fl_id g)) gone (d_ws d)\<rparr>"

definition keep_flow :: "flow \<Rightarrow> daemon \<Rightarrow> daemon" where
  "keep_flow f d = (let (m, gone) = upsert f (d_mem d) in forget_messages gone (d\<lparr>d_mem := m\<rparr>))"

definition flow_event :: "event_type \<Rightarrow> flow \<Rightarrow> event" where
  "flow_event t f = \<lparr>ev_type = t, ev_seq = 0, ev_ts = 0, ev_flow = Some f, ev_phase = [], ev_ws = None, ev_dropped = 0\<rparr>"

definition ws_event_of :: "ws_message \<Rightarrow> event" where
  "ws_event_of m = \<lparr>ev_type = EvWS, ev_seq = 0, ev_ts = 0, ev_flow = None, ev_phase = [], ev_ws = Some m, ev_dropped = 0\<rparr>"

definition announce :: "gotime \<Rightarrow> event \<Rightarrow> daemon \<Rightarrow> daemon" where
  "announce now ev d = d\<lparr>d_bus := publish now ev (d_bus d)\<rparr>"

definition sink_started :: "gotime \<Rightarrow> flow \<Rightarrow> daemon \<Rightarrow> daemon" where
  "sink_started now f d = announce now (flow_event EvStarted f) (keep_flow f d)"

definition sink_updated :: "gotime \<Rightarrow> flow \<Rightarrow> daemon \<Rightarrow> daemon" where
  "sink_updated now f d = announce now (flow_event EvHeaders f) (keep_flow f d)"

definition sink_done :: "gotime \<Rightarrow> flow \<Rightarrow> daemon \<Rightarrow> daemon" where
  "sink_done now f d = announce now (flow_event EvDone f) (keep_flow f d)"

definition sink_blob :: "(string \<Rightarrow> string) \<Rightarrow> string \<Rightarrow> daemon \<Rightarrow> string \<times> daemon" where
  "sink_blob hash b d = (let (h, bs) = put_blob hash b (d_blobs d) in (h, d\<lparr>d_blobs := bs\<rparr>))"

definition sink_ws :: "gotime \<Rightarrow> ws_message \<Rightarrow> daemon \<Rightarrow> daemon" where
  "sink_ws now m d = announce now (ws_event_of m) (d\<lparr>d_ws := ws_add (Some m) (d_ws d)\<rparr>)"

text \<open>What an exchange publishes, given to the sink.\<close>

fun sink :: "(string \<Rightarrow> string) \<Rightarrow> gotime \<Rightarrow> sink_event \<Rightarrow> daemon \<Rightarrow> daemon" where
  "sink hash now (SStarted f) d = sink_started now f d"
| "sink hash now (SUpdated f) d = sink_updated now f d"
| "sink hash now (SDone f) d = sink_done now f d"
| "sink hash now (SBlob b) d = snd (sink_blob hash b d)"

section \<open>Requests that change what is kept\<close>

datatype api_error =
    BadRequest string
  | NotFound string string

definition remove_flows :: "(flow \<Rightarrow> bool) \<Rightarrow> daemon \<Rightarrow> daemon" where
  "remove_flows P d = (let (m, gone) = delete_flows P (d_mem d) in forget_messages gone (d\<lparr>d_mem := m\<rparr>))"

definition clear_capture :: "daemon \<Rightarrow> daemon" where
  "clear_capture d =
     (let d1 = remove_flows (\<lambda>_. True) d
      in d1\<lparr>d_ws := ws_clear (d_ws d1), d_blobs := clear_blobs (d_blobs d1)\<rparr>)"

definition start_daemon_session :: "string \<Rightarrow> gotime \<Rightarrow> 32 word list \<Rightarrow> daemon \<Rightarrow> (session \<times> daemon) option" where
  "start_daemon_session name now draws d =
     map_option (\<lambda>(x, s). (x, d\<lparr>d_sess := s\<rparr>)) (start_session name now draws (d_sess d))"

text \<open>\<open>Capture\<close>: the new flag of the proxy and the daemon; \<open>None\<close> when the draws of session ids run out.\<close>

definition capture_request ::
  "string \<Rightarrow> string \<Rightarrow> gotime \<Rightarrow> 32 word list \<Rightarrow> bool \<Rightarrow> daemon \<Rightarrow> (api_error + bool \<times> daemon) option" where
  "capture_request action name now draws capturing d =
     (if action = ''start'' then Some (Inr (True, d))
      else if action = ''stop'' then Some (Inr (False, d))
      else if action = ''clear'' then Some (Inr (capturing, clear_capture d))
      else if action = ''session'' then
        (if name = [] then Some (Inl (BadRequest ''session name required''))
         else map_option (\<lambda>(_, d1). Inr (capturing, d1)) (start_daemon_session name now draws d))
      else Some (Inl (BadRequest ''action must be start|stop|clear|session'')))"

definition session_counts :: "daemon \<Rightarrow> session list" where
  "session_counts d =
     list_sessions (Some (\<lambda>i. int (count_if (\<lambda>f. fl_session f = i) (d_mem d)))) (d_sess d)"

definition delete_daemon_session :: "string \<Rightarrow> daemon \<Rightarrow> api_error + daemon" where
  "delete_daemon_session i d =
     (case delete_session i (d_sess d) of
        Inl ErrCurrent \<Rightarrow> Inl (BadRequest ''cannot delete the current session'')
      | Inl ErrNotFound \<Rightarrow> Inl (NotFound ''session'' i)
      | Inr s \<Rightarrow> Inr (remove_flows (\<lambda>f. fl_session f = i) (d\<lparr>d_sess := s\<rparr>)))"

section \<open>Tail\<close>

text \<open>\<open>collect\<close>: newest first up to the first flow not after the cursor, without active flows; then reversed.\<close>

definition tail_visit :: "(flow \<Rightarrow> bool) \<Rightarrow> flow_id \<Rightarrow> flow \<Rightarrow> flow list \<Rightarrow> flow list \<times> bool" where
  "tail_visit P since f rows =
     (if fl_id f \<le> since then (rows, False)
      else if fl_state f = StateActive then (rows, True)
      else (if P f then rows @ [f] else rows, True))"

definition tail_collect :: "(flow \<Rightarrow> bool) \<Rightarrow> flow_id \<Rightarrow> mem \<Rightarrow> flow list" where
  "tail_collect P since m = rev (each (tail_visit P since) m [])"

definition tail_since :: "string \<Rightarrow> idgen \<Rightarrow> api_error + flow_id" where
  "tail_since s g =
     (if s = [] \<or> s = ''now'' then Inr (g_last g)
      else case parse_short s of
             None \<Rightarrow> Inl (BadRequest (''since must be '' @ [CHR 0x22] @ ''now'' @ [CHR 0x22] @ '' or a flow id/cursor''))
           | Some i \<Rightarrow> Inr i)"

definition tail_wait :: "int \<Rightarrow> duration" where
  "tail_wait ms =
     (let w = wrap_int (ms * millisecond);
          w1 = (if w \<le> 0 then 10 * second else w)
      in if 25 * second < w1 then 25 * second else w1)"

definition tail_cursor :: "flow_id \<Rightarrow> flow list \<Rightarrow> idgen \<Rightarrow> flow_id" where
  "tail_cursor since rows g =
     (let c = fold (\<lambda>f c. if c < fl_id f then fl_id f else c) rows since
      in if c = 0 then g_last g else c)"

text \<open>An event ends the wait when its flow is after the cursor and matches; what is returned then is collected
  from \<open>later\<close>, the ring at that moment.\<close>

definition tail_wakes :: "(flow \<Rightarrow> bool) \<Rightarrow> flow_id \<Rightarrow> event \<Rightarrow> bool" where
  "tail_wakes P since ev =
     (ev_type ev \<in> {EvDone, EvHeld}
      \<and> (case ev_flow ev of None \<Rightarrow> False | Some f \<Rightarrow> since < fl_id f \<and> P f))"

definition tail_rows :: "(flow \<Rightarrow> bool) \<Rightarrow> flow_id \<Rightarrow> mem \<Rightarrow> mem option \<Rightarrow> flow list" where
  "tail_rows P since m woken =
     (let rows = tail_collect P since m in
      if rows \<noteq> [] then rows else case woken of None \<Rightarrow> [] | Some woke \<Rightarrow> tail_collect P since woke)"

section \<open>The parts under any interleaving\<close>

text \<open>
  The ring calls \<open>OnEvict\<close> after its lock is released, so the flows that left it wait in \<open>lv_drops\<close> until
  their messages are dropped, and other goroutines act in between. \<open>lv_active\<close> are the exchanges that
  have published their start and not their end; only those send messages.
\<close>

record daemon_parts =
  lv_mem :: mem
  lv_ws :: ws_log
  lv_drops :: "flow_id list"
  lv_active :: "flow_id set"

definition live_upsert :: "flow \<Rightarrow> daemon_parts \<Rightarrow> daemon_parts" where
  "live_upsert f s =
     (let (m, gone) = upsert f (lv_mem s) in s\<lparr>lv_mem := m, lv_drops := lv_drops s @ List.map fl_id gone\<rparr>)"

definition live_remove :: "(flow \<Rightarrow> bool) \<Rightarrow> daemon_parts \<Rightarrow> daemon_parts" where
  "live_remove P s =
     (let (m, gone) = delete_flows P (lv_mem s) in s\<lparr>lv_mem := m, lv_drops := lv_drops s @ List.map fl_id gone\<rparr>)"

inductive daemon_step :: "daemon_parts \<Rightarrow> daemon_parts \<Rightarrow> bool" where
  step_started: "fl_id f \<notin> lv_active s \<Longrightarrow>
     daemon_step s ((live_upsert f s)\<lparr>lv_active := insert (fl_id f) (lv_active s)\<rparr>)"
| step_updated: "fl_id f \<in> lv_active s \<Longrightarrow> daemon_step s (live_upsert f s)"
| step_message: "ws_flow_id m \<in> lv_active s \<Longrightarrow> daemon_step s (s\<lparr>lv_ws := ws_add (Some m) (lv_ws s)\<rparr>)"
| step_finished: "fl_id f \<in> lv_active s \<Longrightarrow>
     daemon_step s ((live_upsert f s)\<lparr>lv_active := lv_active s - {fl_id f}\<rparr>)"
| step_imported: "fl_id f \<notin> lv_active s \<Longrightarrow> daemon_step s (live_upsert f s)"
| step_dropped: "i \<in> set (lv_drops s) \<Longrightarrow>
     daemon_step s (s\<lparr>lv_ws := ws_drop i (lv_ws s), lv_drops := remove1 i (lv_drops s)\<rparr>)"
| step_removed: "daemon_step s (live_remove P s)"
| step_ws_cleared: "daemon_step s (s\<lparr>lv_ws := ws_clear (lv_ws s)\<rparr>)"

definition fresh_daemon :: "int \<Rightarrow> daemon_parts" where
  "fresh_daemon ring = \<lparr>lv_mem = new_mem ring, lv_ws = new_ws_log 0 0, lv_drops = [], lv_active = {}\<rparr>"

definition ws_ids :: "ws_log \<Rightarrow> flow_id set" where
  "ws_ids w = dom (map_of (w_logs w))"

definition ring_ids :: "mem \<Rightarrow> flow_id set" where
  "ring_ids m = fl_id ` set (mem_list m)"

definition live_ok :: "daemon_parts \<Rightarrow> bool" where
  "live_ok s =
     (mem_wf (lv_mem s) \<and> ws_ids (lv_ws s) \<subseteq> lv_active s \<union> set (lv_drops s) \<union> ring_ids (lv_mem s))"

lemma ws_ids_add: "ws_ids (ws_add (Some m) w) \<subseteq> insert (ws_flow_id m) (ws_ids w)"
proof
  fix i assume i: "i \<in> ws_ids (ws_add (Some m) w)"
  have "map_of (w_logs (ws_evict (ws_flow_id m) (ws_push m w))) i \<in> {None, map_of (w_logs (ws_push m w)) i}"
    using ws_evict_frame by blast
  then show "i \<in> insert (ws_flow_id m) (ws_ids w)"
    using i by (auto simp: ws_ids_def ws_add_def dom_def map_of_push split: if_splits) (metis)
qed

lemma ws_ids_drop: "ws_ids (ws_drop i w) = ws_ids w - {i}"
  by (auto simp: ws_ids_def ws_drop_def map_of_remove split: if_splits)

lemma ws_ids_clear [simp]: "ws_ids (ws_clear w) = {}"
  by (simp add: ws_ids_def ws_clear_def)

lemma ring_ids_upsert:
  assumes "mem_wf m"
  shows "insert (fl_id f) (ring_ids m) \<subseteq> ring_ids (fst (upsert f m)) \<union> fl_id ` set (snd (upsert f m))"
    and "fl_id f \<in> ring_ids (fst (upsert f m))"
proof -
  have tl: "set xs = insert (hd xs) (set (tl xs))" if "xs \<noteq> []" for xs :: "flow list"
    using that by (cases xs) auto
  have cap: "length (mem_list m) = mem_cap m \<Longrightarrow> mem_list m \<noteq> []"
    using mem_wfD(1) [OF assms] by (metis length_greater_0_conv length_mem_list list.size(3) mem_cap_def not_less0)
  show in_ring: "fl_id f \<in> ring_ids (fst (upsert f m))"
    by (force simp: ring_ids_def mem_list_upsert [OF assms] spec_upsert_def simp del: set_mem_list)
  show "insert (fl_id f) (ring_ids m) \<subseteq> ring_ids (fst (upsert f m)) \<union> fl_id ` set (snd (upsert f m))"
  proof (cases "fl_id f \<in> ring_ids m")
    case True
    then have "ring_ids (fst (upsert f m)) = ring_ids m"
    proof -
      have "fl_id ` set (List.map (\<lambda>g. if fl_id g = fl_id f then f else g) xs) = fl_id ` set xs" for xs
        by (induction xs) auto
      with True show ?thesis by (simp add: ring_ids_def mem_list_upsert [OF assms] spec_upsert_def del: set_mem_list set_map)
    qed
    with True show ?thesis by auto
  next
    case False
    with in_ring tl cap show ?thesis
      by (auto simp: ring_ids_def mem_list_upsert [OF assms] upsert_evicts [OF assms] spec_upsert_def
          simp del: set_mem_list length_mem_list)
  qed
qed

lemma ring_ids_remove:
  "mem_wf m \<Longrightarrow> ring_ids m = ring_ids (fst (delete_flows P m)) \<union> fl_id ` set (snd (delete_flows P m))"
  by (auto simp: ring_ids_def delete_flows_eq)

lemma live_upsert_ok:
  assumes "live_ok s"
  shows "live_ok (live_upsert f s)" and "fl_id f \<in> ring_ids (lv_mem (live_upsert f s))"
    and "lv_active (live_upsert f s) = lv_active s"
proof -
  have wf: "mem_wf (lv_mem s)" using assms by (simp add: live_ok_def)
  note ids = ring_ids_upsert [OF wf, of f]
  obtain m gone where u: "upsert f (lv_mem s) = (m, gone)" by fastforce
  show "live_ok (live_upsert f s)"
    using assms ids(1) upsert_wf [OF wf, of f] u by (fastforce simp: live_ok_def live_upsert_def)
  show "fl_id f \<in> ring_ids (lv_mem (live_upsert f s))" using ids(2) u by (simp add: live_upsert_def)
  show "lv_active (live_upsert f s) = lv_active s" using u by (simp add: live_upsert_def)
qed

lemma daemon_step_ok: "daemon_step s t \<Longrightarrow> live_ok s \<Longrightarrow> live_ok t"
proof (induction rule: daemon_step.induct)
  case (step_started f s)
  from live_upsert_ok [OF step_started.prems, of f] show ?case by (auto simp: live_ok_def)
next
  case (step_updated f s)
  then show ?case by (simp add: live_upsert_ok)
next
  case (step_message m s)
  then show ?case using ws_ids_add [of m "lv_ws s"] by (auto simp: live_ok_def)
next
  case (step_finished f s)
  from live_upsert_ok [OF step_finished.prems, of f] show ?case by (auto simp: live_ok_def)
next
  case (step_imported f s)
  then show ?case by (simp add: live_upsert_ok)
next
  case (step_dropped i s)
  have "set (lv_drops s) - {i} \<subseteq> set (remove1 i (lv_drops s))"
    by (metis Diff_subset_conv in_set_remove1 insertCI insert_is_Un subsetI)
  with step_dropped show ?case by (auto simp: live_ok_def ws_ids_drop)
next
  case (step_removed s P)
  then show ?case
    using ring_ids_remove [of "lv_mem s" P] delete_flows_wf [of "lv_mem s" P]
    by (auto simp: live_ok_def live_remove_def split: prod.split)
next
  case (step_ws_cleared s)
  then show ?case by (simp add: live_ok_def)
qed

lemma fresh_daemon_ok: "live_ok (fresh_daemon ring)"
  by (simp add: live_ok_def fresh_daemon_def mem_wf_new ws_ids_def new_ws_log_def)

text \<open>The methods of the daemon are runs of such steps.\<close>

definition as_live :: "flow_id set \<Rightarrow> daemon \<Rightarrow> daemon_parts" where
  "as_live active d = \<lparr>lv_mem = d_mem d, lv_ws = d_ws d, lv_drops = [], lv_active = active\<rparr>"

lemma drops_run:
  "daemon_step\<^sup>*\<^sup>* (s\<lparr>lv_drops := List.map fl_id gone\<rparr>) (s\<lparr>lv_ws := fold (\<lambda>g. ws_drop (fl_id g)) gone (lv_ws s), lv_drops := []\<rparr>)"
proof (induction gone arbitrary: s)
  case (Cons g gone)
  have "daemon_step (s\<lparr>lv_drops := List.map fl_id (g # gone)\<rparr>)
      ((s\<lparr>lv_drops := List.map fl_id (g # gone)\<rparr>)\<lparr>lv_ws := ws_drop (fl_id g) (lv_ws s), lv_drops := List.map fl_id gone\<rparr>)"
    using step_dropped [of "fl_id g" "s\<lparr>lv_drops := List.map fl_id (g # gone)\<rparr>"] by simp
  also have "daemon_step\<^sup>*\<^sup>* \<dots> (s\<lparr>lv_ws := fold (\<lambda>g. ws_drop (fl_id g)) (g # gone) (lv_ws s), lv_drops := []\<rparr>)"
    using Cons.IH [of "s\<lparr>lv_ws := ws_drop (fl_id g) (lv_ws s)\<rparr>"] by simp
  finally show ?case .
qed simp

lemma keep_flow_run:
  assumes "fl_id f \<notin> active"
  shows "daemon_step\<^sup>*\<^sup>* (as_live active d) (as_live active (keep_flow f d))"
proof -
  obtain m gone where u: "upsert f (d_mem d) = (m, gone)" by fastforce
  have "daemon_step (as_live active d) (live_upsert f (as_live active d))"
    using step_imported [of f "as_live active d"] assms by (simp add: as_live_def)
  also have "live_upsert f (as_live active d) = (as_live active (d\<lparr>d_mem := m\<rparr>))\<lparr>lv_drops := List.map fl_id gone\<rparr>"
    using u by (simp add: live_upsert_def as_live_def)
  also note drops_run
  finally show ?thesis using u by (simp add: keep_flow_def forget_messages_def as_live_def)
qed

lemma remove_flows_run: "daemon_step\<^sup>*\<^sup>* (as_live active d) (as_live active (remove_flows P d))"
proof -
  obtain m gone where u: "delete_flows P (d_mem d) = (m, gone)" by fastforce
  have "daemon_step (as_live active d) (live_remove P (as_live active d))" by (rule step_removed)
  also have "live_remove P (as_live active d) = (as_live active (d\<lparr>d_mem := m\<rparr>))\<lparr>lv_drops := List.map fl_id gone\<rparr>"
    using u by (simp add: live_remove_def as_live_def)
  also note drops_run
  finally show ?thesis using u by (simp add: remove_flows_def forget_messages_def as_live_def)
qed

section \<open>What clients see of an exchange\<close>

lemma mem_wf_keep_flow: "mem_wf (d_mem d) \<Longrightarrow> mem_wf (d_mem (keep_flow f d))"
  using upsert_wf [of "d_mem d" f] by (simp add: keep_flow_def forget_messages_def split: prod.split) (metis fst_conv)

lemma mem_wf_sink: "mem_wf (d_mem d) \<Longrightarrow> mem_wf (d_mem (sink hash now ev d))"
  by (cases ev) (simp_all add: sink_started_def sink_updated_def sink_done_def announce_def mem_wf_keep_flow sink_blob_def split_beta)

lemma mem_wf_sink_all: "mem_wf (d_mem d) \<Longrightarrow> mem_wf (d_mem (fold (sink hash now) evs d))"
  by (induction evs arbitrary: d) (simp_all add: mem_wf_sink)

lemma find_by_id_map:
  "fl_id f \<in> fl_id ` set xs \<Longrightarrow> find (\<lambda>g. fl_id g = fl_id f) (List.map (\<lambda>g. if fl_id g = fl_id f then f else g) xs) = Some f"
  by (induction xs) auto

lemma get_flow_upsert: "mem_wf m \<Longrightarrow> get_flow (fl_id f) (fst (upsert f m)) = Some f"
proof -
  assume wf: "mem_wf m"
  show ?thesis
  proof (cases "m_by_id m (fl_id f)")
    case None
    then show ?thesis by (simp add: get_flow_eq [OF upsert_wf [OF wf]] upsert_new_list [OF wf None])
  next
    case (Some idx)
    then have "fl_id f \<in> fl_id ` set (newest_first m)" using by_id_Some_iff [OF wf, of "fl_id f"] by simp
    then show ?thesis
      by (simp add: get_flow_eq [OF upsert_wf [OF wf]] upsert_old(1) [OF wf Some] find_by_id_map)
  qed
qed

lemma get_flow_done: "mem_wf (d_mem d) \<Longrightarrow> get_flow (fl_id f) (d_mem (sink hash now (SDone f) d)) = Some f"
  using get_flow_upsert [of "d_mem d" f]
  by (simp add: sink_done_def announce_def keep_flow_def forget_messages_def split_beta)

lemma tail_visit_all:
  assumes "sorted_wrt (\<lambda>a b. fl_id b < fl_id a) fs"
  shows "visit (tail_visit P since) fs rows = rows @ filter (\<lambda>f. since < fl_id f \<and> fl_state f \<noteq> StateActive \<and> P f) fs"
  using assms
proof (induction fs arbitrary: rows)
  case (Cons f fs)
  show ?case
  proof (cases "fl_id f \<le> since")
    case True
    then have "\<not> since < fl_id g" if "g \<in> set (f # fs)" for g
      using Cons.prems that by (auto simp: not_less intro: order.trans [of _ "fl_id f"])
    then have "filter (\<lambda>f. since < fl_id f \<and> fl_state f \<noteq> StateActive \<and> P f) (f # fs) = []" by (simp only: filter_empty_conv) blast
    with True show ?thesis by (simp add: tail_visit_def)
  next
    case False
    with Cons show ?thesis by (auto simp: tail_visit_def not_le)
  qed
qed simp

lemma tail_collect_eq:
  assumes "mem_wf m" "sorted_wrt (\<lambda>a b. fl_id a < fl_id b) (mem_list m)"
  shows "tail_collect P since m = filter (\<lambda>f. since < fl_id f \<and> fl_state f \<noteq> StateActive \<and> P f) (mem_list m)"
proof -
  have "sorted_wrt (\<lambda>a b. fl_id b < fl_id a) (newest_first m)" using assms(2) by (simp add: mem_list_def sorted_wrt_rev)
  then show ?thesis
    by (simp add: tail_collect_def each_visit [OF assms(1)] tail_visit_all mem_list_def flip: rev_filter)
qed

lemma tail_cursor_grows: "c \<le> fold (\<lambda>f c. if c < fl_id f then fl_id f else c) rows c"
proof (induction rows arbitrary: c)
  case (Cons f rows)
  have "c \<le> (if c < fl_id f then fl_id f else c)" by (simp add: less_imp_le)
  also note Cons.IH [of "if c < fl_id f then fl_id f else c"]
  finally show ?case by simp
qed simp

lemma tail_cursor_after: "f \<in> set rows \<Longrightarrow> fl_id f \<le> fold (\<lambda>f c. if c < fl_id f then fl_id f else c) rows since"
proof (induction rows arbitrary: since)
  case (Cons g rows)
  show ?case
  proof (cases "f = g")
    case True
    have "fl_id f \<le> (if since < fl_id f then fl_id f else since)" by (simp add: not_less)
    also note tail_cursor_grows [of "if since < fl_id f then fl_id f else since" rows]
    finally show ?thesis unfolding True [symmetric] fold_simps .
  next
    case False
    with Cons show ?thesis by simp
  qed
qed simp

text \<open>A flow that is still active when a newer one is reported is never reported: the cursor has passed it.\<close>

lemma tail_loses_slow_flow:
  assumes "fl_id slow < fl_id quick" "fl_state slow = StateActive" "fl_state quick = StateDone" "0 < fl_id slow"
  defines "m1 \<equiv> fst (upsert quick (fst (upsert slow (new_mem 10))))"
    and "m2 \<equiv> fst (upsert (slow\<lparr>fl_state := StateDone\<rparr>) (fst (upsert quick (fst (upsert slow (new_mem 10))))))"
  shows "tail_collect (\<lambda>_. True) 0 m1 = [quick] \<and> tail_cursor 0 [quick] g = fl_id quick
    \<and> tail_collect (\<lambda>_. True) (fl_id quick) m2 = []"
proof -
  have wf: "mem_wf (new_mem 10)" "mem_wf (fst (upsert slow (new_mem 10)))" by (simp_all add: mem_wf_new upsert_wf)
  then have wf1: "mem_wf m1" "mem_wf m2" by (simp_all add: m1_def m2_def upsert_wf)
  have cap: "mem_cap (new_mem 10) = 10" "mem_list (new_mem 10) = []" by (simp_all add: mem_cap_def new_mem_def mem_list_def newest_first_def)
  have l0: "mem_list (fst (upsert slow (new_mem 10))) = [slow]"
    by (simp add: mem_list_upsert [OF wf(1)] spec_upsert_def cap del: set_mem_list)
  have l1: "mem_list m1 = [slow, quick]"
    using assms(1) by (simp add: m1_def mem_list_upsert [OF wf(2)] spec_upsert_def cap l0 del: set_mem_list)
  have l2: "mem_list m2 = [slow\<lparr>fl_state := StateDone\<rparr>, quick]"
    using assms(1) l1 wf1(1) by (simp add: m2_def mem_list_upsert spec_upsert_def flip: m1_def del: set_mem_list)
  have "fl_id quick \<noteq> 0" "0 < fl_id quick" using assms(1,4) by (auto intro: order.strict_trans)
  with assms(1-4) show ?thesis
    by (simp add: tail_collect_eq wf1 l1 l2 tail_cursor_def)
qed

text \<open>A flow cleared while its exchange runs is back when the exchange ends.\<close>

lemma cleared_flow_returns:
  assumes "mem_wf (d_mem d)"
  shows "get_flow (fl_id f) (d_mem (sink hash now (SDone f) (clear_capture d))) = Some f"
proof -
  have "mem_wf (d_mem (clear_capture d))"
    using delete_flows_wf [OF assms, of "\<lambda>_. True"]
    by (simp add: clear_capture_def remove_flows_def forget_messages_def split_beta)
  then show ?thesis by (rule get_flow_done)
qed

section \<open>Properties\<close>

text \<open>C31: however the goroutines of the daemon interleave (exchanges starting, sending messages and ending,
  evictions, deleted sessions, clearing, imports), once nothing is in flight every WebSocket message
  kept belongs to a flow that is still listed.\<close>

theorem no_orphan_messages:
  assumes "daemon_step\<^sup>*\<^sup>* (fresh_daemon ring) s" "lv_active s = {}" "lv_drops s = []"
    and "ws_messages i limit (lv_ws s) \<noteq> []"
  shows "get_flow i (lv_mem s) \<noteq> None"
proof -
  have ok: "live_ok s" using assms(1)
    by (induction rule: rtranclp_induct) (auto intro: fresh_daemon_ok daemon_step_ok)
  have "i \<in> ws_ids (lv_ws s)" using assms(4) by (auto simp: ws_ids_def ws_messages_def split: option.splits)
  with ok assms(2,3) have "mem_wf (lv_mem s)" "i \<in> ring_ids (lv_mem s)" by (auto simp: live_ok_def)
  then show ?thesis by (auto simp: get_flow_eq ring_ids_def find_None_iff)
qed


section \<open>Samples\<close>

definition sample_message :: ws_message where
  "sample_message = \<lparr>ws_flow_id = 3, ws_seq = 1, ws_ts = 5, ws_dir = ''send'', ws_opcode = 1, ws_len = 2, ws_payload = ''hi'', ws_masked = False\<rparr>"

definition sample_live :: daemon_parts where
  "sample_live =
     (let s1 = (live_upsert (sample_flow 3) (fresh_daemon 2))\<lparr>lv_active := {3}\<rparr>;
          s2 = s1\<lparr>lv_ws := ws_add (Some sample_message) (lv_ws s1)\<rparr>
      in (live_upsert (sample_flow 3) s2)\<lparr>lv_active := {}\<rparr>)"

lemma sample_live_run: "daemon_step\<^sup>*\<^sup>* (fresh_daemon 2) sample_live"
proof -
  define s1 where "s1 = (live_upsert (sample_flow 3) (fresh_daemon 2))\<lparr>lv_active := {3}\<rparr>"
  define s2 where "s2 = s1\<lparr>lv_ws := ws_add (Some sample_message) (lv_ws s1)\<rparr>"
  have i: "fl_id (sample_flow 3) = 3" by (simp add: sample_flow_def)
  have 1: "daemon_step (fresh_daemon 2) s1"
    using step_started [of "sample_flow 3" "fresh_daemon 2"] by (simp add: s1_def i fresh_daemon_def)
  have 2: "daemon_step s1 s2"
    using step_message [of sample_message s1] by (simp add: s2_def sample_message_def s1_def)
  have 3: "daemon_step s2 ((live_upsert (sample_flow 3) s2)\<lparr>lv_active := {}\<rparr>)"
    using step_finished [of "sample_flow 3" s2] by (simp add: i s2_def s1_def)
  from 1 2 3 have "daemon_step\<^sup>*\<^sup>* (fresh_daemon 2) ((live_upsert (sample_flow 3) s2)\<lparr>lv_active := {}\<rparr>)"
    by (meson r_into_rtranclp rtranclp.rtrancl_into_rtrancl)
  then show ?thesis by (simp add: sample_live_def s1_def s2_def Let_def)
qed

lemma no_orphan_messages_witness:
  "ws_messages 3 0 (lv_ws sample_live) = [sample_message] \<and> get_flow 3 (lv_mem sample_live) \<noteq> None"
proof -
  have m: "ws_messages 3 0 (lv_ws sample_live) = [sample_message]" by code_simp
  have "lv_active sample_live = {}" by (simp add: sample_live_def Let_def)
  moreover have "lv_drops sample_live = []" by code_simp
  ultimately show ?thesis using no_orphan_messages [OF sample_live_run _ _, of 3 0] m by simp
qed

definition sample_daemon :: daemon where
  "sample_daemon = \<lparr>d_mem = new_mem 2, d_blobs = new_mem_blobs 100, d_ws = new_ws_log 0 0, d_sess = \<lparr>s_list = [], s_cur = []\<rparr>, d_ids = new_idgen 0, d_bus = new_bus\<rparr>"


end
