(* ===== verification/Daemon_Har.thy ===== *)
theory Daemon_Har
  imports Har Daemon_Store View_Render
begin

text \<open>
  HAR export and import as requests to the daemon (\<open>HAR\<close> and \<open>encodingOf\<close> in \<open>internal/daemon/backend.go\<close>):
  the flows that match, oldest first, with their bodies decoded; and imported entries stored like the
  flows of exchanges. Opening files is an input; the JSON text between the two is that of \<open>Har\<close>.
\<close>

section \<open>Export\<close>

definition matching_flows :: "(flow \<Rightarrow> bool) \<Rightarrow> mem \<Rightarrow> flow list" where
  "matching_flows P m = rev (each (\<lambda>f acc. (if P f then acc @ [f] else acc, True)) m [])"

fun encoding_of :: "flow list \<Rightarrow> string \<Rightarrow> string" where
  "encoding_of [] hash = []"
| "encoding_of (f # fs) hash =
     (if br_hash (fl_req_body f) = hash then br_encoding (fl_req_body f)
      else if br_hash (fl_resp_body f) = hash then br_encoding (fl_resp_body f)
      else encoding_of fs hash)"

definition decoded_blob :: "codec \<Rightarrow> flow list \<Rightarrow> mem_blobs \<Rightarrow> string \<Rightarrow> string option" where
  "decoded_blob cd flows blobs hash =
     (case fst (get_blob hash blobs) of
        None \<Rightarrow> None
      | Some b \<Rightarrow> (case view_decode cd (encoding_of flows hash) b 0 of (dec, None) \<Rightarrow> Some dec | (_, Some _) \<Rightarrow> Some b))"

text \<open>Every body looked up moves to the front of the store's eviction order.\<close>

definition looked_up :: "flow list \<Rightarrow> string list" where
  "looked_up flows = filter (\<lambda>h. h \<noteq> []) (concat (List.map (\<lambda>f. [br_hash (fl_req_body f), br_hash (fl_resp_body f)]) flows))"

definition daemon_redactor ::
  "(string \<Rightarrow> string) \<Rightarrow> regexes \<Rightarrow> string list \<Rightarrow> string list \<Rightarrow> export_options \<Rightarrow> export_options" where
  "daemon_redactor sha rx headers patterns opts =
     (let rt = redact_text sha rx patterns in
      opts\<lparr>eo_redact_headers := Some (\<lambda>h. fst (redact_headers sha rt headers h False)), eo_redact_text := Some (\<lambda>s. fst (rt s))\<rparr>)"

definition export_request_options ::
  "codec \<Rightarrow> (export_options \<Rightarrow> export_options) \<Rightarrow> bool \<Rightarrow> flow list \<Rightarrow> daemon \<Rightarrow> export_options" where
  "export_request_options cd redactor redact flows d =
     (let opts = \<lparr>eo_body = Some (decoded_blob cd flows (d_blobs d)), eo_redact_headers = None, eo_redact_text = None, eo_max_body = 0\<rparr>
      in if redact then redactor opts else opts)"

definition har_export_request ::
  "'m har_lib \<Rightarrow> codec \<Rightarrow> (export_options \<Rightarrow> export_options) \<Rightarrow> bool \<Rightarrow> (flow \<Rightarrow> bool) \<Rightarrow> string \<Rightarrow> string option
    \<Rightarrow> daemon \<Rightarrow> api_error + ('m har_entry list \<times> nat) \<times> daemon" where
  "har_export_request lib cd redactor redact P path open_error d =
     (if path = [] then Inl (BadRequest ''path required'')
      else case open_error of
             Some e \<Rightarrow> Inl (BadRequest e)
           | None \<Rightarrow>
               (let flows = matching_flows P (d_mem d) in
                Inr (export_har lib (export_request_options cd redactor redact flows d) (List.map Some flows),
                     d\<lparr>d_blobs := fold (\<lambda>h b. snd (get_blob h b)) (looked_up flows) (d_blobs d)\<rparr>)))"

section \<open>Import\<close>

definition keep_imported_body :: "(string \<Rightarrow> string) \<Rightarrow> string \<Rightarrow> body_ref \<Rightarrow> daemon \<Rightarrow> body_ref \<times> daemon" where
  "keep_imported_body hash b ref d =
     (if b = [] then (ref, d)
      else let (h, d1) = sink_blob hash b d
           in (ref\<lparr>br_hash := h, br_captured := int (length b), br_encoding := []\<rparr>, d1))"

definition import_item :: "(string \<Rightarrow> string) \<Rightarrow> gotime \<Rightarrow> imported \<Rightarrow> daemon \<Rightarrow> daemon" where
  "import_item hash now it d =
     (let f = im_flow it;
          (i, g) = next_id (d_ids d);
          d1 = d\<lparr>d_ids := g\<rparr>;
          f1 = f\<lparr>fl_id := i, fl_session := current_id (d_sess d), fl_state := StateDone, fl_tags := fl_tags f @ [''imported'']\<rparr>;
          (rq, d2) = keep_imported_body hash (im_req_body it) (fl_req_body f1) d1;
          (rs, d3) = keep_imported_body hash (im_resp_body it) (fl_resp_body f1) d2
      in sink_done now (f1\<lparr>fl_req_body := rq, fl_resp_body := rs\<rparr>) d3)"

definition har_import_request ::
  "'m har_lib \<Rightarrow> (string \<Rightarrow> string) \<Rightarrow> gotime \<Rightarrow> string + (string + 'm har_entry list option) \<Rightarrow> daemon
    \<Rightarrow> api_error + nat \<times> daemon" where
  "har_import_request lib hash now file d =
     (case file of
        Inl e \<Rightarrow> Inl (BadRequest e)
      | Inr (Inl e) \<Rightarrow> Inl (BadRequest (''parse HAR: '' @ e))
      | Inr (Inr doc) \<Rightarrow>
          (case import_har lib doc of
             None \<Rightarrow> Inl (BadRequest ''parse HAR: har: document has no log object'')
           | Some items \<Rightarrow> Inr (length items, fold (import_item hash now) items d)))"

section \<open>What is exported and what an import adds\<close>

lemma matching_flows_eq: "mem_wf m \<Longrightarrow> matching_flows P m = filter P (mem_list m)"
proof -
  assume wf: "mem_wf m"
  have "visit (\<lambda>f acc. (if P f then acc @ [f] else acc, True)) fs acc = acc @ filter P fs" for fs acc
    by (induction fs arbitrary: acc) auto
  then show ?thesis by (simp add: matching_flows_def each_visit [OF wf] mem_list_def flip: rev_filter)
qed

lemma export_selects:
  assumes "mem_wf (d_mem d)" "har_export_request lib cd redactor redact P path None d = Inr ((es, n), d')"
  shows "n = length (filter P (mem_list (d_mem d))) \<and> length es = n \<and> d_mem d' = d_mem d"
  using assms by (auto simp: har_export_request_def Let_def export_har_def matching_flows_eq length_concat o_def split: if_splits)

text \<open>What an import leaves of a flow, and what it changes.\<close>

definition exchange_facts where
  "exchange_facts f =
     ((fl_kind f, fl_client f, fl_error f, fl_rules f, fl_replay f, fl_replay_of f),
      (fl_method f, fl_scheme f, fl_host f, fl_port f, fl_path f, fl_query f, fl_proto f, fl_up_proto f, fl_status f),
      (map_of (fl_req_headers f), map_of (fl_resp_headers f)))"

definition imported_like :: "gotime \<Rightarrow> string \<Rightarrow> imported \<Rightarrow> flow_id \<Rightarrow> flow \<Rightarrow> bool" where
  "imported_like now s it i g =
     (fl_id g = i \<and> fl_session g = s \<and> fl_state g = StateDone \<and> fl_tags g = fl_tags (im_flow it) @ [''imported'']
      \<and> fl_t g = fl_t (im_flow it) \<and> br_truncated (fl_req_body g) = br_truncated (fl_req_body (im_flow it))
      \<and> br_truncated (fl_resp_body g) = br_truncated (fl_resp_body (im_flow it)))"

lemma keep_imported_body_frame:
  assumes "keep_imported_body hash b ref d = (ref', d')"
  shows "d_mem d' = d_mem d" "d_ids d' = d_ids d" "d_sess d' = d_sess d" "br_truncated ref' = br_truncated ref"
  using assms by (auto simp: keep_imported_body_def sink_blob_def split: prod.splits if_splits)

lemma import_item_step:
  "\<exists>g. d_mem (import_item hash now it d) = fst (upsert g (d_mem d)) \<and> d_sess (import_item hash now it d) = d_sess d
     \<and> d_ids (import_item hash now it d) = snd (next_id (d_ids d))
     \<and> imported_like now (current_id (d_sess d)) it (fst (next_id (d_ids d))) g
     \<and> exchange_facts g = exchange_facts (im_flow it)"
proof -
  obtain i ig where n: "next_id (d_ids d) = (i, ig)" by fastforce
  define f1 where "f1 = (im_flow it)\<lparr>fl_id := i, fl_session := current_id (d_sess d), fl_state := StateDone,
    fl_tags := fl_tags (im_flow it) @ [''imported'']\<rparr>"
  obtain rq d2 where q: "keep_imported_body hash (im_req_body it) (fl_req_body f1) (d\<lparr>d_ids := ig\<rparr>) = (rq, d2)" by fastforce
  obtain rs d3 where r: "keep_imported_body hash (im_resp_body it) (fl_resp_body f1) d2 = (rs, d3)" by fastforce
  note frame = keep_imported_body_frame [OF q] keep_imported_body_frame [OF r]
  have "import_item hash now it d = sink_done now (f1\<lparr>fl_req_body := rq, fl_resp_body := rs\<rparr>) d3"
    unfolding import_item_def Let_def n prod.case f1_def [symmetric] q r ..
  then show ?thesis
    using frame n
    by (intro exI [of _ "f1\<lparr>fl_req_body := rq, fl_resp_body := rs\<rparr>"])
      (simp add: sink_done_def announce_def keep_flow_def forget_messages_def split_beta imported_like_def exchange_facts_def f1_def)
qed

lemma unat_succ_flow_id: "unat (g :: flow_id) + 1 < 2 ^ 64 \<Longrightarrow> unat (g + 1) = Suc (unat g)"
  by (simp add: unat_word_ariths)

text \<open>The ids taken: consecutive, from the last one used.\<close>

lemma import_all:
  assumes "mem_wf (d_mem d)" "\<forall>f \<in> set (mem_list (d_mem d)). unat (fl_id f) \<le> unat (g_last (d_ids d))"
    and "length (mem_list (d_mem d)) + length items \<le> mem_cap (d_mem d)"
    and "unat (g_last (d_ids d)) + length items < 2 ^ 64"
  shows "\<exists>gs. mem_list (d_mem (fold (import_item hash now) items d)) = mem_list (d_mem d) @ gs
    \<and> list_all2 (\<lambda>it g. \<exists>i. imported_like now (current_id (d_sess d)) it i g \<and> exchange_facts g = exchange_facts (im_flow it)) items gs"
  using assms
proof (induction items arbitrary: d)
  case (Cons it items)
  obtain g where g: "d_mem (import_item hash now it d) = fst (upsert g (d_mem d))"
    "d_sess (import_item hash now it d) = d_sess d" "d_ids (import_item hash now it d) = snd (next_id (d_ids d))"
    "imported_like now (current_id (d_sess d)) it (fst (next_id (d_ids d))) g" "exchange_facts g = exchange_facts (im_flow it)"
    using import_item_step [of hash now it d] by blast
  let ?d = "import_item hash now it d"
  have last: "unat (g_last (d_ids ?d)) = Suc (unat (g_last (d_ids d)))" and i: "unat (fl_id g) = Suc (unat (g_last (d_ids d)))"
    using g(3,4) Cons.prems(4) by (auto simp: next_id_def Let_def imported_like_def unat_succ_flow_id)
  have fresh: "fl_id g \<notin> fl_id ` set (mem_list (d_mem d))"
  proof
    assume "fl_id g \<in> fl_id ` set (mem_list (d_mem d))"
    then obtain f where "f \<in> set (mem_list (d_mem d))" "fl_id f = fl_id g" by (metis imageE)
    with Cons.prems(2) i show False by fastforce
  qed
  have l: "mem_list (d_mem ?d) = mem_list (d_mem d) @ [g]"
    using Cons.prems(3) fresh
    by (simp add: g(1) mem_list_upsert [OF Cons.prems(1)] spec_upsert_def del: set_mem_list)
  have ids: "\<forall>f \<in> set (mem_list (d_mem ?d)). unat (fl_id f) \<le> unat (g_last (d_ids ?d))"
    unfolding l last using Cons.prems(2) i by (auto simp: le_SucI simp del: set_mem_list)
  have "mem_wf (d_mem ?d)" "mem_cap (d_mem ?d) = mem_cap (d_mem d)" by (simp_all add: g(1) upsert_wf Cons.prems(1))
  then obtain gs where gs: "mem_list (d_mem (fold (import_item hash now) items ?d)) = mem_list (d_mem ?d) @ gs"
    "list_all2 (\<lambda>it g. \<exists>i. imported_like now (current_id (d_sess ?d)) it i g \<and> exchange_facts g = exchange_facts (im_flow it)) items gs"
    using Cons.IH [of ?d] ids Cons.prems(3,4) last unfolding l by (auto simp del: set_mem_list length_mem_list)
  show ?case
  proof (intro exI conjI)
    show "mem_list (d_mem (fold (import_item hash now) (it # items) d)) = mem_list (d_mem d) @ (g # gs)"
      using gs(1) l by simp
    show "list_all2 (\<lambda>it g. \<exists>i. imported_like now (current_id (d_sess d)) it i g \<and> exchange_facts g = exchange_facts (im_flow it))
      (it # items) (g # gs)"
      using gs(2) g(2,4,5) by auto
  qed
qed simp

section \<open>Properties\<close>

lemma exchange_of_flow_facts: "flow_facts g = flow_facts f \<Longrightarrow> exchange_facts g = exchange_facts f"
  by (simp add: flow_facts_def exchange_facts_def)

lemma moved_flow:
  assumes "imported_like now s it i g" "exchange_facts g = exchange_facts (im_flow it)" "flow_facts (im_flow it) = flow_facts f"
  shows "exchange_facts g = exchange_facts f \<and> fl_state g = StateDone \<and> fl_session g = s \<and> fl_tags g = fl_tags f @ [''imported'']"
  using assms exchange_of_flow_facts [OF assms(3)] by (simp add: imported_like_def flow_facts_def)


text \<open>Two flows can share a body's hash but not its encoding (the same bytes sent as \<open>gzip\<close> and as they are): both
  are then decoded with the encoding of the first.\<close>

lemma shared_hash_first_encoding:
  assumes "br_hash (fl_resp_body f) = h" "br_hash (fl_req_body f) \<noteq> h"
  shows "encoding_of (f # g # fs) h = br_encoding (fl_resp_body f)"
  using assms by simp

section \<open>Samples\<close>

definition sample_source :: daemon where
  "sample_source = sample_daemon\<lparr>d_mem := fst (upsert sample_har_flow (new_mem 2))\<rparr>"

lemma sample_source_list: "mem_wf (d_mem sample_source)" "mem_list (d_mem sample_source) = [sample_har_flow]"
proof -
  have wf: "mem_wf (new_mem 2)" by (rule mem_wf_new)
  then show "mem_wf (d_mem sample_source)" by (simp add: sample_source_def upsert_wf)
  have "mem_cap (new_mem 2) = 2" "mem_list (new_mem 2) = []" by (simp_all add: mem_cap_def new_mem_def mem_list_def newest_first_def)
  then show "mem_list (d_mem sample_source) = [sample_har_flow]"
    by (simp add: sample_source_def mem_list_upsert [OF wf] spec_upsert_def del: set_mem_list)
qed


end
