(* ===== verification/Daemon_Requests.thy ===== *)
theory Daemon_Requests
  imports Daemon_Store View_JsonDiff View_Render Proxy_Record
begin

text \<open>
  The requests to the daemon that read flows (\<open>internal/daemon/backend.go\<close>): one flow in detail, a body, the
  difference of two flows, and the request a replay sends, with the JSON patch of its body. Sending it,
  and the clock, are inputs.
\<close>

section \<open>Flows and bodies\<close>

definition flow_or_error :: "flow_id \<Rightarrow> daemon \<Rightarrow> api_error + flow" where
  "flow_or_error i d = (case get_flow i (d_mem d) of Some f \<Rightarrow> Inr f | None \<Rightarrow> Inl (NotFound ''flow'' (short i)))"

definition body_bytes :: "body_ref \<Rightarrow> daemon \<Rightarrow> string option \<times> daemon" where
  "body_bytes ref d =
     (if br_hash ref = [] then (None, d)
      else let (b, bs) = get_blob (br_hash ref) (d_blobs d) in (b, d\<lparr>d_blobs := bs\<rparr>))"

definition decode_or_raw :: "codec \<Rightarrow> string \<Rightarrow> string \<Rightarrow> string" where
  "decode_or_raw cd enc b = (case view_decode cd enc b 0 of (dec, None) \<Rightarrow> dec | (_, Some _) \<Rightarrow> b)"

definition decoded_body :: "codec \<Rightarrow> body_ref \<Rightarrow> daemon \<Rightarrow> string \<times> daemon" where
  "decoded_body cd ref d =
     (case body_bytes ref d of
        (None, d1) \<Rightarrow> ([], d1)
      | (Some b, d1) \<Rightarrow> (decode_or_raw cd (br_encoding ref) b, d1))"

definition body_part :: "string \<Rightarrow> flow \<Rightarrow> body_ref option" where
  "body_part part f =
     (if part \<in> {''request'', ''req''} then Some (fl_req_body f)
      else if part \<in> {''response'', ''resp''} then Some (fl_resp_body f) else None)"

definition body_request :: "codec \<Rightarrow> flow_id \<Rightarrow> string \<Rightarrow> bool \<Rightarrow> daemon \<Rightarrow> api_error + (string \<times> string) \<times> daemon" where
  "body_request cd i part decode d =
     and_then (flow_or_error i d) (\<lambda>f.
       case body_part part f of
         None \<Rightarrow> Inl (BadRequest ''part must be request or response'')
       | Some ref \<Rightarrow>
           (case body_bytes ref d of
              (None, _) \<Rightarrow> Inl (NotFound ''body for flow'' (short i))
            | (Some b, d1) \<Rightarrow>
                Inr ((if decode \<and> br_encoding ref \<noteq> [] then decode_or_raw cd (br_encoding ref) b else b,
                      if br_mime ref = [] then ''application/octet-stream'' else br_mime ref), d1)))"

definition ws_request :: "flow_id \<Rightarrow> int \<Rightarrow> daemon \<Rightarrow> api_error + ws_message list" where
  "ws_request i limit d = and_then (flow_or_error i d) (\<lambda>_. Inr (ws_messages i limit (d_ws d)))"

definition list_limit :: "int \<Rightarrow> int \<Rightarrow> int" where
  "list_limit page_size limit = (if limit \<le> 0 then page_size else limit)"

section \<open>One flow in detail\<close>

definition right_arrow :: string where
  "right_arrow = [CHR '' '', CHR 0xE2, CHR 0x86, CHR 0x92, CHR '' '']"

record detail_query =
  dq_part :: string
  dq_view :: string
  dq_path :: string
  dq_max_bytes :: int
  dq_headers :: "bool option"
  dq_reveal :: bool

record rendered_part =
  rp_headers :: "header option"
  rp_ref :: body_ref
  rp_rendered :: string
  rp_binary :: bool
  rp_redacted :: nat

record flow_detail =
  dt_flow :: flow
  dt_request :: "rendered_part option"
  dt_response :: "rendered_part option"
  dt_text :: string

record view_settings =
  vs_truncate :: int
  vs_max_bytes :: int
  vs_redact :: bool
  vs_secret_headers :: "string list"

definition view_opts :: "view_settings \<Rightarrow> detail_query \<Rightarrow> options" where
  "view_opts vs q =
     \<lparr>op_max_bytes = (if dq_max_bytes q \<le> 0 then vs_max_bytes vs else dq_max_bytes q), op_string_truncate = vs_truncate vs,
      op_redact = vs_redact vs, op_reveal = dq_reveal q, op_array_sample = 0\<rparr>"

definition redact_header_map :: "view_lib \<Rightarrow> view_settings \<Rightarrow> header \<Rightarrow> bool \<Rightarrow> header \<times> nat" where
  "redact_header_map lib vs h reveal =
     redact_headers (vl_sha lib) (redact_text (vl_sha lib) (vl_regex lib) (vl_patterns lib)) (vs_secret_headers vs) h reveal"

definition detail_head :: "gotime \<Rightarrow> flow \<Rightarrow> string" where
  "detail_head now f =
     short (fl_id f) @ '' '' @ fl_method f @ '' '' @ flow_url f @ right_arrow @ itoa (fl_status f) @ '' ''
       @ status_text (fl_status f) @ ''  '' @ fl_proto f @ '' '' @ format_duration (total now (fl_t f)) @ ''  client '' @ fl_client f
     @ (if fl_kind f \<noteq> KindHTTP then ''  kind='' @ kind_str (fl_kind f) else [])
     @ (if fl_state f \<noteq> StateDone then ''  state='' @ state_str (fl_state f) else [])
     @ (if fl_error f \<noteq> [] then newline # ''error: '' @ fl_error f else [])
     @ (if fl_rules f \<noteq> []
        then newline # ''rules: '' @ str_join '' '' (List.map (\<lambda>h. rh_rule_id h @ '':'' @ rh_action h) (fl_rules f)) else [])
     @ (if time_is_zero (t_first_byte (fl_t f)) then []
        else newline # ''timing: ttfb '' @ format_duration (ttfb (fl_t f)) @ '' total '' @ format_duration (total now (fl_t f))
               @ (if t_reused (fl_t f) then '' (conn reused)'' else []))"

text \<open>The closure \<open>render\<close>: the part and the text it adds.\<close>

definition render_part ::
  "view_lib \<Rightarrow> (decode_error \<Rightarrow> string) \<Rightarrow> (render_error \<Rightarrow> string) \<Rightarrow> view_settings \<Rightarrow> detail_query
    \<Rightarrow> string \<Rightarrow> header \<Rightarrow> body_ref \<Rightarrow> daemon \<Rightarrow> rendered_part \<times> string \<times> daemon" where
  "render_part lib dtxt rtxt vs q label hdr ref d =
     (let ops = view_opts vs q;
          (h, n) = redact_header_map lib vs hdr (op_reveal ops \<or> \<not> op_redact ops);
          showing = (dq_headers q \<noteq> Some False);
          p = \<lparr>rp_headers = (if showing then Some h else None), rp_ref = ref, rp_rendered = [], rp_binary = False,
               rp_redacted = (if showing then n else 0)\<rparr>;
          top = [newline, newline] @ ''== '' @ label @ '' =='' @ [newline] @ (if showing then format_headers h @ [newline] else []);
          (raw, d1) = body_bytes ref d
      in case raw of
           None \<Rightarrow>
             (p, top @ (if 0 < br_size ref then ''body: '' @ br_mime ref @ '' '' @ itoa (br_size ref) @ ''B (not captured)''
                        else ''body: none'') @ [newline], d1)
         | Some b \<Rightarrow>
             (let (s, m, binary) = (case render_body lib dtxt (dq_view q) b (br_encoding ref) (br_mime ref) (dq_path q) ops of
                                      Inr r \<Rightarrow> r | Inl e \<Rightarrow> (''body: '' @ rtxt e, 0, False))
              in (p\<lparr>rp_rendered := s, rp_binary := binary, rp_redacted := rp_redacted p + m\<rparr>, top @ s @ [newline], d1)))"

definition detail_request ::
  "view_lib \<Rightarrow> (decode_error \<Rightarrow> string) \<Rightarrow> (render_error \<Rightarrow> string) \<Rightarrow> view_settings \<Rightarrow> gotime \<Rightarrow> flow_id
    \<Rightarrow> detail_query \<Rightarrow> daemon \<Rightarrow> api_error + flow_detail \<times> daemon" where
  "detail_request lib dtxt rtxt vs now i q0 d =
     and_then (flow_or_error i d) (\<lambda>f.
       let q = q0\<lparr>dq_view := (if dq_view q0 = [] then ''summary'' else dq_view q0),
                  dq_part := (if dq_part q0 = [] then ''both'' else dq_part q0)\<rparr>;
           (rq, t1, d1) = (if dq_part q \<in> {''request'', ''both''}
                           then let (p, s, d1) = render_part lib dtxt rtxt vs q ''request'' (fl_req_headers f) (fl_req_body f) d
                                in (Some p, s, d1)
                           else (None, [], d));
           (rs, t2, d2) = (if dq_part q \<in> {''response'', ''both''}
                           then let (p, s, d2) = render_part lib dtxt rtxt vs q ''response'' (fl_resp_headers f) (fl_resp_body f) d1
                                in (Some p, s, d2)
                           else (None, [], d1))
       in Inr (\<lparr>dt_flow = f, dt_request = rq, dt_response = rs,
                dt_text = trim_right (\<lambda>c. c = newline) (detail_head now f @ t1 @ t2)\<rparr>, d2))"

section \<open>The difference of two flows\<close>

record diff_request =
  df_part :: string
  df_path :: string
  df_ignore :: "string list option"
  df_max :: int

definition diff_line :: "string \<Rightarrow> flow \<Rightarrow> string" where
  "diff_line name f =
     name @ '': '' @ short (fl_id f) @ '' '' @ fl_method f @ '' '' @ flow_url f @ right_arrow @ itoa (fl_status f) @ [newline]"

definition diff_bodies ::
  "view_lib \<Rightarrow> (string \<Rightarrow> (json \<times> string) option) \<Rightarrow> (json \<Rightarrow> string) \<Rightarrow> diff_request \<Rightarrow> string \<Rightarrow> string
    \<Rightarrow> (string \<times> nat) option" where
  "diff_bodies lib dec enc req a b =
     (let at_path = (\<lambda>x. if df_path req = [] then x
                         else case vl_get lib x (normalize_path (df_path req)) of None \<Rightarrow> [] | Some r \<Rightarrow> g_raw r);
          ba = at_path a; bb = at_path b
      in if ba = bb then Some (''(identical)'' @ [newline], 0)
         else map_option (\<lambda>(s, n). (s @ [newline], n))
                (if vl_valid lib ba \<and> vl_valid lib bb then diff_json dec enc ba bb (df_max req)
                 else diff_text (take 4096 ba) (take 4096 bb) 60))"

definition diff_part ::
  "view_lib \<Rightarrow> (string \<Rightarrow> (json \<times> string) option) \<Rightarrow> (json \<Rightarrow> string) \<Rightarrow> view_settings \<Rightarrow> diff_request \<Rightarrow> string
    \<Rightarrow> header \<Rightarrow> header \<Rightarrow> body_ref \<Rightarrow> body_ref \<Rightarrow> daemon \<Rightarrow> (string \<times> nat) option \<times> daemon" where
  "diff_part lib dec enc vs req label ha hb ra rb d =
     (let h1 = fst (redact_header_map lib vs ha (\<not> vs_redact vs));
          h2 = fst (redact_header_map lib vs hb (\<not> vs_redact vs));
          (t, n) = diff_headers h1 h2 (df_ignore req);
          (ba, d1) = decoded_body (vl_codec lib) ra d;
          (bb, d2) = decoded_body (vl_codec lib) rb d1
      in (map_option (\<lambda>(s, m).
            ([newline] @ ''== '' @ label @ '' headers =='' @ [newline] @ (if n = 0 then ''(no changes)'' else t) @ [newline]
             @ [newline] @ ''== '' @ label @ '' body =='' @ [newline] @ s, n + m))
            (diff_bodies lib dec enc req ba bb), d2))"

fun add_part :: "(string \<times> nat) option \<Rightarrow> (string \<times> nat) option \<Rightarrow> (string \<times> nat) option" where
  "add_part (Some (s, n)) (Some (t, m)) = Some (s @ t, n + m)"
| "add_part _ _ = None"

definition diff_head :: "flow \<Rightarrow> flow \<Rightarrow> string \<times> nat" where
  "diff_head a b =
     (diff_line ''a'' a @ diff_line ''b'' b
      @ (if fl_status a \<noteq> fl_status b
         then ''~ status: '' @ itoa (fl_status a) @ right_arrow @ itoa (fl_status b) @ [newline] else [])
      @ (if flow_url a \<noteq> flow_url b then ''~ url: '' @ flow_url a @ right_arrow @ flow_url b @ [newline] else []),
      (if fl_status a \<noteq> fl_status b then 1 else 0) + (if flow_url a \<noteq> flow_url b then 1 else 0))"

text \<open>\<open>Diff\<close>: the text and the number of changes; the inner option is whether the hunk loop ends.\<close>

definition diff_flows ::
  "view_lib \<Rightarrow> (string \<Rightarrow> (json \<times> string) option) \<Rightarrow> (json \<Rightarrow> string) \<Rightarrow> view_settings \<Rightarrow> diff_request
    \<Rightarrow> flow \<Rightarrow> flow \<Rightarrow> daemon \<Rightarrow> (string \<times> nat) option \<times> daemon" where
  "diff_flows lib dec enc vs req a b d =
     (let part = (if df_part req = [] then ''response'' else df_part req);
          (p1, d1) = (if part \<in> {''request'', ''both''}
                      then diff_part lib dec enc vs req ''request'' (fl_req_headers a) (fl_req_headers b) (fl_req_body a) (fl_req_body b) d
                      else (Some ([], 0), d));
          (p2, d2) = (if part \<in> {''response'', ''both''}
                      then diff_part lib dec enc vs req ''response'' (fl_resp_headers a) (fl_resp_headers b) (fl_resp_body a) (fl_resp_body b) d1
                      else (Some ([], 0), d1));
          redact = (\<lambda>s. if vs_redact vs then fst (redact_text (vl_sha lib) (vl_regex lib) (vl_patterns lib) s) else s)
      in (map_option (\<lambda>(s, n). (trim_right (\<lambda>c. c = newline) (redact s), n))
            (add_part (Some (diff_head a b)) (add_part p1 p2)), d2))"

definition diff_request_of ::
  "view_lib \<Rightarrow> (string \<Rightarrow> (json \<times> string) option) \<Rightarrow> (json \<Rightarrow> string) \<Rightarrow> view_settings \<Rightarrow> diff_request
    \<Rightarrow> flow_id \<Rightarrow> flow_id \<Rightarrow> daemon \<Rightarrow> api_error + (string \<times> nat) option \<times> daemon" where
  "diff_request_of lib dec enc vs req i j d =
     and_then (flow_or_error i d) (\<lambda>a. and_then (flow_or_error j d) (\<lambda>b. Inr (diff_flows lib dec enc vs req a b d)))"

section \<open>The JSON patch of a replay\<close>

text \<open>\<open>scan\<close> is \<open>Sscanf\<close> of one integer at the start of a segment. A null is taken for what the segment needs;
  an array grows with nulls up to the index.\<close>

datatype patch_error = IndexExpected string | CannotDescend string | NotJson

definition patch_node :: "(string \<Rightarrow> int option) \<Rightarrow> json \<Rightarrow> string \<Rightarrow> json" where
  "patch_node scan node seg = (if node = JNull then if scan seg = None then JObj [] else JArr [] else node)"

fun patch_path :: "(string \<Rightarrow> int option) \<Rightarrow> json \<Rightarrow> string list \<Rightarrow> json \<Rightarrow> patch_error + json" where
  "patch_path scan node [] v = Inr v"
| "patch_path scan node (seg # rest) v =
     (case patch_node scan node seg of
        JObj fs \<Rightarrow> and_then (patch_path scan (member fs seg) rest v) (\<lambda>c. Inr (JObj (map_put seg c fs)))
      | JArr xs \<Rightarrow>
          (case scan seg of
             None \<Rightarrow> Inl (IndexExpected seg)
           | Some idx \<Rightarrow>
               if idx < 0 then Inl (IndexExpected seg)
               else let ys = xs @ replicate (Suc (nat idx) - length xs) JNull
                    in and_then (patch_path scan (ys ! nat idx) rest v) (\<lambda>c. Inr (JArr (ys[nat idx := c]))))
      | _ \<Rightarrow> Inl (CannotDescend seg))"

record patch_codec =
  pc_decode :: "string \<Rightarrow> json option"
  pc_encode :: "json \<Rightarrow> string"
  pc_number :: "string \<Rightarrow> bool"
  pc_scan :: "string \<Rightarrow> int option"

text \<open>A string that is a JSON literal stands for its value.\<close>

definition patch_value :: "patch_codec \<Rightarrow> json \<Rightarrow> json" where
  "patch_value pc v =
     (case v of
        JStr s \<Rightarrow>
          (case pc_decode pc s of
             None \<Rightarrow> v
           | Some w \<Rightarrow>
               if \<not> has_prefix s [CHR 0x22]
                  \<and> (has_prefix s ''{'' \<or> has_prefix s ''['' \<or> s \<in> {''true'', ''false'', ''null''} \<or> pc_number pc s)
               then w else v)
      | _ \<Rightarrow> v)"

text \<open>\<open>patchJSON\<close>, the patch in the order in which Go's map yields it.\<close>

fun patch_every :: "patch_codec \<Rightarrow> (string \<times> json) list \<Rightarrow> json \<Rightarrow> patch_error + json" where
  "patch_every pc [] doc = Inr doc"
| "patch_every pc ((path, v) # ps) doc =
     and_then (patch_path (pc_scan pc) doc (str_split (CHR ''.'') (normalize_path path)) (patch_value pc v)) (patch_every pc ps)"

definition patch_json :: "patch_codec \<Rightarrow> string \<Rightarrow> (string \<times> json) list \<Rightarrow> patch_error + string" where
  "patch_json pc body patch =
     (case (if trim_space body = [] then Some (JObj []) else pc_decode pc body) of
        None \<Rightarrow> Inl NotJson
      | Some doc \<Rightarrow> and_then (patch_every pc patch doc) (\<lambda>out. Inr (pc_encode pc out)))"

section \<open>Replay\<close>

record replay_options =
  ro_url :: string
  ro_method :: string
  ro_set :: "(string \<times> string) list"
  ro_remove :: "string list"
  ro_body :: "string option"
  ro_patch :: "(string \<times> json) list"
  ro_follow :: "bool option"
  ro_timeout_ms :: int

record replay_request =
  rr_method :: string
  rr_url :: string
  rr_header :: header
  rr_body :: string
  rr_timeout :: duration

definition replay_base_headers :: "replay_options \<Rightarrow> flow \<Rightarrow> header" where
  "replay_base_headers req f =
     (let h0 = filter (\<lambda>(k, _). \<not> equal_fold k ''Content-Length'' \<and> \<not> equal_fold k ''Content-Encoding'' \<and> \<not> equal_fold k ''Host'')
                 (fl_req_headers f);
          h1 = fold header_del (ro_remove req) h0
      in fold (\<lambda>(k, v). header_set k v) (ro_set req) h1)"

definition replay_headers :: "replay_options \<Rightarrow> flow \<Rightarrow> string \<Rightarrow> header" where
  "replay_headers req f body =
     (let h1 = header_set replay_header (short (fl_id f)) (replay_base_headers req f);
          h2 = (if ro_follow req = Some False then header_set no_rules_header ''1'' h1 else h1)
      in if body \<noteq> [] \<and> header_get h2 ''Content-Type'' = [] \<and> br_mime (fl_req_body f) \<noteq> []
         then header_set ''Content-Type'' (br_mime (fl_req_body f)) h2 else h2)"

definition replay_of :: "codec \<Rightarrow> patch_codec \<Rightarrow> (patch_error \<Rightarrow> string) \<Rightarrow> replay_options \<Rightarrow> flow_id \<Rightarrow> daemon
    \<Rightarrow> api_error + replay_request \<times> daemon" where
  "replay_of cd pc etxt req i d =
     and_then (flow_or_error i d) (\<lambda>f.
       if fl_kind f \<noteq> KindHTTP then Inl (BadRequest ''only HTTP flows can be replayed'')
       else let (b0, d1) = decoded_body cd (fl_req_body f) d;
                b1 = (case ro_body req of None \<Rightarrow> b0 | Some b \<Rightarrow> b);
                w = wrap_int (ro_timeout_ms req * millisecond)
            in case (if ro_patch req = [] then Inr b1 else patch_json pc b1 (ro_patch req)) of
                 Inl e \<Rightarrow> Inl (BadRequest (''body_patch: '' @ etxt e))
               | Inr b \<Rightarrow>
                   Inr (\<lparr>rr_method = (if ro_method req = [] then fl_method f else to_upper (ro_method req)),
                         rr_url = (if ro_url req = [] then flow_url f else ro_url req),
                         rr_header = replay_headers req f b, rr_body = b,
                         rr_timeout = (if w \<le> 0 then 30 * second else w)\<rparr>, d1))"

section \<open>Lemmas\<close>

lemma diff_text_total: "\<exists>s n. diff_text a b m = Some (s, n)"
proof -
  let ?ops = "diff_lines (split_lines a) (split_lines b)"
  have "\<exists>ls. hunk_loop (line_limit m) (length (filter changed ?ops)) ?ops 0 0 [] = Some ([] @ ls)
     \<and> filter change_line ls = take (line_limit m - 0) (List.map op_line (filter changed (drop 0 ?ops)))
     \<and> (line_limit m - 0 < length (filter changed (drop 0 ?ops))
         \<longleftrightarrow> (ls \<noteq> [] \<and> last ls = more_lines (length (filter changed ?ops) - line_limit m)))"
    by (rule hunk_loop_prints) (simp_all add: context_before_def)
  then show ?thesis by (auto simp: diff_text_def Let_def line_limit_def split: if_splits)
qed

lemma diff_json_total: "\<exists>s n. diff_json dec enc a b m = Some (s, n)"
proof -
  obtain s n where "diff_text a b m = Some (s, n)" using diff_text_total by blast
  then show ?thesis
    using diff_text_total [of a b "if m \<le> 0 then 50 else m"] diff_text_total [of a b 200] diff_text_total [of a b 0]
    by (auto simp: diff_json_def Let_def split: option.split prod.split)
qed

lemma diff_bodies_total: "\<exists>s n. diff_bodies lib dec enc req a b = Some (s, n) \<and> (a = b \<longrightarrow> n = 0)"
proof -
  have "\<exists>s n. (if p then diff_json dec enc x y m else diff_text u v k) = Some (s, n)" for p x y m u v k
    using diff_text_total diff_json_total by (cases p) simp_all
  then show ?thesis by (auto simp: diff_bodies_def Let_def split: if_splits) (metis option.simps(9) prod.case)+
qed

lemma body_bytes_again:
  "body_bytes ref d = (b, d1) \<Longrightarrow> fst (body_bytes ref d1) = b"
  by (auto simp: body_bytes_def get_blob_def split: if_splits option.splits)

lemma decoded_body_again: "decoded_body cd ref d = (b, d1) \<Longrightarrow> fst (decoded_body cd ref d1) = b"
  using body_bytes_again [of ref d]
  by (cases "body_bytes ref d"; cases "body_bytes ref d1") (auto simp: decoded_body_def split: option.splits)

lemma diff_part_total:
  "\<exists>s n. fst (diff_part lib dec enc vs req label ha hb ra rb d) = Some (s, n) \<and> (ha = hb \<and> ra = rb \<longrightarrow> n = 0)"
proof -
  obtain h1 h2 where h: "fst (redact_header_map lib vs ha (\<not> vs_redact vs)) = h1" "fst (redact_header_map lib vs hb (\<not> vs_redact vs)) = h2" by blast
  obtain t n where t: "diff_headers h1 h2 (df_ignore req) = (t, n)" by fastforce
  obtain ba d1 where a: "decoded_body (vl_codec lib) ra d = (ba, d1)" by fastforce
  obtain bb d2 where b: "decoded_body (vl_codec lib) rb d1 = (bb, d2)" by fastforce
  obtain s m where s: "diff_bodies lib dec enc req ba bb = Some (s, m)" "ba = bb \<longrightarrow> m = 0" using diff_bodies_total by blast
  have "n = 0 \<and> m = 0" if "ha = hb" "ra = rb"
  proof -
    have "h1 = h2" using h that by simp
    then have "snd (diff_headers h1 h2 (df_ignore req)) = 0" unfolding diff_headers_none by simp
    moreover have "ba = bb" using decoded_body_again [OF a] b that by simp
    ultimately show ?thesis using t s(2) by simp
  qed
  then show ?thesis unfolding diff_part_def Let_def h t prod.case a b s(1) by auto
qed

lemma header_get_other: "canonical_key j \<noteq> canonical_key k \<Longrightarrow> header_get (header_set k v h) j = header_get h j"
  by (simp add: header_get_def header_values_set_other)

lemma header_get_del: "header_get (header_del k h) j = (if canonical_key j = canonical_key k then [] else header_get h j)"
  by (simp add: header_get_def header_values_del_if)

lemma control_keys:
  "canonical_key replay_header \<noteq> canonical_key no_rules_header" "canonical_key no_rules_header \<noteq> canonical_key replay_header"
  "canonical_key replay_header \<noteq> canonical_key ''Content-Type''" "canonical_key no_rules_header \<noteq> canonical_key ''Content-Type''"
  by code_simp+

lemma replay_headers_get:
  "header_get (replay_headers req f body) replay_header = short (fl_id f)"
  "header_get (replay_headers req f body) no_rules_header
     = (if ro_follow req = Some False then ''1'' else header_get (replay_base_headers req f) no_rules_header)"
  by (simp_all add: replay_headers_def Let_def header_get_other control_keys)

section \<open>Properties\<close>

text \<open>Comparing two flows always ends with a text and a number of changes, and a flow compared with itself
  has none, whatever part, path or headers are asked for and whether or not secrets are masked.\<close>

theorem diff_flows_ends:
  "\<exists>s n. fst (diff_flows lib dec enc vs req a b d) = Some (s, n) \<and> (if a = b then n = 0 else True)"
proof -
  let ?part = "if df_part req = [] then ''response'' else df_part req"
  obtain p1 d1 where p1: "(if ?part \<in> {''request'', ''both''}
      then diff_part lib dec enc vs req ''request'' (fl_req_headers a) (fl_req_headers b) (fl_req_body a) (fl_req_body b) d
      else (Some ([], 0), d)) = (p1, d1)" by fastforce
  obtain p2 d2 where p2: "(if ?part \<in> {''response'', ''both''}
      then diff_part lib dec enc vs req ''response'' (fl_resp_headers a) (fl_resp_headers b) (fl_resp_body a) (fl_resp_body b) d1
      else (Some ([], 0), d1)) = (p2, d2)" by fastforce
  obtain s1 n1 where s1: "p1 = Some (s1, n1)" "a = b \<longrightarrow> n1 = 0"
    using p1 diff_part_total [of lib dec enc vs req "''request''" "fl_req_headers a" "fl_req_headers b" "fl_req_body a" "fl_req_body b" d]
    by (auto split: if_splits)
  obtain s2 n2 where s2: "p2 = Some (s2, n2)" "a = b \<longrightarrow> n2 = 0"
    using p2 diff_part_total [of lib dec enc vs req "''response''" "fl_resp_headers a" "fl_resp_headers b" "fl_resp_body a" "fl_resp_body b" d1]
    by (auto split: if_splits)
  show ?thesis
    unfolding diff_flows_def Let_def p1 prod.case p2 s1(1) s2(1) using s1(2) s2(2) by (simp add: diff_head_def)
qed

text \<open>C37: a replayed request is recorded as the replay it is: when the proxy takes the control headers off the
  request the daemon sends, the new flow refers to the flow replayed, the rules are skipped exactly when
  that was asked for, and neither the origin nor the recorded headers see a control header.\<close>

theorem replay_is_recorded:
  assumes "replay_of cd pc etxt req i d = Inr (rr, d')" "get_flow i (d_mem d) = Some f" "fl_id f = i"
    and "header_get (replay_base_headers req f) no_rules_header = []"
    and "control_headers (out\<lparr>rq_header := rr_header rr\<rparr>) (g\<lparr>fl_req_headers := rr_header rr\<rparr>) = (sent, g', w, skip)"
  shows "fl_replay g' \<and> fl_replay_of g' = i \<and> (skip \<longleftrightarrow> ro_follow req = Some False)
    \<and> header_get w flow_id_header = short (fl_id g)
    \<and> list_all (\<lambda>h. header_get h replay_header = [] \<and> header_get h no_rules_header = []) [rq_header sent, fl_req_headers g']"
proof -
  obtain body where h: "rr_header rr = replay_headers req f body"
    using assms(1,2) by (auto simp: replay_of_def flow_or_error_def Let_def split: if_splits prod.splits sum.splits)
  have v: "header_get (rr_header rr) replay_header = short i" using h assms(3) replay_headers_get(1) by simp
  have n: "header_get (rr_header rr) no_rules_header = (if ro_follow req = Some False then ''1'' else [])"
    using h assms(4) replay_headers_get(2) by simp
  have "short i \<noteq> []" "parse_short (short i) = Some i" using short_nonempty parse_short_short by auto
  with v n assms(5) show ?thesis
    by (auto simp: control_headers_def take_control_def Let_def header_get_del control_keys split: if_splits)
qed

text \<open>A patched path reads back the value set, and other members of the outermost object keep theirs.\<close>

fun patch_at :: "(string \<Rightarrow> int option) \<Rightarrow> json \<Rightarrow> string list \<Rightarrow> json option" where
  "patch_at scan node [] = Some node"
| "patch_at scan node (seg # rest) =
     (case node of
        JObj fs \<Rightarrow> (case map_of fs seg of None \<Rightarrow> None | Some c \<Rightarrow> patch_at scan c rest)
      | JArr xs \<Rightarrow>
          (case scan seg of
             None \<Rightarrow> None
           | Some idx \<Rightarrow> if 0 \<le> idx \<and> nat idx < length xs then patch_at scan (xs ! nat idx) rest else None)
      | _ \<Rightarrow> None)"

lemma patch_path_reads_back: "patch_path scan node path v = Inr out \<Longrightarrow> patch_at scan out path = Some v"
proof (induction scan node path v arbitrary: out rule: patch_path.induct)
  case (2 scan node seg rest v)
  show ?case
  proof (cases "patch_node scan node seg")
    case (JObj fs)
    then obtain c where "patch_path scan (member fs seg) rest v = Inr c" "out = JObj (map_put seg c fs)"
      using "2.prems" by (auto simp: and_then_Inr)
    with "2.IH"(2) [OF JObj] show ?thesis by simp
  next
    case (JArr xs)
    then obtain idx where idx: "scan seg = Some idx" "\<not> idx < 0" using "2.prems" by (auto split: option.splits if_splits)
    define ys where "ys = xs @ replicate (Suc (nat idx) - length xs) JNull"
    obtain c where c: "patch_path scan (ys ! nat idx) rest v = Inr c" "out = JArr (ys[nat idx := c])"
      using "2.prems" JArr idx by (auto simp: and_then_Inr ys_def Let_def)
    have "nat idx < length ys" by (simp add: ys_def)
    with "2.IH"(1) [OF JArr idx(1,2) ys_def] c idx show ?thesis by simp
  qed (use "2.prems" in simp_all)
qed simp

lemma patch_path_other_member:
  "patch_path scan (JObj fs) (seg # rest) v = Inr out \<Longrightarrow> k \<noteq> seg \<Longrightarrow> \<exists>gs. out = JObj gs \<and> map_of gs k = map_of fs k"
  by (auto simp: patch_node_def and_then_Inr)

text \<open>What a client of the control API gets with a flow's detail is the flow itself, its headers unmasked,
  whatever the redaction setting and whether or not secrets were to be revealed.\<close>

lemma detail_has_raw_flow:
  "get_flow i (d_mem d) = Some f \<Longrightarrow> \<exists>dt d'. detail_request lib dtxt rtxt vs now i q d = Inr (dt, d') \<and> dt_flow dt = f"
  by (simp add: detail_request_def flow_or_error_def Let_def split_beta)

section \<open>Samples\<close>

definition sample_replay :: replay_options where
  "sample_replay = \<lparr>ro_url = [], ro_method = ''post'', ro_set = [(''x-a'', ''1'')], ro_remove = [''Accept''], ro_body = Some ''hi'',
     ro_patch = [], ro_follow = Some False, ro_timeout_ms = 0\<rparr>"

definition sample_patch_codec :: patch_codec where
  "sample_patch_codec = \<lparr>pc_decode = (\<lambda>_. None), pc_encode = (\<lambda>_. []), pc_number = (\<lambda>_. False), pc_scan = atoi\<rparr>"

lemma replay_is_recorded_witness:
  "\<exists>rr d' sent g' w. replay_of (\<lambda>_ _. None) sample_patch_codec (\<lambda>_. []) sample_replay 3
        (sample_daemon\<lparr>d_mem := fst (upsert (sample_flow 3) (new_mem 2))\<rparr>) = Inr (rr, d')
     \<and> control_headers (sample_request\<lparr>rq_header := rr_header rr\<rparr>) ((sample_flow 9)\<lparr>fl_req_headers := rr_header rr\<rparr>) = (sent, g', w, True)
     \<and> fl_replay_of g' = 3"
proof -
  let ?d = "sample_daemon\<lparr>d_mem := fst (upsert (sample_flow 3) (new_mem 2))\<rparr>"
  have i: "fl_id (sample_flow 3) = 3" "fl_kind (sample_flow 3) = KindHTTP" by (simp_all add: sample_flow_def)
  have g: "get_flow 3 (d_mem ?d) = Some (sample_flow 3)"
    using get_flow_upsert [OF mem_wf_new, of "sample_flow 3" 2] i by simp
  obtain rr d' where r: "replay_of (\<lambda>_ _. None) sample_patch_codec (\<lambda>_. []) sample_replay 3 ?d = Inr (rr, d')"
    using g i by (simp add: replay_of_def flow_or_error_def sample_replay_def Let_def split_beta)
  obtain sent g' w skip where c:
    "control_headers (sample_request\<lparr>rq_header := rr_header rr\<rparr>) ((sample_flow 9)\<lparr>fl_req_headers := rr_header rr\<rparr>) = (sent, g', w, skip)"
    by (metis prod_cases4)
  have "header_get (replay_base_headers sample_replay (sample_flow 3)) no_rules_header = []" by code_simp
  from replay_is_recorded [OF r g i(1) this c] have "fl_replay_of g' = 3" "skip" by (simp_all add: sample_replay_def)
  with r c show ?thesis by auto
qed

end
