(* ===== verification/Daemon_Lifecycle.thy ===== *)
theory Daemon_Lifecycle
  imports Sysproxy_Restore Net Config
begin

text \<open>
  How long the daemon lives and what it leaves of the system proxy (\<open>internal/daemon/lifecycle.go\<close>, \<open>SetSysProxy\<close>
  in \<open>backend.go\<close>, \<open>util.go\<close>, and the options of \<open>daemon.go\<close>): the attached terminal interfaces and the one
  that owns the daemon, turning it off, and the watchdog. Starting a process is an input.
\<close>

section \<open>Options and addresses\<close>

definition apply_overrides :: "int \<Rightarrow> int \<Rightarrow> string \<Rightarrow> config \<Rightarrow> config" where
  "apply_overrides port mcp_port bind c =
     (let p = cf_proxy c;
          p1 = (if 0 < port then p\<lparr>px_port := port\<rparr> else p);
          p2 = (if 0 < mcp_port then p1\<lparr>px_mcp_port := mcp_port\<rparr> else p1);
          p3 = (if bind \<noteq> [] then p2\<lparr>px_bind := bind\<rparr> else p2)
      in c\<lparr>cf_proxy := p3\<rparr>)"

definition net_split :: "string \<Rightarrow> (string \<times> int) option" where
  "net_split addr =
     (case split_host_port addr of
        None \<Rightarrow> None
      | Some (h, p) \<Rightarrow>
          (case atoi p of
             None \<Rightarrow> None
           | Some port \<Rightarrow> Some (if h = [] \<or> h = ''0.0.0.0'' \<or> h = ''::'' then ''127.0.0.1'' else h, port)))"

definition host_port :: "string \<Rightarrow> string \<times> int" where
  "host_port addr = (case net_split addr of None \<Rightarrow> (''127.0.0.1'', 9091) | Some r \<Rightarrow> r)"

section \<open>The system proxy\<close>

datatype sys_proxy_error = NotConfirmed | NotSupported | ProxyFailed sp_error

text \<open>\<open>spawnWatchdog\<close>: once; \<open>spawned\<close> is the new process, if it starts.\<close>

definition spawn_watchdog :: "int option \<Rightarrow> int \<Rightarrow> int" where
  "spawn_watchdog spawned wd = (if wd \<noteq> 0 then wd else case spawned of None \<Rightarrow> wd | Some pid \<Rightarrow> pid)"

definition bypass_domains :: "string list" where
  "bypass_domains = [''localhost'', ''127.0.0.1'', ''*.local'', ''169.254/16'']"

definition set_sys_proxy ::
  "sysproxy_lib \<Rightarrow> int option \<Rightarrow> string \<Rightarrow> bool \<Rightarrow> string \<Rightarrow> machine \<Rightarrow> int \<Rightarrow> sys_proxy_error option \<times> machine \<times> int" where
  "set_sys_proxy lib spawned addr enabled confirm m wd =
     (if confirm \<noteq> ''yes'' then (Some NotConfirmed, m, wd)
      else if \<not> sl_supported lib then (Some NotSupported, m, wd)
      else let (host, port) = host_port addr in
           if enabled
           then (case enable_proxy lib host port bypass_domains m of
                   (Inl e, m1) \<Rightarrow> (Some (ProxyFailed e), m1, wd)
                 | (Inr _, m1) \<Rightarrow> (None, m1, spawn_watchdog spawned wd))
           else (case disable_proxy lib m of
                   (Some e, m1) \<Rightarrow> (Some (ProxyFailed e), m1, wd)
                 | (None, m1) \<Rightarrow> (None, m1, wd)))"

text \<open>\<open>Off\<close> before it cancels, and what \<open>shutdown\<close> does to the system proxy.\<close>

definition off_request :: "sysproxy_lib \<Rightarrow> machine \<Rightarrow> machine" where
  "off_request lib m = (if sl_supported lib then snd (disable_proxy lib m) else m)"

definition shutdown_restore :: "sysproxy_lib \<Rightarrow> config \<Rightarrow> machine \<Rightarrow> machine" where
  "shutdown_restore lib c m = (if cf_restore_on_exit c then snd (disable_proxy lib m) else m)"

text \<open>The pid file is removed only while it still names this process.\<close>

definition pid_file_left :: "string option \<Rightarrow> int \<Rightarrow> string option" where
  "pid_file_left content pid =
     (case content of Some b \<Rightarrow> if trim_space b = itoa pid then None else Some b | None \<Rightarrow> None)"

section \<open>Attached interfaces\<close>

record lifecycle =
  lf_uis :: int
  lf_owner :: int
  lf_next :: int

definition attach :: "bool \<Rightarrow> lifecycle \<Rightarrow> int \<times> lifecycle" where
  "attach own l =
     (let tok = lf_next l + 1
      in (tok, l\<lparr>lf_next := tok, lf_uis := lf_uis l + 1, lf_owner := (if own then tok else lf_owner l)\<rparr>))"

text \<open>The function \<open>Attach\<close> returns, up to the question whether the daemon is to stop.\<close>

definition detach :: "int \<Rightarrow> lifecycle \<Rightarrow> bool \<times> lifecycle" where
  "detach tok l =
     (let owned = (lf_owner l = tok)
      in (owned, l\<lparr>lf_uis := lf_uis l - 1, lf_owner := (if owned then 0 else lf_owner l)\<rparr>))"

definition disown :: "lifecycle \<Rightarrow> lifecycle" where
  "disown l = l\<lparr>lf_owner := 0\<rparr>"

definition life_mode :: "lifecycle \<Rightarrow> string" where
  "life_mode l = (if lf_owner l \<noteq> 0 then ''app'' else ''background'')"

record daemon_run =
  dr_life :: lifecycle
  dr_open :: "int set"
  dr_stopping :: bool
  dr_machine :: machine

definition turn_off :: "sysproxy_lib \<Rightarrow> daemon_run \<Rightarrow> daemon_run" where
  "turn_off lib s = s\<lparr>dr_machine := off_request lib (dr_machine s), dr_stopping := True\<rparr>"

definition leave :: "sysproxy_lib \<Rightarrow> int \<Rightarrow> daemon_run \<Rightarrow> daemon_run" where
  "leave lib tok s =
     (let (owned, l) = detach tok (dr_life s);
          s1 = s\<lparr>dr_life := l, dr_open := dr_open s - {tok}\<rparr>
      in if owned \<and> \<not> dr_stopping s then turn_off lib s1 else s1)"

inductive life_step :: "sysproxy_lib \<Rightarrow> daemon_run \<Rightarrow> daemon_run \<Rightarrow> bool" for lib where
  life_attach: "attach own (dr_life s) = (tok, l) \<Longrightarrow> life_step lib s (s\<lparr>dr_life := l, dr_open := insert tok (dr_open s)\<rparr>)"
| life_leave: "tok \<in> dr_open s \<Longrightarrow> life_step lib s (leave lib tok s)"
| life_disown: "life_step lib s (s\<lparr>dr_life := disown (dr_life s)\<rparr>)"
| life_off: "life_step lib s (turn_off lib s)"

definition started :: "machine \<Rightarrow> daemon_run" where
  "started m = \<lparr>dr_life = \<lparr>lf_uis = 0, lf_owner = 0, lf_next = 0\<rparr>, dr_open = {}, dr_stopping = False, dr_machine = m\<rparr>"

definition life_ok :: "daemon_run \<Rightarrow> bool" where
  "life_ok s =
     (finite (dr_open s) \<and> lf_uis (dr_life s) = int (card (dr_open s)) \<and> 0 \<le> lf_next (dr_life s)
      \<and> dr_open s \<subseteq> {1..lf_next (dr_life s)} \<and> lf_owner (dr_life s) \<in> insert 0 (dr_open s))"

lemma life_step_ok: "life_step lib s t \<Longrightarrow> life_ok s \<Longrightarrow> life_ok t"
proof (induction rule: life_step.induct)
  case (life_attach own s tok l)
  then have tok: "tok = lf_next (dr_life s) + 1"
    and l: "l = (dr_life s)\<lparr>lf_next := tok, lf_uis := lf_uis (dr_life s) + 1, lf_owner := (if own then tok else lf_owner (dr_life s))\<rparr>"
    by (auto simp: attach_def Let_def)
  have "tok \<notin> dr_open s" using life_attach.prems tok by (auto simp: life_ok_def)
  with life_attach.prems tok show ?case unfolding l life_ok_def by (auto simp: card_insert_disjoint)
next
  case (life_leave tok s)
  have "lf_uis (dr_life (leave lib tok s)) = lf_uis (dr_life s) - 1"
    "lf_owner (dr_life (leave lib tok s)) = (if lf_owner (dr_life s) = tok then 0 else lf_owner (dr_life s))"
    "lf_next (dr_life (leave lib tok s)) = lf_next (dr_life s)" "dr_open (leave lib tok s) = dr_open s - {tok}"
    by (simp_all add: leave_def detach_def turn_off_def Let_def)
  moreover have "int (card (dr_open s - {tok})) = int (card (dr_open s)) - 1"
    using life_leave card_Suc_Diff1 [of "dr_open s" tok] by (simp add: life_ok_def)
  ultimately show ?case using life_leave by (auto simp: life_ok_def)
qed (auto simp: life_ok_def disown_def turn_off_def)

lemma started_ok: "life_ok (started m)"
  by (simp add: started_def life_ok_def)


text \<open>An enabling that fails on the way starts no watchdog, though it may have changed settings already.\<close>

lemma failed_enable_unwatched:
  assumes "set_sys_proxy lib spawned addr True ''yes'' m 0 = (Some e, m', wd)"
  shows "wd = 0"
  using assms by (auto simp: set_sys_proxy_def Let_def split: if_splits prod.splits sum.splits)

lemma host_port_samples:
  "host_port ''0.0.0.0:8080'' = (''127.0.0.1'', 8080) \<and> host_port ''[::]:80'' = (''127.0.0.1'', 80)
   \<and> host_port ''10.1.2.3:81'' = (''10.1.2.3'', 81) \<and> host_port ''x'' = (''127.0.0.1'', 9091)"
  by code_simp


end
