(* ===== verification/Authority.thy ===== *)
theory Authority
  imports Net Config
begin

text \<open>
  The certificate authority (\<open>internal/ca/authority.go\<close>): the root that is created, loaded or replaced when it has
  expired, and the leaf certificates it mints for tunnels, cached in memory and on disk. Cryptography is
  idealised: a key is a number, and a certificate is the fields the code sets and reads, with the key that
  signed it. \<open>signs host\<close> says whether x509 can put the host into a certificate. The lock and the single
  flight per host make each lookup one step.
\<close>

section \<open>Certificates\<close>

datatype san = SanIP ip | SanDNS string

record cert =
  ct_subject :: string
  ct_san :: san
  ct_not_before :: gotime
  ct_not_after :: gotime
  ct_signer :: nat
  ct_key :: nat

record root =
  ro_subject :: string
  ro_not_after :: gotime
  ro_key :: nat

definition day :: duration where "day = 24 * hour"

definition default_root_ttl :: duration where "default_root_ttl = 2 * 365 * day"
definition max_root_ttl :: duration where "max_root_ttl = 825 * day"
definition default_leaf_ttl :: duration where "default_leaf_ttl = 30 * day"
definition max_leaf_ttl :: duration where "max_leaf_ttl = 397 * day"
definition renew_warning :: duration where "renew_warning = 30 * day"

text \<open>Certificate times are whole seconds.\<close>

definition whole_seconds :: "gotime \<Rightarrow> gotime" where
  "whole_seconds t = t - t mod second"

record authority =
  au_root :: root
  au_leaf_key :: nat
  au_leaf_ttl :: duration
  au_capacity :: int
  au_disk_cache :: bool
  au_lru :: "(string \<times> cert) list"
  au_disk :: "string \<rightharpoonup> cert"
  au_rotated_from :: string

text \<open>The options' defaults and caps: root lifetime, leaf lifetime, certificates in memory.\<close>

definition ca_options :: "duration \<Rightarrow> duration \<Rightarrow> int \<Rightarrow> duration \<times> duration \<times> int" where
  "ca_options root_ttl leaf_ttl capacity =
     (let r = (if root_ttl = 0 then default_root_ttl else root_ttl);
          l = (if leaf_ttl = 0 then default_leaf_ttl else leaf_ttl)
      in (if max_root_ttl < r then max_root_ttl else r, if max_leaf_ttl < l then max_leaf_ttl else l,
          if capacity = 0 then 4096 else capacity))"

section \<open>The root\<close>

datatype ca_error = CertUnreadable string | KeyUnreadable string | KeyExposed | BadRoot string | CannotCreate string

datatype root_result = RootKept root | RootCreated root | RootReplaced root string

text \<open>\<open>loadOrCreateRoot\<close>: \<open>parse\<close> is \<open>parseRoot\<close>, \<open>private\<close> whether the key file is the owner's only, and \<open>fresh\<close>
  the root \<open>createRoot\<close> makes, or why it cannot.\<close>

definition load_root ::
  "(string \<Rightarrow> string \<Rightarrow> string + root) \<Rightarrow> bool \<Rightarrow> gotime \<Rightarrow> string + root \<Rightarrow> file_read \<Rightarrow> file_read \<Rightarrow> ca_error + root_result" where
  "load_root parse private now fresh cert key =
     (case (cert, key) of
        (Content c, Content k) \<Rightarrow>
          (if \<not> private then Inl KeyExposed
           else case parse c k of
                  Inl e \<Rightarrow> Inl (BadRoot e)
                | Inr r \<Rightarrow>
                    if \<not> now < ro_not_after r
                    then (case fresh of Inl e \<Rightarrow> Inl (CannotCreate e) | Inr f \<Rightarrow> Inr (RootReplaced f (ro_subject r)))
                    else Inr (RootKept r))
      | (Absent, Absent) \<Rightarrow> (case fresh of Inl e \<Rightarrow> Inl (CannotCreate e) | Inr f \<Rightarrow> Inr (RootCreated f))
      | (Unreadable e, _) \<Rightarrow> Inl (CertUnreadable e)
      | (Absent, _) \<Rightarrow> Inl (CertUnreadable ''not exist'')
      | (_, Unreadable e) \<Rightarrow> Inl (KeyUnreadable e)
      | (_, Absent) \<Rightarrow> Inl (KeyUnreadable ''not exist''))"

text \<open>What \<open>createRoot\<close> puts into the root.\<close>

definition new_root :: "gotime \<Rightarrow> duration \<Rightarrow> string \<Rightarrow> nat \<Rightarrow> root" where
  "new_root now ttl subject key = \<lparr>ro_subject = subject, ro_not_after = whole_seconds (now + ttl), ro_key = key\<rparr>"

text \<open>Replacing the root drops every leaf it signed.\<close>

definition authority_of :: "root_result \<Rightarrow> nat \<Rightarrow> duration \<Rightarrow> int \<Rightarrow> bool \<Rightarrow> (string \<rightharpoonup> cert) \<Rightarrow> authority" where
  "authority_of r leaf ttl capacity disk_cache disk =
     (let mk = (\<lambda>root d old. \<lparr>au_root = root, au_leaf_key = leaf, au_leaf_ttl = ttl, au_capacity = capacity,
                 au_disk_cache = disk_cache, au_lru = [], au_disk = d, au_rotated_from = old\<rparr>)
      in case r of RootKept root \<Rightarrow> mk root disk [] | RootCreated root \<Rightarrow> mk root disk []
         | RootReplaced root old \<Rightarrow> mk root (if disk_cache then Map.empty else disk) old)"

definition expiry_days :: "authority \<Rightarrow> gotime \<Rightarrow> int option" where
  "expiry_days a now =
     (let left = time_sub (ro_not_after (au_root a)) now in if renew_warning < left then None else Some (go_div left day))"

section \<open>The caches\<close>

definition cert_fresh :: "authority \<Rightarrow> gotime \<Rightarrow> cert \<Rightarrow> bool" where
  "cert_fresh a now c =
     (let left = time_sub (ct_not_after c) now
      in 5 * day < left \<or> (0 < left \<and> ct_not_after c = ro_not_after (au_root a)))"

definition cache_get :: "gotime \<Rightarrow> string \<Rightarrow> authority \<Rightarrow> cert option \<times> authority" where
  "cache_get now host a =
     (case map_of (au_lru a) host of
        None \<Rightarrow> (None, a)
      | Some c \<Rightarrow>
          if \<not> cert_fresh a now c then (None, a\<lparr>au_lru := map_del host (au_lru a)\<rparr>)
          else (Some c, a\<lparr>au_lru := (host, c) # map_del host (au_lru a)\<rparr>))"

definition cache_put :: "string \<Rightarrow> cert \<Rightarrow> authority \<Rightarrow> authority" where
  "cache_put host c a =
     (if map_of (au_lru a) host \<noteq> None then a\<lparr>au_lru := (host, c) # map_del host (au_lru a)\<rparr>
      else a\<lparr>au_lru := take (nat (au_capacity a)) ((host, c) # au_lru a)\<rparr>)"

definition disk_name :: "string \<Rightarrow> string" where
  "disk_name host = List.map (\<lambda>c. if c \<in> set [CHR ''/'', CHR '':'', CHR 0x5C, CHR ''*''] then CHR ''_'' else c) host @ ''.pem''"

definition disk_get :: "gotime \<Rightarrow> string \<Rightarrow> authority \<Rightarrow> cert option" where
  "disk_get now host a =
     (if \<not> au_disk_cache a then None
      else case au_disk a (disk_name host) of
             None \<Rightarrow> None
           | Some c \<Rightarrow>
               if cert_fresh a now c \<and> ct_signer c = ro_key (au_root a) \<and> ct_key c = au_leaf_key a then Some c else None)"

definition disk_put :: "string \<Rightarrow> cert \<Rightarrow> authority \<Rightarrow> authority" where
  "disk_put host c a =
     (if au_disk_cache a then a\<lparr>au_disk := (au_disk a)(disk_name host \<mapsto> c)\<rparr> else a)"

section \<open>Minting\<close>

definition san_of :: "string \<Rightarrow> san" where
  "san_of host = (case parse_ip host of Some i \<Rightarrow> SanIP i | None \<Rightarrow> SanDNS host)"

definition issue :: "(string \<Rightarrow> bool) \<Rightarrow> gotime \<Rightarrow> string \<Rightarrow> authority \<Rightarrow> cert option" where
  "issue signs now host a =
     (let na = now + au_leaf_ttl a;
          not_after = (if ro_not_after (au_root a) < na then ro_not_after (au_root a) else na)
      in if \<not> signs host then None
         else Some \<lparr>ct_subject = host, ct_san = san_of host, ct_not_before = whole_seconds (now - day),
                    ct_not_after = whole_seconds not_after, ct_signer = ro_key (au_root a), ct_key = au_leaf_key a\<rparr>)"

definition cert_host :: "string \<Rightarrow> string" where
  "cert_host host = to_lower (trim_suffix host ''.'')"

definition cert_for :: "(string \<Rightarrow> bool) \<Rightarrow> gotime \<Rightarrow> string \<Rightarrow> authority \<Rightarrow> cert option \<times> authority" where
  "cert_for signs now host0 a =
     (let host = cert_host host0 in
      case cache_get now host a of
        (Some c, a1) \<Rightarrow> (Some c, a1)
      | (None, a1) \<Rightarrow>
          (case cache_get now host a1 of
             (Some c, a2) \<Rightarrow> (Some c, a2)
           | (None, a2) \<Rightarrow>
               (case disk_get now host a2 of
                  Some c \<Rightarrow> (Some c, cache_put host c a2)
                | None \<Rightarrow>
                    (case issue signs now host a2 of
                       None \<Rightarrow> (None, a2)
                     | Some c \<Rightarrow> (Some c, cache_put host c (disk_put host c a2))))))"

text \<open>\<open>GetCertificate\<close>: the target of the CONNECT wins over a server name that differs, unless it is an address.\<close>

definition hello_host :: "string \<Rightarrow> string \<Rightarrow> string" where
  "hello_host sni target =
     (if target = [] then sni
      else let th = (case split_host_port target of Some (h, _) \<Rightarrow> h | None \<Rightarrow> target)
           in if sni = [] \<or> (\<not> equal_fold sni th \<and> parse_ip th = None) then th else sni)"

definition get_certificate ::
  "(string \<Rightarrow> bool) \<Rightarrow> gotime \<Rightarrow> string \<Rightarrow> string \<Rightarrow> authority \<Rightarrow> (string + cert option) \<times> authority" where
  "get_certificate signs now sni target a =
     (let host = hello_host sni target in
      if host = [] then (Inl ''no server name and no CONNECT target'', a)
      else let (c, a1) = cert_for signs now host a in (Inr c, a1))"

section \<open>What is served\<close>

text \<open>A certificate for a host under the authority's root and leaf key, not outliving the root.\<close>

definition cert_good :: "authority \<Rightarrow> string \<Rightarrow> cert \<Rightarrow> bool" where
  "cert_good a host c =
     (ct_san c = san_of host \<and> ct_subject c = host \<and> ct_signer c = ro_key (au_root a) \<and> ct_key c = au_leaf_key a
      \<and> ct_not_after c \<le> ro_not_after (au_root a))"

definition disk_good :: "string set \<Rightarrow> authority \<Rightarrow> bool" where
  "disk_good H a =
     (\<forall>h \<in> H. case au_disk a (disk_name h) of None \<Rightarrow> True
            | Some c \<Rightarrow> ct_signer c = ro_key (au_root a) \<and> ct_key c = au_leaf_key a \<longrightarrow> cert_good a h c)"

definition authority_ok :: "string set \<Rightarrow> authority \<Rightarrow> bool" where
  "authority_ok H a =
     (keys_distinct (au_lru a) \<and> list_all (\<lambda>(h, c). cert_good a h c) (au_lru a) \<and> disk_good H a
      \<and> int (length (au_lru a)) \<le> max 0 (au_capacity a))"

definition same_keys :: "authority \<Rightarrow> authority \<Rightarrow> bool" where
  "same_keys a b =
     (au_root b = au_root a \<and> au_leaf_key b = au_leaf_key a \<and> au_leaf_ttl b = au_leaf_ttl a \<and> au_capacity b = au_capacity a)"

lemma same_keys_refl [simp]: "same_keys a a"
  by (simp add: same_keys_def)

lemma same_keys_trans: "same_keys a b \<Longrightarrow> same_keys b c \<Longrightarrow> same_keys a c"
  by (simp add: same_keys_def)

lemma same_keys_good: "same_keys a b \<Longrightarrow> cert_good b = cert_good a \<and> cert_fresh b = cert_fresh a"
  by (auto simp: same_keys_def cert_good_def cert_fresh_def fun_eq_iff)

lemma disk_good_frame: "same_keys a b \<Longrightarrow> au_disk b = au_disk a \<Longrightarrow> disk_good H b = disk_good H a"
  using same_keys_good [of a b] by (simp add: disk_good_def same_keys_def cong: option.case_cong)

lemma cache_get_ok:
  assumes "authority_ok H a" "cache_get now host a = (r, b)"
  shows "authority_ok H b" "same_keys a b" "au_disk b = au_disk a"
    and "case r of None \<Rightarrow> map_of (au_lru b) host = None | Some c \<Rightarrow> cert_good a host c \<and> cert_fresh a now c"
proof -
  have sub: "set (map_del host (au_lru a)) \<subseteq> set (au_lru a)" by (auto simp: map_del_def)
  have keys: "keys_distinct (map_del host (au_lru a))" using assms(1) by (auto simp: authority_ok_def)
  have all: "list_all (\<lambda>(h, c). cert_good a h c) (map_del host (au_lru a))"
    using assms(1) sub by (auto simp: authority_ok_def list_all_iff)
  have b: "b = a\<lparr>au_lru := au_lru b\<rparr>" using assms(2) by (auto simp: cache_get_def split: option.splits if_splits)
  then show keys': "same_keys a b" and disk: "au_disk b = au_disk a" by (metis (no_types, lifting) authority.select_convs authority.update_convs(6) authority.surjective same_keys_def)+
  have g: "cert_good b = cert_good a" using same_keys_good [OF keys'] by simp
  have dg: "disk_good H b" using assms(1) disk_good_frame [OF keys' disk] by (simp add: authority_ok_def)
  have cap: "au_capacity b = au_capacity a" using keys' by (simp add: same_keys_def)
  have len: "int (length (map_del host (au_lru a))) \<le> max 0 (au_capacity a)"
    using assms(1) length_filter_le [of _ "au_lru a"] unfolding authority_ok_def map_del_def by (meson le_trans of_nat_mono order.trans)
  have "keys_distinct (au_lru b) \<and> list_all (\<lambda>(h, c). cert_good a h c) (au_lru b) \<and> int (length (au_lru b)) \<le> max 0 (au_capacity a)"
  proof (cases "map_of (au_lru a) host")
    case None
    then have "b = a" using assms(2) by (simp add: cache_get_def)
    then show ?thesis using assms(1) by (simp add: authority_ok_def)
  next
    case (Some c)
    then have good: "cert_good a host c" and mem: "host \<in> fst ` set (au_lru a)"
      using assms(1) by (force simp: authority_ok_def list_all_iff dest: map_of_SomeD)+
    show ?thesis
    proof (cases "cert_fresh a now c")
      case True
      then have "au_lru b = (host, c) # map_del host (au_lru a)" using assms(2) Some by (auto simp: cache_get_def)
      moreover have "length ((host, c) # map_del host (au_lru a)) = length (au_lru a)"
        using mem assms(1) by (cases "au_lru a") (simp_all add: authority_ok_def length_map_del)
      moreover have "host \<notin> fst ` set (map_del host (au_lru a))" by simp
      ultimately show ?thesis using keys all good assms(1) by (simp add: authority_ok_def)
    next
      case False
      then have "au_lru b = map_del host (au_lru a)" using assms(2) Some by (auto simp: cache_get_def)
      then show ?thesis using keys all len by simp
    qed
  qed
  then show "authority_ok H b" using dg g cap by (simp add: authority_ok_def)
  show "case r of None \<Rightarrow> map_of (au_lru b) host = None | Some c \<Rightarrow> cert_good a host c \<and> cert_fresh a now c"
    using assms by (auto simp: authority_ok_def cache_get_def list_all_iff split: option.splits if_splits dest: map_of_SomeD)
qed

lemma cache_put_ok:
  assumes "authority_ok H a" "map_of (au_lru a) host = None" "cert_good a host c"
  shows "authority_ok H (cache_put host c a)" "same_keys a (cache_put host c a)"
proof -
  let ?b = "cache_put host c a"
  have b: "?b = a\<lparr>au_lru := take (nat (au_capacity a)) ((host, c) # au_lru a)\<rparr>" using assms(2) by (simp add: cache_put_def)
  then show keys: "same_keys a ?b" by (simp add: same_keys_def)
  have "keys_distinct ((host, c) # au_lru a)" using assms(1,2) by (simp add: authority_ok_def map_of_eq_None_iff)
  then have "keys_distinct (take (nat (au_capacity a)) ((host, c) # au_lru a))" by (metis distinct_take take_map)
  moreover have "list_all (\<lambda>(h, c). cert_good a h c) (take (nat (au_capacity a)) ((host, c) # au_lru a))"
    using assms(1,3) by (auto simp: authority_ok_def list_all_iff dest!: in_set_takeD)
  moreover have "int (length (take (nat (au_capacity a)) ((host, c) # au_lru a))) \<le> max 0 (au_capacity a)" by simp
  ultimately show "authority_ok H ?b"
    using assms(1) disk_good_frame [OF keys] same_keys_good [OF keys] by (simp add: authority_ok_def b)
qed

lemma issue_good:
  assumes "issue signs now host a = Some c" "5 * day + second \<le> au_leaf_ttl a" "now < ro_not_after (au_root a)"
    and "ro_not_after (au_root a) mod second = 0"
  shows "cert_good a host c" "cert_fresh a now c"
proof -
  let ?na = "now + au_leaf_ttl a" and ?ra = "ro_not_after (au_root a)"
  have c: "ct_not_after c = whole_seconds (if ?ra < ?na then ?ra else ?na)"
    using assms(1) by (auto simp: issue_def Let_def split: if_splits)
  have le: "whole_seconds t \<le> t" "t < whole_seconds t + second" for t
    using pos_mod_bound [of 1000000000 t] pos_mod_sign [of 1000000000 t] by (simp_all add: whole_seconds_def second_def)
  have ra: "whole_seconds ?ra = ?ra" using assms(4) by (simp add: whole_seconds_def)
  show "cert_good a host c"
    using assms(1) le(1) [of ?na] ra by (auto simp: cert_good_def issue_def Let_def split: if_splits)
  show "cert_fresh a now c"
  proof (cases "?ra < ?na")
    case True
    then have "ct_not_after c = ?ra" using c ra by simp
    with assms(3) show ?thesis by (simp add: cert_fresh_def time_sub_def int_min_def int_max_def)
  next
    case False
    then have "5 * day < ct_not_after c - now" using c le(2) [of ?na] assms(2) by simp
    moreover have "5 * day < int_max" by (simp add: day_def hour_def minute_def second_def int_max_def)
    ultimately show ?thesis by (simp add: cert_fresh_def time_sub_def Let_def less_max_iff_disj)
  qed
qed

lemma disk_put_ok:
  assumes "authority_ok H a" "inj_on disk_name H" "host \<in> H" "cert_good a host c"
  shows "authority_ok H (disk_put host c a)" "same_keys a (disk_put host c a)" "au_lru (disk_put host c a) = au_lru a"
proof -
  show keys: "same_keys a (disk_put host c a)" and lru: "au_lru (disk_put host c a) = au_lru a"
    by (simp_all add: disk_put_def same_keys_def)
  have "h = host" if "h \<in> H" "disk_name h = disk_name host" for h using assms(2,3) that by (auto dest: inj_onD)
  note one = this
  have "disk_good H (disk_put host c a)"
    unfolding disk_good_def
  proof
    fix h assume h: "h \<in> H"
    have old: "case au_disk a (disk_name h) of None \<Rightarrow> True
        | Some c \<Rightarrow> ct_signer c = ro_key (au_root a) \<and> ct_key c = au_leaf_key a \<longrightarrow> cert_good a h c"
      using assms(1) h by (simp add: authority_ok_def disk_good_def)
    show "case au_disk (disk_put host c a) (disk_name h) of None \<Rightarrow> True
        | Some ca \<Rightarrow> ct_signer ca = ro_key (au_root (disk_put host c a)) \<and> ct_key ca = au_leaf_key (disk_put host c a)
            \<longrightarrow> cert_good (disk_put host c a) h ca"
    proof (cases "au_disk_cache a \<and> disk_name h = disk_name host")
      case True
      then have "h = host" using one h by simp
      with True assms(4) same_keys_good [OF keys] show ?thesis by (simp add: disk_put_def)
    next
      case False
      then have "au_disk (disk_put host c a) (disk_name h) = au_disk a (disk_name h)" by (auto simp: disk_put_def)
      with old same_keys_good [OF keys] keys show ?thesis by (simp add: same_keys_def split: option.splits)
    qed
  qed
  then show "authority_ok H (disk_put host c a)"
    using assms(1) keys same_keys_good [OF keys] by (simp add: authority_ok_def lru same_keys_def)
qed

lemma cert_for_ok:
  assumes "authority_ok H a" "inj_on disk_name H" "cert_host host0 \<in> H" "cert_for signs now host0 a = (r, b)"
    and "5 * day + second \<le> au_leaf_ttl a" "now < ro_not_after (au_root a)" "ro_not_after (au_root a) mod second = 0"
  shows "authority_ok H b \<and> same_keys a b
    \<and> (case r of None \<Rightarrow> \<not> signs (cert_host host0)
       | Some c \<Rightarrow> cert_good a (cert_host host0) c \<and> cert_fresh a now c)"
proof -
  let ?h = "cert_host host0"
  obtain r1 a1 where g1: "cache_get now ?h a = (r1, a1)" by fastforce
  obtain r2 a2 where g2: "cache_get now ?h a1 = (r2, a2)" by fastforce
  note o1 = cache_get_ok [OF assms(1) g1] and o2 = cache_get_ok [OF cache_get_ok(1) [OF assms(1) g1] g2]
  have k: "same_keys a a2" using o1(2) o2(2) by (rule same_keys_trans)
  note same = same_keys_good [OF k] same_keys_good [OF o1(2)]
  show ?thesis
  proof (cases "r1 = None \<and> r2 = None")
    case False
    then show ?thesis
      using assms(4) g1 g2 o1 o2 k same by (auto simp: cert_for_def Let_def split: option.splits prod.splits)
  next
    case True
    then have none: "map_of (au_lru a2) ?h = None" using o2(4) by simp
    show ?thesis
    proof (cases "disk_get now ?h a2")
      case (Some c)
      then have "cert_good a2 ?h c" "cert_fresh a2 now c"
        using o2(1) assms(3) by (auto simp: disk_get_def authority_ok_def disk_good_def split: option.splits if_splits)
      moreover have "r = Some c" "b = cache_put ?h c a2"
        using True Some assms(4) g1 g2 by (simp_all add: cert_for_def Let_def)
      ultimately show ?thesis
        using cache_put_ok [OF o2(1) none] k same same_keys_trans [OF k] by simp
    next
      case None
      have iss: "issue signs now ?h a2 = Some c \<Longrightarrow> cert_good a2 ?h c \<and> cert_fresh a2 now c" for c
        using issue_good [of signs now ?h a2 c] assms(5-7) k by (simp add: same_keys_def)
      show ?thesis
      proof (cases "issue signs now ?h a2")
        case None
        then show ?thesis
          using \<open>disk_get now ?h a2 = None\<close> True assms(4) g1 g2 k o2(1)
          by (auto simp: cert_for_def Let_def issue_def split: if_splits)
      next
        case (Some c)
        note d = disk_put_ok [OF o2(1) assms(2,3) iss [OF Some, THEN conjunct1]]
        have "cert_good (disk_put ?h c a2) ?h c" using iss [OF Some] same_keys_good [OF d(2)] by simp
        moreover have "r = Some c" "b = cache_put ?h c (disk_put ?h c a2)"
          using True Some None assms(4) g1 g2 by (simp_all add: cert_for_def Let_def)
        moreover have "map_of (au_lru (disk_put ?h c a2)) ?h = None" using none d(3) by simp
        ultimately show ?thesis
          using cache_put_ok [OF d(1)] iss [OF Some] same same_keys_trans [OF k same_keys_trans [OF d(2)]] by simp
      qed
    qed
  qed
qed

fun serve_all :: "(string \<Rightarrow> bool) \<Rightarrow> (gotime \<times> string) list \<Rightarrow> authority \<Rightarrow> cert option list \<times> authority" where
  "serve_all signs [] a = ([], a)"
| "serve_all signs ((now, host) # rs) a =
     (let (c, a1) = cert_for signs now host a; (cs, a2) = serve_all signs rs a1 in (c # cs, a2))"

definition served_ok :: "(string \<Rightarrow> bool) \<Rightarrow> authority \<Rightarrow> gotime \<times> string \<Rightarrow> cert option \<Rightarrow> bool" where
  "served_ok signs a rq r =
     (let (now, host0) = rq; host = cert_host host0 in
      case r of None \<Rightarrow> \<not> signs host | Some c \<Rightarrow> cert_good a host c \<and> cert_fresh a now c)"

lemma served_ok_same: "same_keys a b \<Longrightarrow> served_ok signs b = served_ok signs a"
proof -
  assume "same_keys a b"
  from same_keys_good [OF this] have g: "cert_good b = cert_good a" and f: "cert_fresh b = cert_fresh a" by auto
  show ?thesis unfolding served_ok_def g f ..
qed

text \<open>C36: however certificates come from memory, the disk or the root's key, and whatever the order of the
  requests, each is answered with a certificate for exactly the host asked for, signed by the root in use
  over the leaf key in use, fresh at that moment and not outliving the root, unless x509 refuses the name;
  provided no two of the hosts share a file name.\<close>

theorem certificates_match:
  assumes "authority_ok H a" "inj_on disk_name H" "list_all (\<lambda>(now, h). cert_host h \<in> H \<and> now < ro_not_after (au_root a)) reqs"
    and "5 * day + second \<le> au_leaf_ttl a" "ro_not_after (au_root a) mod second = 0"
  shows "list_all2 (served_ok signs a) reqs (fst (serve_all signs reqs a))"
  using assms
proof (induction reqs arbitrary: a)
  case (Cons rq reqs)
  obtain now h where rq: "rq = (now, h)" by fastforce
  obtain r b where c: "cert_for signs now h a = (r, b)" by fastforce
  have k: "authority_ok H b \<and> same_keys a b
    \<and> (case r of None \<Rightarrow> \<not> signs (cert_host h) | Some c \<Rightarrow> cert_good a (cert_host h) c \<and> cert_fresh a now c)"
    by (rule cert_for_ok [OF Cons.prems(1,2) _ c Cons.prems(4) _ Cons.prems(5)]) (use Cons.prems(3) rq in simp_all)
  then have eq: "au_root b = au_root a" "au_leaf_ttl b = au_leaf_ttl a" by (simp_all add: same_keys_def)
  have "list_all2 (served_ok signs b) reqs (fst (serve_all signs reqs b))"
    using k Cons.prems by (intro Cons.IH) (simp_all add: eq)
  moreover have "served_ok signs a rq r" using k by (simp add: served_ok_def rq)
  ultimately show ?case using k served_ok_same [of a b signs] by (simp add: rq c split_beta)
qed simp

text \<open>A root that is loaded or made can still sign.\<close>

lemma load_root_valid:
  assumes "load_root parse private now (Inr (new_root now ttl subject key)) cert keyf = Inr res" "second \<le> ttl"
  shows "case res of RootKept r \<Rightarrow> now < ro_not_after r \<and> private
    | RootCreated r \<Rightarrow> now < ro_not_after r | RootReplaced r old \<Rightarrow> now < ro_not_after r"
proof -
  have "now < ro_not_after (new_root now ttl subject key)"
    using assms(2) pos_mod_bound [of 1000000000 "now + ttl"] by (simp add: new_root_def whole_seconds_def second_def)
  with assms(1) show ?thesis by (auto simp: load_root_def split: file_read.splits if_splits sum.splits)
qed

text \<open>The root is only looked at when it is loaded: a daemon that runs past its end goes on minting, and every
  certificate is then expired from the start.\<close>

lemma minted_after_expiry:
  assumes "ro_not_after (au_root a) \<le> now" "0 \<le> au_leaf_ttl a" "issue signs now host a = Some c"
  shows "ct_not_after c \<le> now"
proof -
  have le: "whole_seconds t \<le> t" for t using pos_mod_sign [of 1000000000 t] by (simp add: whole_seconds_def second_def)
  have "ct_not_after c \<le> ro_not_after (au_root a)"
    using assms le [of "ro_not_after (au_root a)"] le [of "now + au_leaf_ttl a"]
    by (auto simp: issue_def Let_def not_less split: if_splits)
  with assms(1) show ?thesis by simp
qed

section \<open>Samples\<close>

definition sample_authority :: authority where
  "sample_authority = authority_of (RootCreated (new_root 0 default_root_ttl ''r'' 7)) 8 default_leaf_ttl 4096 True Map.empty"

text \<open>Names that differ in characters a file name cannot have share a file, and the certificate of the first is
  served for the second.\<close>

lemma shared_disk_name:
  "disk_name ''a:b'' = disk_name ''a_b''
   \<and> map_option ct_san (fst (cert_for (\<lambda>_. True) 9 ''a_b'' (snd (cert_for (\<lambda>_. True) 5 ''a:b'' sample_authority))))
       = Some (SanDNS ''a:b'')"
  by code_simp

lemma certificates_match_witness:
  "\<exists>c d. fst (serve_all (\<lambda>_. True) [(5, ''Example.com.''), (6, ''10.0.0.1''), (7, ''example.com'')] sample_authority) = [Some c, Some d, Some c]
     \<and> ct_san c = SanDNS ''example.com'' \<and> ct_not_after c \<le> ro_not_after (au_root sample_authority)"
proof -
  let ?reqs = "[(5, ''Example.com.''), (6, ''10.0.0.1''), (7, ''example.com'')]"
  let ?H = "{''example.com'', ''10.0.0.1''}"
  have "authority_ok ?H sample_authority"
    by (simp add: authority_ok_def sample_authority_def authority_of_def Let_def disk_good_def)
  moreover have "disk_name ''example.com'' \<noteq> disk_name ''10.0.0.1''" by code_simp
  then have "inj_on disk_name ?H" by simp
  moreover have "cert_host ''Example.com.'' = ''example.com''" "cert_host ''10.0.0.1'' = ''10.0.0.1''" "cert_host ''example.com'' = ''example.com''"
    "7 < ro_not_after (au_root sample_authority)" by code_simp+
  then have "list_all (\<lambda>(now, h). cert_host h \<in> ?H \<and> now < ro_not_after (au_root sample_authority)) ?reqs" by simp
  moreover have "5 * day + second \<le> au_leaf_ttl sample_authority" "ro_not_after (au_root sample_authority) mod second = 0" by code_simp+
  ultimately have "list_all2 (served_ok (\<lambda>_. True) sample_authority) ?reqs (fst (serve_all (\<lambda>_. True) ?reqs sample_authority))"
    by (rule certificates_match)
  moreover have "List.map (map_option ct_san) (fst (serve_all (\<lambda>_. True) ?reqs sample_authority))
      = [Some (SanDNS ''example.com''), Some (san_of ''10.0.0.1''), Some (SanDNS ''example.com'')]"
    "hd (fst (serve_all (\<lambda>_. True) ?reqs sample_authority)) = fst (serve_all (\<lambda>_. True) ?reqs sample_authority) ! 2" by code_simp+
  ultimately show ?thesis by (auto simp: list_all2_Cons1 served_ok_def cert_good_def split: option.splits)
qed

end
