(* ===== verification/Control_Query.thy ===== *)
theory Control_Query
  imports Daemon_Requests Store_Filter View_Form
begin

text \<open>
  The query strings of the control API: what the client writes (\<open>internal/client/client.go\<close>) and what the
  server reads back (\<open>internal/control/server.go\<close>), for listing, showing and comparing flows. The
  values travel as \<open>url.Values\<close>, encoded and parsed as the standard library does it.
\<close>

section \<open>url.Values\<close>

type_synonym url_values = "(string \<times> string list) list"

definition values_set :: "string \<Rightarrow> string \<Rightarrow> url_values \<Rightarrow> url_values" where
  "values_set k v q = filter (\<lambda>(j, _). j \<noteq> k) q @ [(k, [v])]"

definition values_get :: "url_values \<Rightarrow> string \<Rightarrow> string" where
  "values_get q k = (case map_of q k of Some (v # _) \<Rightarrow> v | _ \<Rightarrow> [])"

definition flat_values :: "url_values \<Rightarrow> (string \<times> string) list" where
  "flat_values q = concat (List.map (\<lambda>(k, vs). List.map (Pair k) vs) q)"

text \<open>\<open>Encode\<close> writes the keys in order; \<open>ParseQuery\<close> skips the pieces it cannot read.\<close>

definition encode_values :: "url_values \<Rightarrow> string" where
  "encode_values q =
     str_join ''&'' (List.map (\<lambda>(k, v). query_escape k @ ''='' @ query_escape v) (flat_values (sort_key fst q)))"

definition query_piece :: "string \<Rightarrow> (string \<times> string) option" where
  "query_piece kv =
     (if CHR '';'' \<in> set kv \<or> kv = [] then None
      else let (k, v, _) = str_cut (CHR ''='') kv
           in case (query_unescape k, query_unescape v) of (Some k', Some v') \<Rightarrow> Some (k', v') | _ \<Rightarrow> None)"

definition parse_query :: "string \<Rightarrow> (string \<times> string) list" where
  "parse_query s = List.map_filter query_piece (str_split (CHR ''&'') s)"

definition query_get :: "(string \<times> string) list \<Rightarrow> string \<Rightarrow> string" where
  "query_get q k = (case map_of q k of None \<Rightarrow> [] | Some v \<Rightarrow> v)"

section \<open>Reading parameters\<close>

definition q_int :: "(string \<times> string) list \<Rightarrow> string \<Rightarrow> int \<Rightarrow> int" where
  "q_int q k dflt =
     (let v = query_get q k in if v \<noteq> [] then (case atoi v of Some n \<Rightarrow> n | None \<Rightarrow> dflt) else dflt)"

definition q_bool :: "(string \<times> string) list \<Rightarrow> string \<Rightarrow> bool" where
  "q_bool q k = (let v = to_lower (query_get q k) in v = ''1'' \<or> v = ''true'' \<or> v = ''yes'')"

text \<open>\<open>ParseInt\<close> whose error is ignored: 0 for no number, the nearest bound for one out of range.\<close>

definition parse_int_ignored :: "string \<Rightarrow> int" where
  "parse_int_ignored s =
     (let (neg, ds) = (case s of
          c # t \<Rightarrow> if c = CHR ''-'' then (True, t) else if c = CHR ''+'' then (False, t) else (False, s)
        | [] \<Rightarrow> (False, []))
      in case parse_digits ds of
           None \<Rightarrow> 0
         | Some n \<Rightarrow> max int_min (min int_max (if neg then - int n else int n)))"

definition comma_list :: "string \<Rightarrow> string list" where
  "comma_list v = (if v \<noteq> [] then str_split (CHR '','') v else [])"

section \<open>Listing flows\<close>

definition set_some :: "string \<Rightarrow> string \<Rightarrow> url_values \<Rightarrow> url_values" where
  "set_some k v q = (if v \<noteq> [] then values_set k v q else q)"

definition set_when :: "bool \<Rightarrow> string \<Rightarrow> string \<Rightarrow> url_values \<Rightarrow> url_values" where
  "set_when b k v q = (if b then values_set k v q else q)"

definition filter_query :: "flow_filter \<Rightarrow> url_values" where
  "filter_query f =
     (let q = fold (\<lambda>(k, v). set_some k v)
          [(''q'', ff_q f), (''host'', ff_host f), (''path'', ff_path f), (''status'', ff_status f),
           (''since'', ff_since f), (''until'', ff_until f), (''content_type'', ff_content_type f),
           (''tag'', ff_tag f), (''rule'', ff_rule f), (''state'', ff_state f), (''kind'', ff_kind f),
           (''session'', ff_session f), (''cursor'', ff_cursor f)] [];
          q = set_when (ff_method f \<noteq> []) ''method'' (str_join '','' (ff_method f)) q;
          q = set_when (ff_fields f \<noteq> []) ''fields'' (str_join '','' (ff_fields f)) q;
          q = set_when (0 < ff_min_bytes f) ''min_bytes'' (itoa (ff_min_bytes f)) q;
          q = set_when (ff_has_error f) ''has_error'' ''1'' q
      in set_when (0 < ff_limit f) ''limit'' (itoa (ff_limit f)) q)"

definition filter_from_query :: "(string \<times> string) list \<Rightarrow> flow_filter" where
  "filter_from_query q =
     \<lparr>ff_q = query_get q ''q'', ff_host = query_get q ''host'', ff_path = query_get q ''path'',
      ff_method = comma_list (query_get q ''method''), ff_status = query_get q ''status'',
      ff_since = query_get q ''since'', ff_until = query_get q ''until'',
      ff_content_type = query_get q ''content_type'',
      ff_min_bytes = (let v = query_get q ''min_bytes'' in if v \<noteq> [] then parse_int_ignored v else 0),
      ff_has_error = q_bool q ''has_error'', ff_tag = query_get q ''tag'', ff_rule = query_get q ''rule'',
      ff_state = query_get q ''state'', ff_kind = query_get q ''kind'', ff_session = query_get q ''session'',
      ff_client = query_get q ''client'', ff_limit = q_int q ''limit'' 0, ff_cursor = query_get q ''cursor'',
      ff_fields = comma_list (query_get q ''fields'')\<rparr>"

section \<open>Showing and comparing flows\<close>

definition detail_values :: "detail_query \<Rightarrow> url_values" where
  "detail_values fq =
     (let q = set_some ''path'' (dq_path fq) (set_some ''view'' (dq_view fq) (set_some ''part'' (dq_part fq) []));
          q = set_when (0 < dq_max_bytes fq) ''max_bytes'' (itoa (dq_max_bytes fq)) q;
          q = (case dq_headers fq of None \<Rightarrow> q
               | Some b \<Rightarrow> values_set ''headers'' (if b then ''true'' else ''false'') q)
      in set_when (dq_reveal fq) ''reveal'' ''1'' q)"

definition detail_from_query :: "(string \<times> string) list \<Rightarrow> detail_query" where
  "detail_from_query q =
     \<lparr>dq_part = query_get q ''part'', dq_view = query_get q ''view'', dq_path = query_get q ''path'',
      dq_max_bytes = q_int q ''max_bytes'' 0,
      dq_headers = (let v = query_get q ''headers'' in if v \<noteq> [] then Some (v = ''1'' \<or> v = ''true'') else None),
      dq_reveal = q_bool q ''reveal''\<rparr>"

definition diff_values :: "flow_id \<Rightarrow> flow_id \<Rightarrow> diff_request \<Rightarrow> url_values" where
  "diff_values a b req =
     (let q = [(''a'', [short a]), (''b'', [short b])];
          q = set_some ''path'' (df_path req) (set_some ''part'' (df_part req) q);
          q = set_when (0 < df_max req) ''max_changes'' (itoa (df_max req)) q
      in case df_ignore req of
           None \<Rightarrow> q
         | Some hs \<Rightarrow> set_when (hs \<noteq> []) ''ignore_headers'' (str_join '','' hs) q)"

definition diff_from_query :: "(string \<times> string) list \<Rightarrow> (flow_id \<times> flow_id \<times> diff_request) option" where
  "diff_from_query q =
     (case (parse_short (query_get q ''a''), parse_short (query_get q ''b'')) of
        (Some a, Some b) \<Rightarrow>
          Some (a, b, \<lparr>df_part = query_get q ''part'', df_path = query_get q ''path'',
                       df_ignore = (let v = query_get q ''ignore_headers''
                                    in if v \<noteq> [] then Some (str_split (CHR '','') v) else None),
                       df_max = q_int q ''max_changes'' 0\<rparr>)
      | _ \<Rightarrow> None)"

record explain_request =
  xr_include :: "string list"
  xr_max_chars :: int
  xr_provider :: string

definition explain_values :: "explain_request \<Rightarrow> url_values" where
  "explain_values req =
     (let q = set_when (xr_include req \<noteq> []) ''include'' (str_join '','' (xr_include req)) [];
          q = set_when (0 < xr_max_chars req) ''max_chars'' (itoa (xr_max_chars req)) q
      in set_some ''provider'' (xr_provider req) q)"

definition explain_from_query :: "(string \<times> string) list \<Rightarrow> explain_request" where
  "explain_from_query q =
     \<lparr>xr_include = comma_list (query_get q ''include''), xr_max_chars = q_int q ''max_chars'' 0,
      xr_provider = query_get q ''provider''\<rparr>"

section \<open>What is written is what is read\<close>

lemma escape_no_semicolon: "CHR '';'' \<notin> set (query_escape s)"
proof
  assume "CHR '';'' \<in> set (query_escape s)"
  then obtain c where c: "CHR '';'' \<in> set (escape_byte c)" by (auto simp: query_escape_def)
  have "octet c div 16 < 16" "octet c mod 16 < 16" using byte_lt [of c] by simp_all
  with c have "plain_byte (CHR '';'')"
    using hex_digit_plain by (auto simp: escape_byte_def split: if_splits)
  then show False by code_simp
qed

lemma query_piece_pair: "query_piece (query_escape k @ ''='' @ query_escape v) = Some (k, v)"
  using str_cut_at [OF query_escape_safe(2), of k "query_escape v"]
  by (simp add: query_piece_def escape_no_semicolon query_unescape_escape)

lemma parse_query_pairs:
  "parse_query (str_join ''&'' (List.map (\<lambda>(k, v). query_escape k @ ''='' @ query_escape v) ps)) = ps"
proof (cases "ps = []")
  case True
  then show ?thesis by (simp add: parse_query_def query_piece_def map_filter_def)
next
  case False
  let ?ws = "List.map (\<lambda>(k, v). query_escape k @ ''='' @ query_escape v) ps"
  have "str_split (CHR ''&'') (str_join ''&'' ?ws) = ?ws"
    using False by (intro str_split_join) (auto simp: query_escape_safe)
  moreover have "List.map_filter query_piece (List.map (\<lambda>(k, v). query_escape k @ ''='' @ query_escape v) ps') = ps'"
    for ps' using query_piece_pair by (induction ps') (auto simp: map_filter_def)
  ultimately show ?thesis by (simp add: parse_query_def)
qed

lemma map_of_pairs: "map_of (List.map (Pair k) vs @ ps) j = (if j = k \<and> vs \<noteq> [] then Some (hd vs) else map_of ps j)"
  by (induction vs) auto

lemma query_get_Cons:
  "query_get (flat_values ((j, vs) # q)) k = (if k = j \<and> vs \<noteq> [] then hd vs else query_get (flat_values q) k)"
  by (simp add: query_get_def flat_values_def map_of_pairs del: map_of_append)

lemma values_get_Cons:
  "values_get ((j, vs) # q) k = (if k = j then (case vs of [] \<Rightarrow> [] | v # _ \<Rightarrow> v) else values_get q k)"
  by (simp add: values_get_def)

lemma query_get_flat: "distinct (List.map fst q) \<Longrightarrow> query_get (flat_values q) k = values_get q k"
proof (induction q)
  case Nil
  then show ?case by (simp add: query_get_def values_get_def flat_values_def)
next
  case (Cons p q)
  obtain j vs where p: "p = (j, vs)" by force
  have "map_of q j = None" using Cons.prems p by (simp add: map_of_eq_None_iff)
  then have "values_get q j = []" by (simp add: values_get_def)
  with Cons p show ?case by (cases vs) (simp_all add: query_get_Cons values_get_Cons)
qed

lemma parse_encoded: "parse_query (encode_values q) = flat_values (sort_key fst q)"
  unfolding encode_values_def by (rule parse_query_pairs)

lemma map_of_sort_key:
  assumes "distinct (List.map fst q)"
  shows "map_of (sort_key fst q) = map_of q"
proof -
  have "mset (List.map fst (sort_key fst q)) = mset (List.map fst q)" by simp
  then have "distinct (List.map fst (sort_key fst q))" using assms by (metis mset_eq_imp_distinct_iff)
  with assms show ?thesis by (simp add: map_of_inject_set)
qed

lemma query_roundtrip:
  assumes "distinct (List.map fst q)"
  shows "query_get (parse_query (encode_values q)) k = values_get q k"
proof -
  have "mset (List.map fst (sort_key fst q)) = mset (List.map fst q)" by simp
  then have "distinct (List.map fst (sort_key fst q))" using assms by (metis mset_eq_imp_distinct_iff)
  then show ?thesis
    by (simp add: parse_encoded query_get_flat values_get_def map_of_sort_key [OF assms])
qed

lemma values_get_Nil [simp]: "values_get [] k = []"
  by (simp add: values_get_def)

lemma map_of_filter_other: "map_of (filter (\<lambda>(j, _). j \<noteq> k) q) l = (if l = k then None else map_of q l)"
  by (induction q) auto

lemma values_get_set [simp]: "values_get (values_set k v q) l = (if l = k then v else values_get q l)"
  by (simp add: values_get_def values_set_def map_of_filter_other map_add_def split: option.split)

lemma values_get_some [simp]:
  "values_get (set_some k v q) l = (if l = k \<and> v \<noteq> [] then v else values_get q l)"
  "values_get (set_when b k v q) l = (if b \<and> l = k then v else values_get q l)"
  by (simp_all add: set_some_def set_when_def)

lemma distinct_values_set [simp]:
  "distinct (List.map fst q) \<Longrightarrow> distinct (List.map fst (values_set k v q))"
  by (auto simp: values_set_def distinct_map inj_on_def split_beta)

lemma distinct_set_some [simp]:
  "distinct (List.map fst q) \<Longrightarrow> distinct (List.map fst (set_some k v q))"
  "distinct (List.map fst q) \<Longrightarrow> distinct (List.map fst (set_when b k v q))"
  by (simp_all add: set_some_def set_when_def)

lemma itoa_some [simp]: "itoa n \<noteq> []"
  by (simp add: itoa_def)

lemma parse_int_itoa: "0 \<le> n \<Longrightarrow> n \<le> int_max \<Longrightarrow> parse_int_ignored (itoa n) = n"
proof -
  assume n: "0 \<le> n" "n \<le> int_max"
  obtain c t where ct: "dec_digits (nat n) = c # t" and c: "is_digit c" using dec_digits_hd by blast
  have "parse_digits (c # t) = Some (nat n)" using ct by (metis parse_digits_dec_digits)
  moreover have "c \<noteq> CHR ''-''" "c \<noteq> CHR ''+''" using c by auto
  moreover have "int_min \<le> n" using n by (simp add: int_min_def)
  ultimately show ?thesis using n ct by (simp add: parse_int_ignored_def itoa_def)
qed

definition comma_safe :: "string list \<Rightarrow> bool" where
  "comma_safe ws = (list_all (\<lambda>w. CHR '','' \<notin> set w) ws \<and> ws \<noteq> [[]])"

lemma str_join_empty: "str_join '','' ws = [] \<longleftrightarrow> ws = [] \<or> ws = [[]]"
  by (cases ws rule: list.exhaust; cases "tl ws") auto

lemma comma_list_join: "comma_safe ws \<Longrightarrow> comma_list (if ws \<noteq> [] then str_join '','' ws else []) = ws"
  by (auto simp: comma_list_def comma_safe_def str_join_empty list_all_iff str_split_join)

definition sendable_filter :: "flow_filter \<Rightarrow> bool" where
  "sendable_filter f =
     (comma_safe (ff_method f) \<and> comma_safe (ff_fields f)
      \<and> 0 \<le> ff_min_bytes f \<and> ff_min_bytes f \<le> int_max \<and> 0 \<le> ff_limit f \<and> ff_limit f \<le> int_max)"

lemma filter_query_keys: "distinct (List.map fst (filter_query f))"
  by (simp add: filter_query_def Let_def)

text \<open>C39: A filter sent by the client is the filter the server reads, every field but \<open>ff_client\<close>, which is
  not sent: a list restricted to the flows of a client comes back with the flows of all of them.
\<close>

theorem filter_reaches_server:
  assumes "sendable_filter f"
  shows "filter_from_query (parse_query (encode_values (filter_query f))) = f\<lparr>ff_client := []\<rparr>"
proof -
  have get: "query_get (parse_query (encode_values (filter_query f))) k = values_get (filter_query f) k" for k
    by (rule query_roundtrip [OF filter_query_keys])
  have m: "values_get (filter_query f) ''method'' = (if ff_method f \<noteq> [] then str_join '','' (ff_method f) else [])"
    and g: "values_get (filter_query f) ''fields'' = (if ff_fields f \<noteq> [] then str_join '','' (ff_fields f) else [])"
    and b: "values_get (filter_query f) ''min_bytes'' = (if 0 < ff_min_bytes f then itoa (ff_min_bytes f) else [])"
    and e: "values_get (filter_query f) ''has_error'' = (if ff_has_error f then ''1'' else [])"
    and l: "values_get (filter_query f) ''limit'' = (if 0 < ff_limit f then itoa (ff_limit f) else [])"
    and c: "values_get (filter_query f) ''client'' = []"
    by (simp_all add: filter_query_def Let_def)
  have s: "values_get (filter_query f) ''q'' = ff_q f" "values_get (filter_query f) ''host'' = ff_host f"
    "values_get (filter_query f) ''path'' = ff_path f" "values_get (filter_query f) ''status'' = ff_status f"
    "values_get (filter_query f) ''since'' = ff_since f" "values_get (filter_query f) ''until'' = ff_until f"
    "values_get (filter_query f) ''content_type'' = ff_content_type f"
    "values_get (filter_query f) ''tag'' = ff_tag f" "values_get (filter_query f) ''rule'' = ff_rule f"
    "values_get (filter_query f) ''state'' = ff_state f" "values_get (filter_query f) ''kind'' = ff_kind f"
    "values_get (filter_query f) ''session'' = ff_session f" "values_get (filter_query f) ''cursor'' = ff_cursor f"
    by (simp_all add: filter_query_def Let_def)
  have lim: "in_int (ff_limit f)" using assms by (simp add: sendable_filter_def in_int_def int_min_def)
  have one: "lower_char CHR ''1'' = CHR ''1''" "to_lower [] = []" by code_simp+
  show ?thesis
    using assms lim
    by (intro flow_filter.equality)
      (simp_all add: filter_from_query_def get s m g b e l c comma_list_join sendable_filter_def Let_def
        parse_int_itoa q_int_def q_bool_def atoi_itoa one)
qed

definition client_filter :: flow_filter where
  "client_filter = empty_filter\<lparr>ff_client := ''10.0.0.7'', ff_method := [''GET'', ''POST''], ff_limit := 50\<rparr>"

lemma filter_reaches_server_witness:
  "ff_client client_filter = ''10.0.0.7''
   \<and> filter_from_query (parse_query (encode_values (filter_query client_filter)))
      = empty_filter\<lparr>ff_method := [''GET'', ''POST''], ff_limit := 50\<rparr>"
proof -
  have "sendable_filter client_filter" by code_simp
  from filter_reaches_server [OF this] show ?thesis by (simp add: client_filter_def empty_filter_def)
qed

lemma detail_query_reaches_server:
  assumes "0 \<le> dq_max_bytes fq" and "dq_max_bytes fq \<le> int_max"
  shows "detail_from_query (parse_query (encode_values (detail_values fq))) = fq"
proof -
  have "distinct (List.map fst (detail_values fq))" by (simp add: detail_values_def Let_def split: option.split)
  then have get: "query_get (parse_query (encode_values (detail_values fq))) k = values_get (detail_values fq) k" for k
    by (rule query_roundtrip)
  have v: "values_get (detail_values fq) ''part'' = dq_part fq" "values_get (detail_values fq) ''view'' = dq_view fq"
    "values_get (detail_values fq) ''path'' = dq_path fq"
    "values_get (detail_values fq) ''max_bytes'' = (if 0 < dq_max_bytes fq then itoa (dq_max_bytes fq) else [])"
    "values_get (detail_values fq) ''headers''
       = (case dq_headers fq of None \<Rightarrow> [] | Some b \<Rightarrow> if b then ''true'' else ''false'')"
    "values_get (detail_values fq) ''reveal'' = (if dq_reveal fq then ''1'' else [])"
    by (simp_all add: detail_values_def Let_def split: option.split)
  have one: "lower_char CHR ''1'' = CHR ''1''" "to_lower [] = []" by code_simp+
  have "in_int (dq_max_bytes fq)" using assms by (simp add: in_int_def int_min_def)
  then show ?thesis
    using assms
    by (intro detail_query.equality)
      (simp_all add: detail_from_query_def get v Let_def q_int_def q_bool_def atoi_itoa one split: option.split)
qed

lemma diff_query_reaches_server:
  assumes "0 \<le> df_max req" and "df_max req \<le> int_max"
    and "\<And>hs. df_ignore req = Some hs \<Longrightarrow> hs \<noteq> [] \<and> comma_safe hs"
  shows "diff_from_query (parse_query (encode_values (diff_values a b req))) = Some (a, b, req)"
proof -
  let ?q = "diff_values a b req"
  have "distinct (List.map fst ?q)" by (simp add: diff_values_def Let_def split: option.split)
  then have get: "query_get (parse_query (encode_values ?q)) k = values_get ?q k" for k
    by (rule query_roundtrip)
  have v: "values_get ?q ''a'' = short a" "values_get ?q ''b'' = short b" "values_get ?q ''part'' = df_part req"
    "values_get ?q ''path'' = df_path req"
    "values_get ?q ''max_changes'' = (if 0 < df_max req then itoa (df_max req) else [])"
    "values_get ?q ''ignore_headers''
       = (case df_ignore req of None \<Rightarrow> [] | Some hs \<Rightarrow> if hs \<noteq> [] then str_join '','' hs else [])"
    by (simp_all add: diff_values_def Let_def values_get_Cons split: option.split)
  have "(let w = values_get ?q ''ignore_headers'' in if w \<noteq> [] then Some (str_split (CHR '','') w) else None)
      = df_ignore req"
  proof (cases "df_ignore req")
    case (Some hs)
    with assms(3) have "hs \<noteq> []" "comma_safe hs" by auto
    with Some v(6) show ?thesis
      by (auto simp: comma_safe_def str_join_empty list_all_iff str_split_join)
  qed (simp add: v(6))
  moreover have "in_int (df_max req)" using assms by (simp add: in_int_def int_min_def)
  ultimately show ?thesis
    using assms by (simp add: diff_from_query_def get v parse_short_short Let_def q_int_def atoi_itoa)
qed

lemma explain_query_reaches_server:
  assumes "0 \<le> xr_max_chars req" and "xr_max_chars req \<le> int_max" and "comma_safe (xr_include req)"
  shows "explain_from_query (parse_query (encode_values (explain_values req))) = req"
proof -
  let ?q = "explain_values req"
  have "distinct (List.map fst ?q)" by (simp add: explain_values_def Let_def)
  then have get: "query_get (parse_query (encode_values ?q)) k = values_get ?q k" for k
    by (rule query_roundtrip)
  have v: "values_get ?q ''include'' = (if xr_include req \<noteq> [] then str_join '','' (xr_include req) else [])"
    "values_get ?q ''max_chars'' = (if 0 < xr_max_chars req then itoa (xr_max_chars req) else [])"
    "values_get ?q ''provider'' = xr_provider req"
    by (simp_all add: explain_values_def Let_def)
  have "in_int (xr_max_chars req)" using assms by (simp add: in_int_def int_min_def)
  then show ?thesis
    using assms
    by (intro explain_request.equality)
      (simp_all add: explain_from_query_def get v comma_list_join Let_def q_int_def atoi_itoa)
qed

end
