(* ===== verification/Control_Server.thy ===== *)
theory Control_Server
  imports Control_Query Bus Daemon_Decrypt
begin

text \<open>
  The control API: errors and their envelope (\<open>internal/api/errors.go\<close>), the routes, the handlers and the
  event stream (\<open>internal/control/server.go\<close>), and the client that reads the answers
  (\<open>internal/client/client.go\<close>). The backend's operations are arguments of the handlers, as the
  \<open>Backend\<close> interface is of the server; the JSON codec of requests and envelopes is a parameter.
\<close>

section \<open>Errors\<close>

record api_fault =
  af_code :: string
  af_message :: string
  af_hint :: string

datatype sentinel = ErrNotFound | ErrBadRequest | ErrConflict | ErrUnsupported

text \<open>A Go error as the API sees it: the \<open>*api.Error\<close> in its chain, the sentinels in its chain, its text.\<close>

record go_error =
  er_api :: "api_fault option"
  er_is :: "sentinel list"
  er_text :: string

definition not_found :: "string \<Rightarrow> string \<Rightarrow> go_error" where
  "not_found what i = \<lparr>er_api = None, er_is = [ErrNotFound], er_text = ''not found: '' @ what @ '' '' @ i\<rparr>"

definition bad_request :: "string \<Rightarrow> go_error" where
  "bad_request msg = \<lparr>er_api = None, er_is = [ErrBadRequest], er_text = ''bad request: '' @ msg\<rparr>"

definition code_status :: "string \<Rightarrow> int" where
  "code_status c =
     (if c = ''not_found'' then 404 else if c = ''bad_request'' then 400
      else if c = ''conflict'' then 409 else if c = ''unsupported'' then 501 else 500)"

definition code_of :: "go_error \<Rightarrow> string \<times> int" where
  "code_of e =
     (case er_api e of
        Some ae \<Rightarrow> (af_code ae, code_status (af_code ae))
      | None \<Rightarrow>
          if ErrNotFound \<in> set (er_is e) then (''not_found'', 404)
          else if ErrBadRequest \<in> set (er_is e) then (''bad_request'', 400)
          else if ErrConflict \<in> set (er_is e) then (''conflict'', 409)
          else if ErrUnsupported \<in> set (er_is e) then (''unsupported'', 501)
          else (''internal'', 500))"

section \<open>Answers\<close>

record 'v envelope =
  en_ok :: bool
  en_data :: "'v option"
  en_error :: "api_fault option"

record answer =
  an_status :: int
  an_type :: string
  an_body :: string

definition write_json :: "('v envelope \<Rightarrow> string) \<Rightarrow> 'v \<Rightarrow> answer" where
  "write_json enc v =
     \<lparr>an_status = 200, an_type = ''application/json'',
      an_body = enc \<lparr>en_ok = True, en_data = Some v, en_error = None\<rparr>\<rparr>"

definition write_err :: "('v envelope \<Rightarrow> string) \<Rightarrow> api_fault \<Rightarrow> int \<Rightarrow> answer" where
  "write_err enc e st =
     \<lparr>an_status = st, an_type = ''application/json'',
      an_body = enc \<lparr>en_ok = False, en_data = None, en_error = Some e\<rparr>\<rparr>"

definition plain_message :: "string \<Rightarrow> string" where
  "plain_message = fold (\<lambda>p msg. trim_prefix msg p) [''not found: '', ''bad request: '', ''conflict: '', ''unsupported: '']"

definition fail :: "('v envelope \<Rightarrow> string) \<Rightarrow> go_error \<Rightarrow> answer" where
  "fail enc e =
     (case er_api e of
        Some ae \<Rightarrow> write_err enc ae (snd (code_of e))
      | None \<Rightarrow>
          (let (code, st) = code_of e
           in write_err enc \<lparr>af_code = code, af_message = plain_message (er_text e), af_hint = []\<rparr> st))"

definition auth :: "('v envelope \<Rightarrow> string) \<Rightarrow> string \<Rightarrow> string \<Rightarrow> answer \<Rightarrow> answer" where
  "auth enc tok hdr served =
     (if tok \<noteq> [] \<and> trim_prefix hdr ''Bearer '' \<noteq> tok
      then write_err enc \<lparr>af_code = ''unauthorized'', af_message = ''missing or bad bearer token'',
                          af_hint = ''read ~/.pano/token''\<rparr> 401
      else served)"

section \<open>The client's reading of an answer\<close>

datatype client_error =
    Remote api_fault
  | HttpFailed int string
  | UnexpectedType string
  | BadEnvelope
  | RequestFailed int

definition read_envelope :: "(string \<Rightarrow> 'v envelope option) \<Rightarrow> answer \<Rightarrow> client_error + 'v option" where
  "read_envelope dec a =
     (if \<not> has_prefix (an_type a) ''application/json'' then
        (if 400 \<le> an_status a then Inl (HttpFailed (an_status a) (trim_space (take 4096 (an_body a))))
         else Inl (UnexpectedType (an_type a)))
      else case dec (an_body a) of
        None \<Rightarrow> Inl BadEnvelope
      | Some env \<Rightarrow>
          if \<not> en_ok env then
            (case en_error env of None \<Rightarrow> Inl (RequestFailed (an_status a)) | Some e \<Rightarrow> Inl (Remote e))
          else Inr (en_data env))"

definition read_raw :: "(string \<Rightarrow> 'v envelope option) \<Rightarrow> answer \<Rightarrow> client_error + string" where
  "read_raw dec a =
     (if an_status a < 400 then Inr (an_body a)
      else case read_envelope dec a of Inl e \<Rightarrow> Inl e | Inr _ \<Rightarrow> Inr [])"

definition bearer :: "string \<Rightarrow> string" where
  "bearer token = (if token \<noteq> [] then ''Bearer '' @ token else [])"

text \<open>The error the caller of the client gets: an \<open>*api.Error\<close>, whose text is its code and message.\<close>

definition remote_error :: "api_fault \<Rightarrow> go_error" where
  "remote_error e = \<lparr>er_api = Some e, er_is = [], er_text = af_code e @ '': '' @ af_message e\<rparr>"

section \<open>Handlers\<close>

text \<open>The server's state: that of the backend, and the audit log.\<close>

record 's api_server =
  sv_state :: 's
  sv_audit :: "string list"

type_synonym ('s, 'a) operation = "'s \<Rightarrow> (go_error + 'a) \<times> 's"

definition audit :: "string list \<Rightarrow> 's api_server \<Rightarrow> 's api_server" where
  "audit ls sv = sv\<lparr>sv_audit := sv_audit sv @ ls\<rparr>"

definition flow_id_of :: "string \<Rightarrow> go_error + flow_id" where
  "flow_id_of s =
     (case parse_short s of
        None \<Rightarrow> Inl (bad_request (''invalid flow id '' @ quote_text s))
      | Some i \<Rightarrow> if i = 0 then Inl (bad_request (''invalid flow id '' @ quote_text s)) else Inr i)"

text \<open>Run an operation, answer with its value or its error, and note what succeeded.\<close>

definition run_operation ::
  "('v envelope \<Rightarrow> string) \<Rightarrow> ('s, 'a) operation \<Rightarrow> ('a \<Rightarrow> 'v) \<Rightarrow> ('a \<Rightarrow> string list) \<Rightarrow> 's api_server \<Rightarrow> answer \<times> 's api_server" where
  "run_operation enc op js note sv =
     (case op (sv_state sv) of
        (Inl e, s) \<Rightarrow> (fail enc e, sv\<lparr>sv_state := s\<rparr>)
      | (Inr v, s) \<Rightarrow> (write_json enc (js v), audit (note v) (sv\<lparr>sv_state := s\<rparr>)))"

definition with_flow_id ::
  "('v envelope \<Rightarrow> string) \<Rightarrow> string \<Rightarrow> (flow_id \<Rightarrow> 's api_server \<Rightarrow> answer \<times> 's api_server) \<Rightarrow> 's api_server \<Rightarrow> answer \<times> 's api_server" where
  "with_flow_id enc i h sv = (case flow_id_of i of Inl e \<Rightarrow> (fail enc e, sv) | Inr n \<Rightarrow> h n sv)"

definition with_request ::
  "('v envelope \<Rightarrow> string) \<Rightarrow> string + 'r \<Rightarrow> ('r \<Rightarrow> 's api_server \<Rightarrow> answer \<times> 's api_server) \<Rightarrow> 's api_server \<Rightarrow> answer \<times> 's api_server" where
  "with_request enc body h sv =
     (case body of Inl e \<Rightarrow> (fail enc (bad_request (''invalid JSON body: '' @ e)), sv) | Inr req \<Rightarrow> h req sv)"

definition h_flows where
  "h_flows enc list_flows js q = run_operation enc (list_flows (filter_from_query q)) js (\<lambda>_. [])"

definition h_flow where
  "h_flow enc show_flow js i q =
     with_flow_id enc i (\<lambda>n.
       (let fq = detail_from_query q
        in run_operation enc (show_flow n fq) js
             (\<lambda>_. if dq_reveal fq then [''reveal_secrets flow='' @ short n] else [])))"

definition h_flow_raw where
  "h_flow_raw enc get_raw js i = with_flow_id enc i (\<lambda>n. run_operation enc (get_raw n) js (\<lambda>_. []))"

definition h_body ::
  "('v envelope \<Rightarrow> string) \<Rightarrow> (flow_id \<Rightarrow> string \<Rightarrow> bool \<Rightarrow> ('s, string \<times> string) operation) \<Rightarrow> string \<Rightarrow> string \<Rightarrow>
     (string \<times> string) list \<Rightarrow> 's api_server \<Rightarrow> answer \<times> 's api_server" where
  "h_body enc body i part q =
     with_flow_id enc i (\<lambda>n sv.
       (case body n part (q_bool q ''decode'') (sv_state sv) of
          (Inl e, s) \<Rightarrow> (fail enc e, sv\<lparr>sv_state := s\<rparr>)
        | (Inr (data, mime), s) \<Rightarrow>
            (\<lparr>an_status = 200, an_type = (if mime = [] then ''application/octet-stream'' else mime), an_body = data\<rparr>,
             sv\<lparr>sv_state := s\<rparr>)))"

definition h_ws where
  "h_ws enc messages js i q =
     with_flow_id enc i (\<lambda>n. run_operation enc (messages n (q_int q ''limit'' 200)) js (\<lambda>_. []))"

definition h_diff where
  "h_diff enc diff js q sv =
     (case diff_from_query q of
        None \<Rightarrow> (fail enc (bad_request ''a and b flow ids required''), sv)
      | Some (a, b, req) \<Rightarrow> run_operation enc (diff a b req) js (\<lambda>_. []) sv)"

definition h_replay where
  "h_replay enc replay js i body =
     with_flow_id enc i (\<lambda>n. with_request enc body (\<lambda>req. run_operation enc (replay n req) js (\<lambda>_. [])))"

definition h_explain where
  "h_explain enc explain js i q =
     with_flow_id enc i (\<lambda>n. run_operation enc (explain n (explain_from_query q)) js (\<lambda>_. []))"

definition h_capture where
  "h_capture enc capture js body = with_request enc body (\<lambda>req. run_operation enc (capture req) js (\<lambda>_. []))"

definition h_sessions where
  "h_sessions enc sessions js = run_operation enc sessions js (\<lambda>_. [])"

definition h_start_session where
  "h_start_session enc start js body = with_request enc body (\<lambda>name. run_operation enc (start name) js (\<lambda>_. []))"

definition h_delete_session where
  "h_delete_session enc delete js i = run_operation enc (delete i) (\<lambda>_ :: unit. js ''deleted'' i) (\<lambda>_. [])"

definition h_tail where
  "h_tail enc tail_op js body = with_request enc body (\<lambda>req. run_operation enc (tail_op req) js (\<lambda>_. []))"

definition h_add_rule where
  "h_add_rule enc add js body = with_request enc body (\<lambda>req. run_operation enc (add req) js (\<lambda>_. []))"

definition h_update_rule where
  "h_update_rule enc update js i body = with_request enc body (\<lambda>p. run_operation enc (update i p) js (\<lambda>_. []))"

definition h_remove_rule where
  "h_remove_rule enc remove js i = run_operation enc (remove i) (\<lambda>_ :: unit. js ''removed'' i) (\<lambda>_. [])"

text \<open>Operations that cannot fail: their answer is their value.\<close>

definition h_value ::
  "('v envelope \<Rightarrow> string) \<Rightarrow> ('s \<Rightarrow> 'a \<times> 's) \<Rightarrow> ('a \<Rightarrow> 'v) \<Rightarrow> 's api_server \<Rightarrow> answer \<times> 's api_server" where
  "h_value enc op js = run_operation enc (\<lambda>s. let (v, s') = op s in (Inr v, s')) js (\<lambda>_. [])"

definition h_remove_all_rules where
  "h_remove_all_rules enc clear_rules js = h_value enc clear_rules js"

definition h_resume where
  "h_resume enc resume js i body =
     with_flow_id enc i (\<lambda>n. with_request enc body (\<lambda>req.
       run_operation enc (resume n req) (\<lambda>_ :: unit. js n req) (\<lambda>_. [])))"

text \<open>Leaving the daemon in the background, and turning it off: noted before the operation runs.\<close>

definition h_off where
  "h_off enc off js sv = run_operation enc off (\<lambda>_ :: unit. js) (\<lambda>_. []) (audit [''off requested by a ui''] sv)"

definition em_dash :: string where
  "em_dash = [CHR 0xE2, CHR 0x80, CHR 0x94]"

definition h_disown where
  "h_disown enc disown_op lifecycle_of js sv =
     (let sv1 = audit [''ui detached '' @ em_dash @ '' daemon stays in the background'']
                  (sv\<lparr>sv_state := disown_op (sv_state sv)\<rparr>)
      in h_value enc lifecycle_of js sv1)"

definition bool_str :: "bool \<Rightarrow> string" where
  "bool_str b = (if b then ''true'' else ''false'')"

definition h_set_sysproxy where
  "h_set_sysproxy enc op js body =
     with_request enc body (\<lambda>enabled. run_operation enc (op enabled) js (\<lambda>_. [''sysproxy enabled='' @ bool_str enabled]))"

definition h_set_mobile where
  "h_set_mobile enc op js addr body =
     with_request enc body (\<lambda>enabled. run_operation enc (op enabled) js
       (\<lambda>st. [''mobile enabled='' @ bool_str enabled @ '' addr='' @ addr st]))"

definition h_har where
  "h_har enc op js body =
     with_request enc body (\<lambda>req. run_operation enc (op req) js
       (\<lambda>_. if fst req then [''reveal_secrets har='' @ fst (snd req)] else []))"

definition audit_decrypt :: "string \<Rightarrow> decrypt_change \<Rightarrow> decrypt_policy \<Rightarrow> string" where
  "audit_decrypt source c d =
     ''decrypt source='' @ (if source = [] then ''unknown'' else source)
       @ (if ch_mode c \<noteq> [] then '' mode='' @ ch_mode c else [])
       @ concat (List.map (\<lambda>h. '' +only='' @ h) (ch_add_only c))
       @ concat (List.map (\<lambda>h. '' -only='' @ h) (ch_remove_only c))
       @ concat (List.map (\<lambda>h. '' +never='' @ h) (ch_add_never c))
       @ concat (List.map (\<lambda>h. '' -never='' @ h) (ch_remove_never c))
       @ '' now='' @ dp_mode d"

definition h_change_decrypt where
  "h_change_decrypt enc op js body =
     with_request enc body (\<lambda>(source, c). run_operation enc (op c) js (\<lambda>d. [audit_decrypt source c d]))"

section \<open>Errors keep their code, and what is revealed is noted\<close>

lemma code_status_of: "snd (code_of e) = code_status (fst (code_of e))"
proof (cases "er_api e")
  case None
  have "code_status ''not_found'' = 404" "code_status ''bad_request'' = 400" "code_status ''conflict'' = 409"
    "code_status ''unsupported'' = 501" "code_status ''internal'' = 500"
    by code_simp+
  with None show ?thesis by (simp add: code_of_def)
qed (simp add: code_of_def)

lemma code_of_remote: "code_of (remote_error a) = (af_code a, code_status (af_code a))"
  by (simp add: code_of_def remote_error_def)

text \<open>An error of the backend reaches the caller of the client with the same code and status, for every
  error but a missing token, whose status 401 is not that of its code.\<close>

lemma error_reaches_client:
  assumes "\<And>env. dec (enc env) = Some env"
  shows "\<exists>ae. read_envelope dec (fail enc e) = Inl (Remote ae) \<and> code_of (remote_error ae) = code_of e
           \<and> an_status (fail enc e) = snd (code_of e)"
proof (cases "er_api e")
  case None
  obtain c st where c: "code_of e = (c, st)" by force
  with code_status_of [of e] have "st = code_status c" by simp
  with None c show ?thesis using assms
    by (simp add: fail_def write_err_def read_envelope_def code_of_remote)
next
  case (Some ae)
  then have "code_of e = (af_code ae, code_status (af_code ae))" by (simp add: code_of_def)
  with Some show ?thesis using assms
    by (simp add: fail_def write_err_def read_envelope_def code_of_remote)
qed

lemma value_reaches_client:
  "dec (enc \<lparr>en_ok = True, en_data = Some v, en_error = None\<rparr>)
     = Some \<lparr>en_ok = True, en_data = Some v, en_error = None\<rparr> \<Longrightarrow>
   read_envelope dec (write_json enc v) = Inr (Some v)"
  by (simp add: read_envelope_def write_json_def)

lemma token_lets_in: "tok \<noteq> [] \<Longrightarrow> auth enc tok (bearer tok) served = served"
  by (simp add: auth_def bearer_def trim_prefix_def)

lemma token_keeps_out:
  assumes "tok \<noteq> []" and "trim_prefix hdr ''Bearer '' \<noteq> tok"
  shows "an_status (auth enc tok hdr served) = 401"
  using assms by (simp add: auth_def write_err_def)

lemma token_without_scheme: "\<not> prefix ''Bearer '' tok \<Longrightarrow> auth enc tok tok served = served"
  by (simp add: auth_def trim_prefix_def)

lemma code_status_ge: "400 \<le> code_status c"
  by (simp add: code_status_def)

lemma fail_status: "400 \<le> an_status (fail enc e)"
  using code_status_of [of e] code_status_ge [of "fst (code_of e)"]
  by (cases "code_of e") (simp add: fail_def write_err_def split: option.split)

lemma run_operation_audit:
  "sv_audit (snd (run_operation enc op js note sv)) =
     sv_audit sv @ (case fst (op (sv_state sv)) of Inl _ \<Rightarrow> [] | Inr v \<Rightarrow> note v)"
  by (auto simp: run_operation_def audit_def split: sum.split prod.split)

lemma run_operation_ok:
  "an_status (fst (run_operation enc op js note sv)) = 200 \<longleftrightarrow> \<not> isl (fst (op (sv_state sv)))"
proof (cases "op (sv_state sv)")
  case (Pair r s)
  then show ?thesis using fail_status [of enc "projl r"]
    by (cases r) (auto simp: run_operation_def write_json_def)
qed

text \<open>An answer of the server that shows a flow unredacted was noted in the audit log with the id of the
  flow, and nothing else is noted for showing a flow.
\<close>

theorem reveal_is_audited:
  "sv_audit (snd (h_flow enc show_flow js i q sv)) =
     sv_audit sv
     @ (if an_status (fst (h_flow enc show_flow js i q sv)) = 200 \<and> q_bool q ''reveal''
        then [''reveal_secrets flow='' @ short (the (parse_short i))] else [])"
proof (cases "flow_id_of i")
  case (Inl e)
  then show ?thesis using fail_status [of enc e] by (simp add: h_flow_def with_flow_id_def)
next
  case (Inr n)
  then have n: "parse_short i = Some n" by (auto simp: flow_id_of_def split: option.splits if_splits)
  show ?thesis
  proof (cases "fst (show_flow n (detail_from_query q) (sv_state sv))")
    case (Inl e)
    then have "an_status (fst (h_flow enc show_flow js i q sv)) \<noteq> 200"
      using Inr by (simp add: h_flow_def with_flow_id_def Let_def run_operation_ok)
    with Inl Inr show ?thesis by (simp add: h_flow_def with_flow_id_def Let_def run_operation_audit)
  next
    fix v
    assume v: "fst (show_flow n (detail_from_query q) (sv_state sv)) = Inr v"
    then have "an_status (fst (h_flow enc show_flow js i q sv)) = 200"
      using Inr by (simp add: h_flow_def with_flow_id_def Let_def run_operation_ok)
    with v Inr n show ?thesis
      by (simp add: h_flow_def with_flow_id_def Let_def run_operation_audit detail_from_query_def)
  qed
qed

lemma raw_and_body_unaudited:
  "sv_audit (snd (h_flow_raw enc get_raw js i sv)) = sv_audit sv"
  "sv_audit (snd (h_body enc body i part q sv)) = sv_audit sv"
  by (auto simp: h_flow_raw_def h_body_def with_flow_id_def run_operation_audit split: sum.split prod.split)

end
