(* ===== verification/Control_Routes.thy ===== *)
theory Control_Routes
  imports Control_Server
begin

text \<open>
  The routes of the control API (\<open>internal/control/server.go\<close>: \<open>routes\<close>, \<open>flowID\<close>) and the requests the
  client makes (\<open>internal/client/client.go\<close>). Paths are taken as clean ones, with no empty or dot segment,
  which the multiplexer would redirect; the profiling routes are left out. Patterns that could both
  match are listed most specific first, as \<open>net/http\<close> chooses.
\<close>

section \<open>Path segments\<close>

definition path_byte :: "char \<Rightarrow> bool" where
  "path_byte c = (plain_byte c \<or> c \<in> set ''$&+:=@'')"

text \<open>\<open>url.PathEscape\<close> and the unescaping of a segment, which keeps one it cannot read.\<close>

definition path_escape_byte :: "char \<Rightarrow> string" where
  "path_escape_byte c =
     (if path_byte c then [c] else [CHR ''%'', upper_hex (octet c div 16), upper_hex (octet c mod 16)])"

definition path_escape :: "string \<Rightarrow> string" where
  "path_escape s = concat (List.map path_escape_byte s)"

fun path_decode :: "string \<Rightarrow> string option" where
  "path_decode [] = Some []"
| "path_decode (c # s) =
     (if c = CHR ''%'' then
        (case s of
           a # b # s' \<Rightarrow>
             (case (form_hex_val a, form_hex_val b) of
                (Some x, Some y) \<Rightarrow> map_option ((#) (char_of (16 * x + y))) (path_decode s')
              | _ \<Rightarrow> None)
         | _ \<Rightarrow> None)
      else map_option ((#) c) (path_decode s))"

declare path_decode.simps(2) [simp del]

definition path_unescape :: "string \<Rightarrow> string" where
  "path_unescape s = (case path_decode s of None \<Rightarrow> s | Some t \<Rightarrow> t)"

definition path_segments :: "string \<Rightarrow> string list" where
  "path_segments p = List.map path_unescape (tl (str_split (CHR ''/'') p))"

section \<open>What is asked for\<close>

datatype call =
    CStatus | CStats | CCapture | CSessions | CStartSession | CDeleteSession string
  | CFlows | CDiff | CFlow flow_id | CFlowRaw flow_id | CBody flow_id string | CWS flow_id
  | CReplay flow_id | CExplain flow_id | CTail | CEvents
  | CRules | CPresets | CAddRule | CUpdateRule string | CRemoveRule string | CRemoveAllRules
  | CHeld | CResume flow_id | CDecrypt | CChangeDecrypt | CHar | CCAPEM
  | CSysProxy | CSetSysProxy | CMobile | CSetMobile | CConfig | CShutdown | CAttach | CDisown | COff

datatype pattern_seg = Lit string | Wild

fun match_segs :: "pattern_seg list \<Rightarrow> string list \<Rightarrow> string list option" where
  "match_segs [] [] = Some []"
| "match_segs (Lit l # ps) (s # ss) = (if l = s then match_segs ps ss else None)"
| "match_segs (Wild # ps) (s # ss) = (if s = [] then None else map_option ((#) s) (match_segs ps ss))"
| "match_segs _ _ = None"

text \<open>The routes, with what each handler takes from its path.\<close>

definition flow_call :: "(flow_id \<Rightarrow> call) \<Rightarrow> string list \<Rightarrow> go_error + call" where
  "flow_call c ws = (case flow_id_of (hd ws) of Inl e \<Rightarrow> Inl e | Inr i \<Rightarrow> Inr (c i))"

definition routes :: "(string \<times> pattern_seg list \<times> (string list \<Rightarrow> go_error + call)) list" where
  "routes =
    [(''GET'', [Lit ''status''], \<lambda>_. Inr CStatus),
     (''GET'', [Lit ''stats''], \<lambda>_. Inr CStats),
     (''POST'', [Lit ''capture''], \<lambda>_. Inr CCapture),
     (''GET'', [Lit ''sessions''], \<lambda>_. Inr CSessions),
     (''POST'', [Lit ''sessions''], \<lambda>_. Inr CStartSession),
     (''DELETE'', [Lit ''sessions'', Wild], \<lambda>ws. Inr (CDeleteSession (hd ws))),
     (''GET'', [Lit ''flows''], \<lambda>_. Inr CFlows),
     (''GET'', [Lit ''flows'', Lit ''diff''], \<lambda>_. Inr CDiff),
     (''GET'', [Lit ''flows'', Wild], flow_call CFlow),
     (''GET'', [Lit ''flows'', Wild, Lit ''raw''], flow_call CFlowRaw),
     (''GET'', [Lit ''flows'', Wild, Lit ''body'', Wild], \<lambda>ws. flow_call (\<lambda>i. CBody i (ws ! 1)) ws),
     (''GET'', [Lit ''flows'', Wild, Lit ''ws''], flow_call CWS),
     (''POST'', [Lit ''flows'', Wild, Lit ''replay''], flow_call CReplay),
     (''GET'', [Lit ''flows'', Wild, Lit ''explain''], flow_call CExplain),
     (''POST'', [Lit ''tail''], \<lambda>_. Inr CTail),
     (''GET'', [Lit ''events''], \<lambda>_. Inr CEvents),
     (''GET'', [Lit ''rules''], \<lambda>_. Inr CRules),
     (''GET'', [Lit ''rules'', Lit ''presets''], \<lambda>_. Inr CPresets),
     (''POST'', [Lit ''rules''], \<lambda>_. Inr CAddRule),
     (''PATCH'', [Lit ''rules'', Wild], \<lambda>ws. Inr (CUpdateRule (hd ws))),
     (''DELETE'', [Lit ''rules'', Wild], \<lambda>ws. Inr (CRemoveRule (hd ws))),
     (''DELETE'', [Lit ''rules''], \<lambda>_. Inr CRemoveAllRules),
     (''GET'', [Lit ''held''], \<lambda>_. Inr CHeld),
     (''POST'', [Lit ''held'', Wild], flow_call CResume),
     (''GET'', [Lit ''decrypt''], \<lambda>_. Inr CDecrypt),
     (''PATCH'', [Lit ''decrypt''], \<lambda>_. Inr CChangeDecrypt),
     (''POST'', [Lit ''har''], \<lambda>_. Inr CHar),
     (''GET'', [Lit ''ca.pem''], \<lambda>_. Inr CCAPEM),
     (''GET'', [Lit ''sysproxy''], \<lambda>_. Inr CSysProxy),
     (''POST'', [Lit ''sysproxy''], \<lambda>_. Inr CSetSysProxy),
     (''GET'', [Lit ''mobile''], \<lambda>_. Inr CMobile),
     (''POST'', [Lit ''mobile''], \<lambda>_. Inr CSetMobile),
     (''GET'', [Lit ''config''], \<lambda>_. Inr CConfig),
     (''POST'', [Lit ''shutdown''], \<lambda>_. Inr CShutdown),
     (''GET'', [Lit ''attach''], \<lambda>_. Inr CAttach),
     (''POST'', [Lit ''disown''], \<lambda>_. Inr CDisown),
     (''POST'', [Lit ''off''], \<lambda>_. Inr COff)]"

fun first_route ::
  "string \<Rightarrow> string list \<Rightarrow> (string \<times> pattern_seg list \<times> (string list \<Rightarrow> go_error + call)) list \<Rightarrow> (go_error + call) option" where
  "first_route m ss [] = None"
| "first_route m ss ((m', ps, h) # rs) =
     (if m = m' \<or> m = ''HEAD'' \<and> m' = ''GET'' then
        (case match_segs (Lit ''v1'' # ps) ss of None \<Rightarrow> first_route m ss rs | Some ws \<Rightarrow> Some (h ws))
      else first_route m ss rs)"

definition serve_call :: "string \<times> string \<Rightarrow> (go_error + call) option" where
  "serve_call req = first_route (fst req) (path_segments (snd req)) routes"

section \<open>The client's requests\<close>

fun client_call :: "call \<Rightarrow> string \<times> string" where
  "client_call CStatus = (''GET'', ''/v1/status'')"
| "client_call CStats = (''GET'', ''/v1/stats'')"
| "client_call CCapture = (''POST'', ''/v1/capture'')"
| "client_call CSessions = (''GET'', ''/v1/sessions'')"
| "client_call CStartSession = (''POST'', ''/v1/sessions'')"
| "client_call (CDeleteSession i) = (''DELETE'', ''/v1/sessions/'' @ path_escape i)"
| "client_call CFlows = (''GET'', ''/v1/flows'')"
| "client_call CDiff = (''GET'', ''/v1/flows/diff'')"
| "client_call (CFlow i) = (''GET'', ''/v1/flows/'' @ short i)"
| "client_call (CFlowRaw i) = (''GET'', ''/v1/flows/'' @ short i @ ''/raw'')"
| "client_call (CBody i part) = (''GET'', ''/v1/flows/'' @ short i @ ''/body/'' @ part)"
| "client_call (CWS i) = (''GET'', ''/v1/flows/'' @ short i @ ''/ws'')"
| "client_call (CReplay i) = (''POST'', ''/v1/flows/'' @ short i @ ''/replay'')"
| "client_call (CExplain i) = (''GET'', ''/v1/flows/'' @ short i @ ''/explain'')"
| "client_call CTail = (''POST'', ''/v1/tail'')"
| "client_call CEvents = (''GET'', ''/v1/events'')"
| "client_call CRules = (''GET'', ''/v1/rules'')"
| "client_call CPresets = (''GET'', ''/v1/rules/presets'')"
| "client_call CAddRule = (''POST'', ''/v1/rules'')"
| "client_call (CUpdateRule i) = (''PATCH'', ''/v1/rules/'' @ path_escape i)"
| "client_call (CRemoveRule i) = (''DELETE'', ''/v1/rules/'' @ path_escape i)"
| "client_call CRemoveAllRules = (''DELETE'', ''/v1/rules'')"
| "client_call CHeld = (''GET'', ''/v1/held'')"
| "client_call (CResume i) = (''POST'', ''/v1/held/'' @ short i)"
| "client_call CDecrypt = (''GET'', ''/v1/decrypt'')"
| "client_call CChangeDecrypt = (''PATCH'', ''/v1/decrypt'')"
| "client_call CHar = (''POST'', ''/v1/har'')"
| "client_call CCAPEM = (''GET'', ''/v1/ca.pem'')"
| "client_call CSysProxy = (''GET'', ''/v1/sysproxy'')"
| "client_call CSetSysProxy = (''POST'', ''/v1/sysproxy'')"
| "client_call CMobile = (''GET'', ''/v1/mobile'')"
| "client_call CSetMobile = (''POST'', ''/v1/mobile'')"
| "client_call CConfig = (''GET'', ''/v1/config'')"
| "client_call CShutdown = (''POST'', ''/v1/shutdown'')"
| "client_call CAttach = (''GET'', ''/v1/attach'')"
| "client_call CDisown = (''POST'', ''/v1/disown'')"
| "client_call COff = (''POST'', ''/v1/off'')"

section \<open>Every request reaches its handler\<close>

lemma path_decode_escape_byte:
  "path_decode (path_escape_byte c @ s) = map_option ((#) c) (path_decode s)"
proof -
  have "16 * (octet c div 16) + octet c mod 16 = octet c" by simp
  moreover have "octet c div 16 < 16" using byte_lt [of c] by simp
  moreover have "path_byte c \<Longrightarrow> c \<noteq> CHR ''%''" by (auto simp: path_byte_def plain_byte_def is_digit_def octet_def)
  ultimately show ?thesis by (simp add: path_escape_byte_def path_decode.simps(2) hex_val_digit char_of_byte)
qed

lemma path_decode_escape: "path_decode (path_escape s) = Some s"
proof (induction s)
  case (Cons c s)
  then show ?case using path_decode_escape_byte [of c "path_escape s"] by (simp add: path_escape_def)
qed (simp add: path_escape_def)

lemma path_unescape_escape: "path_unescape (path_escape s) = s"
  by (simp add: path_unescape_def path_decode_escape)

lemma path_escape_no_slash: "CHR ''/'' \<notin> set (path_escape s)"
proof
  assume "CHR ''/'' \<in> set (path_escape s)"
  then obtain c where c: "CHR ''/'' \<in> set (path_escape_byte c)"
    by (auto simp: path_escape_def)
  have "octet c div 16 < 16" "octet c mod 16 < 16" using byte_lt [of c] by simp_all
  with c have "path_byte (CHR ''/'') \<or> plain_byte (CHR ''/'')"
    using hex_digit_plain by (auto simp: path_escape_byte_def split: if_splits)
  then show False by (rule disjE) code_simp+
qed

lemma path_decode_plain: "CHR ''%'' \<notin> set s \<Longrightarrow> path_decode s = Some s"
  by (induction s) (auto simp: path_decode.simps(2))

lemma path_unescape_plain [simp]: "CHR ''%'' \<notin> set s \<Longrightarrow> path_unescape s = s"
  by (simp add: path_unescape_def path_decode_plain)

definition slashed :: "string list \<Rightarrow> string" where
  "slashed ws = concat (List.map ((#) (CHR ''/'')) ws)"

lemma path_segments_slashed:
  assumes "\<forall>w \<in> set ws. CHR ''/'' \<notin> set w"
  shows "path_segments (slashed ws) = List.map path_unescape ws"
proof (cases ws)
  case (Cons w vs)
  have "slashed vs = str_join [CHR ''/''] ([] # vs)" for vs
  proof (induction vs)
    case (Cons a us)
    then show ?case by (cases us) (simp_all add: slashed_def)
  qed (simp add: slashed_def)
  then have "str_split (CHR ''/'') (slashed ws) = [] # ws"
    using assms str_split_join [of "[] # ws" "CHR ''/''"] by simp
  then show ?thesis by (simp add: path_segments_def)
qed (simp add: slashed_def path_segments_def)

lemma short_chars: "c \<in> set (short i) \<Longrightarrow> c \<in> set id_alphabet"
proof -
  assume "c \<in> set (short i)"
  then obtain d where d: "d \<in> set (if i = 0 then [0] else base32 (unat i))" "c = alpha d"
    by (auto simp: short_eq)
  then have "d < length id_alphabet" by (auto dest: base32_digits simp: length_alphabet split: if_splits)
  with d(2) show ?thesis by simp
qed

lemma short_path: "CHR ''/'' \<notin> set (short i)" "CHR ''%'' \<notin> set (short i)" "short i \<noteq> ''diff''" "''diff'' \<noteq> short i"
proof -
  have "CHR ''/'' \<notin> set id_alphabet" "CHR ''%'' \<notin> set id_alphabet" "CHR ''i'' \<notin> set id_alphabet"
    by code_simp+
  then show "CHR ''/'' \<notin> set (short i)" "CHR ''%'' \<notin> set (short i)" "short i \<noteq> ''diff''" "''diff'' \<noteq> short i"
    using short_chars [of _ i] short_chars [of "CHR ''i''" i] by (auto dest: arg_cong [where f = set] sym)
qed

lemma flow_id_of_short: "i \<noteq> 0 \<Longrightarrow> flow_id_of (short i) = Inr i"
  by (simp add: flow_id_of_def parse_short_short)

lemma fixed_calls:
  "list_all (\<lambda>c. serve_call (client_call c) = Some (Inr c))
     [CStatus, CStats, CCapture, CSessions, CStartSession, CFlows, CDiff, CTail, CEvents, CRules, CPresets,
      CAddRule, CRemoveAllRules, CHeld, CDecrypt, CChangeDecrypt, CHar, CCAPEM, CSysProxy, CSetSysProxy,
      CMobile, CSetMobile, CConfig, CShutdown, CAttach, CDisown, COff]"
  by code_simp

lemma call_segments:
  "path_segments (''/v1/flows/'' @ short i) = [''v1'', ''flows'', short i]"
  "path_segments (''/v1/held/'' @ short i) = [''v1'', ''held'', short i]"
  "path_segments (''/v1/sessions/'' @ path_escape s) = [''v1'', ''sessions'', s]"
  "path_segments (''/v1/rules/'' @ path_escape s) = [''v1'', ''rules'', s]"
  using path_segments_slashed [of "[''v1'', ''flows'', short i]"]
    path_segments_slashed [of "[''v1'', ''held'', short i]"]
    path_segments_slashed [of "[''v1'', ''sessions'', path_escape s]"]
    path_segments_slashed [of "[''v1'', ''rules'', path_escape s]"]
  by (simp_all add: slashed_def short_path path_escape_no_slash path_unescape_escape)

lemma part_segments:
  "CHR ''/'' \<notin> set p \<Longrightarrow> CHR ''%'' \<notin> set p \<Longrightarrow>
     path_segments (''/v1/flows/'' @ short i @ ''/'' @ p) = [''v1'', ''flows'', short i, p]"
  "CHR ''/'' \<notin> set p \<Longrightarrow> CHR ''%'' \<notin> set p \<Longrightarrow>
     path_segments (''/v1/flows/'' @ short i @ ''/body/'' @ p) = [''v1'', ''flows'', short i, ''body'', p]"
  using path_segments_slashed [of "[''v1'', ''flows'', short i, p]"]
    path_segments_slashed [of "[''v1'', ''flows'', short i, ''body'', p]"]
  by (simp_all add: slashed_def short_path)

text \<open>Calls with ids there can be: no flow has the id 0, and a name is a clean path segment.\<close>

definition clean_name :: "string \<Rightarrow> bool" where
  "clean_name s = (s \<noteq> [] \<and> s \<noteq> ''.'' \<and> s \<noteq> ''..'')"

fun call_ok :: "call \<Rightarrow> bool" where
  "call_ok (CDeleteSession s) = clean_name s"
| "call_ok (CUpdateRule s) = clean_name s"
| "call_ok (CRemoveRule s) = clean_name s"
| "call_ok (CFlow i) = (i \<noteq> 0)"
| "call_ok (CFlowRaw i) = (i \<noteq> 0)"
| "call_ok (CBody i part) = (i \<noteq> 0 \<and> clean_name part \<and> list_all plain_byte part)"
| "call_ok (CWS i) = (i \<noteq> 0)"
| "call_ok (CReplay i) = (i \<noteq> 0)"
| "call_ok (CExplain i) = (i \<noteq> 0)"
| "call_ok (CResume i) = (i \<noteq> 0)"
| "call_ok _ = True"

lemma part_calls:
  assumes "i \<noteq> 0"
  shows "serve_call (client_call (CFlowRaw i)) = Some (Inr (CFlowRaw i))"
    and "serve_call (client_call (CWS i)) = Some (Inr (CWS i))"
    and "serve_call (client_call (CReplay i)) = Some (Inr (CReplay i))"
    and "serve_call (client_call (CExplain i)) = Some (Inr (CExplain i))"
  using assms part_segments(1) [of "''raw''" i] part_segments(1) [of "''ws''" i] part_segments(1) [of "''replay''" i]
    part_segments(1) [of "''explain''" i]
  by (simp_all add: serve_call_def routes_def flow_call_def flow_id_of_short short_path short_nonempty)

lemma body_call:
  assumes "i \<noteq> 0" and "clean_name part" and "list_all plain_byte part"
  shows "serve_call (client_call (CBody i part)) = Some (Inr (CBody i part))"
proof -
  have "CHR ''/'' \<notin> set part" "CHR ''%'' \<notin> set part"
    using assms(3) by (auto simp: list_all_iff plain_byte_def is_digit_def octet_def)
  with part_segments(2) assms(1,2) show ?thesis
    by (simp add: serve_call_def routes_def flow_call_def flow_id_of_short short_path short_nonempty clean_name_def)
qed

lemma named_calls:
  assumes "clean_name n"
  shows "serve_call (client_call (CDeleteSession n)) = Some (Inr (CDeleteSession n))"
    and "serve_call (client_call (CUpdateRule n)) = Some (Inr (CUpdateRule n))"
    and "serve_call (client_call (CRemoveRule n)) = Some (Inr (CRemoveRule n))"
  using assms call_segments(3,4) [of n] by (simp_all add: serve_call_def routes_def clean_name_def)

lemma flow_calls:
  assumes "i \<noteq> 0"
  shows "serve_call (client_call (CFlow i)) = Some (Inr (CFlow i))"
    and "serve_call (client_call (CResume i)) = Some (Inr (CResume i))"
  using assms call_segments(1,2) [of i]
  by (simp_all add: serve_call_def routes_def flow_call_def flow_id_of_short short_path short_nonempty)

text \<open>C40: Every request of the client is served by the handler it is meant for, with the id or the name it was
  made with: no flow id is taken for another route, and no name escapes from its segment.
\<close>

theorem calls_reach_handlers:
  assumes "call_ok c"
  shows "serve_call (client_call c) = Some (Inr c)"
  using assms fixed_calls part_calls body_call named_calls flow_calls
  by (cases c) (simp_all only: list.pred_inject call_ok.simps simp_thms)

lemma calls_reach_handlers_witness:
  "serve_call (''GET'', ''/v1/flows/d1ff'') = Some (Inr (CFlow 427503))
   \<and> serve_call (''DELETE'', ''/v1/rules/a%2Fb'') = Some (Inr (CRemoveRule ''a/b''))"
proof -
  have "client_call (CFlow 427503) = (''GET'', ''/v1/flows/d1ff'')"
    "client_call (CRemoveRule ''a/b'') = (''DELETE'', ''/v1/rules/a%2Fb'')" by code_simp+
  then show ?thesis
    using calls_reach_handlers [of "CFlow 427503"] calls_reach_handlers [of "CRemoveRule ''a/b''"]
    by (simp add: clean_name_def)
qed

text \<open>With an empty id nothing is deleted: the request matches no route.\<close>

lemma empty_rule_id: "serve_call (client_call (CRemoveRule [])) = None"
  by code_simp

end
