(* ===== verification/Control_Events.thy ===== *)
theory Control_Events
  imports Control_Server
begin

text \<open>
  The event stream of the control API: the subscription and the text the server writes
  (\<open>internal/control/server.go\<close>: \<open>hEvents\<close>), and the client's reading of it
  (\<open>internal/client/client.go\<close>: \<open>Events\<close>). The JSON of an event is a parameter.
\<close>

section \<open>What is subscribed to\<close>

fun event_name :: "event_type \<Rightarrow> string" where
  "event_name EvStarted = ''started''"
| "event_name EvHeaders = ''headers''"
| "event_name EvDone = ''done''"
| "event_name EvHeld = ''held''"
| "event_name EvWS = ''ws''"
| "event_name EvDropped = ''dropped''"

definition events_query :: "string list \<Rightarrow> string \<Rightarrow> url_values" where
  "events_query types host =
     set_some ''host'' host (set_when (types \<noteq> []) ''types'' (str_join '','' types) [])"

definition event_types :: "(string \<times> string) list \<Rightarrow> string list" where
  "event_types q = List.map trim_space (comma_list (query_get q ''types''))"

definition event_wanted :: "string list \<Rightarrow> string \<Rightarrow> event \<Rightarrow> bool" where
  "event_wanted types host ev =
     (if types \<noteq> [] \<and> event_name (ev_type ev) \<notin> set types then ev_type ev = EvDropped
      else if host \<noteq> [] \<and> (case ev_flow ev of None \<Rightarrow> False | Some f \<Rightarrow> \<not> equal_fold (fl_host f) host) then False
      else True)"

definition events_subscribe :: "(string \<times> string) list \<Rightarrow> bus \<Rightarrow> nat \<times> bus" where
  "events_subscribe q = subscribe 1024 (Some (event_wanted (event_types q) (query_get q ''host'')))"

section \<open>The text of the stream\<close>

datatype stream_item = Heartbeat | Sent event

definition item_text :: "(event \<Rightarrow> string) \<Rightarrow> stream_item \<Rightarrow> string" where
  "item_text enc it =
     (case it of
        Heartbeat \<Rightarrow> '': heartbeat'' @ [newline, newline]
      | Sent ev \<Rightarrow>
          ''id: '' @ itoa (uint (ev_seq ev)) @ newline # ''event: '' @ event_name (ev_type ev)
            @ newline # ''data: '' @ enc ev @ [newline, newline])"

definition stream_text :: "(event \<Rightarrow> string) \<Rightarrow> stream_item list \<Rightarrow> string" where
  "stream_text enc items = concat (List.map (item_text enc) items)"

section \<open>Reading the stream\<close>

text \<open>\<open>bufio.Scanner\<close>: lines without their end, up to the first one that does not fit the buffer; the
  last line needs no end.\<close>

definition drop_cr :: "string \<Rightarrow> string" where
  "drop_cr l = (if l \<noteq> [] \<and> last l = CHR 0x0D then butlast l else l)"

definition scan_lines :: "nat \<Rightarrow> string \<Rightarrow> string list" where
  "scan_lines maxlen s =
     (let ls = str_split newline s;
          ls = (if last ls = [] then butlast ls else ls)
      in List.map drop_cr (takeWhile (\<lambda>l. length l < maxlen) ls))"

definition max_line :: nat where
  "max_line = 32 * 2 ^ 20"

definition read_events :: "(string \<Rightarrow> event option) \<Rightarrow> string \<Rightarrow> event list" where
  "read_events dec s =
     List.map_filter (\<lambda>l. if has_prefix l ''data: '' then dec (drop 6 l) else None) (scan_lines max_line s)"

section \<open>Events arrive\<close>

definition item_lines :: "(event \<Rightarrow> string) \<Rightarrow> stream_item \<Rightarrow> string list" where
  "item_lines enc it =
     (case it of
        Heartbeat \<Rightarrow> ['': heartbeat'', []]
      | Sent ev \<Rightarrow> [''id: '' @ itoa (uint (ev_seq ev)), ''event: '' @ event_name (ev_type ev), ''data: '' @ enc ev, []])"

lemma item_text_lines: "item_text enc it = concat (List.map (\<lambda>l. l @ [newline]) (item_lines enc it))"
  by (cases it) (simp_all add: item_text_def item_lines_def)

lemma str_split_lines:
  "\<forall>l \<in> set ls. d \<notin> set l \<Longrightarrow> str_split d (concat (List.map (\<lambda>l. l @ [d]) ls)) = ls @ [[]]"
proof -
  assume "\<forall>l \<in> set ls. d \<notin> set l"
  moreover have "concat (List.map (\<lambda>l. l @ [d]) ls) = str_join [d] (ls @ [[]])"
  proof (induction ls)
    case (Cons l ls)
    then show ?case by (cases ls) simp_all
  qed simp
  ultimately show ?thesis using str_split_join [of "ls @ [[]]" d] by simp
qed

definition stream_event :: "stream_item \<Rightarrow> event option" where
  "stream_event it = (case it of Heartbeat \<Rightarrow> None | Sent ev \<Rightarrow> Some ev)"

definition one_line :: "string \<Rightarrow> bool" where
  "one_line j = (newline \<notin> set j \<and> (j = [] \<or> last j \<noteq> CHR 0x0D) \<and> length j + 6 < max_line)"

lemma digit_chars: "c \<in> set (dec_digits n) \<Longrightarrow> is_digit c"
  using dec_digits_all [of n] by (simp add: list_all_iff)

lemma length_dec_digits: "n < 10 ^ Suc k \<Longrightarrow> length (dec_digits n) \<le> Suc k"
proof (induction k arbitrary: n)
  case 0
  then show ?case by (subst dec_digits.simps) simp
next
  case (Suc k)
  have "n < 10 ^ Suc k * 10" using Suc.prems by simp
  then have "n div 10 < 10 ^ Suc k" by (rule less_mult_imp_div_less)
  then have "length (dec_digits (n div 10)) \<le> Suc k" by (rule Suc.IH)
  moreover have "length (dec_digits n) \<le> Suc (length (dec_digits (n div 10)))"
    by (subst dec_digits.simps) simp
  ultimately show ?case by linarith
qed

lemma seq_line:
  fixes w :: "64 word"
  shows "newline \<notin> set (itoa (uint w))" "CHR 0x0D \<notin> set (itoa (uint w))" "length (itoa (uint w)) \<le> 20"
proof -
  have i: "itoa (uint w) = dec_digits (unat w)" by (simp add: itoa_def not_less)
  have "\<not> is_digit newline" "\<not> is_digit (CHR 0x0D)" by code_simp+
  with i show "newline \<notin> set (itoa (uint w))" "CHR 0x0D \<notin> set (itoa (uint w))"
    using digit_chars by auto
  have "unat w < 2 ^ 64" using unsigned_less [of w] by simp
  also have "\<dots> < (10 :: nat) ^ Suc 19" by simp
  finally show "length (itoa (uint w)) \<le> 20" using i length_dec_digits [of "unat w" 19] by simp
qed

lemma item_lines_fit:
  assumes "\<And>ev. it = Sent ev \<Longrightarrow> one_line (enc ev)" and "l \<in> set (item_lines enc it)"
  shows "newline \<notin> set l \<and> drop_cr l = l \<and> length l < max_line"
proof (cases it)
  case Heartbeat
  with assms(2) have "l = '': heartbeat'' \<or> l = []" by (simp add: item_lines_def)
  then show ?thesis by (rule disjE) (simp_all add: newline_def drop_cr_def max_line_def)
next
  case (Sent ev)
  have fits: "n < 60 \<Longrightarrow> n < max_line" for n by (simp add: max_line_def)
  have cr: "CHR 0x0D \<notin> set l \<Longrightarrow> drop_cr l = l" for l using last_in_set by (fastforce simp: drop_cr_def)
  from Sent assms(2) consider "l = ''id: '' @ itoa (uint (ev_seq ev))" | "l = ''event: '' @ event_name (ev_type ev)"
    | "l = ''data: '' @ enc ev" | "l = []"
    by (auto simp: item_lines_def)
  then show ?thesis
  proof cases
    case 1
    then show ?thesis using seq_line [of "ev_seq ev"] by (auto simp: newline_def intro!: cr fits)
  next
    case 2
    then show ?thesis by (cases "ev_type ev") (auto simp: newline_def intro!: cr fits)
  next
    case 3
    then show ?thesis using assms(1) [OF Sent] by (auto simp: one_line_def newline_def drop_cr_def)
  next
    case 4
    then show ?thesis by (simp add: drop_cr_def max_line_def)
  qed
qed

lemma scan_lines_clean:
  "str_split newline s = ls @ [[]] \<Longrightarrow> takeWhile (\<lambda>l. length l < n) ls = ls \<Longrightarrow> List.map drop_cr ls = ls \<Longrightarrow>
     scan_lines n s = ls"
  by (simp add: scan_lines_def del: takeWhile_eq_all_conv)

lemma scan_stream:
  assumes "\<And>ev. Sent ev \<in> set items \<Longrightarrow> one_line (enc ev)"
  shows "scan_lines max_line (stream_text enc items) = concat (List.map (item_lines enc) items)"
proof -
  let ?ls = "concat (List.map (item_lines enc) items)"
  have fit: "newline \<notin> set l \<and> drop_cr l = l \<and> length l < max_line" if "l \<in> set ?ls" for l
  proof -
    from that obtain it where it: "it \<in> set items" "l \<in> set (item_lines enc it)" by auto
    show ?thesis by (rule item_lines_fit [OF _ it(2)]) (use assms it(1) in blast)
  qed
  have "stream_text enc items = concat (List.map (\<lambda>l. l @ [newline]) ?ls)"
    unfolding stream_text_def by (induction items) (simp_all add: item_text_lines)
  then have split: "str_split newline (stream_text enc items) = ?ls @ [[]]"
    using fit by (simp add: str_split_lines)
  have tw: "takeWhile (\<lambda>l. length l < max_line) ?ls = ?ls"
    unfolding takeWhile_eq_all_conv using fit by blast
  have "List.map drop_cr ?ls = ?ls" using fit by (intro map_idI) blast
  from scan_lines_clean [OF split tw this] show ?thesis .
qed

lemma item_event:
  assumes "\<And>ev. it = Sent ev \<Longrightarrow> dec (enc ev) = Some ev"
  shows "List.map_filter (\<lambda>l. if has_prefix l ''data: '' then dec (drop 6 l) else None) (item_lines enc it)
           = (case it of Heartbeat \<Rightarrow> [] | Sent ev \<Rightarrow> [ev])"
  using assms by (cases it) (simp_all add: item_lines_def map_filter_simps)

lemma map_filter_concat: "List.map_filter f (concat xss) = concat (List.map (List.map_filter f) xss)"
  by (induction xss) (simp_all add: map_filter_def)

text \<open>The client reads from the stream exactly the events the server wrote on it, in order, whatever
  heartbeats lie between them, as long as the JSON of an event is one line that fits the client's buffer.
\<close>

theorem events_arrive:
  assumes "\<And>ev. Sent ev \<in> set items \<Longrightarrow> one_line (enc ev) \<and> dec (enc ev) = Some ev"
  shows "read_events dec (stream_text enc items) = List.map_filter stream_event items"
proof -
  let ?f = "\<lambda>l. if has_prefix l ''data: '' then dec (drop 6 l) else None"
  have "read_events dec (stream_text enc items) = concat (List.map (List.map_filter ?f) (List.map (item_lines enc) items))"
    using assms by (simp add: read_events_def scan_stream map_filter_concat)
  also have "\<dots> = concat (List.map (\<lambda>it. case it of Heartbeat \<Rightarrow> [] | Sent ev \<Rightarrow> [ev]) items)"
    using assms by (intro arg_cong [where f = concat]) (auto intro!: item_event)
  also have "\<dots> = List.map_filter stream_event items"
    by (induction items) (auto simp: map_filter_def stream_event_def split: stream_item.split)
  finally show ?thesis .
qed

text \<open>A subscriber is always told of losses, whatever types and host it asked for.\<close>

lemma losses_are_told:
  "ev_type ev = EvDropped \<Longrightarrow> ev_flow ev = None \<Longrightarrow> event_wanted types host ev"
  by (simp add: event_wanted_def)

definition sample_stream :: "stream_item list" where
  "sample_stream = [Heartbeat, Sent (plain_event 7), Heartbeat, Heartbeat, Sent (plain_event 9)]"

definition sample_event_enc :: "event \<Rightarrow> string" where
  "sample_event_enc ev = itoa (uint (ev_seq ev))"

definition sample_event_dec :: "string \<Rightarrow> event option" where
  "sample_event_dec s = map_option (\<lambda>n. plain_event (nat n)) (atoi s)"

lemma events_arrive_witness:
  "read_events sample_event_dec (stream_text sample_event_enc sample_stream) = [plain_event 7, plain_event 9]"
proof -
  have seven: "sample_event_enc (plain_event 7) = ''7''" "sample_event_enc (plain_event 9) = ''9''"
    "atoi ''7'' = Some 7" "atoi ''9'' = Some 9" by code_simp+
  have items: "one_line (sample_event_enc ev) \<and> sample_event_dec (sample_event_enc ev) = Some ev"
    if "Sent ev \<in> set sample_stream" for ev
    using that by (auto simp: sample_stream_def seven one_line_def newline_def max_line_def sample_event_dec_def)
  from events_arrive [of sample_stream sample_event_enc sample_event_dec, OF items]
  show ?thesis by (simp add: sample_stream_def stream_event_def map_filter_simps)
qed

end
