(* ===== verification/Spec2Isabelle.thy ===== *)
theory Spec2Isabelle
  imports Bus Store_Row Store_Sessions Store_Blobs Store_WS Rules_Presets Rules_Hold Rules_Throttle
    Proxy_WebSocket View_JsonDiff View_Render Sysproxy_Undo Update Daemon_Decrypt Daemon_Har Daemon_Requests
    Daemon_Lifecycle Authority Control_Routes Control_Events
begin

text \<open>
  Verification of the core of pano, an intercepting HTTP proxy written in Go (\<open>src/internal\<close>).

  What the program does. Clients connect to the proxy (\<open>proxy\<close>), which records every exchange as a
  \<open>flow\<close>, passes it through the rule engine (\<open>rules\<close>) and stores it: flows in a bounded ring with
  content-addressed bodies, WebSocket messages and sessions (\<open>store\<close>). Every change is published on
  an event bus (\<open>bus\<close>), from which the command line, the terminal interface, the HTTP control API
  and the MCP server are fed; these query the store through filters.

  The theories, and the code they model:

  \<^item> \<open>Prelude\<close>: what the model needs of Go and its library: strings as byte lists and the functions
    of \<open>strings\<close> and \<open>strconv\<close>, 64-bit integers (\<open>wrap_int\<close>), times, maps as association lists,
    errors in a sum type (\<open>and_then\<close>, \<open>check_that\<close>). \<open>Http\<close>: header maps, URLs, requests, responses.
  \<^item> \<open>Flow\<close> (\<open>flow/\<close>): ids, their base-32 text, the flow record, events. \<open>Glob\<close> (\<open>glob/\<close>): wildcard
    matching. \<open>Mimeclass\<close> (\<open>mimeclass/\<close>). \<open>Net\<close>: the address parsing the filters use.
  \<^item> \<open>Bus\<close> (\<open>bus/bus.go\<close>): subscribers with bounded queues; the locale \<open>lossy_queue\<close> states what a
    subscriber relies on and is interpreted by the bus's own push.
  \<^item> \<open>Store_Mem\<close> (\<open>store/mem.go\<close>): the flow ring, refined to a bounded list; \<open>Store_Blobs\<close>
    (\<open>blob.go\<close>): bodies under a byte budget; \<open>Store_WS\<close> (\<open>ws.go\<close>); \<open>Store_Sessions\<close>
    (\<open>sessions.go\<close>); \<open>Store_Decode\<close> (\<open>decode.go\<close>): content codings; \<open>Store_Filter\<close> (\<open>filter.go\<close>): the
    query language; \<open>Store_Row\<close> (\<open>row.go\<close>): rows, number formats, paging.
  \<^item> \<open>Rules_Match\<close> (\<open>rules/match.go\<close>) and \<open>Rules_Compile\<close> (\<open>compile.go\<close>): rules, their validation and
    matchers. \<open>Rules_Engine\<close> (\<open>engine.go\<close>): the rule set as a store of compiled rules, the published
    snapshot, the rules file and the goroutines that reap and save. \<open>Rules_Gate\<close> (\<open>apply.go\<close>): the
    hit counter under concurrent requests. \<open>Rules_Presets\<close> (\<open>presets.go\<close>). \<open>Rules_Body\<close> (\<open>body.go\<close>)
    and \<open>Rules_Apply\<close> (\<open>apply.go\<close>, edits of \<open>hold.go\<close>): what actions do to an exchange.
    \<open>Rules_Hold\<close> (\<open>hold.go\<close>): the breakpoint registry as a step relation. \<open>Rules_Throttle\<close>
    (\<open>throttle.go\<close>).

  How it is modelled. A struct is a record, an enumeration a datatype, a method a function from the
  state to the result and the new state; errors are values; a lock makes a method one step, and where
  the code works with atomics, channels or goroutines the theory has explicit steps and any
  interleaving of them (\<open>Rules_Gate\<close>, \<open>Rules_Hold\<close>, the tasks of \<open>Rules_Engine\<close>). Shared mutable
  objects reached through several references (compiled rules, breakpoint entries) are positions in a
  list. Loops are structural recursion or recursion with a measure; nothing needs fuel.
  Compression, regular expressions, templates, the JSON codec, hashing, random numbers, clocks and
  URL parsing are parameters; hypotheses on them are stated where they are used.

  What the lemmas show. Each theory proves the invariant of its state for every run of its operations,
  the effect of each operation, and how it relates to a simpler description: the ring to a bounded
  list, filters to conjunctions of independent conditions, paging to the list of all matches, glob
  patterns to an inductive language, status expressions to sets of codes, a restarted rule engine to
  the one that saved its file. Where the code does not do what its documentation says, a theorem shows
  the behaviour.

  Not modelled: the terminal interface, command line, control API and MCP server (presentation and
  transport over the parts modelled here), the certificate authority and system proxy settings
  (cryptographic and operating-system libraries), and the parts named in the theories: encodings of
  JSON files, logging, and the printing of error texts.
\<close>

end
